(* ===== verification/Prelude.thy ===== *)
theory Prelude
  imports Main "HOL-Library.Sublist" "HOL-Library.Word"
begin

text \<open>
  Shared vocabulary of the development: how the server stops (\<open>halt\<close>), computations that may
  stop (\<open>result\<close>), the width of C integers, the character classes of the C locale that
  \<^verbatim>\<open>sysutil.c\<close> wraps, C strings, and the list lemmas the components use.
\<close>

named_theorems halt_simps \<open>unfolding of the stopping combinators\<close>
named_theorems width_simps \<open>unfolding of the integer-width constants\<close>

section \<open>Stopping\<close>

text \<open>
  \<^verbatim>\<open>utility.c\<close>: \<open>bug\<close> writes ``500 OOPS: text'' to the command descriptor and exits with code 1;
  \<open>die\<close> calls \<open>bug\<close>, because the file defines \<^verbatim>\<open>DIE_DEBUG\<close>. \<open>Exit\<close> is
  \<open>vsf_sysutil_exit\<close>. \<open>Undef\<close> is a step whose behaviour C leaves undefined: an access outside
  an object, a read of a byte nobody wrote.
\<close>

datatype halt = Bug string | Exit int | Undef

type_synonym 'a result = "halt + 'a"

definition bug :: "string \<Rightarrow> 'a result" where
  "bug p_text = Inl (Bug p_text)"

definition die :: "string \<Rightarrow> 'a result" where
  "die p_text = bug p_text"

definition die2 :: "string \<Rightarrow> string \<Rightarrow> 'a result" where
  "die2 p_text1 p_text2 = die (p_text1 @ p_text2)"

fun andthen :: "'a result \<Rightarrow> ('a \<Rightarrow> 'b result) \<Rightarrow> 'b result" where
  "andthen (Inl h) f = Inl h"
| "andthen (Inr a) f = f a"

declare bug_def [halt_simps] die_def [halt_simps] die2_def [halt_simps]

lemma andthen_Inr_iff: "andthen m f = Inr b \<longleftrightarrow> (\<exists>a. m = Inr a \<and> f a = Inr b)"
  by (cases m) auto

lemma andthen_Inl_iff:
  "andthen m f = Inl h \<longleftrightarrow> m = Inl h \<or> (\<exists>a. m = Inr a \<and> f a = Inl h)"
  by (cases m) auto

lemma andthen_cong [fundef_cong]:
  "m = m' \<Longrightarrow> (\<And>a. m' = Inr a \<Longrightarrow> f a = g a) \<Longrightarrow> andthen m f = andthen m' g"
  by (cases m') auto

section \<open>Integer widths\<close>

text \<open>\<^verbatim>\<open>unsigned int\<close> is 32 bits wide; \<open>u32\<close> is the value a 32-bit object holds.\<close>

definition u32 :: "nat \<Rightarrow> nat" where
  "u32 n = n mod 4294967296"

definition INT_MAX :: nat where
  "INT_MAX = 2147483647"

declare u32_def [width_simps] INT_MAX_def [width_simps]

lemma u32_small [simp]: "n < 4294967296 \<Longrightarrow> u32 n = n"
  by (simp add: u32_def)

section \<open>Characters\<close>

abbreviation NUL :: char where "NUL \<equiv> CHR 0x00"
abbreviation LF :: char where "LF \<equiv> CHR 0x0A"
abbreviation CR :: char where "CR \<equiv> CHR 0x0D"
abbreviation QUOTE :: char where "QUOTE \<equiv> CHR 0x22"
abbreviation IAC :: char where "IAC \<equiv> CHR 0xFF"

abbreviation code :: "char \<Rightarrow> nat" where "code c \<equiv> of_char c"

definition vsf_sysutil_isspace :: "char \<Rightarrow> bool" where
  "vsf_sysutil_isspace c \<longleftrightarrow> code c = 32 \<or> (9 \<le> code c \<and> code c \<le> 13)"

definition vsf_sysutil_isdigit :: "char \<Rightarrow> bool" where
  "vsf_sysutil_isdigit c \<longleftrightarrow> 48 \<le> code c \<and> code c \<le> 57"

definition vsf_sysutil_isalnum :: "char \<Rightarrow> bool" where
  "vsf_sysutil_isalnum c \<longleftrightarrow>
     (48 \<le> code c \<and> code c \<le> 57) \<or> (65 \<le> code c \<and> code c \<le> 90) \<or> (97 \<le> code c \<and> code c \<le> 122)"

definition vsf_sysutil_toupper :: "char \<Rightarrow> char" where
  "vsf_sysutil_toupper c =
     (if 97 \<le> code c \<and> code c \<le> 122 then char_of (code c - 32) else c)"

text \<open>
  The tests before the call of \<open>isprint\<close> are those of the source; the last conjunct is
  \<open>isprint\<close> in the C locale, the only one the server runs in (it never calls \<open>setlocale\<close>).
\<close>

definition vsf_sysutil_isprint :: "char \<Rightarrow> bool" where
  "vsf_sysutil_isprint c =
     (if code c \<le> 31 then False
      else if code c = 177 then False
      else if 128 \<le> code c \<and> code c \<le> 159 then False
      else 32 \<le> code c \<and> code c \<le> 126)"

lemma isprint_range: "vsf_sysutil_isprint c \<longleftrightarrow> 32 \<le> code c \<and> code c \<le> 126"
  by (auto simp: vsf_sysutil_isprint_def)

section \<open>C strings\<close>

text \<open>What \<open>strlen\<close> and its kin see of a buffer: the bytes before the first NUL.\<close>

definition c_str :: "string \<Rightarrow> string" where
  "c_str s = takeWhile (\<lambda>c. c \<noteq> NUL) s"

lemma c_str_id [simp]: "NUL \<notin> set s \<Longrightarrow> c_str s = s"
  by (induction s) (auto simp: c_str_def)

lemma c_str_no_nul [simp]: "NUL \<notin> set (c_str s)"
  by (auto simp: c_str_def dest: set_takeWhileD)

lemma c_str_Nil [simp]: "c_str [] = []"
  by (simp add: c_str_def)

lemma length_c_str: "length (c_str s) \<le> length s"
  by (simp add: c_str_def length_takeWhile_le)

lemma prefix_c_str: "prefix (c_str s) s"
  by (simp add: c_str_def takeWhile_is_prefix)

section \<open>Lists\<close>

lemma take_eq_prefix: "take (length t) s = t \<longleftrightarrow> prefix t s"
  by (metis append_eq_conv_conj append_take_drop_id prefix_def)

lemma prefix_drop_append: "prefix t s \<Longrightarrow> t @ drop (length t) s = s"
  by (auto simp: prefix_def)

lemma length_takeWhile_less_iff:
  "length (takeWhile P xs) < length xs \<longleftrightarrow> (\<exists>x\<in>set xs. \<not> P x)"
  by (induction xs) auto

lemma nth_length_takeWhile_not:
  "length (takeWhile P xs) < length xs \<Longrightarrow> \<not> P (xs ! length (takeWhile P xs))"
  by (rule nth_length_takeWhile)

lemma takeWhile_cut [simp]: "c \<notin> set l \<Longrightarrow> takeWhile (\<lambda>x. x \<noteq> c) (l @ c # r) = l"
  by (induction l) auto

lemma dropWhile_cut [simp]: "c \<notin> set l \<Longrightarrow> dropWhile (\<lambda>x. x \<noteq> c) (l @ c # r) = c # r"
  by (induction l) auto

lemma length_tl_dropWhile [simp]: "s \<noteq> [] \<Longrightarrow> length (dropWhile P s) - Suc 0 < length s"
  using length_dropWhile_le [of P s] by (cases s) auto

lemma takeWhile_all [simp]: "c \<notin> set l \<Longrightarrow> takeWhile (\<lambda>x. x \<noteq> c) l = l"
  by (induction l) auto

lemma dropWhile_all [simp]: "c \<notin> set l \<Longrightarrow> dropWhile (\<lambda>x. x \<noteq> c) l = []"
  by (induction l) auto

lemma hd_nth0: "xs \<noteq> [] \<Longrightarrow> xs ! 0 = hd xs"
  by (simp add: hd_conv_nth)

lemma sum_list_concat_length: "length (concat xss) = sum_list (map length xss)"
  by (simp add: length_concat)

end
