(* ===== verification/Str.thy ===== *)
theory Str
  imports Prelude
begin

text \<open>
  \<^verbatim>\<open>str.c\<close> on string values. A \<open>struct mystr\<close> is seen here as the characters its buffer holds up
  to \<open>len\<close>; the buffer itself, its allocation and its bounds are the subject of \<open>Str_Buf\<close>. A C string
  argument is the list of its bytes, of which the functions see \<open>c_str\<close>, the bytes before
  the first NUL. Copying, emptying and appending are list operations at this level.
\<close>

named_theorems str_simps \<open>characterisations of the string operations\<close>

section \<open>Locating\<close>

record str_locate_result =
  found :: bool
  index :: nat
  char_found :: char

definition locate_miss :: str_locate_result where
  "locate_miss = \<lparr>found = False, index = 0, char_found = NUL\<rparr>"

definition locate_hit :: "nat \<Rightarrow> str_locate_result" where
  "locate_hit i = \<lparr>found = True, index = i, char_found = NUL\<rparr>"

text \<open>The \<open>for\<close> loop of \<open>str_locate_text\<close>: \<open>i\<close> is the index, \<open>buf\<close> the bytes from \<open>i\<close> on.\<close>

fun locate_text_loop :: "nat \<Rightarrow> string \<Rightarrow> string \<Rightarrow> str_locate_result" where
  "locate_text_loop i [] tx = locate_miss"
| "locate_text_loop i (c # buf) tx =
     (if length tx \<le> length (c # buf)
      then if take (length tx) (c # buf) = tx then locate_hit i
           else locate_text_loop (Suc i) buf tx
      else locate_miss)"

definition str_locate_text :: "string \<Rightarrow> string \<Rightarrow> str_locate_result" where
  "str_locate_text p_str p_text =
     (let tx = c_str p_text in
      if length tx = 0 \<or> length tx > length p_str then locate_miss
      else locate_text_loop 0 p_str tx)"

primrec locate_text_reverse_loop :: "nat \<Rightarrow> string \<Rightarrow> string \<Rightarrow> str_locate_result" where
  "locate_text_reverse_loop 0 buf tx =
     (if take (length tx) buf = tx then locate_hit 0 else locate_miss)"
| "locate_text_reverse_loop (Suc i) buf tx =
     (if take (length tx) (drop (Suc i) buf) = tx then locate_hit (Suc i)
      else locate_text_reverse_loop i buf tx)"

definition str_locate_text_reverse :: "string \<Rightarrow> string \<Rightarrow> str_locate_result" where
  "str_locate_text_reverse p_str p_text =
     (let tx = c_str p_text in
      if length tx = 0 \<or> length tx > length p_str then locate_miss
      else locate_text_reverse_loop (length p_str - length tx) p_str tx)"

definition str_locate_str :: "string \<Rightarrow> string \<Rightarrow> str_locate_result" where
  "str_locate_str p_str p_look_str = str_locate_text p_str p_look_str"

definition str_locate_str_reverse :: "string \<Rightarrow> string \<Rightarrow> str_locate_result" where
  "str_locate_str_reverse p_str p_look_str = str_locate_text_reverse p_str p_look_str"

definition str_locate_char :: "string \<Rightarrow> char \<Rightarrow> str_locate_result" where
  "str_locate_char p_str look_char = str_locate_text p_str [look_char]"

fun locate_chars_loop :: "nat \<Rightarrow> string \<Rightarrow> string \<Rightarrow> str_locate_result" where
  "locate_chars_loop i [] chars = locate_miss"
| "locate_chars_loop i (this_char # buf) chars =
     (if this_char \<in> set chars
      then \<lparr>found = True, index = i, char_found = this_char\<rparr>
      else locate_chars_loop (Suc i) buf chars)"

definition str_locate_chars :: "string \<Rightarrow> string \<Rightarrow> str_locate_result" where
  "str_locate_chars p_str p_chars = locate_chars_loop 0 p_str (c_str p_chars)"

section \<open>Comparing\<close>

text \<open>\<open>memcmp\<close> on two runs of bytes of the same length: the sign of the first difference.\<close>

fun vsf_sysutil_memcmp :: "string \<Rightarrow> string \<Rightarrow> int" where
  "vsf_sysutil_memcmp (a # as) (b # bs) =
     (if code a < code b then -1 else if code a > code b then 1 else vsf_sysutil_memcmp as bs)"
| "vsf_sysutil_memcmp _ _ = 0"

definition str_equal_internal :: "string \<Rightarrow> string \<Rightarrow> int" where
  "str_equal_internal buf1 buf2 =
     (let minlen = (if length buf2 < length buf1 then length buf2 else length buf1);
          retval = vsf_sysutil_memcmp (take minlen buf1) (take minlen buf2)
      in if retval \<noteq> 0 \<or> length buf1 = length buf2 then retval
         else (int (length buf1) - int (length buf2) + 2147483648) mod 4294967296 - 2147483648)"

definition str_strcmp :: "string \<Rightarrow> string \<Rightarrow> int" where
  "str_strcmp p_str1 p_str2 = str_equal_internal p_str1 p_str2"

definition str_equal :: "string \<Rightarrow> string \<Rightarrow> bool" where
  "str_equal p_str1 p_str2 \<longleftrightarrow> str_strcmp p_str1 p_str2 = 0"

definition str_equal_text :: "string \<Rightarrow> string \<Rightarrow> bool" where
  "str_equal_text p_str p_text \<longleftrightarrow> str_equal_internal p_str (c_str p_text) = 0"

section \<open>Splitting and replacing\<close>

definition str_split_text_common :: "string \<Rightarrow> string \<Rightarrow> bool \<Rightarrow> string \<times> string" where
  "str_split_text_common p_src p_text is_reverse =
     (let search_len = length (c_str p_text);
          r = (if is_reverse then str_locate_text_reverse p_src p_text
               else str_locate_text p_src p_text)
      in if \<not> found r then (p_src, [])
         else (take (index r) p_src, drop (index r + search_len) p_src))"

definition str_split_text :: "string \<Rightarrow> string \<Rightarrow> string \<times> string" where
  "str_split_text p_src p_text = str_split_text_common p_src p_text False"

definition str_split_text_reverse :: "string \<Rightarrow> string \<Rightarrow> string \<times> string" where
  "str_split_text_reverse p_src p_text = str_split_text_common p_src p_text True"

definition str_split_char :: "string \<Rightarrow> char \<Rightarrow> string \<times> string" where
  "str_split_char p_src c = str_split_text p_src [c]"

definition str_split_char_reverse :: "string \<Rightarrow> char \<Rightarrow> string \<times> string" where
  "str_split_char_reverse p_src c = str_split_text_reverse p_src [c]"

definition str_replace_char :: "string \<Rightarrow> char \<Rightarrow> char \<Rightarrow> string" where
  "str_replace_char p_str c1 c2 = map (\<lambda>c. if c = c1 then c2 else c) p_str"

definition str_upper :: "string \<Rightarrow> string" where
  "str_upper p_str = map vsf_sysutil_toupper p_str"

definition str_replace_unprintable :: "string \<Rightarrow> char \<Rightarrow> string" where
  "str_replace_unprintable p_str new_char =
     map (\<lambda>c. if \<not> vsf_sysutil_isprint c then new_char else c) p_str"

definition str_rpad :: "string \<Rightarrow> nat \<Rightarrow> string" where
  "str_rpad p_str min_width =
     (if length p_str \<ge> min_width then p_str
      else p_str @ replicate (min_width - length p_str) CHR '' '')"

definition str_lpad :: "string \<Rightarrow> nat \<Rightarrow> string" where
  "str_lpad p_str min_width =
     (if length p_str \<ge> min_width then p_str
      else replicate (min_width - length p_str) CHR '' '' @ p_str)"

section \<open>Parts and tests\<close>

definition str_left :: "string \<Rightarrow> nat \<Rightarrow> string result" where
  "str_left p_str chars =
     (if chars > length p_str then bug ''chars invalid in str_left''
      else Inr (take chars p_str))"

definition str_right :: "string \<Rightarrow> nat \<Rightarrow> string result" where
  "str_right p_str chars =
     (if chars > length p_str then bug ''chars invalid in str_right''
      else Inr (take chars (drop (length p_str - chars) p_str)))"

definition str_mid_to_end :: "string \<Rightarrow> nat \<Rightarrow> string result" where
  "str_mid_to_end p_str indexx =
     (if indexx > length p_str then bug ''invalid indexx in str_mid_to_end''
      else Inr (drop indexx p_str))"

definition str_get_char_at :: "string \<Rightarrow> nat \<Rightarrow> char result" where
  "str_get_char_at p_str indexx =
     (if indexx \<ge> length p_str then bug ''bad indexx in str_get_char_at''
      else Inr (p_str ! indexx))"

definition str_contains_space :: "string \<Rightarrow> bool" where
  "str_contains_space p_str = list_ex vsf_sysutil_isspace p_str"

definition str_all_space :: "string \<Rightarrow> bool" where
  "str_all_space p_str = list_all vsf_sysutil_isspace p_str"

definition str_contains_unprintable :: "string \<Rightarrow> bool" where
  "str_contains_unprintable p_str = list_ex (\<lambda>c. \<not> vsf_sysutil_isprint c) p_str"

section \<open>Lines\<close>

text \<open>\<open>str_getline\<close> returns the code, the line and the new position.\<close>

definition str_getline :: "string \<Rightarrow> nat \<Rightarrow> (bool \<times> string \<times> nat) result" where
  "str_getline p_str start_pos =
     (let buf_len = length p_str in
      if start_pos > buf_len then bug ''p_pos out of range in str_getline''
      else if start_pos = buf_len then Inr (False, [], start_pos)
      else let line = takeWhile (\<lambda>c. c \<noteq> LF) (drop start_pos p_str);
               curr_pos = start_pos + length line;
               next_pos = (if curr_pos < buf_len \<and> p_str ! curr_pos = LF
                           then curr_pos + 1 else curr_pos)
           in Inr (True, line, next_pos))"

lemma str_getline_True:
  assumes "str_getline s p = Inr (True, line, p')"
  shows "p < length s" and "p < p'" and "p' \<le> length s"
proof -
  show lt: "p < length s"
    using assms by (auto simp: str_getline_def halt_simps Let_def split: if_splits)
  let ?l = "takeWhile (\<lambda>c. c \<noteq> LF) (drop p s)"
  have bnd: "p + length ?l \<le> length s"
    using length_takeWhile_le [of "\<lambda>c. c \<noteq> LF" "drop p s"] lt by simp
  have p': "p' = (if p + length ?l < length s \<and> s ! (p + length ?l) = LF
                  then p + length ?l + 1 else p + length ?l)"
    using assms lt by (auto simp: str_getline_def Let_def split: if_splits)
  show "p' \<le> length s"
    using bnd p' by (auto split: if_splits)
  have "length ?l = 0 \<Longrightarrow> s ! p = LF"
    using lt by (simp add: Cons_nth_drop_Suc [symmetric] split: if_splits)
  with p' lt show "p < p'"
    by (cases "length ?l = 0") (auto split: if_splits)
qed

lemma str_getline_decr:
  "str_getline s p = Inr (True, line, p') \<Longrightarrow> length s - p' < length s - p"
  using str_getline_True [of s p line p'] by auto

text \<open>\<open>while (str_getline(s, line, pos)) ...\<close> collected as the list of lines.\<close>

function str_lines_from :: "string \<Rightarrow> nat \<Rightarrow> string list" where
  "str_lines_from s pos =
     (case str_getline s pos of
        Inl h \<Rightarrow> []
      | Inr (got, line, pos') \<Rightarrow> if got then line # str_lines_from s pos' else [])"
  by pat_completeness auto
termination
  by (relation "measure (\<lambda>(s, pos). length s - pos)") (auto intro: str_getline_decr)

function contains_line_from :: "string \<Rightarrow> nat \<Rightarrow> string \<Rightarrow> bool" where
  "contains_line_from p_str pos p_line_str =
     (case str_getline p_str pos of
        Inl h \<Rightarrow> False
      | Inr (got, line, pos') \<Rightarrow>
          if got then (if line = p_line_str then True
                        else contains_line_from p_str pos' p_line_str)
          else False)"
  by pat_completeness auto
termination
  by (relation "measure (\<lambda>(s, pos, l). length s - pos)") (auto intro: str_getline_decr)

definition str_contains_line :: "string \<Rightarrow> string \<Rightarrow> bool" where
  "str_contains_line p_str p_line_str = contains_line_from p_str 0 p_line_str"

declare str_lines_from.simps [simp del] contains_line_from.simps [simp del]

section \<open>What the operations compute\<close>

text \<open>An occurrence of \<open>t\<close> in \<open>s\<close> at \<open>k\<close> is \<open>prefix t (drop k s)\<close>.\<close>

lemma found_locate [simp]:
  "found (locate_hit i)" "index (locate_hit i) = i" "\<not> found locate_miss" "index locate_miss = 0"
  by (simp_all add: locate_hit_def locate_miss_def)

lemma prefix_drop_bound: "prefix t (drop k s) \<Longrightarrow> t \<noteq> [] \<Longrightarrow> k + length t \<le> length s"
  by (auto simp: prefix_def) (metis length_append length_drop less_imp_diff_less diff_is_0_eq
      drop_eq_Nil le_add1 le_add_diff_inverse nat_le_linear append_is_Nil_conv add_le_cancel_left)

lemma locate_text_loop_cases:
  assumes "t \<noteq> []"
  shows "(\<exists>k. locate_text_loop i s t = locate_hit (i + k) \<and> prefix t (drop k s)
              \<and> (\<forall>j<k. \<not> prefix t (drop j s)))
         \<or> (locate_text_loop i s t = locate_miss \<and> (\<forall>k. \<not> prefix t (drop k s)))"
proof (induction s arbitrary: i)
  case Nil
  with assms show ?case by simp
next
  case (Cons c s)
  show ?case
  proof (cases "prefix t (c # s)")
    case True
    then have "locate_text_loop i (c # s) t = locate_hit (i + 0)"
      by (auto simp: take_eq_prefix dest: prefix_length_le)
    with True show ?thesis by (intro disjI1 exI [of _ 0]) auto
  next
    case no: False
    show ?thesis
    proof (cases "length t \<le> length (c # s)")
      case True
      with no have eq: "locate_text_loop i (c # s) t = locate_text_loop (Suc i) s t"
        by (simp add: take_eq_prefix [of t "c # s", simplified])
      from Cons.IH [of "Suc i"] show ?thesis
      proof
        assume "\<exists>k. locate_text_loop (Suc i) s t = locate_hit (Suc i + k) \<and> prefix t (drop k s)
                  \<and> (\<forall>j<k. \<not> prefix t (drop j s))"
        then obtain k where "locate_text_loop (Suc i) s t = locate_hit (Suc i + k)"
          "prefix t (drop k s)" "\<forall>j<k. \<not> prefix t (drop j s)" by blast
        with eq no show ?thesis
          by (intro disjI1 exI [of _ "Suc k"]) (auto simp: less_Suc_eq_0_disj)
      next
        assume "locate_text_loop (Suc i) s t = locate_miss \<and> (\<forall>k. \<not> prefix t (drop k s))"
        with eq no show ?thesis by (auto simp: drop_Cons split: nat.splits)
      qed
    next
      case False
      then have "locate_text_loop i (c # s) t = locate_miss" by simp
      moreover have "\<not> prefix t (drop k (c # s))" for k
        using False prefix_drop_bound [of t k "c # s"] assms by auto
      ultimately show ?thesis by blast
    qed
  qed
qed

lemma locate_text_reverse_loop_cases:
  "(\<exists>k\<le>i. locate_text_reverse_loop i s t = locate_hit k \<and> prefix t (drop k s)
           \<and> (\<forall>j. k < j \<and> j \<le> i \<longrightarrow> \<not> prefix t (drop j s)))
   \<or> (locate_text_reverse_loop i s t = locate_miss \<and> (\<forall>j\<le>i. \<not> prefix t (drop j s)))"
proof (induction i)
  case 0
  show ?case by (auto simp: take_eq_prefix)
next
  case (Suc i)
  show ?case
  proof (cases "prefix t (drop (Suc i) s)")
    case True
    then show ?thesis by (auto simp: take_eq_prefix intro!: exI [of _ "Suc i"])
  next
    case False
    with Suc show ?thesis
      by (simp add: take_eq_prefix) (metis le_Suc_eq)
  qed
qed

text \<open>The two searches find the first and the last occurrence, or report that there is none.\<close>

lemma str_locate_text_cases:
  assumes "c_str t \<noteq> []"
  obtains (hit) k where "str_locate_text s t = locate_hit k" "prefix (c_str t) (drop k s)"
      "\<And>j. j < k \<Longrightarrow> \<not> prefix (c_str t) (drop j s)"
  | (miss) "str_locate_text s t = locate_miss" "\<And>k. \<not> prefix (c_str t) (drop k s)"
proof (cases "length (c_str t) > length s")
  case True
  then have "\<not> prefix (c_str t) (drop k s)" for k
    using prefix_drop_bound [of "c_str t" k s] assms by auto
  with True show ?thesis by (intro miss) (auto simp: str_locate_text_def)
next
  case False
  with assms have "str_locate_text s t = locate_text_loop 0 s (c_str t)"
    by (simp add: str_locate_text_def Let_def)
  with locate_text_loop_cases [OF assms, of 0 s] show ?thesis
    using hit miss by auto
qed

lemma str_locate_text_empty: "c_str t = [] \<Longrightarrow> str_locate_text s t = locate_miss"
  by (simp add: str_locate_text_def)

lemma str_locate_text_reverse_cases:
  assumes "c_str t \<noteq> []"
  obtains (hit) k where "str_locate_text_reverse s t = locate_hit k" "prefix (c_str t) (drop k s)"
      "\<And>j. k < j \<Longrightarrow> \<not> prefix (c_str t) (drop j s)"
  | (miss) "str_locate_text_reverse s t = locate_miss" "\<And>k. \<not> prefix (c_str t) (drop k s)"
proof (cases "length (c_str t) > length s")
  case True
  then have "\<not> prefix (c_str t) (drop k s)" for k
    using prefix_drop_bound [of "c_str t" k s] assms by auto
  with True show ?thesis by (intro miss) (auto simp: str_locate_text_reverse_def)
next
  case False
  let ?i = "length s - length (c_str t)"
  have far: "\<not> prefix (c_str t) (drop j s)" if "?i < j" for j
    using that prefix_drop_bound [of "c_str t" j s] assms by auto
  from False assms have "str_locate_text_reverse s t = locate_text_reverse_loop ?i s (c_str t)"
    by (simp add: str_locate_text_reverse_def Let_def)
  with locate_text_reverse_loop_cases [of ?i s "c_str t"] far show ?thesis
    using hit miss by (metis not_le)
qed

lemma str_split_text_cases:
  assumes "c_str t \<noteq> []"
  obtains (hit) l r where "str_split_text s t = (l, r)" "s = l @ c_str t @ r"
      "\<And>j. j < length l \<Longrightarrow> \<not> prefix (c_str t) (drop j s)"
  | (miss) "str_split_text s t = (s, [])" "\<And>k. \<not> prefix (c_str t) (drop k s)"
proof (cases rule: str_locate_text_cases [OF assms, of s])
  case (1 k)
  have bound: "k + length (c_str t) \<le> length s"
    using 1(2) assms by (rule prefix_drop_bound)
  have eq: "s = take k s @ c_str t @ drop (k + length (c_str t)) s"
    using prefix_drop_append [OF 1(2)] by (metis append_take_drop_id drop_drop add.commute)
  have "str_split_text s t = (take k s, drop (k + length (c_str t)) s)"
    using 1(1) by (simp add: str_split_text_def str_split_text_common_def Let_def)
  then show ?thesis by (rule hit) (use eq bound 1(3) in auto)
next
  case 2
  then have "str_split_text s t = (s, [])"
    by (simp add: str_split_text_def str_split_text_common_def Let_def)
  then show ?thesis using 2(2) by (rule miss)
qed

lemma str_split_text_empty: "c_str t = [] \<Longrightarrow> str_split_text s t = (s, [])"
  by (simp add: str_split_text_def str_split_text_common_def str_locate_text_empty Let_def)

lemma str_split_text_shorter:
  assumes "str_split_text s t = (l, r)" and "r \<noteq> []"
  shows "length r < length s"
proof (cases "c_str t = []")
  case True
  with assms show ?thesis by (simp add: str_split_text_empty)
next
  case False
  show ?thesis
    by (cases rule: str_split_text_cases [OF False, of s]) (use assms False in auto)
qed

lemma prefix_single: "prefix [c] s \<longleftrightarrow> s \<noteq> [] \<and> hd s = c"
  by (cases s) auto

text \<open>Splitting at a character is the usual cut at its first occurrence.\<close>

lemma str_split_char_eq [str_simps]:
  assumes "c \<noteq> NUL"
  shows "str_split_char s c = (takeWhile (\<lambda>x. x \<noteq> c) s, tl (dropWhile (\<lambda>x. x \<noteq> c) s))"
proof -
  have c: "c_str [c] = [c]" using assms by simp
  have ne: "c_str [c] \<noteq> []" by (simp add: c)
  show ?thesis
  proof (cases rule: str_split_text_cases [OF ne, of s])
    case (1 l r)
    have "c \<notin> set l"
    proof
      assume "c \<in> set l"
      then obtain j where "j < length l" "l ! j = c" by (auto simp: in_set_conv_nth)
      with 1(2) 1(3) [of j] show False by (simp add: c prefix_single hd_drop_conv_nth nth_append)
    qed
    then have "takeWhile (\<lambda>x. x \<noteq> c) s = l" "dropWhile (\<lambda>x. x \<noteq> c) s = c # r"
      unfolding 1(2) c by auto
    with 1(1) show ?thesis by (simp add: str_split_char_def)
  next
    case 2
    have "c \<notin> set s"
    proof
      assume "c \<in> set s"
      then obtain j where "j < length s" "s ! j = c" by (auto simp: in_set_conv_nth)
      with 2(2) [of j] show False by (simp add: c prefix_single hd_drop_conv_nth)
    qed
    then have "takeWhile (\<lambda>x. x \<noteq> c) s = s" "dropWhile (\<lambda>x. x \<noteq> c) s = []"
      by (auto simp: takeWhile_eq_all_conv)
    with 2(1) show ?thesis
      by (simp add: str_split_char_def del: takeWhile_eq_all_conv dropWhile_eq_Nil_conv)
  qed
qed

section \<open>Replacing text\<close>

text \<open>
  The \<open>do\<close> loop of \<open>str_replace_text\<close>: \<open>lhs\<close> is \<open>s_lhs_chunk_str\<close> at the top of an iteration,
  \<open>acc\<close> what has been appended to \<open>p_str\<close>.
\<close>

function replace_text_loop :: "string \<Rightarrow> string \<Rightarrow> string \<Rightarrow> string \<Rightarrow> string" where
  "replace_text_loop lhs p_from p_to acc =
     (let lhs_len = length lhs;
          (l, r) = str_split_text lhs p_from;
          acc1 = acc @ l;
          acc2 = (if length l < lhs_len then acc1 @ c_str p_to else acc1)
      in if r = [] then acc2 else replace_text_loop r p_from p_to acc2)"
  by pat_completeness auto
termination
  by (relation "measure (\<lambda>(lhs, p_from, p_to, acc). length lhs)")
    (auto intro: str_split_text_shorter dest: sym)

declare replace_text_loop.simps [simp del]

definition str_replace_text :: "string \<Rightarrow> string \<Rightarrow> string \<Rightarrow> string" where
  "str_replace_text p_str p_from p_to = replace_text_loop p_str p_from p_to []"

text \<open>Reference: replace from left to right, continuing after each replacement.\<close>

function replace_all :: "string \<Rightarrow> string \<Rightarrow> string \<Rightarrow> string" where
  "replace_all f t s =
     (if s = [] then []
      else if f \<noteq> [] \<and> prefix f s then t @ replace_all f t (drop (length f) s)
      else hd s # replace_all f t (tl s))"
  by pat_completeness auto
termination
  by (relation "measure (\<lambda>(f, t, s). length s)") auto

declare replace_all.simps [simp del]

lemma replace_all_Nil [simp]: "replace_all f t [] = []"
  by (simp add: replace_all.simps)

lemma replace_all_skip:
  assumes "\<And>j. j < length l \<Longrightarrow> \<not> prefix f (drop j (l @ r))"
  shows "replace_all f t (l @ r) = l @ replace_all f t r"
  using assms
proof (induction l)
  case Nil
  show ?case by simp
next
  case (Cons c l)
  have "\<not> prefix f (c # l @ r)" using Cons.prems [of 0] by simp
  moreover have "replace_all f t (l @ r) = l @ replace_all f t r"
    by (rule Cons.IH) (use Cons.prems [of "Suc j" for j] in auto)
  ultimately show ?case by (subst replace_all.simps) simp
qed

lemma replace_all_here:
  "f \<noteq> [] \<Longrightarrow> replace_all f t (f @ r) = t @ replace_all f t r"
  by (subst replace_all.simps) simp

lemma replace_all_none:
  "(\<And>k. \<not> prefix f (drop k s)) \<Longrightarrow> replace_all f t s = s"
  using replace_all_skip [of s f "[]" t] by simp

lemma replace_all_empty [simp]: "replace_all [] t s = s"
  by (induction s) (simp_all add: replace_all.simps [of "[]" t "_ # _"])

lemma replace_text_loop_eq:
  "replace_text_loop lhs f t acc = acc @ replace_all (c_str f) (c_str t) lhs"
proof (induction lhs f t acc rule: replace_text_loop.induct)
  case (1 lhs f t acc)
  show ?case
  proof (cases "c_str f = []")
    case True
    then show ?thesis
      by (subst replace_text_loop.simps) (simp add: str_split_text_empty)
  next
    case False
    show ?thesis
    proof (cases rule: str_split_text_cases [OF False, of lhs])
      case hit: (1 l r)
      let ?acc = "acc @ l @ c_str t"
      have rep: "replace_all (c_str f) (c_str t) lhs = l @ c_str t @ replace_all (c_str f) (c_str t) r"
        using hit(2) replace_all_skip [of l "c_str f" "c_str f @ r" "c_str t"]
          replace_all_here [OF False, of "c_str t" r] hit(3) by simp
      have step: "replace_text_loop lhs f t acc =
          (if r = [] then ?acc else replace_text_loop r f t ?acc)"
        using hit(1,2) False by (subst replace_text_loop.simps) (simp add: Let_def)
      have "r \<noteq> [] \<Longrightarrow> replace_text_loop r f t ?acc = ?acc @ replace_all (c_str f) (c_str t) r"
        using "1.IH" [OF refl hit(1) [symmetric] refl refl refl] hit(2) False by simp
      with rep step show ?thesis by simp
    next
      case miss: 2
      then show ?thesis
        by (subst replace_text_loop.simps) (simp add: replace_all_none)
    qed
  qed
qed

section \<open>Lines, again\<close>

fun split_lines :: "string \<Rightarrow> string list" where
  "split_lines [] = []"
| "split_lines (c # cs) =
     (if c = LF then [] # split_lines cs
      else case split_lines cs of [] \<Rightarrow> [[c]] | l # ls \<Rightarrow> (c # l) # ls)"

lemma split_lines_step:
  "xs \<noteq> [] \<Longrightarrow> split_lines xs =
     takeWhile (\<lambda>c. c \<noteq> LF) xs # split_lines (drop (Suc (length (takeWhile (\<lambda>c. c \<noteq> LF) xs))) xs)"
proof (induction xs)
  case Nil
  then show ?case by simp
next
  case (Cons c xs)
  then show ?case by (cases xs) auto
qed

lemma str_lines_from_eq: "pos \<le> length s \<Longrightarrow> str_lines_from s pos = split_lines (drop pos s)"
proof (induction s pos rule: str_lines_from.induct)
  case (1 s pos)
  let ?l = "takeWhile (\<lambda>c. c \<noteq> LF) (drop pos s)"
  show ?case
  proof (cases "pos = length s")
    case True
    then show ?thesis by (subst str_lines_from.simps) (simp add: str_getline_def)
  next
    case False
    with "1.prems" have lt: "pos < length s" by simp
    define p' where "p' = (if pos + length ?l < length s \<and> s ! (pos + length ?l) = LF
                           then pos + length ?l + 1 else pos + length ?l)"
    have get: "str_getline s pos = Inr (True, ?l, p')"
      using lt by (simp add: str_getline_def p'_def Let_def)
    have stop: "pos + length ?l < length s \<Longrightarrow> s ! (pos + length ?l) = LF"
      using nth_length_takeWhile [of "\<lambda>c. c \<noteq> LF" "drop pos s"] lt by simp
    have drop_eq: "drop (Suc (length ?l)) (drop pos s) = drop p' s"
      using stop by (auto simp: p'_def add.commute)
    have "p' \<le> length s" using get by (rule str_getline_True)
    then have "str_lines_from s p' = split_lines (drop p' s)"
      using "1.IH" [OF get refl refl] by simp
    with get show ?thesis
      using split_lines_step [of "drop pos s"] lt drop_eq
      by (subst str_lines_from.simps) simp
  qed
qed

lemma contains_line_from_eq:
  "contains_line_from s pos l \<longleftrightarrow> l \<in> set (str_lines_from s pos)"
  by (induction s pos l rule: contains_line_from.induct)
    (subst contains_line_from.simps, subst str_lines_from.simps, auto split: sum.splits)

lemma contains_line_iff [str_simps]: "str_contains_line s l \<longleftrightarrow> l \<in> set (split_lines s)"
  by (simp add: str_contains_line_def contains_line_from_eq str_lines_from_eq)

lemma split_lines_join:
  "\<forall>l\<in>set ls. LF \<notin> set l \<Longrightarrow> split_lines (concat (map (\<lambda>l. l @ [LF]) ls)) = ls"
proof (induction ls)
  case Nil
  show ?case by simp
next
  case (Cons l ls)
  have "split_lines (l @ LF # xs) = l # split_lines xs" if "LF \<notin> set l" for xs
    using that by (induction l) auto
  with Cons show ?case by simp
qed

lemma split_lines_no_lf: "l \<in> set (split_lines s) \<Longrightarrow> LF \<notin> set l"
  by (induction s arbitrary: l rule: split_lines.induct) (auto split: if_splits list.splits)

section \<open>Splitting at a known place\<close>

lemma str_split_char_hit: "c \<noteq> NUL \<Longrightarrow> c \<notin> set l \<Longrightarrow> str_split_char (l @ c # r) c = (l, r)"
  by (simp add: str_split_char_eq)

lemma str_split_char_miss: "c \<noteq> NUL \<Longrightarrow> c \<notin> set l \<Longrightarrow> str_split_char l c = (l, [])"
  by (simp add: str_split_char_eq)

lemma str_split_text_first:
  assumes ne: "c_str t \<noteq> []"
    and first: "\<And>j. j < length l \<Longrightarrow> \<not> prefix (c_str t) (drop j (l @ c_str t @ r))"
  shows "str_split_text (l @ c_str t @ r) t = (l, r)"
proof (cases rule: str_split_text_cases [OF ne, of "l @ c_str t @ r"])
  case hit: (1 l' r')
  have at: "prefix (c_str t) (drop (length l') (l @ c_str t @ r))" unfolding hit(2) by simp
  have "prefix (c_str t) (drop (length l) (l @ c_str t @ r))" by simp
  with at first [of "length l'"] hit(3) [of "length l"] have "length l = length l'"
    by (meson linorder_neqE_nat)
  with hit(1,2) show ?thesis by simp
next
  case miss: 2
  from miss(2) [of "length l"] show ?thesis by simp
qed

section \<open>The order of strings\<close>

lemma memcmp_eq_0: "length a = length b \<Longrightarrow> vsf_sysutil_memcmp a b = 0 \<longleftrightarrow> a = b"
  by (induction a b rule: list_induct2) (auto simp: not_less intro: order_antisym)

lemma memcmp_swap: "vsf_sysutil_memcmp b a = - vsf_sysutil_memcmp a b"
  by (induction a b rule: vsf_sysutil_memcmp.induct) auto

text \<open>The byte-wise lexicographic order, a proper prefix first.\<close>

fun bytes_le :: "string \<Rightarrow> string \<Rightarrow> bool" where
  "bytes_le [] bs = True"
| "bytes_le (a # as) [] = False"
| "bytes_le (a # as) (b # bs) = (code a < code b \<or> (a = b \<and> bytes_le as bs))"

lemma bytes_le_refl [simp]: "bytes_le a a"
  by (induction a) auto

lemma bytes_le_total: "bytes_le a b \<or> bytes_le b a"
  by (induction a b rule: bytes_le.induct) (auto simp: not_less le_less)

lemma bytes_le_antisym: "bytes_le a b \<Longrightarrow> bytes_le b a \<Longrightarrow> a = b"
  by (induction a b rule: bytes_le.induct) (auto elim: bytes_le.elims)

lemma bytes_le_trans: "bytes_le a b \<Longrightarrow> bytes_le b c \<Longrightarrow> bytes_le a c"
proof (induction a b arbitrary: c rule: bytes_le.induct)
  case (3 a as b bs)
  then show ?case by (cases c) auto
qed auto

definition short_str :: "string \<Rightarrow> bool" where
  "short_str s \<longleftrightarrow> length s \<le> INT_MAX"

lemma wrap32: "- 2147483648 \<le> d \<Longrightarrow> d < 2147483648 \<Longrightarrow> (d + 2147483648) mod 4294967296 - 2147483648 = (d :: int)"
  by simp

lemma wrap_lengths:
  assumes "short_str a" and "short_str b"
  shows "(int (length a) - int (length b) + 2147483648) mod 4294967296 - 2147483648 = int (length a) - int (length b)"
  using assms by (intro wrap32) (auto simp: short_str_def INT_MAX_def)

lemma str_strcmp_cases:
  assumes "short_str a" and "short_str b"
  shows "str_strcmp a b = (let m = min (length a) (length b); r = vsf_sysutil_memcmp (take m a) (take m b)
           in if r \<noteq> 0 then r else int (length a) - int (length b))"
  unfolding str_strcmp_def str_equal_internal_def Let_def wrap_lengths [OF assms] min_def
  by (cases "length a" "length b" rule: linorder_cases) simp_all

lemma memcmp_take_le:
  "bytes_le a b \<longleftrightarrow> (let m = min (length a) (length b); r = vsf_sysutil_memcmp (take m a) (take m b)
     in r < 0 \<or> (r = 0 \<and> length a \<le> length b))"
  by (induction a b rule: bytes_le.induct) (auto simp: Let_def)

lemma str_strcmp_le [str_simps]:
  "short_str a \<Longrightarrow> short_str b \<Longrightarrow> str_strcmp a b \<le> 0 \<longleftrightarrow> bytes_le a b"
  unfolding memcmp_take_le by (auto simp: str_strcmp_cases Let_def)

lemma str_strcmp_eq [str_simps]: "short_str a \<Longrightarrow> short_str b \<Longrightarrow> str_strcmp a b = 0 \<longleftrightarrow> a = b"
proof -
  assume ab: "short_str a" "short_str b"
  have "str_strcmp a b = 0 \<longleftrightarrow> vsf_sysutil_memcmp (take (min (length a) (length b)) a) (take (min (length a) (length b)) b) = 0
          \<and> length a = length b"
    using ab by (auto simp: str_strcmp_cases Let_def)
  also have "\<dots> \<longleftrightarrow> a = b" by (auto simp: memcmp_eq_0)
  finally show ?thesis .
qed

lemma str_equal_iff [str_simps]: "short_str a \<Longrightarrow> short_str b \<Longrightarrow> str_equal a b \<longleftrightarrow> a = b"
  by (simp add: str_equal_def str_strcmp_eq)

lemma str_equal_text_iff [str_simps]:
  "short_str a \<Longrightarrow> short_str t \<Longrightarrow> str_equal_text a t \<longleftrightarrow> a = c_str t"
  using str_strcmp_eq [of a "c_str t"] length_c_str [of t]
  by (simp add: str_equal_text_def str_strcmp_def short_str_def)

end
