(* ===== verification/Str_Buf.thy ===== *)
theory Str_Buf
  imports Str
begin

text \<open>
  The buffers of \<^verbatim>\<open>str.c\<close>: \<open>struct mystr\<close> with its three private fields, the allocator and the
  copying routines of \<^verbatim>\<open>sysutil.c\<close> it relies on, and the operations that allocate, grow, fill and cut a
  buffer. A buffer is the list of its bytes, \<open>None\<close> for a byte that was never written. An
  access outside a buffer or a read of an unwritten byte is \<open>Undef\<close>. The lemmas show that no
  operation reaches \<open>Undef\<close> from a well-formed string, whatever the 32-bit lengths do, and
  that each computes the list operation it stands for (\<open>sval\<close>).
\<close>

type_synonym memory = "char option list"

record mystr =
  p_buf :: "memory option"
  len :: nat
  alloc_bytes :: nat

definition INIT_MYSTR :: mystr where
  "INIT_MYSTR = \<lparr>p_buf = None, len = 0, alloc_bytes = 0\<rparr>"

abbreviation bytes :: "memory option \<Rightarrow> memory" where
  "bytes p \<equiv> (case p of None \<Rightarrow> [] | Some b \<Rightarrow> b)"

section \<open>Memory\<close>

text \<open>\<open>avail n\<close> says whether the C library can serve a request for \<open>n\<close> bytes.\<close>

definition vsf_sysutil_malloc :: "(nat \<Rightarrow> bool) \<Rightarrow> nat \<Rightarrow> memory result" where
  "vsf_sysutil_malloc avail sz =
     (if sz = 0 \<or> sz > INT_MAX then bug ''zero or big size in vsf_sysutil_malloc''
      else if \<not> avail sz then die ''malloc''
      else Inr (replicate sz None))"

definition vsf_sysutil_realloc :: "(nat \<Rightarrow> bool) \<Rightarrow> memory option \<Rightarrow> nat \<Rightarrow> memory result" where
  "vsf_sysutil_realloc avail p_ptr sz =
     (if sz = 0 \<or> sz > INT_MAX then bug ''zero or big size in vsf_sysutil_realloc''
      else if \<not> avail sz then die ''realloc''
      else Inr (take sz (bytes p_ptr) @ replicate (sz - length (bytes p_ptr)) None))"

definition vsf_sysutil_memcpy :: "memory \<Rightarrow> nat \<Rightarrow> memory \<Rightarrow> nat \<Rightarrow> memory result" where
  "vsf_sysutil_memcpy p_dest off p_src sz =
     (if sz = 0 then Inr p_dest
      else if sz > INT_MAX then die ''possible negative value to memcpy?''
      else if off + sz > length p_dest \<or> sz > length p_src then Inl Undef
      else Inr (take off p_dest @ take sz p_src @ drop (off + sz) p_dest))"

definition mem_store :: "memory \<Rightarrow> nat \<Rightarrow> char \<Rightarrow> memory result" where
  "mem_store b i c = (if i < length b then Inr (b[i := Some c]) else Inl Undef)"

text \<open>The scan of \<open>strlen\<close>, and \<open>vsf_sysutil_strlen\<close> with its guard.\<close>

fun mem_scan :: "char \<Rightarrow> memory \<Rightarrow> nat result" where
  "mem_scan term_ch [] = Inl Undef"
| "mem_scan term_ch (None # b) = Inl Undef"
| "mem_scan term_ch (Some c # b) =
     (if c = term_ch then Inr 0 else andthen (mem_scan term_ch b) (\<lambda>n. Inr (Suc n)))"

definition vsf_sysutil_strlen :: "memory \<Rightarrow> nat result" where
  "vsf_sysutil_strlen p_text =
     andthen (mem_scan NUL p_text) (\<lambda>n.
       let ret = u32 n in
       if ret > INT_MAX div 8 then die ''string suspiciously long'' else Inr ret)"

section \<open>Operations\<close>

definition s_setbuf :: "mystr \<Rightarrow> memory \<Rightarrow> mystr result" where
  "s_setbuf p_str p_newbuf =
     (if p_buf p_str \<noteq> None then bug ''p_buf not NULL when setting it''
      else Inr (p_str\<lparr>p_buf := Some p_newbuf\<rparr>))"

definition str_free :: "mystr \<Rightarrow> mystr" where
  "str_free p_str = p_str\<lparr>p_buf := None, len := 0, alloc_bytes := 0\<rparr>"

text \<open>
  The two ways the operations make room for \<open>buf_needed\<close> bytes: a fresh buffer (the guard at the
  head of \<open>private_str_alloc_memchunk\<close>) and a grown one (that of \<open>private_str_append_memchunk\<close>
  and of \<open>str_reserve\<close>).
\<close>

definition room_fresh :: "(nat \<Rightarrow> bool) \<Rightarrow> mystr \<Rightarrow> nat \<Rightarrow> mystr result" where
  "room_fresh avail p_str buf_needed =
     (if buf_needed > alloc_bytes p_str
      then andthen (vsf_sysutil_malloc avail buf_needed) (\<lambda>b.
           andthen (s_setbuf (str_free p_str) b) (\<lambda>s.
           Inr (s\<lparr>alloc_bytes := buf_needed\<rparr>)))
      else Inr p_str)"

definition room_grow :: "(nat \<Rightarrow> bool) \<Rightarrow> mystr \<Rightarrow> nat \<Rightarrow> mystr result" where
  "room_grow avail p_str buf_needed =
     (if buf_needed > alloc_bytes p_str
      then andthen (vsf_sysutil_realloc avail (p_buf p_str) buf_needed) (\<lambda>b.
           Inr (p_str\<lparr>p_buf := Some b, alloc_bytes := buf_needed\<rparr>))
      else Inr p_str)"

definition private_str_alloc_memchunk ::
  "(nat \<Rightarrow> bool) \<Rightarrow> mystr \<Rightarrow> memory \<Rightarrow> nat \<Rightarrow> mystr result" where
  "private_str_alloc_memchunk avail p_str p_src l =
     (let buf_needed = u32 (l + 1) in
      andthen (room_fresh avail p_str buf_needed) (\<lambda>s.
      andthen (vsf_sysutil_memcpy (bytes (p_buf s)) 0 p_src l) (\<lambda>b.
      andthen (mem_store b l NUL) (\<lambda>b'.
      Inr (s\<lparr>p_buf := Some b', len := l\<rparr>)))))"

definition private_str_append_memchunk ::
  "(nat \<Rightarrow> bool) \<Rightarrow> mystr \<Rightarrow> memory \<Rightarrow> nat \<Rightarrow> mystr result" where
  "private_str_append_memchunk avail p_str p_src l =
     (let buf_needed = u32 (len p_str + l + 1) in
      andthen (room_grow avail p_str buf_needed) (\<lambda>s.
      andthen (vsf_sysutil_memcpy (bytes (p_buf s)) (len s) p_src l) (\<lambda>b.
      andthen (mem_store b (u32 (len s + l)) NUL) (\<lambda>b'.
      Inr (s\<lparr>p_buf := Some b', len := u32 (len s + l)\<rparr>)))))"

definition str_trunc :: "mystr \<Rightarrow> nat \<Rightarrow> mystr result" where
  "str_trunc p_str trunc_len =
     (if trunc_len \<ge> alloc_bytes p_str
      then bug ''trunc_len not smaller than alloc_bytes in str_trunc''
      else andthen (mem_store (bytes (p_buf p_str)) trunc_len NUL) (\<lambda>b.
           Inr (p_str\<lparr>len := trunc_len, p_buf := Some b\<rparr>)))"

definition str_getbuf :: "(nat \<Rightarrow> bool) \<Rightarrow> mystr \<Rightarrow> mystr result" where
  "str_getbuf avail p_str =
     (if p_buf p_str = None
      then if len p_str \<noteq> 0 \<or> alloc_bytes p_str \<noteq> 0
           then bug ''p_buf NULL and len or alloc_bytes != 0 in str_getbuf''
           else private_str_alloc_memchunk avail p_str [] 0
      else Inr p_str)"

definition str_empty :: "(nat \<Rightarrow> bool) \<Rightarrow> mystr \<Rightarrow> mystr result" where
  "str_empty avail p_str = andthen (str_getbuf avail p_str) (\<lambda>s. str_trunc s 0)"

definition str_reserve :: "(nat \<Rightarrow> bool) \<Rightarrow> mystr \<Rightarrow> nat \<Rightarrow> mystr result" where
  "str_reserve avail p_str res_len =
     (let res_len1 = u32 (res_len + 1) in
      andthen (room_grow avail p_str res_len1) (\<lambda>s.
      andthen (mem_store (bytes (p_buf s)) (u32 (res_len1 + 4294967295)) NUL) (\<lambda>b.
      Inr (s\<lparr>p_buf := Some b\<rparr>))))"

definition str_alloc_text :: "(nat \<Rightarrow> bool) \<Rightarrow> mystr \<Rightarrow> memory \<Rightarrow> mystr result" where
  "str_alloc_text avail p_str p_src =
     andthen (vsf_sysutil_strlen p_src) (\<lambda>l. private_str_alloc_memchunk avail p_str p_src l)"

definition str_copy :: "(nat \<Rightarrow> bool) \<Rightarrow> mystr \<Rightarrow> mystr \<Rightarrow> mystr result" where
  "str_copy avail p_dest p_src =
     private_str_alloc_memchunk avail p_dest (bytes (p_buf p_src)) (len p_src)"

definition str_alloc_alt_term ::
  "(nat \<Rightarrow> bool) \<Rightarrow> mystr \<Rightarrow> memory \<Rightarrow> char \<Rightarrow> mystr result" where
  "str_alloc_alt_term avail p_str p_src term_ch =
     andthen (mem_scan term_ch p_src) (\<lambda>l.
       private_str_alloc_memchunk avail p_str p_src (u32 l))"

definition str_append_str :: "(nat \<Rightarrow> bool) \<Rightarrow> mystr \<Rightarrow> mystr \<Rightarrow> mystr result" where
  "str_append_str avail p_str p_other =
     private_str_append_memchunk avail p_str (bytes (p_buf p_other)) (len p_other)"

definition str_append_text :: "(nat \<Rightarrow> bool) \<Rightarrow> mystr \<Rightarrow> memory \<Rightarrow> mystr result" where
  "str_append_text avail p_str p_src =
     andthen (vsf_sysutil_strlen p_src) (\<lambda>l. private_str_append_memchunk avail p_str p_src l)"

definition str_append_char :: "(nat \<Rightarrow> bool) \<Rightarrow> mystr \<Rightarrow> char \<Rightarrow> mystr result" where
  "str_append_char avail p_str the_char =
     private_str_append_memchunk avail p_str [Some the_char] 1"

text \<open>
  \<open>str_split_text_common\<close> on buffers: \<open>p_src\<close> is cut in place, \<open>p_rhs\<close> receives the rest.
  The search reads \<open>p_src\<close> up to its length only, so it is the search on its value.
\<close>

definition sval :: "mystr \<Rightarrow> string" where
  "sval s = map the (take (len s) (bytes (p_buf s)))"

definition buf_split_text_common ::
  "(nat \<Rightarrow> bool) \<Rightarrow> mystr \<Rightarrow> mystr \<Rightarrow> string \<Rightarrow> bool \<Rightarrow> (mystr \<times> mystr) result" where
  "buf_split_text_common avail p_src p_rhs p_text is_reverse =
     (let search_len = length (c_str p_text);
          locate_result = (if is_reverse then str_locate_text_reverse (sval p_src) p_text
                           else str_locate_text (sval p_src) p_text)
      in if \<not> found locate_result
         then andthen (str_empty avail p_rhs) (\<lambda>r. Inr (p_src, r))
         else let indexx = index locate_result in
           if u32 (indexx + search_len) > len p_src
           then bug ''indexx invalid in str_split_text''
           else andthen (private_str_alloc_memchunk avail p_rhs
                           (drop (indexx + search_len) (bytes (p_buf p_src)))
                           (len p_src - indexx - search_len)) (\<lambda>r.
                andthen (str_trunc p_src indexx) (\<lambda>l. Inr (l, r))))"

text \<open>
  \<open>str_strdup_trimmed\<close>, with the \<open>int\<close> arithmetic of its three locals and the unchecked
  \<open>vsf_sysutil_strndup\<close> it calls. \<open>p_trimmed\<close> is the buffer with its terminating NUL.
\<close>

definition vsf_sysutil_strndup ::
  "(nat \<Rightarrow> bool) \<Rightarrow> memory \<Rightarrow> nat \<Rightarrow> string option result" where
  "vsf_sysutil_strndup avail p_str p_len =
     (if \<not> avail (u32 (p_len + 1)) then Inr None
      else if p_len \<ge> u32 (p_len + 1) \<or> p_len > length p_str then Inl Undef
      else Inr (Some (map the (take p_len p_str))))"

definition str_strdup_trimmed :: "(nat \<Rightarrow> bool) \<Rightarrow> string \<Rightarrow> string option result" where
  "str_strdup_trimmed avail p_str =
     (let h = int (length (takeWhile vsf_sysutil_isspace p_str));
          t = int (length p_str) - 1 - int (length (takeWhile vsf_sysutil_isspace (rev p_str)));
          newlen = t - h + 1;
          p_trimmed = map Some p_str @ [Some NUL]
      in if newlen \<noteq> 0
         then vsf_sysutil_strndup avail (drop (nat h) p_trimmed) (nat (newlen mod 4294967296))
         else Inr None)"

section \<open>Well-formed strings\<close>

text \<open>
  \<open>mystr_shape\<close>: the struct describes its buffer, with room for the terminator;
  \<open>mystr_ok\<close>: moreover every byte up to the length is written and a NUL follows.
\<close>

definition mystr_shape :: "mystr \<Rightarrow> bool" where
  "mystr_shape s = (case p_buf s of
       None \<Rightarrow> len s = 0 \<and> alloc_bytes s = 0
     | Some b \<Rightarrow> length b = alloc_bytes s \<and> alloc_bytes s \<le> INT_MAX \<and> len s < alloc_bytes s)"

definition mystr_ok :: "mystr \<Rightarrow> bool" where
  "mystr_ok s \<longleftrightarrow> mystr_shape s \<and>
     (case p_buf s of
        None \<Rightarrow> True
      | Some b \<Rightarrow> None \<notin> set (take (len s) b) \<and> b ! len s = Some NUL)"

lemma mystr_ok_INIT [simp]: "mystr_ok INIT_MYSTR"
  by (simp add: mystr_ok_def mystr_shape_def INIT_MYSTR_def)

lemma mystr_ok_free [simp]: "mystr_ok (str_free s)" "sval (str_free s) = []"
  by (simp_all add: mystr_ok_def mystr_shape_def str_free_def sval_def)

lemma mystr_ok_shape: "mystr_ok s \<Longrightarrow> mystr_shape s"
  by (simp add: mystr_ok_def)

lemmas mem_defs = vsf_sysutil_malloc_def vsf_sysutil_realloc_def vsf_sysutil_memcpy_def
  mem_store_def s_setbuf_def str_free_def halt_simps

lemma u32_len: "a \<le> INT_MAX \<Longrightarrow> b \<le> INT_MAX \<Longrightarrow> u32 (Suc (a + b)) = Suc (a + b)"
    "a \<le> INT_MAX \<Longrightarrow> b \<le> INT_MAX \<Longrightarrow> u32 (a + b) = a + b"
    "b \<le> INT_MAX \<Longrightarrow> u32 (Suc b) = Suc b"
  by (simp_all add: INT_MAX_def)

text \<open>A string whose buffer is as its struct says and at most \<open>INT_MAX\<close> bytes long.\<close>

definition buf_room :: "mystr \<Rightarrow> bool" where
  "buf_room s \<longleftrightarrow> length (bytes (p_buf s)) = alloc_bytes s \<and> alloc_bytes s \<le> INT_MAX"

lemma shape_room: "mystr_shape s \<Longrightarrow> buf_room s"
  by (auto simp: mystr_shape_def buf_room_def split: option.splits)

lemma shape_len: "mystr_shape s \<Longrightarrow> len s \<le> INT_MAX"
  by (auto simp: mystr_shape_def split: option.splits)

lemma room_fresh_no_undef: "room_fresh avail s n \<noteq> Inl Undef"
  by (simp add: room_fresh_def mem_defs)

lemma room_fresh_Inr:
  assumes "room_fresh avail s n = Inr s1" and "buf_room s"
  shows "buf_room s1" and "n \<le> alloc_bytes s1"
  using assms by (auto simp: room_fresh_def mem_defs buf_room_def split: if_splits)

lemma room_grow_no_undef: "room_grow avail s n \<noteq> Inl Undef"
  by (simp add: room_grow_def mem_defs)

lemma room_grow_Inr:
  assumes "room_grow avail s n = Inr s1" and "buf_room s"
  shows "buf_room s1" and "n \<le> alloc_bytes s1" and "len s1 = len s"
    and "take (alloc_bytes s) (bytes (p_buf s1)) = bytes (p_buf s)"
    and "alloc_bytes s \<le> alloc_bytes s1"
  using assms by (auto simp: room_grow_def mem_defs buf_room_def split: if_splits)

lemma memcpy_Inr:
  assumes "vsf_sysutil_memcpy d off src l = Inr b" and "off + l \<le> length d"
  shows "length b = length d" and "take (off + l) b = take off d @ take l src"
  using assms by (auto simp: vsf_sysutil_memcpy_def halt_simps split: if_splits)

lemma memcpy_no_undef:
  "off + l \<le> length d \<Longrightarrow> l \<le> length src \<Longrightarrow> vsf_sysutil_memcpy d off src l \<noteq> Inl Undef"
  by (simp add: vsf_sysutil_memcpy_def halt_simps)

lemma memcpy_big: "INT_MAX < l \<Longrightarrow> vsf_sysutil_memcpy d off src l \<noteq> Inr b"
    "INT_MAX < l \<Longrightarrow> vsf_sysutil_memcpy d off src l \<noteq> Inl Undef"
  by (simp_all add: vsf_sysutil_memcpy_def halt_simps)

lemma take_list_update_beyond [simp]: "n \<le> i \<Longrightarrow> take n (xs[i := x]) = take n xs"
  by (simp add: take_update_swap list_update_beyond)

lemma alloc_memchunk_no_undef:
  assumes "mystr_shape s" and "l \<le> length src"
  shows "private_str_alloc_memchunk avail s src l \<noteq> Inl Undef"
proof
  assume "private_str_alloc_memchunk avail s src l = Inl Undef"
  then obtain s1 where s1: "room_fresh avail s (u32 (Suc l)) = Inr s1"
    and bad: "vsf_sysutil_memcpy (bytes (p_buf s1)) 0 src l = Inl Undef \<or>
      (\<exists>b. vsf_sysutil_memcpy (bytes (p_buf s1)) 0 src l = Inr b \<and> \<not> l < length b)"
    using room_fresh_no_undef
    by (auto simp: private_str_alloc_memchunk_def andthen_Inl_iff mem_store_def Let_def split: if_splits)
  have "l \<le> INT_MAX" using bad memcpy_big [of l] by (meson not_le)
  then have "Suc l \<le> length (bytes (p_buf s1))"
    using room_fresh_Inr [OF s1 shape_room [OF assms(1)]] by (simp add: buf_room_def u32_len)
  with bad assms(2) show False
    using memcpy_no_undef [of 0 l "bytes (p_buf s1)" src] memcpy_Inr [of "bytes (p_buf s1)" 0 src l] by auto
qed

lemma alloc_memchunk_Inr:
  assumes res: "private_str_alloc_memchunk avail s src l = Inr s'"
    and shape: "mystr_shape s"
  shows "mystr_shape s'" and "sval s' = map the (take l src)" and "len s' = l"
    and "None \<notin> set (take l src) \<Longrightarrow> mystr_ok s'"
proof -
  from res obtain s1 b where s1: "room_fresh avail s (u32 (Suc l)) = Inr s1"
    and b: "vsf_sysutil_memcpy (bytes (p_buf s1)) 0 src l = Inr b"
    and s': "s' = s1\<lparr>p_buf := Some (b[l := Some NUL]), len := l\<rparr>"
    by (auto simp: private_str_alloc_memchunk_def andthen_Inr_iff mem_store_def Let_def split: if_splits)
  have "l \<le> INT_MAX" using b memcpy_big [of l] by (meson not_le)
  then have room: "Suc l \<le> alloc_bytes s1" "buf_room s1"
    using room_fresh_Inr [OF s1 shape_room [OF shape]] by (simp_all add: u32_len)
  then have "0 + l \<le> length (bytes (p_buf s1))" by (simp add: buf_room_def)
  with room have b': "length b = alloc_bytes s1" "take l b = take l src"
    using memcpy_Inr [OF b] by (simp_all add: buf_room_def)
  with room show "mystr_shape s'" "sval s' = map the (take l src)" "len s' = l"
    by (simp_all add: s' mystr_shape_def sval_def buf_room_def)
  show "mystr_ok s'" if "None \<notin> set (take l src)"
    using that room b' by (simp add: s' mystr_ok_def mystr_shape_def buf_room_def)
qed

lemma append_memchunk_no_undef:
  assumes "mystr_shape s" and "l \<le> length src"
  shows "private_str_append_memchunk avail s src l \<noteq> Inl Undef"
proof
  assume "private_str_append_memchunk avail s src l = Inl Undef"
  then obtain s1 where s1: "room_grow avail s (u32 (Suc (len s + l))) = Inr s1"
    and bad: "vsf_sysutil_memcpy (bytes (p_buf s1)) (len s1) src l = Inl Undef \<or>
      (\<exists>b. vsf_sysutil_memcpy (bytes (p_buf s1)) (len s1) src l = Inr b \<and> \<not> u32 (len s1 + l) < length b)"
    using room_grow_no_undef
    by (auto simp: private_str_append_memchunk_def andthen_Inl_iff mem_store_def Let_def split: if_splits)
  have "l \<le> INT_MAX" using bad memcpy_big [of l] by (meson not_le)
  then have "len s1 = len s" "Suc (len s + l) \<le> length (bytes (p_buf s1))" "u32 (len s + l) = len s + l"
    using room_grow_Inr [OF s1 shape_room [OF assms(1)]] shape_len [OF assms(1)]
    by (simp_all add: buf_room_def u32_len)
  with bad assms(2) show False
    using memcpy_no_undef [of "len s" l "bytes (p_buf s1)" src]
      memcpy_Inr [of "bytes (p_buf s1)" "len s" src l] by auto
qed

lemma append_memchunk_Inr:
  assumes res: "private_str_append_memchunk avail s src l = Inr s'"
    and shape: "mystr_shape s"
  shows "mystr_shape s'" and "sval s' = sval s @ map the (take l src)" and "len s' = len s + l"
    and "mystr_ok s \<Longrightarrow> None \<notin> set (take l src) \<Longrightarrow> mystr_ok s'"
proof -
  from res obtain s1 b where s1: "room_grow avail s (u32 (Suc (len s + l))) = Inr s1"
    and b: "vsf_sysutil_memcpy (bytes (p_buf s1)) (len s1) src l = Inr b"
    and s': "s' = s1\<lparr>p_buf := Some (b[u32 (len s1 + l) := Some NUL]), len := u32 (len s1 + l)\<rparr>"
    by (auto simp: private_str_append_memchunk_def andthen_Inr_iff mem_store_def Let_def split: if_splits)
  note grow = room_grow_Inr [OF s1 shape_room [OF shape]]
  have small: "l \<le> INT_MAX" using b memcpy_big [of l] by (meson not_le)
  then have u: "u32 (len s + l) = len s + l" "Suc (len s + l) \<le> alloc_bytes s1"
    using grow(2) shape_len [OF shape] by (simp_all add: u32_len)
  have "len s \<le> alloc_bytes s" using shape by (auto simp: mystr_shape_def split: option.splits)
  then have keep: "take (len s) (bytes (p_buf s1)) = take (len s) (bytes (p_buf s))"
    using arg_cong [OF grow(4), of "take (len s)"] by (simp add: min_absorb1)
  have "len s + l \<le> length (bytes (p_buf s1))" using u grow(1) by (simp add: buf_room_def)
  then have b': "length b = alloc_bytes s1"
      "take (len s + l) b = take (len s) (bytes (p_buf s)) @ take l src"
    using memcpy_Inr [OF b] grow(1,3) keep by (simp_all add: buf_room_def)
  with u grow(1) show "mystr_shape s'" "sval s' = sval s @ map the (take l src)" "len s' = len s + l"
    by (simp_all add: s' grow(3) mystr_shape_def sval_def buf_room_def)
  show "mystr_ok s'" if "mystr_ok s" "None \<notin> set (take l src)"
    using that u b' grow(1)
    by (auto simp: s' grow(3) mystr_ok_def mystr_shape_def buf_room_def split: option.splits)
qed

section \<open>The derived operations\<close>

abbreviation text_mem :: "string \<Rightarrow> memory" where
  "text_mem t \<equiv> map Some t @ [Some NUL]"

lemma mem_scan_text: "mem_scan NUL (text_mem t) = Inr (length (c_str t))"
  by (induction t) (auto simp: c_str_def)

lemma take_text_mem:
  "n \<le> length (c_str t) \<Longrightarrow> take n (text_mem t) = map Some (take n (c_str t))"
  using prefix_c_str [of t] length_c_str [of t]
  by (auto simp: take_map prefix_def) (metis append_eq_conv_conj le_refl take_append take_all diff_is_0_eq' append_Nil2 take0)

lemma strlen_text:
  assumes "vsf_sysutil_strlen (text_mem t) = Inr n" and "length t < 4294967296"
  shows "n = length (c_str t)"
  using assms length_c_str [of t]
  by (auto simp: vsf_sysutil_strlen_def mem_scan_text Let_def halt_simps split: if_splits)

lemma strlen_no_undef: "vsf_sysutil_strlen (text_mem t) \<noteq> Inl Undef"
  by (simp add: vsf_sysutil_strlen_def mem_scan_text Let_def halt_simps)

lemma strlen_le: "vsf_sysutil_strlen (text_mem t) = Inr n \<Longrightarrow> n \<le> length (c_str t)"
  by (auto simp: vsf_sysutil_strlen_def mem_scan_text Let_def halt_simps width_simps split: if_splits)

lemma ok_bytes:
  assumes "mystr_ok s"
  shows "len s \<le> length (bytes (p_buf s))" and "None \<notin> set (take (len s) (bytes (p_buf s)))"
    and "length (sval s) = len s"
  using assms by (auto simp: mystr_ok_def mystr_shape_def sval_def split: option.splits)

lemma str_trunc_ok:
  assumes "mystr_ok s" and "str_trunc s n = Inr s'" and "n \<le> len s"
  shows "mystr_ok s'" and "sval s' = take n (sval s)"
proof -
  obtain b where b: "p_buf s = Some b"
    using assms by (auto simp: mystr_ok_def mystr_shape_def str_trunc_def mem_store_def halt_simps
        split: option.splits if_splits)
  with assms have s': "s' = s\<lparr>len := n, p_buf := Some (b[n := Some NUL])\<rparr>" "n < alloc_bytes s"
    by (auto simp: str_trunc_def mem_store_def halt_simps split: if_splits)
  show "sval s' = take n (sval s)"
    using assms(3) by (simp add: s' sval_def b take_map min_absorb1)
  have "set (take n b) \<subseteq> set (take (len s) b)"
    using assms(3) by (rule set_take_subset_set_take)
  then show "mystr_ok s'"
    using assms(1) s'(2) by (auto simp: s'(1) mystr_ok_def mystr_shape_def b)
qed

lemma str_trunc_no_undef: "mystr_shape s \<Longrightarrow> str_trunc s n \<noteq> Inl Undef"
  by (auto simp: str_trunc_def mem_store_def mystr_shape_def halt_simps andthen_Inl_iff split: option.splits)

lemma str_getbuf_ok:
  assumes "mystr_ok s"
  shows "str_getbuf avail s \<noteq> Inl Undef"
    and "str_getbuf avail s = Inr s' \<Longrightarrow> mystr_ok s' \<and> sval s' = sval s \<and> p_buf s' \<noteq> None"
proof -
  have shape: "mystr_shape s" using assms by (rule mystr_ok_shape)
  show "str_getbuf avail s \<noteq> Inl Undef"
    using alloc_memchunk_no_undef [OF shape, of 0 "[]" avail] by (simp add: str_getbuf_def halt_simps)
  show "mystr_ok s' \<and> sval s' = sval s \<and> p_buf s' \<noteq> None" if r: "str_getbuf avail s = Inr s'"
  proof (cases "p_buf s")
    case None
    then have a: "private_str_alloc_memchunk avail s [] 0 = Inr s'"
      using r by (simp add: str_getbuf_def halt_simps split: if_splits)
    then have "p_buf s' \<noteq> None"
      by (auto simp: private_str_alloc_memchunk_def andthen_Inr_iff Let_def)
    with None alloc_memchunk_Inr [OF a shape] show ?thesis by (simp add: sval_def)
  next
    case (Some b)
    with r assms show ?thesis by (simp add: str_getbuf_def)
  qed
qed

lemma str_empty_ok:
  assumes "mystr_ok s"
  shows "str_empty avail s \<noteq> Inl Undef"
    and "str_empty avail s = Inr s' \<Longrightarrow> mystr_ok s' \<and> sval s' = []"
proof -
  show "str_empty avail s \<noteq> Inl Undef"
    using str_getbuf_ok [OF assms] str_trunc_no_undef [OF mystr_ok_shape]
    by (auto simp: str_empty_def andthen_Inl_iff)
  show "mystr_ok s' \<and> sval s' = []" if "str_empty avail s = Inr s'"
    using that str_getbuf_ok(2) [OF assms] str_trunc_ok [of _ 0 s']
    by (auto simp: str_empty_def andthen_Inr_iff)
qed

section \<open>Sequences of operations\<close>

text \<open>
  The public operations that change one string, as steps, and what each means for its value. The second operand of a
  step is another string (no caller appends a string to itself, which would read its buffer after it was moved). \<open>str_reserve\<close>
  is no step: it leaves a string without a buffer unterminated, for its caller to fill.
\<close>

datatype str_op = OpAllocText string | OpAltTerm string char | OpCopy mystr | OpAppendText string | OpAppendStr mystr
  | OpAppendChar char | OpTrunc nat | OpEmpty | OpFree

fun str_step :: "(nat \<Rightarrow> bool) \<Rightarrow> mystr \<Rightarrow> str_op \<Rightarrow> mystr result" where
  "str_step avail s (OpAllocText t) = str_alloc_text avail s (text_mem t)"
| "str_step avail s (OpAltTerm t c) = str_alloc_alt_term avail s (map Some t) c"
| "str_step avail s (OpCopy s2) = str_copy avail s s2"
| "str_step avail s (OpAppendText t) = str_append_text avail s (text_mem t)"
| "str_step avail s (OpAppendStr s2) = str_append_str avail s s2"
| "str_step avail s (OpAppendChar c) = str_append_char avail s c"
| "str_step avail s (OpTrunc n) = str_trunc s n"
| "str_step avail s OpEmpty = str_empty avail s"
| "str_step avail s OpFree = Inr (str_free s)"

fun str_meaning :: "string \<Rightarrow> str_op \<Rightarrow> string" where
  "str_meaning v (OpAllocText t) = c_str t"
| "str_meaning v (OpAltTerm t c) = takeWhile (\<lambda>x. x \<noteq> c) t"
| "str_meaning v (OpCopy s2) = sval s2"
| "str_meaning v (OpAppendText t) = v @ c_str t"
| "str_meaning v (OpAppendStr s2) = v @ sval s2"
| "str_meaning v (OpAppendChar c) = v @ [c]"
| "str_meaning v (OpTrunc n) = take n v"
| "str_meaning v OpEmpty = []"
| "str_meaning v OpFree = []"

text \<open>
  What a step is given, for a string with the value \<open>v\<close>: texts shorter than 4 GB, a terminator that is there, other
  well-formed strings; and what the code leaves to its callers: a truncation is to at most the length of the string
  (the code itself only checks against the size of the buffer).
\<close>

fun str_op_ok :: "string \<Rightarrow> str_op \<Rightarrow> bool" where
  "str_op_ok v (OpAllocText t) = (length t < 4294967296)"
| "str_op_ok v (OpAltTerm t c) = (length t < 4294967296 \<and> c \<in> set t)"
| "str_op_ok v (OpAppendText t) = (length t < 4294967296)"
| "str_op_ok v (OpCopy s) = mystr_ok s"
| "str_op_ok v (OpAppendStr s) = mystr_ok s"
| "str_op_ok v (OpTrunc n) = (n \<le> length v)"
| "str_op_ok v _ = True"

fun str_ops_ok :: "string \<Rightarrow> str_op list \<Rightarrow> bool" where
  "str_ops_ok v [] = True"
| "str_ops_ok v (x # xs) = (str_op_ok v x \<and> str_ops_ok (str_meaning v x) xs)"

fun str_run :: "(nat \<Rightarrow> bool) \<Rightarrow> mystr \<Rightarrow> str_op list \<Rightarrow> mystr result" where
  "str_run avail s [] = Inr s"
| "str_run avail s (x # xs) = andthen (str_step avail s x) (\<lambda>s'. str_run avail s' xs)"

lemma mem_scan_found: "c \<in> set t \<Longrightarrow> mem_scan c (map Some t) = Inr (length (takeWhile (\<lambda>x. x \<noteq> c) t))"
  by (induction t) auto

lemma length_before: "c \<in> set t \<Longrightarrow> length (takeWhile (\<lambda>x. x \<noteq> c) t) < length t"
  by (induction t) auto

lemma str_step_no_undef:
  assumes "mystr_ok s" and "str_op_ok (sval s) x"
  shows "str_step avail s x \<noteq> Inl Undef"
proof -
  note shape = mystr_ok_shape [OF assms(1)]
  note safe = alloc_memchunk_no_undef [OF shape] append_memchunk_no_undef [OF shape]
  show ?thesis
  proof (cases x)
    case (OpAllocText t)
    then show ?thesis
      using safe(1) [of _ "text_mem t" avail] strlen_no_undef [of t] strlen_le [of t] length_c_str [of t]
      by (fastforce simp: str_alloc_text_def andthen_Inl_iff)
  next
    case (OpAppendText t)
    then show ?thesis
      using safe(2) [of _ "text_mem t" avail] strlen_no_undef [of t] strlen_le [of t] length_c_str [of t]
      by (fastforce simp: str_append_text_def andthen_Inl_iff)
  next
    case (OpAltTerm t c)
    with assms(2) have "length (takeWhile (\<lambda>x. x \<noteq> c) t) < 4294967296" "c \<in> set t" using length_before [of c t] by auto
    with OpAltTerm safe(1) [of "length (takeWhile (\<lambda>x. x \<noteq> c) t)" "map Some t" avail] length_before [of c t]
    show ?thesis by (simp add: str_alloc_alt_term_def mem_scan_found)
  next
    case (OpTrunc n)
    with shape show ?thesis by (simp add: str_trunc_no_undef)
  qed (use assms safe str_empty_ok(1) [OF assms(1)] in
      \<open>auto simp: str_copy_def str_append_str_def str_append_char_def dest: ok_bytes(1)\<close>)
qed

lemma str_step_value:
  assumes "mystr_ok s" and "str_op_ok (sval s) x" and "str_step avail s x = Inr s'"
  shows "mystr_ok s' \<and> sval s' = str_meaning (sval s) x"
proof -
  note shape = mystr_ok_shape [OF assms(1)]
  note new = alloc_memchunk_Inr [OF _ shape] and more = append_memchunk_Inr [OF _ shape]
  have noNone: "None \<notin> set (map Some (v :: string))" for v by auto
  have tmem: "take (length (c_str t)) (text_mem t) = map Some (c_str t)" for t
    using take_text_mem [of "length (c_str t)" t] by simp
  show ?thesis
  proof (cases x)
    case (OpAllocText t)
    with assms have a: "private_str_alloc_memchunk avail s (text_mem t) (length (c_str t)) = Inr s'"
      using strlen_text [of t] by (auto simp: str_alloc_text_def andthen_Inr_iff)
    show ?thesis using new(2,4) [OF a] noNone unfolding tmem
      by (simp add: OpAllocText comp_def)
  next
    case (OpAppendText t)
    with assms have a: "private_str_append_memchunk avail s (text_mem t) (length (c_str t)) = Inr s'"
      using strlen_text [of t] by (auto simp: str_append_text_def andthen_Inr_iff)
    show ?thesis using more(2,4) [OF a] noNone assms(1) unfolding tmem
      by (simp add: OpAppendText comp_def)
  next
    case (OpCopy s2)
    with assms have ok2: "mystr_ok s2"
      and a: "private_str_alloc_memchunk avail s (bytes (p_buf s2)) (len s2) = Inr s'"
      by (auto simp: str_copy_def)
    show ?thesis using new(2,4) [OF a] ok_bytes [OF ok2] by (simp add: OpCopy sval_def)
  next
    case (OpAppendStr s2)
    with assms have ok2: "mystr_ok s2"
      and a: "private_str_append_memchunk avail s (bytes (p_buf s2)) (len s2) = Inr s'"
      by (auto simp: str_append_str_def)
    show ?thesis using more(2,4) [OF a] ok_bytes [OF ok2] assms(1)
      by (simp add: OpAppendStr) (simp add: sval_def)
  next
    case (OpAppendChar c)
    with assms have a: "private_str_append_memchunk avail s [Some c] 1 = Inr s'"
      by (simp add: str_append_char_def)
    show ?thesis using more(2,4) [OF a] assms(1) by (simp add: OpAppendChar)
  next
    case (OpTrunc n)
    with assms show ?thesis using str_trunc_ok [OF assms(1)] ok_bytes(3) [OF assms(1)] by simp
  next
    case (OpAltTerm t c)
    with assms(2) have "length (takeWhile (\<lambda>x. x \<noteq> c) t) < 4294967296" "c \<in> set t" using length_before [of c t] by auto
    with assms(3) OpAltTerm have a: "private_str_alloc_memchunk avail s (map Some t) (length (takeWhile (\<lambda>x. x \<noteq> c) t)) = Inr s'"
      by (simp add: str_alloc_alt_term_def mem_scan_found)
    have "take (length (takeWhile (\<lambda>x. x \<noteq> c) t)) (map Some t) = map Some (takeWhile (\<lambda>x. x \<noteq> c) t)"
      by (simp add: take_map takeWhile_eq_take [symmetric])
    then show ?thesis using new(2,4) [OF a] noNone by (simp add: OpAltTerm comp_def)
  next
    case OpEmpty
    with assms show ?thesis using str_empty_ok(2) [OF assms(1)] by simp
  next
    case OpFree
    with assms show ?thesis by auto
  qed
qed

text \<open>
  C34: memory safety of the string module. From a well-formed string, any sequence of nine operations that change a
  string (\<open>str_alloc_text\<close>, \<open>str_alloc_alt_term\<close>, \<open>str_copy\<close>, \<open>str_append_text\<close>, \<open>str_append_str\<close>,
  \<open>str_append_char\<close>, \<open>str_trunc\<close>, \<open>str_empty\<close>, \<open>str_free\<close>) either stops at one of the explicit checks (\<open>bug\<close>,
  \<open>die\<close>) or ends in a well-formed string whose value is what the sequence means on lists; no such sequence writes
  outside a buffer, reads outside one or reads an unwritten byte, whatever the 32-bit lengths do and whichever requests
  for memory fail. The operands are texts shorter than 4 GB that contain their terminator and well-formed strings other
  than the one being changed, and a truncation is to at most the length the string has then.
\<close>

theorem str_run_ok:
  assumes "mystr_ok s" and "str_ops_ok (sval s) xs"
  shows "case str_run avail s xs of
           Inl h \<Rightarrow> h \<noteq> Undef
         | Inr s' \<Rightarrow> mystr_ok s' \<and> sval s' = foldl str_meaning (sval s) xs"
  using assms
proof (induction xs arbitrary: s)
  case Nil
  then show ?case by simp
next
  case (Cons x xs)
  show ?case
  proof (cases "str_step avail s x")
    case (Inl h)
    with Cons.prems show ?thesis using str_step_no_undef [of s x avail] by auto
  next
    case (Inr s1)
    with Cons.prems have "mystr_ok s1" "sval s1 = str_meaning (sval s) x"
      using str_step_value [of s x avail s1] by auto
    with Inr Cons.IH [of s1] Cons.prems show ?thesis by (simp split: sum.splits)
  qed
qed

lemma str_run_ok_witness:
  "case str_run (\<lambda>n. n < 64) INIT_MYSTR [OpAllocText ''USER'', OpAppendChar CHR '' '', OpTrunc 4] of
     Inl h \<Rightarrow> h \<noteq> Undef
   | Inr s' \<Rightarrow> mystr_ok s' \<and> sval s' = ''USER''"
proof -
  let ?xs = "[OpAllocText ''USER'', OpAppendChar CHR '' '', OpTrunc 4]"
  have "str_ops_ok (sval INIT_MYSTR) ?xs" by (simp add: c_str_def)
  from str_run_ok [OF mystr_ok_INIT this, of "\<lambda>n. n < 64"]
  have "case str_run (\<lambda>n. n < 64) INIT_MYSTR ?xs of
     Inl h \<Rightarrow> h \<noteq> Undef | Inr s' \<Rightarrow> mystr_ok s' \<and> sval s' = foldl str_meaning (sval INIT_MYSTR) ?xs" .
  moreover have "foldl str_meaning (sval INIT_MYSTR) ?xs = ''USER''" by (simp add: c_str_def)
  ultimately show ?thesis by (simp only:)
qed

section \<open>Splitting and trimming\<close>

lemma locate_bound:
  assumes "found (if rv then str_locate_text_reverse s t else str_locate_text s t)"
  shows "index (if rv then str_locate_text_reverse s t else str_locate_text s t) + length (c_str t) \<le> length s"
proof (cases "c_str t = []")
  case True
  with assms show ?thesis by (simp add: str_locate_text_def str_locate_text_reverse_def split: if_splits)
next
  case ne: False
  show ?thesis
  proof (cases rv)
    case True
    with assms show ?thesis
      by (cases rule: str_locate_text_reverse_cases [OF ne, of s]) (auto dest: prefix_drop_bound [OF _ ne])
  next
    case False
    with assms show ?thesis
      by (cases rule: str_locate_text_cases [OF ne, of s]) (auto dest: prefix_drop_bound [OF _ ne])
  qed
qed

lemma ok_len: "mystr_ok s \<Longrightarrow> len s \<le> INT_MAX"
  by (rule shape_len [OF mystr_ok_shape])

lemma sval_drop:
  assumes "mystr_ok s" and "k + m \<le> len s"
  shows "map the (take m (drop k (bytes (p_buf s)))) = take m (drop k (sval s))"
    and "None \<notin> set (take m (drop k (bytes (p_buf s))))"
proof -
  let ?b = "bytes (p_buf s)"
  have eq: "take m (drop k ?b) = take m (drop k (take (len s) ?b))"
    using assms(2) by (simp add: drop_take min_absorb1)
  then show "map the (take m (drop k ?b)) = take m (drop k (sval s))"
    by (simp add: sval_def take_map drop_map)
  show "None \<notin> set (take m (drop k ?b))"
    unfolding eq using ok_bytes(2) [OF assms(1)] by (meson in_set_dropD in_set_takeD)
qed

lemma alloc_not_indexx:
    "private_str_alloc_memchunk avail s src l \<noteq> Inl (Bug ''indexx invalid in str_split_text'')"
  and trunc_not_indexx: "str_trunc s n \<noteq> Inl (Bug ''indexx invalid in str_split_text'')"
  by (simp_all add: private_str_alloc_memchunk_def str_trunc_def room_fresh_def mem_defs Let_def
      andthen_Inl_iff)

lemma str_empty_not_indexx: "str_empty avail s \<noteq> Inl (Bug ''indexx invalid in str_split_text'')"
  by (simp add: str_empty_def str_getbuf_def andthen_Inl_iff alloc_not_indexx trunc_not_indexx halt_simps)

text \<open>
  \<open>str_split_text_common\<close> on two well-formed buffers stops only at an explicit check and otherwise
  leaves in them the two parts that splitting the value at the first (last) occurrence gives; the check
  ``indexx invalid'' never fires.
\<close>

theorem buf_split_text_refines:
  assumes "mystr_ok src" and "mystr_ok rhs"
  shows "case buf_split_text_common avail src rhs t rv of
           Inl h \<Rightarrow> h \<noteq> Undef \<and> h \<noteq> Bug ''indexx invalid in str_split_text''
         | Inr (l, r) \<Rightarrow> mystr_ok l \<and> mystr_ok r \<and> (sval l, sval r) = str_split_text_common (sval src) t rv"
proof -
  define loc where "loc = (if rv then str_locate_text_reverse (sval src) t else str_locate_text (sval src) t)"
  let ?k = "index loc" and ?n = "length (c_str t)"
  have len_src: "length (sval src) = len src" by (rule ok_bytes(3) [OF assms(1)])
  show ?thesis
  proof (cases "found loc")
    case False
    then have eq: "buf_split_text_common avail src rhs t rv = andthen (str_empty avail rhs) (\<lambda>r. Inr (src, r))"
      "str_split_text_common (sval src) t rv = (sval src, [])"
      by (simp_all add: buf_split_text_common_def str_split_text_common_def loc_def [symmetric] Let_def)
    show ?thesis
      using str_empty_ok [OF assms(2), of avail] str_empty_not_indexx [of avail rhs] assms(1)
      unfolding eq by (cases "str_empty avail rhs") auto
  next
    case True
    then have bnd: "?k + ?n \<le> len src"
      using locate_bound [of rv "sval src" t] by (simp add: loc_def [symmetric] len_src)
    with ok_len [OF assms(1)] have "u32 (?k + ?n) = ?k + ?n" by (simp add: INT_MAX_def)
    with bnd have no: "\<not> u32 (?k + ?n) > len src" by simp
    let ?alloc = "private_str_alloc_memchunk avail rhs (drop (?k + ?n) (bytes (p_buf src))) (len src - ?k - ?n)"
    from True no have eq: "buf_split_text_common avail src rhs t rv =
        andthen ?alloc (\<lambda>r. andthen (str_trunc src ?k) (\<lambda>l. Inr (l, r)))"
      "str_split_text_common (sval src) t rv = (take ?k (sval src), drop (?k + ?n) (sval src))"
      by (simp_all add: buf_split_text_common_def str_split_text_common_def loc_def [symmetric] Let_def)
    have le: "len src - ?k - ?n \<le> length (drop (?k + ?n) (bytes (p_buf src)))"
      using ok_bytes(1) [OF assms(1)] by simp
    have kle: "?k \<le> len src" using bnd by simp
    have dv: "map the (take (len src - ?k - ?n) (drop (?k + ?n) (bytes (p_buf src)))) = drop (?k + ?n) (sval src)"
      "None \<notin> set (take (len src - ?k - ?n) (drop (?k + ?n) (bytes (p_buf src))))"
      using sval_drop [OF assms(1), of "?k + ?n" "len src - ?k - ?n"] bnd len_src by simp_all
    note shape = mystr_ok_shape [OF assms(2)]
    show ?thesis
    proof (cases ?alloc)
      case (Inl h)
      then show ?thesis
        using alloc_memchunk_no_undef [OF shape le] alloc_not_indexx
        unfolding eq by fastforce
    next
      case (Inr r)
      note r = alloc_memchunk_Inr [OF Inr shape]
      show ?thesis
      proof (cases "str_trunc src ?k")
        case (Inl h)
        then show ?thesis using Inr str_trunc_no_undef [OF mystr_ok_shape [OF assms(1)]] trunc_not_indexx
          unfolding eq by fastforce
      next
        case trunc: (Inr l)
        then show ?thesis
          using Inr r(2,4) dv str_trunc_ok [OF assms(1) trunc kle] unfolding eq by simp
      qed
    qed
  qed
qed

lemma buf_split_text_refines_witness:
  "case buf_split_text_common (\<lambda>_. True) \<lparr>p_buf = Some (text_mem ''a b''), len = 3, alloc_bytes = 4\<rparr>
       INIT_MYSTR '' '' False of
     Inl h \<Rightarrow> h \<noteq> Undef \<and> h \<noteq> Bug ''indexx invalid in str_split_text''
   | Inr (l, r) \<Rightarrow> mystr_ok l \<and> mystr_ok r \<and> (sval l, sval r) =
       str_split_text_common (sval \<lparr>p_buf = Some (text_mem ''a b''), len = 3, alloc_bytes = 4\<rparr>) '' '' False"
  by (rule buf_split_text_refines) (simp_all add: mystr_ok_def mystr_shape_def INT_MAX_def INIT_MYSTR_def)

lemma isspace_takeWhile:
  "list_all vsf_sysutil_isspace sp \<Longrightarrow> mid \<noteq> [] \<Longrightarrow> \<not> vsf_sysutil_isspace (hd mid) \<Longrightarrow>
   takeWhile vsf_sysutil_isspace (sp @ mid @ r) = sp"
  by (cases mid) (auto simp: list_all_iff takeWhile_append)

lemma trimmed_value:
  assumes "list_all vsf_sysutil_isspace sp1" and "list_all vsf_sysutil_isspace sp2"
    and "mid \<noteq> []" and "\<not> vsf_sysutil_isspace (hd mid)" and "\<not> vsf_sysutil_isspace (last mid)"
    and "length (sp1 @ mid @ sp2) \<le> INT_MAX" and "avail (length mid + 1)"
  shows "str_strdup_trimmed avail (sp1 @ mid @ sp2) = Inr (Some mid)"
proof -
  have h: "takeWhile vsf_sysutil_isspace (sp1 @ mid @ sp2) = sp1"
    using isspace_takeWhile assms by blast
  have "takeWhile vsf_sysutil_isspace (rev sp2 @ rev mid @ rev sp1) = rev sp2"
    using isspace_takeWhile [of "rev sp2" "rev mid" "rev sp1"] assms by (simp add: hd_rev list_all_iff)
  then have t: "takeWhile vsf_sysutil_isspace (rev (sp1 @ mid @ sp2)) = rev sp2" by simp
  have n: "int (length (sp1 @ mid @ sp2)) - 1 - int (length (rev sp2)) - int (length sp1) + 1 = int (length mid)"
    by simp
  have small: "nat (int (length mid) mod 4294967296) = length mid" "u32 (length mid + 1) = length mid + 1"
    using assms(6) by (simp_all add: INT_MAX_def)
  show ?thesis
    unfolding str_strdup_trimmed_def h t Let_def n
    using assms(3,7) small by (simp add: vsf_sysutil_strndup_def comp_def)
qed

text \<open>
  \<open>str_strdup_trimmed\<close> returns a copy of the value without the white space at its two ends, when
  the value has a character that is not white space and the allocator can serve the copy.
\<close>

theorem str_strdup_trimmed_value:
  assumes "list_all vsf_sysutil_isspace sp1" and "list_all vsf_sysutil_isspace sp2"
    and "mid \<noteq> []" and "\<not> vsf_sysutil_isspace (hd mid)" and "\<not> vsf_sysutil_isspace (last mid)"
    and "length (sp1 @ mid @ sp2) \<le> INT_MAX" and "avail (length mid + 1)"
  shows "str_strdup_trimmed avail (sp1 @ mid @ sp2) = Inr (Some mid)"
  using assms by (rule trimmed_value)

lemma str_strdup_trimmed_value_witness:
  "str_strdup_trimmed (\<lambda>n. n < 100) ('' '' @ ''hi'' @ '' '') = Inr (Some ''hi'')"
  by (rule str_strdup_trimmed_value)
    (simp_all add: vsf_sysutil_isspace_def INT_MAX_def)

text \<open>
  Of a value that is nothing but white space, \<open>str_strdup_trimmed\<close> never returns a string: the length
  it computes is negative, so it passes \<open>vsf_sysutil_strndup\<close> a length near \<open>2 ^ 32\<close>, and
  unless the allocator refuses it, the copy reads and writes outside its buffers.
\<close>

theorem str_strdup_trimmed_all_space:
  assumes "str_all_space s" and "s \<noteq> []" and "length s \<le> INT_MAX"
  shows "str_strdup_trimmed avail s =
           (if avail (u32 (4294967297 - length s)) then Inl Undef else Inr None)"
proof -
  have tw: "takeWhile vsf_sysutil_isspace s = s" "takeWhile vsf_sysutil_isspace (rev s) = rev s"
    using assms(1) by (auto simp: str_all_space_def list_all_iff)
  have len: "0 < length s" "length s \<le> 2147483647" using assms(2,3) by (auto simp: INT_MAX_def)
  have "(- int (length s)) mod 4294967296 = 4294967296 - int (length s)"
    using len by (simp add: zmod_zminus1_eq_if)
  then have n: "nat ((- int (length s)) mod 4294967296) = 4294967296 - length s"
    using len by linarith
  have e: "4294967296 - length s + 1 = 4294967297 - length s" using len by simp
  have long: "4294967296 - length s > length (drop (length s) (map Some s @ [Some NUL]))"
    using len by simp
  show ?thesis
    unfolding str_strdup_trimmed_def tw Let_def vsf_sysutil_strndup_def
    using n e long assms(2) by simp
qed

lemma str_strdup_trimmed_all_space_witness:
  "str_strdup_trimmed (\<lambda>_. True) ''  '' = Inl Undef"
  using str_strdup_trimmed_all_space [where s = "''  ''" and avail = "\<lambda>_. True"]
  by (simp add: str_all_space_def vsf_sysutil_isspace_def INT_MAX_def)

end
