(* ===== verification/Strlist.thy ===== *)
theory Strlist
  imports Str_Buf "HOL-Library.Multiset"
begin

text \<open>
  \<^verbatim>\<open>strlist.c\<close>: the growing array of strings, each with an optional sort key, that directory listings are
  collected and sorted in. The array is a list of slots, \<open>None\<close> for a slot nobody filled.
\<close>

record mystr_list_node =
  node_str :: string
  sort_key_str :: string

record mystr_list =
  list_len :: nat
  alloc_len :: nat
  p_nodes :: "mystr_list_node option list"

definition INIT_STRLIST :: mystr_list where
  "INIT_STRLIST = \<lparr>list_len = 0, alloc_len = 0, p_nodes = []\<rparr>"

definition str_list_free :: "mystr_list \<Rightarrow> mystr_list" where
  "str_list_free p_list = p_list\<lparr>list_len := 0, alloc_len := 0, p_nodes := []\<rparr>"

definition str_list_get_length :: "mystr_list \<Rightarrow> nat" where
  "str_list_get_length p_list = list_len p_list"

text \<open>
  A node is 32 bytes (two \<open>struct mystr\<close>); the byte count is computed in \<open>size_t\<close> and reaches the
  allocator as an \<open>unsigned int\<close>.
\<close>

definition nodes_malloc :: "(nat \<Rightarrow> bool) \<Rightarrow> nat \<Rightarrow> mystr_list_node option list result" where
  "nodes_malloc avail n =
     andthen (vsf_sysutil_malloc avail (u32 (n * 32))) (\<lambda>m. Inr (replicate (length m div 32) None))"

definition nodes_realloc ::
  "(nat \<Rightarrow> bool) \<Rightarrow> mystr_list_node option list \<Rightarrow> nat \<Rightarrow> mystr_list_node option list result" where
  "nodes_realloc avail old n =
     (let sz = u32 (n * 32) in
      if sz = 0 \<or> sz > INT_MAX then bug ''zero or big size in vsf_sysutil_realloc''
      else if \<not> avail sz then die ''realloc''
      else Inr (take (sz div 32) old @ replicate (sz div 32 - length old) None))"

definition str_list_grow :: "(nat \<Rightarrow> bool) \<Rightarrow> mystr_list \<Rightarrow> mystr_list result" where
  "str_list_grow avail p_list =
     (if list_len p_list = alloc_len p_list
      then if alloc_len p_list = 0
           then andthen (nodes_malloc avail 32) (\<lambda>ns. Inr (p_list\<lparr>alloc_len := 32, p_nodes := ns\<rparr>))
           else let n = u32 (alloc_len p_list * 2) in
                andthen (nodes_realloc avail (p_nodes p_list) n) (\<lambda>ns.
                Inr (p_list\<lparr>alloc_len := n, p_nodes := ns\<rparr>))
      else Inr p_list)"

definition str_list_add ::
  "(nat \<Rightarrow> bool) \<Rightarrow> mystr_list \<Rightarrow> string \<Rightarrow> string option \<Rightarrow> mystr_list result" where
  "str_list_add avail p_list p_str p_sort_key_str =
     andthen (str_list_grow avail p_list) (\<lambda>l.
       if list_len l < length (p_nodes l)
       then Inr (l\<lparr>p_nodes := (p_nodes l)[list_len l :=
                    Some \<lparr>node_str = p_str,
                          sort_key_str = (case p_sort_key_str of None \<Rightarrow> [] | Some k \<Rightarrow> k)\<rparr>],
                  list_len := u32 (list_len l + 1)\<rparr>)
       else Inl Undef)"

definition nodes_of :: "mystr_list \<Rightarrow> mystr_list_node list" where
  "nodes_of p_list = map the (take (list_len p_list) (p_nodes p_list))"

definition str_list_contains_str :: "mystr_list \<Rightarrow> string \<Rightarrow> bool" where
  "str_list_contains_str p_list p_str = list_ex (\<lambda>n. str_equal p_str (node_str n)) (nodes_of p_list)"

definition str_list_get_pstr :: "mystr_list \<Rightarrow> nat \<Rightarrow> string result" where
  "str_list_get_pstr p_list indexx =
     (if indexx \<ge> list_len p_list then bug ''indexx out of range in str_list_get_str''
      else case p_nodes p_list ! indexx of None \<Rightarrow> Inl Undef | Some n \<Rightarrow> Inr (node_str n))"

definition sort_compare_common :: "mystr_list_node \<Rightarrow> mystr_list_node \<Rightarrow> bool \<Rightarrow> int" where
  "sort_compare_common p1 p2 rev_order =
     (let p_cmp1 = (if sort_key_str p1 \<noteq> [] then sort_key_str p1 else node_str p1);
          p_cmp2 = (if sort_key_str p2 \<noteq> [] then sort_key_str p2 else node_str p2)
      in if rev_order then str_strcmp p_cmp2 p_cmp1 else str_strcmp p_cmp1 p_cmp2)"

definition sort_compare_func :: "mystr_list_node \<Rightarrow> mystr_list_node \<Rightarrow> int" where
  "sort_compare_func p1 p2 = sort_compare_common p1 p2 False"

definition sort_compare_func_reverse :: "mystr_list_node \<Rightarrow> mystr_list_node \<Rightarrow> int" where
  "sort_compare_func_reverse p1 p2 = sort_compare_common p1 p2 True"

text \<open>
  \<open>qsort\<close> of the C library, which promises a permutation in ascending order of the comparison; the
  GNU library's merge sort keeps the order of equal elements, as this insertion does.
\<close>

fun qsort_insert :: "('a \<Rightarrow> 'a \<Rightarrow> int) \<Rightarrow> 'a \<Rightarrow> 'a list \<Rightarrow> 'a list" where
  "qsort_insert cmp x [] = [x]"
| "qsort_insert cmp x (y # ys) = (if cmp x y \<le> 0 then x # y # ys else y # qsort_insert cmp x ys)"

definition vsf_sysutil_qsort :: "('a \<Rightarrow> 'a \<Rightarrow> int) \<Rightarrow> 'a list \<Rightarrow> 'a list" where
  "vsf_sysutil_qsort cmp xs = foldr (qsort_insert cmp) xs []"

definition str_list_sort :: "mystr_list \<Rightarrow> bool \<Rightarrow> mystr_list" where
  "str_list_sort p_list rev_order =
     p_list\<lparr>p_nodes :=
       map Some (vsf_sysutil_qsort (if rev_order then sort_compare_func_reverse else sort_compare_func) (nodes_of p_list))
       @ drop (list_len p_list) (p_nodes p_list)\<rparr>"

section \<open>Sorting by a comparison function\<close>

text \<open>
  What \<open>qsort\<close> needs of a comparison function on the elements that satisfy \<open>ok\<close>: it is the order
  \<open>le\<close> of their keys, and that order is total and transitive.
\<close>

locale comparator =
  fixes cmp :: "'a \<Rightarrow> 'a \<Rightarrow> int" and ok :: "'a \<Rightarrow> bool" and key :: "'a \<Rightarrow> 'k" and le :: "'k \<Rightarrow> 'k \<Rightarrow> bool"
  assumes cmp_le: "ok x \<Longrightarrow> ok y \<Longrightarrow> cmp x y \<le> 0 \<longleftrightarrow> le (key x) (key y)"
    and le_total: "le a b \<or> le b a"
    and le_trans: "le a b \<Longrightarrow> le b c \<Longrightarrow> le a c"
begin

lemma insert_mset: "mset (qsort_insert cmp x xs) = add_mset x (mset xs)"
  by (induction xs) auto

lemma qsort_mset: "mset (vsf_sysutil_qsort cmp xs) = mset xs"
  by (induction xs) (auto simp: vsf_sysutil_qsort_def insert_mset)

lemma insert_sorted:
  assumes "ok x" and "list_all ok xs" and "sorted_wrt le (map key xs)"
  shows "sorted_wrt le (map key (qsort_insert cmp x xs))"
  using assms
proof (induction xs)
  case Nil
  then show ?case by simp
next
  case (Cons y ys)
  show ?case
  proof (cases "cmp x y \<le> 0")
    case True
    with Cons.prems have "le (key x) (key y)" by (simp add: cmp_le)
    with Cons.prems True show ?thesis by (auto intro: le_trans)
  next
    case False
    with Cons.prems have "le (key y) (key x)" using le_total cmp_le by force
    moreover have "set (qsort_insert cmp x ys) = insert x (set ys)"
      using arg_cong [OF insert_mset, of set_mset x ys] by simp
    ultimately show ?thesis using Cons False by auto
  qed
qed

lemma qsort_sorted:
  assumes "list_all ok xs"
  shows "sorted_wrt le (map key (vsf_sysutil_qsort cmp xs))"
  using assms
proof (induction xs)
  case Nil
  then show ?case by (simp add: vsf_sysutil_qsort_def)
next
  case (Cons x xs)
  have "list_all ok (vsf_sysutil_qsort cmp xs)"
    using Cons.prems arg_cong [OF qsort_mset, of set_mset xs] by (simp add: list_all_iff)
  with Cons show ?case by (simp add: vsf_sysutil_qsort_def insert_sorted)
qed

end

text \<open>The key a node is sorted by, and the two comparison functions of the file as comparators.\<close>

definition node_key :: "mystr_list_node \<Rightarrow> string" where
  "node_key n = (if sort_key_str n \<noteq> [] then sort_key_str n else node_str n)"

definition node_ok :: "mystr_list_node \<Rightarrow> bool" where
  "node_ok n \<longleftrightarrow> short_str (node_str n) \<and> short_str (sort_key_str n)"

lemma node_key_short: "node_ok n \<Longrightarrow> short_str (node_key n)"
  by (simp add: node_ok_def node_key_def)

lemma bytes_le_linear: "\<not> bytes_le a b \<Longrightarrow> bytes_le b a"
  using bytes_le_total by blast

interpretation asc: comparator sort_compare_func node_ok node_key bytes_le
  by unfold_locales
    (auto simp: sort_compare_func_def sort_compare_common_def Let_def node_key_def [symmetric]
        str_strcmp_le node_key_short intro: bytes_le_trans bytes_le_linear)

interpretation desc: comparator sort_compare_func_reverse node_ok node_key "\<lambda>a b. bytes_le b a"
  by unfold_locales
    (auto simp: sort_compare_func_reverse_def sort_compare_common_def Let_def node_key_def [symmetric]
        str_strcmp_le node_key_short intro: bytes_le_trans bytes_le_linear)

section \<open>The array\<close>

definition strlist_ok :: "mystr_list \<Rightarrow> bool" where
  "strlist_ok l \<longleftrightarrow> length (p_nodes l) = alloc_len l \<and> list_len l \<le> alloc_len l \<and>
     alloc_len l * 32 \<le> INT_MAX \<and> None \<notin> set (take (list_len l) (p_nodes l))"

lemma strlist_ok_INIT [simp]: "strlist_ok INIT_STRLIST" "strlist_ok (str_list_free l)"
  by (simp_all add: strlist_ok_def INIT_STRLIST_def str_list_free_def)

lemma nodes_of_INIT [simp]: "nodes_of INIT_STRLIST = []"
  by (simp add: nodes_of_def INIT_STRLIST_def)

lemma str_list_grow_ok:
  assumes "strlist_ok l"
  shows "str_list_grow avail l \<noteq> Inl Undef"
    and "str_list_grow avail l = Inr l' \<Longrightarrow>
           strlist_ok l' \<and> list_len l' < alloc_len l' \<and> list_len l' = list_len l \<and> nodes_of l' = nodes_of l"
proof -
  show "str_list_grow avail l \<noteq> Inl Undef"
    by (simp add: str_list_grow_def nodes_malloc_def nodes_realloc_def vsf_sysutil_malloc_def halt_simps Let_def)
  assume grow: "str_list_grow avail l = Inr l'"
  have bnd: "alloc_len l * 32 \<le> 2147483647" using assms by (simp add: strlist_ok_def INT_MAX_def)
  then have u: "u32 (alloc_len l * 2) = alloc_len l * 2" "u32 (alloc_len l * 2 * 32) = alloc_len l * 64"
    by simp_all
  consider "list_len l \<noteq> alloc_len l" | "list_len l = 0" "alloc_len l = 0"
    | "list_len l = alloc_len l" "alloc_len l > 0" by linarith
  then show "strlist_ok l' \<and> list_len l' < alloc_len l' \<and> list_len l' = list_len l \<and> nodes_of l' = nodes_of l"
  proof cases
    case 1
    with grow assms show ?thesis by (auto simp: str_list_grow_def strlist_ok_def)
  next
    case 2
    with grow assms show ?thesis
      by (auto simp: str_list_grow_def nodes_malloc_def vsf_sysutil_malloc_def halt_simps strlist_ok_def
          nodes_of_def INT_MAX_def split: if_splits)
  next
    case 3
    with grow have "alloc_len l * 64 \<le> INT_MAX"
      and l': "l' = l\<lparr>alloc_len := alloc_len l * 2,
              p_nodes := take (alloc_len l * 2) (p_nodes l) @ replicate (alloc_len l * 2 - length (p_nodes l)) None\<rparr>"
      using u by (auto simp: str_list_grow_def nodes_realloc_def halt_simps Let_def mult.commute split: if_splits)
    with 3 assms show ?thesis by (auto simp: strlist_ok_def nodes_of_def)
  qed
qed

lemma list_add_ok:
  assumes "strlist_ok l"
  shows "case str_list_add avail l s k of
           Inl h \<Rightarrow> h \<noteq> Undef
         | Inr l' \<Rightarrow> strlist_ok l' \<and>
             nodes_of l' = nodes_of l @ [\<lparr>node_str = s, sort_key_str = (case k of None \<Rightarrow> [] | Some x \<Rightarrow> x)\<rparr>]"
proof (cases "str_list_grow avail l")
  case (Inl h)
  with str_list_grow_ok(1) [OF assms, of avail] show ?thesis by (simp add: str_list_add_def)
next
  case (Inr l1)
  note l1 = str_list_grow_ok(2) [OF assms Inr]
  then have "list_len l1 < length (p_nodes l1)" "u32 (Suc (list_len l1)) = Suc (list_len l1)"
    by (auto simp: strlist_ok_def INT_MAX_def)
  with Inr l1 show ?thesis
    by (auto simp: str_list_add_def strlist_ok_def nodes_of_def take_Suc_conv_app_nth)
qed

text \<open>
  \<open>str_list_add\<close> on a well-formed list stops only at an explicit check of the allocator, and
  otherwise appends the string with its key: it never writes outside the array, although the array's size in
  bytes is computed modulo \<open>2 ^ 32\<close>.
\<close>

theorem str_list_add_ok:
  assumes "strlist_ok l"
  shows "case str_list_add avail l s k of
           Inl h \<Rightarrow> h \<noteq> Undef
         | Inr l' \<Rightarrow> strlist_ok l' \<and>
             nodes_of l' = nodes_of l @ [\<lparr>node_str = s, sort_key_str = (case k of None \<Rightarrow> [] | Some x \<Rightarrow> x)\<rparr>]"
  using assms by (rule list_add_ok)

lemma str_list_add_ok_witness:
  "case str_list_add (\<lambda>_. True) INIT_STRLIST ''a.txt'' None of
     Inl h \<Rightarrow> h \<noteq> Undef
   | Inr l' \<Rightarrow> strlist_ok l' \<and>
       nodes_of l' = nodes_of INIT_STRLIST @ [\<lparr>node_str = ''a.txt'', sort_key_str = (case None of None \<Rightarrow> [] | Some x \<Rightarrow> x)\<rparr>]"
  by (rule str_list_add_ok) simp

lemma nodes_of_sort:
  assumes "strlist_ok l"
  shows "nodes_of (str_list_sort l r) =
    vsf_sysutil_qsort (if r then sort_compare_func_reverse else sort_compare_func) (nodes_of l)"
proof -
  let ?xs = "vsf_sysutil_qsort (if r then sort_compare_func_reverse else sort_compare_func) (nodes_of l)"
  have "size (mset ?xs) = size (mset (nodes_of l))"
    by (cases r) (simp_all only: asc.qsort_mset desc.qsort_mset if_True if_False)
  then have "length ?xs = list_len l" using assms by (auto simp: nodes_of_def strlist_ok_def)
  then show ?thesis by (auto simp: str_list_sort_def nodes_of_def comp_def)
qed

text \<open>
  \<open>str_list_sort\<close> rearranges the nodes and leaves them in ascending (for \<open>reverse\<close>, descending)
  byte order of their keys, the key being the sort key or, when there is none, the string itself.
\<close>

theorem str_list_sort_sorted:
  assumes "strlist_ok l" and "list_all node_ok (nodes_of l)"
  shows "mset (nodes_of (str_list_sort l r)) = mset (nodes_of l) \<and>
    sorted_wrt (\<lambda>a b. if r then bytes_le b a else bytes_le a b) (map node_key (nodes_of (str_list_sort l r)))"
  unfolding nodes_of_sort [OF assms(1)]
  using asc.qsort_sorted [OF assms(2)] desc.qsort_sorted [OF assms(2)] asc.qsort_mset desc.qsort_mset
  by (cases r) simp_all

lemma str_list_sort_sorted_witness:
  "mset (nodes_of (str_list_sort
     \<lparr>list_len = 2, alloc_len = 2, p_nodes = [Some \<lparr>node_str = ''b'', sort_key_str = []\<rparr>,
        Some \<lparr>node_str = ''a'', sort_key_str = []\<rparr>]\<rparr> False))
   = mset [\<lparr>node_str = ''b'', sort_key_str = []\<rparr>, \<lparr>node_str = ''a'', sort_key_str = []\<rparr>]"
  using str_list_sort_sorted [of "\<lparr>list_len = 2, alloc_len = 2,
      p_nodes = [Some \<lparr>node_str = ''b'', sort_key_str = []\<rparr>, Some \<lparr>node_str = ''a'', sort_key_str = []\<rparr>]\<rparr>" False]
  by (simp add: strlist_ok_def nodes_of_def node_ok_def short_str_def INT_MAX_def)

end
