(* ===== verification/Ascii.thy ===== *)
theory Ascii
  imports Prelude
begin

text \<open>
  \<^verbatim>\<open>ascii.c\<close>: conversion between the local and the network form of lines, one buffer at a time, with the
  flag that carries a trailing CR from one buffer to the next. \<open>vsf_ascii_ascii_to_bin\<close> works in place;
  its reads and writes are checked against the buffer (\<open>Undef\<close> outside it).
\<close>

section \<open>The code\<close>

definition buf_get :: "string \<Rightarrow> nat \<Rightarrow> char result" where
  "buf_get b i = (if i < length b then Inr (b ! i) else Inl Undef)"

definition buf_put :: "string \<Rightarrow> nat \<Rightarrow> char \<Rightarrow> string result" where
  "buf_put b i c = (if i < length b then Inr (b[i := c]) else Inl Undef)"

text \<open>\<open>ret_off\<close> is the offset of the returned \<open>p_buf\<close> in the buffer, which is returned as \<open>ret_mem\<close>.\<close>

record ascii_to_bin_ret =
  stored :: nat
  last_was_cr :: bool
  ret_off :: nat
  ret_mem :: string

function ascii_to_bin_loop ::
  "string \<Rightarrow> nat \<Rightarrow> nat \<Rightarrow> nat \<Rightarrow> nat \<Rightarrow> bool \<Rightarrow> (string \<times> nat \<times> bool) result" where
  "ascii_to_bin_loop p_buf in_len indexx p_out written last_cr =
     (if indexx < in_len
      then andthen (buf_get p_buf (indexx + 1)) (\<lambda>the_char.
        if the_char \<noteq> CR
        then andthen (buf_put p_buf p_out the_char) (\<lambda>b.
             ascii_to_bin_loop b in_len (indexx + 1) (p_out + 1) (written + 1) last_cr)
        else if indexx = in_len - 1
        then ascii_to_bin_loop p_buf in_len (indexx + 1) p_out written True
        else andthen (buf_get p_buf (indexx + 2)) (\<lambda>nxt.
             if nxt \<noteq> LF
             then andthen (buf_put p_buf p_out the_char) (\<lambda>b.
                  ascii_to_bin_loop b in_len (indexx + 1) (p_out + 1) (written + 1) last_cr)
             else ascii_to_bin_loop p_buf in_len (indexx + 1) p_out written last_cr))
      else Inr (p_buf, written, last_cr))"
  by pat_completeness auto
termination
  by (relation "measure (\<lambda>(b, n, i, p, w, l). n - i)") auto

declare ascii_to_bin_loop.simps [simp del]

definition vsf_ascii_ascii_to_bin :: "string \<Rightarrow> nat \<Rightarrow> bool \<Rightarrow> ascii_to_bin_ret result" where
  "vsf_ascii_ascii_to_bin p_buf in_len prev_cr =
     andthen (if prev_cr
              then (if in_len = 0 then Inr True else andthen (buf_get p_buf 1) (\<lambda>c. Inr (c \<noteq> LF)))
              else Inr False) (\<lambda>emit_cr.
     andthen (if emit_cr then andthen (buf_put p_buf 0 CR) (\<lambda>b. Inr (b, 0, 1)) else Inr (p_buf, 1, 0))
       (\<lambda>(b, off, written).
     andthen (ascii_to_bin_loop b in_len 0 1 written False) (\<lambda>(b', w, l).
     Inr \<lparr>stored = w, last_was_cr = l, ret_off = off, ret_mem = b'\<rparr>)))"

text \<open>The loop of \<open>vsf_ascii_bin_to_ascii\<close>: input, last character, last-was-CR flag, output so far.\<close>

primrec bin_to_ascii_loop :: "string \<Rightarrow> char \<Rightarrow> bool \<Rightarrow> string \<Rightarrow> string \<times> bool" where
  "bin_to_ascii_loop [] last_char last_cr p_out = (p_out, last_cr)"
| "bin_to_ascii_loop (the_char # p_in) last_char last_cr p_out =
     bin_to_ascii_loop p_in the_char (the_char = CR)
       ((if the_char = LF \<and> last_char \<noteq> CR then p_out @ [CR] else p_out) @ [the_char])"

definition vsf_ascii_bin_to_ascii :: "string \<Rightarrow> bool \<Rightarrow> string \<times> bool" where
  "vsf_ascii_bin_to_ascii p_in prev_cr =
     bin_to_ascii_loop p_in (if prev_cr then CR else NUL) prev_cr []"

section \<open>What the conversions mean on a whole file\<close>

fun strip_cr :: "string \<Rightarrow> string" where
  "strip_cr [] = []"
| "strip_cr [c] = [c]"
| "strip_cr (c # d # cs) = (if c = CR \<and> d = LF then strip_cr (d # cs) else c # strip_cr (d # cs))"

primrec add_cr :: "bool \<Rightarrow> string \<Rightarrow> string" where
  "add_cr after_cr [] = []"
| "add_cr after_cr (c # cs) = (if c = LF \<and> \<not> after_cr then [CR, LF] else [c]) @ add_cr (c = CR) cs"

abbreviation carried :: "bool \<Rightarrow> string" where
  "carried prev_cr \<equiv> (if prev_cr then [CR] else [])"

text \<open>The characters a buffer yields when a trailing CR is held back: \<open>kept\<close>, and whether one is.\<close>

fun kept :: "string \<Rightarrow> string" where
  "kept [] = []"
| "kept [c] = (if c = CR then [] else [c])"
| "kept (c # d # cs) = (if c = CR \<and> d = LF then kept (d # cs) else c # kept (d # cs))"

definition ends_cr :: "string \<Rightarrow> bool" where
  "ends_cr d \<longleftrightarrow> d \<noteq> [] \<and> last d = CR"

lemma ends_cr_Nil [simp]: "\<not> ends_cr []"
  by (simp add: ends_cr_def)

lemma kept_strip: "d \<noteq> [] \<Longrightarrow> strip_cr (d @ rest) = kept d @ strip_cr (carried (ends_cr d) @ rest)"
proof (induction d rule: kept.induct)
  case (2 c)
  show ?case by (cases rest) (auto simp: ends_cr_def)
qed (auto simp: ends_cr_def)

lemma kept_length: "length (kept d) \<le> length d"
  by (induction d rule: kept.induct) auto

lemma kept_Cons_drop:
  assumes "i < length d"
  shows "kept (drop i d) =
    (if d ! i = CR \<and> (Suc i = length d \<or> d ! Suc i = LF) then kept (drop (Suc i) d)
     else d ! i # kept (drop (Suc i) d))"
proof -
  have d: "drop i d = d ! i # drop (Suc i) d" using assms by (simp add: Cons_nth_drop_Suc)
  show ?thesis
  proof (cases "Suc i < length d")
    case True
    then have "drop (Suc i) d = d ! Suc i # drop (Suc (Suc i)) d" by (simp add: Cons_nth_drop_Suc)
    with d True show ?thesis by auto
  next
    case False
    with assms d show ?thesis by auto
  qed
qed

lemma loop_computes:
  assumes "length b = Suc (length d)" and "i \<le> length d" and "p = Suc j" and "j \<le> i"
    and "drop (Suc i) b = drop i d"
  shows "\<exists>b'. ascii_to_bin_loop b (length d) i p w l =
      Inr (b', w + length (kept (drop i d)), l \<or> ends_cr (drop i d)) \<and>
      length b' = length b \<and> take (p + length (kept (drop i d))) b' = take p b @ kept (drop i d)"
  using assms
proof (induction "length d - i" arbitrary: b i p j w l)
  case 0
  then show ?case by (auto simp: ascii_to_bin_loop.simps [of b] ends_cr_def)
next
  case (Suc n)
  then have i: "i < length d" by simp
  have nth: "b ! Suc k = d ! k" if "i \<le> k" "k < length d" for k
    using that Suc.prems(1,2,5) by (metis add.commute add_Suc_right le_Suc_ex nth_drop length_drop Suc_le_mono
        less_imp_le_nat)
  have next_drop: "drop (Suc (Suc i)) b = drop (Suc i) d"
    using Suc.prems(5) by (metis drop_Suc tl_drop)
  have ends: "ends_cr (drop i d) \<longleftrightarrow> (if Suc i = length d then d ! i = CR else ends_cr (drop (Suc i) d))"
    using i by (auto simp: ends_cr_def Cons_nth_drop_Suc [symmetric, OF i])
  let ?put = "b[p := d ! i]"
  have put: "length ?put = Suc (length d)" "drop (Suc (Suc i)) ?put = drop (Suc i) d"
    using Suc.prems next_drop by simp_all
  have emit: ?case
    if "ascii_to_bin_loop b (length d) i p w l = ascii_to_bin_loop ?put (length d) (Suc i) (Suc p) (Suc w) l"
      and "kept (drop i d) = d ! i # kept (drop (Suc i) d)" and "ends_cr (drop i d) = ends_cr (drop (Suc i) d)"
  proof -
    have "p < length b" using Suc.prems i by simp
    then have "take (Suc p) ?put = take p b @ [d ! i]"
      by (simp add: take_Suc_conv_app_nth)
    with Suc.hyps(1) [of "Suc i" ?put "Suc p" "Suc j" "Suc w" l] Suc.hyps(2) Suc.prems put i that show ?thesis
      by auto
  qed
  have skip: ?case
    if "ascii_to_bin_loop b (length d) i p w l = ascii_to_bin_loop b (length d) (Suc i) p w l'"
      and "kept (drop i d) = kept (drop (Suc i) d)"
      and "(l' \<or> ends_cr (drop (Suc i) d)) = (l \<or> ends_cr (drop i d))" for l'
    using Suc.hyps(1) [of "Suc i" b p j w l'] Suc.hyps(2) Suc.prems next_drop i that by auto
  have p: "p < length b" using Suc.prems i by simp
  note step = ascii_to_bin_loop.simps [of b "length d" i p w l] kept_Cons_drop [OF i] ends
  consider "d ! i \<noteq> CR" | "d ! i = CR" "Suc i = length d"
    | "d ! i = CR" "Suc i < length d" "d ! Suc i \<noteq> LF" | "d ! i = CR" "Suc i < length d" "d ! Suc i = LF"
    using i by linarith
  then show ?case
  proof cases
    case 1
    then show ?thesis using i p nth [of i] Suc.prems(1)
      by (intro emit) (auto simp: step buf_get_def buf_put_def)
  next
    case 2
    then show ?thesis using i nth [of i] Suc.prems(1)
      by (intro skip [of True]) (auto simp: step buf_get_def)
  next
    case 3
    then show ?thesis using i p nth [of i] nth [of "Suc i"] Suc.prems(1)
      by (intro emit) (auto simp: step buf_get_def buf_put_def)
  next
    case 4
    then show ?thesis using i nth [of i] nth [of "Suc i"] Suc.prems(1)
      by (intro skip [of l]) (auto simp: step buf_get_def)
  qed
qed

text \<open>The bytes the caller finds at the returned \<open>p_buf\<close>.\<close>

definition a2b_out :: "ascii_to_bin_ret \<Rightarrow> string" where
  "a2b_out r = take (stored r) (drop (ret_off r) (ret_mem r))"

lemma ascii_to_bin_computes:
  assumes "length b = Suc (length d)" and "tl b = d"
  shows "\<exists>r. vsf_ascii_ascii_to_bin b (length d) prev_cr = Inr r \<and>
           a2b_out r = (if prev_cr \<and> (d = [] \<or> hd d \<noteq> LF) then [CR] else []) @ kept d \<and>
           last_was_cr r = ends_cr d \<and> ret_off r + stored r \<le> length b"
proof -
  obtain x where b: "b = x # d" using assms by (cases b) auto
  let ?emit = "prev_cr \<and> (d = [] \<or> hd d \<noteq> LF)"
  have run: "vsf_ascii_ascii_to_bin b (length d) prev_cr =
      andthen (ascii_to_bin_loop (if ?emit then CR # d else b) (length d) 0 1 (if ?emit then 1 else 0) False)
        (\<lambda>(b', w, l). Inr \<lparr>stored = w, last_was_cr = l, ret_off = (if ?emit then 0 else 1), ret_mem = b'\<rparr>)"
    by (cases d) (auto simp: vsf_ascii_ascii_to_bin_def b buf_get_def buf_put_def)
  have "length (if ?emit then CR # d else b) = Suc (length d)" "drop (Suc 0) (if ?emit then CR # d else b) = drop 0 d"
    by (simp_all add: b)
  from loop_computes [OF this(1) _ _ _ this(2), of 1 0 "if ?emit then 1 else 0" False]
  obtain b' where b': "ascii_to_bin_loop (if ?emit then CR # d else b) (length d) 0 1 (if ?emit then 1 else 0) False =
      Inr (b', (if ?emit then 1 else 0) + length (kept d), ends_cr d)" "length b' = Suc (length d)"
      "take (1 + length (kept d)) b' = take 1 (if ?emit then CR # d else b) @ kept d"
    by (auto simp: b)
  obtain y ys where ys: "b' = y # ys" using b'(2) by (cases b') auto
  have tk: "take (length (kept d)) ys = kept d" "?emit \<Longrightarrow> y = CR"
    using b'(3) by (auto simp: ys b split: if_splits)
  show ?thesis
    unfolding run b'(1) using tk b'(2) kept_length [of d] by (auto simp: a2b_out_def ys b)
qed

lemma bin_to_ascii_loop_eq:
  "bin_to_ascii_loop d c f acc =
     (acc @ add_cr (c = CR) d, if d = [] then f else last d = CR)"
  by (induction d arbitrary: c f acc) auto

lemma bin_to_ascii_eq:
  "vsf_ascii_bin_to_ascii d prev_cr = (add_cr prev_cr d, if d = [] then prev_cr else last d = CR)"
  by (simp add: vsf_ascii_bin_to_ascii_def bin_to_ascii_loop_eq)

section \<open>One buffer after another\<close>

text \<open>The pieces of a transfer, converted one after the other with the carried flag.\<close>

primrec convert_chunks :: "(bool \<Rightarrow> string \<Rightarrow> string \<times> bool) \<Rightarrow> bool \<Rightarrow> string list \<Rightarrow> string \<times> bool" where
  "convert_chunks step f [] = ([], f)"
| "convert_chunks step f (d # ds) =
     (case step f d of (out, f') \<Rightarrow> case convert_chunks step f' ds of (outs, g) \<Rightarrow> (out @ outs, g))"

text \<open>
  A converter that is fed a file in pieces: \<open>step\<close> turns a piece into output and the flag for the next
  one, \<open>meaning f d\<close> is the output due for the data \<open>d\<close> that follows with flag \<open>f\<close>. The law says that
  converting a piece, then the rest, is converting the whole.
\<close>

locale chunk_converter =
  fixes step :: "bool \<Rightarrow> string \<Rightarrow> string \<times> bool" and meaning :: "bool \<Rightarrow> string \<Rightarrow> string"
  assumes step_law: "d \<noteq> [] \<Longrightarrow> meaning f (d @ rest) = fst (step f d) @ meaning (snd (step f d)) rest"
begin

lemma run_meaning:
  assumes "[] \<notin> set ds"
  shows "fst (convert_chunks step f ds) @ meaning (snd (convert_chunks step f ds)) rest = meaning f (concat ds @ rest)"
  using assms
proof (induction ds arbitrary: f)
  case Nil
  then show ?case by simp
next
  case (Cons d ds)
  then show ?case using step_law [of d f "concat ds @ rest"] by (auto simp: split_def)
qed

end

text \<open>The two conversions of the file as steps on a piece of data: upload and download.\<close>

definition upload_step :: "bool \<Rightarrow> string \<Rightarrow> string \<times> bool" where
  "upload_step prev_cr d =
     (case vsf_ascii_ascii_to_bin (NUL # d) (length d) prev_cr of
        Inl h \<Rightarrow> ([], False) | Inr r \<Rightarrow> (a2b_out r, last_was_cr r))"

definition download_step :: "bool \<Rightarrow> string \<Rightarrow> string \<times> bool" where
  "download_step prev_cr d = vsf_ascii_bin_to_ascii d prev_cr"

lemma upload_step_eq:
  "upload_step prev_cr d = ((if prev_cr \<and> (d = [] \<or> hd d \<noteq> LF) then [CR] else []) @ kept d, ends_cr d)"
  using ascii_to_bin_computes [of "NUL # d" d prev_cr] by (auto simp: upload_step_def)

lemma strip_cr_carried:
  "d \<noteq> [] \<Longrightarrow> strip_cr (CR # d) = (if hd d \<noteq> LF then [CR] else []) @ strip_cr d"
  by (cases d) auto

lemma add_cr_append:
  "d \<noteq> [] \<Longrightarrow> add_cr f (d @ rest) = add_cr f d @ add_cr (last d = CR) rest"
  by (induction d arbitrary: f) auto

interpretation upload: chunk_converter upload_step "\<lambda>f d. strip_cr (carried f @ d)"
proof
  fix d rest f assume d: "d \<noteq> ([] :: string)"
  show "strip_cr (carried f @ d @ rest) =
      fst (upload_step f d) @ strip_cr (carried (snd (upload_step f d)) @ rest)"
    using d kept_strip [OF d, of rest] strip_cr_carried [of "d @ rest"] by (simp add: upload_step_eq)
qed

interpretation download: chunk_converter download_step add_cr
  by unfold_locales (auto simp: download_step_def bin_to_ascii_eq add_cr_append)

text \<open>
  \<open>vsf_ascii_ascii_to_bin\<close> on a buffer with one spare byte in front returns, never reads or writes
  outside the buffer, and yields at the returned pointer the data with every CR before an LF dropped, a CR at the
  end held back and announced, and a CR held back before put in front unless it precedes an LF.
\<close>

theorem ascii_to_bin_in_place:
  assumes "length b = Suc (length d)" and "tl b = d"
  shows "\<exists>r. vsf_ascii_ascii_to_bin b (length d) prev_cr = Inr r \<and>
           a2b_out r @ carried (last_was_cr r) = strip_cr (carried prev_cr @ d) \<and>
           ret_off r + stored r \<le> length b"
proof -
  obtain r where r: "vsf_ascii_ascii_to_bin b (length d) prev_cr = Inr r"
    "a2b_out r = (if prev_cr \<and> (d = [] \<or> hd d \<noteq> LF) then [CR] else []) @ kept d"
    "last_was_cr r = ends_cr d" "ret_off r + stored r \<le> length b"
    using ascii_to_bin_computes [OF assms] by blast
  have "strip_cr d = kept d @ carried (ends_cr d)"
    using kept_strip [of d "[]"] by (cases "d = []") auto
  then have "a2b_out r @ carried (last_was_cr r) = strip_cr (carried prev_cr @ d)"
    using r(2,3) strip_cr_carried [of d] by (cases "d = []") auto
  with r(1,4) show ?thesis by blast
qed

lemma ascii_to_bin_in_place_witness:
  "\<exists>r. vsf_ascii_ascii_to_bin [NUL, LF, CHR ''a'', CR] (length [LF, CHR ''a'', CR]) True = Inr r \<and>
     a2b_out r @ carried (last_was_cr r) = strip_cr (carried True @ [LF, CHR ''a'', CR]) \<and>
     ret_off r + stored r \<le> length [NUL, LF, CHR ''a'', CR]"
  by (rule ascii_to_bin_in_place) simp_all

text \<open>
  An ASCII upload that arrives in any non-empty pieces, converted piece by piece with the carried flag
  and finished by the empty read, stores the data with every CR LF turned into LF and every other CR
  kept: the result does not depend on where the network cut the data.
\<close>

theorem upload_chunks:
  assumes "[] \<notin> set ds"
  shows "fst (convert_chunks upload_step False ds) @ fst (upload_step (snd (convert_chunks upload_step False ds)) []) = strip_cr (concat ds)"
  using upload.run_meaning [OF assms, of False "[]"] by (auto simp: upload_step_eq)

lemma upload_chunks_witness:
  "fst (convert_chunks upload_step False [[CHR ''a'', CR], [LF, CR], [CHR ''b'', CR]]) @
     fst (upload_step (snd (convert_chunks upload_step False [[CHR ''a'', CR], [LF, CR], [CHR ''b'', CR]])) [])
   = [CHR ''a'', LF, CR, CHR ''b'', CR]"
  using upload_chunks [of "[[CHR ''a'', CR], [LF, CR], [CHR ''b'', CR]]"] by simp

text \<open>
  An ASCII download, converted piece by piece, sends the data with a CR in front of every LF that has
  none, wherever the file is cut into buffers, and never more than twice the bytes of a piece.
\<close>

theorem download_chunks:
  assumes "[] \<notin> set ds"
  shows "fst (convert_chunks download_step False ds) = add_cr False (concat ds) \<and>
         length (fst (vsf_ascii_bin_to_ascii d f)) \<le> 2 * length d"
proof -
  have "length (add_cr f d) \<le> 2 * length d" by (induction d arbitrary: f) (auto intro: le_SucI)
  then show ?thesis
    using download.run_meaning [OF assms, of False "[]"] by (simp add: bin_to_ascii_eq)
qed

lemma download_chunks_witness:
  "fst (convert_chunks download_step False [[CHR ''a'', CR], [LF, CHR ''b''], [LF]]) = [CHR ''a'', CR, LF, CHR ''b'', CR, LF]"
  using download_chunks [of "[[CHR ''a'', CR], [LF, CHR ''b''], [LF]]"] by simp

lemma strip_add_cr: "strip_cr (carried f @ add_cr f d) = strip_cr (carried f @ d)"
proof (induction d arbitrary: f)
  case Nil
  then show ?case by simp
next
  case (Cons c d)
  show ?case
  proof (cases "c = CR")
    case True
    with Cons.IH [of True] show ?thesis by auto
  next
    case False
    then have "strip_cr (c # add_cr False d) = c # strip_cr (add_cr False d)" "strip_cr (c # d) = c # strip_cr d"
      by (cases "add_cr False d", simp_all, cases d, simp_all)
    with False Cons.IH [of False] show ?thesis by (cases f; cases "c = LF") simp_all
  qed
qed

lemma strip_cr_id: "\<not> sublist [CR, LF] d \<Longrightarrow> strip_cr d = d"
proof (induction d rule: strip_cr.induct)
  case (3 c e cs)
  have "\<not> sublist [CR, LF] (e # cs)" using "3.prems" by (auto simp: sublist_Cons_right)
  moreover have "\<not> (c = CR \<and> e = LF)" using "3.prems" by (auto simp: sublist_Cons_right)
  ultimately show ?case using 3 by auto
qed auto

end
