(* ===== verification/Hash.thy ===== *)
theory Hash
  imports Prelude
begin

text \<open>
  \<^verbatim>\<open>hash.c\<close>: a hash table of doubly linked buckets. The nodes live in a heap, a map from addresses to
  nodes; \<open>p_prev\<close> and \<open>p_next\<close> are addresses or \<open>None\<close> for the null pointer, and a bucket is the address of its
  first node. Following a dangling pointer is \<open>Undef\<close>. The contract of a map is the locale
  \<open>map_table\<close>, of which the table is shown to be an instance.
\<close>

section \<open>The code\<close>

record ('k, 'v) hash_node =
  p_key :: 'k
  p_value :: 'v
  p_prev :: "nat option"
  p_next :: "nat option"

type_synonym ('k, 'v) node_heap = "nat \<Rightarrow> ('k, 'v) hash_node option"

record ('k, 'v) hash =
  buckets :: nat
  hash_func :: "nat \<Rightarrow> 'k \<Rightarrow> nat"
  p_nodes :: "nat option list"
  heap :: "('k, 'v) node_heap"
  next_addr :: nat

text \<open>\<open>next_addr\<close> is the address the allocator hands out next.\<close>

definition hash_alloc :: "nat \<Rightarrow> (nat \<Rightarrow> 'k \<Rightarrow> nat) \<Rightarrow> ('k, 'v) hash" where
  "hash_alloc n f =
     \<lparr>buckets = n, hash_func = f, p_nodes = replicate n None, heap = (\<lambda>_. None), next_addr = 0\<rparr>"

definition hash_get_bucket :: "('k, 'v) hash \<Rightarrow> 'k \<Rightarrow> nat result" where
  "hash_get_bucket p_hash key =
     (let bucket = hash_func p_hash (buckets p_hash) key in
      if bucket \<ge> buckets p_hash then bug ''bad bucket lookup'' else Inr bucket)"

text \<open>
  The \<open>while\<close> loop of \<open>hash_get_node_by_key\<close>. Its first argument bounds the number of turns; the number of
  nodes ever allocated is enough (\<open>find_node_enough\<close>), and a loop that needs more never ends.
\<close>

fun find_node :: "nat \<Rightarrow> ('k, 'v) node_heap \<Rightarrow> nat option \<Rightarrow> 'k \<Rightarrow> nat option result" where
  "find_node fuel h None key = Inr None"
| "find_node 0 h (Some a) key = Inl Undef"
| "find_node (Suc fuel) h (Some a) key =
     (case h a of
        None \<Rightarrow> Inl Undef
      | Some n \<Rightarrow> if p_key n \<noteq> key then find_node fuel h (p_next n) key else Inr (Some a))"

definition hash_get_node_by_key :: "('k, 'v) hash \<Rightarrow> 'k \<Rightarrow> nat option result" where
  "hash_get_node_by_key p_hash key =
     andthen (hash_get_bucket p_hash key) (\<lambda>b.
       find_node (next_addr p_hash) (heap p_hash) (p_nodes p_hash ! b) key)"

definition hash_lookup_entry :: "('k, 'v) hash \<Rightarrow> 'k \<Rightarrow> 'v option result" where
  "hash_lookup_entry p_hash key =
     andthen (hash_get_node_by_key p_hash key) (\<lambda>p.
       case p of
         None \<Rightarrow> Inr None
       | Some a \<Rightarrow> (case heap p_hash a of None \<Rightarrow> Inl Undef | Some n \<Rightarrow> Inr (Some (p_value n))))"

definition hash_add_entry :: "('k, 'v) hash \<Rightarrow> 'k \<Rightarrow> 'v \<Rightarrow> ('k, 'v) hash result" where
  "hash_add_entry p_hash key val =
     andthen (hash_lookup_entry p_hash key) (\<lambda>r.
     if r \<noteq> None then bug ''duplicate hash key''
     else andthen (hash_get_bucket p_hash key) (\<lambda>b.
       let a = next_addr p_hash;
           new_node = \<lparr>p_key = key, p_value = val, p_prev = None, p_next = None\<rparr>
       in case p_nodes p_hash ! b of
            None \<Rightarrow> Inr (p_hash\<lparr>heap := (heap p_hash)(a \<mapsto> new_node), next_addr := Suc a,
                         p_nodes := (p_nodes p_hash)[b := Some a]\<rparr>)
          | Some old \<Rightarrow> (case heap p_hash old of
              None \<Rightarrow> Inl Undef
            | Some old_node \<Rightarrow>
                Inr (p_hash\<lparr>heap := (heap p_hash)(a \<mapsto> new_node\<lparr>p_next := Some old\<rparr>,
                                                    old \<mapsto> old_node\<lparr>p_prev := Some a\<rparr>),
                            next_addr := Suc a, p_nodes := (p_nodes p_hash)[b := Some a]\<rparr>))))"

text \<open>\<open>set_next\<close> and \<open>set_prev\<close> are the assignments through a node pointer.\<close>

definition set_next :: "('k, 'v) node_heap \<Rightarrow> nat \<Rightarrow> nat option \<Rightarrow> ('k, 'v) node_heap result" where
  "set_next h a p = (case h a of None \<Rightarrow> Inl Undef | Some n \<Rightarrow> Inr (h(a \<mapsto> n\<lparr>p_next := p\<rparr>)))"

definition set_prev :: "('k, 'v) node_heap \<Rightarrow> nat \<Rightarrow> nat option \<Rightarrow> ('k, 'v) node_heap result" where
  "set_prev h a p = (case h a of None \<Rightarrow> Inl Undef | Some n \<Rightarrow> Inr (h(a \<mapsto> n\<lparr>p_prev := p\<rparr>)))"

definition hash_free_entry :: "('k, 'v) hash \<Rightarrow> 'k \<Rightarrow> ('k, 'v) hash result" where
  "hash_free_entry p_hash key =
     andthen (hash_get_node_by_key p_hash key) (\<lambda>p.
     case p of
       None \<Rightarrow> bug ''hash node not found''
     | Some a \<Rightarrow> (case heap p_hash a of
         None \<Rightarrow> Inl Undef
       | Some n \<Rightarrow>
           andthen (case p_prev n of
                      Some q \<Rightarrow> andthen (set_next (heap p_hash) q (p_next n)) (\<lambda>h. Inr (p_hash\<lparr>heap := h\<rparr>))
                    | None \<Rightarrow> andthen (hash_get_bucket p_hash key) (\<lambda>b.
                        Inr (p_hash\<lparr>p_nodes := (p_nodes p_hash)[b := p_next n]\<rparr>))) (\<lambda>H1.
           andthen (case p_next n of
                      Some r \<Rightarrow> andthen (set_prev (heap H1) r (p_prev n)) (\<lambda>h. Inr (H1\<lparr>heap := h\<rparr>))
                    | None \<Rightarrow> Inr H1) (\<lambda>H2.
           Inr (H2\<lparr>heap := (heap H2)(a := None)\<rparr>)))))"

text \<open>The assignment \<open>*p = val\<close> through the pointer that \<open>hash_lookup_entry\<close> returned.\<close>

definition hash_write_value :: "('k, 'v) hash \<Rightarrow> 'k \<Rightarrow> 'v \<Rightarrow> ('k, 'v) hash result" where
  "hash_write_value p_hash key val =
     andthen (hash_get_node_by_key p_hash key) (\<lambda>p.
     case p of
       None \<Rightarrow> Inl Undef
     | Some a \<Rightarrow> (case heap p_hash a of
         None \<Rightarrow> Inl Undef
       | Some n \<Rightarrow> Inr (p_hash\<lparr>heap := (heap p_hash)(a \<mapsto> n\<lparr>p_value := val\<rparr>)\<rparr>)))"

section \<open>Linked segments\<close>

text \<open>
  \<open>seg h pr p ns e\<close>: from the pointer \<open>p\<close>, the nodes at \<open>ns\<close> follow one another, the first one's
  \<open>p_prev\<close> is \<open>pr\<close>, each other's the node before, and the last \<open>p_next\<close> is \<open>e\<close>.
\<close>

primrec seg :: "('k, 'v) node_heap \<Rightarrow> nat option \<Rightarrow> nat option \<Rightarrow> nat list \<Rightarrow> nat option \<Rightarrow> bool" where
  "seg h pr p [] e = (p = e)"
| "seg h pr p (a # ns) e = (p = Some a \<and> (\<exists>n. h a = Some n \<and> p_prev n = pr \<and> seg h (Some a) (p_next n) ns e))"

lemma seg_frame:
  "(\<And>a. a \<in> set ns \<Longrightarrow> h a = h' a) \<Longrightarrow> seg h pr p ns e = seg h' pr p ns e"
  by (induction ns arbitrary: pr p) auto

lemma seg_upd [simp]: "a \<notin> set ns \<Longrightarrow> seg (h(a := v)) pr p ns e = seg h pr p ns e"
  by (rule seg_frame) auto

lemma seg_append:
  "seg h pr p (xs @ ys) e \<longleftrightarrow>
     (\<exists>m. seg h pr p xs m \<and> seg h (if xs = [] then pr else Some (last xs)) m ys e)"
  by (induction xs arbitrary: pr p) auto

lemma seg_set_next:
  assumes "seg h pr p (xs @ [q]) e" and "q \<notin> set xs" and "h q = Some n"
  shows "seg (h(q \<mapsto> n\<lparr>p_next := e'\<rparr>)) pr p (xs @ [q]) e'"
  using assms by (auto simp: seg_append)

lemma seg_set_prev:
  assumes "seg h pr (Some r) (r # ys) e" and "r \<notin> set ys" and "h r = Some n"
  shows "seg (h(r \<mapsto> n\<lparr>p_prev := pr'\<rparr>)) pr' (Some r) (r # ys) e"
  using assms by auto

lemma seg_heap: "seg h pr p ns e \<Longrightarrow> a \<in> set ns \<Longrightarrow> \<exists>n. h a = Some n"
  by (induction ns arbitrary: pr p) auto

text \<open>The key and value stored at an address, and the association list of a run of nodes.\<close>

abbreviation key_at :: "('k, 'v) node_heap \<Rightarrow> nat \<Rightarrow> 'k" where
  "key_at h a \<equiv> p_key (the (h a))"

definition entries :: "('k, 'v) node_heap \<Rightarrow> nat list \<Rightarrow> ('k \<times> 'v) list" where
  "entries h ns = map (\<lambda>a. (p_key (the (h a)), p_value (the (h a)))) ns"

lemma entries_cong:
  "(\<And>a. a \<in> set ns \<Longrightarrow> p_key (the (h a)) = p_key (the (h' a)) \<and> p_value (the (h a)) = p_value (the (h' a))) \<Longrightarrow>
   entries h ns = entries h' ns"
  by (simp add: entries_def)

lemma entries_simps [simp]:
  "entries h [] = []" "entries h (a # ns) = (key_at h a, p_value (the (h a))) # entries h ns"
  "entries h (xs @ ys) = entries h xs @ entries h ys"
  by (simp_all add: entries_def)

lemma dom_entries: "map_of (entries h ns) k = None \<longleftrightarrow> k \<notin> key_at h ` set ns"
  by (auto simp: map_of_eq_None_iff entries_def image_image)

lemma find_node_eq:
  assumes "seg h pr p ns None" and "length ns \<le> fuel"
  shows "find_node fuel h p key = Inr (find (\<lambda>a. key_at h a = key) ns)"
  using assms
proof (induction ns arbitrary: pr p fuel)
  case Nil
  then show ?case by simp
next
  case (Cons a ns)
  obtain f where f: "fuel = Suc f" "length ns \<le> f" using Cons.prems by (cases fuel) auto
  from Cons.prems obtain n where n: "p = Some a" "h a = Some n" "seg h (Some a) (p_next n) ns None" by auto
  with Cons.IH [OF n(3) f(2)] f(1) show ?case by simp
qed

section \<open>The table\<close>

text \<open>\<open>nss\<close> lists the addresses of the nodes of each bucket.\<close>

definition hash_ok :: "('k, 'v) hash \<Rightarrow> nat list list \<Rightarrow> bool" where
  "hash_ok H nss \<longleftrightarrow>
     length nss = buckets H \<and> length (p_nodes H) = buckets H \<and>
     (\<forall>k. hash_func H (buckets H) k < buckets H) \<and>
     (\<forall>i < buckets H. seg (heap H) None (p_nodes H ! i) (nss ! i) None \<and>
        distinct (map (key_at (heap H)) (nss ! i)) \<and>
        (\<forall>a \<in> set (nss ! i). a < next_addr H \<and> hash_func H (buckets H) (key_at (heap H) a) = i))"

abbreviation bucket_of :: "('k, 'v) hash \<Rightarrow> 'k \<Rightarrow> nat" where
  "bucket_of H k \<equiv> hash_func H (buckets H) k"

lemma find_node_enough:
  assumes "hash_ok H nss" and "i < buckets H"
  shows "length (nss ! i) \<le> next_addr H"
proof -
  have "distinct (nss ! i)" using assms by (auto simp: hash_ok_def distinct_map)
  then have "length (nss ! i) = card (set (nss ! i))" by (simp add: distinct_card)
  also have "\<dots> \<le> card {..<next_addr H}" using assms by (intro card_mono) (auto simp: hash_ok_def)
  finally show ?thesis by simp
qed

lemma get_node_eq:
  assumes "hash_ok H nss"
  shows "hash_get_node_by_key H k = Inr (find (\<lambda>a. key_at (heap H) a = k) (nss ! bucket_of H k))"
proof -
  have b: "bucket_of H k < buckets H" using assms by (simp add: hash_ok_def)
  have "seg (heap H) None (p_nodes H ! bucket_of H k) (nss ! bucket_of H k) None"
    using assms b by (simp add: hash_ok_def)
  from find_node_eq [OF this find_node_enough [OF assms b], of k] b show ?thesis
    by (simp add: hash_get_node_by_key_def hash_get_bucket_def Let_def)
qed

lemma find_key:
  "find (\<lambda>a. key_at h a = k) ns = None \<longleftrightarrow> map_of (entries h ns) k = None"
  "find (\<lambda>a. key_at h a = k) ns = Some a \<Longrightarrow> a \<in> set ns \<and> key_at h a = k \<and> map_of (entries h ns) k = Some (p_value (the (h a)))"
  by (induction ns) (auto split: if_splits)

lemma lookup_eq:
  assumes "hash_ok H nss"
  shows "hash_lookup_entry H k = Inr (map_of (entries (heap H) (nss ! bucket_of H k)) k)"
proof (cases "find (\<lambda>a. key_at (heap H) a = k) (nss ! bucket_of H k)")
  case None
  with find_key(1) [of "heap H" k "nss ! bucket_of H k"] show ?thesis
    by (simp add: hash_lookup_entry_def get_node_eq [OF assms])
next
  case (Some a)
  have b: "bucket_of H k < buckets H" using assms by (simp add: hash_ok_def)
  have "seg (heap H) None (p_nodes H ! bucket_of H k) (nss ! bucket_of H k) None"
    using assms b by (simp add: hash_ok_def)
  with find_key(2) [OF Some] Some show ?thesis
    by (auto simp: hash_lookup_entry_def get_node_eq [OF assms] dest!: seg_heap)
qed

definition hash_inv :: "('k, 'v) hash \<Rightarrow> bool" where
  "hash_inv H \<longleftrightarrow> (\<exists>nss. hash_ok H nss)"

definition hash_abs :: "('k, 'v) hash \<Rightarrow> 'k \<Rightarrow> 'v option" where
  "hash_abs H k = (case hash_lookup_entry H k of Inl h \<Rightarrow> None | Inr v \<Rightarrow> v)"

lemma hash_abs_eq:
  "hash_ok H nss \<Longrightarrow> hash_abs H k = map_of (entries (heap H) (nss ! bucket_of H k)) k"
  by (simp add: hash_abs_def lookup_eq)

section \<open>One bucket changes\<close>

lemma hash_ok_update:
  assumes ok: "hash_ok H nss" and i: "i < buckets H"
    and H': "H' = H\<lparr>heap := h', p_nodes := (p_nodes H)[i := p], next_addr := m\<rparr>" and m: "next_addr H \<le> m"
    and frame: "\<And>a. a \<notin> set (nss ! i) \<Longrightarrow> a < next_addr H \<Longrightarrow> h' a = heap H a"
    and sg: "seg h' None p ns None" and dist: "distinct (map (key_at h') ns)"
    and own: "\<forall>a\<in>set ns. a < m \<and> bucket_of H (key_at h' a) = i"
  shows "hash_ok H' (nss[i := ns])"
    and "hash_abs H' k = (if bucket_of H k = i then map_of (entries h' ns) k else hash_abs H k)"
proof -
  have same: "h' a = heap H a" if "a \<in> set (nss ! j)" "j < buckets H" "j \<noteq> i" for a j
  proof (intro frame)
    have "a < next_addr H" "bucket_of H (key_at (heap H) a) = j"
      and other: "\<And>x. x \<in> set (nss ! i) \<Longrightarrow> bucket_of H (key_at (heap H) x) = i"
      using that ok i by (simp_all add: hash_ok_def)
    then show "a \<notin> set (nss ! i)" "a < next_addr H" using that(3) by blast+
  qed
  have keep: "seg h' None (p_nodes H ! j) (nss ! j) None" "map (key_at h') (nss ! j) = map (key_at (heap H)) (nss ! j)"
    "entries h' (nss ! j) = entries (heap H) (nss ! j)" if "j < buckets H" "j \<noteq> i" for j
    using that ok same [OF _ that] seg_frame [of "nss ! j" h' "heap H"] by (auto simp: hash_ok_def entries_def)
  show ok': "hash_ok H' (nss[i := ns])"
    unfolding hash_ok_def
  proof (intro conjI allI impI)
    fix j assume "j < buckets H'"
    then have j: "j < buckets H" by (simp add: H')
    have len: "length nss = buckets H" "length (p_nodes H) = buckets H" using ok by (simp_all add: hash_ok_def)
    show "seg (heap H') None (p_nodes H' ! j) (nss[i := ns] ! j) None"
      using sg keep(1) [OF j] j len by (cases "j = i") (simp_all add: H')
    show "distinct (map (key_at (heap H')) (nss[i := ns] ! j))"
    proof (cases "j = i")
      case True
      with dist len j show ?thesis by (simp add: H')
    next
      case False
      have "distinct (map (key_at h') (nss ! j))"
        unfolding keep(2) [OF j False] using ok j by (simp add: hash_ok_def)
      with False show ?thesis by (simp add: H')
    qed
    show "\<forall>a\<in>set (nss[i := ns] ! j). a < next_addr H' \<and> hash_func H' (buckets H') (key_at (heap H') a) = j"
    proof (cases "j = i")
      case True
      with own len j show ?thesis by (simp add: H')
    next
      case False
      with ok j len same [OF _ j False] m show ?thesis by (force simp: H' hash_ok_def)
    qed
  qed (use ok in \<open>simp_all add: H' hash_ok_def\<close>)
  have len: "length nss = buckets H" and b: "bucket_of H k < buckets H" using ok by (simp_all add: hash_ok_def)
  show "hash_abs H' k = (if bucket_of H k = i then map_of (entries h' ns) k else hash_abs H k)"
    unfolding hash_abs_eq [OF ok'] hash_abs_eq [OF ok] using keep(3) [OF b] len i by (simp add: H')
qed

lemma bucket_facts:
  assumes "hash_ok H nss"
  shows "bucket_of H k < buckets H"
    and "seg (heap H) None (p_nodes H ! bucket_of H k) (nss ! bucket_of H k) None"
    and "distinct (map (key_at (heap H)) (nss ! bucket_of H k))" and "distinct (nss ! bucket_of H k)"
    and "\<And>a. a \<in> set (nss ! bucket_of H k) \<Longrightarrow> a < next_addr H \<and> bucket_of H (key_at (heap H) a) = bucket_of H k"
  using assms by (auto simp: hash_ok_def distinct_map)

lemma map_of_delete:
  assumes "distinct (map fst (xs @ (k, v) # ys))"
  shows "map_of (xs @ ys) = (map_of (xs @ (k, v) # ys))(k := None)"
proof
  fix j
  have "map_of xs k = None" "map_of ys k = None" using assms by (auto simp: map_of_eq_None_iff)
  then show "map_of (xs @ ys) j = ((map_of (xs @ (k, v) # ys))(k := None)) j"
    by (cases "j = k") (auto simp: map_of_append map_add_def split: option.splits)
qed

lemma map_fst_entries: "map fst (entries h ns) = map (key_at h) ns"
  by (simp add: entries_def)

lemma hash_add_ok:
  assumes ok: "hash_ok H nss" and fresh: "hash_abs H k = None"
  shows "\<exists>H' nss'. hash_add_entry H k v = Inr H' \<and> hash_ok H' nss' \<and> hash_abs H' = (hash_abs H)(k \<mapsto> v)"
proof -
  let ?b = "bucket_of H k" and ?a = "next_addr H" and ?h = "heap H"
  let ?ns = "nss ! ?b"
  note bf = bucket_facts [OF ok, where k = k]
  have look: "hash_lookup_entry H k = Inr None" "hash_get_bucket H k = Inr ?b"
    using fresh lookup_eq [OF ok, of k] hash_abs_eq [OF ok, of k] bf(1)
    by (simp_all add: hash_get_bucket_def)
  have new: "?a \<notin> set ?ns" using bf(5) by blast
  have nokey: "k \<notin> key_at ?h ` set ?ns"
    using fresh hash_abs_eq [OF ok, of k] dom_entries [of ?h ?ns k] by simp
  define h' where "h' = (case ?ns of [] \<Rightarrow> ?h(?a \<mapsto> \<lparr>p_key = k, p_value = v, p_prev = None, p_next = None\<rparr>)
     | o1 # _ \<Rightarrow> ?h(?a \<mapsto> \<lparr>p_key = k, p_value = v, p_prev = None, p_next = Some o1\<rparr>,
                      o1 \<mapsto> (the (?h o1))\<lparr>p_prev := Some ?a\<rparr>))"
  have add: "hash_add_entry H k v = Inr (H\<lparr>heap := h', p_nodes := (p_nodes H)[?b := Some ?a], next_addr := Suc ?a\<rparr>)"
    using bf(2) new by (cases ?ns) (auto simp: hash_add_entry_def look h'_def Let_def)
  have data: "key_at h' a = key_at ?h a \<and> p_value (the (h' a)) = p_value (the (?h a))" if "a \<in> set ?ns" for a
    using that new bf(2) by (cases ?ns) (auto simp: h'_def)
  have at: "key_at h' ?a = k" "p_value (the (h' ?a)) = v" using new by (cases ?ns; auto simp: h'_def)+
  have sg: "seg h' None (Some ?a) (?a # ?ns) None"
    using bf(2,4) new by (cases ?ns) (auto simp: h'_def)
  have dist: "distinct (map (key_at h') (?a # ?ns))"
    using bf(3) nokey data at(1) by (simp add: distinct_map) (metis (no_types, lifting) image_cong inj_on_cong)
  have own: "\<forall>a\<in>set (?a # ?ns). a < Suc ?a \<and> bucket_of H (key_at h' a) = ?b"
    using bf(5) data at(1) by (auto intro: less_SucI)
  have frame: "h' a = ?h a" if "a \<notin> set ?ns" "a < ?a" for a
    using that by (cases ?ns) (auto simp: h'_def)
  have ent: "entries h' (?a # ?ns) = (k, v) # entries ?h ?ns"
    using entries_cong [of ?ns h' ?h] data at by simp
  note upd = hash_ok_update [OF ok bf(1) refl le_SucI [OF order_refl] frame sg dist own]
  have "hash_abs (H\<lparr>heap := h', p_nodes := (p_nodes H)[?b := Some ?a], next_addr := Suc ?a\<rparr>) j = ((hash_abs H)(k \<mapsto> v)) j" for j
    using upd(2) [of j] unfolding ent by (auto simp: hash_abs_eq [OF ok])
  then show ?thesis using add upd(1) by blast
qed

lemma hash_write_ok:
  assumes ok: "hash_ok H nss" and present: "hash_abs H k \<noteq> None"
  shows "\<exists>H' nss'. hash_write_value H k v = Inr H' \<and> hash_ok H' nss' \<and> hash_abs H' = (hash_abs H)(k \<mapsto> v)"
proof -
  let ?b = "bucket_of H k" and ?h = "heap H"
  let ?ns = "nss ! ?b"
  note bf = bucket_facts [OF ok, where k = k]
  obtain a where a: "find (\<lambda>a. key_at ?h a = k) ?ns = Some a"
    using present find_key(1) [of ?h k ?ns] by (auto simp: hash_abs_eq [OF ok])
  note fk = find_key(2) [OF a]
  then obtain xs ys where ns: "?ns = xs @ a # ys" by (auto dest: split_list)
  obtain n where n: "?h a = Some n" using seg_heap [OF bf(2)] fk by blast
  define h' where "h' = ?h(a \<mapsto> n\<lparr>p_value := v\<rparr>)"
  have w: "hash_write_value H k v = Inr (H\<lparr>heap := h', p_nodes := (p_nodes H)[?b := p_nodes H ! ?b], next_addr := next_addr H\<rparr>)"
    by (simp add: hash_write_value_def get_node_eq [OF ok] a n h'_def)
  have notin: "a \<notin> set xs" "a \<notin> set ys" using bf(4) ns by auto
  have sg: "seg h' None (p_nodes H ! ?b) ?ns None"
    using bf(2) notin n unfolding ns by (auto simp: seg_append h'_def)
  have keys: "key_at h' x = key_at ?h x" for x using n by (simp add: h'_def)
  have dist: "distinct (map (key_at h') ?ns)" using bf(3) unfolding keys .
  have own: "\<forall>x\<in>set ?ns. x < next_addr H \<and> bucket_of H (key_at h' x) = ?b" using bf(5) unfolding keys by blast
  have frame: "h' x = ?h x" if "x \<notin> set ?ns" for x using that ns by (auto simp: h'_def)
  have key_a: "key_at ?h a = k" using fk by simp
  have "k \<notin> key_at ?h ` set xs" using bf(3) key_a unfolding ns by (auto simp: image_iff)
  then have "map_of (entries ?h xs) k = None" by (simp add: dom_entries)
  moreover have "entries h' xs = entries ?h xs" "entries h' ys = entries ?h ys"
    using notin by (auto simp: entries_def h'_def)
  ultimately have ent: "map_of (entries h' ?ns) j = (if j = k then Some v else map_of (entries ?h ?ns) j)" for j
    using n key_a unfolding ns by (auto simp: map_of_append map_add_def h'_def split: option.splits)
  note upd = hash_ok_update [OF ok bf(1) refl order_refl frame sg dist own]
  have "hash_abs (H\<lparr>heap := h', p_nodes := (p_nodes H)[?b := p_nodes H ! ?b], next_addr := next_addr H\<rparr>) j
      = ((hash_abs H)(k \<mapsto> v)) j" for j
    using upd(2) [of j] unfolding ent by (auto simp: hash_abs_eq [OF ok])
  then show ?thesis using w upd(1) by blast
qed

lemma unlink_seg:
  assumes sg: "seg h None p (xs @ a # ys) None" and dist: "distinct (xs @ a # ys)" and n: "h a = Some n"
  shows "p_prev n = (if xs = [] then None else Some (last xs))" and "p_next n = (if ys = [] then None else Some (hd ys))"
proof -
  from sg obtain m where "seg h (if xs = [] then None else Some (last xs)) m (a # ys) None"
    by (auto simp: seg_append)
  with n show "p_prev n = (if xs = [] then None else Some (last xs))"
    "p_next n = (if ys = [] then None else Some (hd ys))"
    by (auto, cases ys, auto)
qed

text \<open>Taking a node out of a chain: the heap and the head of the chain afterwards.\<close>

definition unlinked :: "('k, 'v) node_heap \<Rightarrow> nat list \<Rightarrow> nat \<Rightarrow> nat list \<Rightarrow> ('k, 'v) node_heap" where
  "unlinked h xs a ys =
     (let h1 = (if xs = [] then h else h(last xs \<mapsto> (the (h (last xs)))\<lparr>p_next := (if ys = [] then None else Some (hd ys))\<rparr>));
          h2 = (if ys = [] then h1 else h1(hd ys \<mapsto> (the (h1 (hd ys)))\<lparr>p_prev := (if xs = [] then None else Some (last xs))\<rparr>))
      in h2(a := None))"

lemma unlinked_seg:
  assumes sg: "seg h None p (xs @ a # ys) None" and dist: "distinct (xs @ a # ys)"
  shows "seg (unlinked h xs a ys) None (if xs = [] then (if ys = [] then None else Some (hd ys)) else p) (xs @ ys) None"
proof -
  let ?pr = "if xs = [] then None else Some (last xs)" and ?nx = "if ys = [] then None else Some (hd ys)"
  from sg obtain n where n: "seg h None p xs (Some a)" "h a = Some n" "seg h (Some a) (p_next n) ys None"
    by (auto simp: seg_append)
  define h1 where "h1 = (if xs = [] then h else h(last xs \<mapsto> (the (h (last xs)))\<lparr>p_next := ?nx\<rparr>))"
  define h2 where "h2 = (if ys = [] then h1 else h1(hd ys \<mapsto> (the (h1 (hd ys)))\<lparr>p_prev := ?pr\<rparr>))"
  have un: "unlinked h xs a ys = h2(a := None)" by (simp add: unlinked_def h1_def h2_def Let_def)
  have left: "seg h1 None (if xs = [] then ?nx else p) xs ?nx"
  proof (cases xs rule: rev_cases)
    case Nil
    then show ?thesis by simp
  next
    case (snoc zs q)
    then obtain qn where "h q = Some qn" using seg_heap [OF n(1)] by force
    with snoc n(1) dist seg_set_next [of h None p zs q "Some a" qn ?nx] show ?thesis by (simp add: h1_def)
  qed
  have mid: "seg h1 (Some a) (p_next n) ys None"
  proof -
    have "xs \<noteq> [] \<Longrightarrow> last xs \<notin> set ys" using dist by (cases xs rule: rev_cases) auto
    with n(3) show ?thesis by (simp add: h1_def)
  qed
  have right: "seg h2 ?pr ?nx ys None"
  proof (cases ys)
    case Nil
    then show ?thesis by simp
  next
    case (Cons r zs)
    with mid obtain rn where "h1 r = Some rn" "p_next n = Some r" by auto
    with Cons mid dist seg_set_prev [of h1 "Some a" r zs None rn ?pr] show ?thesis by (simp add: h2_def)
  qed
  have "seg h2 None (if xs = [] then ?nx else p) xs ?nx"
    using left dist by (cases ys) (auto simp: h2_def)
  with right show ?thesis unfolding un using dist
    by (auto simp: seg_append)
qed

lemma unlinked_data:
  assumes "seg h None p (xs @ a # ys) None" and "distinct (xs @ a # ys)" and "x \<in> set (xs @ ys)"
  shows "key_at (unlinked h xs a ys) x = key_at h x \<and> p_value (the (unlinked h xs a ys x)) = p_value (the (h x))"
proof -
  have "last xs \<noteq> hd ys" if "xs \<noteq> []" "ys \<noteq> []" using that assms(2) by (cases ys) auto
  moreover have "x \<noteq> a" using assms(2,3) by auto
  ultimately show ?thesis by (auto simp: unlinked_def Let_def)
qed

lemma hash_free_ok:
  assumes ok: "hash_ok H nss" and present: "hash_abs H k \<noteq> None"
  shows "\<exists>H' nss'. hash_free_entry H k = Inr H' \<and> hash_ok H' nss' \<and> hash_abs H' = (hash_abs H)(k := None)"
proof -
  let ?b = "bucket_of H k" and ?h = "heap H"
  let ?ns = "nss ! ?b"
  note bf = bucket_facts [OF ok, where k = k]
  obtain a where a: "find (\<lambda>a. key_at ?h a = k) ?ns = Some a"
    using present find_key(1) [of ?h k ?ns] by (auto simp: hash_abs_eq [OF ok])
  note fk = find_key(2) [OF a]
  then obtain xs ys where ns: "?ns = xs @ a # ys" by (auto dest: split_list)
  obtain n where n: "?h a = Some n" using seg_heap [OF bf(2)] fk by blast
  note sg = bf(2) [unfolded ns] and dist = bf(4) [unfolded ns]
  note links = unlink_seg [OF sg dist n]
  define h' where "h' = unlinked ?h xs a ys"
  define p where "p = (if xs = [] then (if ys = [] then None else Some (hd ys)) else p_nodes H ! ?b)"
  have heap_at: "\<exists>m. ?h x = Some m" if "x \<in> set (xs @ ys)" for x using that seg_heap [OF sg] by auto
  have free: "hash_free_entry H k = Inr (H\<lparr>heap := h', p_nodes := (p_nodes H)[?b := p], next_addr := next_addr H\<rparr>)"
  proof -
    have bkt: "hash_get_bucket H k = Inr ?b" using bf(1) by (simp add: hash_get_bucket_def)
    have nexts: "ys \<noteq> [] \<Longrightarrow> hd ys \<in> set (xs @ ys)" "xs \<noteq> [] \<Longrightarrow> last xs \<in> set (xs @ ys)" by simp_all
    have ne: "xs \<noteq> [] \<Longrightarrow> ys \<noteq> [] \<Longrightarrow> last xs \<noteq> hd ys" using dist by (cases ys) auto
    show ?thesis
      using heap_at [OF nexts(1)] heap_at [OF nexts(2)] ne
      by (cases "xs = []"; cases "ys = []")
        (auto simp: hash_free_entry_def get_node_eq [OF ok] a n links bkt set_next_def set_prev_def
          h'_def p_def unlinked_def Let_def)
  qed
  have data: "key_at h' x = key_at ?h x \<and> p_value (the (h' x)) = p_value (the (?h x))" if "x \<in> set (xs @ ys)" for x
    unfolding h'_def using unlinked_data [OF sg dist that] .
  have sg': "seg h' None p (xs @ ys) None" unfolding h'_def p_def using unlinked_seg [OF sg dist] .
  have keys: "map (key_at h') (xs @ ys) = map (key_at ?h) (xs @ ys)" using data by simp
  have dist': "distinct (map (key_at h') (xs @ ys))" unfolding keys using bf(3) ns by simp
  have own: "\<forall>x\<in>set (xs @ ys). x < next_addr H \<and> bucket_of H (key_at h' x) = ?b" using bf(5) ns data by simp
  have frame: "h' x = ?h x" if "x \<notin> set ?ns" for x
  proof -
    have "x \<noteq> a" "xs \<noteq> [] \<Longrightarrow> x \<noteq> last xs" "ys \<noteq> [] \<Longrightarrow> x \<noteq> hd ys" using that ns by auto
    then show ?thesis by (auto simp: h'_def unlinked_def Let_def)
  qed
  have key_a: "key_at ?h a = k" using fk by simp
  have "entries h' (xs @ ys) = entries ?h (xs @ ys)" using data by (intro entries_cong) auto
  moreover have "distinct (map fst (entries ?h xs @ (k, p_value (the (?h a))) # entries ?h ys))"
    using bf(3) key_a unfolding ns by (simp add: map_fst_entries [symmetric] entries_def image_image)
  from map_of_delete [OF this] have "map_of (entries ?h (xs @ ys)) = (map_of (entries ?h ?ns))(k := None)"
    unfolding ns using key_a by simp
  ultimately have ent: "map_of (entries h' (xs @ ys)) = (map_of (entries ?h ?ns))(k := None)" by simp
  note upd = hash_ok_update [OF ok bf(1) refl order_refl frame sg' dist' own]
  have "hash_abs (H\<lparr>heap := h', p_nodes := (p_nodes H)[?b := p], next_addr := next_addr H\<rparr>) j
      = ((hash_abs H)(k := None)) j" for j
    using upd(2) [of j] unfolding ent by (auto simp: hash_abs_eq [OF ok])
  then show ?thesis using free upd(1) by blast
qed

section \<open>The contract\<close>

text \<open>
  What a client of a table relies on: the operations work on the map \<open>abs H\<close>, keep the invariant, and
  stop at their explicit check exactly when a key is added twice or freed without being there.
\<close>

locale map_table =
  fixes inv :: "'h \<Rightarrow> bool" and abs :: "'h \<Rightarrow> 'k \<Rightarrow> 'v option"
    and lookup :: "'h \<Rightarrow> 'k \<Rightarrow> 'v option result"
    and add :: "'h \<Rightarrow> 'k \<Rightarrow> 'v \<Rightarrow> 'h result" and free :: "'h \<Rightarrow> 'k \<Rightarrow> 'h result"
    and wrt :: "'h \<Rightarrow> 'k \<Rightarrow> 'v \<Rightarrow> 'h result"
  assumes lookup_law: "inv H \<Longrightarrow> lookup H k = Inr (abs H k)"
    and add_law: "inv H \<Longrightarrow> abs H k = None \<Longrightarrow>
      \<exists>H'. add H k v = Inr H' \<and> inv H' \<and> abs H' = (abs H)(k \<mapsto> v)"
    and add_dup: "inv H \<Longrightarrow> abs H k \<noteq> None \<Longrightarrow> add H k v = Inl (Bug ''duplicate hash key'')"
    and free_law: "inv H \<Longrightarrow> abs H k \<noteq> None \<Longrightarrow>
      \<exists>H'. free H k = Inr H' \<and> inv H' \<and> abs H' = (abs H)(k := None)"
    and free_missing: "inv H \<Longrightarrow> abs H k = None \<Longrightarrow> free H k = Inl (Bug ''hash node not found'')"
    and write_law: "inv H \<Longrightarrow> abs H k \<noteq> None \<Longrightarrow>
      \<exists>H'. wrt H k v = Inr H' \<and> inv H' \<and> abs H' = (abs H)(k \<mapsto> v)"
begin

lemma add_cases:
  assumes "inv H" and "add H k v = Inr H'"
  shows "inv H'" and "abs H' = (abs H)(k \<mapsto> v)" and "abs H k = None"
  using assms add_law [OF assms(1), of k v] add_dup [OF assms(1), of k v] by (cases "abs H k"; auto)+

lemma free_cases:
  assumes "inv H" and "free H k = Inr H'"
  shows "inv H'" and "abs H' = (abs H)(k := None)" and "abs H k \<noteq> None"
  using assms free_law [OF assms(1), of k] free_missing [OF assms(1), of k] by (cases "abs H k"; auto)+

lemma write_cases:
  assumes "inv H" and "abs H k \<noteq> None" and "wrt H k v = Inr H'"
  shows "inv H'" and "abs H' = (abs H)(k \<mapsto> v)"
  using assms(3) write_law [OF assms(1,2), of v] by auto

text \<open>A key that was added and freed again leaves the map as it was.\<close>

lemma add_free:
  assumes "inv H" and "abs H k = None"
  shows "\<exists>H1 H2. add H k v = Inr H1 \<and> free H1 k = Inr H2 \<and> inv H2 \<and> abs H2 = abs H"
proof -
  obtain H1 where H1: "add H k v = Inr H1" "inv H1" "abs H1 = (abs H)(k \<mapsto> v)"
    using add_law [OF assms] by blast
  then obtain H2 where "free H1 k = Inr H2" "inv H2" "abs H2 = (abs H1)(k := None)"
    using free_law [OF H1(2), of k] by auto
  with H1 assms(2) show ?thesis by (metis fun_upd_idem fun_upd_upd)
qed

end

lemma hash_missing:
  assumes "hash_ok H nss" and "hash_abs H k = None"
  shows "hash_free_entry H k = Inl (Bug ''hash node not found'')"
  using assms find_key(1) [of "heap H" k "nss ! bucket_of H k"]
  by (simp add: hash_free_entry_def get_node_eq hash_abs_eq halt_simps)

interpretation ht: map_table hash_inv hash_abs hash_lookup_entry hash_add_entry hash_free_entry hash_write_value
proof
  fix H :: "('a, 'b) hash" and k v assume "hash_inv H"
  then obtain nss where ok: "hash_ok H nss" by (auto simp: hash_inv_def)
  show "hash_lookup_entry H k = Inr (hash_abs H k)" by (simp add: hash_abs_def lookup_eq [OF ok])
  show "\<exists>H'. hash_add_entry H k v = Inr H' \<and> hash_inv H' \<and> hash_abs H' = (hash_abs H)(k \<mapsto> v)"
    if "hash_abs H k = None" using hash_add_ok [OF ok that] unfolding hash_inv_def by blast
  show "hash_add_entry H k v = Inl (Bug ''duplicate hash key'')" if "hash_abs H k \<noteq> None"
    using that by (auto simp: hash_add_entry_def lookup_eq [OF ok] hash_abs_eq [OF ok] halt_simps)
  show "\<exists>H'. hash_free_entry H k = Inr H' \<and> hash_inv H' \<and> hash_abs H' = (hash_abs H)(k := None)"
    if "hash_abs H k \<noteq> None" using hash_free_ok [OF ok that] unfolding hash_inv_def by blast
  show "hash_free_entry H k = Inl (Bug ''hash node not found'')" if "hash_abs H k = None"
    using hash_missing [OF ok that] .
  show "\<exists>H'. hash_write_value H k v = Inr H' \<and> hash_inv H' \<and> hash_abs H' = (hash_abs H)(k \<mapsto> v)"
    if "hash_abs H k \<noteq> None" using hash_write_ok [OF ok that] unfolding hash_inv_def by blast
qed

lemma hash_alloc_inv:
  assumes "\<And>k. f n k < n"
  shows "hash_inv (hash_alloc n f)" and "hash_abs (hash_alloc n f) = Map.empty"
proof -
  have ok: "hash_ok (hash_alloc n f) (replicate n [])" using assms by (simp add: hash_ok_def hash_alloc_def)
  then show "hash_inv (hash_alloc n f)" by (auto simp: hash_inv_def)
  show "hash_abs (hash_alloc n f) = Map.empty"
    using assms by (intro ext) (simp add: hash_abs_eq [OF ok], simp add: hash_alloc_def)
qed

section \<open>Sequences of operations\<close>

text \<open>What a client does to a table, run on the code and on a plain map that stops where the code's checks stop.\<close>

datatype ('k, 'v) table_op = Add_Entry 'k 'v | Free_Entry 'k | Overwrite 'k 'v

fun hash_step :: "('k, 'v) table_op \<Rightarrow> ('k, 'v) hash \<Rightarrow> ('k, 'v) hash result" where
  "hash_step (Add_Entry k v) H = hash_add_entry H k v"
| "hash_step (Free_Entry k) H = hash_free_entry H k"
| "hash_step (Overwrite k v) H = hash_write_value H k v"

fun map_step :: "('k, 'v) table_op \<Rightarrow> ('k \<rightharpoonup> 'v) \<Rightarrow> ('k \<rightharpoonup> 'v) result" where
  "map_step (Add_Entry k v) m = (if m k = None then Inr (m(k \<mapsto> v)) else bug ''duplicate hash key'')"
| "map_step (Free_Entry k) m = (if m k = None then bug ''hash node not found'' else Inr (m(k := None)))"
| "map_step (Overwrite k v) m = (if m k = None then Inl Undef else Inr (m(k \<mapsto> v)))"

fun run_ops :: "('o \<Rightarrow> 's \<Rightarrow> 's result) \<Rightarrow> 'o list \<Rightarrow> 's \<Rightarrow> 's result" where
  "run_ops step [] s = Inr s"
| "run_ops step (x # xs) s = andthen (step x s) (run_ops step xs)"

lemma write_missing: "hash_inv H \<Longrightarrow> hash_abs H k = None \<Longrightarrow> hash_write_value H k v = Inl Undef"
proof -
  assume "hash_inv H" and none: "hash_abs H k = None"
  then obtain nss where ok: "hash_ok H nss" by (auto simp: hash_inv_def)
  from none find_key(1) [of "heap H" k "nss ! bucket_of H k"] show ?thesis
    by (simp add: hash_write_value_def get_node_eq [OF ok] hash_abs_eq [OF ok])
qed

lemma hash_step_simulates:
  assumes "hash_inv H"
  shows "case map_step x (hash_abs H) of
      Inl h \<Rightarrow> hash_step x H = Inl h
    | Inr m \<Rightarrow> (\<exists>H'. hash_step x H = Inr H' \<and> hash_inv H' \<and> hash_abs H' = m)"
proof (cases x)
  case (Add_Entry k v)
  then show ?thesis using ht.add_law [OF assms, of k v] ht.add_dup [OF assms, of k v] by (simp add: halt_simps)
next
  case (Free_Entry k)
  then show ?thesis using ht.free_law [OF assms, of k] ht.free_missing [OF assms, of k] by (simp add: halt_simps)
next
  case (Overwrite k v)
  then show ?thesis using ht.write_law [OF assms, of k v] write_missing [OF assms, of k v] by simp
qed

lemma hash_run_simulates:
  "hash_inv H \<Longrightarrow> case run_ops map_step xs (hash_abs H) of
      Inl h \<Rightarrow> run_ops hash_step xs H = Inl h
    | Inr m \<Rightarrow> (\<exists>H'. run_ops hash_step xs H = Inr H' \<and> hash_inv H' \<and> hash_abs H' = m)"
proof (induction xs arbitrary: H)
  case Nil
  then show ?case by simp
next
  case (Cons x xs)
  show ?case
  proof (cases "map_step x (hash_abs H)")
    case (Inl h)
    then show ?thesis using hash_step_simulates [OF Cons.prems, of x] by simp
  next
    case (Inr m)
    then obtain H1 where "hash_step x H = Inr H1" "hash_inv H1" "hash_abs H1 = m"
      using hash_step_simulates [OF Cons.prems, of x] by auto
    with Cons.IH [of H1] Inr show ?thesis by (simp split: sum.splits)
  qed
qed

text \<open>
  C33: the doubly linked hash table implements a finite map. Take a new table whose hash function stays below the
  number of buckets and any sequence of adding, freeing and overwriting entries (the assignment through the pointer that
  a lookup returned), and run it on the table and on a plain map: the table stops exactly when the map does, for the
  same reason (a key added twice, a missing key freed, the null pointer of a missing key written to), and otherwise
  every operation returns and looking up any key in the table gives what the map holds.
\<close>

theorem hash_table_is_map:
  fixes xs :: "('k, 'v) table_op list"
  assumes "\<And>k. f n k < n"
  shows "case run_ops map_step xs Map.empty of
      Inl h \<Rightarrow> run_ops hash_step xs (hash_alloc n f) = Inl h
    | Inr m \<Rightarrow> (\<exists>H. run_ops hash_step xs (hash_alloc n f) = Inr H \<and> (\<forall>k. hash_lookup_entry H k = Inr (m k)))"
proof -
  have "hash_inv (hash_alloc n f :: ('k, 'v) hash)" "hash_abs (hash_alloc n f :: ('k, 'v) hash) = Map.empty"
    by (rule hash_alloc_inv, rule assms)+
  with hash_run_simulates [of "hash_alloc n f" xs] show ?thesis
    by (fastforce split: sum.splits simp: ht.lookup_law)
qed

lemma hash_table_is_map_witness:
  "\<exists>H. run_ops hash_step [Add_Entry 7 ''x'', Add_Entry 3 ''y'', Overwrite 7 ''z'', Free_Entry 3]
         (hash_alloc 4 (\<lambda>n k :: nat. k mod n)) = Inr H \<and>
     hash_lookup_entry H 7 = Inr (Some ''z'') \<and> hash_lookup_entry H 3 = Inr None"
  using hash_table_is_map [of "\<lambda>n k. k mod n" 4 "[Add_Entry 7 ''x'', Add_Entry 3 ''y'', Overwrite 7 ''z'', Free_Entry 3]"]
  by auto

end
