(* ===== verification/Sysutil.thy ===== *)
theory Sysutil
  imports Str
begin

text \<open>
  The parts of \<^verbatim>\<open>sysutil.c\<close> that compute: conversion between numbers and text, the looped read and
  write, file modes and their printed form, and the socket address with its accessors. The
  calls into the operating system are parameters of the definitions that use them.
\<close>

unbundle bit_operations_syntax

section \<open>Numbers as text\<close>

definition digit_char :: "nat \<Rightarrow> char" where
  "digit_char d = char_of (48 + d)"

text \<open>The digits that \<open>snprintf\<close> prints for \<open>%lu\<close> (base 10) and \<open>%o\<close> (base 8).\<close>

function num_str :: "nat \<Rightarrow> nat \<Rightarrow> string" where
  "num_str base n =
     (if n < base \<or> base < 2 then [digit_char n]
      else num_str base (n div base) @ [digit_char (n mod base)])"
  by pat_completeness auto
termination
  by (relation "measure snd") (auto intro: div_less_dividend)

declare num_str.simps [simp del]

definition vsf_sysutil_ulong_to_str :: "nat \<Rightarrow> string" where
  "vsf_sysutil_ulong_to_str the_ulong = num_str 10 the_ulong"

definition vsf_sysutil_filesize_t_to_str :: "int \<Rightarrow> string" where
  "vsf_sysutil_filesize_t_to_str the_filesize =
     (if the_filesize < 0 then ''-'' @ num_str 10 (nat (- the_filesize))
      else num_str 10 (nat the_filesize))"

definition vsf_sysutil_uint_to_octal :: "nat \<Rightarrow> string" where
  "vsf_sysutil_uint_to_octal the_uint =
     (if the_uint = 0 then ''0'' else ''0'' @ num_str 8 the_uint)"

text \<open>\<open>filesize_loop\<close> is the loop of \<open>vsf_sysutil_a_to_filesize_t\<close>, on the text from its end.\<close>

primrec filesize_loop :: "string \<Rightarrow> int \<Rightarrow> int \<Rightarrow> int" where
  "filesize_loop [] mult res = res"
| "filesize_loop (the_char # rest) mult res =
     (if code the_char < 48 \<or> code the_char > 57 then 0
      else filesize_loop rest (mult * 10) (res + (int (code the_char) - 48) * mult))"

definition vsf_sysutil_a_to_filesize_t :: "string \<Rightarrow> int" where
  "vsf_sysutil_a_to_filesize_t p_str =
     (let s = c_str p_str in
      if length s > 15 then 0 else filesize_loop (rev s) 1 0)"

primrec octal_loop :: "string \<Rightarrow> nat \<Rightarrow> bool \<Rightarrow> nat" where
  "octal_loop [] res seen_non_zero_digit = res"
| "octal_loop (digit # rest) res seen_non_zero_digit =
     (if digit = NUL \<or> \<not> vsf_sysutil_isdigit digit \<or> code digit > 55 then res
      else let seen = (if digit \<noteq> CHR ''0'' then True else seen_non_zero_digit)
           in octal_loop rest (if seen then u32 (u32 (res * 8) + (code digit - 48)) else res) seen)"

definition vsf_sysutil_octal_to_uint :: "string \<Rightarrow> nat" where
  "vsf_sysutil_octal_to_uint p_str = octal_loop p_str 0 False"

text \<open>
  \<open>atoi\<close> of the C library: white space, a sign, digits. Its value is that of \<open>strtol\<close>, which
  saturates at the bounds of \<open>long\<close>, reduced to an \<open>int\<close>.
\<close>

definition dec_value :: "string \<Rightarrow> nat" where
  "dec_value ds = foldl (\<lambda>acc c. acc * 10 + (code c - 48)) 0 ds"

definition to_int32 :: "int \<Rightarrow> int" where
  "to_int32 v = (v + 2147483648) mod 4294967296 - 2147483648"

definition vsf_sysutil_atoi :: "string \<Rightarrow> int" where
  "vsf_sysutil_atoi p_str =
     (let s = dropWhile vsf_sysutil_isspace (c_str p_str);
          neg = (s \<noteq> [] \<and> hd s = CHR ''-'');
          ds = takeWhile vsf_sysutil_isdigit
                 (if s \<noteq> [] \<and> (hd s = CHR ''-'' \<or> hd s = CHR ''+'') then tl s else s);
          v = int (dec_value ds)
      in to_int32 (if neg then max (- v) (- 9223372036854775808) else min v 9223372036854775807))"

section \<open>Looped reads and writes\<close>

text \<open>
  \<open>rd w n\<close> is \<open>vsf_sysutil_read\<close> of \<open>n\<close> bytes in the world \<open>w\<close>: the return value, the bytes
  stored and the world after; \<open>wr w d\<close> is \<open>vsf_sysutil_write\<close> of the bytes \<open>d\<close>. The loops
  return the result, what was read so far (the buffer) and the world.
\<close>

function read_loop ::
  "('w \<Rightarrow> nat \<Rightarrow> int \<times> string \<times> 'w) \<Rightarrow> 'w \<Rightarrow> nat \<Rightarrow> string \<Rightarrow> int result \<times> string \<times> 'w" where
  "read_loop rd w sz buf =
     (case rd w sz of (retval, d, w') \<Rightarrow>
        if retval < 0 then (Inr retval, buf, w')
        else if retval = 0 then (Inr (int (length buf)), buf, w')
        else if nat retval > sz then (die ''retval too big in vsf_sysutil_read_loop'', buf, w')
        else if sz - nat retval = 0 then (Inr (int (length (buf @ take (nat retval) d))), buf @ take (nat retval) d, w')
        else read_loop rd w' (sz - nat retval) (buf @ take (nat retval) d))"
  by pat_completeness auto
termination
  by (relation "measure (\<lambda>(rd, w, sz, buf). sz)") auto

definition vsf_sysutil_read_loop ::
  "('w \<Rightarrow> nat \<Rightarrow> int \<times> string \<times> 'w) \<Rightarrow> 'w \<Rightarrow> nat \<Rightarrow> int result \<times> string \<times> 'w" where
  "vsf_sysutil_read_loop rd w sz =
     (if sz > INT_MAX then (die ''size too big in vsf_sysutil_read_loop'', [], w)
      else read_loop rd w sz [])"

function write_loop ::
  "('w \<Rightarrow> string \<Rightarrow> int \<times> 'w) \<Rightarrow> 'w \<Rightarrow> string \<Rightarrow> int \<Rightarrow> int result \<times> 'w" where
  "write_loop wr w buf num_written =
     (case wr w buf of (retval, w') \<Rightarrow>
        if retval < 0 then (Inr retval, w')
        else if retval = 0 then (Inr num_written, w')
        else if nat retval > length buf then (die ''retval too big in vsf_sysutil_write_loop'', w')
        else if length buf - nat retval = 0 then (Inr (num_written + retval), w')
        else write_loop wr w' (drop (nat retval) buf) (num_written + retval))"
  by pat_completeness auto
termination
  by (relation "measure (\<lambda>(wr, w, buf, n). length buf)") auto

definition vsf_sysutil_write_loop ::
  "('w \<Rightarrow> string \<Rightarrow> int \<times> 'w) \<Rightarrow> 'w \<Rightarrow> string \<Rightarrow> int result \<times> 'w" where
  "vsf_sysutil_write_loop wr w buf =
     (if length buf > INT_MAX then (die ''size too big in vsf_sysutil_write_loop'', w)
      else write_loop wr w buf 0)"

declare read_loop.simps [simp del] write_loop.simps [simp del]

section \<open>File modes\<close>

type_synonym mode = "32 word"

definition vsf_sysutil_chmod_mask :: "mode \<Rightarrow> mode" where
  "vsf_sysutil_chmod_mask m = m AND 0x1FF"

definition vsf_sysutil_set_umask :: "mode \<Rightarrow> mode" where
  "vsf_sysutil_set_umask new_umask = new_umask AND 0x1FF"

definition vsf_sysutil_statbuf_is_regfile :: "mode \<Rightarrow> bool" where
  "vsf_sysutil_statbuf_is_regfile st_mode \<longleftrightarrow> st_mode AND 0xF000 = 0x8000"

definition vsf_sysutil_statbuf_is_symlink :: "mode \<Rightarrow> bool" where
  "vsf_sysutil_statbuf_is_symlink st_mode \<longleftrightarrow> st_mode AND 0xF000 = 0xA000"

definition vsf_sysutil_statbuf_is_socket :: "mode \<Rightarrow> bool" where
  "vsf_sysutil_statbuf_is_socket st_mode \<longleftrightarrow> st_mode AND 0xF000 = 0xC000"

definition vsf_sysutil_statbuf_is_dir :: "mode \<Rightarrow> bool" where
  "vsf_sysutil_statbuf_is_dir st_mode \<longleftrightarrow> st_mode AND 0xF000 = 0x4000"

definition vsf_sysutil_statbuf_is_readable_other :: "mode \<Rightarrow> bool" where
  "vsf_sysutil_statbuf_is_readable_other st_mode \<longleftrightarrow> st_mode AND 4 \<noteq> 0"

definition perm_if :: "mode \<Rightarrow> mode \<Rightarrow> nat \<Rightarrow> char \<Rightarrow> string \<Rightarrow> string" where
  "perm_if st_mode flag i c perms = (if st_mode AND flag \<noteq> 0 then perms[i := c] else perms)"

definition perm_special :: "mode \<Rightarrow> mode \<Rightarrow> nat \<Rightarrow> char \<Rightarrow> char \<Rightarrow> string \<Rightarrow> string" where
  "perm_special st_mode flag i lo up perms =
     (if st_mode AND flag \<noteq> 0 then perms[i := (if perms ! i = CHR ''x'' then lo else up)] else perms)"

definition file_type_char :: "mode \<Rightarrow> char" where
  "file_type_char st_mode =
     (let t = st_mode AND 0xF000 in
      if t = 0x8000 then CHR ''-'' else if t = 0x4000 then CHR ''d'' else if t = 0xA000 then CHR ''l''
      else if t = 0x1000 then CHR ''p'' else if t = 0xC000 then CHR ''s'' else if t = 0x2000 then CHR ''c''
      else if t = 0x6000 then CHR ''b'' else CHR ''?'')"

definition vsf_sysutil_statbuf_get_perms :: "mode \<Rightarrow> string" where
  "vsf_sysutil_statbuf_get_perms st_mode =
     (let perms = (replicate 10 CHR ''-'')[0 := file_type_char st_mode];
          perms = perm_if st_mode 0x100 1 CHR ''r'' perms;
          perms = perm_if st_mode 0x080 2 CHR ''w'' perms;
          perms = perm_if st_mode 0x040 3 CHR ''x'' perms;
          perms = perm_if st_mode 0x020 4 CHR ''r'' perms;
          perms = perm_if st_mode 0x010 5 CHR ''w'' perms;
          perms = perm_if st_mode 0x008 6 CHR ''x'' perms;
          perms = perm_if st_mode 0x004 7 CHR ''r'' perms;
          perms = perm_if st_mode 0x002 8 CHR ''w'' perms;
          perms = perm_if st_mode 0x001 9 CHR ''x'' perms;
          perms = perm_special st_mode 0x800 3 CHR ''s'' CHR ''S'' perms;
          perms = perm_special st_mode 0x400 6 CHR ''s'' CHR ''S'' perms
      in perm_special st_mode 0x200 9 CHR ''t'' CHR ''T'' perms)"

definition vsf_sysutil_statbuf_get_size :: "int \<Rightarrow> int result" where
  "vsf_sysutil_statbuf_get_size st_size =
     (if st_size < 0 then die ''invalid inode size in vsf_sysutil_statbuf_get_size'' else Inr st_size)"

text \<open>\<open>%030ld\<close>: at least thirty characters, zeros in front, a minus sign before them.\<close>

definition vsf_sysutil_statbuf_get_sortkey_mtime :: "int \<Rightarrow> string" where
  "vsf_sysutil_statbuf_get_sortkey_mtime st_mtime =
     (if st_mtime < 0
      then (let d = num_str 10 (nat (- st_mtime)) in ''-'' @ replicate (29 - length d) CHR ''0'' @ d)
      else (let d = num_str 10 (nat st_mtime) in replicate (30 - length d) CHR ''0'' @ d))"

section \<open>Socket addresses\<close>

text \<open>
  The union of \<open>struct vsf_sysutil_sockaddr\<close>. The family and the port of the IPv4 and of the IPv6 view
  lie at the same offsets, \<open>sin_addr\<close> and \<open>sin6_addr\<close> at different ones, so the union has one field
  for each. Addresses are their bytes, in network order; ports are in host order.
\<close>

datatype sa_family = AF_UNSPEC | AF_INET | AF_INET6

record sockaddr =
  family :: sa_family
  port :: nat
  sin_addr :: string
  sin6_addr :: string
  sin6_scope_id :: int

definition vsf_sysutil_sockaddr_alloc :: sockaddr where
  "vsf_sysutil_sockaddr_alloc =
     \<lparr>family = AF_UNSPEC, port = 0, sin_addr = replicate 4 NUL, sin6_addr = replicate 16 NUL,
      sin6_scope_id = 0\<rparr>"

definition vsf_sysutil_sockaddr_alloc_ipv4 :: sockaddr where
  "vsf_sysutil_sockaddr_alloc_ipv4 = vsf_sysutil_sockaddr_alloc\<lparr>family := AF_INET\<rparr>"

definition vsf_sysutil_sockaddr_alloc_ipv6 :: sockaddr where
  "vsf_sysutil_sockaddr_alloc_ipv6 = vsf_sysutil_sockaddr_alloc\<lparr>family := AF_INET6\<rparr>"

definition vsf_sysutil_sockaddr_clone :: "sockaddr \<Rightarrow> sockaddr result" where
  "vsf_sysutil_sockaddr_clone p_src =
     (let p = vsf_sysutil_sockaddr_alloc in
      if family p_src = AF_INET
      then Inr (p\<lparr>family := AF_INET, sin_addr := sin_addr p_src\<rparr>)
      else if family p_src = AF_INET6
      then Inr (p\<lparr>family := AF_INET6, sin6_addr := sin6_addr p_src, sin6_scope_id := sin6_scope_id p_src\<rparr>)
      else die ''can only support ipv4 and ipv6 currently'')"

definition v4_mapped_pattern :: string where
  "v4_mapped_pattern = replicate 10 NUL @ [IAC, IAC]"

definition vsf_sysutil_sockaddr_ipv6_v4 :: "sockaddr \<Rightarrow> string option" where
  "vsf_sysutil_sockaddr_ipv6_v4 p_addr =
     (if family p_addr \<noteq> AF_INET6 then None
      else if take 12 (sin6_addr p_addr) \<noteq> v4_mapped_pattern then None
      else Some (drop 12 (sin6_addr p_addr)))"

definition vsf_sysutil_sockaddr_ipv4_v6 :: "sockaddr \<Rightarrow> string option" where
  "vsf_sysutil_sockaddr_ipv4_v6 p_addr =
     (if family p_addr \<noteq> AF_INET then None
      else Some (v4_mapped_pattern @ sin_addr p_addr))"

definition vsf_sysutil_sockaddr_addr_equal :: "sockaddr \<Rightarrow> sockaddr \<Rightarrow> bool" where
  "vsf_sysutil_sockaddr_addr_equal p1 p2 =
     (let family1 = family p1; family2 = family p2 in
      if family1 \<noteq> family2
      then if family1 = AF_INET \<and> family2 = AF_INET6
           then (case vsf_sysutil_sockaddr_ipv6_v4 p2 of None \<Rightarrow> False | Some a \<Rightarrow> a = sin_addr p1)
           else if family1 = AF_INET6 \<and> family2 = AF_INET
           then (case vsf_sysutil_sockaddr_ipv6_v4 p1 of None \<Rightarrow> False | Some a \<Rightarrow> a = sin_addr p2)
           else False
      else if family1 = AF_INET then sin_addr p1 = sin_addr p2
      else if family1 = AF_INET6 then sin6_addr p1 = sin6_addr p2
      else False)"

definition vsf_sysutil_sockaddr_is_ipv6 :: "sockaddr \<Rightarrow> bool" where
  "vsf_sysutil_sockaddr_is_ipv6 p \<longleftrightarrow> family p = AF_INET6"

text \<open>The setters copy exactly 4 (16) bytes from \<open>p_raw\<close>, however many it holds.\<close>

definition raw_bytes :: "nat \<Rightarrow> string \<Rightarrow> string result" where
  "raw_bytes n p_raw = (if length p_raw < n then Inl Undef else Inr (take n p_raw))"

definition vsf_sysutil_sockaddr_set_ipv4addr :: "sockaddr \<Rightarrow> string \<Rightarrow> sockaddr result" where
  "vsf_sysutil_sockaddr_set_ipv4addr p p_raw =
     (if family p = AF_INET
      then andthen (raw_bytes 4 p_raw) (\<lambda>a. Inr (p\<lparr>sin_addr := a\<rparr>))
      else if family p = AF_INET6
      then andthen (raw_bytes 4 p_raw) (\<lambda>a.
           case vsf_sysutil_sockaddr_ipv4_v6 (vsf_sysutil_sockaddr_alloc_ipv4\<lparr>sin_addr := a\<rparr>) of
             None \<Rightarrow> Inl Undef
           | Some b \<Rightarrow> Inr (p\<lparr>sin6_addr := b\<rparr>))
      else bug ''bad family'')"

definition vsf_sysutil_sockaddr_set_ipv6addr :: "sockaddr \<Rightarrow> string \<Rightarrow> sockaddr result" where
  "vsf_sysutil_sockaddr_set_ipv6addr p p_raw =
     (if family p = AF_INET6
      then andthen (raw_bytes 16 p_raw) (\<lambda>a. Inr (p\<lparr>sin6_addr := a\<rparr>))
      else bug ''bad family'')"

definition vsf_sysutil_sockaddr_get_raw_addr :: "sockaddr \<Rightarrow> string result" where
  "vsf_sysutil_sockaddr_get_raw_addr p =
     (if family p = AF_INET then Inr (sin_addr p)
      else if family p = AF_INET6 then Inr (sin6_addr p)
      else bug ''bad family'')"

definition vsf_sysutil_sockaddr_set_any :: "sockaddr \<Rightarrow> sockaddr result" where
  "vsf_sysutil_sockaddr_set_any p =
     (if family p = AF_INET then Inr (p\<lparr>sin_addr := replicate 4 NUL\<rparr>)
      else if family p = AF_INET6 then Inr (p\<lparr>sin6_addr := replicate 16 NUL\<rparr>)
      else bug ''bad family'')"

definition vsf_sysutil_sockaddr_get_port :: "sockaddr \<Rightarrow> nat result" where
  "vsf_sysutil_sockaddr_get_port p =
     (if family p = AF_INET \<or> family p = AF_INET6 then Inr (port p) else bug ''bad family'')"

definition vsf_sysutil_sockaddr_set_port :: "sockaddr \<Rightarrow> nat \<Rightarrow> sockaddr result" where
  "vsf_sysutil_sockaddr_set_port p the_port =
     (if family p = AF_INET \<or> family p = AF_INET6 then Inr (p\<lparr>port := the_port\<rparr>)
      else bug ''bad family'')"

definition vsf_sysutil_is_port_reserved :: "nat \<Rightarrow> bool" where
  "vsf_sysutil_is_port_reserved the_port \<longleftrightarrow> the_port < 1024"

section \<open>What the conversions compute\<close>

lemma code_digit_char [simp]: "d < 10 \<Longrightarrow> code (digit_char d) = 48 + d"
  by (simp add: digit_char_def)

lemma digit_char_facts [simp]:
  assumes "d < 10"
  shows "vsf_sysutil_isdigit (digit_char d)" and "digit_char d \<noteq> NUL" and "digit_char d = CHR ''0'' \<longleftrightarrow> d = 0"
proof -
  show "vsf_sysutil_isdigit (digit_char d)" using assms by (simp add: vsf_sysutil_isdigit_def)
  have "code (digit_char d) \<noteq> code NUL" using assms by simp
  then show "digit_char d \<noteq> NUL" by fastforce
  have "digit_char d = CHR ''0'' \<longleftrightarrow> code (digit_char d) = code CHR ''0''" by (metis of_char_eq_iff)
  then show "digit_char d = CHR ''0'' \<longleftrightarrow> d = 0" using assms by simp
qed

lemma num_str_digits:
  assumes "2 \<le> base" and "base \<le> 10"
  shows "list_all (\<lambda>c. vsf_sysutil_isdigit c \<and> c \<noteq> NUL \<and> code c < 48 + base) (num_str base n) \<and> num_str base n \<noteq> []"
proof (induction n rule: less_induct)
  case (less n)
  show ?case
  proof (cases "n < base")
    case True
    with assms show ?thesis by (simp add: num_str.simps [of base n])
  next
    case False
    with assms less [of "n div base"] have "n mod base < base" "n mod base < 10"
      by (auto intro: order_less_le_trans [OF mod_less_divisor])
    with False assms less [of "n div base"] show ?thesis by (simp add: num_str.simps [of base n])
  qed
qed

lemma length_num_str:
  assumes "2 \<le> base" and "n < base ^ k" and "0 < k"
  shows "length (num_str base n) \<le> k"
  using assms(2,3)
proof (induction k arbitrary: n)
  case 0
  then show ?case by simp
next
  case (Suc k)
  show ?case
  proof (cases "n < base")
    case True
    then show ?thesis by (simp add: num_str.simps [of base n])
  next
    case False
    then have "0 < k" using Suc.prems assms(1) by (cases k) auto
    moreover have "n div base < base ^ k" using Suc.prems assms(1) by (simp add: less_mult_imp_div_less mult.commute)
    ultimately have "length (num_str base (n div base)) \<le> k" by (rule Suc.IH [rotated])
    with False assms(1) show ?thesis by (simp add: num_str.simps [of base n])
  qed
qed

lemma c_str_num_str [simp]: "2 \<le> base \<Longrightarrow> base \<le> 10 \<Longrightarrow> c_str (num_str base n) = num_str base n"
  using num_str_digits [of base n] by (intro c_str_id) (auto simp: list_all_iff)

lemma isdigit_code: "vsf_sysutil_isdigit c \<Longrightarrow> 48 \<le> code c \<and> code c \<le> 57"
  by (simp add: vsf_sysutil_isdigit_def)

lemma filesize_loop_digits:
  "list_all vsf_sysutil_isdigit ds \<Longrightarrow>
   filesize_loop ds mult res = res + mult * filesize_loop ds 1 0"
proof (induction ds arbitrary: mult res)
  case Nil
  then show ?case by simp
next
  case (Cons c ds)
  then have d: "\<not> (code c < 48 \<or> 57 < code c)" and ds: "list_all vsf_sysutil_isdigit ds"
    by (auto dest: isdigit_code)
  have "filesize_loop (c # ds) mult res = res + (int (code c) - 48) * mult + mult * 10 * filesize_loop ds 1 0"
    using d Cons.IH [OF ds, of "mult * 10" "res + (int (code c) - 48) * mult"] by simp
  moreover have "filesize_loop (c # ds) 1 0 = (int (code c) - 48) + 10 * filesize_loop ds 1 0"
    using d Cons.IH [OF ds, of "10" "int (code c) - 48"] by simp
  ultimately show ?case by (simp only: distrib_left mult_ac add_ac)
qed

lemma filesize_loop_num_str: "filesize_loop (rev (num_str 10 n)) 1 0 = int n"
proof (induction n rule: less_induct)
  case (less n)
  show ?case
  proof (cases "n < 10")
    case True
    then show ?thesis by (simp add: num_str.simps [of 10 n])
  next
    case False
    have ds: "list_all vsf_sysutil_isdigit (rev (num_str 10 (n div 10)))"
      using num_str_digits [of 10 "n div 10"] by (simp add: list_all_iff)
    have "\<not> 9 < n mod 10" using mod_less_divisor [of 10 n] by linarith
    with False have "filesize_loop (rev (num_str 10 n)) 1 0
        = filesize_loop (rev (num_str 10 (n div 10))) 10 (int (n mod 10))"
      by (simp add: num_str.simps [of 10 n])
    also have "\<dots> = int (n mod 10) + 10 * int (n div 10)"
      using filesize_loop_digits [OF ds, of 10 "int (n mod 10)"] less [of "n div 10"] False by simp
    also have "\<dots> = int n" by (simp add: zmod_int zdiv_int)
    finally show ?thesis .
  qed
qed

lemma filesize_loop_nondigit:
  "\<not> list_all vsf_sysutil_isdigit ds \<Longrightarrow> filesize_loop ds mult res = 0"
  by (induction ds arbitrary: mult res) (auto simp: vsf_sysutil_isdigit_def)

lemma filesize_loop_bounds:
  assumes "list_all vsf_sysutil_isdigit ds"
  shows "0 \<le> filesize_loop ds 1 0 \<and> filesize_loop ds 1 0 < 10 ^ length ds"
  using assms
proof (induction ds)
  case Nil
  then show ?case by simp
next
  case (Cons c ds)
  then have d: "48 \<le> code c" "code c \<le> 57" "list_all vsf_sysutil_isdigit ds"
    by (auto dest: isdigit_code)
  have "filesize_loop (c # ds) 1 0 = (int (code c) - 48) + 10 * filesize_loop ds 1 0"
    using filesize_loop_digits [OF d(3), of 10 "int (code c) - 48"] d by simp
  with Cons.IH [OF d(3)] d show ?case by simp
qed

text \<open>
  A file size below a petabyte survives printing and parsing: \<open>vsf_sysutil_a_to_filesize_t\<close> reads back
  what \<open>vsf_sysutil_filesize_t_to_str\<close> wrote.
\<close>

theorem filesize_roundtrip:
  assumes "0 \<le> n" and "n < 10 ^ 15"
  shows "vsf_sysutil_a_to_filesize_t (vsf_sysutil_filesize_t_to_str n) = n"
proof -
  have "nat n < 10 ^ 15" using assms by (simp add: nat_less_iff)
  then have "length (num_str 10 (nat n)) \<le> 15" by (intro length_num_str) auto
  with assms show ?thesis
    by (simp add: vsf_sysutil_a_to_filesize_t_def vsf_sysutil_filesize_t_to_str_def
        filesize_loop_num_str)
qed

lemma filesize_roundtrip_witness:
  "vsf_sysutil_a_to_filesize_t (vsf_sysutil_filesize_t_to_str 10203) = 10203"
  by (rule filesize_roundtrip) simp_all

text \<open>
  Whatever the client sends as a size, \<open>vsf_sysutil_a_to_filesize_t\<close> returns a value from 0 to
  \<open>10 ^ 15 - 1\<close>, so its 64-bit arithmetic never overflows; text that is too long or has a character
  that is not a digit counts as 0.
\<close>

theorem a_to_filesize_bounds:
  "0 \<le> vsf_sysutil_a_to_filesize_t s \<and> vsf_sysutil_a_to_filesize_t s < 10 ^ 15 \<and>
   (if length (c_str s) \<le> 15 \<and> list_all vsf_sysutil_isdigit (c_str s)
    then True else vsf_sysutil_a_to_filesize_t s = 0)"
proof (cases "length (c_str s) > 15 \<or> \<not> list_all vsf_sysutil_isdigit (c_str s)")
  case True
  then have "vsf_sysutil_a_to_filesize_t s = 0"
    using filesize_loop_nondigit [of "rev (c_str s)" 1 0]
    by (auto simp: vsf_sysutil_a_to_filesize_t_def Let_def list_all_iff)
  then show ?thesis by simp
next
  case False
  then have "(10 :: int) ^ length (c_str s) \<le> 10 ^ 15" by (intro power_increasing) auto
  with False filesize_loop_bounds [of "rev (c_str s)"] show ?thesis
    by (simp add: vsf_sysutil_a_to_filesize_t_def list_all_iff)
qed

lemma octal_loop_append:
  "list_all (\<lambda>c. vsf_sysutil_isdigit c \<and> c \<noteq> NUL \<and> code c < 56) ds \<Longrightarrow>
   octal_loop (ds @ rest) r True = octal_loop rest (octal_loop ds r True) True"
  by (induction ds arbitrary: r) (auto simp: Let_def)

lemma octal_loop_seen: "octal_loop ds 0 False = octal_loop ds 0 True"
  by (induction ds) (simp_all add: Let_def)

lemma octal_loop_num_str:
  "n < 4294967296 \<Longrightarrow> octal_loop (num_str 8 n) 0 True = n"
proof (induction n rule: less_induct)
  case (less n)
  show ?case
  proof (cases "n < 8")
    case True
    then have "u32 n = n" "\<not> 7 < n" by simp_all
    with True show ?thesis by (simp add: num_str.simps [of 8 n] Let_def)
  next
    case False
    have d: "\<not> 7 < n mod 8" "n mod 8 < 10" "n div 8 * 8 + n mod 8 = n" "n div 8 * 8 < 4294967296"
      using mod_less_divisor [of 8 n] less.prems div_times_less_eq_dividend [of n 8]
      by (linarith, linarith, simp, linarith)
    have "octal_loop (num_str 8 n) 0 True = octal_loop [digit_char (n mod 8)] (n div 8) True"
      using False less num_str_digits [of 8 "n div 8"]
      by (simp add: num_str.simps [of 8 n] octal_loop_append list_all_iff)
    also have "\<dots> = n" using d less.prems by (simp add: Let_def del: div_mult_mod_eq)
    finally show ?thesis .
  qed
qed

text \<open>
  Every 32-bit value survives printing and parsing in octal, the form the configuration writes
  \<open>umask\<close> and modes in: \<open>vsf_sysutil_octal_to_uint (vsf_sysutil_uint_to_octal n) = n\<close>.
\<close>

theorem octal_roundtrip:
  assumes "n < 2 ^ 32"
  shows "vsf_sysutil_octal_to_uint (vsf_sysutil_uint_to_octal n) = n"
  using assms octal_loop_seen [of "num_str 8 n"] octal_loop_num_str [of n]
  by (simp add: vsf_sysutil_octal_to_uint_def vsf_sysutil_uint_to_octal_def vsf_sysutil_isdigit_def Let_def)

lemma octal_roundtrip_witness:
  "vsf_sysutil_octal_to_uint (vsf_sysutil_uint_to_octal 438) = 438"
  by (rule octal_roundtrip) simp

section \<open>The loops transfer everything\<close>

text \<open>
  What the kernel promises of \<open>read\<close>: between 0 and \<open>n\<close> bytes of what the descriptor has left, 0 only
  at the end of the data (or for \<open>n = 0\<close>); and of \<open>write\<close>: between 1 and \<open>length d\<close> bytes
  of \<open>d\<close> appended to what was written before.
\<close>

definition read_law :: "('w \<Rightarrow> string) \<Rightarrow> ('w \<Rightarrow> nat \<Rightarrow> int \<times> string \<times> 'w) \<Rightarrow> bool" where
  "read_law rest rd \<longleftrightarrow> (\<forall>w n. case rd w n of (r, d, w') \<Rightarrow>
     r = int (length d) \<and> length d \<le> n \<and> rest w = d @ rest w' \<and> (d = [] \<longrightarrow> n = 0 \<or> rest w = []))"

definition write_law :: "('w \<Rightarrow> string) \<Rightarrow> ('w \<Rightarrow> string \<Rightarrow> int \<times> 'w) \<Rightarrow> bool" where
  "write_law out wr \<longleftrightarrow> (\<forall>w d. case wr w d of (r, w') \<Rightarrow>
     0 \<le> r \<and> nat r \<le> length d \<and> out w' = out w @ take (nat r) d \<and> (r = 0 \<longrightarrow> d = []))"

lemma read_loop_all:
  assumes "read_law rest rd"
  shows "\<exists>w'. read_loop rd w sz buf = (Inr (int (length (buf @ take sz (rest w)))), buf @ take sz (rest w), w')
            \<and> rest w' = drop sz (rest w)"
proof (induction sz arbitrary: w buf rule: less_induct)
  case (less sz)
  obtain r d w1 where rd: "rd w sz = (r, d, w1)" by (cases "rd w sz") auto
  have law: "r = int (length d)" "length d \<le> sz" "rest w = d @ rest w1" "d = [] \<Longrightarrow> sz = 0 \<or> rest w = []"
    using spec [OF spec [OF assms [unfolded read_law_def], of w], of sz] by (auto simp: rd)
  consider "d = []" | "d \<noteq> []" "length d = sz" | "d \<noteq> []" "length d < sz" using law(2) by force
  then show ?case
  proof cases
    case 1
    with rd law show ?thesis by (auto simp: read_loop.simps [of rd w sz buf])
  next
    case 2
    with rd law show ?thesis by (auto simp: read_loop.simps [of rd w sz buf])
  next
    case 3
    then have "sz - length d < sz" by (cases d) auto
    from less [OF this, of w1 "buf @ d"] 3 rd law show ?thesis
      by (auto simp: read_loop.simps [of rd w sz buf])
  qed
qed

text \<open>
  \<open>vsf_sysutil_read_loop\<close> returns, and hands over the next \<open>size\<close> bytes of the descriptor, or all of
  them when there are fewer, however the kernel splits them into reads.
\<close>

theorem read_loop_complete:
  assumes "read_law rest rd" and "sz \<le> INT_MAX"
  shows "\<exists>w'. vsf_sysutil_read_loop rd w sz = (Inr (int (length (take sz (rest w)))), take sz (rest w), w')
            \<and> rest w' = drop sz (rest w)"
  using read_loop_all [OF assms(1), of w sz "[]"] assms(2) by (simp add: vsf_sysutil_read_loop_def)

definition two_byte_reader :: "string \<Rightarrow> nat \<Rightarrow> int \<times> string \<times> string" where
  "two_byte_reader w n = (let d = take (min n 2) w in (int (length d), d, drop (min n 2) w))"

lemma read_loop_complete_witness:
  "\<exists>w'. vsf_sysutil_read_loop two_byte_reader ''abcdefg'' 5 = (Inr 5, ''abcde'', w') \<and> w' = ''fg''"
proof -
  have "read_law (\<lambda>w. w) two_byte_reader"
    by (auto simp: read_law_def two_byte_reader_def Let_def min_def)
  from read_loop_complete [OF this, of 5 "''abcdefg''"] show ?thesis by (simp add: INT_MAX_def)
qed

lemma write_loop_all:
  assumes "write_law out wr"
  shows "\<exists>w'. write_loop wr w buf n = (Inr (n + int (length buf)), w') \<and> out w' = out w @ buf"
proof (induction "length buf" arbitrary: w buf n rule: less_induct)
  case (less buf)
  obtain r w1 where wr: "wr w buf = (r, w1)" by (cases "wr w buf")
  have law: "0 \<le> r" "nat r \<le> length buf" "out w1 = out w @ take (nat r) buf" "r = 0 \<Longrightarrow> buf = []"
    using spec [OF spec [OF assms [unfolded write_law_def], of w], of buf] by (simp_all add: wr)
  consider "r = 0" | "0 < r" "nat r = length buf" | "0 < r" "nat r < length buf" using law(1,2) by linarith
  then show ?case
  proof cases
    case 1
    with wr law show ?thesis by (simp add: write_loop.simps [of wr w "[]" n])
  next
    case 2
    with wr law show ?thesis by (auto simp: write_loop.simps [of wr w buf])
  next
    case 3
    then have "length (drop (nat r) buf) < length buf" by auto
    from less [OF this, of w1 "n + r"] 3 wr law show ?thesis
      by (auto simp: write_loop.simps [of wr w buf])
  qed
qed

text \<open>
  \<open>vsf_sysutil_write_loop\<close> returns the full size and has written the whole buffer, in order and
  once, however the kernel splits it into writes.
\<close>

theorem write_loop_complete:
  assumes "write_law out wr" and "length buf \<le> INT_MAX"
  shows "\<exists>w'. vsf_sysutil_write_loop wr w buf = (Inr (int (length buf)), w') \<and> out w' = out w @ buf"
  using write_loop_all [OF assms(1), of w buf 0] assms(2) by (simp add: vsf_sysutil_write_loop_def)

definition three_byte_writer :: "string \<Rightarrow> string \<Rightarrow> int \<times> string" where
  "three_byte_writer w d = (int (min 3 (length d)), w @ take 3 d)"

lemma write_loop_complete_witness:
  "\<exists>w'. vsf_sysutil_write_loop three_byte_writer ''x'' ''abcde'' = (Inr 5, w') \<and> w' = ''xabcde''"
proof -
  have "write_law (\<lambda>w. w) three_byte_writer"
    by (auto simp: write_law_def three_byte_writer_def min_def)
  from write_loop_complete [OF this, of "''abcde''" "''x''"] show ?thesis by (simp add: INT_MAX_def)
qed

section \<open>Modes\<close>

lemma and_bit_iff: "m AND push_bit k 1 \<noteq> (0 :: 32 word) \<longleftrightarrow> bit m k"
  by (simp add: bit_iff_and_push_bit_not_eq_0)

lemma perm_bits:
  "m AND 0x100 \<noteq> (0 :: mode) \<longleftrightarrow> bit m 8" "m AND 0x080 \<noteq> (0 :: mode) \<longleftrightarrow> bit m 7"
  "m AND 0x040 \<noteq> (0 :: mode) \<longleftrightarrow> bit m 6" "m AND 0x020 \<noteq> (0 :: mode) \<longleftrightarrow> bit m 5"
  "m AND 0x010 \<noteq> (0 :: mode) \<longleftrightarrow> bit m 4" "m AND 0x008 \<noteq> (0 :: mode) \<longleftrightarrow> bit m 3"
  "m AND 0x004 \<noteq> (0 :: mode) \<longleftrightarrow> bit m 2" "m AND 0x002 \<noteq> (0 :: mode) \<longleftrightarrow> bit m 1"
  "m AND 0x001 \<noteq> (0 :: mode) \<longleftrightarrow> bit m 0" "m AND 0x800 \<noteq> (0 :: mode) \<longleftrightarrow> bit m 11"
  "m AND 0x400 \<noteq> (0 :: mode) \<longleftrightarrow> bit m 10" "m AND 0x200 \<noteq> (0 :: mode) \<longleftrightarrow> bit m 9"
  using and_bit_iff [of m 8] and_bit_iff [of m 7] and_bit_iff [of m 6] and_bit_iff [of m 5]
    and_bit_iff [of m 4] and_bit_iff [of m 3] and_bit_iff [of m 2] and_bit_iff [of m 1]
    and_bit_iff [of m 0] and_bit_iff [of m 11] and_bit_iff [of m 10] and_bit_iff [of m 9]
  by (simp_all add: push_bit_eq_mult)

text \<open>The letter of an execute position: permission bit \<open>x\<close>, special bit \<open>s\<close>.\<close>

definition exec_char :: "bool \<Rightarrow> bool \<Rightarrow> char \<Rightarrow> char \<Rightarrow> char" where
  "exec_char x s lo up = (if s then (if x then lo else up) else if x then CHR ''x'' else CHR ''-'')"

lemma perm_update:
  "perm_if m fl 1 z [a, b, c, d, e, f, g, h, i, j] = [a, if m AND fl \<noteq> 0 then z else b, c, d, e, f, g, h, i, j]"
  "perm_if m fl 2 z [a, b, c, d, e, f, g, h, i, j] = [a, b, if m AND fl \<noteq> 0 then z else c, d, e, f, g, h, i, j]"
  "perm_if m fl 3 z [a, b, c, d, e, f, g, h, i, j] = [a, b, c, if m AND fl \<noteq> 0 then z else d, e, f, g, h, i, j]"
  "perm_if m fl 4 z [a, b, c, d, e, f, g, h, i, j] = [a, b, c, d, if m AND fl \<noteq> 0 then z else e, f, g, h, i, j]"
  "perm_if m fl 5 z [a, b, c, d, e, f, g, h, i, j] = [a, b, c, d, e, if m AND fl \<noteq> 0 then z else f, g, h, i, j]"
  "perm_if m fl 6 z [a, b, c, d, e, f, g, h, i, j] = [a, b, c, d, e, f, if m AND fl \<noteq> 0 then z else g, h, i, j]"
  "perm_if m fl 7 z [a, b, c, d, e, f, g, h, i, j] = [a, b, c, d, e, f, g, if m AND fl \<noteq> 0 then z else h, i, j]"
  "perm_if m fl 8 z [a, b, c, d, e, f, g, h, i, j] = [a, b, c, d, e, f, g, h, if m AND fl \<noteq> 0 then z else i, j]"
  "perm_if m fl 9 z [a, b, c, d, e, f, g, h, i, j] = [a, b, c, d, e, f, g, h, i, if m AND fl \<noteq> 0 then z else j]"
  "perm_special m fl 3 lo up [a, b, c, d, e, f, g, h, i, j] =
     [a, b, c, if m AND fl \<noteq> 0 then (if d = CHR ''x'' then lo else up) else d, e, f, g, h, i, j]"
  "perm_special m fl 6 lo up [a, b, c, d, e, f, g, h, i, j] =
     [a, b, c, d, e, f, if m AND fl \<noteq> 0 then (if g = CHR ''x'' then lo else up) else g, h, i, j]"
  "perm_special m fl 9 lo up [a, b, c, d, e, f, g, h, i, j] =
     [a, b, c, d, e, f, g, h, i, if m AND fl \<noteq> 0 then (if j = CHR ''x'' then lo else up) else j]"
  by (simp_all add: perm_if_def perm_special_def)

lemma exec_char_if [simp]: "(if b then CHR ''x'' else CHR ''-'') = CHR ''x'' \<longleftrightarrow> b"
  by simp

lemma replicate_10: "replicate 10 x = [x, x, x, x, x, x, x, x, x, x]"
  by (simp add: numeral_eq_Suc)

text \<open>
  The permission string of a listing shows the file type and the twelve mode bits as \<open>ls\<close> does: a
  letter for each set permission bit, and \<open>s\<close>/\<open>S\<close>, \<open>t\<close>/\<open>T\<close> in the execute positions for set-user-id,
  set-group-id and sticky, the capital when the execute bit is clear.
\<close>

theorem statbuf_get_perms_eq:
  "vsf_sysutil_statbuf_get_perms m =
     [file_type_char m,
      if bit m 8 then CHR ''r'' else CHR ''-'', if bit m 7 then CHR ''w'' else CHR ''-'',
      exec_char (bit m 6) (bit m 11) CHR ''s'' CHR ''S'',
      if bit m 5 then CHR ''r'' else CHR ''-'', if bit m 4 then CHR ''w'' else CHR ''-'',
      exec_char (bit m 3) (bit m 10) CHR ''s'' CHR ''S'',
      if bit m 2 then CHR ''r'' else CHR ''-'', if bit m 1 then CHR ''w'' else CHR ''-'',
      exec_char (bit m 0) (bit m 9) CHR ''t'' CHR ''T'']"
  by (simp only: vsf_sysutil_statbuf_get_perms_def Let_def replicate_10 list_update.simps nat.case
      perm_update perm_bits exec_char_def exec_char_if)

text \<open>
  The mode that \<open>vsf_sysutil_chmod\<close> and \<open>vsf_sysutil_fchmod\<close> pass on, and the mask that
  \<open>vsf_sysutil_set_umask\<close> installs, keep the nine access bits of the argument and never a set-user-id,
  set-group-id or sticky bit.
\<close>

theorem chmod_mask_bits:
  "(bit (vsf_sysutil_chmod_mask m) k \<longleftrightarrow> k < 9 \<and> bit m k) \<and>
   (bit (vsf_sysutil_set_umask m) k \<longleftrightarrow> k < 9 \<and> bit m k)"
proof -
  have "m AND 0x1FF = take_bit 9 m" by (simp add: take_bit_eq_mask mask_eq_exp_minus_1)
  then have "bit (m AND 0x1FF) k \<longleftrightarrow> k < 9 \<and> bit m k" by (simp add: bit_take_bit_iff)
  then show ?thesis
    by (simp add: vsf_sysutil_chmod_mask_def vsf_sysutil_set_umask_def)
qed

section \<open>Addresses\<close>

definition sockaddr_wf :: "sockaddr \<Rightarrow> bool" where
  "sockaddr_wf p \<longleftrightarrow> length (sin_addr p) = 4 \<and> length (sin6_addr p) = 16 \<and> port p < 65536"

text \<open>The address a socket address stands for, as 16 bytes: an IPv4 address in its mapped form.\<close>

definition canon_addr :: "sockaddr \<Rightarrow> string option" where
  "canon_addr p = (case family p of
       AF_INET \<Rightarrow> Some (v4_mapped_pattern @ sin_addr p)
     | AF_INET6 \<Rightarrow> Some (sin6_addr p)
     | AF_UNSPEC \<Rightarrow> None)"

lemma length_v4_mapped_pattern [simp]: "length v4_mapped_pattern = 12"
  by (simp add: v4_mapped_pattern_def)

lemma mapped_split:
  "(take 12 a = v4_mapped_pattern \<and> drop 12 a = b) \<longleftrightarrow> a = v4_mapped_pattern @ b"
  using append_eq_conv_conj [of v4_mapped_pattern b a] by (metis length_v4_mapped_pattern)

text \<open>
  \<open>vsf_sysutil_sockaddr_addr_equal\<close> decides whether two socket addresses name the same host,
  an IPv4 address being the same as its IPv6-mapped form.
\<close>

theorem addr_equal_iff:
  assumes "sockaddr_wf p1" and "sockaddr_wf p2"
  shows "vsf_sysutil_sockaddr_addr_equal p1 p2 \<longleftrightarrow> canon_addr p1 \<noteq> None \<and> canon_addr p1 = canon_addr p2"
  using assms mapped_split [of "sin6_addr p2" "sin_addr p1"] mapped_split [of "sin6_addr p1" "sin_addr p2"]
  by (cases "family p1"; cases "family p2")
    (auto simp: vsf_sysutil_sockaddr_addr_equal_def vsf_sysutil_sockaddr_ipv6_v4_def canon_addr_def
        sockaddr_wf_def)

lemma addr_equal_iff_witness:
  "vsf_sysutil_sockaddr_addr_equal
     (vsf_sysutil_sockaddr_alloc_ipv4\<lparr>sin_addr := ''abcd''\<rparr>)
     (vsf_sysutil_sockaddr_alloc_ipv6\<lparr>sin6_addr := v4_mapped_pattern @ ''abcd''\<rparr>)"
  using addr_equal_iff [of "vsf_sysutil_sockaddr_alloc_ipv4\<lparr>sin_addr := ''abcd''\<rparr>"
      "vsf_sysutil_sockaddr_alloc_ipv6\<lparr>sin6_addr := v4_mapped_pattern @ ''abcd''\<rparr>"]
  by (simp add: sockaddr_wf_def vsf_sysutil_sockaddr_alloc_ipv4_def vsf_sysutil_sockaddr_alloc_ipv6_def
      vsf_sysutil_sockaddr_alloc_def canon_addr_def v4_mapped_pattern_def)

lemma sockaddr_wf_alloc [simp]:
  "sockaddr_wf vsf_sysutil_sockaddr_alloc" "sockaddr_wf vsf_sysutil_sockaddr_alloc_ipv4"
  "sockaddr_wf vsf_sysutil_sockaddr_alloc_ipv6"
  by (simp_all add: sockaddr_wf_def vsf_sysutil_sockaddr_alloc_def vsf_sysutil_sockaddr_alloc_ipv4_def
      vsf_sysutil_sockaddr_alloc_ipv6_def)

lemma sockaddr_clone_Inr:
  assumes "vsf_sysutil_sockaddr_clone p = Inr q" and "sockaddr_wf p"
  shows "sockaddr_wf q" and "canon_addr q = canon_addr p" and "port q = 0" and "family q = family p"
    and "family q \<noteq> AF_UNSPEC"
  using assms by (auto simp: vsf_sysutil_sockaddr_clone_def vsf_sysutil_sockaddr_alloc_def Let_def
      canon_addr_def sockaddr_wf_def halt_simps split: if_splits)

lemma set_ipv4addr_Inr:
  assumes "vsf_sysutil_sockaddr_set_ipv4addr p a = Inr q" and "sockaddr_wf p"
  shows "sockaddr_wf q" and "canon_addr q = Some (v4_mapped_pattern @ take 4 a)" and "port q = port p"
    and "family q = family p" and "family q \<noteq> AF_UNSPEC"
  using assms by (auto simp: vsf_sysutil_sockaddr_set_ipv4addr_def vsf_sysutil_sockaddr_ipv4_v6_def
      vsf_sysutil_sockaddr_alloc_ipv4_def vsf_sysutil_sockaddr_alloc_def canon_addr_def sockaddr_wf_def
      v4_mapped_pattern_def raw_bytes_def andthen_Inr_iff halt_simps split: if_splits)

lemma set_ipv4addr_ok: "length a = 4 \<Longrightarrow> family p \<noteq> AF_UNSPEC \<Longrightarrow>
    \<exists>q. vsf_sysutil_sockaddr_set_ipv4addr p a = Inr q"
  by (cases "family p") (auto simp: vsf_sysutil_sockaddr_set_ipv4addr_def raw_bytes_def
      vsf_sysutil_sockaddr_ipv4_v6_def vsf_sysutil_sockaddr_alloc_ipv4_def)

lemma set_port_Inr:
  assumes "vsf_sysutil_sockaddr_set_port p n = Inr q" and "sockaddr_wf p" and "n < 65536"
  shows "sockaddr_wf q" and "canon_addr q = canon_addr p" and "port q = n" and "family q = family p"
  using assms by (auto simp: vsf_sysutil_sockaddr_set_port_def canon_addr_def sockaddr_wf_def
      halt_simps split: if_splits)

end
