(* ===== verification/Ipaddrparse.thy ===== *)
theory Ipaddrparse
  imports Sysutil
begin

text \<open>
  \<^verbatim>\<open>ipaddrparse.c\<close>: the parsers of IPv4 and IPv6 addresses (used for \<^verbatim>\<open>PORT\<close>, \<^verbatim>\<open>EPRT\<close> and the listen and
  passive addresses of the configuration). \<open>None\<close> is the null pointer a parser returns for text it rejects.
\<close>

definition str_atoi :: "string \<Rightarrow> int" where
  "str_atoi p_str = vsf_sysutil_atoi p_str"

section \<open>Parsers\<close>

text \<open>The loop of \<open>vsf_sysutil_parse_uchar_string_sep\<close>; the first argument counts the items still to read.\<close>

primrec uchar_sep_loop :: "nat \<Rightarrow> string \<Rightarrow> char \<Rightarrow> string \<Rightarrow> string option" where
  "uchar_sep_loop 0 tmp sep p_items = Some p_items"
| "uchar_sep_loop (Suc n) tmp sep p_items =
     (let (lhs, rhs) = str_split_char tmp sep in
      if (0 < n \<and> rhs = []) \<or> (n = 0 \<and> rhs \<noteq> []) then None
      else let this_number = str_atoi lhs in
        if this_number < 0 \<or> this_number > 255 then None
        else uchar_sep_loop n rhs sep (p_items @ [char_of (nat this_number)]))"

definition vsf_sysutil_parse_uchar_string_sep :: "string \<Rightarrow> char \<Rightarrow> nat \<Rightarrow> string option" where
  "vsf_sysutil_parse_uchar_string_sep p_str sep items = uchar_sep_loop items p_str sep []"

definition vsf_sysutil_parse_ipv4 :: "string \<Rightarrow> string option" where
  "vsf_sysutil_parse_ipv4 p_str = vsf_sysutil_parse_uchar_string_sep p_str CHR ''.'' 4"

primrec parse_hex_loop :: "string \<Rightarrow> nat \<Rightarrow> nat option" where
  "parse_hex_loop [] val = Some val"
| "parse_hex_loop (c # cs) val =
     (let ch = code (vsf_sysutil_toupper c);
          digit = (if 48 \<le> ch \<and> ch \<le> 57 then Some (ch - 48)
                   else if 65 \<le> ch \<and> ch \<le> 70 then Some (ch - 65 + 10) else None)
      in case digit of
           None \<Rightarrow> None
         | Some d \<Rightarrow> let val = val * 16 + d in
             if val > 65535 then None else parse_hex_loop cs val)"

definition ipv6_parse_hex :: "string \<Rightarrow> string \<Rightarrow> string option" where
  "ipv6_parse_hex p_out_str p_in_str =
     (case parse_hex_loop p_in_str 0 of
        None \<Rightarrow> None
      | Some val \<Rightarrow> Some (p_out_str @ [char_of (val div 256), char_of (val mod 256)]))"

text \<open>State of the dotted-quad loop: value of the field, value so far, digit seen, dots seen.\<close>

primrec dotquad_loop :: "string \<Rightarrow> nat \<Rightarrow> nat \<Rightarrow> bool \<Rightarrow> nat \<Rightarrow> (nat \<times> nat \<times> bool \<times> nat) option" where
  "dotquad_loop [] val final_val seen_char dots = Some (val, final_val, seen_char, dots)"
| "dotquad_loop (c # cs) val final_val seen_char dots =
     (if c = CHR ''.''
      then if \<not> seen_char \<or> dots = 3 then None
           else dotquad_loop cs 0 (u32 (final_val * 256) + val) False (dots + 1)
      else if 48 \<le> code c \<and> code c \<le> 57
      then let val = val * 10 + (code c - 48) in
           if val > 255 then None else dotquad_loop cs val final_val True dots
      else None)"

definition ipv4_parse_dotquad :: "string \<Rightarrow> string \<Rightarrow> string option" where
  "ipv4_parse_dotquad p_out_str p_in_str =
     (case dotquad_loop p_in_str 0 0 False 0 of
        None \<Rightarrow> None
      | Some (val, final_val, seen_char, dots) \<Rightarrow>
          if dots \<noteq> 3 \<or> \<not> seen_char then None
          else let fv = u32 (final_val * 256) + val in
            Some (p_out_str @ [char_of (fv div 16777216), char_of (fv div 65536 mod 256),
                               char_of (fv div 256 mod 256), char_of (fv mod 256)]))"

function ipv6_parse_main :: "string \<Rightarrow> string \<Rightarrow> string option" where
  "ipv6_parse_main p_out_str lhs_str =
     (if lhs_str = [] then Some p_out_str
      else let (lhs, rhs) = str_split_char lhs_str CHR '':'' in
        if lhs = [] then None
        else case (if found (str_locate_char lhs CHR ''.'') then ipv4_parse_dotquad p_out_str lhs
                   else ipv6_parse_hex p_out_str lhs) of
               None \<Rightarrow> None
             | Some out \<Rightarrow> ipv6_parse_main out rhs)"
  by pat_completeness auto
termination
  by (relation "measure (\<lambda>(out, s). length s)")
    (auto simp: str_split_char_eq)

declare ipv6_parse_main.simps [simp del]

definition vsf_sysutil_parse_ipv6 :: "string \<Rightarrow> string option" where
  "vsf_sysutil_parse_ipv6 p_str =
     (let (lhs_str, rhs_str) = str_split_text p_str ''::'' in
      case ipv6_parse_main [] lhs_str of
        None \<Rightarrow> None
      | Some ret \<Rightarrow> (case ipv6_parse_main [] rhs_str of
          None \<Rightarrow> None
        | Some rhs_ret \<Rightarrow>
            let lhs_len = length ret; rhs_len = length rhs_ret in
            if lhs_len + rhs_len > 16 then None
            else if rhs_len > 0
            then Some (ret @ replicate (16 - (lhs_len + rhs_len)) NUL @ rhs_ret)
            else Some ret))"

section \<open>Decimal\<close>

lemma dec_value_append: "dec_value (ds @ [c]) = dec_value ds * 10 + (code c - 48)"
  by (simp add: dec_value_def)

lemma dec_value_num_str: "dec_value (num_str 10 n) = n"
proof (induction n rule: less_induct)
  case (less n)
  have "n mod 10 < 10" by simp
  with less [of "n div 10"] show ?case
    by (cases "n < 10") (simp_all add: num_str.simps [of 10 n] dec_value_append, simp add: dec_value_def)
qed

lemma isdigit_not_space: "vsf_sysutil_isdigit c \<Longrightarrow> \<not> vsf_sysutil_isspace c \<and> c \<noteq> CHR ''-'' \<and> c \<noteq> CHR ''+''"
  by (auto simp: vsf_sysutil_isdigit_def vsf_sysutil_isspace_def)

lemma atoi_num_str:
  assumes "n < 2147483648"
  shows "str_atoi (num_str 10 n) = int n"
proof -
  have digs: "\<forall>c\<in>set (num_str 10 n). vsf_sysutil_isdigit c" and ne: "num_str 10 n \<noteq> []"
    using num_str_digits [of 10 n] by (auto simp: list_all_iff)
  then have hd: "vsf_sysutil_isdigit (hd (num_str 10 n))" by simp
  have drop: "dropWhile vsf_sysutil_isspace (num_str 10 n) = num_str 10 n"
    using isdigit_not_space [OF hd] ne by (cases "num_str 10 n") auto
  have tak: "takeWhile vsf_sysutil_isdigit (num_str 10 n) = num_str 10 n"
    using digs by (simp add: takeWhile_eq_all_conv)
  show ?thesis
    using assms isdigit_not_space [OF hd]
    by (simp add: str_atoi_def vsf_sysutil_atoi_def drop tak dec_value_num_str to_int32_def Let_def)
qed

lemma num_str_no_sep: "2 \<le> b \<Longrightarrow> b \<le> 10 \<Longrightarrow> \<not> vsf_sysutil_isdigit c \<Longrightarrow> c \<notin> set (num_str b n)"
  using num_str_digits [of b n] by (auto simp: list_all_iff)

definition quad_str :: "nat \<Rightarrow> nat \<Rightarrow> nat \<Rightarrow> nat \<Rightarrow> char \<Rightarrow> string" where
  "quad_str a b c d sep = num_str 10 a @ sep # num_str 10 b @ sep # num_str 10 c @ sep # num_str 10 d"

lemma num_str_ne [simp]: "num_str b n \<noteq> []"
  by (simp add: num_str.simps [of b n])

lemma uchar_step:
  assumes "sep \<noteq> NUL" and "\<not> vsf_sysutil_isdigit sep" and "a < 256"
  shows "rest \<noteq> [] \<Longrightarrow> uchar_sep_loop (Suc (Suc n)) (num_str 10 a @ sep # rest) sep items =
           uchar_sep_loop (Suc n) rest sep (items @ [char_of a])"
    and "uchar_sep_loop (Suc 0) (num_str 10 a) sep items = Some (items @ [char_of a])"
  using assms num_str_no_sep [of 10 sep a] atoi_num_str [of a]
  by (simp_all add: str_split_char_hit str_split_char_miss)

text \<open>
  \<open>vsf_sysutil_parse_ipv4\<close> reads the four bytes of every dotted address as it is usually printed.
\<close>

theorem parse_ipv4_roundtrip:
  assumes "a < 256" and "b < 256" and "c < 256" and "d < 256"
  shows "vsf_sysutil_parse_ipv4 (quad_str a b c d CHR ''.'') = Some [char_of a, char_of b, char_of c, char_of d]"
  using assms uchar_step [of "CHR ''.''"]
  by (simp add: vsf_sysutil_parse_ipv4_def vsf_sysutil_parse_uchar_string_sep_def quad_str_def
      vsf_sysutil_isdigit_def numeral_eq_Suc)

lemma parse_ipv4_roundtrip_witness:
  "vsf_sysutil_parse_ipv4 (quad_str 192 168 0 1 CHR ''.'') = Some [char_of (192 :: nat), char_of (168 :: nat), char_of (0 :: nat), char_of (1 :: nat)]"
  by (rule parse_ipv4_roundtrip) simp_all

lemma uchar_sep_loop_length:
  "uchar_sep_loop n s sep items = Some r \<Longrightarrow> length r = length items + n"
  by (induction n arbitrary: s items) (auto simp: Let_def split: prod.splits if_splits)

lemma parse_uchar_length: "vsf_sysutil_parse_uchar_string_sep s sep n = Some r \<Longrightarrow> length r = n"
  using uchar_sep_loop_length [of n s sep "[]" r] by (simp add: vsf_sysutil_parse_uchar_string_sep_def)

section \<open>Hexadecimal\<close>

definition hex_char :: "nat \<Rightarrow> char" where
  "hex_char d = char_of (if d < 10 then 48 + d else 87 + d)"

function hex_str :: "nat \<Rightarrow> string" where
  "hex_str n = (if n < 16 then [hex_char n] else hex_str (n div 16) @ [hex_char (n mod 16)])"
  by pat_completeness auto
termination
  by (relation "measure id") auto

declare hex_str.simps [simp del]

lemma hex_char_code: "d < 16 \<Longrightarrow> code (hex_char d) = (if d < 10 then 48 + d else 87 + d)"
  by (simp add: hex_char_def)

lemma parse_hex_digit:
  assumes "d < 16"
  shows "parse_hex_loop (hex_char d # cs) v =
    (if v * 16 + d > 65535 then None else parse_hex_loop cs (v * 16 + d))"
  using assms hex_char_code [OF assms] by (simp add: vsf_sysutil_toupper_def Let_def)

lemma parse_hex_append:
  "parse_hex_loop (xs @ ys) v = (case parse_hex_loop xs v of None \<Rightarrow> None | Some w \<Rightarrow> parse_hex_loop ys w)"
  by (induction xs arbitrary: v) (auto simp: Let_def split: option.splits)

lemma parse_hex_str: "n < 65536 \<Longrightarrow> parse_hex_loop (hex_str n) 0 = Some n"
proof (induction n rule: less_induct)
  case (less n)
  have "n mod 16 < 16" by simp
  with less show ?case
    by (cases "n < 16") (simp_all add: hex_str.simps [of n] parse_hex_append parse_hex_digit del: parse_hex_loop.simps(2))
qed

lemma hex_str_chars: "hex_str n \<noteq> [] \<and> CHR '':'' \<notin> set (hex_str n) \<and> CHR ''.'' \<notin> set (hex_str n)"
proof (induction n rule: less_induct)
  case (less n)
  have ne: "hex_char d \<noteq> CHR '':'' \<and> hex_char d \<noteq> CHR ''.''" if "d < 16" for d
    using hex_char_code [OF that] by (auto split: if_splits)
  from less ne [of n] ne [of "n mod 16"] show ?case
    by (cases "n < 16") (auto simp: hex_str.simps [of n])
qed

section \<open>IPv6\<close>

fun join_groups :: "nat list \<Rightarrow> string" where
  "join_groups [] = []"
| "join_groups [g] = hex_str g"
| "join_groups (g # h # gs) = hex_str g @ CHR '':'' # join_groups (h # gs)"

definition group_bytes :: "nat list \<Rightarrow> string" where
  "group_bytes gs = concat (map (\<lambda>g. [char_of (g div 256), char_of (g mod 256)]) gs)"

lemma length_group_bytes [simp]: "length (group_bytes gs) = 2 * length gs"
  by (induction gs) (auto simp: group_bytes_def)

lemma locate_char_none: "c \<noteq> NUL \<Longrightarrow> c \<notin> set s \<Longrightarrow> \<not> found (str_locate_char s c)"
  using str_locate_text_cases [of "[c]" s]
  by (metis c_str_id empty_iff empty_set found_locate(3) hd_in_set in_set_dropD list.distinct(1) prefix_single
      set_ConsD str_locate_char_def)

lemma parse_main_group:
  assumes "g < 65536"
  shows "ipv6_parse_main out (hex_str g) = Some (out @ [char_of (g div 256), char_of (g mod 256)])"
    and "ipv6_parse_main out (hex_str g @ CHR '':'' # rest) =
           ipv6_parse_main (out @ [char_of (g div 256), char_of (g mod 256)]) rest"
proof -
  note g = hex_str_chars [of g] parse_hex_str [OF assms] locate_char_none [of "CHR ''.''" "hex_str g"]
  show "ipv6_parse_main out (hex_str g) = Some (out @ [char_of (g div 256), char_of (g mod 256)])"
    using g by (simp add: ipv6_parse_main.simps [of out "hex_str g"] str_split_char_miss ipv6_parse_hex_def
        ipv6_parse_main.simps [of _ "[]"])
  show "ipv6_parse_main out (hex_str g @ CHR '':'' # rest) =
           ipv6_parse_main (out @ [char_of (g div 256), char_of (g mod 256)]) rest"
    using g by (simp add: ipv6_parse_main.simps [of out "hex_str g @ CHR '':'' # rest"] str_split_char_hit
        ipv6_parse_hex_def)
qed

lemma parse_main_groups:
  "list_all (\<lambda>g. g < 65536) gs \<Longrightarrow> ipv6_parse_main out (join_groups gs) = Some (out @ group_bytes gs)"
  by (induction gs arbitrary: out rule: join_groups.induct)
    (simp_all add: parse_main_group ipv6_parse_main.simps [of _ "[]"] group_bytes_def)

lemma join_groups_hd: "gs \<noteq> [] \<Longrightarrow> join_groups gs \<noteq> [] \<and> hd (join_groups gs) \<noteq> CHR '':''"
  using hex_str_chars by (cases gs rule: join_groups.cases) (auto simp: hd_append, (metis hd_in_set)+)

lemma no_colon_at:
  assumes "j < length l" and "CHR '':'' \<notin> set l"
  shows "\<not> prefix ''::'' (drop j (l @ rest))"
proof -
  have "drop j (l @ rest) = l ! j # drop (Suc j) l @ rest" using assms(1) by (simp add: Cons_nth_drop_Suc)
  with assms show ?thesis by (auto dest: nth_mem)
qed

lemma no_double_colon:
  "j < length (join_groups gs) \<Longrightarrow> \<not> prefix ''::'' (drop j (join_groups gs @ rest))"
proof (induction gs arbitrary: j rule: join_groups.induct)
  case (2 g)
  with hex_str_chars [of g] show ?case by (simp only: join_groups.simps no_colon_at simp_thms)
next
  case (3 g h gs)
  let ?L = "join_groups (h # gs)"
  consider "j < length (hex_str g)" | "j = length (hex_str g)" | k where "j = Suc (length (hex_str g) + k)"
    by (metis add_Suc_right less_imp_Suc_add linorder_neqE_nat)
  then show ?case
  proof cases
    case 1
    with hex_str_chars [of g] no_colon_at [of j "hex_str g" "CHR '':'' # ?L @ rest"] show ?thesis by simp
  next
    case 2
    with join_groups_hd [of "h # gs"] show ?thesis by (cases ?L) auto
  next
    case (3 k)
    with "3.prems" "3.IH" [of k] show ?thesis by simp
  qed
qed simp

text \<open>
  \<open>vsf_sysutil_parse_ipv6\<close> expands every address with a double colon that has at least one group behind
  it: the groups before, zero bytes, the groups behind, sixteen bytes in all.
\<close>

theorem parse_ipv6_compressed:
  assumes "list_all (\<lambda>g. g < 65536) gs" and "list_all (\<lambda>g. g < 65536) hs" and "hs \<noteq> []"
    and "length gs + length hs \<le> 8"
  shows "vsf_sysutil_parse_ipv6 (join_groups gs @ ''::'' @ join_groups hs) =
    Some (group_bytes gs @ replicate (16 - 2 * (length gs + length hs)) NUL @ group_bytes hs)"
proof -
  have "str_split_text (join_groups gs @ ''::'' @ join_groups hs) ''::'' = (join_groups gs, join_groups hs)"
    using str_split_text_first [of "''::''" "join_groups gs" "join_groups hs"] no_double_colon [of _ gs] by simp
  with assms show ?thesis
    by (simp add: vsf_sysutil_parse_ipv6_def parse_main_groups Let_def)
qed

lemma parse_ipv6_compressed_witness:
  "vsf_sysutil_parse_ipv6 (join_groups [0xFE80] @ ''::'' @ join_groups [1]) =
    Some (group_bytes [0xFE80] @ replicate (16 - 2 * (length [0xFE80 :: nat] + length [1 :: nat])) NUL @ group_bytes [1])"
  by (rule parse_ipv6_compressed) simp_all

lemma parse_hex_len: "ipv6_parse_hex out s = Some r \<Longrightarrow> length r = length out + 2"
  by (auto simp: ipv6_parse_hex_def split: option.splits)

lemma parse_dotquad_len: "ipv4_parse_dotquad out s = Some r \<Longrightarrow> length r = length out + 4"
  by (auto simp: ipv4_parse_dotquad_def Let_def split: option.splits if_splits)

text \<open>
  Of an address that ends in the double colon \<open>vsf_sysutil_parse_ipv6\<close> returns the bytes of the groups before it only, so
  that \<open>vsf_sysutil_sockaddr_set_ipv6addr\<close>, which copies sixteen, reads past them.
\<close>

theorem parse_ipv6_trailing_colons:
  assumes "list_all (\<lambda>g. g < 65536) gs" and "length gs < 8"
  shows "vsf_sysutil_parse_ipv6 (join_groups gs @ ''::'') = Some (group_bytes gs) \<and>
         vsf_sysutil_sockaddr_set_ipv6addr vsf_sysutil_sockaddr_alloc_ipv6 (group_bytes gs) = Inl Undef"
proof -
  have "str_split_text (join_groups gs @ ''::'') ''::'' = (join_groups gs, [])"
    using str_split_text_first [of "''::''" "join_groups gs" "[]"] no_double_colon [of _ gs] by simp
  with assms show ?thesis
    by (simp add: vsf_sysutil_parse_ipv6_def parse_main_groups Let_def ipv6_parse_main.simps [of _ "[]"]
        vsf_sysutil_sockaddr_set_ipv6addr_def vsf_sysutil_sockaddr_alloc_ipv6_def raw_bytes_def)
qed

lemma parse_ipv6_trailing_colons_witness:
  "vsf_sysutil_parse_ipv6 (join_groups [1] @ ''::'') = Some (group_bytes [1]) \<and>
   vsf_sysutil_sockaddr_set_ipv6addr vsf_sysutil_sockaddr_alloc_ipv6 (group_bytes [1]) = Inl Undef"
  by (rule parse_ipv6_trailing_colons) simp_all

end
