(* ===== verification/Standalone.thy ===== *)
theory Standalone
  imports Hash Ipaddrparse
begin

text \<open>
  \<^verbatim>\<open>standalone.c\<close>: the listener. It counts its children, in all and per client address, in two hash tables;
  the counts are handed to each new session, which enforces the limits. The listener's loop is a
  step relation over the state; \<open>fork\<close>, \<open>accept\<close> and \<open>wait\<close> are the labels of its steps.
\<close>

section \<open>State and operations\<close>

record standalone_state =
  s_children :: nat
  s_p_ip_count_hash :: "(string, nat) hash"
  s_p_pid_ip_hash :: "(nat, string) hash"

record vsf_client_launch =
  num_children :: nat
  num_this_ip :: nat

abbreviation s_ipaddr_size :: nat where "s_ipaddr_size \<equiv> 16"

primrec hash_ip_loop :: "string \<Rightarrow> 32 word \<Rightarrow> nat \<Rightarrow> 32 word" where
  "hash_ip_loop [] val shift = val"
| "hash_ip_loop (b # bs) val shift =
     hash_ip_loop bs (val XOR push_bit shift (of_nat (code b))) (if shift < 8 then 24 else shift - 8)"

definition hash_ip :: "nat \<Rightarrow> string \<Rightarrow> nat" where
  "hash_ip n key = unat (hash_ip_loop (take s_ipaddr_size key) 0 24) mod n"

definition hash_pid :: "nat \<Rightarrow> nat \<Rightarrow> nat" where
  "hash_pid n key = key mod n"

definition standalone_init :: standalone_state where
  "standalone_init =
     \<lparr>s_children = 0, s_p_ip_count_hash = hash_alloc 256 hash_ip, s_p_pid_ip_hash = hash_alloc 256 hash_pid\<rparr>"

definition handle_ip_count :: "standalone_state \<Rightarrow> string \<Rightarrow> (nat \<times> standalone_state) result" where
  "handle_ip_count st p_ipaddr =
     andthen (hash_lookup_entry (s_p_ip_count_hash st) p_ipaddr) (\<lambda>p_count.
     case p_count of
       None \<Rightarrow> andthen (hash_add_entry (s_p_ip_count_hash st) p_ipaddr 1) (\<lambda>H.
         Inr (1, st\<lparr>s_p_ip_count_hash := H\<rparr>))
     | Some c \<Rightarrow> let count = u32 (c + 1) in
         andthen (hash_write_value (s_p_ip_count_hash st) p_ipaddr count) (\<lambda>H.
         Inr (count, st\<lparr>s_p_ip_count_hash := H\<rparr>)))"

definition drop_ip_count :: "standalone_state \<Rightarrow> string \<Rightarrow> standalone_state result" where
  "drop_ip_count st p_raw_addr =
     andthen (hash_lookup_entry (s_p_ip_count_hash st) p_raw_addr) (\<lambda>p_count.
     case p_count of
       None \<Rightarrow> bug ''IP address missing from hash''
     | Some count \<Rightarrow>
         if count = 0 then bug ''zero count for IP address''
         else andthen (hash_write_value (s_p_ip_count_hash st) p_raw_addr (count - 1)) (\<lambda>H.
              andthen (if count - 1 = 0 then hash_free_entry H p_raw_addr else Inr H) (\<lambda>H'.
              Inr (st\<lparr>s_p_ip_count_hash := H'\<rparr>))))"

text \<open>
  \<open>handle_sigchld\<close>, for the pids that \<open>vsf_sysutil_wait_reap_one\<close> returns before it returns 0. A pid that
  is not in the table gives \<open>drop_ip_count\<close> a null pointer, which its hash function reads.
\<close>

primrec handle_sigchld :: "standalone_state \<Rightarrow> nat list \<Rightarrow> standalone_state result" where
  "handle_sigchld st [] = Inr st"
| "handle_sigchld st (reap_one # more_pids) =
     (let st1 = st\<lparr>s_children := u32 (s_children st + 4294967295)\<rparr> in
      andthen (hash_lookup_entry (s_p_pid_ip_hash st1) reap_one) (\<lambda>p_ip.
      case p_ip of
        None \<Rightarrow> Inl Undef
      | Some ip \<Rightarrow>
          andthen (drop_ip_count st1 ip) (\<lambda>st2.
          andthen (hash_free_entry (s_p_pid_ip_hash st2) reap_one) (\<lambda>H.
          handle_sigchld (st2\<lparr>s_p_pid_ip_hash := H\<rparr>) more_pids))))"

text \<open>
  One turn of the loop of \<open>vsf_standalone_main\<close> after \<open>accept\<close> succeeded, for the client address
  \<open>p_raw_addr\<close> and the result \<open>new_child\<close> of the fork (negative when it failed, 0 in the child). In the parent the client's socket is closed
  next: when \<open>close\<close> is interrupted, \<open>vsf_sysutil_close\<close> handles the signals that are pending, and \<open>reaped\<close> are the pids that
  \<open>handle_sigchld\<close> gets then, before the new child is entered in the table.
\<close>

definition standalone_client ::
  "standalone_state \<Rightarrow> string \<Rightarrow> int \<Rightarrow> nat list \<Rightarrow> (vsf_client_launch \<times> standalone_state) result" where
  "standalone_client st p_raw_addr new_child reaped =
     (let st1 = st\<lparr>s_children := u32 (s_children st + 1)\<rparr> in
      andthen (handle_ip_count st1 p_raw_addr) (\<lambda>(this_ip, st2).
      let child_info = \<lparr>num_children = s_children st1, num_this_ip = this_ip\<rparr> in
      if new_child \<noteq> 0
      then andthen (handle_sigchld st2 reaped) (\<lambda>st3.
           if new_child > 0
           then andthen (hash_add_entry (s_p_pid_ip_hash st3) (nat new_child) p_raw_addr) (\<lambda>H.
                Inr (child_info, st3\<lparr>s_p_pid_ip_hash := H\<rparr>))
           else andthen (drop_ip_count (st3\<lparr>s_children := u32 (s_children st3 + 4294967295)\<rparr>) p_raw_addr) (\<lambda>st4.
                Inr (child_info, st4)))
      else Inr (child_info, st2)))"

text \<open>Descriptors of the child: \<open>fds\<close> maps the open ones to what they refer to.\<close>

definition vsf_sysutil_dupfd2 :: "(nat \<Rightarrow> 'f option) \<Rightarrow> nat \<Rightarrow> nat \<Rightarrow> (nat \<Rightarrow> 'f option)" where
  "vsf_sysutil_dupfd2 fds old_fd new_fd = (if old_fd = new_fd then fds else fds(new_fd := fds old_fd))"

definition prepare_child :: "(nat \<Rightarrow> 'f option) \<Rightarrow> nat \<Rightarrow> (nat \<Rightarrow> 'f option)" where
  "prepare_child fds new_client_sock =
     (let fds = vsf_sysutil_dupfd2 fds new_client_sock 0;
          fds = vsf_sysutil_dupfd2 fds new_client_sock 1;
          fds = vsf_sysutil_dupfd2 fds new_client_sock 2
      in if new_client_sock > 2 then fds(new_client_sock := None) else fds)"

text \<open>
  The address the listener binds. \<open>inet_aton\<close> and \<open>if_nametoindex\<close> are the C library's; the arguments are the
  tunables \<open>listen\<close>, \<open>listen_ipv6\<close>, \<open>listen_port\<close>, \<open>listen_address\<close> and \<open>listen_address6\<close>.
\<close>

definition standalone_listen_addr ::
  "(string \<Rightarrow> string option) \<Rightarrow> (string \<Rightarrow> int) \<Rightarrow> bool \<Rightarrow> bool \<Rightarrow> nat \<Rightarrow> string option \<Rightarrow> string option \<Rightarrow>
   sockaddr result" where
  "standalone_listen_addr inet_aton if_nametoindex listen listen_ipv6 listen_port listen_address listen_address6 =
     (if listen \<and> listen_ipv6 then die ''run two copies of vsftpd for IPv4 and IPv6''
      else if listen
      then andthen (vsf_sysutil_sockaddr_set_port vsf_sysutil_sockaddr_alloc_ipv4 (listen_port mod 65536)) (\<lambda>p.
           case listen_address of
             None \<Rightarrow> vsf_sysutil_sockaddr_set_any p
           | Some t \<Rightarrow> (case inet_aton t of
               None \<Rightarrow> die2 ''bad listen_address: '' t
             | Some a \<Rightarrow> Inr (p\<lparr>sin_addr := a\<rparr>)))
      else andthen (vsf_sysutil_sockaddr_set_port vsf_sysutil_sockaddr_alloc_ipv6 (listen_port mod 65536)) (\<lambda>p.
           case listen_address6 of
             None \<Rightarrow> vsf_sysutil_sockaddr_set_any p
           | Some t \<Rightarrow>
               let (addr_str, scope_id) = str_split_char t CHR ''%'';
                   if_index = (if length scope_id > 0 then if_nametoindex scope_id else 0)
               in case vsf_sysutil_parse_ipv6 addr_str of
                    None \<Rightarrow> die2 ''bad listen_address6: '' t
                  | Some p_raw_addr \<Rightarrow>
                      andthen (vsf_sysutil_sockaddr_set_ipv6addr p p_raw_addr) (\<lambda>q.
                      Inr (q\<lparr>sin6_scope_id := if_index\<rparr>))))"

section \<open>What the counts mean\<close>

text \<open>\<open>kids st\<close> maps the pid of each child not yet reaped to the address it serves.\<close>

definition kids :: "standalone_state \<Rightarrow> nat \<Rightarrow> string option" where
  "kids st = hash_abs (s_p_pid_ip_hash st)"

definition kids_from :: "(nat \<Rightarrow> string option) \<Rightarrow> string \<Rightarrow> nat" where
  "kids_from k ip = card {p. k p = Some ip}"

definition counts_ok :: "(string \<Rightarrow> nat option) \<Rightarrow> (nat \<Rightarrow> string option) \<Rightarrow> bool" where
  "counts_ok c k \<longleftrightarrow> (\<forall>ip. c ip = (if kids_from k ip = 0 then None else Some (kids_from k ip)))"

definition standalone_inv :: "standalone_state \<Rightarrow> bool" where
  "standalone_inv st \<longleftrightarrow>
     hash_inv (s_p_ip_count_hash st) \<and> hash_inv (s_p_pid_ip_hash st) \<and>
     finite (dom (kids st)) \<and> s_children st = card (dom (kids st)) \<and> s_children st < 4294967296 \<and>
     counts_ok (hash_abs (s_p_ip_count_hash st)) (kids st)"

text \<open>
  Between the fork of a child and its entry in the table it is counted already: \<open>inv_with (Some ip)\<close>, for a child that serves \<open>ip\<close>.
\<close>

definition counts_with :: "string option \<Rightarrow> (string \<Rightarrow> nat option) \<Rightarrow> (nat \<Rightarrow> string option) \<Rightarrow> bool" where
  "counts_with x c k \<longleftrightarrow>
     (\<forall>ip. c ip = (let n = kids_from k ip + (if x = Some ip then 1 else 0) in if n = 0 then None else Some n))"

definition inv_with :: "string option \<Rightarrow> standalone_state \<Rightarrow> bool" where
  "inv_with x st \<longleftrightarrow>
     hash_inv (s_p_ip_count_hash st) \<and> hash_inv (s_p_pid_ip_hash st) \<and>
     finite (dom (kids st)) \<and> s_children st = card (dom (kids st)) + (if x = None then 0 else 1) \<and> s_children st < 4294967296 \<and>
     counts_with x (hash_abs (s_p_ip_count_hash st)) (kids st)"

lemma inv_with_None: "inv_with None st = standalone_inv st"
  by (simp add: inv_with_def standalone_inv_def counts_with_def counts_ok_def Let_def)

lemma hash_ip_lt: "hash_ip 256 k < 256"
  by (simp add: hash_ip_def)

lemma hash_pid_lt: "hash_pid 256 k < 256"
  by (simp add: hash_pid_def)

lemma standalone_init_inv: "standalone_inv standalone_init" "kids standalone_init = Map.empty"
proof -
  have ips: "hash_inv (hash_alloc 256 hash_ip :: (string, nat) hash)"
      "hash_abs (hash_alloc 256 hash_ip :: (string, nat) hash) = Map.empty"
    by (rule hash_alloc_inv, rule hash_ip_lt)+
  have pids: "hash_inv (hash_alloc 256 hash_pid :: (nat, string) hash)"
      "hash_abs (hash_alloc 256 hash_pid :: (nat, string) hash) = Map.empty"
    by (rule hash_alloc_inv, rule hash_pid_lt)+
  show "standalone_inv standalone_init" "kids standalone_init = Map.empty"
    by (simp_all add: standalone_inv_def standalone_init_def kids_def counts_ok_def kids_from_def ips pids)
qed

lemma kids_from_le: "finite (dom k) \<Longrightarrow> kids_from k ip \<le> card (dom k)"
  unfolding kids_from_def by (rule card_mono) auto

lemma finite_kids: "finite (dom k) \<Longrightarrow> finite {p. k p = Some ip}"
  by (rule finite_subset [of _ "dom k"]) auto

lemma kids_from_add:
  assumes "finite (dom k)" and "k p = None"
  shows "kids_from (k(p \<mapsto> ip)) j = (if j = ip then Suc (kids_from k ip) else kids_from k j)"
proof -
  have "{q. (k(p \<mapsto> ip)) q = Some j} = (if j = ip then insert p {q. k q = Some ip} else {q. k q = Some j})"
    using assms(2) by auto
  then show ?thesis using assms by (simp add: kids_from_def finite_kids)
qed

lemma kids_from_remove:
  assumes "finite (dom k)" and "k p = Some ip"
  shows "kids_from (k(p := None)) j = (if j = ip then kids_from k ip - 1 else kids_from k j)"
    and "0 < kids_from k ip"
proof -
  have "{q. (k(p := None)) q = Some j} = (if j = ip then {q. k q = Some ip} - {p} else {q. k q = Some j})"
    using assms(2) by auto
  then show "kids_from (k(p := None)) j = (if j = ip then kids_from k ip - 1 else kids_from k j)"
    using assms by (simp add: kids_from_def)
  show "0 < kids_from k ip"
    using assms finite_kids [OF assms(1), of ip] by (auto simp: kids_from_def card_gt_0_iff)
qed

lemma counts_remove:
  assumes "finite (dom k)" and "k p = Some ip" and "counts_with x c k"
  shows "\<exists>n. c ip = Some (Suc n) \<and> counts_with x (c(ip := (if n = 0 then None else Some n))) (k(p := None))"
proof -
  obtain m where m: "kids_from k ip = Suc m" using kids_from_remove(2) [OF assms(1,2)] gr0_implies_Suc by blast
  show ?thesis
    using assms m
    by (intro exI [of _ "m + (if x = Some ip then 1 else 0)"]) (auto simp: counts_with_def kids_from_remove Let_def)
qed

section \<open>The operations on the counts\<close>

lemma u32_pred: "0 < n \<Longrightarrow> n < 4294967296 \<Longrightarrow> u32 (n + 4294967295) = n - 1"
  by (simp add: u32_def mod_if)

lemma handle_ip_count_ok:
  assumes "hash_inv (s_p_ip_count_hash st)" and "counts_ok (hash_abs (s_p_ip_count_hash st)) k"
    and "kids_from k ip < 4294967295"
  shows "\<exists>H. handle_ip_count st ip = Inr (Suc (kids_from k ip), st\<lparr>s_p_ip_count_hash := H\<rparr>) \<and> hash_inv H \<and>
           hash_abs H = (hash_abs (s_p_ip_count_hash st))(ip \<mapsto> Suc (kids_from k ip))"
proof (cases "kids_from k ip = 0")
  case True
  with assms(2) have none: "hash_abs (s_p_ip_count_hash st) ip = None" by (simp add: counts_ok_def)
  with True ht.add_law [OF assms(1) none, of 1] show ?thesis
    by (auto simp: handle_ip_count_def ht.lookup_law [OF assms(1)])
next
  case False
  with assms(2) have some: "hash_abs (s_p_ip_count_hash st) ip = Some (kids_from k ip)" by (simp add: counts_ok_def)
  with assms(3) ht.write_law [OF assms(1), of ip "Suc (kids_from k ip)"] show ?thesis
    by (auto simp: handle_ip_count_def ht.lookup_law [OF assms(1)] Let_def)
qed

lemma drop_ip_count_ok:
  assumes "hash_inv (s_p_ip_count_hash st)" and "hash_abs (s_p_ip_count_hash st) ip = Some (Suc n)"
  shows "\<exists>H. drop_ip_count st ip = Inr (st\<lparr>s_p_ip_count_hash := H\<rparr>) \<and> hash_inv H \<and>
           hash_abs H = (hash_abs (s_p_ip_count_hash st))(ip := (if n = 0 then None else Some n))"
proof -
  obtain H1 where H1: "hash_write_value (s_p_ip_count_hash st) ip n = Inr H1" "hash_inv H1"
      "hash_abs H1 = (hash_abs (s_p_ip_count_hash st))(ip \<mapsto> n)"
    using ht.write_law [OF assms(1), of ip n] assms(2) by auto
  show ?thesis
  proof (cases "n = 0")
    case True
    with H1 ht.free_law [OF H1(2), of ip] assms(2) show ?thesis
      by (auto simp: drop_ip_count_def ht.lookup_law [OF assms(1)])
  next
    case False
    with H1 assms(2) show ?thesis by (auto simp: drop_ip_count_def ht.lookup_law [OF assms(1)])
  qed
qed

lemma sigchld_one:
  assumes "inv_with x st" and "kids st pid = Some ip"
  shows "\<exists>st'. handle_sigchld st (pid # ps) = handle_sigchld st' ps \<and> inv_with x st' \<and>
           kids st' = (kids st)(pid := None)"
proof -
  have inv: "hash_inv (s_p_ip_count_hash st)" "hash_inv (s_p_pid_ip_hash st)" "finite (dom (kids st))"
    "s_children st = card (dom (kids st)) + (if x = None then 0 else 1)" "counts_with x (hash_abs (s_p_ip_count_hash st)) (kids st)"
    "s_children st < 4294967296"
    using assms(1) by (simp_all add: inv_with_def)
  have some: "0 < card (dom (kids st))" using inv(3) assms(2) by (auto simp: card_gt_0_iff)
  then have pos: "0 < s_children st" using inv(4) by simp
  obtain n where n: "hash_abs (s_p_ip_count_hash st) ip = Some (Suc n)"
      "counts_with x ((hash_abs (s_p_ip_count_hash st))(ip := (if n = 0 then None else Some n))) ((kids st)(pid := None))"
    using counts_remove [OF inv(3) assms(2) inv(5)] by blast
  let ?st1 = "st\<lparr>s_children := s_children st - 1\<rparr>"
  obtain H where H: "drop_ip_count ?st1 ip = Inr (?st1\<lparr>s_p_ip_count_hash := H\<rparr>)" "hash_inv H"
      "hash_abs H = (hash_abs (s_p_ip_count_hash st))(ip := (if n = 0 then None else Some n))"
    using drop_ip_count_ok [of ?st1 ip n] inv(1) n(1) by auto
  obtain P where P: "hash_free_entry (s_p_pid_ip_hash st) pid = Inr P" "hash_inv P" "hash_abs P = (kids st)(pid := None)"
    using ht.free_law [OF inv(2), of pid] assms(2) by (auto simp: kids_def)
  define st' where "st' = ?st1\<lparr>s_p_ip_count_hash := H, s_p_pid_ip_hash := P\<rparr>"
  have st': "kids st' = (kids st)(pid := None)" "s_p_ip_count_hash st' = H" "s_p_pid_ip_hash st' = P"
      "s_children st' = s_children st - 1"
    using P(3) by (simp_all add: st'_def kids_def)
  have look: "hash_lookup_entry (s_p_pid_ip_hash st) pid = Inr (Some ip)"
    using ht.lookup_law [OF inv(2), of pid] assms(2) by (simp add: kids_def)
  have run: "handle_sigchld st (pid # ps) = handle_sigchld st' ps"
    using look H(1) P(1) u32_pred [OF pos inv(6)] by (simp add: Let_def st'_def)
  have "dom ((kids st)(pid := None)) = dom (kids st) - {pid}" "pid \<in> dom (kids st)" using assms(2) by auto
  then have "card (dom ((kids st)(pid := None))) = card (dom (kids st)) - 1" using inv(3) by simp
  then have "inv_with x st'"
    using inv(3,4,6) some H(2) P(2) n(2) unfolding inv_with_def st' H(3) by simp
  with run st'(1) show ?thesis by blast
qed

text \<open>Children without those that were reaped.\<close>

definition gone :: "nat list \<Rightarrow> (nat \<Rightarrow> string option) \<Rightarrow> nat \<Rightarrow> string option" where
  "gone pids k = (\<lambda>p. if p \<in> set pids then None else k p)"

lemma sigchld_keeps:
  assumes "inv_with x st" and "distinct pids" and "set pids \<subseteq> dom (kids st)"
  shows "\<exists>st'. handle_sigchld st pids = Inr st' \<and> inv_with x st' \<and> kids st' = gone pids (kids st)"
  using assms
proof (induction pids arbitrary: st)
  case Nil
  then show ?case by (simp add: gone_def)
next
  case (Cons pid ps)
  then obtain ip where "kids st pid = Some ip" by auto
  then obtain st1 where st1: "handle_sigchld st (pid # ps) = handle_sigchld st1 ps" "inv_with x st1"
      "kids st1 = (kids st)(pid := None)"
    using sigchld_one [OF Cons.prems(1)] by blast
  moreover have "set ps \<subseteq> dom (kids st1)" using Cons.prems st1(3) by auto
  ultimately show ?case using Cons.IH [of st1] Cons.prems(2) by (force simp: fun_eq_iff gone_def)
qed

lemma sigchld_ok:
  assumes "standalone_inv st" and "distinct pids" and "set pids \<subseteq> dom (kids st)"
  shows "\<exists>st'. handle_sigchld st pids = Inr st' \<and> standalone_inv st' \<and> kids st' = gone pids (kids st)"
  using sigchld_keeps [of None st pids] assms by (simp add: inv_with_None)

text \<open>A new client: counted, then entered in the table or, when the fork failed, taken back.\<close>

lemma counted:
  assumes "standalone_inv st" and "s_children st < 4294967295"
  shows "\<exists>st'. handle_ip_count (st\<lparr>s_children := u32 (s_children st + 1)\<rparr>) ip = Inr (Suc (kids_from (kids st) ip), st') \<and>
    inv_with (Some ip) st' \<and> kids st' = kids st"
proof -
  let ?st1 = "st\<lparr>s_children := Suc (s_children st)\<rparr>" and ?n = "kids_from (kids st) ip"
  have inv: "hash_inv (s_p_ip_count_hash st)" "hash_inv (s_p_pid_ip_hash st)" "finite (dom (kids st))"
    "s_children st = card (dom (kids st))" "counts_ok (hash_abs (s_p_ip_count_hash st)) (kids st)"
    using assms(1) by (simp_all add: standalone_inv_def)
  have small: "?n < 4294967295" using kids_from_le [OF inv(3), of ip] inv(4) assms(2) by simp
  obtain H where H: "handle_ip_count ?st1 ip = Inr (Suc ?n, ?st1\<lparr>s_p_ip_count_hash := H\<rparr>)" "hash_inv H"
      "hash_abs H = (hash_abs (s_p_ip_count_hash st))(ip \<mapsto> Suc ?n)"
    using handle_ip_count_ok [of ?st1 "kids st" ip] inv small by auto
  define st2 where "st2 = ?st1\<lparr>s_p_ip_count_hash := H\<rparr>"
  have st2: "kids st2 = kids st" "s_p_ip_count_hash st2 = H" "s_p_pid_ip_hash st2 = s_p_pid_ip_hash st"
      "s_children st2 = Suc (s_children st)"
    by (simp_all add: st2_def kids_def)
  have "counts_with (Some ip) (hash_abs H) (kids st)" using inv(5) by (auto simp: H(3) counts_with_def counts_ok_def Let_def)
  then have "inv_with (Some ip) st2" using inv H(2) assms(2) unfolding inv_with_def st2 by simp
  moreover have "u32 (s_children st + 1) = Suc (s_children st)" using assms(2) by simp
  ultimately show ?thesis using H(1) st2(1) by (auto simp: st2_def)
qed

lemma entered:
  assumes "inv_with (Some ip) st" and "kids st pid = None"
  shows "\<exists>H. hash_add_entry (s_p_pid_ip_hash st) pid ip = Inr H \<and> standalone_inv (st\<lparr>s_p_pid_ip_hash := H\<rparr>) \<and>
    kids (st\<lparr>s_p_pid_ip_hash := H\<rparr>) = (kids st)(pid \<mapsto> ip)"
proof -
  have inv: "hash_inv (s_p_ip_count_hash st)" "hash_inv (s_p_pid_ip_hash st)" "finite (dom (kids st))"
    "s_children st = Suc (card (dom (kids st)))" "counts_with (Some ip) (hash_abs (s_p_ip_count_hash st)) (kids st)"
    "s_children st < 4294967296"
    using assms(1) by (simp_all add: inv_with_def)
  obtain P where P: "hash_add_entry (s_p_pid_ip_hash st) pid ip = Inr P" "hash_inv P" "hash_abs P = (kids st)(pid \<mapsto> ip)"
    using ht.add_law [OF inv(2), of pid ip] assms(2) by (auto simp: kids_def)
  define st3 where "st3 = st\<lparr>s_p_pid_ip_hash := P\<rparr>"
  have st3: "kids st3 = (kids st)(pid \<mapsto> ip)" "s_p_ip_count_hash st3 = s_p_ip_count_hash st" "s_p_pid_ip_hash st3 = P"
      "s_children st3 = s_children st"
    using P(3) by (simp_all add: st3_def kids_def)
  have "card (dom ((kids st)(pid \<mapsto> ip))) = Suc (card (dom (kids st)))" using inv(3) assms(2) by (simp add: domIff)
  moreover have "counts_ok (hash_abs (s_p_ip_count_hash st)) ((kids st)(pid \<mapsto> ip))"
    using inv(5) by (auto simp: counts_with_def counts_ok_def kids_from_add [of _ _ ip, OF inv(3) assms(2)] Let_def)
  ultimately have "standalone_inv st3" using inv P(2) unfolding standalone_inv_def st3 by simp
  with P(1) st3(1) show ?thesis by (auto simp: st3_def)
qed

lemma taken_back:
  assumes "inv_with (Some ip) st"
  shows "\<exists>st'. drop_ip_count (st\<lparr>s_children := u32 (s_children st + 4294967295)\<rparr>) ip = Inr st' \<and> standalone_inv st' \<and> kids st' = kids st"
proof -
  let ?n = "kids_from (kids st) ip" and ?st1 = "st\<lparr>s_children := s_children st - 1\<rparr>"
  have inv: "hash_inv (s_p_ip_count_hash st)" "hash_inv (s_p_pid_ip_hash st)" "finite (dom (kids st))"
    "s_children st = Suc (card (dom (kids st)))" "counts_with (Some ip) (hash_abs (s_p_ip_count_hash st)) (kids st)"
    "s_children st < 4294967296"
    using assms(1) by (simp_all add: inv_with_def)
  have "hash_abs (s_p_ip_count_hash st) ip = Some (Suc ?n)" using inv(5) by (simp add: counts_with_def Let_def)
  then obtain H where H: "drop_ip_count ?st1 ip = Inr (?st1\<lparr>s_p_ip_count_hash := H\<rparr>)" "hash_inv H"
      "hash_abs H = (hash_abs (s_p_ip_count_hash st))(ip := (if ?n = 0 then None else Some ?n))"
    using drop_ip_count_ok [of ?st1 ip ?n] inv(1) by auto
  define st2 where "st2 = ?st1\<lparr>s_p_ip_count_hash := H\<rparr>"
  have st2: "kids st2 = kids st" "s_p_ip_count_hash st2 = H" "s_p_pid_ip_hash st2 = s_p_pid_ip_hash st"
      "s_children st2 = card (dom (kids st))"
    using inv(4) by (simp_all add: st2_def kids_def)
  have "counts_ok (hash_abs H) (kids st)" using inv(5) by (auto simp: H(3) counts_with_def counts_ok_def Let_def)
  then have "standalone_inv st2" using inv H(2) unfolding standalone_inv_def st2 by simp
  moreover have "u32 (s_children st + 4294967295) = s_children st - 1" using u32_pred [of "s_children st"] inv(4,6) by simp
  ultimately show ?thesis using H(1) st2(1) by (auto simp: st2_def)
qed

lemma client_ok:
  assumes "standalone_inv st" and "new_child \<noteq> 0" and "s_children st < 4294967295"
    and "0 < new_child \<Longrightarrow> kids st (nat new_child) = None" and "distinct reaped" and "set reaped \<subseteq> dom (kids st)"
  shows "\<exists>st'. standalone_client st ip new_child reaped =
           Inr (\<lparr>num_children = card (dom (kids st)) + 1, num_this_ip = kids_from (kids st) ip + 1\<rparr>, st') \<and>
         standalone_inv st' \<and>
         kids st' = (if 0 < new_child then (gone reaped (kids st))(nat new_child \<mapsto> ip) else gone reaped (kids st))"
proof -
  obtain st2 where st2: "handle_ip_count (st\<lparr>s_children := u32 (s_children st + 1)\<rparr>) ip = Inr (Suc (kids_from (kids st) ip), st2)"
      "inv_with (Some ip) st2" "kids st2 = kids st"
    using counted [OF assms(1,3)] by blast
  obtain st3 where st3: "handle_sigchld st2 reaped = Inr st3" "inv_with (Some ip) st3" "kids st3 = gone reaped (kids st)"
    using sigchld_keeps [OF st2(2) assms(5)] assms(6) st2(3) by auto
  have n: "u32 (s_children st + 1) = card (dom (kids st)) + 1" using assms(1,3) by (simp add: standalone_inv_def)
  show ?thesis
  proof (cases "0 < new_child")
    case True
    then have "kids st3 (nat new_child) = None" using assms(4) st3(3) by (simp add: gone_def)
    from entered [OF st3(2) this] show ?thesis using True st2(1) st3(1,3) n by (auto simp: standalone_client_def Let_def)
  next
    case False
    then show ?thesis using taken_back [OF st3(2)] assms(2) st2(1) st3(1,3) n by (auto simp: standalone_client_def Let_def)
  qed
qed

text \<open>
  A child that ends, and is reaped, while its parent closes the client's socket is not in the table yet: \<open>drop_ip_count\<close> gets a null
  pointer.
\<close>

lemma early_reap_undefined:
  assumes "standalone_inv st" and "s_children st < 4294967295" and "new_child \<noteq> 0" and "kids st pid = None"
  shows "standalone_client st ip new_child (pid # reaped) = Inl Undef"
proof -
  obtain st2 where st2: "handle_ip_count (st\<lparr>s_children := u32 (s_children st + 1)\<rparr>) ip = Inr (Suc (kids_from (kids st) ip), st2)"
      "inv_with (Some ip) st2" "kids st2 = kids st"
    using counted [OF assms(1,2)] by blast
  then have "hash_lookup_entry (s_p_pid_ip_hash st2) pid = Inr None"
    using ht.lookup_law [of "s_p_pid_ip_hash st2" pid] assms(4) by (simp add: inv_with_def kids_def)
  then show ?thesis using st2(1) assms(3) by (simp add: standalone_client_def Let_def)
qed

section \<open>The listener as a state machine\<close>

text \<open>
  A step is a client served (with the pid the kernel gave the child, never one of an unreaped child, or a
  failed fork), during which other children may be reaped, or a SIGCHLD that reaps some children. The bound on the children is that of the pid
  space.
\<close>

inductive listener_step :: "standalone_state \<Rightarrow> standalone_state \<Rightarrow> bool" where
  served: "standalone_client st ip new_child pids = Inr (info, st') \<Longrightarrow> 0 < new_child \<Longrightarrow>
     kids st (nat new_child) = None \<Longrightarrow> s_children st < 4294967295 \<Longrightarrow> distinct pids \<Longrightarrow> set pids \<subseteq> dom (kids st) \<Longrightarrow>
     listener_step st st'"
| fork_failed: "standalone_client st ip new_child pids = Inr (info, st') \<Longrightarrow> new_child < 0 \<Longrightarrow>
     s_children st < 4294967295 \<Longrightarrow> distinct pids \<Longrightarrow> set pids \<subseteq> dom (kids st) \<Longrightarrow> listener_step st st'"
| reaped: "handle_sigchld st pids = Inr st' \<Longrightarrow> distinct pids \<Longrightarrow> set pids \<subseteq> dom (kids st) \<Longrightarrow> listener_step st st'"

lemma listener_step_inv: "listener_step st st' \<Longrightarrow> standalone_inv st \<Longrightarrow> standalone_inv st'"
proof (induction rule: listener_step.induct)
  case (served st ip new_child pids info st')
  then show ?case using client_ok [of st new_child pids ip] by auto
next
  case (fork_failed st ip new_child pids info st')
  then show ?case using client_ok [of st new_child pids ip] by auto
next
  case (reaped st pids st')
  then show ?case using sigchld_ok [of st pids] by auto
qed

definition listener_reachable :: "standalone_state \<Rightarrow> bool" where
  "listener_reachable st \<longleftrightarrow> listener_step\<^sup>*\<^sup>* standalone_init st"

lemma reachable_inv: "listener_reachable st \<Longrightarrow> standalone_inv st"
  unfolding listener_reachable_def
  by (induction rule: rtranclp_induct) (auto intro: standalone_init_inv(1) listener_step_inv)

section \<open>The history of the children\<close>

text \<open>
  What happens to a listener, seen from outside: a child is forked for a client, with a pid, a fork fails, children end and are reaped. With
  the first two go the children that are reaped while the client's socket is closed.
\<close>

datatype listener_event = Forked string nat "nat list" | NotForked string "nat list" | Ended "nat list"

text \<open>The children that live, kept by what happens alone, without the tables of the listener; and what the kernel can do.\<close>

fun living_then :: "(nat \<Rightarrow> string option) \<Rightarrow> listener_event \<Rightarrow> nat \<Rightarrow> string option" where
  "living_then k (Forked ip pid pids) = (gone pids k)(pid \<mapsto> ip)"
| "living_then k (NotForked ip pids) = gone pids k"
| "living_then k (Ended pids) = gone pids k"

fun can_happen :: "(nat \<Rightarrow> string option) \<Rightarrow> listener_event \<Rightarrow> bool" where
  "can_happen k (Forked ip pid pids) = (0 < pid \<and> pid < 2147483648 \<and> k pid = None \<and> distinct pids \<and> set pids \<subseteq> dom k)"
| "can_happen k (NotForked ip pids) = (distinct pids \<and> set pids \<subseteq> dom k)"
| "can_happen k (Ended pids) = (distinct pids \<and> set pids \<subseteq> dom k)"

fun history_ok :: "(nat \<Rightarrow> string option) \<Rightarrow> listener_event list \<Rightarrow> bool" where
  "history_ok k [] = True"
| "history_ok k (ev # evs) = (can_happen k ev \<and> history_ok (living_then k ev) evs)"

definition living :: "listener_event list \<Rightarrow> nat \<Rightarrow> string option" where
  "living = foldl living_then Map.empty"

text \<open>What the code does then.\<close>

fun listener_does :: "listener_event \<Rightarrow> standalone_state \<Rightarrow> standalone_state result" where
  "listener_does (Forked ip pid pids) st = andthen (standalone_client st ip (int pid) pids) (\<lambda>(info, st). Inr st)"
| "listener_does (NotForked ip pids) st = andthen (standalone_client st ip (-1) pids) (\<lambda>(info, st). Inr st)"
| "listener_does (Ended pids) st = handle_sigchld st pids"

fun run_listener :: "listener_event list \<Rightarrow> standalone_state \<Rightarrow> standalone_state result" where
  "run_listener [] st = Inr st"
| "run_listener (ev # evs) st = andthen (listener_does ev st) (run_listener evs)"

text \<open>Pids are positive numbers of an \<open>int\<close>, so that the children are never too many for the counters.\<close>

definition pids_fit :: "(nat \<Rightarrow> string option) \<Rightarrow> bool" where
  "pids_fit k \<longleftrightarrow> dom k \<subseteq> {..<2147483648}"

lemma few_children:
  assumes "pids_fit k"
  shows "card (dom k) < 4294967295"
proof -
  have "card (dom k) \<le> card {..<2147483648 :: nat}" using assms by (intro card_mono) (simp_all add: pids_fit_def)
  then show ?thesis by simp
qed

lemma pids_fit_gone: "pids_fit k \<Longrightarrow> pids_fit (gone pids k)"
  by (force simp: pids_fit_def gone_def split: if_splits)

lemma pids_fit_add: "pids_fit k \<Longrightarrow> pid < 2147483648 \<Longrightarrow> pids_fit (k(pid \<mapsto> ip))"
  by (simp add: pids_fit_def)

lemma listener_does_ok:
  assumes "standalone_inv st" and "kids st = k" and "pids_fit k" and "can_happen k ev"
  shows "\<exists>st'. listener_does ev st = Inr st' \<and> standalone_inv st' \<and> kids st' = living_then k ev \<and> pids_fit (living_then k ev)"
proof -
  have few: "s_children st < 4294967295" using few_children [OF assms(3)] assms(1,2) by (simp add: standalone_inv_def)
  show ?thesis
  proof (cases ev)
    case (Forked ip pid pids)
    then show ?thesis
      using client_ok [OF assms(1) _ few, of "int pid" pids ip] assms(2-4) by (auto simp: pids_fit_gone pids_fit_add)
  next
    case (NotForked ip pids)
    then show ?thesis using client_ok [OF assms(1) _ few, of "-1" pids ip] assms(2-4) by (auto simp: pids_fit_gone pids_fit_add)
  next
    case (Ended pids)
    then show ?thesis using sigchld_ok [OF assms(1), of pids] assms(2-4) by (auto simp: pids_fit_gone pids_fit_add)
  qed
qed

lemma run_listener_ok:
  assumes "standalone_inv st" and "pids_fit (kids st)" and "history_ok (kids st) evs"
  shows "\<exists>st'. run_listener evs st = Inr st' \<and> standalone_inv st' \<and> kids st' = foldl living_then (kids st) evs \<and>
    pids_fit (kids st')"
  using assms
proof (induction evs arbitrary: st)
  case (Cons ev evs)
  obtain st1 where st1: "listener_does ev st = Inr st1" "standalone_inv st1" "kids st1 = living_then (kids st) ev"
      "pids_fit (kids st1)"
    using listener_does_ok [OF Cons.prems(1) refl Cons.prems(2), of ev] Cons.prems(3) by auto
  then show ?case using Cons.IH [OF st1(2,4)] Cons.prems(3) by simp
qed simp

text \<open>
  C31: the listener's book-keeping. Take any history of children that are forked for clients (with pids that no living child has), of forks that
  fail, and of children that are reaped, between clients or, when \<open>close\<close> is interrupted, in the middle of a turn; only a child is not reaped
  before its own turn ended. The listener runs through all of it and none of its checks fires. Then its count is the number of
  children that were forked and not reaped; its table of pids has exactly these, each with its client's address; its table
  of addresses has for each address the number of them that serve it, and no entry when there are none. The next session is told these numbers, itself included.
\<close>

theorem listener_counts:
  assumes "history_ok Map.empty evs"
  shows "\<exists>st. run_listener evs standalone_init = Inr st \<and> s_children st = card (dom (living evs)) \<and>
    (\<forall>pid. hash_lookup_entry (s_p_pid_ip_hash st) pid = Inr (living evs pid)) \<and>
    (\<forall>ip. hash_lookup_entry (s_p_ip_count_hash st) ip =
       Inr (if card {p. living evs p = Some ip} = 0 then None else Some (card {p. living evs p = Some ip}))) \<and>
    (\<forall>ip. \<exists>st'. standalone_client st ip 0 [] =
       Inr (\<lparr>num_children = card (dom (living evs)) + 1, num_this_ip = card {p. living evs p = Some ip} + 1\<rparr>, st'))"
proof -
  obtain st where st: "run_listener evs standalone_init = Inr st" "standalone_inv st" "kids st = living evs"
      "pids_fit (kids st)"
    using run_listener_ok [OF standalone_init_inv(1), of evs] assms by (auto simp: standalone_init_inv(2) living_def pids_fit_def)
  have inv: "hash_inv (s_p_ip_count_hash st)" "hash_inv (s_p_pid_ip_hash st)" "s_children st = card (dom (kids st))"
      "counts_ok (hash_abs (s_p_ip_count_hash st)) (kids st)"
    using st(2) by (simp_all add: standalone_inv_def)
  have few: "s_children st < 4294967295" using few_children [OF st(4)] inv(3) by simp
  have "hash_lookup_entry (s_p_pid_ip_hash st) pid = Inr (kids st pid)" for pid
    using ht.lookup_law [OF inv(2), of pid] by (simp add: kids_def)
  moreover have "hash_lookup_entry (s_p_ip_count_hash st) ip =
      Inr (if card {p. kids st p = Some ip} = 0 then None else Some (card {p. kids st p = Some ip}))" for ip
    using ht.lookup_law [OF inv(1), of ip] inv(4) by (simp add: counts_ok_def kids_from_def)
  moreover have "\<exists>st'. standalone_client st ip 0 [] =
      Inr (\<lparr>num_children = card (dom (kids st)) + 1, num_this_ip = card {p. kids st p = Some ip} + 1\<rparr>, st')" for ip
  proof -
    have "u32 (s_children st + 1) = card (dom (kids st)) + 1" using few inv(3) by simp
    then show ?thesis using counted [OF st(2) few, of ip] by (auto simp: standalone_client_def kids_from_def Let_def)
  qed
  ultimately show ?thesis using st(1) inv(3) unfolding st(3) by blast
qed

lemma init_children [simp]: "s_children standalone_init = 0"
  by (simp add: standalone_init_def)

lemma init_reachable: "listener_reachable standalone_init"
  by (simp add: listener_reachable_def)

lemma listener_counts_witness:
  "\<exists>st. run_listener [Forked ''0123456789abcdef'' 42 [], Forked ''0123456789abcdef'' 43 [42], NotForked ''fedcba9876543210'' []] standalone_init = Inr st \<and>
     s_children st = 1 \<and> hash_lookup_entry (s_p_pid_ip_hash st) 42 = Inr None \<and>
     hash_lookup_entry (s_p_pid_ip_hash st) 43 = Inr (Some ''0123456789abcdef'')"
proof -
  let ?evs = "[Forked ''0123456789abcdef'' 42 [], Forked ''0123456789abcdef'' 43 [42], NotForked ''fedcba9876543210'' []]"
  have "history_ok Map.empty ?evs" by (simp add: gone_def)
  moreover have l: "living ?evs = [43 \<mapsto> ''0123456789abcdef'']" by (auto simp: living_def gone_def fun_eq_iff)
  moreover have "card (dom (living ?evs)) = 1" unfolding l by simp
  ultimately show ?thesis using listener_counts [of ?evs] by auto
qed

text \<open>
  Serving a client. In every reachable state, and for a forked pid that no unreaped child has, one turn of
  the listener returns (none of its checks fires), tells the new session the true number of sessions, in all and
  from its address, itself included, and adds the child, or nothing when the fork failed.
\<close>

theorem listener_serves:
  assumes "listener_reachable st" and "new_child \<noteq> 0" and "s_children st < 4294967295"
    and "0 < new_child \<Longrightarrow> kids st (nat new_child) = None"
  shows "\<exists>st'. standalone_client st ip new_child [] =
           Inr (\<lparr>num_children = card (dom (kids st)) + 1, num_this_ip = card {p. kids st p = Some ip} + 1\<rparr>, st') \<and>
         kids st' = (if 0 < new_child then (kids st)(nat new_child \<mapsto> ip) else kids st)"
  using client_ok [OF reachable_inv [OF assms(1)] assms(2-4), of "[]" ip] by (auto simp: kids_from_def gone_def)

text \<open>
  C32: reaping. In every reachable state, \<open>handle_sigchld\<close> given any distinct unreaped children returns, and
  exactly those children are gone from the tables.
\<close>

theorem listener_reaps:
  assumes "listener_reachable st" and "distinct pids" and "set pids \<subseteq> dom (kids st)"
  shows "\<exists>st'. handle_sigchld st pids = Inr st' \<and> listener_reachable st' \<and>
           kids st' = (\<lambda>p. if p \<in> set pids then None else kids st p)"
proof -
  obtain st' where st': "handle_sigchld st pids = Inr st'" "kids st' = (\<lambda>p. if p \<in> set pids then None else kids st p)"
    using sigchld_ok [OF reachable_inv [OF assms(1)] assms(2,3)] by (auto simp: gone_def)
  moreover have "listener_reachable st'"
    using assms st'(1) unfolding listener_reachable_def by (auto intro: rtranclp.rtrancl_into_rtrancl reaped)
  ultimately show ?thesis by blast
qed

lemma served_once: "\<exists>st'. listener_reachable st' \<and> kids st' = [42 \<mapsto> ''0123456789abcdef'']"
proof -
  obtain info st' where "standalone_client standalone_init ''0123456789abcdef'' 42 [] = Inr (info, st')"
      "kids st' = [42 \<mapsto> ''0123456789abcdef'']"
    using client_ok [OF standalone_init_inv(1), of 42 "[]" "''0123456789abcdef''"]
    by (auto simp: standalone_init_inv(2) gone_def)
  then show ?thesis
    unfolding listener_reachable_def
    by (intro exI [of _ st'] conjI r_into_rtranclp served [of _ "''0123456789abcdef''" 42 "[]"])
      (auto simp: standalone_init_inv(2))
qed

lemma listener_reaps_witness:
  "\<exists>st st'. kids st = [42 \<mapsto> ''0123456789abcdef''] \<and> handle_sigchld st [42] = Inr st' \<and> kids st' = Map.empty"
proof -
  obtain st where "listener_reachable st" "kids st = [42 \<mapsto> ''0123456789abcdef'']" using served_once by blast
  then have "\<exists>st'. handle_sigchld st [42] = Inr st' \<and> kids st' = (\<lambda>p. if p \<in> set [42] then None else kids st p)"
    using listener_reaps [of st "[42]"] by auto
  with \<open>kids st = _\<close> show ?thesis by (metis (no_types, lifting) fun_upd_apply list.set_intros(1))
qed

text \<open>
  After \<open>prepare_child\<close>, descriptors 0, 1 and 2 refer to the client socket and the socket's own
  descriptor is closed unless it is one of the three.
\<close>

lemma prepare_child_fds:
  "i < 3 \<Longrightarrow> prepare_child fds sock i = fds sock"
  "sock > 2 \<Longrightarrow> prepare_child fds sock sock = None"
  "i \<ge> 3 \<Longrightarrow> i \<noteq> sock \<Longrightarrow> prepare_child fds sock i = fds i"
proof -
  assume "i < 3"
  then have "i = 0 \<or> i = 1 \<or> i = 2" by linarith
  then show "prepare_child fds sock i = fds sock"
    by (cases "sock \<le> 2") (auto simp: prepare_child_def vsf_sysutil_dupfd2_def Let_def le_Suc_eq numeral_2_eq_2)
qed (auto simp: prepare_child_def vsf_sysutil_dupfd2_def Let_def)

end
