(* ===== verification/Tunables.thy ===== *)
theory Tunables
  imports Prelude
begin

text \<open>
  \<^verbatim>\<open>tunables.c\<close>: the configuration variables and their defaults. The variables of the three C types are three
  stores, indexed by the name of the variable without its prefix \<^verbatim>\<open>tunable_\<close>.
\<close>

record tunables =
  t_bool :: "string \<Rightarrow> bool"
  t_uint :: "string \<Rightarrow> nat"
  t_str :: "string \<Rightarrow> string option"

definition bool_defaults :: "(string \<times> bool) list" where
  "bool_defaults =
    [
     (''anonymous_enable'', True), (''local_enable'', False), (''utf8_filesystem'', False),
     (''pasv_enable'', True), (''port_enable'', True), (''chroot_local_user'', False),
     (''write_enable'', False), (''anon_upload_enable'', False), (''anon_mkdir_write_enable'', False),
     (''anon_other_write_enable'', False), (''chown_uploads'', False), (''connect_from_port_20'', False),
     (''xferlog_enable'', False), (''dirmessage_enable'', False), (''anon_world_readable_only'', True),
     (''async_abor_enable'', False), (''ascii_upload_enable'', False), (''ascii_download_enable'', False),
     (''one_process_model'', False), (''xferlog_std_format'', False), (''pasv_promiscuous'', False),
     (''deny_email_enable'', False), (''chroot_list_enable'', False), (''setproctitle_enable'', False),
     (''text_userdb_names'', False), (''ls_recurse_enable'', False), (''log_ftp_protocol'', False),
     (''guest_enable'', False), (''userlist_enable'', False), (''userlist_deny'', True),
     (''use_localtime'', False), (''check_shell'', True), (''hide_ids'', False), (''listen'', False),
     (''port_promiscuous'', False), (''passwd_chroot_enable'', False), (''no_anon_password'', False),
     (''tcp_wrappers'', False), (''use_sendfile'', True), (''force_dot_files'', False),
     (''listen_ipv6'', False), (''dual_log_enable'', False), (''syslog_enable'', False),
     (''background'', False), (''virtual_use_local_privs'', False), (''session_support'', False),
     (''download_enable'', True), (''dirlist_enable'', True), (''chmod_enable'', True),
     (''secure_email_list_enable'', False), (''run_as_launching_user'', False), (''no_log_lock'', False),
     (''ssl_enable'', False), (''allow_anon_ssl'', False), (''force_local_logins_ssl'', True),
     (''force_local_data_ssl'', True), (''sslv2'', False), (''sslv3'', False), (''tlsv1'', True),
     (''tilde_user_enable'', False), (''force_anon_logins_ssl'', False), (''force_anon_data_ssl'', False),
     (''mdtm_write'', True), (''lock_upload_files'', True), (''pasv_addr_resolve'', False),
     (''debug_ssl'', False), (''require_cert'', False), (''validate_cert'', False),
     (''strict_ssl_read_eof'', False), (''strict_ssl_write_shutdown'', False),
     (''ssl_request_cert'', True), (''delete_failed_uploads'', False), (''implicit_ssl'', False),
     (''sandbox'', False), (''require_ssl_reuse'', True), (''isolate'', True), (''isolate_network'', True),
     (''ftp_enable'', True), (''http_enable'', False)
    ]"

definition uint_defaults :: "(string \<times> nat) list" where
  "uint_defaults =
    [
     (''accept_timeout'', 60), (''connect_timeout'', 60), (''local_umask'', 63), (''anon_umask'', 63),
     (''ftp_data_port'', 20), (''idle_session_timeout'', 300), (''data_connection_timeout'', 300),
     (''pasv_min_port'', 5001), (''pasv_max_port'', 0), (''anon_max_rate'', 0), (''local_max_rate'', 0),
     (''listen_port'', 21), (''max_clients'', 2000), (''file_open_mode'', 438), (''max_per_ip'', 50),
     (''trans_chunk_size'', 0), (''delay_failed_login'', 1), (''delay_successful_login'', 0),
     (''max_login_fails'', 3), (''chown_upload_mode'', 384)
    ]"

definition str_defaults :: "(string \<times> string option) list" where
  "str_defaults =
    [
     (''secure_chroot_dir'', Some ''/var/run/vsftpd/empty''), (''ftp_username'', Some ''ftp''),
     (''chown_username'', Some ''root''), (''xferlog_file'', Some ''/var/log/xferlog''),
     (''vsftpd_log_file'', Some ''/var/log/vsftpd.log''), (''message_file'', Some ''.message''),
     (''nopriv_user'', Some ''nobody''), (''ftpd_banner'', None),
     (''banned_email_file'', Some ''/etc/vsftpd.banned_emails''),
     (''chroot_list_file'', Some ''/etc/vsftpd.chroot_list''), (''pam_service_name'', Some ''vsftpd''),
     (''guest_username'', Some ''ftp''), (''userlist_file'', Some ''/etc/vsftpd.user_list''),
     (''anon_root'', None), (''local_root'', None), (''banner_file'', None), (''pasv_address'', None),
     (''listen_address'', None), (''user_config_dir'', None), (''listen_address6'', None),
     (''cmds_allowed'', None), (''cmds_denied'', None), (''hide_file'', None), (''deny_file'', None),
     (''user_sub_token'', None), (''email_password_file'', Some ''/etc/vsftpd.email_passwords''),
     (''rsa_cert_file'', Some ''/usr/share/ssl/certs/vsftpd.pem''), (''dsa_cert_file'', None),
     (''ssl_ciphers'', Some ''DES-CBC3-SHA''), (''rsa_private_key_file'', None),
     (''dsa_private_key_file'', None), (''ca_certs_file'', None)
    ]"

text \<open>A store that holds the values of an association list, \<open>d\<close> for every other name.\<close>

definition store_of :: "(string \<times> 'a) list \<Rightarrow> 'a \<Rightarrow> string \<Rightarrow> 'a" where
  "store_of xs d v = (case map_of xs v of None \<Rightarrow> d | Some x \<Rightarrow> x)"

text \<open>\<open>install_str_setting\<close> replaces the stored string by a copy of its argument, or by the null pointer.\<close>

definition install_str_setting :: "string option \<Rightarrow> string \<Rightarrow> tunables \<Rightarrow> tunables" where
  "install_str_setting p_value var t = t\<lparr>t_str := (t_str t)(var := p_value)\<rparr>"

definition tunables_load_defaults :: tunables where
  "tunables_load_defaults =
     fold (\<lambda>(var, p_value). install_str_setting p_value var) str_defaults
       \<lparr>t_bool = store_of bool_defaults False, t_uint = store_of uint_defaults 0, t_str = (\<lambda>_. None)\<rparr>"

end
