(* ===== verification/Filestr.thy ===== *)
theory Filestr
  imports Sysutil
begin

text \<open>
  \<^verbatim>\<open>filestr.c\<close>: reading a whole file into a string. The file system is a parameter: \<open>fs\<close> maps the names
  that can be opened to the \<open>stat\<close> data of the file and to the bytes that reading it delivers.
\<close>

record file_info =
  st_mode :: mode
  st_size :: int
  st_uid :: int
  st_gid :: int
  st_mtime :: int
  st_nlink :: nat
  file_data :: string

type_synonym file_system = "string \<Rightarrow> file_info option"

definition vsf_sysutil_retval_is_error :: "int \<Rightarrow> bool" where
  "vsf_sysutil_retval_is_error retval \<longleftrightarrow> retval < 0"

text \<open>\<open>read\<close> on a regular file: the next bytes, fewer only at its end.\<close>

definition file_read :: "string \<Rightarrow> nat \<Rightarrow> int \<times> string \<times> string" where
  "file_read w n = (int (length (take n w)), take n w, drop n w)"

lemma file_read_law: "read_law (\<lambda>w. w) file_read"
  by (auto simp: read_law_def file_read_def)

definition str_fileread :: "file_system \<Rightarrow> string \<Rightarrow> nat \<Rightarrow> (int \<times> string) result" where
  "str_fileread fs p_filename maxsize =
     (case fs p_filename of
        None \<Rightarrow> Inr (-1, [])
      | Some p_stat \<Rightarrow>
          if vsf_sysutil_statbuf_is_regfile (st_mode p_stat)
          then andthen (vsf_sysutil_statbuf_get_size (st_size p_stat)) (\<lambda>sz.
               let sz = (if sz > int maxsize then int maxsize else sz) in
               case vsf_sysutil_read_loop file_read (file_data p_stat) (nat sz) of
                 (retval, p_sec_buf, rest) \<Rightarrow>
                   andthen retval (\<lambda>retval.
                   if vsf_sysutil_retval_is_error retval then Inr (retval, [])
                   else if nat retval \<noteq> nat sz then die ''read size mismatch''
                   else Inr (retval, take (nat sz) p_sec_buf)))
          else Inr (0, []))"

text \<open>What \<open>str_fileread\<close> does on every kind of file.\<close>

lemma str_fileread_regular:
  assumes "fs f = Some i" and "vsf_sysutil_statbuf_is_regfile (st_mode i)" and "st_size i = int (length (file_data i))"
    and "maxsize \<le> INT_MAX"
  shows "str_fileread fs f maxsize = Inr (int (min (length (file_data i)) maxsize), take maxsize (file_data i))"
proof -
  let ?n = "min (length (file_data i)) maxsize"
  have sz: "(if st_size i > int maxsize then int maxsize else st_size i) = int ?n" using assms(3) by (simp add: min_def)
  have "?n \<le> INT_MAX" using assms(4) by linarith
  then obtain w' where "vsf_sysutil_read_loop file_read (file_data i) ?n =
      (Inr (int (length (take ?n (file_data i)))), take ?n (file_data i), w')"
    using read_loop_all [OF file_read_law, of "file_data i" ?n "[]"]
    by (simp only: vsf_sysutil_read_loop_def not_less [symmetric] if_False append_Nil) blast
  with assms sz show ?thesis
    by (auto simp: str_fileread_def vsf_sysutil_statbuf_get_size_def vsf_sysutil_retval_is_error_def Let_def
        halt_simps min_def)
qed

lemma str_fileread_missing: "fs f = None \<Longrightarrow> str_fileread fs f n = Inr (-1, [])"
  by (simp add: str_fileread_def)

lemma str_fileread_special:
  "fs f = Some i \<Longrightarrow> \<not> vsf_sysutil_statbuf_is_regfile (st_mode i) \<Longrightarrow> str_fileread fs f n = Inr (0, [])"
  by (simp add: str_fileread_def)

end
