(* ===== verification/Parseconf.thy ===== *)
theory Parseconf
  imports Tunables Ipaddrparse Str_Buf Filestr
begin

text \<open>
  \<^verbatim>\<open>parseconf.c\<close>: the tables that map the settings of the configuration file to the variables, and the parser
  of the file; with \<^verbatim>\<open>filestr.c\<close>, which reads it.
\<close>

section \<open>The tables\<close>

definition parseconf_bool_array :: "(string \<times> string) list" where
  "parseconf_bool_array =
    [
     (''anonymous_enable'', ''anonymous_enable''), (''utf8_filesystem'', ''utf8_filesystem''),
     (''local_enable'', ''local_enable''), (''pasv_enable'', ''pasv_enable''),
     (''port_enable'', ''port_enable''), (''chroot_local_user'', ''chroot_local_user''),
     (''write_enable'', ''write_enable''), (''anon_upload_enable'', ''anon_upload_enable''),
     (''anon_mkdir_write_enable'', ''anon_mkdir_write_enable''),
     (''anon_other_write_enable'', ''anon_other_write_enable''), (''chown_uploads'', ''chown_uploads''),
     (''connect_from_port_20'', ''connect_from_port_20''), (''xferlog_enable'', ''xferlog_enable''),
     (''dirmessage_enable'', ''dirmessage_enable''),
     (''anon_world_readable_only'', ''anon_world_readable_only''),
     (''async_abor_enable'', ''async_abor_enable''), (''ascii_upload_enable'', ''ascii_upload_enable''),
     (''ascii_download_enable'', ''ascii_download_enable''),
     (''one_process_model'', ''one_process_model''), (''xferlog_std_format'', ''xferlog_std_format''),
     (''pasv_promiscuous'', ''pasv_promiscuous''), (''deny_email_enable'', ''deny_email_enable''),
     (''chroot_list_enable'', ''chroot_list_enable''), (''setproctitle_enable'', ''setproctitle_enable''),
     (''text_userdb_names'', ''text_userdb_names''), (''ls_recurse_enable'', ''ls_recurse_enable''),
     (''log_ftp_protocol'', ''log_ftp_protocol''), (''guest_enable'', ''guest_enable''),
     (''userlist_enable'', ''userlist_enable''), (''userlist_deny'', ''userlist_deny''),
     (''use_localtime'', ''use_localtime''), (''check_shell'', ''check_shell''),
     (''hide_ids'', ''hide_ids''), (''listen'', ''listen''), (''port_promiscuous'', ''port_promiscuous''),
     (''passwd_chroot_enable'', ''passwd_chroot_enable''), (''no_anon_password'', ''no_anon_password''),
     (''tcp_wrappers'', ''tcp_wrappers''), (''use_sendfile'', ''use_sendfile''),
     (''force_dot_files'', ''force_dot_files''), (''listen_ipv6'', ''listen_ipv6''),
     (''dual_log_enable'', ''dual_log_enable''), (''syslog_enable'', ''syslog_enable''),
     (''background'', ''background''), (''virtual_use_local_privs'', ''virtual_use_local_privs''),
     (''session_support'', ''session_support''), (''download_enable'', ''download_enable''),
     (''dirlist_enable'', ''dirlist_enable''), (''chmod_enable'', ''chmod_enable''),
     (''secure_email_list_enable'', ''secure_email_list_enable''),
     (''run_as_launching_user'', ''run_as_launching_user''), (''no_log_lock'', ''no_log_lock''),
     (''ssl_enable'', ''ssl_enable''), (''allow_anon_ssl'', ''allow_anon_ssl''),
     (''force_local_logins_ssl'', ''force_local_logins_ssl''),
     (''force_local_data_ssl'', ''force_local_data_ssl''), (''ssl_sslv2'', ''sslv2''),
     (''ssl_sslv3'', ''sslv3''), (''ssl_tlsv1'', ''tlsv1''),
     (''tilde_user_enable'', ''tilde_user_enable''),
     (''force_anon_logins_ssl'', ''force_anon_logins_ssl''),
     (''force_anon_data_ssl'', ''force_anon_data_ssl''), (''mdtm_write'', ''mdtm_write''),
     (''lock_upload_files'', ''lock_upload_files''), (''pasv_addr_resolve'', ''pasv_addr_resolve''),
     (''debug_ssl'', ''debug_ssl''), (''require_cert'', ''require_cert''),
     (''validate_cert'', ''validate_cert''), (''strict_ssl_read_eof'', ''strict_ssl_read_eof''),
     (''strict_ssl_write_shutdown'', ''strict_ssl_write_shutdown''),
     (''ssl_request_cert'', ''ssl_request_cert''), (''delete_failed_uploads'', ''delete_failed_uploads''),
     (''implicit_ssl'', ''implicit_ssl''), (''sandbox'', ''sandbox''),
     (''require_ssl_reuse'', ''require_ssl_reuse''), (''isolate'', ''isolate''),
     (''isolate_network'', ''isolate_network''), (''ftp_enable'', ''ftp_enable''),
     (''http_enable'', ''http_enable'')
    ]"

definition parseconf_uint_array :: "(string \<times> string) list" where
  "parseconf_uint_array =
    [
     (''accept_timeout'', ''accept_timeout''), (''connect_timeout'', ''connect_timeout''),
     (''local_umask'', ''local_umask''), (''anon_umask'', ''anon_umask''),
     (''ftp_data_port'', ''ftp_data_port''), (''idle_session_timeout'', ''idle_session_timeout''),
     (''data_connection_timeout'', ''data_connection_timeout''), (''pasv_min_port'', ''pasv_min_port''),
     (''pasv_max_port'', ''pasv_max_port''), (''anon_max_rate'', ''anon_max_rate''),
     (''local_max_rate'', ''local_max_rate''), (''listen_port'', ''listen_port''),
     (''max_clients'', ''max_clients''), (''file_open_mode'', ''file_open_mode''),
     (''max_per_ip'', ''max_per_ip''), (''trans_chunk_size'', ''trans_chunk_size''),
     (''delay_failed_login'', ''delay_failed_login''),
     (''delay_successful_login'', ''delay_successful_login''), (''max_login_fails'', ''max_login_fails''),
     (''chown_upload_mode'', ''chown_upload_mode'')
    ]"

definition parseconf_str_array :: "(string \<times> string) list" where
  "parseconf_str_array =
    [
     (''secure_chroot_dir'', ''secure_chroot_dir''), (''ftp_username'', ''ftp_username''),
     (''chown_username'', ''chown_username''), (''xferlog_file'', ''xferlog_file''),
     (''vsftpd_log_file'', ''vsftpd_log_file''), (''message_file'', ''message_file''),
     (''nopriv_user'', ''nopriv_user''), (''ftpd_banner'', ''ftpd_banner''),
     (''banned_email_file'', ''banned_email_file''), (''chroot_list_file'', ''chroot_list_file''),
     (''pam_service_name'', ''pam_service_name''), (''guest_username'', ''guest_username''),
     (''userlist_file'', ''userlist_file''), (''anon_root'', ''anon_root''),
     (''local_root'', ''local_root''), (''banner_file'', ''banner_file''),
     (''pasv_address'', ''pasv_address''), (''listen_address'', ''listen_address''),
     (''user_config_dir'', ''user_config_dir''), (''listen_address6'', ''listen_address6''),
     (''cmds_allowed'', ''cmds_allowed''), (''hide_file'', ''hide_file''), (''deny_file'', ''deny_file''),
     (''user_sub_token'', ''user_sub_token''), (''email_password_file'', ''email_password_file''),
     (''rsa_cert_file'', ''rsa_cert_file''), (''dsa_cert_file'', ''dsa_cert_file''),
     (''ssl_ciphers'', ''ssl_ciphers''), (''rsa_private_key_file'', ''rsa_private_key_file''),
     (''dsa_private_key_file'', ''dsa_private_key_file''), (''ca_certs_file'', ''ca_certs_file''),
     (''cmds_denied'', ''cmds_denied'')
    ]"

section \<open>The parser\<close>

text \<open>
  \<open>vsf_parseconf_load_setting\<close>. Each \<open>while\<close> over a table stops at the first entry with the setting's name,
  as \<open>map_of\<close> does. A boolean whose value is neither true nor false is left alone when errors are not fatal;
  \<open>str_atoi\<close> returns an \<open>int\<close> that is stored as an \<open>unsigned int\<close>.
\<close>

definition load_bool_value :: "tunables \<Rightarrow> string \<Rightarrow> string \<Rightarrow> string \<Rightarrow> bool \<Rightarrow> tunables result" where
  "load_bool_value t setting var val errs_fatal =
     (let v = str_upper val in
      if v = ''YES'' \<or> v = ''TRUE'' \<or> v = ''1'' then Inr (t\<lparr>t_bool := (t_bool t)(var := True)\<rparr>)
      else if v = ''NO'' \<or> v = ''FALSE'' \<or> v = ''0'' then Inr (t\<lparr>t_bool := (t_bool t)(var := False)\<rparr>)
      else if errs_fatal then die2 ''bad bool value in config file for: '' setting
      else Inr t)"

definition load_uint_value :: "tunables \<Rightarrow> string \<Rightarrow> string \<Rightarrow> tunables" where
  "load_uint_value t var val =
     (let n = (if val \<noteq> [] \<and> val ! 0 = CHR ''0'' then vsf_sysutil_octal_to_uint val
               else nat (str_atoi val mod 4294967296))
      in t\<lparr>t_uint := (t_uint t)(var := n)\<rparr>)"

definition load_str_value :: "(nat \<Rightarrow> bool) \<Rightarrow> tunables \<Rightarrow> string \<Rightarrow> string \<Rightarrow> tunables result" where
  "load_str_value avail t var val =
     (if val = [] then Inr (t\<lparr>t_str := (t_str t)(var := None)\<rparr>)
      else andthen (str_strdup_trimmed avail val) (\<lambda>p. Inr (t\<lparr>t_str := (t_str t)(var := p)\<rparr>)))"

definition vsf_parseconf_load_setting ::
  "(nat \<Rightarrow> bool) \<Rightarrow> tunables \<Rightarrow> string \<Rightarrow> bool \<Rightarrow> tunables result" where
  "vsf_parseconf_load_setting avail t p_setting errs_fatal =
     (let (setting, val) = str_split_char (dropWhile vsf_sysutil_isspace (c_str p_setting)) CHR ''='' in
      case map_of parseconf_str_array setting of
        Some var \<Rightarrow> load_str_value avail t var val
      | None \<Rightarrow>
          if val = []
          then if errs_fatal then die2 ''missing value in config file for: '' setting else Inr t
          else (case map_of parseconf_bool_array setting of
            Some var \<Rightarrow> load_bool_value t setting var val errs_fatal
          | None \<Rightarrow> (case map_of parseconf_uint_array setting of
              Some var \<Rightarrow> Inr (load_uint_value t var val)
            | None \<Rightarrow>
                if errs_fatal then die2 ''unrecognised variable in config file: '' setting else Inr t)))"

text \<open>The loop over the lines of the file.\<close>

fun load_lines :: "(nat \<Rightarrow> bool) \<Rightarrow> tunables \<Rightarrow> string list \<Rightarrow> bool \<Rightarrow> tunables result" where
  "load_lines avail t [] errs_fatal = Inr t"
| "load_lines avail t (line # ls) errs_fatal =
     (if line = [] \<or> line ! 0 = CHR ''#'' \<or> str_all_space line then load_lines avail t ls errs_fatal
      else andthen (vsf_parseconf_load_setting avail t line errs_fatal) (\<lambda>t'. load_lines avail t' ls errs_fatal))"

record parseconf_state =
  saved_filename :: "string option"
  tun :: tunables

definition vsf_parseconf_load_file ::
  "(nat \<Rightarrow> bool) \<Rightarrow> file_system \<Rightarrow> int \<Rightarrow> parseconf_state \<Rightarrow> string option \<Rightarrow> bool \<Rightarrow> parseconf_state result" where
  "vsf_parseconf_load_file avail fs my_uid st p_filename errs_fatal =
     (let name = (case p_filename of None \<Rightarrow> saved_filename st | Some f \<Rightarrow> Some f);
          st = (case p_filename of None \<Rightarrow> st | Some f \<Rightarrow> st\<lparr>saved_filename := Some f\<rparr>)
      in case name of
           None \<Rightarrow> bug ''null filename in vsf_parseconf_load_file''
         | Some f \<Rightarrow>
             andthen (str_fileread fs f 100000) (\<lambda>(retval, config_file_str).
             if vsf_sysutil_retval_is_error retval
             then if errs_fatal then die2 ''cannot read config file: '' f else Inr st
             else case fs f of
               None \<Rightarrow> die ''config file not owned by correct user, or not a file''
             | Some p_statbuf \<Rightarrow>
                 if st_uid p_statbuf \<noteq> my_uid \<or> \<not> vsf_sysutil_statbuf_is_regfile (st_mode p_statbuf)
                 then die ''config file not owned by correct user, or not a file''
                 else andthen (load_lines avail (tun st) (str_lines_from config_file_str 0) errs_fatal) (\<lambda>t.
                      Inr (st\<lparr>tun := t\<rparr>))))"

section \<open>The tables are consistent\<close>

lemma settings_distinct:
  "distinct (map fst parseconf_str_array @ map fst parseconf_bool_array @ map fst parseconf_uint_array)"
  by (simp add: parseconf_str_array_def parseconf_bool_array_def parseconf_uint_array_def)

definition name_shape :: "string \<Rightarrow> bool" where
  "name_shape n \<longleftrightarrow> n \<noteq> [] \<and> \<not> vsf_sysutil_isspace (hd n) \<and> hd n \<noteq> CHR ''#'' \<and>
     list_all (\<lambda>c. c \<noteq> CHR ''='' \<and> c \<noteq> NUL \<and> c \<noteq> LF) n"

lemma names_ok:
  "list_all name_shape (map fst parseconf_str_array @ map fst parseconf_bool_array @ map fst parseconf_uint_array)"
  by (simp add: parseconf_str_array_def parseconf_bool_array_def parseconf_uint_array_def name_shape_def
      vsf_sysutil_isspace_def)

definition setting_names :: "string set" where
  "setting_names = fst ` set parseconf_str_array \<union> fst ` set parseconf_bool_array \<union> fst ` set parseconf_uint_array"

lemma setting_namesI:
  "(n, v) \<in> set parseconf_str_array \<Longrightarrow> n \<in> setting_names"
  "(n, v) \<in> set parseconf_bool_array \<Longrightarrow> n \<in> setting_names"
  "(n, v) \<in> set parseconf_uint_array \<Longrightarrow> n \<in> setting_names"
  unfolding setting_names_def by (force intro: image_eqI)+

lemma name_ok:
  assumes "n \<in> setting_names"
  shows "n \<noteq> []" and "\<not> vsf_sysutil_isspace (hd n)" and "hd n \<noteq> CHR ''#''"
    and "CHR ''='' \<notin> set n" and "NUL \<notin> set n" and "LF \<notin> set n"
proof -
  have "name_shape n" using names_ok assms unfolding setting_names_def list_all_iff by auto
  then show "n \<noteq> []" "\<not> vsf_sysutil_isspace (hd n)" "hd n \<noteq> CHR ''#''"
    "CHR ''='' \<notin> set n" "NUL \<notin> set n" "LF \<notin> set n"
    by (auto simp: name_shape_def list_all_iff)
qed

lemma table_lookup:
  shows "(n, v) \<in> set parseconf_str_array \<Longrightarrow> map_of parseconf_str_array n = Some v"
    and "(n, v) \<in> set parseconf_bool_array \<Longrightarrow>
      map_of parseconf_str_array n = None \<and> map_of parseconf_bool_array n = Some v"
    and "(n, v) \<in> set parseconf_uint_array \<Longrightarrow>
      map_of parseconf_str_array n = None \<and> map_of parseconf_bool_array n = None \<and> map_of parseconf_uint_array n = Some v"
proof -
  have d: "distinct (map fst parseconf_str_array)" "distinct (map fst parseconf_bool_array)"
    "distinct (map fst parseconf_uint_array)"
    "fst ` set parseconf_str_array \<inter> fst ` set parseconf_bool_array = {}"
    "fst ` set parseconf_str_array \<inter> fst ` set parseconf_uint_array = {}"
    "fst ` set parseconf_bool_array \<inter> fst ` set parseconf_uint_array = {}"
    using settings_distinct by (auto simp: Int_Un_distrib)
  have mem: "(n, v) \<in> set xs \<Longrightarrow> n \<in> fst ` set xs" for xs by (rule image_eqI [of _ _ "(n, v)"]) auto
  show "(n, v) \<in> set parseconf_str_array \<Longrightarrow> map_of parseconf_str_array n = Some v"
    using d(1) by simp
  show "(n, v) \<in> set parseconf_bool_array \<Longrightarrow>
      map_of parseconf_str_array n = None \<and> map_of parseconf_bool_array n = Some v"
    using d(2,4) mem [of parseconf_bool_array] by (simp only: map_of_eq_None_iff map_of_eq_Some_iff) blast
  show "(n, v) \<in> set parseconf_uint_array \<Longrightarrow>
      map_of parseconf_str_array n = None \<and> map_of parseconf_bool_array n = None \<and> map_of parseconf_uint_array n = Some v"
    using d(3,5,6) mem [of parseconf_uint_array] by (simp only: map_of_eq_None_iff map_of_eq_Some_iff) blast
qed

lemma setting_split:
  assumes "n \<noteq> []" and "\<not> vsf_sysutil_isspace (hd n)" and "CHR ''='' \<notin> set n" and "NUL \<notin> set n" and "NUL \<notin> set val"
  shows "str_split_char (dropWhile vsf_sysutil_isspace (c_str (n @ CHR ''='' # val))) CHR ''='' = (n, val)"
proof -
  have "NUL \<notin> set (n @ CHR ''='' # val)" using assms by simp
  moreover have "dropWhile vsf_sysutil_isspace (n @ CHR ''='' # val) = n @ CHR ''='' # val"
    using assms(1,2) by (cases n) auto
  ultimately show ?thesis using assms(3) by (simp add: str_split_char_hit)
qed

section \<open>Settings\<close>

text \<open>The variable of a setting: that of the same name, but for the three TLS protocol versions.\<close>

definition setting_var :: "string \<Rightarrow> string" where
  "setting_var name =
     (if name = ''ssl_sslv2'' then ''sslv2'' else if name = ''ssl_sslv3'' then ''sslv3''
      else if name = ''ssl_tlsv1'' then ''tlsv1'' else name)"

lemma table_vars:
  "\<forall>(n, v) \<in> set parseconf_bool_array. v = setting_var n" "\<forall>(n, v) \<in> set parseconf_uint_array. v = setting_var n"
  "\<forall>(n, v) \<in> set parseconf_str_array. v = setting_var n"
  unfolding parseconf_bool_array_def parseconf_uint_array_def parseconf_str_array_def by (simp_all add: setting_var_def)

lemma entry_vars:
  "n \<in> fst ` set parseconf_bool_array \<Longrightarrow> (n, setting_var n) \<in> set parseconf_bool_array"
  "n \<in> fst ` set parseconf_uint_array \<Longrightarrow> (n, setting_var n) \<in> set parseconf_uint_array"
  "n \<in> fst ` set parseconf_str_array \<Longrightarrow> (n, setting_var n) \<in> set parseconf_str_array"
  using table_vars by auto

text \<open>
  What the lines of a configuration file can be: settings of the three kinds as an administrator may write them, with
  their meaning, and notes (comments and blank lines).
\<close>

datatype conf_item = ConfBool string bool string | ConfUint string nat | ConfOctal string nat
  | ConfText string string string string | ConfClear string | ConfNote string

fun item_ok :: "conf_item \<Rightarrow> bool" where
  "item_ok (ConfBool name b w) =
     (name \<in> fst ` set parseconf_bool_array \<and> str_upper w \<in> set (if b then [''YES'', ''TRUE'', ''1''] else [''NO'', ''FALSE'', ''0'']))"
| "item_ok (ConfUint name n) = (name \<in> fst ` set parseconf_uint_array \<and> n < 2 ^ 31)"
| "item_ok (ConfOctal name n) = (name \<in> fst ` set parseconf_uint_array \<and> n < 2 ^ 32)"
| "item_ok (ConfText name before mid after) =
     (name \<in> fst ` set parseconf_str_array \<and> list_all vsf_sysutil_isspace (before @ after) \<and> mid \<noteq> [] \<and>
      \<not> vsf_sysutil_isspace (hd mid) \<and> \<not> vsf_sysutil_isspace (last mid) \<and>
      NUL \<notin> set (before @ mid @ after) \<and> LF \<notin> set (before @ mid @ after) \<and> length (before @ mid @ after) < 100000)"
| "item_ok (ConfClear name) = (name \<in> fst ` set parseconf_str_array)"
| "item_ok (ConfNote l) = (LF \<notin> set l \<and> (l = [] \<or> hd l = CHR ''#'' \<or> str_all_space l))"

fun item_line :: "conf_item \<Rightarrow> string" where
  "item_line (ConfBool name b w) = name @ ''='' @ w"
| "item_line (ConfUint name n) = name @ ''='' @ vsf_sysutil_ulong_to_str n"
| "item_line (ConfOctal name n) = name @ ''='' @ vsf_sysutil_uint_to_octal n"
| "item_line (ConfText name before mid after) = name @ ''='' @ before @ mid @ after"
| "item_line (ConfClear name) = name @ ''=''"
| "item_line (ConfNote l) = l"

fun item_apply :: "tunables \<Rightarrow> conf_item \<Rightarrow> tunables" where
  "item_apply t (ConfBool name b w) = t\<lparr>t_bool := (t_bool t)(setting_var name := b)\<rparr>"
| "item_apply t (ConfUint name n) = t\<lparr>t_uint := (t_uint t)(setting_var name := n)\<rparr>"
| "item_apply t (ConfOctal name n) = t\<lparr>t_uint := (t_uint t)(setting_var name := n)\<rparr>"
| "item_apply t (ConfText name before mid after) = t\<lparr>t_str := (t_str t)(setting_var name \<mapsto> mid)\<rparr>"
| "item_apply t (ConfClear name) = t\<lparr>t_str := (t_str t)(setting_var name := None)\<rparr>"
| "item_apply t (ConfNote l) = t"

lemma num_str_hd_0: "num_str 10 n ! 0 = CHR ''0'' \<longleftrightarrow> n = 0"
proof (induction n rule: less_induct)
  case (less n)
  show ?case
  proof (cases "n < 10")
    case True
    then show ?thesis by (simp add: num_str.simps [of 10 n])
  next
    case False
    then have "num_str 10 n ! 0 = num_str 10 (n div 10) ! 0"
      by (simp add: num_str.simps [of 10 n] nth_append)
    with less [of "n div 10"] False show ?thesis by simp
  qed
qed

lemma octal_roundtrip_aux: "n < 4294967296 \<Longrightarrow> vsf_sysutil_octal_to_uint (vsf_sysutil_uint_to_octal n) = n"
  using octal_loop_seen [of "num_str 8 n"] octal_loop_num_str [of n]
  by (simp add: vsf_sysutil_octal_to_uint_def vsf_sysutil_uint_to_octal_def vsf_sysutil_isdigit_def Let_def)

lemma load_uint_num: "n < 2147483648 \<Longrightarrow> load_uint_value t var (num_str 10 n) = t\<lparr>t_uint := (t_uint t)(var := n)\<rparr>"
  using num_str_hd_0 [of n] atoi_num_str [of n]
  by (auto simp: load_uint_value_def vsf_sysutil_octal_to_uint_def num_str.simps [of 10 0] Let_def vsf_sysutil_isdigit_def)

lemma load_uint_octal: "n < 4294967296 \<Longrightarrow>
    load_uint_value t var (vsf_sysutil_uint_to_octal n) = t\<lparr>t_uint := (t_uint t)(var := n)\<rparr>"
proof -
  assume n: "n < 4294967296"
  have "vsf_sysutil_uint_to_octal n \<noteq> [] \<and> vsf_sysutil_uint_to_octal n ! 0 = CHR ''0''"
    by (simp add: vsf_sysutil_uint_to_octal_def)
  with octal_roundtrip_aux [OF n] show ?thesis by (simp add: load_uint_value_def)
qed

lemma num_str_no_ctrl: "2 \<le> b \<Longrightarrow> b \<le> 10 \<Longrightarrow> NUL \<notin> set (num_str b n) \<and> LF \<notin> set (num_str b n)"
  by (auto simp: num_str_no_sep vsf_sysutil_isdigit_def)

lemma num_line_ok:
  "NUL \<notin> set (vsf_sysutil_ulong_to_str n)" "LF \<notin> set (vsf_sysutil_ulong_to_str n)" "vsf_sysutil_ulong_to_str n \<noteq> []"
  "NUL \<notin> set (vsf_sysutil_uint_to_octal n)" "LF \<notin> set (vsf_sysutil_uint_to_octal n)" "vsf_sysutil_uint_to_octal n \<noteq> []"
  using num_str_no_ctrl [of 10 n] num_str_no_ctrl [of 8 n]
  by (auto simp: vsf_sysutil_ulong_to_str_def vsf_sysutil_uint_to_octal_def)

text \<open>A word that is a boolean value in some spelling has no character that would end a line or a text.\<close>

lemma word_ok: "str_upper w \<in> set [''YES'', ''TRUE'', ''1'', ''NO'', ''FALSE'', ''0''] \<Longrightarrow> NUL \<notin> set w \<and> LF \<notin> set w \<and> w \<noteq> []"
proof -
  assume u: "str_upper w \<in> set [''YES'', ''TRUE'', ''1'', ''NO'', ''FALSE'', ''0'']"
  have ctl: "vsf_sysutil_toupper NUL = NUL" "vsf_sysutil_toupper LF = LF" by (simp_all add: vsf_sysutil_toupper_def)
  have "c \<in> set w \<Longrightarrow> vsf_sysutil_toupper c \<in> set (str_upper w)" for c by (simp add: str_upper_def)
  from this [of NUL] this [of LF] ctl u show ?thesis by (auto simp: str_upper_def)
qed

lemma load_string_setting:
  assumes "(name, var) \<in> set parseconf_str_array" and "NUL \<notin> set val"
    and "list_all vsf_sysutil_isspace sp1" and "list_all vsf_sysutil_isspace sp2" and "val = sp1 @ mid @ sp2"
    and "mid \<noteq> []" and "\<not> vsf_sysutil_isspace (hd mid)" and "\<not> vsf_sysutil_isspace (last mid)"
    and "length val \<le> INT_MAX" and "avail (length mid + 1)"
  shows "vsf_parseconf_load_setting avail t (name @ ''='' @ val) fatal = Inr (t\<lparr>t_str := (t_str t)(var \<mapsto> mid)\<rparr>)"
proof -
  note nm = name_ok [OF setting_namesI(1) [OF assms(1)]]
  have "str_strdup_trimmed avail val = Inr (Some mid)"
    unfolding assms(5) using assms by (intro trimmed_value) auto
  moreover have "val \<noteq> []" using assms(5,6) by simp
  ultimately show ?thesis
    using setting_split [OF nm(1,2,4,5), of val] assms(2) table_lookup(1) [OF assms(1)]
    by (simp add: vsf_parseconf_load_setting_def load_str_value_def)
qed

definition is_note :: "conf_item \<Rightarrow> bool" where
  "is_note x = (case x of ConfNote l \<Rightarrow> True | _ \<Rightarrow> False)"

lemma load_item:
  assumes "item_ok x" and "\<not> is_note x" and "\<forall>n \<le> 100000. avail n"
  shows "vsf_parseconf_load_setting avail t (item_line x) f = Inr (item_apply t x)"
proof (cases x)
  case (ConfBool n b w)
  with assms have v: "(n, setting_var n) \<in> set parseconf_bool_array" using entry_vars(1) by simp
  note nm = name_ok [OF setting_namesI(2) [OF v]]
  have w: "str_upper w \<in> set (if b then [''YES'', ''TRUE'', ''1''] else [''NO'', ''FALSE'', ''0''])"
    using assms(1) ConfBool by simp
  then have "str_upper w \<in> set [''YES'', ''TRUE'', ''1'', ''NO'', ''FALSE'', ''0'']" by (cases b) auto
  note wok = word_ok [OF this]
  have "load_bool_value t n (setting_var n) w f = Inr (t\<lparr>t_bool := (t_bool t)(setting_var n := b)\<rparr>)"
    using w by (cases b) (auto simp: load_bool_value_def Let_def)
  with wok setting_split [OF nm(1,2,4,5), of w] table_lookup(2) [OF v] ConfBool show ?thesis
    by (simp add: vsf_parseconf_load_setting_def)
next
  case (ConfUint n k)
  with assms have v: "(n, setting_var n) \<in> set parseconf_uint_array" using entry_vars(2) by simp
  note nm = name_ok [OF setting_namesI(3) [OF v]]
  from assms ConfUint have k: "k < 2147483648" by simp
  show ?thesis
    using num_line_ok [of k] setting_split [OF nm(1,2,4,5), of "vsf_sysutil_ulong_to_str k"] table_lookup(3) [OF v] ConfUint
      load_uint_num [OF k] by (simp add: vsf_parseconf_load_setting_def vsf_sysutil_ulong_to_str_def)
next
  case (ConfOctal n k)
  with assms have v: "(n, setting_var n) \<in> set parseconf_uint_array" using entry_vars(2) by simp
  note nm = name_ok [OF setting_namesI(3) [OF v]]
  from assms ConfOctal have k: "k < 4294967296" by simp
  show ?thesis
    using num_line_ok [of k] setting_split [OF nm(1,2,4,5), of "vsf_sysutil_uint_to_octal k"] table_lookup(3) [OF v] ConfOctal
      load_uint_octal [OF k] by (simp add: vsf_parseconf_load_setting_def)
next
  case (ConfText n before mid after)
  with assms have v: "(n, setting_var n) \<in> set parseconf_str_array" using entry_vars(3) by simp
  show ?thesis
    unfolding ConfText item_line.simps item_apply.simps
    using assms(1,3) ConfText by (intro load_string_setting [OF v _ _ _ refl]) (simp_all add: INT_MAX_def)
next
  case (ConfClear n)
  with assms have v: "(n, setting_var n) \<in> set parseconf_str_array" using entry_vars(3) by simp
  note nm = name_ok [OF setting_namesI(1) [OF v]]
  show ?thesis using setting_split [OF nm(1,2,4,5), of "[]"] table_lookup(1) [OF v] ConfClear
    by (simp add: vsf_parseconf_load_setting_def load_str_value_def)
next
  case (ConfNote l)
  with assms(2) show ?thesis by (simp add: is_note_def)
qed

lemma item_line_ok:
  assumes "item_ok x"
  shows "LF \<notin> set (item_line x)"
    and "(item_line x = [] \<or> item_line x ! 0 = CHR ''#'' \<or> str_all_space (item_line x)) = is_note x"
proof -
  have "LF \<notin> set (item_line x) \<and> (item_line x = [] \<or> item_line x ! 0 = CHR ''#'' \<or> str_all_space (item_line x)) = is_note x"
  proof (cases "is_note x")
    case True
    then show ?thesis using assms by (cases x) (auto simp: is_note_def hd_conv_nth)
  next
    case False
    obtain n v where l: "item_line x = n @ ''='' @ v" "n \<in> setting_names" "LF \<notin> set v"
    proof (cases x)
      case (ConfBool n b w)
      with assms have "str_upper w \<in> set [''YES'', ''TRUE'', ''1'', ''NO'', ''FALSE'', ''0'']" by (cases b) auto
      then show ?thesis using assms ConfBool word_ok [of w] by (intro that [of n w]) (auto simp: setting_names_def)
    next
      case (ConfUint n k)
      then show ?thesis using assms num_line_ok [of k] by (intro that [of n "vsf_sysutil_ulong_to_str k"]) (auto simp: setting_names_def)
    next
      case (ConfOctal n k)
      then show ?thesis using assms num_line_ok [of k] by (intro that [of n "vsf_sysutil_uint_to_octal k"]) (auto simp: setting_names_def)
    next
      case (ConfText n before mid after)
      then show ?thesis using assms by (intro that [of n "before @ mid @ after"]) (auto simp: setting_names_def)
    next
      case (ConfClear n)
      then show ?thesis using assms by (intro that [of n "[]"]) (auto simp: setting_names_def)
    next
      case (ConfNote l)
      with False show ?thesis by (simp add: is_note_def)
    qed
    with name_ok [OF l(2)] False show ?thesis by (cases n) (auto simp: str_all_space_def)
  qed
  then show "LF \<notin> set (item_line x)"
    and "(item_line x = [] \<or> item_line x ! 0 = CHR ''#'' \<or> str_all_space (item_line x)) = is_note x" by blast+
qed

lemma note_apply: "is_note x \<Longrightarrow> item_apply t x = t"
  by (cases x) (simp_all add: is_note_def)

lemma load_items:
  "list_all item_ok xs \<Longrightarrow> \<forall>n \<le> 100000. avail n \<Longrightarrow> load_lines avail t (map item_line xs) f = Inr (foldl item_apply t xs)"
proof (induction xs arbitrary: t)
  case (Cons x xs)
  show ?case
  proof (cases "is_note x")
    case True
    with Cons item_line_ok(2) [of x] show ?thesis by (simp add: note_apply)
  next
    case False
    with Cons item_line_ok(2) [of x] load_item [of x avail t f] show ?thesis by simp
  qed
qed simp

text \<open>
  C38: a configuration file means what its lines say. Take a regular file of at most 100000 bytes, owned by the user the
  server runs as, whose lines are boolean settings (\<^verbatim>\<open>YES\<close>, \<^verbatim>\<open>TRUE\<close>, \<^verbatim>\<open>1\<close>, \<^verbatim>\<open>NO\<close>, \<^verbatim>\<open>FALSE\<close>, \<^verbatim>\<open>0\<close> in any case),
  numbers (decimal below \<open>2 ^ 31\<close> or octal below \<open>2 ^ 32\<close>), texts between white space, empty texts, comments and blank
  lines. When memory can be had, loading it succeeds and gives the variable of each setting (the one of its name, or
  \<open>sslv2\<close>, \<open>sslv3\<close>, \<open>tlsv1\<close>) the value of its last line, a text without the white space around it and no text for an
  empty one; every other variable stays as it was.
\<close>

theorem config_file_roundtrip:
  assumes "list_all item_ok xs" and "fs f = Some i" and "vsf_sysutil_statbuf_is_regfile (st_mode i)"
    and "st_uid i = uid" and "file_data i = concat (map (\<lambda>x. item_line x @ [LF]) xs)"
    and "st_size i = int (length (file_data i))" and "length (file_data i) \<le> 100000" and "\<forall>n \<le> 100000. avail n"
  shows "vsf_parseconf_load_file avail fs uid st (Some f) fatal =
    Inr \<lparr>saved_filename = Some f, tun = foldl item_apply (tun st) xs\<rparr>"
proof -
  have "\<forall>l\<in>set (map item_line xs). LF \<notin> set l" using assms(1) by (auto simp: list_all_iff item_line_ok)
  then have "split_lines (file_data i) = map item_line xs"
    using split_lines_join [of "map item_line xs"] assms(5) by (simp add: comp_def)
  moreover have "str_fileread fs f 100000 = Inr (int (length (file_data i)), file_data i)"
    using str_fileread_regular [of fs f i 100000, OF assms(2,3,6)] assms(7) by (simp add: INT_MAX_def min_absorb1)
  ultimately show ?thesis
    using assms by (simp add: vsf_parseconf_load_file_def vsf_sysutil_retval_is_error_def str_lines_from_eq
        load_items)
qed

lemma config_file_roundtrip_witness:
  "vsf_parseconf_load_file (\<lambda>_. True)
     [''/etc/vsftpd.conf'' \<mapsto> \<lparr>st_mode = 0x81A4, st_size = 33, st_uid = 0, st_gid = 0, st_mtime = 0, st_nlink = 1,
        file_data = ''# x'' @ [LF] @ ''ssl_sslv3=yes'' @ [LF] @ ''max_clients=10'' @ [LF]\<rparr>]
     0 \<lparr>saved_filename = None, tun = tunables_load_defaults\<rparr> (Some ''/etc/vsftpd.conf'') True =
   Inr \<lparr>saved_filename = Some ''/etc/vsftpd.conf'',
        tun = tunables_load_defaults\<lparr>t_bool := (t_bool tunables_load_defaults)(''sslv3'' := True),
                t_uint := (t_uint tunables_load_defaults)(''max_clients'' := 10)\<rparr>\<rparr>"
proof -
  let ?i = "\<lparr>st_mode = 0x81A4, st_size = 33, st_uid = 0, st_gid = 0, st_mtime = 0, st_nlink = 1,
        file_data = ''# x'' @ [LF] @ ''ssl_sslv3=yes'' @ [LF] @ ''max_clients=10'' @ [LF]\<rparr>"
  have mode: "vsf_sysutil_statbuf_is_regfile 0x81A4" by code_simp
  have ten: "num_str 10 10 = ''10''" by code_simp
  have up: "str_upper ''yes'' = ''YES''" by code_simp
  show ?thesis
    using config_file_roundtrip [of "[ConfNote ''# x'', ConfBool ''ssl_sslv3'' True ''yes'', ConfUint ''max_clients'' 10]"
        "[''/etc/vsftpd.conf'' \<mapsto> ?i]" "''/etc/vsftpd.conf''" ?i 0 "\<lambda>_. True"
        "\<lparr>saved_filename = None, tun = tunables_load_defaults\<rparr>" True]
    by (simp add: mode parseconf_bool_array_def parseconf_uint_array_def vsf_sysutil_ulong_to_str_def
        ten up setting_var_def)
qed

section \<open>What a file leaves alone\<close>

text \<open>The setting a line names, as the parser isolates it.\<close>

definition line_setting :: "string \<Rightarrow> string" where
  "line_setting line = fst (str_split_char (dropWhile vsf_sysutil_isspace (c_str line)) CHR ''='')"

lemma load_setting_frame:
  assumes "vsf_parseconf_load_setting avail t line f = Inr t'"
  shows "t_bool t' v \<noteq> t_bool t v \<Longrightarrow> line_setting line \<in> fst ` set parseconf_bool_array \<and> v = setting_var (line_setting line)"
    and "t_uint t' v \<noteq> t_uint t v \<Longrightarrow> line_setting line \<in> fst ` set parseconf_uint_array \<and> v = setting_var (line_setting line)"
    and "t_str t' v \<noteq> t_str t v \<Longrightarrow> line_setting line \<in> fst ` set parseconf_str_array \<and> v = setting_var (line_setting line)"
proof -
  have found: "(n, w) \<in> set parseconf_bool_array \<or> (n, w) \<in> set parseconf_uint_array \<or> (n, w) \<in> set parseconf_str_array \<Longrightarrow>
      w = setting_var n" for n w using table_vars by blast
  obtain val where sp: "str_split_char (dropWhile vsf_sysutil_isspace (c_str line)) CHR ''='' = (line_setting line, val)"
    by (metis line_setting_def prod.collapse)
  note run = assms [unfolded vsf_parseconf_load_setting_def Let_def sp prod.case]
  have "(t_bool t' v \<noteq> t_bool t v \<longrightarrow> line_setting line \<in> fst ` set parseconf_bool_array \<and> v = setting_var (line_setting line)) \<and>
     (t_uint t' v \<noteq> t_uint t v \<longrightarrow> line_setting line \<in> fst ` set parseconf_uint_array \<and> v = setting_var (line_setting line)) \<and>
     (t_str t' v \<noteq> t_str t v \<longrightarrow> line_setting line \<in> fst ` set parseconf_str_array \<and> v = setting_var (line_setting line))"
    (is ?goal)
  proof (cases "map_of parseconf_str_array (line_setting line)")
    case (Some w)
    note w = map_of_SomeD [OF Some]
    from run Some have "t_bool t' = t_bool t" "t_uint t' = t_uint t" "\<exists>x. t_str t' = (t_str t)(w := x)"
      by (auto simp: load_str_value_def andthen_Inr_iff split: if_splits)
    with w found [of "line_setting line" w] show ?goal by (auto simp: image_iff split: if_splits intro!: bexI [OF _ w])
  next
    case str: None
    show ?goal
    proof (cases "map_of parseconf_bool_array (line_setting line)")
      case (Some w)
      note w = map_of_SomeD [OF Some]
      from run str Some have "t_str t' = t_str t" "t_uint t' = t_uint t" "t_bool t' = t_bool t \<or> (\<exists>x. t_bool t' = (t_bool t)(w := x))"
        by (auto simp: load_bool_value_def Let_def halt_simps split: if_splits)
      with w found [of "line_setting line" w] show ?goal by (auto simp: image_iff split: if_splits intro!: bexI [OF _ w])
    next
      case bool: None
      show ?goal
      proof (cases "map_of parseconf_uint_array (line_setting line)")
        case (Some w)
        note w = map_of_SomeD [OF Some]
        from run str bool Some have "t_str t' = t_str t" "t_bool t' = t_bool t" "t_uint t' = t_uint t \<or> (\<exists>x. t_uint t' = (t_uint t)(w := x))"
          by (auto simp: load_uint_value_def Let_def halt_simps split: if_splits)
        with w found [of "line_setting line" w] show ?goal by (auto simp: image_iff split: if_splits intro!: bexI [OF _ w])
      next
        case None
        with run str bool have "t' = t" by (auto simp: halt_simps split: if_splits)
        then show ?goal by simp
      qed
    qed
  qed
  then show "t_bool t' v \<noteq> t_bool t v \<Longrightarrow> line_setting line \<in> fst ` set parseconf_bool_array \<and> v = setting_var (line_setting line)"
    and "t_uint t' v \<noteq> t_uint t v \<Longrightarrow> line_setting line \<in> fst ` set parseconf_uint_array \<and> v = setting_var (line_setting line)"
    and "t_str t' v \<noteq> t_str t v \<Longrightarrow> line_setting line \<in> fst ` set parseconf_str_array \<and> v = setting_var (line_setting line)"
    by blast+
qed

text \<open>The lines among \<open>ls\<close> that name the variable \<open>v\<close> in the given table.\<close>

definition named_in :: "(string \<times> string) list \<Rightarrow> string list \<Rightarrow> string \<Rightarrow> bool" where
  "named_in arr ls v \<longleftrightarrow> (\<exists>line \<in> set ls. line_setting line \<in> fst ` set arr \<and> v = setting_var (line_setting line))"

lemma load_lines_frame:
  assumes "load_lines avail t ls f = Inr t'"
  shows "(t_bool t' v \<noteq> t_bool t v \<longrightarrow> named_in parseconf_bool_array ls v) \<and>
    (t_uint t' v \<noteq> t_uint t v \<longrightarrow> named_in parseconf_uint_array ls v) \<and>
    (t_str t' v \<noteq> t_str t v \<longrightarrow> named_in parseconf_str_array ls v)"
  using assms
proof (induction ls arbitrary: t)
  case (Cons l ls)
  show ?case
  proof (cases "l = [] \<or> l ! 0 = CHR ''#'' \<or> str_all_space l")
    case True
    with Cons.prems have "load_lines avail t ls f = Inr t'" by simp
    from Cons.IH [OF this] show ?thesis by (auto simp: named_in_def)
  next
    case False
    with Cons.prems obtain t1 where t1: "vsf_parseconf_load_setting avail t l f = Inr t1" "load_lines avail t1 ls f = Inr t'"
      by (auto simp: andthen_Inr_iff)
    have ex: "(\<exists>line \<in> set (l # ls). P line) \<longleftrightarrow> P l \<or> (\<exists>line \<in> set ls. P line)" for P by simp
    show ?thesis
      using Cons.IH [OF t1(2)] load_setting_frame [OF t1(1), of v] unfolding named_in_def ex by (intro conjI impI; metis)
  qed
qed simp

text \<open>
  C40: a configuration file, whatever is in it, changes nothing it does not name. When loading it returns, whether
  errors are fatal or not, a variable whose value differs from before is the variable of a setting, of that kind, that
  one of the lines read from the file names; a file that cannot be read changes nothing.
\<close>

theorem config_file_frame:
  assumes "vsf_parseconf_load_file avail fs uid st (Some f) fatal = Inr st'"
    and "str_fileread fs f 100000 = Inr (n, txt)" and "ls = (if n < 0 then [] else split_lines txt)"
  shows "(t_bool (tun st') v = t_bool (tun st) v \<or> named_in parseconf_bool_array ls v) \<and>
    (t_uint (tun st') v = t_uint (tun st) v \<or> named_in parseconf_uint_array ls v) \<and>
    (t_str (tun st') v = t_str (tun st) v \<or> named_in parseconf_str_array ls v) \<and> saved_filename st' = Some f"
proof (cases "n < 0")
  case True
  with assms have "st' = st\<lparr>saved_filename := Some f\<rparr>"
    by (auto simp: vsf_parseconf_load_file_def vsf_sysutil_retval_is_error_def halt_simps split: if_splits)
  then show ?thesis by simp
next
  case False
  with assms obtain t where t: "load_lines avail (tun st) (split_lines txt) fatal = Inr t" "st' = \<lparr>saved_filename = Some f, tun = t\<rparr>"
    by (auto simp: vsf_parseconf_load_file_def vsf_sysutil_retval_is_error_def halt_simps str_lines_from_eq andthen_Inr_iff Let_def
        split: if_splits option.splits)
  from load_lines_frame [OF t(1), of v] t(2) False assms(3) show ?thesis by auto
qed

lemma config_file_frame_witness:
  "\<exists>st'. vsf_parseconf_load_file (\<lambda>_. True) (\<lambda>_. None) 0 \<lparr>saved_filename = None, tun = tunables_load_defaults\<rparr> (Some ''/f'') False =
     Inr st' \<and> t_bool (tun st') ''write_enable'' = t_bool tunables_load_defaults ''write_enable''"
proof -
  have r: "str_fileread (\<lambda>_. None) ''/f'' 100000 = Inr (-1, [])" by (simp add: str_fileread_def)
  then have l: "vsf_parseconf_load_file (\<lambda>_. True) (\<lambda>_. None) 0 \<lparr>saved_filename = None, tun = tunables_load_defaults\<rparr> (Some ''/f'') False =
      Inr \<lparr>saved_filename = Some ''/f'', tun = tunables_load_defaults\<rparr>"
    by (simp add: vsf_parseconf_load_file_def vsf_sysutil_retval_is_error_def)
  from config_file_frame [OF l r refl, of "''write_enable''"] l show ?thesis by (simp add: named_in_def)
qed

text \<open>
  A name that is in none of the tables stops the server with a message that names it when errors are fatal
  (start-up) and changes nothing otherwise (per-user files, reload on SIGHUP).
\<close>

theorem load_unknown_setting:
  assumes "name \<notin> setting_names" and "name \<noteq> []" and "\<not> vsf_sysutil_isspace (hd name)" and "CHR ''='' \<notin> set name"
    and "NUL \<notin> set name" and "NUL \<notin> set val" and "val \<noteq> []"
  shows "vsf_parseconf_load_setting avail t (name @ ''='' @ val) fatal =
    (if fatal then Inl (Bug (''unrecognised variable in config file: '' @ name)) else Inr t)"
proof -
  have "map_of parseconf_str_array name = None" "map_of parseconf_bool_array name = None"
    "map_of parseconf_uint_array name = None"
    using assms(1) by (simp_all add: setting_names_def map_of_eq_None_iff)
  with setting_split [OF assms(2,3,4,5,6)] assms(7) show ?thesis
    by (simp add: vsf_parseconf_load_setting_def halt_simps)
qed

lemma load_unknown_setting_witness:
  "vsf_parseconf_load_setting (\<lambda>_. True) tunables_load_defaults (''Write_enable'' @ ''='' @ ''YES'') True =
     Inl (Bug (''unrecognised variable in config file: '' @ ''Write_enable''))"
proof -
  have "''Write_enable'' \<notin> setting_names"
    by (simp add: setting_names_def parseconf_str_array_def parseconf_bool_array_def parseconf_uint_array_def)
  then show ?thesis
    using load_unknown_setting [of "''Write_enable''" "''YES''" "\<lambda>_. True" tunables_load_defaults True]
    by (simp add: vsf_sysutil_isspace_def)
qed

end
