(* ===== verification/Lsfilter.thy ===== *)
theory Lsfilter
  imports Str
begin

text \<open>
  \<open>vsf_filename_passes_filter\<close> of \<^verbatim>\<open>ls.c\<close>: matching a file name against a pattern with \<^verbatim>\<open>*\<close>, \<^verbatim>\<open>?\<close> and
  \<^verbatim>\<open>{,}\<close>. The counter of turns is threaded through the recursion, as the pointer \<open>iters\<close> is. A pattern is
  given its meaning by the relation \<open>glob\<close>.
\<close>

section \<open>The code\<close>

abbreviation VSFTP_MATCHITERS_MAX :: nat where "VSFTP_MATCHITERS_MAX \<equiv> 1000"

lemma str_mid_to_end_Inr: "str_mid_to_end s n = Inr t \<longleftrightarrow> n \<le> length s \<and> t = drop n s"
  by (auto simp: str_mid_to_end_def halt_simps)

lemma locate_str_found:
  assumes "found (str_locate_str s t)"
  shows "c_str t \<noteq> []" and "prefix (c_str t) (drop (index (str_locate_str s t)) s)"
    and "\<And>j. j < index (str_locate_str s t) \<Longrightarrow> \<not> prefix (c_str t) (drop j s)"
proof -
  show ne: "c_str t \<noteq> []"
    using assms by (auto simp: str_locate_str_def str_locate_text_def)
  show "prefix (c_str t) (drop (index (str_locate_str s t)) s)"
    "\<And>j. j < index (str_locate_str s t) \<Longrightarrow> \<not> prefix (c_str t) (drop j s)"
    using assms by (cases rule: str_locate_text_cases [OF ne, of s]; simp add: str_locate_str_def)+
qed

text \<open>The inner loop that advances to the last place the text matches.\<close>

function scan_greedy :: "string \<Rightarrow> string \<Rightarrow> nat \<Rightarrow> nat result" where
  "scan_greedy scan_fwd needed indexx =
     (let r = str_locate_str scan_fwd needed in
      if found r
      then andthen (str_mid_to_end scan_fwd (index r + length needed)) (\<lambda>s.
           scan_greedy s needed (indexx + (index r + length needed)))
      else Inr indexx)"
  by pat_completeness auto
termination
proof (relation "measure (\<lambda>(s, n, i). length s)")
  fix scan_fwd needed s :: string and indexx r
  assume r: "r = str_locate_str scan_fwd needed" "found r" "str_mid_to_end scan_fwd (index r + length needed) = Inr s"
  then have "c_str needed \<noteq> []" using locate_str_found by blast
  then have "needed \<noteq> []" by auto
  moreover from r(3) have "index r + length needed \<le> length scan_fwd" "s = drop (index r + length needed) scan_fwd"
    by (simp_all add: str_mid_to_end_Inr)
  ultimately show "((s, needed, indexx + (index r + length needed)), scan_fwd, needed, indexx)
      \<in> measure (\<lambda>(s, n, i). length s)"
    by (cases needed) auto
qed auto

declare scan_greedy.simps [simp del]

text \<open>
  Matching the plain text before the next token: the rest of the name, or \<open>None\<close> for \<^verbatim>\<open>goto out\<close>.
\<close>

definition match_needed :: "string \<Rightarrow> string \<Rightarrow> bool \<Rightarrow> string option result" where
  "match_needed name needed must_match_at_current_pos =
     (if needed = [] then Inr (Some name)
      else let r = str_locate_str name needed in
        if \<not> found r then Inr None
        else if must_match_at_current_pos \<and> index r > 0 then Inr None
        else andthen (if \<not> must_match_at_current_pos
                      then andthen (str_mid_to_end name (index r + length needed)) (\<lambda>s.
                           scan_greedy s needed (index r))
                      else Inr (index r)) (\<lambda>indexx.
             andthen (str_mid_to_end name (indexx + length needed)) (\<lambda>n. Inr (Some n))))"

text \<open>The text before the next token, the filter behind it, and the token (NUL when there is none).\<close>

definition next_token :: "string \<Rightarrow> string \<times> string \<times> char" where
  "next_token filt =
     (let r = str_locate_chars filt ''*?{'' in
      if found r then (take (index r) filt, drop (index r + 1) filt, char_found r) else (filt, [], NUL))"

lemma locate_chars_loop_eq:
  "locate_chars_loop i s cs =
     (case dropWhile (\<lambda>c. c \<notin> set cs) s of
        [] \<Rightarrow> locate_miss
      | c # r \<Rightarrow> \<lparr>found = True, index = i + length (takeWhile (\<lambda>c. c \<notin> set cs) s), char_found = c\<rparr>)"
  by (induction s arbitrary: i) (auto split: list.splits simp del: dropWhile_eq_Nil_conv)

abbreviation plain :: "char \<Rightarrow> bool" where
  "plain c \<equiv> c \<noteq> CHR ''*'' \<and> c \<noteq> CHR ''?'' \<and> c \<noteq> CHR ''{''"

lemma next_token_eq:
  "next_token f = (case dropWhile plain f of [] \<Rightarrow> (f, [], NUL) | c # r \<Rightarrow> (takeWhile plain f, r, c))"
proof (cases "dropWhile plain f")
  case Nil
  then show ?thesis
    by (simp add: next_token_def str_locate_chars_def locate_chars_loop_eq c_str_def del: dropWhile_eq_Nil_conv)
next
  case (Cons c r)
  have f: "f = takeWhile plain f @ c # r" using takeWhile_dropWhile_id [of plain f] Cons by simp
  then have "drop (Suc (length (takeWhile plain f))) f = r" "take (length (takeWhile plain f)) f = takeWhile plain f"
    by (metis append_eq_conv_conj drop_Suc list.sel(3) tl_drop, metis append_eq_conv_conj)
  with Cons show ?thesis by (simp add: next_token_def str_locate_chars_def locate_chars_loop_eq c_str_def)
qed

lemma next_token_cases:
  obtains (none) "next_token f = (f, [], NUL)" "list_all plain f"
  | (token) n c r where "next_token f = (n, r, c)" "f = n @ c # r" "list_all plain n" "\<not> plain c"
proof (cases "dropWhile plain f")
  case Nil
  then have "next_token f = (f, [], NUL)" by (simp add: next_token_eq del: dropWhile_eq_Nil_conv)
  moreover have "list_all plain f" using Nil by (simp add: list_all_iff)
  ultimately show ?thesis by (rule none)
next
  case (Cons c r)
  have "f = takeWhile plain f @ c # r" using takeWhile_dropWhile_id [of plain f] Cons by simp
  moreover have "\<not> plain c" using hd_dropWhile [of plain f] Cons by simp
  moreover have "list_all plain (takeWhile plain f)" by (auto simp: list_all_iff dest: set_takeWhileD)
  moreover have "next_token f = (takeWhile plain f, r, c)" using Cons by (simp add: next_token_eq)
  ultimately show ?thesis by (intro token)
qed

lemma next_token_shorter: "next_token f = (n, r, c) \<Longrightarrow> f \<noteq> [] \<Longrightarrow> length r < length f"
  by (cases rule: next_token_cases [of f]) auto

lemma split_char_length:
  assumes "str_split_char s c = (l, r)"
  shows "length l + length r \<le> length s"
proof (cases "c = NUL")
  case True
  then have "str_split_char s c = (s, [])" by (simp add: str_split_char_def str_split_text_empty c_str_def)
  with assms show ?thesis by simp
next
  case False
  then have "l = takeWhile (\<lambda>x. x \<noteq> c) s" "r = tl (dropWhile (\<lambda>x. x \<noteq> c) s)"
    using assms by (simp_all add: str_split_char_eq)
  moreover have "length (takeWhile (\<lambda>x. x \<noteq> c) s) + length (dropWhile (\<lambda>x. x \<noteq> c) s) = length s"
    by (metis length_append takeWhile_dropWhile_id)
  ultimately show ?thesis by simp
qed

lemma split_brace_length:
  assumes "next_token f = (n, rest, CHR ''{'')" and "str_split_char rest CHR ''}'' = (bl, rest')"
    and "str_split_char bl CHR '','' = (b, t)"
  shows "length b + length t + length rest' < length f"
proof -
  have "length f = Suc (length n + length rest)"
    using assms(1) by (cases rule: next_token_cases [of f]) auto
  with split_char_length [OF assms(2)] split_char_length [OF assms(3)] show ?thesis by simp
qed

text \<open>
  The main loop and, mutually recursive with it, the loop over the alternatives of a brace. Both return the result
  and the counter; a match function call on a new filter starts the main loop afresh.
\<close>

function filter_loop :: "string \<Rightarrow> string \<Rightarrow> char \<Rightarrow> bool \<Rightarrow> nat \<Rightarrow> (bool \<times> nat) result"
  and brace_loop :: "string \<Rightarrow> string \<Rightarrow> string \<Rightarrow> string \<Rightarrow> nat \<Rightarrow> (bool \<times> nat) result"
where
  "filter_loop filt name last_token must_match iters =
     (if filt \<noteq> [] \<and> iters < VSFTP_MATCHITERS_MAX
      then (case next_token filt of (needed, rest, token) \<Rightarrow>
        andthen (match_needed name needed must_match) (\<lambda>m.
        case m of
          None \<Rightarrow> Inr (False, iters + 1)
        | Some name' \<Rightarrow>
            if token = CHR ''?''
            then if name' = [] then Inr (False, iters + 1)
                 else filter_loop rest (tl name') token True (iters + 1)
            else if token = CHR ''{''
            then if found (str_locate_char rest CHR ''}'')
                 then (case str_split_char rest CHR ''}'' of (brace_list, rest') \<Rightarrow>
                   case str_split_char brace_list CHR '','' of (b, t) \<Rightarrow>
                   brace_loop b t rest' name' (iters + 1))
                 else if name' = [] \<or> name' ! 0 \<noteq> CHR ''{'' then Inr (False, iters + 1)
                 else filter_loop rest (tl name') token True (iters + 1)
            else filter_loop rest name' token False (iters + 1)))
      else Inr (if length name > 0 \<and> last_token \<noteq> CHR ''*'' then False else iters \<noteq> VSFTP_MATCHITERS_MAX, iters))"
| "brace_loop b t rest name iters =
     (if b \<noteq> []
      then andthen (filter_loop (b @ rest) name NUL True iters) (\<lambda>(ret, it).
           if ret then Inr (True, it)
           else (case str_split_char t CHR '','' of (b', t') \<Rightarrow> brace_loop b' t' rest name it))
      else Inr (False, iters))"
  by pat_completeness auto
termination
proof (relation "measure (\<lambda>x. case x of Inl (f, n, l, m, i) \<Rightarrow> 2 * length f
                               | Inr (b, t, r, n, i) \<Rightarrow> 2 * (length b + length t + length r) + 1)", goal_cases)
  case 1
  show ?case by simp
next
  case (2 filt name l m i x y xa ya a x2)
  then have "next_token filt = (x, xa, ya)" "filt \<noteq> []" by auto
  then show ?case using next_token_shorter by simp
next
  case (3 filt name l m i x y xa ya a x2 xb yb xc yc)
  then have "next_token filt = (x, xa, CHR ''{'')" "str_split_char xa CHR ''}'' = (xb, yb)"
    "str_split_char xb CHR '','' = (xc, yc)" by auto
  then show ?case using split_brace_length by fastforce
next
  case (4 filt name l m i x y xa ya a x2)
  then have "next_token filt = (x, xa, ya)" "filt \<noteq> []" by auto
  then show ?case using next_token_shorter by simp
next
  case (5 filt name l m i x y xa ya a x2)
  then have "next_token filt = (x, xa, ya)" "filt \<noteq> []" by auto
  then show ?case using next_token_shorter by simp
next
  case 6
  show ?case by simp
next
  case (7 b t rest name i a x y xa ya)
  then have "length xa + length ya \<le> length t" "b \<noteq> []" using split_char_length by auto
  then show ?case by (cases b) auto
qed

declare filter_loop.simps [simp del] brace_loop.simps [simp del]

definition vsf_filename_passes_filter :: "string \<Rightarrow> string \<Rightarrow> nat \<Rightarrow> (bool \<times> nat) result" where
  "vsf_filename_passes_filter p_filename_str p_filter_str iters =
     filter_loop p_filter_str p_filename_str NUL True iters"

section \<open>The meaning of a pattern\<close>

text \<open>The pieces of a text between its commas.\<close>

function commas :: "string \<Rightarrow> string list" where
  "commas s = (case str_split_char s CHR '','' of (l, r) \<Rightarrow> if r = [] then [l, r] else l # commas r)"
  by pat_completeness auto
termination
proof (relation "measure length", goal_cases)
  case (2 s l r)
  then have "str_split_text s '','' = (l, r)" by (simp add: str_split_char_def)
  then show ?case using 2 str_split_text_shorter [of s "'',''" l r] by simp
qed simp

declare commas.simps [simp del]

inductive glob :: "string \<Rightarrow> string \<Rightarrow> bool" where
  empty: "glob [] []"
| literal: "plain c \<Longrightarrow> glob f n \<Longrightarrow> glob (c # f) (c # n)"
| any_char: "glob f n \<Longrightarrow> glob (CHR ''?'' # f) (c # n)"
| any_text: "glob f n \<Longrightarrow> glob (CHR ''*'' # f) (xs @ n)"
| choice: "CHR ''}'' \<notin> set l \<Longrightarrow> a \<in> set (commas l) \<Longrightarrow> glob (a @ f) n \<Longrightarrow> glob (CHR ''{'' # l @ CHR ''}'' # f) n"
| open_brace: "CHR ''}'' \<notin> set f \<Longrightarrow> glob f n \<Longrightarrow> glob (CHR ''{'' # f) (CHR ''{'' # n)"

inductive_cases glob_NilE [elim!]: "glob [] n"

lemma glob_plain: "list_all plain p \<Longrightarrow> glob f n \<Longrightarrow> glob (p @ f) (p @ n)"
  by (induction p) (auto intro: literal)

section \<open>One turn of the loop\<close>

lemma filter_loop_Inr:
  assumes "filter_loop f n l m it = Inr (r, it')"
  obtains (stop) "f = [] \<or> \<not> it < VSFTP_MATCHITERS_MAX" "it' = it"
      "r = (if n \<noteq> [] \<and> l \<noteq> CHR ''*'' then False else it \<noteq> VSFTP_MATCHITERS_MAX)"
  | (fails) "it < VSFTP_MATCHITERS_MAX" "\<not> r" "it' = it + 1"
  | (question) needed rest c k where "f \<noteq> [] \<and> it < VSFTP_MATCHITERS_MAX" "next_token f = (needed, rest, CHR ''?'')"
      "match_needed n needed m = Inr (Some (c # k))" "filter_loop rest k CHR ''?'' True (it + 1) = Inr (r, it')"
  | (brace) needed rest k bl rest' b t where "f \<noteq> [] \<and> it < VSFTP_MATCHITERS_MAX"
      "next_token f = (needed, rest, CHR ''{'')"
      "match_needed n needed m = Inr (Some k)" "found (str_locate_char rest CHR ''}'')"
      "str_split_char rest CHR ''}'' = (bl, rest')" "str_split_char bl CHR '','' = (b, t)"
      "brace_loop b t rest' k (it + 1) = Inr (r, it')"
  | (lone_brace) needed rest k where "f \<noteq> [] \<and> it < VSFTP_MATCHITERS_MAX"
      "next_token f = (needed, rest, CHR ''{'')" "\<not> found (str_locate_char rest CHR ''}'')"
      "match_needed n needed m = Inr (Some (CHR ''{'' # k))" "filter_loop rest k CHR ''{'' True (it + 1) = Inr (r, it')"
  | (other) needed rest tok k where "f \<noteq> [] \<and> it < VSFTP_MATCHITERS_MAX" "next_token f = (needed, rest, tok)"
      "tok \<noteq> CHR ''?''" "tok \<noteq> CHR ''{''"
      "match_needed n needed m = Inr (Some k)" "filter_loop rest k tok False (it + 1) = Inr (r, it')"
proof (cases "f \<noteq> [] \<and> it < VSFTP_MATCHITERS_MAX")
  case False
  then have "(if n \<noteq> [] \<and> l \<noteq> CHR ''*'' then False else it \<noteq> VSFTP_MATCHITERS_MAX, it) = (r, it')"
    using assms unfolding filter_loop.simps [of f n l m it] by (simp only: if_False length_greater_0_conv sum.inject)
  moreover have "f = [] \<or> \<not> it < VSFTP_MATCHITERS_MAX" using False by blast
  ultimately show ?thesis by (intro stop) auto
next
  case live: True
  obtain needed rest tok where nt: "next_token f = (needed, rest, tok)" by (cases "next_token f") auto
  obtain x where x: "match_needed n needed m = Inr x"
    using assms live nt unfolding filter_loop.simps [of f n l m it]
    by (cases "match_needed n needed m") simp_all
  show ?thesis
  proof (cases x)
    case None
    with assms live nt x fails show ?thesis unfolding filter_loop.simps [of f n l m it] by simp
  next
    case (Some k)
    note run = assms [unfolded filter_loop.simps [of f n l m it]] and st = live nt x Some
    consider "tok = CHR ''?''" | "tok = CHR ''{''" "found (str_locate_char rest CHR ''}'')"
      | "tok = CHR ''{''" "\<not> found (str_locate_char rest CHR ''}'')" | "tok \<noteq> CHR ''?''" "tok \<noteq> CHR ''{''" by blast
    then show ?thesis
    proof cases
      case 1
      with run st fails question show ?thesis by (cases k) auto
    next
      case 2
      obtain bl rest' b t where "str_split_char rest CHR ''}'' = (bl, rest')" "str_split_char bl CHR '','' = (b, t)"
        by (metis surj_pair)
      with 2 run st brace show ?thesis by simp
    next
      case 3
      with run st fails lone_brace show ?thesis by (cases k) (auto split: if_splits)
    next
      case 4
      with run st other show ?thesis by simp
    qed
  qed
qed

lemma brace_loop_Inr:
  assumes "brace_loop b t rest n it = Inr (r, it')"
  obtains (over) "b = []" "\<not> r" "it' = it"
  | (hit) "b \<noteq> []" "filter_loop (b @ rest) n NUL True it = Inr (True, it')" "r"
  | (miss) it1 b' t' where "b \<noteq> []" "filter_loop (b @ rest) n NUL True it = Inr (False, it1)"
      "str_split_char t CHR '','' = (b', t')" "brace_loop b' t' rest n it1 = Inr (r, it')"
  using assms
  by (simp add: brace_loop.simps [of b] andthen_Inr_iff split: if_splits prod.splits) (metis surj_pair)

section \<open>Matching plain text\<close>

lemma scan_greedy_pos:
  assumes "scan_greedy s needed i = Inr j" and "s = drop (i + length needed) name" and "prefix needed (drop i name)"
    and "NUL \<notin> set needed"
  shows "prefix needed (drop j name)"
  using assms
proof (induction s needed i rule: scan_greedy.induct)
  case (1 s needed i)
  let ?r = "str_locate_str s needed"
  show ?case
  proof (cases "found ?r")
    case False
    with "1.prems"(1,3) show ?thesis by (simp add: scan_greedy.simps [of s needed i])
  next
    case True
    then obtain s' where s': "str_mid_to_end s (index ?r + length needed) = Inr s'"
      "scan_greedy s' needed (i + (index ?r + length needed)) = Inr j"
      using "1.prems"(1) by (auto simp: scan_greedy.simps [of s needed i] Let_def andthen_Inr_iff)
    have "prefix needed (drop (index ?r) s)" using locate_str_found(2) [OF True] "1.prems"(4) by simp
    then have "prefix needed (drop (i + (index ?r + length needed)) name)"
      using "1.prems"(2) by (simp add: ac_simps)
    moreover have "s' = drop (i + (index ?r + length needed) + length needed) name"
      using s'(1) "1.prems"(2) by (simp add: str_mid_to_end_Inr add_ac)
    ultimately show ?thesis using "1.IH" [OF refl True s'(1) s'(2)] "1.prems"(4) by blast
  qed
qed

lemma match_needed_Some:
  assumes "match_needed name needed must = Inr (Some k)" and "NUL \<notin> set needed"
  shows "\<exists>xs. name = xs @ needed @ k \<and> (must \<longrightarrow> xs = [])"
proof (cases "needed = []")
  case True
  with assms show ?thesis by (simp add: match_needed_def)
next
  case False
  let ?r = "str_locate_str name needed"
  from assms(1) False have fnd: "found ?r" and pos: "must \<longrightarrow> index ?r = 0"
    by (auto simp: match_needed_def Let_def split: if_splits)
  have at: "prefix needed (drop (index ?r) name)" using locate_str_found(2) [OF fnd] assms(2) by simp
  obtain j where j: "prefix needed (drop j name)" "k = drop (j + length needed) name" "must \<longrightarrow> j = 0"
    using assms False fnd pos at
    by (auto simp: match_needed_def Let_def andthen_Inr_iff str_mid_to_end_Inr split: if_splits
        intro: scan_greedy_pos)
  then have "name = take j name @ needed @ k"
    using prefix_drop_append [OF j(1)] by (metis append_take_drop_id drop_drop add.commute)
  with j(3) show ?thesis by (intro exI [of _ "take j name"]) simp
qed

lemma found_locate_char:
  assumes "c \<noteq> NUL"
  shows "found (str_locate_char s c) \<longleftrightarrow> c \<in> set s"
proof -
  have c: "c_str [c] = [c]" using assms by simp
  then have ne: "c_str [c] \<noteq> []" by simp
  show ?thesis
  proof (cases rule: str_locate_text_cases [OF ne, of s])
    case (1 k)
    then have "c \<in> set (drop k s)" by (cases "drop k s") (auto simp: c)
    with 1(1) show ?thesis by (auto simp: str_locate_char_def dest: in_set_dropD)
  next
    case 2
    have "c \<notin> set s"
    proof
      assume "c \<in> set s"
      then obtain l r where "s = l @ c # r" by (auto dest: split_list)
      with 2(2) [of "length l"] show False by (simp add: c)
    qed
    with 2(1) show ?thesis by (simp add: str_locate_char_def)
  qed
qed

lemma commas_split:
  assumes "str_split_char s CHR '','' = (l, r)" and "a \<in> set (l # commas r)"
  shows "a \<in> set (commas s)"
proof (cases "r = []")
  case True
  have "str_split_char [] CHR '','' = ([], [])" by (simp add: str_split_char_eq)
  then have "set (commas []) = {[]}" by (simp add: commas.simps [of "[]"])
  with assms True show ?thesis by (auto simp: commas.simps [of s])
next
  case False
  with assms show ?thesis by (auto simp: commas.simps [of s])
qed

lemma split_brace:
  assumes "found (str_locate_char s CHR ''}'')" and "str_split_char s CHR ''}'' = (l, r)"
  shows "s = l @ CHR ''}'' # r" and "CHR ''}'' \<notin> set l"
proof -
  have "CHR ''}'' \<in> set s" using assms(1) by (simp add: found_locate_char)
  then obtain x y where s: "s = x @ CHR ''}'' # y" "CHR ''}'' \<notin> set x" by (auto dest: split_list_first)
  then have "str_split_char s CHR ''}'' = (x, y)" by (simp add: str_split_char_hit)
  with assms(2) s show "s = l @ CHR ''}'' # r" "CHR ''}'' \<notin> set l" by simp_all
qed

section \<open>Soundness\<close>

text \<open>What a positive answer of the main loop says, at any point of the match.\<close>

definition matched :: "string \<Rightarrow> string \<Rightarrow> char \<Rightarrow> bool \<Rightarrow> bool" where
  "matched f n l must \<longleftrightarrow>
     (if f = [] then n = [] \<or> l = CHR ''*'' else \<exists>xs k. n = xs @ k \<and> (must \<longrightarrow> xs = []) \<and> glob f k)"

lemma matched_glob: "matched f k l True \<Longrightarrow> l \<noteq> CHR ''*'' \<Longrightarrow> glob f k"
  by (auto simp: matched_def intro: glob.empty split: if_splits)

lemma matched_star: "matched f n CHR ''*'' False \<Longrightarrow> glob (CHR ''*'' # f) n"
  using any_text [OF glob.empty, of n] by (auto simp: matched_def intro: any_text split: if_splits)

lemma matched_step:
  assumes "match_needed n needed m = Inr (Some k)" and "NUL \<notin> set needed" and "list_all plain needed"
    and "glob g k" and "f = needed @ g" and "f \<noteq> []"
  shows "matched f n l m"
  using match_needed_Some [OF assms(1,2)] glob_plain [OF assms(3,4)] assms(5,6) by (auto simp: matched_def)

definition filter_good :: "string \<Rightarrow> string \<Rightarrow> char \<Rightarrow> bool \<Rightarrow> nat \<Rightarrow> bool \<Rightarrow> nat \<Rightarrow> bool" where
  "filter_good f n l m it r it' \<longleftrightarrow> it \<le> VSFTP_MATCHITERS_MAX \<longrightarrow>
     it' \<le> VSFTP_MATCHITERS_MAX \<and> (r \<longrightarrow> NUL \<notin> set f \<longrightarrow> matched f n l m)"

definition brace_good :: "string \<Rightarrow> string \<Rightarrow> string \<Rightarrow> string \<Rightarrow> nat \<Rightarrow> bool \<Rightarrow> nat \<Rightarrow> bool" where
  "brace_good b t rest n it r it' \<longleftrightarrow> it \<le> VSFTP_MATCHITERS_MAX \<longrightarrow>
     it' \<le> VSFTP_MATCHITERS_MAX \<and>
     (r \<longrightarrow> NUL \<notin> set b \<union> set t \<union> set rest \<longrightarrow> (\<exists>a \<in> set (b # commas t). glob (a @ rest) n))"

text \<open>Every run of the two loops on arguments of a size below \<open>M\<close> is good.\<close>

definition good_below :: "nat \<Rightarrow> bool" where
  "good_below M \<longleftrightarrow>
     (\<forall>f n l m it r it'. 2 * length f < M \<longrightarrow> filter_loop f n l m it = Inr (r, it') \<longrightarrow> filter_good f n l m it r it') \<and>
     (\<forall>b t rest n it r it'. 2 * (length b + length t + length rest) + 1 < M \<longrightarrow>
        brace_loop b t rest n it = Inr (r, it') \<longrightarrow> brace_good b t rest n it r it')"

lemma good_belowD:
  "good_below M \<Longrightarrow> 2 * length f < M \<Longrightarrow> filter_loop f n l m it = Inr (r, it') \<Longrightarrow> filter_good f n l m it r it'"
  "good_below M \<Longrightarrow> 2 * (length b + length t + length rest) + 1 < M \<Longrightarrow>
     brace_loop b t rest n it = Inr (r, it') \<Longrightarrow> brace_good b t rest n it r it'"
  unfolding good_below_def by blast+

lemma next_token_parts:
  assumes "next_token f = (needed, rest, c)"
  shows "list_all plain needed" and "f = needed @ c # rest \<and> \<not> plain c \<or> f = needed \<and> rest = [] \<and> c = NUL"
  using assms by (cases rule: next_token_cases [of f]; auto)+

lemma split_char_sets: "c \<noteq> NUL \<Longrightarrow> str_split_char s c = (l, r) \<Longrightarrow> set l \<union> set r \<subseteq> set s"
proof -
  assume "c \<noteq> NUL" "str_split_char s c = (l, r)"
  then have lr: "l = takeWhile (\<lambda>x. x \<noteq> c) s" "r = tl (dropWhile (\<lambda>x. x \<noteq> c) s)" by (simp_all add: str_split_char_eq)
  have "set (tl xs) \<subseteq> set xs" for xs :: string by (cases xs) auto
  with lr show ?thesis by (auto dest: set_takeWhileD set_dropWhileD)
qed

lemma filter_turn_good:
  assumes good: "good_below (2 * length f)" and run: "filter_loop f n l m it = Inr (r, it')"
  shows "filter_good f n l m it r it'"
  using run
proof (cases rule: filter_loop_Inr)
  case (question needed rest c k)
  have f: "f = needed @ CHR ''?'' # rest" "list_all plain needed" using next_token_parts [OF question(2)] by auto
  then have g: "filter_good rest k CHR ''?'' True (it + 1) r it'"
    using question(4) by (intro good_belowD(1) [OF good]) auto
  have "glob (CHR ''?'' # rest) (c # k)" if "matched rest k CHR ''?'' True"
    using that by (intro any_char matched_glob) auto
  with g question(1,3) f show ?thesis by (auto simp: filter_good_def intro: matched_step)
next
  case (brace needed rest k bl rest' b t)
  have f: "f = needed @ CHR ''{'' # rest" "list_all plain needed" using next_token_parts [OF brace(2)] by auto
  have g: "brace_good b t rest' k (it + 1) r it'"
    using split_brace_length [OF brace(2,5,6)] by (intro good_belowD(2) [OF good _ brace(7)]) simp
  note sp = split_brace [OF brace(4,5)]
  have "glob (CHR ''{'' # bl @ CHR ''}'' # rest') k" if "a \<in> set (b # commas t)" "glob (a @ rest') k" for a
    using that commas_split [OF brace(6)] sp(2) by (intro choice)
  with g brace(1,3) f sp(1) split_char_sets [OF _ brace(6)] show ?thesis
    by (auto simp: filter_good_def brace_good_def intro!: matched_step [where g = "CHR ''{'' # rest"])
next
  case (lone_brace needed rest k)
  have f: "f = needed @ CHR ''{'' # rest" "list_all plain needed" using next_token_parts [OF lone_brace(2)] by auto
  then have g: "filter_good rest k CHR ''{'' True (it + 1) r it'"
    using lone_brace(5) by (intro good_belowD(1) [OF good]) auto
  have "glob (CHR ''{'' # rest) (CHR ''{'' # k)" if "matched rest k CHR ''{'' True"
    using that lone_brace(3) by (intro open_brace matched_glob) (auto simp: found_locate_char)
  with g lone_brace(1,4) f show ?thesis by (auto simp: filter_good_def intro: matched_step)
next
  case (other needed rest c k)
  have g: "filter_good rest k c False (it + 1) r it'"
    using next_token_shorter [OF other(2)] other(1,6) by (intro good_belowD(1) [OF good]) auto
  from next_token_parts(2) [OF other(2)] show ?thesis
  proof (elim disjE conjE)
    assume f: "f = needed @ c # rest" "\<not> plain c"
    with other have "c = CHR ''*''" by blast
    with g other(1,5) f next_token_parts(1) [OF other(2)] show ?thesis
      by (auto simp: filter_good_def intro: matched_step matched_star)
  next
    assume f: "f = needed" "rest = []" "c = NUL"
    with g other(1,5) next_token_parts(1) [OF other(2)] show ?thesis
      by (auto simp: filter_good_def matched_def [of "[]"] intro: glob.empty intro!: matched_step [where g = "[]"])
  qed
qed (auto simp: filter_good_def matched_def split: if_splits)

lemma brace_turn_good:
  assumes good: "good_below (2 * (length b + length t + length rest) + 1)" and run: "brace_loop b t rest n it = Inr (r, it')"
  shows "brace_good b t rest n it r it'"
  using run
proof (cases rule: brace_loop_Inr)
  case over
  then show ?thesis by (simp add: brace_good_def)
next
  case hit
  have "filter_good (b @ rest) n NUL True it True it'" using hit by (intro good_belowD(1) [OF good]) auto
  then show ?thesis by (auto simp: filter_good_def brace_good_def dest: matched_glob)
next
  case (miss it1 b' t')
  have 1: "filter_good (b @ rest) n NUL True it False it1" using miss by (intro good_belowD(1) [OF good]) auto
  have "length b' + length t' \<le> length t" "0 < length b" using split_char_length [OF miss(3)] miss(1) by auto
  then have 2: "brace_good b' t' rest n it1 r it'" by (intro good_belowD(2) [OF good _ miss(4)]) arith
  have "a \<in> set (b # commas t)" if "a \<in> set (b' # commas t')" for a using that commas_split [OF miss(3)] by simp
  with 1 2 split_char_sets [OF _ miss(3)] show ?thesis unfolding filter_good_def brace_good_def by blast
qed

lemma good_below_all: "good_below M"
proof (induction M)
  case 0
  show ?case by (simp add: good_below_def)
next
  case (Suc M)
  show ?case unfolding good_below_def
  proof (intro conjI allI impI)
    fix f n l m it r it' assume "2 * length f < Suc M" and run: "filter_loop f n l m it = Inr (r, it')"
    then have "good_below (2 * length f)" using Suc by (auto simp: good_below_def)
    then show "filter_good f n l m it r it'" using run by (rule filter_turn_good)
  next
    fix b t rest n it r it'
    assume "2 * (length b + length t + length rest) + 1 < Suc M" and run: "brace_loop b t rest n it = Inr (r, it')"
    then have "good_below (2 * (length b + length t + length rest) + 1)" using Suc by (auto simp: good_below_def)
    then show "brace_good b t rest n it r it'" using run by (rule brace_turn_good)
  qed
qed

lemma filter_loop_good: "filter_loop f n l m it = Inr (r, it') \<Longrightarrow> filter_good f n l m it r it'"
  using good_belowD(1) [OF good_below_all, of f "Suc (2 * length f)"] by simp

section \<open>Turns and return\<close>

text \<open>
  The turns of the main loop in a whole call tree, counted one by one: those of the call itself and those of every
  recursive call for an alternative of a brace, of which there is one for each alternative up to the first that matches.
\<close>

function filter_turns :: "string \<Rightarrow> string \<Rightarrow> bool \<Rightarrow> nat \<Rightarrow> nat"
  and brace_turns :: "string \<Rightarrow> string \<Rightarrow> string \<Rightarrow> string \<Rightarrow> nat \<Rightarrow> nat"
where
  "filter_turns filt name must_match iters =
     (if filt \<noteq> [] \<and> iters < VSFTP_MATCHITERS_MAX
      then (case next_token filt of (needed, rest, token) \<Rightarrow>
        case match_needed name needed must_match of
          Inr (Some name') \<Rightarrow>
            if token = CHR ''?'' then if name' = [] then 1 else 1 + filter_turns rest (tl name') True (iters + 1)
            else if token = CHR ''{''
            then if found (str_locate_char rest CHR ''}'')
                 then (case str_split_char rest CHR ''}'' of (brace_list, rest') \<Rightarrow>
                   case str_split_char brace_list CHR '','' of (b, t) \<Rightarrow> 1 + brace_turns b t rest' name' (iters + 1))
                 else if name' = [] \<or> name' ! 0 \<noteq> CHR ''{'' then 1
                 else 1 + filter_turns rest (tl name') True (iters + 1)
            else 1 + filter_turns rest name' False (iters + 1)
        | _ \<Rightarrow> 1)
      else 0)"
| "brace_turns b t rest name iters =
     (if b \<noteq> []
      then filter_turns (b @ rest) name True iters +
           (case filter_loop (b @ rest) name NUL True iters of
              Inr (False, it) \<Rightarrow> (case str_split_char t CHR '','' of (b', t') \<Rightarrow> brace_turns b' t' rest name it)
            | _ \<Rightarrow> 0)
      else 0)"
  by pat_completeness auto
termination
proof (relation "measure (\<lambda>x. case x of Inl (f, n, m, i) \<Rightarrow> 2 * length f
                               | Inr (b, t, r, n, i) \<Rightarrow> 2 * (length b + length t + length r) + 1)", goal_cases)
  case 1
  show ?case by simp
next
  case (2 filt name m i x y xa ya a x2)
  then have "next_token filt = (x, xa, ya)" "filt \<noteq> []" by auto
  then show ?case using next_token_shorter by simp
next
  case (3 filt name m i x y xa ya a x2 xb yb xc yc)
  then have "next_token filt = (x, xa, CHR ''{'')" "str_split_char xa CHR ''}'' = (xb, yb)"
    "str_split_char xb CHR '','' = (xc, yc)" by auto
  then show ?case using split_brace_length by fastforce
next
  case (4 filt name m i x y xa ya a x2)
  then have "next_token filt = (x, xa, ya)" "filt \<noteq> []" by auto
  then show ?case using next_token_shorter by simp
next
  case (5 filt name m i x y xa ya a x2)
  then have "next_token filt = (x, xa, ya)" "filt \<noteq> []" by auto
  then show ?case using next_token_shorter by simp
next
  case 6
  show ?case by simp
next
  case (7 b t rest name i a x y xa ya)
  then have "length xa + length ya \<le> length t" "b \<noteq> []" using split_char_length by auto
  then show ?case by (cases b) auto
qed

declare filter_turns.simps [simp del] brace_turns.simps [simp del]

text \<open>Without a zero byte in the filter no step fails.\<close>

lemma prefix_fits: "prefix w (drop i s) \<Longrightarrow> w \<noteq> [] \<Longrightarrow> i + length w \<le> length s"
  using prefix_length_le [of w "drop i s"] by (cases w) auto

lemma scan_greedy_returns: "NUL \<notin> set needed \<Longrightarrow> \<exists>j. scan_greedy s needed i = Inr j"
proof (induction s needed i rule: scan_greedy.induct)
  case (1 s needed i)
  let ?r = "str_locate_str s needed"
  show ?case
  proof (cases "found ?r")
    case False
    then show ?thesis by (simp add: scan_greedy.simps [of s needed i])
  next
    case True
    then have "c_str needed \<noteq> []" "prefix (c_str needed) (drop (index ?r) s)" using locate_str_found by blast+
    then have "index ?r + length needed \<le> length s" using prefix_fits "1.prems" by simp
    then have m: "str_mid_to_end s (index ?r + length needed) = Inr (drop (index ?r + length needed) s)"
      by (simp add: str_mid_to_end_Inr)
    from "1.IH" [OF refl True m "1.prems"] True m show ?thesis by (simp add: scan_greedy.simps [of s needed i] Let_def)
  qed
qed

lemma match_needed_returns:
  assumes "NUL \<notin> set needed"
  shows "\<exists>x. match_needed name needed must = Inr x"
proof (cases "needed = [] \<or> \<not> found (str_locate_str name needed)")
  case True
  then show ?thesis by (auto simp: match_needed_def Let_def)
next
  case False
  let ?r = "str_locate_str name needed"
  have at: "prefix needed (drop (index ?r) name)" using locate_str_found(2) [of name needed] False assms by simp
  then have m: "str_mid_to_end name (index ?r + length needed) = Inr (drop (index ?r + length needed) name)"
    using False by (simp add: str_mid_to_end_Inr prefix_fits)
  obtain j where j: "scan_greedy (drop (index ?r + length needed) name) needed (index ?r) = Inr j"
    using scan_greedy_returns [OF assms] by blast
  then have "prefix needed (drop j name)" using scan_greedy_pos [OF j _ at assms] by simp
  then have "str_mid_to_end name (j + length needed) = Inr (drop (j + length needed) name)"
    using False by (simp add: str_mid_to_end_Inr prefix_fits)
  with False m j show ?thesis by (auto simp: match_needed_def Let_def)
qed

definition filter_counts :: "string \<Rightarrow> string \<Rightarrow> char \<Rightarrow> bool \<Rightarrow> nat \<Rightarrow> bool" where
  "filter_counts f n l m it \<longleftrightarrow>
     (NUL \<notin> set f \<longrightarrow> (\<exists>r. filter_loop f n l m it = Inr (r, it + filter_turns f n m it)))"

definition brace_counts :: "string \<Rightarrow> string \<Rightarrow> string \<Rightarrow> string \<Rightarrow> nat \<Rightarrow> bool" where
  "brace_counts b t rest n it \<longleftrightarrow>
     (NUL \<notin> set b \<union> set t \<union> set rest \<longrightarrow> (\<exists>r. brace_loop b t rest n it = Inr (r, it + brace_turns b t rest n it)))"

lemma filter_turn_counts:
  assumes rec: "\<And>f' n' l' m' it'. length f' < length f \<Longrightarrow> filter_counts f' n' l' m' it'"
    and br: "\<And>b t rest n' it'. length b + length t + length rest < length f \<Longrightarrow> brace_counts b t rest n' it'"
  shows "filter_counts f n l m it"
proof (cases "f \<noteq> [] \<and> it < VSFTP_MATCHITERS_MAX")
  case False
  then show ?thesis
    unfolding filter_counts_def filter_loop.simps [of f n l m it] filter_turns.simps [of f n m it] if_not_P [OF False] by simp
next
  case live: True
  obtain needed rest tok where nt: "next_token f = (needed, rest, tok)" by (cases "next_token f") auto
  have len: "length rest < length f" using next_token_shorter [OF nt] live by simp
  note run = filter_loop.simps [of f n l m it, unfolded if_P [OF live] nt prod.case]
    and count = filter_turns.simps [of f n m it, unfolded if_P [OF live] nt prod.case]
  show ?thesis unfolding filter_counts_def
  proof
    assume nul: "NUL \<notin> set f"
    then have nul': "NUL \<notin> set needed" "NUL \<notin> set rest" using next_token_parts(2) [OF nt] by auto
    obtain x where x: "match_needed n needed m = Inr x" using match_needed_returns [OF nul'(1)] by blast
    have next_turn: "\<exists>r. filter_loop rest k l' m' (it + 1) = Inr (r, it + (1 + filter_turns rest k m' (it + 1)))" for k l' m'
      using rec [OF len, of k l' m' "it + 1"] nul' by (simp add: filter_counts_def)
    show "\<exists>r. filter_loop f n l m it = Inr (r, it + filter_turns f n m it)"
    proof (cases x)
      case None
      then show ?thesis unfolding run count x by auto
    next
      case (Some k)
      consider "tok = CHR ''?''" | "tok = CHR ''{''" "found (str_locate_char rest CHR ''}'')"
        | "tok = CHR ''{''" "\<not> found (str_locate_char rest CHR ''}'')" | "tok \<noteq> CHR ''?''" "tok \<noteq> CHR ''{''" by blast
      then show ?thesis
      proof cases
        case 2
        obtain bl rest' b t where sp: "str_split_char rest CHR ''}'' = (bl, rest')" "str_split_char bl CHR '','' = (b, t)"
          by (metis surj_pair)
        have "NUL \<notin> set b \<union> set t \<union> set rest'"
          using split_char_sets [OF _ sp(1)] split_char_sets [OF _ sp(2)] nul' by auto
        then obtain r where "brace_loop b t rest' k (it + 1) = Inr (r, it + (1 + brace_turns b t rest' k (it + 1)))"
          using br [OF split_brace_length [OF nt [unfolded 2(1)] sp], of k "it + 1"] by (auto simp: brace_counts_def)
        with 2 sp show ?thesis unfolding run count x Some by simp
      qed (use next_turn in \<open>auto simp: run count x Some\<close>)
    qed
  qed
qed

lemma brace_turn_counts:
  assumes rec: "\<And>f' n' l' m' it'. length f' \<le> length b + length rest \<Longrightarrow> filter_counts f' n' l' m' it'"
    and br: "\<And>b' t' n' it'. b \<noteq> [] \<Longrightarrow> length b' + length t' \<le> length t \<Longrightarrow> brace_counts b' t' rest n' it'"
  shows "brace_counts b t rest n it"
  unfolding brace_counts_def
proof
  assume nul: "NUL \<notin> set b \<union> set t \<union> set rest"
  show "\<exists>r. brace_loop b t rest n it = Inr (r, it + brace_turns b t rest n it)"
  proof (cases "b = []")
    case True
    then show ?thesis by (auto simp: brace_loop.simps [of "[]"] brace_turns.simps [of "[]"])
  next
    case False
    obtain b' t' where sp: "str_split_char t CHR '','' = (b', t')" by (metis surj_pair)
    obtain r where r: "filter_loop (b @ rest) n NUL True it = Inr (r, it + filter_turns (b @ rest) n True it)"
      using rec [of "b @ rest" n NUL True it] nul by (auto simp: filter_counts_def)
    obtain r' where "brace_loop b' t' rest n (it + filter_turns (b @ rest) n True it) =
        Inr (r', it + filter_turns (b @ rest) n True it + brace_turns b' t' rest n (it + filter_turns (b @ rest) n True it))"
      using br [OF False split_char_length [OF sp]] split_char_sets [OF _ sp] nul by (fastforce simp: brace_counts_def)
    with False r sp show ?thesis
      by (cases r) (auto simp: brace_loop.simps [of b] brace_turns.simps [of b] add.assoc)
  qed
qed

lemma counts_below:
  "(2 * length f < M \<longrightarrow> filter_counts f n l m it) \<and>
   (2 * (length b + length t + length rest) + 1 < M \<longrightarrow> brace_counts b t rest n' it')"
proof (induction M arbitrary: f n l m it b t rest n' it' rule: less_induct)
  case (less M)
  have f: "filter_counts f n l m it" if "2 * length f < M" for f n l m it
  proof (rule filter_turn_counts)
    fix f' n1 :: string and l' m' it1 assume "length f' < length f"
    then show "filter_counts f' n1 l' m' it1" using less [of "2 * length f" f' n1 l' m' it1 "[]" "[]" "[]" "[]" 0] that by simp
  next
    fix b t rest n' :: string and it' assume "length b + length t + length rest < length f"
    then show "brace_counts b t rest n' it'" using less [of "2 * length f" "[]" "[]" NUL True 0 b t rest n' it'] that by simp
  qed
  have "brace_counts b t rest n' it'" if "2 * (length b + length t + length rest) + 1 < M" for b t rest n' it'
  proof (rule brace_turn_counts)
    fix f' n1 :: string and l' m' it1 assume "length f' \<le> length b + length rest"
    with that show "filter_counts f' n1 l' m' it1" by (intro f) simp
  next
    fix b' t' n1 :: string and it1 assume "b \<noteq> []" "length b' + length t' \<le> length t"
    then have "2 * (length b' + length t' + length rest) + 1 < 2 * (length b + length t + length rest) + 1" by (cases b) auto
    with that show "brace_counts b' t' rest n1 it1"
      using less [of "2 * (length b + length t + length rest) + 1" "[]" "[]" NUL True 0 b' t' rest n1 it1] by simp
  qed
  with f show ?case by blast
qed

lemma filter_loop_counts: "NUL \<notin> set f \<Longrightarrow> \<exists>r. filter_loop f n l m it = Inr (r, it + filter_turns f n m it)"
  using counts_below [of f "2 * length f + 1" n l m it] by (simp add: filter_counts_def)

text \<open>
  C35: for a filter without a zero byte \<open>vsf_filename_passes_filter\<close> always returns; when it accepts the name, the name
  does match the pattern, with \<^verbatim>\<open>*\<close> for any text, \<^verbatim>\<open>?\<close> for any character and \<^verbatim>\<open>{a,b}\<close> for a choice; and the counter it
  returns is the number of turns its main loop made in this call and all recursive calls together, which is at most a
  thousand however the pattern is built.
\<close>

theorem passes_filter_sound:
  assumes "NUL \<notin> set filt"
  shows "\<exists>ret. vsf_filename_passes_filter name filt 0 = Inr (ret, filter_turns filt name True 0) \<and>
    filter_turns filt name True 0 \<le> VSFTP_MATCHITERS_MAX \<and> (if ret then glob filt name else True)"
proof -
  obtain ret where run: "filter_loop filt name NUL True 0 = Inr (ret, filter_turns filt name True 0)"
    using filter_loop_counts [OF assms, of name NUL True 0] by auto
  then show ?thesis
    using filter_loop_good [OF run] assms by (auto simp: filter_good_def vsf_filename_passes_filter_def intro: matched_glob)
qed

lemma passes_filter_sound_witness:
  "filter_turns ''*.{c,h}'' ''ls.h'' True 0 = 4 \<and> glob ''*.{c,h}'' ''ls.h''"
proof -
  have run: "vsf_filename_passes_filter ''ls.h'' ''*.{c,h}'' 0 = Inr (True, 4)" by code_simp
  have "NUL \<notin> set ''*.{c,h}''" by simp
  from passes_filter_sound [OF this, of "''ls.h''"] run show ?thesis by auto
qed

section \<open>Plain patterns are matched exactly\<close>

lemma match_must:
  assumes "NUL \<notin> set needed"
  shows "match_needed name needed True =
    Inr (if prefix needed name then Some (drop (length needed) name) else None)"
proof (cases "needed = []")
  case True
  then show ?thesis by (simp add: match_needed_def)
next
  case False
  then have ne: "c_str needed \<noteq> []" using assms by simp
  show ?thesis
  proof (cases rule: str_locate_text_cases [OF ne, of name])
    case (1 k)
    show ?thesis
    proof (cases "k = 0")
      case True
      with 1 assms False show ?thesis
        by (auto simp: match_needed_def str_locate_str_def str_mid_to_end_def Let_def dest: prefix_length_le)
    next
      case pos: False
      with 1(3) [of 0] assms have "\<not> prefix needed name" by simp
      with 1(1) pos False show ?thesis by (simp add: match_needed_def str_locate_str_def Let_def)
    qed
  next
    case 2
    with 2(2) [of 0] assms False show ?thesis by (simp add: match_needed_def str_locate_str_def Let_def)
  qed
qed

lemma next_token_plain: "list_all plain p \<Longrightarrow> next_token p = (p, [], NUL)"
  by (cases rule: next_token_cases [of p]) auto

lemma next_token_star: "list_all plain p \<Longrightarrow> next_token (p @ ''*'') = (p, [], CHR ''*'')"
proof -
  assume "list_all plain p"
  then have "takeWhile plain (p @ ''*'') = p" "dropWhile plain (p @ ''*'') = ''*''"
    by (simp_all add: list_all_iff takeWhile_append dropWhile_append)
  then show ?thesis by (simp add: next_token_eq)
qed

text \<open>
  A pattern without special characters accepts exactly the name it spells, and a pattern that is plain text
  followed by a star accepts exactly the names that begin with the text.
\<close>

theorem passes_filter_plain:
  assumes "list_all plain p" and "NUL \<notin> set p"
  shows "(\<exists>it. vsf_filename_passes_filter name p 0 = Inr (name = p, it)) \<and>
         (\<exists>it. vsf_filename_passes_filter name (p @ ''*'') 0 = Inr (prefix p name, it))"
proof -
  have stop: "filter_loop [] k l m (Suc 0) = Inr (k = [] \<or> l = CHR ''*'', Suc 0)" for k l m
    by (simp add: filter_loop.simps [of "[]"])
  have eq: "prefix p name \<and> drop (length p) name = [] \<longleftrightarrow> name = p" by (auto simp: prefix_def)
  have "\<exists>it. filter_loop p name NUL True 0 = Inr (name = p, it)"
  proof (cases "p = []")
    case True
    then show ?thesis by (simp add: filter_loop.simps [of "[]"])
  next
    case False
    then show ?thesis
      using next_token_plain [OF assms(1)] match_must [OF assms(2), of name] eq
      by (auto simp: filter_loop.simps [of p name] stop)
  qed
  moreover have "\<exists>it. filter_loop (p @ ''*'') name NUL True 0 = Inr (prefix p name, it)"
    using next_token_star [OF assms(1)] match_must [OF assms(2), of name]
    by (auto simp: filter_loop.simps [of "p @ ''*''" name] stop)
  ultimately show ?thesis by (simp add: vsf_filename_passes_filter_def)
qed

lemma passes_filter_plain_witness:
  "\<exists>it. vsf_filename_passes_filter ''README'' ''READ*'' 0 = Inr (True, it)"
  using passes_filter_plain [of "''READ''" "''README''"] by simp

end
