(* ===== verification/Access.thy ===== *)
theory Access
  imports Lsfilter Tunables
begin

text \<open>
  \<^verbatim>\<open>access.c\<close>: which files a session may use (\<open>deny_file\<close>) and see (\<open>hide_file\<close>). Each check keeps its
  pattern in a static string, filled from the tunable on first use; the string is an argument and a result here.
\<close>

definition access_common :: "string option \<Rightarrow> string \<Rightarrow> string \<Rightarrow> (bool \<times> string) result" where
  "access_common tunable_file s_access_str p_filename_str =
     (case tunable_file of
        None \<Rightarrow> Inr (True, s_access_str)
      | Some pat \<Rightarrow>
          let s = (if s_access_str = [] then c_str pat else s_access_str) in
          andthen (vsf_filename_passes_filter p_filename_str s 0) (\<lambda>(ret, iters).
          if ret then Inr (False, s)
          else if found (str_locate_str p_filename_str s) then Inr (False, s)
          else Inr (True, s)))"

definition vsf_access_check_file :: "tunables \<Rightarrow> string \<Rightarrow> string \<Rightarrow> (bool \<times> string) result" where
  "vsf_access_check_file t s_access_str p_filename_str =
     access_common (t_str t ''deny_file'') s_access_str p_filename_str"

definition vsf_access_check_file_visible :: "tunables \<Rightarrow> string \<Rightarrow> string \<Rightarrow> (bool \<times> string) result" where
  "vsf_access_check_file_visible t s_access_str p_filename_str =
     access_common (t_str t ''hide_file'') s_access_str p_filename_str"

text \<open>A pattern is found in a name exactly when it is part of it.\<close>

lemma found_locate_str:
  assumes "NUL \<notin> set p"
  shows "found (str_locate_str n p) \<longleftrightarrow> p \<noteq> [] \<and> sublist p n"
proof (cases "p = []")
  case True
  then show ?thesis by (simp add: str_locate_str_def str_locate_text_empty)
next
  case False
  then have ne: "c_str p \<noteq> []" using assms by simp
  show ?thesis
  proof (cases rule: str_locate_text_cases [OF ne, of n])
    case (1 k)
    then obtain r where "drop k n = p @ r" using assms by (auto simp: prefix_def)
    then have "n = take k n @ p @ r" by (metis append_take_drop_id)
    then have "sublist p n" by (metis sublist_appendI)
    with 1(1) False show ?thesis by (simp add: str_locate_str_def)
  next
    case 2
    have "\<not> sublist p n"
    proof
      assume "sublist p n"
      then obtain l r where "n = l @ p @ r" by (auto simp: sublist_def)
      with 2(2) [of "length l"] assms show False by simp
    qed
    with 2(1) show ?thesis by (simp add: str_locate_str_def)
  qed
qed

text \<open>
  When \<open>deny_file\<close> is plain text, a file is refused exactly when its name contains the text; when it is not
  set, no file is; whatever it is, a name that contains it or that the pattern matcher accepts is refused.
\<close>

theorem access_check_deny:
  assumes "NUL \<notin> set p" and "p \<noteq> []" and "t_str t ''deny_file'' = Some p"
    and "vsf_access_check_file t [] name = Inr (ok, cache)"
  shows "cache = p \<and> (if ok then \<not> sublist p name else True) \<and>
         (if list_all plain p then ok = (\<not> sublist p name) else True)"
proof -
  have p: "c_str p = p" using assms(1) by simp
  have eq: "vsf_access_check_file t [] name =
      andthen (vsf_filename_passes_filter name p 0) (\<lambda>(ret, iters).
        if ret then Inr (False, p) else if found (str_locate_str name p) then Inr (False, p) else Inr (True, p))"
    by (simp only: vsf_access_check_file_def access_common_def assms(3) option.case Let_def p if_True simp_thms)
  obtain ret it where run: "vsf_filename_passes_filter name p 0 = Inr (ret, it)"
    using assms(4) eq by (cases "vsf_filename_passes_filter name p 0") auto
  then have "ok = (\<not> ret \<and> \<not> sublist p name)" "cache = p"
    using assms(4) eq found_locate_str [OF assms(1), of name] assms(2) by (auto split: if_splits)
  note run this
  moreover have "\<not> ret" if "list_all plain p" "\<not> sublist p name"
  proof
    assume "ret"
    then have "glob p name"
      using filter_loop_good [OF run(1) [unfolded vsf_filename_passes_filter_def]] assms(1)
      by (auto simp: filter_good_def intro: matched_glob)
    moreover have "glob f n \<Longrightarrow> list_all plain f \<Longrightarrow> f = n" for f n by (induction rule: glob.induct) auto
    ultimately show False using that by auto
  qed
  ultimately show ?thesis by auto
qed

lemma access_check_deny_witness:
  "''.key'' = ''.key'' \<and> (if False then \<not> sublist ''.key'' ''a.key'' else True) \<and>
   (if list_all plain ''.key'' then False = (\<not> sublist ''.key'' ''a.key'') else True)"
proof (rule access_check_deny)
  show "vsf_access_check_file (tunables_load_defaults\<lparr>t_str := [''deny_file'' \<mapsto> ''.key'']\<rparr>) [] ''a.key'' =
      Inr (False, ''.key'')" by code_simp
qed simp_all

end
