(* ===== verification/Ls.thy ===== *)
theory Ls
  imports Access Strlist Filestr
begin

text \<open>
  \<^verbatim>\<open>ls.c\<close>: directory listings. The directory stream is the list of its names; \<open>lstat\<close>, \<open>readlink\<close>, the user and
  group database, the formatted date and the time are an environment of functions (the C library and the kernel).
\<close>

record ls_env =
  env_lstat :: "string \<Rightarrow> file_info option"
  env_readlink :: "string \<Rightarrow> string option"
  env_pwname :: "int \<Rightarrow> string option"
  env_grname :: "int \<Rightarrow> string option"
  env_date :: "file_info \<Rightarrow> bool \<Rightarrow> int \<Rightarrow> string"
  env_time :: int
  env_avail :: "nat \<Rightarrow> bool"

section \<open>One line\<close>

text \<open>\<open>str_alloc_ulong((unsigned long) uid)\<close> of an \<open>int\<close>: negative values wrap at 64 bits.\<close>

definition ulong_of_int :: "int \<Rightarrow> nat" where
  "ulong_of_int i = nat (i mod 18446744073709551616)"

definition owner_str :: "tunables \<Rightarrow> (int \<Rightarrow> string option) \<Rightarrow> int \<Rightarrow> string" where
  "owner_str t db i =
     (if t_bool t ''hide_ids'' then ''ftp''
      else case (if t_bool t ''text_userdb_names'' then db i else None) of
             None \<Rightarrow> vsf_sysutil_ulong_to_str (ulong_of_int i)
           | Some n \<Rightarrow> c_str n)"

definition build_dir_line :: "tunables \<Rightarrow> ls_env \<Rightarrow> string \<Rightarrow> file_info \<Rightarrow> int \<Rightarrow> string result" where
  "build_dir_line t env p_filename_str p_stat curr_time =
     andthen (vsf_sysutil_statbuf_get_size (st_size p_stat)) (\<lambda>sz.
     Inr (vsf_sysutil_statbuf_get_perms (st_mode p_stat) @ '' '' @
          str_lpad (vsf_sysutil_ulong_to_str (st_nlink p_stat)) 4 @ '' '' @
          str_rpad (owner_str t (env_pwname env) (st_uid p_stat)) 8 @ '' '' @
          str_rpad (owner_str t (env_grname env) (st_gid p_stat)) 8 @ '' '' @
          str_lpad (vsf_sysutil_filesize_t_to_str sz) 8 @ '' '' @
          env_date env p_stat (t_bool t ''use_localtime'') curr_time @ '' '' @
          p_filename_str @ [CR, LF]))"

section \<open>The listing\<close>

record ls_opts =
  a_option :: bool
  r_option :: bool
  t_option :: bool
  F_option :: bool
  is_verbose :: bool
  do_stat :: bool

definition ls_parse_opts :: "string \<Rightarrow> string \<Rightarrow> bool \<Rightarrow> bool \<Rightarrow> ls_opts" where
  "ls_parse_opts p_option_str p_filter_str verbose want_subdirs =
     (let opt = (\<lambda>c. found (str_locate_char p_option_str c));
          v = (if opt CHR ''l'' then True else verbose);
          r = (if opt CHR ''t'' then \<not> opt CHR ''r'' else opt CHR ''r'')
      in \<lparr>a_option = (if p_filter_str \<noteq> [] \<and> p_filter_str ! 0 = CHR ''.'' then True else opt CHR ''a''),
          r_option = r, t_option = opt CHR ''t'', F_option = opt CHR ''F'', is_verbose = v,
          do_stat = (v \<or> opt CHR ''t'' \<or> opt CHR ''F'' \<or> want_subdirs)\<rparr>)"

definition normalise_base_dir :: "string \<Rightarrow> string" where
  "normalise_base_dir p_base_dir_str =
     (let s = (if p_base_dir_str \<noteq> ''.'' then p_base_dir_str else []) in
      if s \<noteq> [] then (if s ! (length s - 1) \<noteq> CHR ''/'' then s @ ''/'' else s) else s)"

text \<open>The dot-file rule: the two \<open>continue\<close> statements at the head of the loop.\<close>

definition dot_skipped :: "tunables \<Rightarrow> ls_opts \<Rightarrow> string \<Rightarrow> bool" where
  "dot_skipped t opts name \<longleftrightarrow>
     length name > 0 \<and> name ! 0 = CHR ''.'' \<and>
     ((\<not> a_option opts \<and> \<not> t_bool t ''force_dot_files'') \<or>
      (\<not> a_option opts \<and> ((length name = 2 \<and> name ! 1 = CHR ''.'') \<or> length name = 1)))"

text \<open>
  The text of one entry. \<open>st\<close> is the buffer the file was \<open>lstat\<close>ed into; reading it when it was not filled is
  \<open>Undef\<close>.
\<close>

definition stat_of :: "file_info option \<Rightarrow> file_info result" where
  "stat_of st = (case st of None \<Rightarrow> Inl Undef | Some i \<Rightarrow> Inr i)"

definition verbose_name :: "ls_env \<Rightarrow> ls_opts \<Rightarrow> string \<Rightarrow> string \<Rightarrow> file_info \<Rightarrow> string" where
  "verbose_name env opts name path st =
     (let f = (if vsf_sysutil_statbuf_is_symlink (st_mode st)
               then (case env_readlink env path of
                       None \<Rightarrow> name
                     | Some tgt \<Rightarrow> if tgt \<noteq> [] then name @ '' -> '' @ tgt else name)
               else name)
      in if F_option opts \<and> vsf_sysutil_statbuf_is_dir (st_mode st) then f @ ''/'' else f)"

definition entry_line ::
  "tunables \<Rightarrow> ls_env \<Rightarrow> ls_opts \<Rightarrow> string \<Rightarrow> string \<Rightarrow> file_info option \<Rightarrow> string result" where
  "entry_line t env opts name path st =
     (if is_verbose opts
      then andthen (stat_of st) (\<lambda>i.
           build_dir_line t env (verbose_name env opts name path i) i (env_time env))
      else if F_option opts
      then andthen (stat_of st) (\<lambda>i.
           Inr (path @ (if vsf_sysutil_statbuf_is_dir (st_mode i) then ''/''
                        else if vsf_sysutil_statbuf_is_symlink (st_mode i) then ''@'' else []) @ [CR, LF]))
      else Inr (path @ [CR, LF]))"

text \<open>
  The body of the loop for one name: the two lists afterwards. \<open>p_subdir_list\<close> is \<open>None\<close> for the null pointer.
\<close>

definition add_entry ::
  "tunables \<Rightarrow> ls_env \<Rightarrow> ls_opts \<Rightarrow> string \<Rightarrow> string \<Rightarrow> mystr_list \<Rightarrow> mystr_list option \<Rightarrow>
   (mystr_list \<times> mystr_list option) result" where
  "add_entry t env opts base name p_list p_subdir_list =
     (let path = base @ name;
          st = (if do_stat opts then env_lstat env path else None)
      in if do_stat opts \<and> st = None then Inr (p_list, p_subdir_list)
         else andthen (entry_line t env opts name path st) (\<lambda>line.
              andthen (if t_option opts
                       then andthen (stat_of st) (\<lambda>i.
                            Inr (vsf_sysutil_statbuf_get_sortkey_mtime (st_mtime i),
                                 Some (vsf_sysutil_statbuf_get_sortkey_mtime (st_mtime i))))
                       else Inr (name, None)) (\<lambda>(sort_str, sort_subdir_str).
              andthen (str_list_add (env_avail env) p_list line (Some sort_str)) (\<lambda>l.
              case p_subdir_list of
                None \<Rightarrow> Inr (l, None)
              | Some sl \<Rightarrow>
                  andthen (stat_of st) (\<lambda>i.
                  if vsf_sysutil_statbuf_is_dir (st_mode i)
                  then andthen (str_list_add (env_avail env) sl name sort_subdir_str) (\<lambda>sl'. Inr (l, Some sl'))
                  else Inr (l, Some sl))))))"

fun ls_loop ::
  "tunables \<Rightarrow> ls_env \<Rightarrow> ls_opts \<Rightarrow> string \<Rightarrow> string \<Rightarrow> string list \<Rightarrow> string \<Rightarrow> mystr_list \<Rightarrow> mystr_list option \<Rightarrow>
   (mystr_list \<times> mystr_list option \<times> string) result" where
  "ls_loop t env opts base filt [] hide p_list p_subdir_list = Inr (p_list, p_subdir_list, hide)"
| "ls_loop t env opts base filt (name # names) hide p_list p_subdir_list =
     (if name = [] then Inr (p_list, p_subdir_list, hide)
      else if dot_skipped t opts name then ls_loop t env opts base filt names hide p_list p_subdir_list
      else andthen (vsf_access_check_file_visible t hide name) (\<lambda>(visible, hide').
        if \<not> visible then ls_loop t env opts base filt names hide' p_list p_subdir_list
        else andthen (if filt \<noteq> [] then vsf_filename_passes_filter name filt 0 else Inr (True, 0)) (\<lambda>(pass, it).
          if \<not> pass then ls_loop t env opts base filt names hide' p_list p_subdir_list
          else andthen (add_entry t env opts base name p_list p_subdir_list) (\<lambda>(l, sl).
               ls_loop t env opts base filt names hide' l sl))))"

definition vsf_ls_populate_dir_list ::
  "tunables \<Rightarrow> ls_env \<Rightarrow> string \<Rightarrow> mystr_list \<Rightarrow> mystr_list option \<Rightarrow> string list \<Rightarrow> string \<Rightarrow> string \<Rightarrow> string \<Rightarrow> bool \<Rightarrow>
   (mystr_list \<times> mystr_list option \<times> string) result" where
  "vsf_ls_populate_dir_list t env hide p_list p_subdir_list p_dir p_base_dir_str p_option_str p_filter_str verbose =
     (let opts = ls_parse_opts p_option_str p_filter_str verbose (p_subdir_list \<noteq> None);
          base = normalise_base_dir p_base_dir_str
      in andthen (ls_loop t env opts base p_filter_str p_dir hide p_list p_subdir_list) (\<lambda>(l, sl, hide').
         Inr (str_list_sort l (r_option opts),
              map_option (\<lambda>x. str_list_sort x (r_option opts)) sl, hide')))"

section \<open>What is listed\<close>

text \<open>A name that the options, \<open>hide_file\<close> and the filter let through.\<close>

definition listable :: "tunables \<Rightarrow> ls_opts \<Rightarrow> string \<Rightarrow> string \<Rightarrow> bool" where
  "listable t opts filt name \<longleftrightarrow>
     \<not> dot_skipped t opts name \<and> (filt \<noteq> [] \<longrightarrow> glob filt name) \<and>
     (case t_str t ''hide_file'' of None \<Rightarrow> True | Some p \<Rightarrow> c_str p \<noteq> [] \<longrightarrow> \<not> sublist (c_str p) name)"

text \<open>
  The same as the code decides it: a name is shown when it is no skipped dot file, the check against \<open>hide_file\<close> finds
  it visible and the filter, if there is one, lets it pass.
\<close>

definition shown :: "tunables \<Rightarrow> ls_opts \<Rightarrow> string \<Rightarrow> string \<Rightarrow> bool" where
  "shown t opts filt name \<longleftrightarrow>
     \<not> dot_skipped t opts name \<and>
     (case vsf_access_check_file_visible t [] name of Inl h \<Rightarrow> False | Inr (v, hide) \<Rightarrow> v) \<and>
     (filt \<noteq> [] \<longrightarrow> (case vsf_filename_passes_filter name filt 0 of Inl h \<Rightarrow> False | Inr (pass, it) \<Rightarrow> pass))"

text \<open>
  What one shown name contributes: nothing when its attributes are needed and \<open>lstat\<close> of the base directory with the
  name fails; else its line, made of exactly these attributes, under the key it is sorted by: the modification time of
  the same \<open>lstat\<close> for \<open>-t\<close>, else the name. A directory also contributes its name to the list of subdirectories.
\<close>

definition entry_stat :: "ls_env \<Rightarrow> ls_opts \<Rightarrow> string \<Rightarrow> string \<Rightarrow> file_info option" where
  "entry_stat env opts base name = (if do_stat opts then env_lstat env (base @ name) else None)"

definition entry_key :: "ls_opts \<Rightarrow> string \<Rightarrow> file_info option \<Rightarrow> string" where
  "entry_key opts other st =
     (case (t_option opts, st) of (True, Some i) \<Rightarrow> vsf_sysutil_statbuf_get_sortkey_mtime (st_mtime i) | _ \<Rightarrow> other)"

definition entry_nodes :: "tunables \<Rightarrow> ls_env \<Rightarrow> ls_opts \<Rightarrow> string \<Rightarrow> string \<Rightarrow> mystr_list_node list" where
  "entry_nodes t env opts base name =
     (let st = entry_stat env opts base name in
      if do_stat opts \<and> st = None then []
      else case entry_line t env opts name (base @ name) st of
             Inl h \<Rightarrow> []
           | Inr line \<Rightarrow> [\<lparr>node_str = line, sort_key_str = entry_key opts name st\<rparr>])"

definition subdir_nodes :: "ls_env \<Rightarrow> ls_opts \<Rightarrow> string \<Rightarrow> string \<Rightarrow> mystr_list_node list" where
  "subdir_nodes env opts base name =
     (let st = entry_stat env opts base name in
      case st of
        None \<Rightarrow> []
      | Some i \<Rightarrow> if vsf_sysutil_statbuf_is_dir (st_mode i)
                  then [\<lparr>node_str = name, sort_key_str = entry_key opts [] st\<rparr>] else [])"

lemma visible_hidden:
  assumes "vsf_access_check_file_visible t hide name = Inr (v, hide')"
    and "hide = [] \<or> (\<exists>p. t_str t ''hide_file'' = Some p \<and> hide = c_str p)"
  shows "hide' = [] \<or> (\<exists>p. t_str t ''hide_file'' = Some p \<and> hide' = c_str p)"
    and "v \<Longrightarrow> case t_str t ''hide_file'' of None \<Rightarrow> True | Some p \<Rightarrow> c_str p \<noteq> [] \<longrightarrow> \<not> sublist (c_str p) name"
proof -
  have "(hide' = [] \<or> (\<exists>p. t_str t ''hide_file'' = Some p \<and> hide' = c_str p)) \<and>
      (v \<longrightarrow> (case t_str t ''hide_file'' of None \<Rightarrow> True | Some p \<Rightarrow> c_str p \<noteq> [] \<longrightarrow> \<not> sublist (c_str p) name))"
  proof (cases "t_str t ''hide_file''")
    case None
    with assms show ?thesis by (auto simp: vsf_access_check_file_visible_def access_common_def)
  next
    case (Some p)
    then have "(if hide = [] then c_str p else hide) = c_str p" using assms(2) by auto
    with Some have eq: "vsf_access_check_file_visible t hide name =
      andthen (vsf_filename_passes_filter name (c_str p) 0) (\<lambda>(ret, iters).
        if ret then Inr (False, c_str p) else if found (str_locate_str name (c_str p)) then Inr (False, c_str p)
        else Inr (True, c_str p))"
      by (simp only: vsf_access_check_file_visible_def access_common_def option.case Let_def)
    with assms(1) Some show ?thesis
      by (cases "vsf_filename_passes_filter name (c_str p) 0")
        (auto simp: found_locate_str split: if_splits)
  qed
  then show "hide' = [] \<or> (\<exists>p. t_str t ''hide_file'' = Some p \<and> hide' = c_str p)"
    and "v \<Longrightarrow> case t_str t ''hide_file'' of None \<Rightarrow> True | Some p \<Rightarrow> c_str p \<noteq> [] \<longrightarrow> \<not> sublist (c_str p) name"
    by blast+
qed

lemma list_add_nodes:
  assumes "str_list_add avail l x k = Inr l'" and "strlist_ok l"
  shows "strlist_ok l'"
    and "nodes_of l' = nodes_of l @ [\<lparr>node_str = x, sort_key_str = (case k of None \<Rightarrow> [] | Some y \<Rightarrow> y)\<rparr>]"
  using list_add_ok [OF assms(2), where avail = avail and s = x and k = k] assms(1) by simp_all

text \<open>The list of subdirectories, where the caller wants one, holds \<open>ns\<close>.\<close>

definition subdirs_hold :: "mystr_list option \<Rightarrow> mystr_list_node list option \<Rightarrow> bool" where
  "subdirs_hold sl ns \<longleftrightarrow>
     (case (sl, ns) of (None, None) \<Rightarrow> True | (Some x, Some y) \<Rightarrow> strlist_ok x \<and> nodes_of x = y | _ \<Rightarrow> False)"

lemma subdirs_hold_simps [simp]:
  "subdirs_hold None ns \<longleftrightarrow> ns = None" "subdirs_hold sl None \<longleftrightarrow> sl = None"
  "subdirs_hold (Some x) (Some y) \<longleftrightarrow> strlist_ok x \<and> nodes_of x = y"
  by (auto simp: subdirs_hold_def split: option.splits)

lemma add_entry_exact:
  assumes "add_entry t env opts base name l sl = Inr (l', sl')" and "strlist_ok l" and "subdirs_hold sl ns"
  shows "strlist_ok l' \<and> nodes_of l' = nodes_of l @ entry_nodes t env opts base name \<and>
    subdirs_hold sl' (map_option (\<lambda>y. y @ subdir_nodes env opts base name) ns)"
proof -
  let ?st = "entry_stat env opts base name"
  note run = assms(1) [unfolded add_entry_def Let_def entry_stat_def [symmetric]]
  show ?thesis
  proof (cases "do_stat opts \<and> ?st = None")
    case True
    with run have "l' = l" "sl' = sl" by simp_all
    moreover from True have "entry_nodes t env opts base name = []" "subdir_nodes env opts base name = []"
      by (simp_all add: entry_nodes_def subdir_nodes_def)
    ultimately show ?thesis using assms(2,3) by (cases ns) simp_all
  next
    case False
    obtain line where line: "entry_line t env opts name (base @ name) ?st = Inr line"
      using run unfolding if_not_P [OF False] by (auto simp: andthen_Inr_iff)
    have timed: "\<exists>i. ?st = Some i" if "t_option opts"
      using run that unfolding if_not_P [OF False] by (cases ?st) (auto simp: andthen_Inr_iff stat_of_def)
    let ?k = "entry_key opts name ?st" and ?k' = "if t_option opts then Some (entry_key opts [] ?st) else None"
    have keys: "(if t_option opts
        then andthen (stat_of ?st) (\<lambda>i. Inr (vsf_sysutil_statbuf_get_sortkey_mtime (st_mtime i),
               Some (vsf_sysutil_statbuf_get_sortkey_mtime (st_mtime i))))
        else Inr (name, None)) = Inr (?k, ?k')"
      using timed by (auto simp: stat_of_def entry_key_def split: option.splits)
    obtain l1 where l1: "str_list_add (env_avail env) l line (Some ?k) = Inr l1"
      and rest: "(case sl of None \<Rightarrow> Inr (l1, None)
        | Some sl \<Rightarrow> andthen (stat_of ?st) (\<lambda>i. if vsf_sysutil_statbuf_is_dir (st_mode i)
            then andthen (str_list_add (env_avail env) sl name ?k') (\<lambda>sl'. Inr (l1, Some sl'))
            else Inr (l1, Some sl))) = Inr (l', sl')"
      using run unfolding if_not_P [OF False] line keys by (auto simp: andthen_Inr_iff)
    have main: "strlist_ok l1" "nodes_of l1 = nodes_of l @ entry_nodes t env opts base name"
      using list_add_nodes [OF l1 assms(2)] False line by (auto simp: entry_nodes_def Let_def)
    show ?thesis
    proof (cases sl)
      case None
      with rest main assms(3) show ?thesis by simp
    next
      case (Some x)
      with assms(3) obtain y where y: "ns = Some y" "strlist_ok x" "nodes_of x = y" by (cases ns) auto
      obtain i where i: "?st = Some i" using rest Some by (cases ?st) (auto simp: stat_of_def)
      show ?thesis
      proof (cases "vsf_sysutil_statbuf_is_dir (st_mode i)")
        case True
        then obtain x' where x': "str_list_add (env_avail env) x name ?k' = Inr x'" "l' = l1" "sl' = Some x'"
          using rest Some i by (auto simp: stat_of_def andthen_Inr_iff)
        have "(case ?k' of None \<Rightarrow> [] | Some k \<Rightarrow> k) = entry_key opts [] ?st" by (simp add: entry_key_def split: option.splits)
        with list_add_nodes [OF x'(1) y(2)] x' main y i True show ?thesis by (simp add: subdir_nodes_def)
      next
        case False
        with rest Some i have "l' = l1" "sl' = Some x" by (simp_all add: stat_of_def)
        with main y i False show ?thesis by (simp add: subdir_nodes_def)
      qed
    qed
  qed
qed

lemma ls_loop_no_subdirs: "ls_loop t env opts base filt names hide l None = Inr (l', sl', hide') \<Longrightarrow> sl' = None"
proof (induction names arbitrary: hide l)
  case (Cons name names)
  have add: "add_entry t env opts base name l None = Inr (l1, sl1) \<Longrightarrow> sl1 = None" for l1 sl1
    by (auto simp: add_entry_def Let_def andthen_Inr_iff split: if_splits)
  from Cons.prems show ?case by (auto simp: andthen_Inr_iff split: if_splits dest: add intro: Cons.IH)
qed simp

lemma populate_no_subdirs:
  "vsf_ls_populate_dir_list t env hide p_list None p_dir base opt filt verbose = Inr (l, sl, hide') \<Longrightarrow> sl = None"
  by (auto simp: vsf_ls_populate_dir_list_def Let_def andthen_Inr_iff dest: ls_loop_no_subdirs)

lemma visible_cached:
  assumes "hide = [] \<or> (\<exists>p. t_str t ''hide_file'' = Some p \<and> hide = c_str p)"
    and "vsf_access_check_file_visible t hide name = Inr (v, h)"
  shows "(case vsf_access_check_file_visible t [] name of Inl h \<Rightarrow> False | Inr (v', h') \<Rightarrow> v') = v"
proof (cases "t_str t ''hide_file''")
  case None
  with assms(2) show ?thesis by (auto simp: vsf_access_check_file_visible_def access_common_def)
next
  case (Some p)
  with assms(1) have "vsf_access_check_file_visible t hide name = vsf_access_check_file_visible t [] name"
    unfolding vsf_access_check_file_visible_def access_common_def Let_def by auto
  with assms(2) show ?thesis by simp
qed

lemma shown_listable: "shown t opts filt name \<Longrightarrow> NUL \<notin> set filt \<Longrightarrow> listable t opts filt name"
proof -
  assume s: "shown t opts filt name" and nul: "NUL \<notin> set filt"
  then obtain h where v: "vsf_access_check_file_visible t [] name = Inr (True, h)"
    by (auto simp: shown_def split: sum.splits)
  have "glob filt name" if ne: "filt \<noteq> []"
  proof -
    obtain it where "vsf_filename_passes_filter name filt 0 = Inr (True, it)"
      using s ne by (auto simp: shown_def split: sum.splits)
    with filter_loop_good [of filt name NUL True 0 True it] nul show ?thesis
      by (auto simp: filter_good_def vsf_filename_passes_filter_def intro: matched_glob)
  qed
  with s visible_hidden(2) [OF v] show ?thesis by (simp add: shown_def listable_def)
qed

lemma ls_loop_exact:
  assumes "ls_loop t env opts base filt names hide l sl = Inr (l', sl', hide')" and "strlist_ok l" and "subdirs_hold sl ns"
    and "hide = [] \<or> (\<exists>p. t_str t ''hide_file'' = Some p \<and> hide = c_str p)"
    and "kept = filter (shown t opts filt) (takeWhile (\<lambda>n. n \<noteq> []) names)"
  shows "strlist_ok l' \<and> nodes_of l' = nodes_of l @ concat (map (entry_nodes t env opts base) kept) \<and>
    subdirs_hold sl' (map_option (\<lambda>y. y @ concat (map (subdir_nodes env opts base) kept)) ns)"
  using assms
proof (induction names arbitrary: hide l sl ns kept)
  case Nil
  then show ?case by (cases ns) simp_all
next
  case (Cons name names)
  note run = Cons.prems(1)
  show ?case
  proof (cases "name = [] \<or> dot_skipped t opts name")
    case True
    show ?thesis
    proof (cases "name = []")
      case True
      with Cons.prems show ?thesis by (cases ns) simp_all
    next
      case False
      with True have "ls_loop t env opts base filt names hide l sl = Inr (l', sl', hide')" "\<not> shown t opts filt name"
        using run by (simp_all add: shown_def)
      with Cons.IH [OF this(1) Cons.prems(2-4)] False Cons.prems(5) show ?thesis by simp
    qed
  next
    case False
    then obtain v h where vis: "vsf_access_check_file_visible t hide name = Inr (v, h)"
      using run by (cases "vsf_access_check_file_visible t hide name") auto
    note hid = visible_hidden(1) [OF vis Cons.prems(4)] and sh = visible_cached [OF Cons.prems(4) vis]
    let ?flt = "if filt \<noteq> [] then vsf_filename_passes_filter name filt 0 else Inr (True, 0)"
    have "v \<longrightarrow> (\<exists>pass it. ?flt = Inr (pass, it))" using run False vis by (cases ?flt) auto
    then obtain pass it where pass: "v \<Longrightarrow> ?flt = Inr (pass, it)" by blast
    have shown: "shown t opts filt name = (v \<and> pass)"
      using False sh pass by (cases v) (auto simp: shown_def split: if_splits)
    show ?thesis
    proof (cases "v \<and> pass")
      case no: False
      then have "ls_loop t env opts base filt names h l sl = Inr (l', sl', hide')"
        using run False vis pass by (cases v) auto
      moreover have "\<not> shown t opts filt name" using no shown by simp
      ultimately show ?thesis using Cons.IH [OF _ Cons.prems(2,3) hid refl] False Cons.prems(5) by simp
    next
      case yes: True
      then obtain l1 sl1 where add: "add_entry t env opts base name l sl = Inr (l1, sl1)"
          "ls_loop t env opts base filt names h l1 sl1 = Inr (l', sl', hide')"
        using run False vis pass by (cases "add_entry t env opts base name l sl") auto
      note one = add_entry_exact [OF add(1) Cons.prems(2,3)]
      note rest = Cons.IH [OF add(2) _ _ hid refl, OF one [THEN conjunct1] one [THEN conjunct2, THEN conjunct2]]
      from one rest yes False shown Cons.prems(5) show ?thesis by (simp add: option.map_comp o_def)
    qed
  qed
qed

lemma same_elements: "mset xs = mset ys \<Longrightarrow> list_all P xs = list_all P ys"
  by (metis list_all_iff set_mset_mset)

lemma sorted_nodes:
  assumes "strlist_ok l"
  shows "mset (nodes_of (str_list_sort l r)) = mset (nodes_of l) \<and>
    (list_all node_ok (nodes_of (str_list_sort l r)) \<longrightarrow>
     sorted_wrt (\<lambda>a b. if r then bytes_le b a else bytes_le a b) (map node_key (nodes_of (str_list_sort l r))))"
  using nodes_of_sort [OF assms, of r] asc.qsort_mset desc.qsort_mset asc.qsort_sorted desc.qsort_sorted
  by (cases r) (simp_all add: same_elements [OF asc.qsort_mset] same_elements [OF desc.qsort_mset])

text \<open>
  C36: a listing shows exactly what it may. When \<open>vsf_ls_populate_dir_list\<close> returns, its lines are those of the
  directory entries (up to the end of the directory) that are no skipped dot file, that the check against \<open>hide_file\<close>
  finds visible and that pass the filter: one line for each, none twice and none left out, made from the \<open>lstat\<close> of
  the base directory with that very name (an entry is left out only when its attributes are needed and that
  \<open>lstat\<close> fails). With \<open>LIST -R\<close> (\<open>subdirs\<close>) the second list holds exactly the names of those entries that are
  directories. Every entry shown is no hidden dot file, does not contain the text of \<open>hide_file\<close> and matches the
  filter pattern (which has no zero byte). Both lists are in the byte order of their keys, the printed modification
  time of the same \<open>lstat\<close> for \<open>-t\<close> and the name otherwise, descending for \<open>-r\<close> (for \<open>-t\<close>: without \<open>-r\<close>),
  as long as no line or key has \<open>2 ^ 31\<close> bytes.
\<close>

theorem populate_dir_list_listed:
  assumes "vsf_ls_populate_dir_list t env [] INIT_STRLIST (if subdirs then Some INIT_STRLIST else None) names base_dir
      opt filt verbose = Inr (l, sl, hide)"
    and "NUL \<notin> set filt" and "opts = ls_parse_opts opt filt verbose subdirs" and "base = normalise_base_dir base_dir"
    and "kept = filter (shown t opts filt) (takeWhile (\<lambda>n. n \<noteq> []) names)"
    and "ord = (\<lambda>a b. if r_option opts then bytes_le b a else bytes_le a b)"
  shows "mset (nodes_of l) = mset (concat (map (entry_nodes t env opts base) kept)) \<and>
    list_all (listable t opts filt) kept \<and>
    (list_all node_ok (nodes_of l) \<longrightarrow> sorted_wrt ord (map node_key (nodes_of l))) \<and>
    (case sl of
       None \<Rightarrow> \<not> subdirs
     | Some x \<Rightarrow> subdirs \<and> mset (nodes_of x) = mset (concat (map (subdir_nodes env opts base) kept)) \<and>
         (list_all node_ok (nodes_of x) \<longrightarrow> sorted_wrt ord (map node_key (nodes_of x))))"
proof -
  have want: "((if subdirs then Some INIT_STRLIST else None) \<noteq> None) = subdirs" by simp
  obtain l1 sl1 where run: "ls_loop t env opts base filt names [] INIT_STRLIST (if subdirs then Some INIT_STRLIST else None) =
        Inr (l1, sl1, hide)"
      and l: "l = str_list_sort l1 (r_option opts)" and sl: "sl = map_option (\<lambda>x. str_list_sort x (r_option opts)) sl1"
    using assms(1) unfolding vsf_ls_populate_dir_list_def want Let_def assms(3,4) [symmetric] andthen_Inr_iff
    by (elim exE conjE) (auto simp del: if_split split: prod.splits)
  have "subdirs_hold (if subdirs then Some INIT_STRLIST else None) (if subdirs then Some [] else None)" by simp
  from ls_loop_exact [OF run strlist_ok_INIT(1) this _ assms(5)]
  have ok: "strlist_ok l1" and nodes: "nodes_of l1 = concat (map (entry_nodes t env opts base) kept)"
    and sub: "subdirs_hold sl1 (if subdirs then Some (concat (map (subdir_nodes env opts base) kept)) else None)"
    by simp_all (cases subdirs, simp_all)
  note main = sorted_nodes [OF ok, of "r_option opts", folded l]
  have lst: "list_all (listable t opts filt) kept"
    using shown_listable [OF _ assms(2)] unfolding assms(5) by (simp add: list_all_iff)
  have second: "case sl of
      None \<Rightarrow> \<not> subdirs
    | Some x \<Rightarrow> subdirs \<and> mset (nodes_of x) = mset (concat (map (subdir_nodes env opts base) kept)) \<and>
        (list_all node_ok (nodes_of x) \<longrightarrow> sorted_wrt ord (map node_key (nodes_of x)))"
  proof (cases sl1)
    case None
    with sub have "\<not> subdirs" by (cases subdirs) simp_all
    with None sl show ?thesis by simp
  next
    case (Some x)
    with sub have "subdirs" and x: "strlist_ok x" "nodes_of x = concat (map (subdir_nodes env opts base) kept)"
      by (cases subdirs; simp)+
    with sorted_nodes [OF x(1), of "r_option opts"] sl Some show ?thesis
      unfolding assms(6) by simp
  qed
  from main have "mset (nodes_of l) = mset (concat (map (entry_nodes t env opts base) kept))" unfolding nodes by (rule conjunct1)
  moreover from main have "list_all node_ok (nodes_of l) \<longrightarrow> sorted_wrt ord (map node_key (nodes_of l))"
    unfolding assms(6) by (rule conjunct2)
  ultimately show ?thesis using lst second by blast
qed

definition plain_env :: ls_env where
  "plain_env = \<lparr>env_lstat = (\<lambda>_. None), env_readlink = (\<lambda>_. None), env_pwname = (\<lambda>_. None), env_grname = (\<lambda>_. None),
     env_date = (\<lambda>_ _ _. []), env_time = 0, env_avail = (\<lambda>_. True)\<rparr>"

lemma add_first: "\<exists>l'. str_list_add (\<lambda>_. True) INIT_STRLIST x k = Inr l'"
  by (simp add: str_list_add_def str_list_grow_def nodes_malloc_def vsf_sysutil_malloc_def INIT_STRLIST_def INT_MAX_def)

lemma populate_dir_list_listed_witness:
  "case vsf_ls_populate_dir_list tunables_load_defaults plain_env [] INIT_STRLIST None [''.'', ''a.c''] ''.'' [] ''*.c'' False of
     Inl h \<Rightarrow> False
   | Inr (l, sl, hide) \<Rightarrow> mset (nodes_of l) = {#\<lparr>node_str = ''a.c'' @ [CR, LF], sort_key_str = ''a.c''\<rparr>#}"
proof -
  let ?t = tunables_load_defaults and ?o = "ls_parse_opts [] ''*.c'' False False"
  have o: "?o = \<lparr>a_option = False, r_option = False, t_option = False, F_option = False, is_verbose = False, do_stat = False\<rparr>"
    by code_simp
  have steps: "dot_skipped ?t ?o ''.''" "\<not> dot_skipped ?t ?o ''a.c''"
    "vsf_access_check_file_visible ?t [] ''a.c'' = Inr (True, [])" "vsf_filename_passes_filter ''a.c'' ''*.c'' 0 = Inr (True, 2)"
    "normalise_base_dir ''.'' = []"
    by code_simp+
  obtain l' where add: "str_list_add (\<lambda>_. True) INIT_STRLIST (''a.c'' @ [CR, LF]) (Some ''a.c'') = Inr l'"
    using add_first by blast
  then have "add_entry ?t plain_env ?o [] ''a.c'' INIT_STRLIST None = Inr (l', None)"
    by (simp add: add_entry_def entry_line_def o plain_env_def)
  with steps have run: "vsf_ls_populate_dir_list ?t plain_env [] INIT_STRLIST None [''.'', ''a.c''] ''.'' [] ''*.c'' False =
      Inr (str_list_sort l' (r_option ?o), None, [])"
    by (simp add: vsf_ls_populate_dir_list_def)
  have kept: "\<not> shown ?t ?o ''*.c'' ''.''" "shown ?t ?o ''*.c'' ''a.c''" using steps by (simp_all add: shown_def)
  have "entry_nodes ?t plain_env ?o (normalise_base_dir ''.'') ''a.c'' =
      [\<lparr>node_str = ''a.c'' @ [CR, LF], sort_key_str = ''a.c''\<rparr>]"
    by (simp add: entry_nodes_def entry_stat_def entry_key_def entry_line_def o steps)
  moreover have "mset (nodes_of (str_list_sort l' (r_option ?o))) =
      mset (concat (map (entry_nodes ?t plain_env ?o (normalise_base_dir ''.'')) [''a.c'']))"
  proof (rule populate_dir_list_listed [where subdirs = False, unfolded if_False, THEN conjunct1, OF run _ refl refl _ refl])
    show "[''a.c''] = filter (shown ?t ?o ''*.c'') (takeWhile (\<lambda>n. n \<noteq> []) [''.'', ''a.c''])" using kept by simp
  qed simp
  ultimately show ?thesis by (simp add: run)
qed

end
