(* ===== verification/Session.thy ===== *)
theory Session
  imports Ls Strlist Access Filestr Parseconf
begin

text \<open>
  The state of one FTP session (\<^verbatim>\<open>session.h\<close>), the requests it makes to the system, and the actions of which
  its handlers are built. Everything a session does to the outside is an \<open>event\<close> of its trace, newest first. The
  kernel, the C library's user database, clock and date formatting, and OpenSSL are the fields of \<open>env\<close>:
  functions of the trace so far, so that a later answer may depend on everything that happened before.
\<close>

section \<open>Requests, events, environment\<close>

text \<open>
  \<open>change\<close>: calls that change the file system through a name; \<open>look\<close>: calls that only look at it (and \<open>chdir\<close>);
  \<open>fd_op\<close>: calls on a descriptor; \<open>net_op\<close>: sockets; the rest stands alone.
\<close>

datatype change =
    Mkdir string nat | Rmdir string | Unlink string | Rename string string | Chmod string nat
  | CreateExclusive string nat | CreateOrOpen string nat | Setmodtime string int bool

datatype look =
    Getcwd | Chdir string | OpenRead string | StatPath string | Opendir string | Closedir string | DirStat string
  | Getpwnam string

datatype fd_op =
    Fstat | Close | CloseFailok | LockRead | LockWrite | Unlock | Ftruncate | LseekTo int | LseekEnd | LseekCur
  | Fchmod nat | Fchown int | ActivateNoblock | DeactivateNoblock | Shutdown | ShutdownRead | Sockopt string

datatype net_op =
    Socket sa_family | Bind int sockaddr | Listen int | Accept int | Connect int sockaddr | Sendfile int int int
  | SslHandshake | SslAccept | SslClose

datatype request =
    Change change | Look look | OnFd fd_op int | Net net_op | FileWrite int string | SetUmask nat | Sleep nat | SetAlarm nat
  | CheckAuth string string | OpenAppend string | GetRandomByte | Errno

datatype event =
    Sent string | SentData string | Req request | LogWrite int string | Syslog string bool

type_synonym trace_t = "event list"

record env =
  tun :: tunables
  e_ret :: "trace_t \<Rightarrow> request \<Rightarrow> int"
  e_text :: "trace_t \<Rightarrow> request \<Rightarrow> string option"
  e_stat :: "trace_t \<Rightarrow> request \<Rightarrow> file_info option"
  e_names :: "trace_t \<Rightarrow> request \<Rightarrow> string list option"
  e_reads :: "trace_t \<Rightarrow> int \<Rightarrow> string option list"
  e_peer :: "trace_t \<Rightarrow> sockaddr"
  e_fs :: "trace_t \<Rightarrow> file_system"
  e_ls :: "trace_t \<Rightarrow> ls_env"
  e_time :: "trace_t \<Rightarrow> int \<times> int"
  e_date :: "trace_t \<Rightarrow> string"
  e_pid :: nat
  e_rate :: "int \<Rightarrow> int \<Rightarrow> int \<Rightarrow> string"
  e_sent :: "trace_t \<Rightarrow> string \<Rightarrow> int"
  e_chunk :: "string \<Rightarrow> nat"
  e_numeric_date :: "file_info \<Rightarrow> bool \<Rightarrow> string"
  e_mktime :: "int list \<Rightarrow> int"
  e_ntop :: "string \<Rightarrow> string"
  e_aton :: "string \<Rightarrow> string option"
  e_avail :: "nat \<Rightarrow> bool"

abbreviation tb :: "env \<Rightarrow> string \<Rightarrow> bool" where "tb e n \<equiv> t_bool (tun e) n"
abbreviation tu :: "env \<Rightarrow> string \<Rightarrow> nat" where "tu e n \<equiv> t_uint (tun e) n"
abbreviation ts :: "env \<Rightarrow> string \<Rightarrow> string option" where "ts e n \<equiv> t_str (tun e) n"

section \<open>The session\<close>

datatype log_entry =
    kVSFLogEntryNull | kVSFLogEntryDownload | kVSFLogEntryUpload | kVSFLogEntryMkdir | kVSFLogEntryLogin
  | kVSFLogEntryFTPInput | kVSFLogEntryFTPOutput | kVSFLogEntryConnection | kVSFLogEntryDelete
  | kVSFLogEntryRename | kVSFLogEntryRmdir | kVSFLogEntryChmod | kVSFLogEntryDebug | kVSFLogEntryUpdate

text \<open>
  The fields of \<open>struct vsf_session\<close>. \<open>log_type\<close> is 0 (\<open>None\<close>) when no entry is pending. With two processes the
  passive socket belongs to the privileged parent, whose copy of the field is \<open>parent_listen_fd\<close>. The last
  fields are outside the struct: the static patterns of \<^verbatim>\<open>access.c\<close>, the process's umask, and the bytes
  the client still has to deliver on the control connection, with the trace of what the session did.
\<close>

record vsf_session =
  p_local_addr :: sockaddr
  p_remote_addr :: sockaddr
  pasv_listen_fd :: int
  parent_listen_fd :: int
  p_port_sockaddr :: "sockaddr option"
  data_fd :: int
  data_progress :: bool
  bw_rate_max :: nat
  is_anonymous :: bool
  is_guest :: bool
  user_str :: string
  anon_pass_str :: string
  restart_pos :: int
  is_ascii :: bool
  rnfr_filename_str :: string
  abor_received :: bool
  epsv_all :: bool
  is_http :: bool
  http_get_arg :: string
  p_visited_dir_list :: "mystr_list option"
  anon_ftp_uid :: int
  guest_user_uid :: int
  anon_upload_chown_uid :: int
  banned_email_str :: string
  email_passwords_str :: string
  userlist_str :: string
  banner_str :: string
  tcp_wrapper_ok :: bool
  xferlog_fd :: int
  vsftpd_log_fd :: int
  remote_ip_str :: string
  log_type :: "log_entry option"
  log_start_sec :: int
  log_start_usec :: int
  log_str :: string
  transfer_size :: int
  ftp_cmd_str :: string
  ftp_arg_str :: string
  num_clients :: nat
  num_this_ip :: nat
  home_str :: string
  control_use_ssl :: bool
  data_use_ssl :: bool
  p_data_ssl :: bool
  ssl_slave_active :: bool
  login_fails :: nat
  s_access_str :: string
  s_hide_str :: string
  s_current_umask :: nat
  control_in :: string
  trace :: trace_t

section \<open>Reply codes\<close>

text \<open>\<^verbatim>\<open>ftpcodes.h\<close>\<close>

abbreviation FTP_DATACONN :: nat where "FTP_DATACONN \<equiv> 150"
abbreviation FTP_NOOPOK :: nat where "FTP_NOOPOK \<equiv> 200"
abbreviation FTP_TYPEOK :: nat where "FTP_TYPEOK \<equiv> 200"
abbreviation FTP_PORTOK :: nat where "FTP_PORTOK \<equiv> 200"
abbreviation FTP_EPRTOK :: nat where "FTP_EPRTOK \<equiv> 200"
abbreviation FTP_UMASKOK :: nat where "FTP_UMASKOK \<equiv> 200"
abbreviation FTP_CHMODOK :: nat where "FTP_CHMODOK \<equiv> 200"
abbreviation FTP_EPSVALLOK :: nat where "FTP_EPSVALLOK \<equiv> 200"
abbreviation FTP_STRUOK :: nat where "FTP_STRUOK \<equiv> 200"
abbreviation FTP_MODEOK :: nat where "FTP_MODEOK \<equiv> 200"
abbreviation FTP_PBSZOK :: nat where "FTP_PBSZOK \<equiv> 200"
abbreviation FTP_PROTOK :: nat where "FTP_PROTOK \<equiv> 200"
abbreviation FTP_OPTSOK :: nat where "FTP_OPTSOK \<equiv> 200"
abbreviation FTP_ALLOOK :: nat where "FTP_ALLOOK \<equiv> 202"
abbreviation FTP_FEAT :: nat where "FTP_FEAT \<equiv> 211"
abbreviation FTP_STATOK :: nat where "FTP_STATOK \<equiv> 211"
abbreviation FTP_SIZEOK :: nat where "FTP_SIZEOK \<equiv> 213"
abbreviation FTP_MDTMOK :: nat where "FTP_MDTMOK \<equiv> 213"
abbreviation FTP_STATFILE_OK :: nat where "FTP_STATFILE_OK \<equiv> 213"
abbreviation FTP_SITEHELP :: nat where "FTP_SITEHELP \<equiv> 214"
abbreviation FTP_HELP :: nat where "FTP_HELP \<equiv> 214"
abbreviation FTP_SYSTOK :: nat where "FTP_SYSTOK \<equiv> 215"
abbreviation FTP_VERSOK :: nat where "FTP_VERSOK \<equiv> 216"
abbreviation FTP_GREET :: nat where "FTP_GREET \<equiv> 220"
abbreviation FTP_GOODBYE :: nat where "FTP_GOODBYE \<equiv> 221"
abbreviation FTP_ABOR_NOCONN :: nat where "FTP_ABOR_NOCONN \<equiv> 225"
abbreviation FTP_TRANSFEROK :: nat where "FTP_TRANSFEROK \<equiv> 226"
abbreviation FTP_ABOROK :: nat where "FTP_ABOROK \<equiv> 226"
abbreviation FTP_PASVOK :: nat where "FTP_PASVOK \<equiv> 227"
abbreviation FTP_EPSVOK :: nat where "FTP_EPSVOK \<equiv> 229"
abbreviation FTP_LOGINOK :: nat where "FTP_LOGINOK \<equiv> 230"
abbreviation FTP_AUTHOK :: nat where "FTP_AUTHOK \<equiv> 234"
abbreviation FTP_CWDOK :: nat where "FTP_CWDOK \<equiv> 250"
abbreviation FTP_RMDIROK :: nat where "FTP_RMDIROK \<equiv> 250"
abbreviation FTP_DELEOK :: nat where "FTP_DELEOK \<equiv> 250"
abbreviation FTP_RENAMEOK :: nat where "FTP_RENAMEOK \<equiv> 250"
abbreviation FTP_PWDOK :: nat where "FTP_PWDOK \<equiv> 257"
abbreviation FTP_MKDIROK :: nat where "FTP_MKDIROK \<equiv> 257"
abbreviation FTP_GIVEPWORD :: nat where "FTP_GIVEPWORD \<equiv> 331"
abbreviation FTP_RESTOK :: nat where "FTP_RESTOK \<equiv> 350"
abbreviation FTP_RNFROK :: nat where "FTP_RNFROK \<equiv> 350"
abbreviation FTP_IDLE_TIMEOUT :: nat where "FTP_IDLE_TIMEOUT \<equiv> 421"
abbreviation FTP_DATA_TIMEOUT :: nat where "FTP_DATA_TIMEOUT \<equiv> 421"
abbreviation FTP_TOO_MANY_USERS :: nat where "FTP_TOO_MANY_USERS \<equiv> 421"
abbreviation FTP_IP_LIMIT :: nat where "FTP_IP_LIMIT \<equiv> 421"
abbreviation FTP_IP_DENY :: nat where "FTP_IP_DENY \<equiv> 421"
abbreviation FTP_TLS_FAIL :: nat where "FTP_TLS_FAIL \<equiv> 421"
abbreviation FTP_BADSENDCONN :: nat where "FTP_BADSENDCONN \<equiv> 425"
abbreviation FTP_BADSENDNET :: nat where "FTP_BADSENDNET \<equiv> 426"
abbreviation FTP_BADSENDFILE :: nat where "FTP_BADSENDFILE \<equiv> 451"
abbreviation FTP_BADCMD :: nat where "FTP_BADCMD \<equiv> 500"
abbreviation FTP_BADOPTS :: nat where "FTP_BADOPTS \<equiv> 501"
abbreviation FTP_COMMANDNOTIMPL :: nat where "FTP_COMMANDNOTIMPL \<equiv> 502"
abbreviation FTP_NEEDUSER :: nat where "FTP_NEEDUSER \<equiv> 503"
abbreviation FTP_NEEDRNFR :: nat where "FTP_NEEDRNFR \<equiv> 503"
abbreviation FTP_BADPBSZ :: nat where "FTP_BADPBSZ \<equiv> 503"
abbreviation FTP_BADPROT :: nat where "FTP_BADPROT \<equiv> 503"
abbreviation FTP_BADSTRU :: nat where "FTP_BADSTRU \<equiv> 504"
abbreviation FTP_BADMODE :: nat where "FTP_BADMODE \<equiv> 504"
abbreviation FTP_BADAUTH :: nat where "FTP_BADAUTH \<equiv> 504"
abbreviation FTP_NOSUCHPROT :: nat where "FTP_NOSUCHPROT \<equiv> 504"
abbreviation FTP_NEEDENCRYPT :: nat where "FTP_NEEDENCRYPT \<equiv> 522"
abbreviation FTP_EPSVBAD :: nat where "FTP_EPSVBAD \<equiv> 522"
abbreviation FTP_DATATLSBAD :: nat where "FTP_DATATLSBAD \<equiv> 522"
abbreviation FTP_LOGINERR :: nat where "FTP_LOGINERR \<equiv> 530"
abbreviation FTP_NOHANDLEPROT :: nat where "FTP_NOHANDLEPROT \<equiv> 536"
abbreviation FTP_FILEFAIL :: nat where "FTP_FILEFAIL \<equiv> 550"
abbreviation FTP_NOPERM :: nat where "FTP_NOPERM \<equiv> 550"
abbreviation FTP_UPLOADFAIL :: nat where "FTP_UPLOADFAIL \<equiv> 553"

section \<open>Actions\<close>

text \<open>An action runs on a session and returns a value, or stops the process; either way the session is the one it left.\<close>

datatype 'a outcome = Ret 'a vsf_session | Stop halt vsf_session

type_synonym 'a act = "vsf_session \<Rightarrow> 'a outcome"

definition ret :: "'a \<Rightarrow> 'a act" where
  "ret a s = Ret a s"

definition stop :: "halt \<Rightarrow> 'a act" where
  "stop h s = Stop h s"

definition bnd :: "'a act \<Rightarrow> ('a \<Rightarrow> 'b act) \<Rightarrow> 'b act" where
  "bnd m f s = (case m s of Ret a s' \<Rightarrow> f a s' | Stop h s' \<Rightarrow> Stop h s')"

definition seq :: "unit act \<Rightarrow> 'b act \<Rightarrow> 'b act" where
  "seq m n = bnd m (\<lambda>_. n)"

definition onlyif :: "bool \<Rightarrow> unit act \<Rightarrow> unit act" where
  "onlyif c m = (if c then m else ret ())"

definition gets :: "(vsf_session \<Rightarrow> 'a) \<Rightarrow> 'a act" where
  "gets f s = Ret (f s) s"

definition modif :: "(vsf_session \<Rightarrow> vsf_session) \<Rightarrow> unit act" where
  "modif f s = Ret () (f s)"

definition lift :: "'a result \<Rightarrow> 'a act" where
  "lift r s = (case r of Inl h \<Rightarrow> Stop h s | Inr a \<Rightarrow> Ret a s)"

definition emit :: "event \<Rightarrow> unit act" where
  "emit ev = modif (\<lambda>s. s\<lparr>trace := ev # trace s\<rparr>)"

definition call :: "env \<Rightarrow> request \<Rightarrow> int act" where
  "call e r = bnd (gets (\<lambda>s. e_ret e (trace s) r)) (\<lambda>v. seq (emit (Req r)) (ret v))"

definition call_stat :: "env \<Rightarrow> request \<Rightarrow> file_info option act" where
  "call_stat e r = bnd (gets (\<lambda>s. e_stat e (trace s) r)) (\<lambda>v. seq (emit (Req r)) (ret v))"

definition call_text :: "env \<Rightarrow> request \<Rightarrow> string option act" where
  "call_text e r = bnd (gets (\<lambda>s. e_text e (trace s) r)) (\<lambda>v. seq (emit (Req r)) (ret v))"

definition must :: "bool \<Rightarrow> string \<Rightarrow> unit act" where
  "must ok p_text = (if ok then ret () else lift (die p_text))"

definition sysutil_exit :: "int \<Rightarrow> 'a act" where
  "sysutil_exit exit_code = stop (Exit exit_code)"

text \<open>The session an outcome leaves, whether the action returned or stopped.\<close>

fun final :: "'a outcome \<Rightarrow> vsf_session" where
  "final (Ret a s) = s"
| "final (Stop h s) = s"

section \<open>Reasoning about actions\<close>

text \<open>
  \<open>triple I m Q R\<close>: from a session that satisfies \<open>I\<close>, the action \<open>m\<close> ends in a value and a session with \<open>Q\<close>, or
  stops with \<open>R\<close>. \<open>keeps I m\<close> is preservation of \<open>I\<close> on both ways.
\<close>

definition triple :: "(vsf_session \<Rightarrow> bool) \<Rightarrow> 'a act \<Rightarrow> ('a \<Rightarrow> vsf_session \<Rightarrow> bool) \<Rightarrow>
    (halt \<Rightarrow> vsf_session \<Rightarrow> bool) \<Rightarrow> bool" where
  "triple I m Q R \<longleftrightarrow> (\<forall>s. I s \<longrightarrow> (case m s of Ret a s' \<Rightarrow> Q a s' | Stop h s' \<Rightarrow> R h s'))"

definition keeps :: "(vsf_session \<Rightarrow> bool) \<Rightarrow> 'a act \<Rightarrow> bool" where
  "keeps I m \<longleftrightarrow> (\<forall>s. I s \<longrightarrow> I (final (m s)))"

named_theorems vc \<open>introduction rules for preservation\<close>
named_theorems act_simps \<open>running the primitive actions\<close>

declare ret_def [act_simps] stop_def [act_simps] bnd_def [act_simps] seq_def [act_simps] onlyif_def [act_simps]
  gets_def [act_simps] modif_def [act_simps] lift_def [act_simps] emit_def [act_simps] call_def [act_simps]
  call_stat_def [act_simps] call_text_def [act_simps] must_def [act_simps] sysutil_exit_def [act_simps]

lemma keeps_ret [vc]: "keeps I (ret a)"
  by (simp add: keeps_def ret_def)

lemma keeps_stop [vc]: "keeps I (stop h)"
  by (simp add: keeps_def stop_def)

lemma keeps_gets [vc]: "keeps I (gets f)"
  by (simp add: keeps_def gets_def)

lemma keeps_lift [vc]: "keeps I (lift r)"
  by (cases r) (auto simp: keeps_def lift_def)

lemma keeps_modif: "(\<And>s. I s \<Longrightarrow> I (f s)) \<Longrightarrow> keeps I (modif f)"
  by (auto simp: keeps_def modif_def)

lemma keeps_bnd [vc]: "keeps I m \<Longrightarrow> (\<And>a. keeps I (f a)) \<Longrightarrow> keeps I (bnd m f)"
  unfolding keeps_def bnd_def
proof (intro allI impI)
  fix s assume m: "\<forall>s. I s \<longrightarrow> I (final (m s))" and f: "\<And>a. \<forall>s. I s \<longrightarrow> I (final (f a s))" and s: "I s"
  show "I (final (case m s of Ret a s' \<Rightarrow> f a s' | Stop h s' \<Rightarrow> Stop h s'))"
    using m [rule_format, OF s] f by (cases "m s") auto
qed

lemma keeps_seq [vc]: "keeps I m \<Longrightarrow> keeps I n \<Longrightarrow> keeps I (seq m n)"
  by (simp add: seq_def keeps_bnd)

lemma keeps_if [vc]: "(c \<Longrightarrow> keeps I m) \<Longrightarrow> (\<not> c \<Longrightarrow> keeps I n) \<Longrightarrow> keeps I (if c then m else n)"
  by simp

lemma keeps_onlyif [vc]: "(c \<Longrightarrow> keeps I m) \<Longrightarrow> keeps I (onlyif c m)"
  by (simp add: onlyif_def keeps_ret)

lemma keeps_must [vc]: "keeps I (must c p_text)"
  by (simp add: must_def keeps_ret keeps_lift)

lemma keeps_exit [vc]: "keeps I (sysutil_exit c)"
  by (simp add: sysutil_exit_def keeps_stop)

lemma keeps_case_option [vc]:
  "(x = None \<Longrightarrow> keeps I m) \<Longrightarrow> (\<And>a. x = Some a \<Longrightarrow> keeps I (f a)) \<Longrightarrow>
   keeps I (case x of None \<Rightarrow> m | Some a \<Rightarrow> f a)"
  by (cases x) auto

lemma keeps_case_prod [vc]: "(\<And>a b. x = (a, b) \<Longrightarrow> keeps I (f a b)) \<Longrightarrow> keeps I (case x of (a, b) \<Rightarrow> f a b)"
  by (cases x) auto

lemma keeps_gets_bnd: "(\<And>s. I s \<Longrightarrow> keeps I (g (f s))) \<Longrightarrow> keeps I (bnd (gets f) g)"
  by (simp add: keeps_def bnd_def gets_def)

lemma keeps_Let [vc]: "keeps I (f x) \<Longrightarrow> keeps I (Let x f)"
  by simp

lemma keeps_lift_bnd: "(\<And>a. x = Inr a \<Longrightarrow> keeps I (f a)) \<Longrightarrow> keeps I (bnd (lift x) f)"
  by (cases x) (auto simp: keeps_def bnd_def lift_def)

lemma keepsD: "keeps I m \<Longrightarrow> I s \<Longrightarrow> I (final (m s))"
  by (simp add: keeps_def)

lemma triple_keeps: "triple I m (\<lambda>_. I) (\<lambda>_. I) \<longleftrightarrow> keeps I m"
proof -
  have "(case m s of Ret a s' \<Rightarrow> I s' | Stop h s' \<Rightarrow> I s') = I (final (m s))" for s by (cases "m s") simp_all
  then show ?thesis by (simp add: triple_def keeps_def)
qed

lemma bnd_assoc: "bnd (bnd m f) g = bnd m (\<lambda>a. bnd (f a) g)"
  by (rule ext) (simp add: bnd_def split: outcome.splits)

lemma bnd_ret [simp]: "bnd (ret a) f = f a"
  by (rule ext) (simp add: bnd_def ret_def)

lemma triple_bnd:
  assumes "triple I m M R" and "\<And>a. triple (M a) (f a) Q R"
  shows "triple I (bnd m f) Q R"
  unfolding triple_def
proof (intro allI impI)
  fix s assume "I s"
  then show "case bnd m f s of Ret a s' \<Rightarrow> Q a s' | Stop h s' \<Rightarrow> R h s'"
    using assms by (cases "m s") (auto simp: triple_def bnd_def dest: spec [of _ s])
qed

lemma triple_seqI: "triple I m (\<lambda>_. M) R \<Longrightarrow> triple M m' Q R \<Longrightarrow> triple I (seq m m') Q R"
  unfolding seq_def by (rule triple_bnd)

lemma keeps_triple:
  assumes "keeps I m" and "\<And>s. I s \<Longrightarrow> Q s" and "\<And>s. I s \<Longrightarrow> R s"
  shows "triple I m (\<lambda>_. Q) (\<lambda>_. R)"
  unfolding triple_def
proof (intro allI impI)
  fix s assume "I s"
  then have "I (final (m s))" by (rule keepsD [OF assms(1)])
  then show "case m s of Ret a s' \<Rightarrow> Q s' | Stop h s' \<Rightarrow> R s'" using assms(2,3) by (cases "m s") auto
qed

text \<open>Rules for a property of the value an action returns; how it stops does not matter.\<close>

definition returns :: "('a \<Rightarrow> bool) \<Rightarrow> 'a act \<Rightarrow> bool" where
  "returns Q m \<longleftrightarrow> triple (\<lambda>_. True) m (\<lambda>a _. Q a) (\<lambda>_ _. True)"

lemma returnsD: "returns Q m \<Longrightarrow> m s = Ret a s' \<Longrightarrow> Q a"
  unfolding returns_def triple_def by (drule spec [of _ s]) simp

lemma returns_bnd: "returns P m \<Longrightarrow> (\<And>a. P a \<Longrightarrow> returns Q (f a)) \<Longrightarrow> returns Q (bnd m f)"
  unfolding returns_def by (rule triple_bnd [where M = "\<lambda>a _. P a"]) (auto simp: triple_def)

lemma returns_any: "(\<And>a. returns Q (f a)) \<Longrightarrow> returns Q (bnd m f)"
  unfolding returns_def by (rule triple_bnd [where M = "\<lambda>_ _. True"]) (auto simp: triple_def split: outcome.splits)

lemma returns_seq: "returns Q m' \<Longrightarrow> returns Q (seq m m')"
  unfolding seq_def by (rule returns_any)

lemma returns_ret: "Q a \<Longrightarrow> returns Q (ret a)"
  by (simp add: returns_def triple_def ret_def)

lemma returns_stop: "returns Q (stop h)" "returns Q (lift (Inl h))"
  by (simp_all add: returns_def triple_def stop_def lift_def)

lemma returns_if: "(c \<Longrightarrow> returns Q m) \<Longrightarrow> (\<not> c \<Longrightarrow> returns Q m') \<Longrightarrow> returns Q (if c then m else m')"
  by simp

section \<open>A concrete environment\<close>

text \<open>
  For concrete runs: the options in \<open>on\<close> are set and nothing else is configured, every request succeeds with 0, every
  write is complete, and there are no files.
\<close>

definition plain_tunables :: "string list \<Rightarrow> tunables" where
  "plain_tunables on = \<lparr>t_bool = (\<lambda>n. n \<in> set on), t_uint = (\<lambda>_. 0), t_str = (\<lambda>_. None)\<rparr>"

definition calm_env :: "string list \<Rightarrow> env" where
  "calm_env on =
     \<lparr>tun = plain_tunables on,
      e_ret = (\<lambda>tr r. case r of FileWrite fd d \<Rightarrow> int (length d) | _ \<Rightarrow> 0),
      e_text = (\<lambda>tr r. Some ''/''), e_stat = (\<lambda>tr r. None), e_names = (\<lambda>tr r. None), e_reads = (\<lambda>tr fd. []),
      e_peer = (\<lambda>tr. vsf_sysutil_sockaddr_alloc_ipv4), e_fs = (\<lambda>tr f. None),
      e_ls = (\<lambda>tr. plain_env),
      e_time = (\<lambda>tr. (0, 0)), e_date = (\<lambda>tr. []), e_pid = 1, e_rate = (\<lambda>a b c. []), e_sent = (\<lambda>tr d. 0),
      e_chunk = (\<lambda>w. 1024), e_numeric_date = (\<lambda>i l. []), e_mktime = (\<lambda>xs. 0), e_ntop = (\<lambda>a. []),
      e_aton = (\<lambda>t. None), e_avail = (\<lambda>n. True)\<rparr>"

text \<open>A session over IPv4 at its beginning, with the bytes that its client is going to send.\<close>

definition new_session :: "bool \<Rightarrow> string \<Rightarrow> vsf_session" where
  "new_session anon input =
     \<lparr>p_local_addr = vsf_sysutil_sockaddr_alloc_ipv4, p_remote_addr = vsf_sysutil_sockaddr_alloc_ipv4,
      pasv_listen_fd = -1, parent_listen_fd = -1, p_port_sockaddr = None, data_fd = -1, data_progress = False,
      bw_rate_max = 0, is_anonymous = anon, is_guest = False, user_str = ''ftp'', anon_pass_str = [], restart_pos = 0,
      is_ascii = False, rnfr_filename_str = [], abor_received = False, epsv_all = False, is_http = False,
      http_get_arg = [], p_visited_dir_list = None, anon_ftp_uid = -1, guest_user_uid = -1, anon_upload_chown_uid = -1,
      banned_email_str = [], email_passwords_str = [], userlist_str = [], banner_str = [], tcp_wrapper_ok = True,
      xferlog_fd = -1, vsftpd_log_fd = -1, remote_ip_str = [], log_type = None, log_start_sec = 0, log_start_usec = 0,
      log_str = [], transfer_size = 0, ftp_cmd_str = [], ftp_arg_str = [], num_clients = 0, num_this_ip = 0,
      home_str = [], control_use_ssl = False, data_use_ssl = False, p_data_ssl = False, ssl_slave_active = False,
      login_fails = 0, s_access_str = [], s_hide_str = [], s_current_umask = 63, control_in = input, trace = []\<rparr>"

lemma calm_env_sels [simp]:
  "tb (calm_env on) n \<longleftrightarrow> n \<in> set on" "tu (calm_env on) n = 0" "ts (calm_env on) n = None"
  "e_sent (calm_env on) tr d = 0" "e_text (calm_env on) tr q = Some ''/''" "e_ret (calm_env on) tr (FileWrite fd d) = int (length d)"
  by (simp_all add: calm_env_def plain_tunables_def)

lemma new_session_sels [simp]:
  "control_in (new_session anon input) = input" "trace (new_session anon input) = []"
  "is_anonymous (new_session anon input) = anon" "p_remote_addr (new_session anon input) = vsf_sysutil_sockaddr_alloc_ipv4"
  "p_local_addr (new_session anon input) = vsf_sysutil_sockaddr_alloc_ipv4" "is_http (new_session anon input) = False"
  "control_use_ssl (new_session anon input) = False" "data_use_ssl (new_session anon input) = False"
  "pasv_listen_fd (new_session anon input) = -1" "parent_listen_fd (new_session anon input) = -1"
  "data_fd (new_session anon input) = -1"
  by (simp_all add: new_session_def)

text \<open>A session at its beginning: nothing done yet, no pending rename, no address from the client.\<close>

definition fresh_session :: "vsf_session \<Rightarrow> bool" where
  "fresh_session s \<longleftrightarrow> trace s = [] \<and> rnfr_filename_str s = [] \<and> s_access_str s = [] \<and> p_port_sockaddr s = None"

lemma fresh_new_session [simp]: "fresh_session (new_session anon input)"
  by (simp add: fresh_session_def new_session_def)

end
