(* ===== verification/Logging.thy ===== *)
theory Logging
  imports Session
begin

text \<open>
  \<^verbatim>\<open>logging.c\<close>: pending log entries, the two line formats, and writing a line. The date, the clock, the process id
  and the printed transfer rate (a \<open>double\<close> formatted by the C library) come from the environment.
\<close>

definition vsf_log_type_is_transfer :: "log_entry \<Rightarrow> bool" where
  "vsf_log_type_is_transfer what \<longleftrightarrow> what = kVSFLogEntryDownload \<or> what = kVSFLogEntryUpload"

definition vsf_log_start_entry :: "env \<Rightarrow> log_entry \<Rightarrow> unit act" where
  "vsf_log_start_entry e what =
     bnd (gets log_type) (\<lambda>pending.
     if pending \<noteq> None then lift (bug ''non null log_type in vsf_log_start_entry'')
     else seq (modif (\<lambda>s. s\<lparr>log_type := Some what, log_start_sec := 0, log_start_usec := 0, transfer_size := 0,
                          log_str := []\<rparr>))
          (onlyif (vsf_log_type_is_transfer what)
             (bnd (gets (\<lambda>s. e_time e (trace s))) (\<lambda>(sec, usec).
              modif (\<lambda>s. s\<lparr>log_start_sec := sec, log_start_usec := usec\<rparr>)))))"

definition vsf_log_entry_pending :: "vsf_session \<Rightarrow> bool" where
  "vsf_log_entry_pending s \<longleftrightarrow> log_type s \<noteq> None"

definition vsf_log_clear_entry :: "unit act" where
  "vsf_log_clear_entry = modif (\<lambda>s. s\<lparr>log_type := None\<rparr>)"

section \<open>The two formats\<close>

definition vsf_log_do_log_wuftpd_format :: "env \<Rightarrow> vsf_session \<Rightarrow> bool \<Rightarrow> string" where
  "vsf_log_do_log_wuftpd_format e p_sess succeeded =
     (let delta = fst (e_time e (trace p_sess)) - log_start_sec p_sess;
          delta_sec = (if delta \<le> 0 then 1 else delta)
      in e_date e (trace p_sess) @ '' '' @ vsf_sysutil_ulong_to_str (nat delta_sec) @ '' '' @
         remote_ip_str p_sess @ '' '' @ vsf_sysutil_filesize_t_to_str (transfer_size p_sess) @ '' '' @
         str_replace_char (log_str p_sess) CHR '' '' CHR ''_'' @ '' '' @
         (if is_ascii p_sess then ''a '' else ''b '') @ ''_ '' @
         (if log_type p_sess = Some kVSFLogEntryUpload then ''i '' else ''o '') @
         (if is_anonymous p_sess \<and> \<not> is_guest p_sess then ''a '' @ anon_pass_str p_sess
          else (if is_guest p_sess then ''g '' else ''r '') @ user_str p_sess) @
         '' '' @ ''ftp 0 * '' @ (if succeeded then ''c'' else ''i''))"

definition log_action_text :: "log_entry \<Rightarrow> string result" where
  "log_action_text what =
     (case what of
        kVSFLogEntryDownload \<Rightarrow> Inr ''DOWNLOAD''
      | kVSFLogEntryUpload \<Rightarrow> Inr ''UPLOAD''
      | kVSFLogEntryMkdir \<Rightarrow> Inr ''MKDIR''
      | kVSFLogEntryLogin \<Rightarrow> Inr ''LOGIN''
      | kVSFLogEntryFTPInput \<Rightarrow> Inr ''FTP command''
      | kVSFLogEntryFTPOutput \<Rightarrow> Inr ''FTP response''
      | kVSFLogEntryConnection \<Rightarrow> Inr ''CONNECT''
      | kVSFLogEntryDelete \<Rightarrow> Inr ''DELETE''
      | kVSFLogEntryRename \<Rightarrow> Inr ''RENAME''
      | kVSFLogEntryRmdir \<Rightarrow> Inr ''RMDIR''
      | kVSFLogEntryChmod \<Rightarrow> Inr ''CHMOD''
      | kVSFLogEntryDebug \<Rightarrow> Inr ''DEBUG''
      | kVSFLogEntryUpdate \<Rightarrow> Inr ''UPDATE''
      | kVSFLogEntryNull \<Rightarrow> bug ''bad entry_type in vsf_log_do_log'')"

definition vsf_log_do_log_vsftpd_format :: "env \<Rightarrow> vsf_session \<Rightarrow> bool \<Rightarrow> log_entry \<Rightarrow> string \<Rightarrow> string result" where
  "vsf_log_do_log_vsftpd_format e p_sess succeeded what p_log_str =
     andthen (log_action_text what) (\<lambda>action.
     Inr ((if \<not> tb e ''syslog_enable''
           then e_date e (trace p_sess) @ '' [pid '' @ vsf_sysutil_ulong_to_str (e_pid e) @ ''] '' else []) @
          (if user_str p_sess \<noteq> [] then ''['' @ user_str p_sess @ ''] '' else []) @
          (if what \<noteq> kVSFLogEntryFTPInput \<and> what \<noteq> kVSFLogEntryFTPOutput \<and> what \<noteq> kVSFLogEntryConnection \<and>
              what \<noteq> kVSFLogEntryDebug
           then (if succeeded then ''OK '' else ''FAIL '') else []) @
          action @ '': Client '' @ [QUOTE] @ remote_ip_str p_sess @ [QUOTE] @
          (if what = kVSFLogEntryLogin \<and> anon_pass_str p_sess \<noteq> []
           then '', anon password '' @ [QUOTE] @ anon_pass_str p_sess @ [QUOTE] else []) @
          (if p_log_str \<noteq> [] then '', '' @ [QUOTE] @ p_log_str @ [QUOTE] else []) @
          (if what \<noteq> kVSFLogEntryFTPInput \<and> what \<noteq> kVSFLogEntryFTPOutput \<and> what \<noteq> kVSFLogEntryDebug
           then (if transfer_size p_sess \<noteq> 0
                 then '', '' @ vsf_sysutil_filesize_t_to_str (transfer_size p_sess) @ '' bytes'' else []) @
                (if vsf_log_type_is_transfer what
                 then '', '' @ e_rate e (transfer_size p_sess) (fst (e_time e (trace p_sess)) - log_start_sec p_sess)
                                 (snd (e_time e (trace p_sess)) - log_start_usec p_sess) @ ''Kbyte/sec'' else [])
           else [])))"

section \<open>Writing a line\<close>

definition vsf_log_do_log_to_file :: "env \<Rightarrow> int \<Rightarrow> string \<Rightarrow> unit act" where
  "vsf_log_do_log_to_file e fd p_str =
     (let put = emit (LogWrite fd (str_replace_unprintable p_str CHR ''?'' @ [LF])) in
      if \<not> tb e ''no_log_lock''
      then bnd (call e (OnFd LockWrite fd)) (\<lambda>retval.
           if vsf_sysutil_retval_is_error retval then ret ()
           else seq put (bnd (call e (OnFd Unlock fd)) (\<lambda>retval. must (retval = 0) ''fcntl'')))
      else put)"

definition vsf_log_common :: "env \<Rightarrow> bool \<Rightarrow> log_entry \<Rightarrow> string \<Rightarrow> unit act" where
  "vsf_log_common e succeeded what p_str =
     bnd (gets xferlog_fd) (\<lambda>xfd.
     bnd (gets vsftpd_log_fd) (\<lambda>vfd.
     seq (onlyif (xfd \<noteq> -1 \<and> vsf_log_type_is_transfer what)
            (bnd (gets (\<lambda>s. vsf_log_do_log_wuftpd_format e s succeeded)) (vsf_log_do_log_to_file e xfd)))
     (seq (onlyif (vfd \<noteq> -1)
            (bnd (gets (\<lambda>s. vsf_log_do_log_vsftpd_format e s succeeded what p_str)) (\<lambda>r.
             bnd (lift r) (vsf_log_do_log_to_file e vfd))))
     (onlyif (tb e ''syslog_enable'')
            (bnd (gets (\<lambda>s. vsf_log_do_log_vsftpd_format e s succeeded what p_str)) (\<lambda>r.
             bnd (lift r) (\<lambda>l. emit (Syslog l (what = kVSFLogEntryLogin \<and> \<not> succeeded))))))))) "

definition vsf_log_line :: "env \<Rightarrow> log_entry \<Rightarrow> string \<Rightarrow> unit act" where
  "vsf_log_line e what p_str = vsf_log_common e True what p_str"

text \<open>With no entry pending the C code would log the invalid entry type 0.\<close>

definition vsf_log_do_log :: "env \<Rightarrow> bool \<Rightarrow> unit act" where
  "vsf_log_do_log e succeeded =
     bnd (gets log_type) (\<lambda>what.
     bnd (gets log_str) (\<lambda>l.
     seq (vsf_log_common e succeeded (case what of None \<Rightarrow> kVSFLogEntryNull | Some w \<Rightarrow> w) l)
         vsf_log_clear_entry))"

end
