(* ===== verification/Netstr.thy ===== *)
theory Netstr
  imports Str Filestr
begin

text \<open>
  \<^verbatim>\<open>netstr.c\<close>: reading a line from the network with \<open>recv\<close>'s peek, so that never a byte behind the line is
  consumed. The channel is a world that the two functions passed by the caller act on: each returns a result and the
  bytes it put at the buffer position it was given.
\<close>

section \<open>Reading up to a terminator\<close>

text \<open>\<open>got\<close> is the part of the buffer before \<open>p_readpos\<close>, \<open>left\<close> the room behind it.\<close>

function netfd_loop ::
  "('w \<Rightarrow> nat \<Rightarrow> int \<times> string \<times> 'w) \<Rightarrow> ('w \<Rightarrow> nat \<Rightarrow> int \<times> string \<times> 'w) \<Rightarrow> char \<Rightarrow> string \<Rightarrow> nat \<Rightarrow> 'w \<Rightarrow>
   (int \<times> string) result \<times> 'w"
where
  "netfd_loop p_peekfunc p_readfunc term got left w =
     (if left = 0 then (Inr (-1, []), w)
      else case p_peekfunc w left of (retval, d, w1) \<Rightarrow>
        if vsf_sysutil_retval_is_error retval then (die ''vsf_sysutil_recv_peek'', w1)
        else if retval = 0 then (die ''vsf_sysutil_recv_peek: no data'', w1)
        else let bytes_read = nat retval; i = length (takeWhile (\<lambda>c. c \<noteq> term) (take bytes_read d)) in
          if i < length (take bytes_read d)
          then case p_readfunc w1 (i + 1) of (retval2, d2, w2) \<Rightarrow>
            if vsf_sysutil_retval_is_error retval2 \<or> retval2 \<noteq> int (i + 1) then (die ''vsf_sysutil_read_loop'', w2)
            else if length d2 \<le> i then (Inl Undef, w2)
            else if d2 ! i \<noteq> term then (die ''missing terminator in str_netfd_alloc'', w2)
            else (Inr (int i, takeWhile (\<lambda>c. c \<noteq> term) (got @ d2)), w2)
          else if bytes_read > left then (bug ''bytes_read > left in str_netfd_alloc'', w1)
          else case p_readfunc w1 bytes_read of (retval2, d2, w2) \<Rightarrow>
            if vsf_sysutil_retval_is_error retval2 \<or> retval2 \<noteq> int bytes_read then (die ''vsf_sysutil_read_loop'', w2)
            else netfd_loop p_peekfunc p_readfunc term (got @ d2) (left - bytes_read) w2)"
  by pat_completeness auto
termination
  by (relation "measure (\<lambda>(p, r, t, g, left, w). left)") (auto simp: vsf_sysutil_retval_is_error_def)

declare netfd_loop.simps [simp del]

definition str_netfd_alloc ::
  "('w \<Rightarrow> nat \<Rightarrow> int \<times> string \<times> 'w) \<Rightarrow> ('w \<Rightarrow> nat \<Rightarrow> int \<times> string \<times> 'w) \<Rightarrow> char \<Rightarrow> nat \<Rightarrow> 'w \<Rightarrow>
   (int \<times> string) result \<times> 'w" where
  "str_netfd_alloc p_peekfunc p_readfunc term maxlen w = netfd_loop p_peekfunc p_readfunc term [] maxlen w"

definition str_netfd_write :: "('w \<Rightarrow> string \<Rightarrow> int \<times> 'w) \<Rightarrow> 'w \<Rightarrow> string \<Rightarrow> int result \<times> 'w" where
  "str_netfd_write wr w p_str =
     (if length p_str = 0 then (bug ''zero str_len in str_netfd_write'', w)
      else case vsf_sysutil_write_loop wr w p_str of (retval, w') \<Rightarrow>
        (andthen retval (\<lambda>r. Inr (if vsf_sysutil_retval_is_error r \<or> nat r \<noteq> length p_str then -1 else 0)), w'))"

section \<open>What a stream socket promises\<close>

text \<open>
  A socket holds the bytes \<open>rest w\<close> that the peer has sent: peeking shows some of them, at least one while there are
  any, and takes none; reading delivers as many as asked for while there are that many (\<open>vsf_sysutil_read_loop\<close>).
\<close>

locale stream_socket =
  fixes rest :: "'w \<Rightarrow> string"
    and peek :: "'w \<Rightarrow> nat \<Rightarrow> int \<times> string \<times> 'w"
    and rd :: "'w \<Rightarrow> nat \<Rightarrow> int \<times> string \<times> 'w"
  assumes peek_some: "0 < n \<Longrightarrow> rest w \<noteq> [] \<Longrightarrow>
      \<exists>k w'. peek w n = (int k, take k (rest w), w') \<and> 0 < k \<and> k \<le> n \<and> k \<le> length (rest w) \<and> rest w' = rest w"
    and peek_eof: "0 < n \<Longrightarrow> rest w = [] \<Longrightarrow> \<exists>d w'. peek w n = (0, d, w') \<and> rest w' = []"
    and rd_exact: "n \<le> length (rest w) \<Longrightarrow> \<exists>w'. rd w n = (int n, take n (rest w), w') \<and> rest w' = drop n (rest w)"
begin

lemma line_take:
  assumes "t \<in> set (take k xs)"
  shows "takeWhile (\<lambda>c. c \<noteq> t) (take k xs) = takeWhile (\<lambda>c. c \<noteq> t) xs"
    and "length (takeWhile (\<lambda>c. c \<noteq> t) xs) < k"
proof -
  have "\<exists>x\<in>set (take k xs). \<not> x \<noteq> t" using assms by auto
  then have l: "length (takeWhile (\<lambda>c. c \<noteq> t) (take k xs)) < length (take k xs)"
    by (simp only: length_takeWhile_less_iff)
  show eq: "takeWhile (\<lambda>c. c \<noteq> t) (take k xs) = takeWhile (\<lambda>c. c \<noteq> t) xs"
    using takeWhile_append1 [OF assms, of "\<lambda>c. c \<noteq> t" "drop k xs"] by simp
  show "length (takeWhile (\<lambda>c. c \<noteq> t) xs) < k" using l unfolding eq by simp
qed

text \<open>One turn of the loop on bytes without the terminator moves them into the buffer.\<close>

lemma loop_step:
  assumes "0 < left" and "rest w \<noteq> []"
  obtains (hit) k w1 where "peek w left = (int k, take k (rest w), w1)" "0 < k" "k \<le> left" "k \<le> length (rest w)"
      "rest w1 = rest w" "t \<in> set (take k (rest w))"
  | (move) k w2 where "netfd_loop peek rd t got left w = netfd_loop peek rd t (got @ take k (rest w)) (left - k) w2"
      "0 < k" "k \<le> left" "k \<le> length (rest w)" "rest w2 = drop k (rest w)" "t \<notin> set (take k (rest w))"
      "take left (rest w) = take k (rest w) @ take (left - k) (rest w2)"
proof -
  obtain k w1 where k: "peek w left = (int k, take k (rest w), w1)" "0 < k" "k \<le> left" "k \<le> length (rest w)"
    "rest w1 = rest w" using peek_some [OF assms(1,2)] by blast
  show ?thesis
  proof (cases "t \<in> set (take k (rest w))")
    case True
    with k show ?thesis by (rule hit)
  next
    case False
    then have len: "length (takeWhile (\<lambda>c. c \<noteq> t) (take k (rest w))) = k" using k(4) by simp
    obtain w2 where w2: "rd w1 k = (int k, take k (rest w), w2)" "rest w2 = drop k (rest w)"
      using rd_exact [of k w1] k by auto
    have "netfd_loop peek rd t got left w = netfd_loop peek rd t (got @ take k (rest w)) (left - k) w2"
      using assms(1) k len w2(1)
      by (simp add: netfd_loop.simps [of peek rd t got left w] vsf_sysutil_retval_is_error_def Let_def)
    moreover have "take left (rest w) = take k (rest w) @ take (left - k) (rest w2)"
      using k(3) w2(2) by (metis le_add_diff_inverse take_add)
    ultimately show ?thesis using k(2-4) w2(2) False by (intro move)
  qed
qed

lemma loop_line:
  assumes "t \<in> set (take left (rest w))" and "t \<notin> set got"
  shows "\<exists>i w'. netfd_loop peek rd t got left w = (Inr (int i, got @ takeWhile (\<lambda>c. c \<noteq> t) (rest w)), w') \<and>
           rest w' = tl (dropWhile (\<lambda>c. c \<noteq> t) (rest w))"
  using assms
proof (induction left arbitrary: got w rule: less_induct)
  case (less left)
  have pos: "0 < left" and ne: "rest w \<noteq> []" using less.prems(1) by (auto intro: gr0I)
  let ?l = "takeWhile (\<lambda>c. c \<noteq> t) (rest w)"
  show ?case using pos ne
  proof (cases rule: loop_step [where t = t and got = got, consumes 2, case_names hit move])
    case (hit k w1)
    let ?i = "length ?l"
    have i: "?i < k" using line_take(2) [OF hit(6)] .
    then have le: "?i + 1 \<le> length (rest w1)" using hit by simp
    obtain w2 where w2: "rd w1 (?i + 1) = (int (?i + 1), take (?i + 1) (rest w), w2)" "rest w2 = drop (?i + 1) (rest w)"
      using rd_exact [OF le] hit(5) by auto
    have lt: "?i < length (rest w)" using i hit(4) by linarith
    have split: "take (?i + 1) (rest w) = ?l @ [t]" using lt nth_length_takeWhile [OF lt]
      by (simp add: take_Suc_conv_app_nth takeWhile_eq_take [symmetric])
    have drop: "drop (?i + 1) (rest w) = tl (dropWhile (\<lambda>c. c \<noteq> t) (rest w))"
      by (simp add: dropWhile_eq_drop drop_Suc tl_drop)
    have "t \<notin> set (got @ ?l)" using less.prems(2) by (auto dest: set_takeWhileD)
    from takeWhile_cut [OF this, of "[]"] have tw: "takeWhile (\<lambda>c. c \<noteq> t) (got @ ?l @ [t]) = got @ ?l" by simp
    have tk: "takeWhile (\<lambda>c. c \<noteq> t) (take k (take k (rest w))) = ?l" using line_take(1) [OF hit(6)] by simp
    have "netfd_loop peek rd t got left w = (Inr (int ?i, got @ ?l), w2)"
      unfolding netfd_loop.simps [of peek rd t got left w]
      using pos hit(1-4) i w2(1) split tw tk by (simp add: vsf_sysutil_retval_is_error_def)
    with w2(2) drop show ?thesis by auto
  next
    case (move k w2)
    have mem: "t \<in> set (take (left - k) (rest w2))" using less.prems(1) move(6,7) by auto
    have got: "t \<notin> set (got @ take k (rest w))" using less.prems(2) move(6) by simp
    have lt: "left - k < left" using move(2) pos by simp
    have all: "\<And>x. x \<in> set (take k (rest w)) \<Longrightarrow> x \<noteq> t" using move(6) by blast
    have "?l = take k (rest w) @ takeWhile (\<lambda>c. c \<noteq> t) (drop k (rest w))"
      "dropWhile (\<lambda>c. c \<noteq> t) (rest w) = dropWhile (\<lambda>c. c \<noteq> t) (drop k (rest w))"
      using takeWhile_append2 [of "take k (rest w)" "\<lambda>c. c \<noteq> t" "drop k (rest w)", OF all]
        dropWhile_append2 [of "take k (rest w)" "\<lambda>c. c \<noteq> t" "drop k (rest w)", OF all] by simp_all
    with less.IH [OF lt mem got] move(5) show ?thesis unfolding move(1) by auto
  qed
qed

lemma loop_no_line:
  assumes "t \<notin> set (take left (rest w))"
  shows "\<exists>w'. netfd_loop peek rd t got left w =
           (if left \<le> length (rest w) then Inr (-1, []) else die ''vsf_sysutil_recv_peek: no data'', w') \<and>
           rest w' = drop left (rest w)"
  using assms
proof (induction left arbitrary: got w rule: less_induct)
  case (less left)
  consider "left = 0" | "0 < left" "rest w = []" | "0 < left" "rest w \<noteq> []" by blast
  then show ?case
  proof cases
    case 1
    then show ?thesis using netfd_loop.simps [of peek rd t got left w] by simp
  next
    case 2
    with peek_eof [OF 2] show ?thesis
      using netfd_loop.simps [of peek rd t got left w] by (auto simp: vsf_sysutil_retval_is_error_def)
  next
    case 3
    then show ?thesis
    proof (cases rule: loop_step [where t = t and got = got, consumes 2, case_names hit move])
      case (hit k w1)
      then have "t \<in> set (take left (rest w))" by (meson set_take_subset_set_take subsetD)
      with less.prems show ?thesis by simp
    next
      case (move k w2)
      have mem: "t \<notin> set (take (left - k) (rest w2))" using less.prems move(7) by simp
      have lt: "left - k < left" using move(2) 3(1) by simp
      have "(left - k \<le> length (rest w2)) = (left \<le> length (rest w))" using move(3-5) by auto
      with less.IH [OF lt mem, of "got @ take k (rest w)"] move(3,5) show ?thesis unfolding move(1) by auto
    qed
  qed
qed

end

section \<open>A concrete socket\<close>

text \<open>The bytes in order, of which a peek shows at most \<open>chunk\<close> (at least one).\<close>

definition sock_peek :: "(string \<Rightarrow> nat) \<Rightarrow> string \<Rightarrow> nat \<Rightarrow> int \<times> string \<times> string" where
  "sock_peek chunk w n = (let k = min n (max 1 (chunk w)) in (int (length (take k w)), take k w, w))"

definition sock_read :: "string \<Rightarrow> nat \<Rightarrow> int \<times> string \<times> string" where
  "sock_read w n = (int (length (take n w)), take n w, drop n w)"

interpretation sock: stream_socket "\<lambda>w. w" "sock_peek chunk" sock_read for chunk
proof unfold_locales
  fix n :: nat and w :: string
  assume "0 < n" and "w \<noteq> []"
  then show "\<exists>k w'. sock_peek chunk w n = (int k, take k w, w') \<and> 0 < k \<and> k \<le> n \<and> k \<le> length w \<and> w' = w"
    by (intro exI [of _ "min (length w) (min n (max 1 (chunk w)))"])
       (auto simp: sock_peek_def Let_def min_def max_def split: if_splits)
qed (auto simp: sock_peek_def sock_read_def)

lemma netfd_alloc_cases:
  "\<exists>i. str_netfd_alloc (sock_peek chunk) sock_read term maxlen w =
     (if term \<in> set (take maxlen w) then (Inr (int i, takeWhile (\<lambda>c. c \<noteq> term) w), tl (dropWhile (\<lambda>c. c \<noteq> term) w))
      else if maxlen \<le> length w then (Inr (-1, []), drop maxlen w)
      else (die ''vsf_sysutil_recv_peek: no data'', []))"
proof (cases "term \<in> set (take maxlen w)")
  case True
  from sock.loop_line [OF this, of "[]" chunk] True show ?thesis by (auto simp: str_netfd_alloc_def)
next
  case False
  from sock.loop_no_line [OF False, of chunk "[]"] False show ?thesis by (auto simp: str_netfd_alloc_def)
qed

text \<open>A line takes at least its terminator from the socket; an error takes nothing that was not there.\<close>

lemma netfd_alloc_shrinks:
  assumes "str_netfd_alloc (sock_peek chunk) sock_read term maxlen w = (r, w')"
  shows "length w' \<le> length w" and "r = Inr (int i, l) \<Longrightarrow> length w' < length w"
proof -
  obtain k where k: "str_netfd_alloc (sock_peek chunk) sock_read term maxlen w =
     (if term \<in> set (take maxlen w) then (Inr (int k, takeWhile (\<lambda>c. c \<noteq> term) w), tl (dropWhile (\<lambda>c. c \<noteq> term) w))
      else if maxlen \<le> length w then (Inr (-1, []), drop maxlen w)
      else (die ''vsf_sysutil_recv_peek: no data'', []))"
    using netfd_alloc_cases by blast
  have tl: "length (tl (dropWhile (\<lambda>c. c \<noteq> term) w)) < length w" if "term \<in> set (take maxlen w)"
  proof -
    have "w \<noteq> []" using that by auto
    moreover have "length (dropWhile (\<lambda>c. c \<noteq> term) w) \<le> length w" by (rule length_dropWhile_le)
    ultimately show ?thesis by (cases w) auto
  qed
  show "length w' \<le> length w" using assms tl unfolding k by (auto split: if_splits dest: less_imp_le)
  show "length w' < length w" if "r = Inr (int i, l)" using assms tl that unfolding k
    by (auto simp: halt_simps split: if_splits)
qed

text \<open>
  C24: reading a line from the network. However the bytes arrive, \<open>str_netfd_alloc\<close> returns, and: if the terminator is
  among the first \<open>maxlen\<close> bytes, it delivers exactly the bytes before it and consumes them with the terminator and
  nothing more; if there are \<open>maxlen\<close> bytes without it, it consumes these and answers -1 with an empty string; if the
  peer closed the connection before, the process stops.
\<close>

theorem netfd_alloc_line:
  "\<exists>i. str_netfd_alloc (sock_peek chunk) sock_read term maxlen w =
     (if term \<in> set (take maxlen w) then (Inr (int i, takeWhile (\<lambda>c. c \<noteq> term) w), tl (dropWhile (\<lambda>c. c \<noteq> term) w))
      else if maxlen \<le> length w then (Inr (-1, []), drop maxlen w)
      else (die ''vsf_sysutil_recv_peek: no data'', []))"
  by (rule netfd_alloc_cases)

end
