(* ===== verification/Ftpcmdio.thy ===== *)
theory Ftpcmdio
  imports Logging Netstr
begin

text \<open>
  \<^verbatim>\<open>ftpcmdio.c\<close> and the control half of \<^verbatim>\<open>readwrite.c\<close>: replies to the client and commands from it. The bytes that
  reach the client are \<open>Sent\<close> events, whether they go through TLS or not; \<open>control_in\<close> is the byte stream of the
  client, after decryption when TLS is on.
\<close>

section \<open>Replies\<close>

datatype EVSFRWTarget = kVSFRWControl | kVSFRWData

definition ftp_write_str :: "env \<Rightarrow> EVSFRWTarget \<Rightarrow> string \<Rightarrow> int act" where
  "ftp_write_str e target p_str =
     bnd (gets (if target = kVSFRWData then data_use_ssl else control_use_ssl)) (\<lambda>ssl.
     if \<not> ssl \<and> p_str = [] then lift (bug ''zero str_len in str_netfd_write'')
     else bnd (gets (\<lambda>s. e_sent e (trace s) p_str)) (\<lambda>r.
          seq (emit (if target = kVSFRWData then SentData p_str else Sent p_str)) (ret r)))"

text \<open>The text of a reply as it goes over the wire: IAC doubled, line feeds as NUL.\<close>

definition mangle_reply :: "string \<Rightarrow> string" where
  "mangle_reply p_str = str_replace_char (str_replace_text p_str [IAC] [IAC, IAC]) LF NUL"

definition vsf_sysutil_activate_noblock :: "env \<Rightarrow> int \<Rightarrow> unit act" where
  "vsf_sysutil_activate_noblock e fd = bnd (call e (OnFd ActivateNoblock fd)) (\<lambda>r. must (r = 0) ''fcntl'')"

definition vsf_sysutil_deactivate_noblock :: "env \<Rightarrow> int \<Rightarrow> unit act" where
  "vsf_sysutil_deactivate_noblock e fd = bnd (call e (OnFd DeactivateNoblock fd)) (\<lambda>r. must (r = 0) ''fcntl'')"

abbreviation VSFTP_COMMAND_FD :: int where "VSFTP_COMMAND_FD \<equiv> 0"

definition ftp_write_str_common :: "env \<Rightarrow> nat \<Rightarrow> char \<Rightarrow> string \<Rightarrow> bool \<Rightarrow> unit act" where
  "ftp_write_str_common e status sep p_str noblock =
     seq (onlyif (tb e ''log_ftp_protocol'')
            (vsf_log_line e kVSFLogEntryFTPOutput (vsf_sysutil_ulong_to_str status @ [sep] @ p_str)))
     (seq (onlyif noblock (vsf_sysutil_activate_noblock e VSFTP_COMMAND_FD))
     (bnd (ftp_write_str e kVSFRWControl (vsf_sysutil_ulong_to_str status @ [sep] @ mangle_reply p_str @ [CR, LF]))
        (\<lambda>retval. seq (must (\<not> (retval \<noteq> 0 \<and> \<not> noblock)) ''ftp_write'')
           (onlyif noblock (vsf_sysutil_deactivate_noblock e VSFTP_COMMAND_FD)))))"

definition ftp_write_text_common :: "env \<Rightarrow> nat \<Rightarrow> string \<Rightarrow> bool \<Rightarrow> char \<Rightarrow> unit act" where
  "ftp_write_text_common e status p_text noblock sep = ftp_write_str_common e status sep (c_str p_text) noblock"

definition vsf_cmdio_write :: "env \<Rightarrow> nat \<Rightarrow> string \<Rightarrow> unit act" where
  "vsf_cmdio_write e status p_text = ftp_write_text_common e status p_text False CHR '' ''"

definition vsf_cmdio_write_hyphen :: "env \<Rightarrow> nat \<Rightarrow> string \<Rightarrow> unit act" where
  "vsf_cmdio_write_hyphen e status p_text = ftp_write_text_common e status p_text False CHR ''-''"

definition vsf_cmdio_write_str :: "env \<Rightarrow> nat \<Rightarrow> string \<Rightarrow> unit act" where
  "vsf_cmdio_write_str e status p_str = ftp_write_str_common e status CHR '' '' p_str False"

definition vsf_cmdio_write_str_hyphen :: "env \<Rightarrow> nat \<Rightarrow> string \<Rightarrow> unit act" where
  "vsf_cmdio_write_str_hyphen e status p_str = ftp_write_str_common e status CHR ''-'' p_str False"

definition vsf_cmdio_write_raw :: "env \<Rightarrow> string \<Rightarrow> unit act" where
  "vsf_cmdio_write_raw e p_text =
     seq (onlyif (tb e ''log_ftp_protocol'') (vsf_log_line e kVSFLogEntryFTPOutput (c_str p_text)))
     (bnd (ftp_write_str e kVSFRWControl (c_str p_text)) (\<lambda>retval. must (retval = 0) ''ftp_write_str''))"

definition vsf_cmdio_write_exit :: "env \<Rightarrow> nat \<Rightarrow> string \<Rightarrow> 'a act" where
  "vsf_cmdio_write_exit e status p_text =
     seq (emit (Req (OnFd ShutdownRead 0)))
     (seq (ftp_write_text_common e status p_text True CHR '' '')
     (seq (emit (Req (OnFd Shutdown 0))) (sysutil_exit 0)))"

definition handle_alarm_timeout :: "env \<Rightarrow> unit act" where
  "handle_alarm_timeout e = vsf_cmdio_write_exit e FTP_IDLE_TIMEOUT ''Timeout.''"

section \<open>Commands\<close>

definition VSFTP_MAX_COMMAND_LINE :: nat where
  "VSFTP_MAX_COMMAND_LINE = 4096"

definition strip_trailing_cr :: "string \<Rightarrow> string" where
  "strip_trailing_cr p_str = rev (dropWhile (\<lambda>c. c = CR) (rev p_str))"

definition ftp_getline :: "env \<Rightarrow> (int \<times> string) act" where
  "ftp_getline e =
     bnd (gets (\<lambda>s. str_netfd_alloc (sock_peek (e_chunk e)) sock_read LF VSFTP_MAX_COMMAND_LINE (control_in s))) (\<lambda>(r, w).
     seq (modif (\<lambda>s. s\<lparr>control_in := w\<rparr>)) (lift r))"

definition control_getline :: "env \<Rightarrow> string act" where
  "control_getline e =
     bnd (ftp_getline e) (\<lambda>(r, p_str).
     if r < 0 then vsf_cmdio_write_exit e FTP_BADCMD ''Input line too long.''
     else ret (strip_trailing_cr (str_replace_char p_str NUL LF)))"

definition vsf_cmdio_set_alarm :: "env \<Rightarrow> unit act" where
  "vsf_cmdio_set_alarm e =
     onlyif (tu e ''idle_session_timeout'' > 0) (emit (Req (SetAlarm (tu e ''idle_session_timeout''))))"

text \<open>A line as command and argument; a single space is a command of its own.\<close>

definition split_command :: "string \<Rightarrow> string \<times> string" where
  "split_command line =
     (case (if line = '' '' then (line, []) else str_split_char line CHR '' '') of (c, a) \<Rightarrow> (str_upper c, a))"

definition logged_command :: "string \<Rightarrow> string \<Rightarrow> string" where
  "logged_command p_cmd_str p_arg_str =
     (if str_equal_text p_cmd_str ''PASS'' then ''PASS <password>''
      else p_cmd_str @ (if p_arg_str \<noteq> [] then '' '' @ p_arg_str else []))"

definition vsf_cmdio_get_cmd_and_arg :: "env \<Rightarrow> bool \<Rightarrow> (string \<times> string) act" where
  "vsf_cmdio_get_cmd_and_arg e set_alarm =
     seq (onlyif set_alarm (vsf_cmdio_set_alarm e))
     (bnd (control_getline e) (\<lambda>line.
      case split_command line of (p_cmd_str, p_arg_str) \<Rightarrow>
      seq (onlyif (tb e ''log_ftp_protocol'')
             (vsf_log_line e kVSFLogEntryFTPInput (logged_command p_cmd_str p_arg_str)))
          (ret (p_cmd_str, p_arg_str))))"

text \<open>The way the login and the command loop use it: into the buffers of the session.\<close>

definition get_session_cmd :: "env \<Rightarrow> unit act" where
  "get_session_cmd e =
     bnd (vsf_cmdio_get_cmd_and_arg e True) (\<lambda>(c, a). modif (\<lambda>s. s\<lparr>ftp_cmd_str := c, ftp_arg_str := a\<rparr>))"

section \<open>What the client sees\<close>

text \<open>The client's reading of a reply: a doubled IAC is one.\<close>

fun undouble :: "string \<Rightarrow> string" where
  "undouble (a # b # cs) = (if a = IAC \<and> b = IAC then IAC # undouble cs else a # undouble (b # cs))"
| "undouble cs = cs"

lemma replace_iac: "str_replace_text t [IAC] [IAC, IAC] = concat (map (\<lambda>c. if c = IAC then [IAC, IAC] else [c]) t)"
proof -
  have "replace_all [IAC] [IAC, IAC] t = concat (map (\<lambda>c. if c = IAC then [IAC, IAC] else [c]) t)"
    by (induction t) (auto simp: replace_all.simps [of _ _ "_ # _"])
  moreover have "c_str [IAC] = [IAC]" "c_str [IAC, IAC] = [IAC, IAC]" by (simp_all add: c_str_def)
  ultimately show ?thesis by (simp add: str_replace_text_def replace_text_loop_eq)
qed

lemma mangle_reply_eq:
  "mangle_reply t = concat (map (\<lambda>c. if c = IAC then [IAC, IAC] else [if c = LF then NUL else c]) t)"
  unfolding mangle_reply_def replace_iac str_replace_char_def by (induction t) auto

lemma mangle_reply_no_lf: "LF \<notin> set (mangle_reply t)"
  by (auto simp: mangle_reply_eq split: if_splits)

lemma undouble_Cons: "a \<noteq> IAC \<Longrightarrow> undouble (a # cs) = a # undouble cs"
  by (cases cs) auto

lemma undouble_mangle: "undouble (mangle_reply t) = str_replace_char t LF NUL"
  unfolding mangle_reply_eq str_replace_char_def by (induction t) (auto simp: undouble_Cons)

text \<open>
  C23: a reply is one line on the wire, whatever its text: the code, the separator, the text with no line feed in it, CR
  LF. A client that halves doubled IACs reads the text back, with NUL where it had line feeds.
\<close>

theorem reply_one_line:
  assumes "\<not> tb e ''log_ftp_protocol''"
    and "e_sent e (trace s) (vsf_sysutil_ulong_to_str status @ [sep] @ mangle_reply p_str @ [CR, LF]) = 0"
  shows "\<exists>body. ftp_write_str_common e status sep p_str False s =
           Ret () (s\<lparr>trace := Sent (vsf_sysutil_ulong_to_str status @ [sep] @ body @ [CR, LF]) # trace s\<rparr>) \<and>
         LF \<notin> set body \<and> undouble body = str_replace_char p_str LF NUL"
  using assms
  by (intro exI [of _ "mangle_reply p_str"])
     (simp add: mangle_reply_no_lf undouble_mangle ftp_write_str_common_def ftp_write_str_def act_simps)

lemma reply_one_line_witness:
  "\<exists>body. ftp_write_str_common (calm_env []) 257 CHR '' '' [CHR ''a'', LF, IAC] False (new_session True []) =
     Ret () ((new_session True [])\<lparr>trace := [Sent (vsf_sysutil_ulong_to_str 257 @ '' '' @ body @ [CR, LF])]\<rparr>) \<and>
   LF \<notin> set body \<and> undouble body = [CHR ''a'', NUL, IAC]"
  using reply_one_line [of "calm_env []" "new_session True []" 257 "CHR '' ''" "[CHR ''a'', LF, IAC]"]
  by (simp add: str_replace_char_def)

section \<open>What the server reads\<close>

text \<open>A command as a client puts it on the wire: line feeds in the argument as NUL.\<close>

definition client_line :: "string \<Rightarrow> string \<Rightarrow> string" where
  "client_line cmd arg = cmd @ '' '' @ str_replace_char arg LF NUL @ [CR, LF]"

lemma replace_back: "NUL \<notin> set arg \<Longrightarrow> str_replace_char (str_replace_char arg LF NUL) NUL LF = arg"
  by (auto simp: str_replace_char_def intro: map_idI)

lemma replace_absent: "c \<notin> set l \<Longrightarrow> str_replace_char l c d = l"
  by (auto simp: str_replace_char_def intro: map_idI)

lemma take_line: "take (Suc (length l)) (l @ c # r) = l @ [c]"
  by simp

lemma replace_Cons: "str_replace_char (a # b) c d = (if a = c then d else a) # str_replace_char b c d"
  by (simp add: str_replace_char_def)

lemma replace_append: "str_replace_char (a @ b) c d = str_replace_char a c d @ str_replace_char b c d"
  by (simp add: str_replace_char_def)

lemma strip_trailing: "arg = [] \<or> last arg \<noteq> CR \<Longrightarrow> l \<noteq> [] \<Longrightarrow> last l \<noteq> CR \<Longrightarrow> strip_trailing_cr (l @ arg @ [CR]) = l @ arg"
  by (cases arg rule: rev_cases; cases l rule: rev_cases) (auto simp: strip_trailing_cr_def)

text \<open>
  C22: commands arrive as they were meant, as long as they are not logged (\<open>log_ftp_protocol\<close> is off). When the next line of the client
  is a command word and an argument (not longer than \<open>VSFTP_MAX_COMMAND_LINE\<close>; the word is not empty and has no space, NUL or line feed;
  the argument has no NUL and does not end in a carriage return, which the code would strip; line feeds inside the argument are sent as
  NUL), the session gets the word in upper case and the argument as it was, and the rest of the input is left for the next command.
\<close>

theorem command_roundtrip:
  assumes "control_in s = client_line cmd arg @ rest" and "length (client_line cmd arg) \<le> VSFTP_MAX_COMMAND_LINE"
    and "cmd \<noteq> []" and "set cmd \<inter> {CHR '' '', NUL, LF} = {}" and "NUL \<notin> set arg" and "arg = [] \<or> last arg \<noteq> CR"
    and "\<not> tb e ''log_ftp_protocol''"
  shows "\<exists>s'. get_session_cmd e s = Ret () s' \<and> ftp_cmd_str s' = str_upper cmd \<and> ftp_arg_str s' = arg \<and> control_in s' = rest"
proof -
  let ?l = "cmd @ '' '' @ str_replace_char arg LF NUL @ [CR]"
  have w: "control_in s = ?l @ LF # rest" using assms(1) by (simp add: client_line_def)
  have no: "LF \<notin> set ?l" using assms(4) by (auto simp: str_replace_char_def)
  have len: "length ?l < VSFTP_MAX_COMMAND_LINE" using assms(2) by (simp add: client_line_def)
  have cut: "takeWhile (\<lambda>c. c \<noteq> LF) (?l @ LF # rest) = ?l" "dropWhile (\<lambda>c. c \<noteq> LF) (?l @ LF # rest) = LF # rest"
    using takeWhile_cut [OF no, of rest] no by (auto simp: dropWhile_append)
  have mem: "LF \<in> set (take VSFTP_MAX_COMMAND_LINE (control_in s))"
  proof -
    have "take (Suc (length ?l)) (control_in s) = ?l @ [LF]" unfolding w by (rule take_line)
    then have "LF \<in> set (take (Suc (length ?l)) (control_in s))" by simp
    moreover have "Suc (length ?l) \<le> VSFTP_MAX_COMMAND_LINE" using len by simp
    ultimately show ?thesis by (meson set_take_subset_set_take subsetD)
  qed
  obtain i where alloc: "str_netfd_alloc (sock_peek (e_chunk e)) sock_read LF VSFTP_MAX_COMMAND_LINE (control_in s) =
      (Inr (int i, ?l), rest)"
    using netfd_alloc_cases [of "e_chunk e" LF VSFTP_MAX_COMMAND_LINE "control_in s"] mem cut unfolding w by auto
  have decoded: "strip_trailing_cr (str_replace_char ?l NUL LF) = (cmd @ '' '') @ arg"
  proof -
    have "str_replace_char ?l NUL LF = (cmd @ '' '') @ arg @ [CR]"
      using assms(4,5) by (simp add: replace_append replace_Cons replace_back replace_absent)
    then show ?thesis using strip_trailing [OF assms(6), of "cmd @ '' ''"] by simp
  qed
  have split: "split_command ((cmd @ '' '') @ arg) = (str_upper cmd, arg)"
    using assms(3,4) str_split_char_hit [of "CHR '' ''" cmd arg] by (cases cmd) (auto simp: split_command_def)
  have pre: "control_in (final (onlyif True (vsf_cmdio_set_alarm e) s)) = control_in s \<and>
      (\<exists>s1. onlyif True (vsf_cmdio_set_alarm e) s = Ret () s1)"
    by (simp add: vsf_cmdio_set_alarm_def act_simps)
  then obtain s1 where s1: "onlyif True (vsf_cmdio_set_alarm e) s = Ret () s1" "control_in s1 = control_in s" by auto
  have get: "control_getline e s1 = Ret ((cmd @ '' '') @ arg) (s1\<lparr>control_in := rest\<rparr>)"
    unfolding decoded [symmetric] control_getline_def ftp_getline_def by (simp add: act_simps s1(2) alloc)
  show ?thesis
    unfolding get_session_cmd_def vsf_cmdio_get_cmd_and_arg_def
    using s1 get split assms(7) by (simp add: bnd_def seq_def ret_def modif_def onlyif_def)
qed

lemma command_roundtrip_witness:
  "\<exists>s'. get_session_cmd (calm_env []) (new_session True (client_line ''Retr'' [CHR ''a'', LF, CHR ''b''] @ ''QUIT'')) = Ret () s' \<and>
     ftp_cmd_str s' = ''RETR'' \<and> ftp_arg_str s' = [CHR ''a'', LF, CHR ''b''] \<and> control_in s' = ''QUIT''"
proof -
  have "str_upper ''Retr'' = ''RETR''" by code_simp
  then show ?thesis using command_roundtrip [of "new_session True (client_line ''Retr'' [CHR ''a'', LF, CHR ''b''] @ ''QUIT'')" "''Retr''"
      "[CHR ''a'', LF, CHR ''b'']" "''QUIT''" "calm_env []"]
    by (simp add: client_line_def str_replace_char_def VSFTP_MAX_COMMAND_LINE_def)
qed

end
