(* ===== verification/Banner.thy ===== *)
theory Banner
  imports Ftpcmdio
begin

text \<open>
  \<^verbatim>\<open>banner.c\<close>, \<^verbatim>\<open>features.c\<close>, \<^verbatim>\<open>opts.c\<close>, and the commands of \<^verbatim>\<open>ssl.c\<close> that only answer and set flags (\<^verbatim>\<open>PBSZ\<close>,
  \<^verbatim>\<open>PROT\<close>, \<^verbatim>\<open>AUTH\<close>; the handshake itself is a request to OpenSSL). \<^verbatim>\<open>sysstr.c\<close>: file names go to the kernel as C strings.
\<close>

section \<open>System calls on names\<close>

definition str_getcwd :: "env \<Rightarrow> string act" where
  "str_getcwd e = bnd (call_text e (Look Getcwd)) (\<lambda>r. ret (case r of None \<Rightarrow> [] | Some d \<Rightarrow> c_str d))"

definition str_chdir :: "env \<Rightarrow> string \<Rightarrow> int act" where
  "str_chdir e p_str = call e (Look (Chdir (c_str p_str)))"

definition str_mkdir :: "env \<Rightarrow> string \<Rightarrow> nat \<Rightarrow> int act" where
  "str_mkdir e p_str md = call e (Change (Mkdir (c_str p_str) md))"

definition str_rmdir :: "env \<Rightarrow> string \<Rightarrow> int act" where
  "str_rmdir e p_str = call e (Change (Rmdir (c_str p_str)))"

definition str_unlink :: "env \<Rightarrow> string \<Rightarrow> int act" where
  "str_unlink e p_str = call e (Change (Unlink (c_str p_str)))"

definition str_rename :: "env \<Rightarrow> string \<Rightarrow> string \<Rightarrow> int act" where
  "str_rename e p_from_str p_to_str = call e (Change (Rename (c_str p_from_str) (c_str p_to_str)))"

definition str_chmod :: "env \<Rightarrow> string \<Rightarrow> nat \<Rightarrow> int act" where
  "str_chmod e p_str md = call e (Change (Chmod (c_str p_str) (unat (vsf_sysutil_chmod_mask (of_nat md)))))"

definition str_open :: "env \<Rightarrow> string \<Rightarrow> int act" where
  "str_open e p_str = call e (Look (OpenRead (c_str p_str)))"

definition str_create_exclusive :: "env \<Rightarrow> string \<Rightarrow> int act" where
  "str_create_exclusive e p_str = call e (Change (CreateExclusive (c_str p_str) (tu e ''file_open_mode'')))"

definition str_create :: "env \<Rightarrow> string \<Rightarrow> int act" where
  "str_create e p_str = call e (Change (CreateOrOpen (c_str p_str) (tu e ''file_open_mode'')))"

definition str_stat :: "env \<Rightarrow> string \<Rightarrow> file_info option act" where
  "str_stat e p_str = call_stat e (Look (StatPath (c_str p_str)))"

definition str_getpwnam :: "env \<Rightarrow> string \<Rightarrow> string option act" where
  "str_getpwnam e p_user_str = call_text e (Look (Getpwnam (c_str p_user_str)))"

definition str_opendir :: "env \<Rightarrow> string \<Rightarrow> string list option act" where
  "str_opendir e p_str =
     bnd (gets (\<lambda>s. e_names e (trace s) (Look (Opendir (c_str p_str))))) (\<lambda>v.
     seq (emit (Req (Look (Opendir (c_str p_str))))) (ret v))"

text \<open>\<open>str_fileread\<close> on the files of the moment; the name is recorded as an \<open>open\<close> for reading.\<close>

definition fileread :: "env \<Rightarrow> string \<Rightarrow> nat \<Rightarrow> (int \<times> string) act" where
  "fileread e p_filename maxsize =
     bnd (gets (\<lambda>s. str_fileread (e_fs e (trace s)) (c_str p_filename) maxsize)) (\<lambda>r.
     seq (emit (Req (Look (OpenRead (c_str p_filename))))) (lift r))"

section \<open>Messages\<close>

text \<open>\<open>str_lines_from\<close> is the sequence of lines that \<open>str_getline\<close> delivers from a position.\<close>

primrec banner_write_lines :: "env \<Rightarrow> nat \<Rightarrow> string list \<Rightarrow> unit act" where
  "banner_write_lines e ftpcode [] = ret ()"
| "banner_write_lines e ftpcode (l # ls) =
     seq (vsf_cmdio_write_str_hyphen e ftpcode l) (banner_write_lines e ftpcode ls)"

definition vsf_banner_write :: "env \<Rightarrow> string \<Rightarrow> nat \<Rightarrow> unit act" where
  "vsf_banner_write e p_str ftpcode = banner_write_lines e ftpcode (str_lines_from p_str 0)"

definition VSFTP_MAX_VISIT_REMEMBER :: nat where
  "VSFTP_MAX_VISIT_REMEMBER = 100"

definition VSFTP_MAX_MSGFILE_SIZE :: nat where
  "VSFTP_MAX_MSGFILE_SIZE = 4000"

definition visited_list :: "vsf_session \<Rightarrow> mystr_list" where
  "visited_list s = (case p_visited_dir_list s of None \<Rightarrow> INIT_STRLIST | Some l \<Rightarrow> l)"

definition vsf_banner_dir_changed :: "env \<Rightarrow> nat \<Rightarrow> unit act" where
  "vsf_banner_dir_changed e ftpcode =
     onlyif (tb e ''dirmessage_enable'')
       (bnd (gets visited_list) (\<lambda>l.
        seq (modif (\<lambda>s. s\<lparr>p_visited_dir_list := Some l\<rparr>))
        (bnd (str_getcwd e) (\<lambda>dir_str.
         onlyif (\<not> str_list_contains_str l dir_str)
           (seq (onlyif (str_list_get_length l < VSFTP_MAX_VISIT_REMEMBER)
                   (bnd (lift (str_list_add (e_avail e) l dir_str None)) (\<lambda>l'.
                    modif (\<lambda>s. s\<lparr>p_visited_dir_list := Some l'\<rparr>))))
           (bnd (case ts e ''message_file'' of
                   None \<Rightarrow> ret (-1, [])
                 | Some f \<Rightarrow> fileread e f VSFTP_MAX_MSGFILE_SIZE) (\<lambda>(retval, msg_file_str).
            vsf_banner_write e msg_file_str ftpcode)))))))"

section \<open>Features and options\<close>

definition crlf :: "string \<Rightarrow> string" where
  "crlf t = t @ [CR, LF]"

definition handle_feat :: "env \<Rightarrow> unit act" where
  "handle_feat e =
     seq (vsf_cmdio_write_hyphen e FTP_FEAT ''Features:'')
     (seq (onlyif (tb e ''ssl_enable'')
        (seq (onlyif (tb e ''sslv2'' \<or> tb e ''sslv3'') (vsf_cmdio_write_raw e (crlf '' AUTH SSL'')))
             (onlyif (tb e ''tlsv1'') (vsf_cmdio_write_raw e (crlf '' AUTH TLS'')))))
     (seq (onlyif (tb e ''utf8_filesystem'') (vsf_cmdio_write_raw e (crlf '' UTF8'')))
     (seq (onlyif (tb e ''port_enable'') (vsf_cmdio_write_raw e (crlf '' EPRT'')))
     (seq (onlyif (tb e ''pasv_enable'') (vsf_cmdio_write_raw e (crlf '' EPSV'')))
     (seq (vsf_cmdio_write_raw e (crlf '' MDTM''))
     (seq (onlyif (tb e ''pasv_enable'') (vsf_cmdio_write_raw e (crlf '' PASV'')))
     (seq (onlyif (tb e ''ssl_enable'')
        (seq (vsf_cmdio_write_raw e (crlf '' PBSZ'')) (vsf_cmdio_write_raw e (crlf '' PROT''))))
     (seq (vsf_cmdio_write_raw e (crlf '' REST STREAM''))
     (seq (vsf_cmdio_write_raw e (crlf '' SIZE''))
     (seq (vsf_cmdio_write_raw e (crlf '' TVFS''))
     (seq (vsf_cmdio_write_raw e (crlf '' UTF8''))
     (vsf_cmdio_write e FTP_FEAT ''End''))))))))))))"

text \<open>Commands that work on \<open>p_sess->ftp_arg_str\<close>: \<open>upper_arg\<close> is \<open>str_upper\<close> on it, with the new value.\<close>

definition upper_arg :: "string act" where
  "upper_arg = seq (modif (\<lambda>s. s\<lparr>ftp_arg_str := str_upper (ftp_arg_str s)\<rparr>)) (gets ftp_arg_str)"

definition handle_opts :: "env \<Rightarrow> unit act" where
  "handle_opts e =
     bnd upper_arg (\<lambda>arg.
     if str_equal_text arg ''UTF8 ON'' then vsf_cmdio_write e FTP_OPTSOK ''Always in UTF8 mode.''
     else vsf_cmdio_write e FTP_BADOPTS ''Option not understood.'')"

section \<open>Commands of the TLS layer\<close>

definition ssl_control_handshake :: "env \<Rightarrow> unit act" where
  "ssl_control_handshake e =
     bnd (gets (\<lambda>s. e_text e (trace s) (Net SslHandshake))) (\<lambda>ssl_error.
     bnd (call e (Net SslHandshake)) (\<lambda>r.
     if r = 0
     then seq (vsf_cmdio_write_str e FTP_TLS_FAIL
                 (''Negotiation failed: '' @ c_str (case ssl_error of None \<Rightarrow> [] | Some t \<Rightarrow> t))) (sysutil_exit 0)
     else modif (\<lambda>s. s\<lparr>control_use_ssl := True\<rparr>)))"

definition handle_auth :: "env \<Rightarrow> unit act" where
  "handle_auth e =
     bnd upper_arg (\<lambda>arg.
     if str_equal_text arg ''TLS'' \<or> str_equal_text arg ''TLS-C'' \<or> str_equal_text arg ''SSL'' \<or>
        str_equal_text arg ''TLS-P''
     then seq (vsf_cmdio_write e FTP_AUTHOK ''Proceed with negotiation.'')
          (seq (ssl_control_handshake e)
          (onlyif (str_equal_text arg ''SSL'' \<or> str_equal_text arg ''TLS-P'')
             (modif (\<lambda>s. s\<lparr>data_use_ssl := True\<rparr>))))
     else vsf_cmdio_write e FTP_BADAUTH ''Unknown AUTH type.'')"

definition handle_pbsz :: "env \<Rightarrow> unit act" where
  "handle_pbsz e =
     bnd (gets control_use_ssl) (\<lambda>ssl.
     if \<not> ssl then vsf_cmdio_write e FTP_BADPBSZ ''PBSZ needs a secure connection.''
     else vsf_cmdio_write e FTP_PBSZOK ''PBSZ set to 0.'')"

definition handle_prot :: "env \<Rightarrow> unit act" where
  "handle_prot e =
     bnd upper_arg (\<lambda>arg.
     bnd (gets control_use_ssl) (\<lambda>ssl.
     if \<not> ssl then vsf_cmdio_write e FTP_BADPROT ''PROT needs a secure connection.''
     else if str_equal_text arg ''C''
     then seq (modif (\<lambda>s. s\<lparr>data_use_ssl := False\<rparr>)) (vsf_cmdio_write e FTP_PROTOK ''PROT now Clear.'')
     else if str_equal_text arg ''P''
     then seq (modif (\<lambda>s. s\<lparr>data_use_ssl := True\<rparr>)) (vsf_cmdio_write e FTP_PROTOK ''PROT now Private.'')
     else if str_equal_text arg ''S'' \<or> str_equal_text arg ''E''
     then vsf_cmdio_write e FTP_NOHANDLEPROT ''PROT not supported.''
     else vsf_cmdio_write e FTP_NOSUCHPROT ''PROT not recognized.''))"

end
