(* ===== verification/Privops.thy ===== *)
theory Privops
  imports Banner
begin

text \<open>
  \<^verbatim>\<open>privops.c\<close> (the privileged operations), \<^verbatim>\<open>postprivparent.c\<close> (the privileged parent that serves them to the
  session process) and the client sides in \<^verbatim>\<open>oneprocess.c\<close> and \<^verbatim>\<open>twoprocess.c\<close>. A message exchange over the socket
  pair (\<^verbatim>\<open>privsock.c\<close>) is a call of the parent's request handler; a descriptor keeps its number when it is passed. In
  the parent the fields of the session have the values they had at the fork, except its own \<open>parent_listen_fd\<close>; the
  port that \<open>vsf_privop_get_ftp_port_sock\<close> leaves in the parent's copy of the client's address is set anew for each
  connection and not kept here.
\<close>

section \<open>The passive socket\<close>

datatype proc = Own | Parent

definition listen_fd :: "proc \<Rightarrow> vsf_session \<Rightarrow> int" where
  "listen_fd p s = (case p of Own \<Rightarrow> pasv_listen_fd s | Parent \<Rightarrow> parent_listen_fd s)"

definition set_listen_fd :: "proc \<Rightarrow> int \<Rightarrow> unit act" where
  "set_listen_fd p fd =
     modif (\<lambda>s. case p of Own \<Rightarrow> s\<lparr>pasv_listen_fd := fd\<rparr> | Parent \<Rightarrow> s\<lparr>parent_listen_fd := fd\<rparr>)"

definition vsf_sysutil_activate_reuseaddr :: "env \<Rightarrow> int \<Rightarrow> unit act" where
  "vsf_sysutil_activate_reuseaddr e fd =
     bnd (call e (OnFd (Sockopt ''SO_REUSEADDR'') fd)) (\<lambda>r. must (r = 0) ''setsockopt: reuseaddr'')"

definition vsf_sysutil_close :: "env \<Rightarrow> int \<Rightarrow> unit act" where
  "vsf_sysutil_close e fd = bnd (call e (OnFd Close fd)) (\<lambda>r. must (r = 0) ''close'')"

definition vsf_privop_pasv_cleanup :: "env \<Rightarrow> proc \<Rightarrow> unit act" where
  "vsf_privop_pasv_cleanup e p =
     bnd (gets (listen_fd p)) (\<lambda>fd.
     onlyif (fd \<noteq> -1) (seq (vsf_sysutil_close e fd) (set_listen_fd p (-1))))"

definition vsf_privop_pasv_active :: "proc \<Rightarrow> bool act" where
  "vsf_privop_pasv_active p = gets (\<lambda>s. listen_fd p s \<noteq> -1)"

definition vsf_sysutil_get_ipsock :: "env \<Rightarrow> sockaddr \<Rightarrow> int act" where
  "vsf_sysutil_get_ipsock e p_addr =
     (if family p_addr = AF_INET \<or> family p_addr = AF_INET6
      then bnd (call e (Net (Socket (family p_addr)))) (\<lambda>fd. seq (must (0 \<le> fd) ''socket'') (ret fd))
      else lift (bug ''bad family''))"

text \<open>\<open>errno\<close> values of Linux.\<close>

abbreviation EADDRINUSE :: int where "EADDRINUSE \<equiv> 98"
abbreviation EACCES :: int where "EACCES \<equiv> 13"

definition vsf_sysutil_bind :: "env \<Rightarrow> int \<Rightarrow> sockaddr \<Rightarrow> int act" where
  "vsf_sysutil_bind e fd p_sockptr =
     (if family p_sockptr = AF_INET \<or> family p_sockptr = AF_INET6 then call e (Net (Bind fd p_sockptr))
      else lift (die ''can only support ipv4 and ipv6 currently''))"

definition vsf_sysutil_listen :: "env \<Rightarrow> int \<Rightarrow> int act" where
  "vsf_sysutil_listen e fd =
     bnd (call e (Net (Listen fd))) (\<lambda>retval.
     if vsf_sysutil_retval_is_error retval
     then bnd (call e Errno) (\<lambda>err. seq (must (err = EADDRINUSE) ''listen'') (ret retval))
     else ret retval)"

text \<open>The range of ports from the configuration; the variables are \<open>unsigned short\<close>.\<close>

definition pasv_min_max :: "env \<Rightarrow> nat \<times> nat" where
  "pasv_min_max e =
     (let min_port = (if tu e ''pasv_min_port'' > 1024 \<and> tu e ''pasv_min_port'' \<le> 65535
                      then tu e ''pasv_min_port'' else 1024);
          max_port = (if tu e ''pasv_max_port'' \<ge> min_port \<and> tu e ''pasv_max_port'' < 65535
                      then tu e ''pasv_max_port'' else 65535)
      in (min_port, max_port))"

text \<open>
  A random 16-bit number scaled into the range. The source computes in \<open>double\<close>: \<open>the_port / 65536\<close> is exact, and
  the product has at most 33 significant bits, so that truncation is the integer division below.
\<close>

definition scale_port :: "nat \<Rightarrow> nat \<Rightarrow> nat \<Rightarrow> nat" where
  "scale_port min_port max_port r = min_port + (r * (max_port - min_port + 1)) div 65536"

definition vsf_sysutil_get_random_byte :: "env \<Rightarrow> nat act" where
  "vsf_sysutil_get_random_byte e = bnd (call e GetRandomByte) (\<lambda>r. ret (nat (r mod 256)))"

primrec pasv_bind_loop :: "env \<Rightarrow> int \<Rightarrow> nat \<Rightarrow> nat act" where
  "pasv_bind_loop e fd 0 = lift (die ''vsf_sysutil_bind'')"
| "pasv_bind_loop e fd (Suc bind_retries) =
     bnd (vsf_sysutil_get_random_byte e) (\<lambda>hi.
     bnd (vsf_sysutil_get_random_byte e) (\<lambda>lo.
     case pasv_min_max e of (min_port, max_port) \<Rightarrow>
     let the_port = scale_port min_port max_port (hi * 256 + lo) in
     bnd (gets p_local_addr) (\<lambda>local.
     bnd (lift (andthen (vsf_sysutil_sockaddr_clone local) (\<lambda>a. vsf_sysutil_sockaddr_set_port a the_port))) (\<lambda>a.
     bnd (vsf_sysutil_bind e fd a) (\<lambda>retval.
     bnd (if vsf_sysutil_retval_is_error retval then ret retval else vsf_sysutil_listen e fd) (\<lambda>retval.
     if \<not> vsf_sysutil_retval_is_error retval then ret the_port
     else bnd (call e Errno) (\<lambda>err.
          if err = EADDRINUSE \<or> err = EACCES then pasv_bind_loop e fd bind_retries
          else lift (die ''vsf_sysutil_bind / listen''))))))))"

text \<open>\<open>bind_retries\<close> starts at 10 and is decremented before each attempt: nine attempts.\<close>

definition vsf_privop_pasv_listen :: "env \<Rightarrow> proc \<Rightarrow> nat act" where
  "vsf_privop_pasv_listen e p =
     bnd (gets p_local_addr) (\<lambda>local.
     bnd (call e (Net (Socket (if vsf_sysutil_sockaddr_is_ipv6 local then AF_INET6 else AF_INET)))) (\<lambda>fd.
     seq (must (0 \<le> fd) ''socket'')
     (seq (set_listen_fd p fd)
     (seq (vsf_sysutil_activate_reuseaddr e fd) (pasv_bind_loop e fd 9)))))"

definition vsf_privop_accept_pasv :: "env \<Rightarrow> proc \<Rightarrow> int act" where
  "vsf_privop_accept_pasv e p =
     bnd (gets (listen_fd p)) (\<lambda>fd.
     bnd (call e (Net (Accept fd))) (\<lambda>remote_fd.
     if vsf_sysutil_retval_is_error remote_fd then ret (-1)
     else bnd (gets (\<lambda>s. e_peer e (trace s))) (\<lambda>p_accept_addr.
          if family p_accept_addr \<noteq> AF_INET \<and> family p_accept_addr \<noteq> AF_INET6
          then lift (die ''can only support ipv4 and ipv6 currently'')
          else bnd (gets p_remote_addr) (\<lambda>remote.
               if \<not> tb e ''pasv_promiscuous'' \<and> \<not> vsf_sysutil_sockaddr_addr_equal remote p_accept_addr
               then seq (vsf_sysutil_close e remote_fd) (ret (-2))
               else ret remote_fd))))"

section \<open>Active connections\<close>

primrec port_bind_loop :: "env \<Rightarrow> int \<Rightarrow> nat \<Rightarrow> nat \<Rightarrow> unit act" where
  "port_bind_loop e fd the_port 0 = ret ()"
| "port_bind_loop e fd the_port (Suc tries) =
     bnd (gets p_local_addr) (\<lambda>local.
     bnd (lift (andthen (vsf_sysutil_sockaddr_clone local) (\<lambda>a. vsf_sysutil_sockaddr_set_port a the_port))) (\<lambda>a.
     bnd (vsf_sysutil_bind e fd a) (\<lambda>retval.
     if retval = 0 then ret ()
     else bnd (call e Errno) (\<lambda>err.
          if err \<noteq> EADDRINUSE \<or> tries = 0 then lift (die ''vsf_sysutil_bind'')
          else bnd (vsf_sysutil_get_random_byte e) (\<lambda>r. seq (emit (Req (Sleep 1))) (port_bind_loop e fd the_port tries))))))"

definition vsf_privop_get_ftp_port_sock :: "env \<Rightarrow> nat \<Rightarrow> bool \<Rightarrow> int act" where
  "vsf_privop_get_ftp_port_sock e remote_port use_port_sockaddr =
     bnd (gets p_local_addr) (\<lambda>local.
     bnd (vsf_sysutil_get_ipsock e local) (\<lambda>fd.
     if vsf_sysutil_is_port_reserved remote_port then lift (die ''Illegal port request'')
     else seq (vsf_sysutil_activate_reuseaddr e fd)
     (seq (port_bind_loop e fd (if tb e ''connect_from_port_20'' then tu e ''ftp_data_port'' mod 65536 else 0) 2)
     (bnd (if use_port_sockaddr
           then bnd (gets p_port_sockaddr) (\<lambda>a. case a of None \<Rightarrow> stop Undef | Some a \<Rightarrow> ret a)
           else bnd (gets p_remote_addr) (\<lambda>r. lift (vsf_sysutil_sockaddr_set_port r remote_port))) (\<lambda>p_connect_to.
      bnd (call e (Net (Connect fd p_connect_to))) (\<lambda>retval.
      if vsf_sysutil_retval_is_error retval then seq (vsf_sysutil_close e fd) (ret (-1)) else ret fd))))))"

section \<open>Giving away uploads\<close>

definition vsf_sysutil_fstat :: "env \<Rightarrow> int \<Rightarrow> file_info act" where
  "vsf_sysutil_fstat e fd =
     bnd (call_stat e (OnFd Fstat fd)) (\<lambda>r. case r of None \<Rightarrow> lift (die ''fstat'') | Some i \<Rightarrow> ret i)"

definition vsf_privop_do_file_chown :: "env \<Rightarrow> int \<Rightarrow> unit act" where
  "vsf_privop_do_file_chown e fd =
     bnd (vsf_sysutil_fstat e fd) (\<lambda>st.
     bnd (gets (\<lambda>s. (anon_upload_chown_uid s, anon_ftp_uid s, guest_user_uid s))) (\<lambda>(chown_uid, ftp_uid, guest_uid).
     if st_uid st = chown_uid then ret ()
     else if chown_uid = -1 \<or> \<not> vsf_sysutil_statbuf_is_regfile (st_mode st) \<or>
             (st_uid st \<noteq> ftp_uid \<and> st_uid st \<noteq> guest_uid)
     then lift (die ''invalid fd in cmd_process_chown'')
     else bnd (call e (OnFd (Fchown chown_uid) fd)) (\<lambda>r. must (r = 0) ''fchown'')))"

section \<open>The privileged parent\<close>

text \<open>The requests a session process can send, with their arguments, and the answers.\<close>

datatype priv_cmd =
    PRIV_SOCK_LOGIN | PRIV_SOCK_CHOWN int | PRIV_SOCK_GET_DATA_SOCK int | PRIV_SOCK_PASV_CLEANUP
  | PRIV_SOCK_PASV_ACTIVE | PRIV_SOCK_PASV_LISTEN | PRIV_SOCK_PASV_ACCEPT | PRIV_SOCK_OTHER

datatype priv_reply = RESULT_OK | RESULT_FD int | RESULT_BAD | RESULT_INT int

definition cmd_process_chown :: "env \<Rightarrow> int \<Rightarrow> priv_reply act" where
  "cmd_process_chown e the_fd =
     seq (vsf_privop_do_file_chown e the_fd) (seq (vsf_sysutil_close e the_fd) (ret RESULT_OK))"

definition cmd_process_get_data_sock :: "env \<Rightarrow> int \<Rightarrow> priv_reply act" where
  "cmd_process_get_data_sock e the_int =
     bnd (vsf_privop_get_ftp_port_sock e (nat (the_int mod 65536)) False) (\<lambda>sock_fd.
     if sock_fd = -1 then ret RESULT_BAD
     else seq (vsf_sysutil_close e sock_fd) (ret (RESULT_FD sock_fd)))"

definition cmd_process_pasv_cleanup :: "env \<Rightarrow> priv_reply act" where
  "cmd_process_pasv_cleanup e = seq (vsf_privop_pasv_cleanup e Parent) (ret RESULT_OK)"

definition cmd_process_pasv_active :: "env \<Rightarrow> priv_reply act" where
  "cmd_process_pasv_active e = bnd (vsf_privop_pasv_active Parent) (\<lambda>b. ret (RESULT_INT (if b then 1 else 0)))"

definition cmd_process_pasv_listen :: "env \<Rightarrow> priv_reply act" where
  "cmd_process_pasv_listen e = bnd (vsf_privop_pasv_listen e Parent) (\<lambda>the_port. ret (RESULT_INT (int the_port)))"

definition cmd_process_pasv_accept :: "env \<Rightarrow> priv_reply act" where
  "cmd_process_pasv_accept e =
     bnd (vsf_privop_accept_pasv e Parent) (\<lambda>fd.
     if fd < 0 then ret (RESULT_INT fd) else seq (vsf_sysutil_close e fd) (ret (RESULT_FD fd)))"

definition process_post_login_req :: "env \<Rightarrow> priv_cmd \<Rightarrow> priv_reply act" where
  "process_post_login_req e cmd =
     (case cmd of
        PRIV_SOCK_CHOWN fd \<Rightarrow>
          if tb e ''chown_uploads'' then cmd_process_chown e fd
          else lift (die ''bad request in process_post_login_req'')
      | PRIV_SOCK_GET_DATA_SOCK the_port \<Rightarrow> cmd_process_get_data_sock e the_port
      | PRIV_SOCK_PASV_CLEANUP \<Rightarrow> cmd_process_pasv_cleanup e
      | PRIV_SOCK_PASV_ACTIVE \<Rightarrow> cmd_process_pasv_active e
      | PRIV_SOCK_PASV_LISTEN \<Rightarrow> cmd_process_pasv_listen e
      | PRIV_SOCK_PASV_ACCEPT \<Rightarrow> cmd_process_pasv_accept e
      | PRIV_SOCK_LOGIN \<Rightarrow> lift (die ''bad request in process_post_login_req'')
      | PRIV_SOCK_OTHER \<Rightarrow> lift (die ''bad request in process_post_login_req''))"

section \<open>The session's side\<close>

definition vsf_two_process_get_priv_data_sock :: "env \<Rightarrow> int act" where
  "vsf_two_process_get_priv_data_sock e =
     bnd (gets p_port_sockaddr) (\<lambda>a.
     bnd (case a of None \<Rightarrow> stop Undef | Some a \<Rightarrow> lift (vsf_sysutil_sockaddr_get_port a)) (\<lambda>the_port.
     bnd (process_post_login_req e (PRIV_SOCK_GET_DATA_SOCK (int the_port))) (\<lambda>r.
     case r of RESULT_FD fd \<Rightarrow> ret fd | RESULT_BAD \<Rightarrow> ret (-1)
     | RESULT_OK \<Rightarrow> lift (die ''could not get privileged socket'')
     | RESULT_INT i \<Rightarrow> lift (die ''could not get privileged socket''))))"

definition vsf_one_process_get_priv_data_sock :: "env \<Rightarrow> int act" where
  "vsf_one_process_get_priv_data_sock e =
     bnd (gets p_port_sockaddr) (\<lambda>a.
     bnd (case a of None \<Rightarrow> stop Undef | Some a \<Rightarrow> lift (vsf_sysutil_sockaddr_get_port a)) (\<lambda>the_port.
     vsf_privop_get_ftp_port_sock e the_port True))"

definition vsf_two_process_pasv_cleanup :: "env \<Rightarrow> unit act" where
  "vsf_two_process_pasv_cleanup e =
     bnd (process_post_login_req e PRIV_SOCK_PASV_CLEANUP) (\<lambda>r. must (r = RESULT_OK) ''could not clean up socket'')"

definition vsf_two_process_pasv_active :: "env \<Rightarrow> bool act" where
  "vsf_two_process_pasv_active e =
     bnd (process_post_login_req e PRIV_SOCK_PASV_ACTIVE) (\<lambda>r. ret (case r of RESULT_INT i \<Rightarrow> i \<noteq> 0 | _ \<Rightarrow> False))"

definition vsf_two_process_listen :: "env \<Rightarrow> nat act" where
  "vsf_two_process_listen e =
     bnd (process_post_login_req e PRIV_SOCK_PASV_LISTEN) (\<lambda>r.
     ret (case r of RESULT_INT i \<Rightarrow> nat (i mod 65536) | _ \<Rightarrow> 0))"

definition vsf_two_process_get_pasv_fd :: "env \<Rightarrow> int act" where
  "vsf_two_process_get_pasv_fd e =
     bnd (process_post_login_req e PRIV_SOCK_PASV_ACCEPT) (\<lambda>r.
     case r of RESULT_FD fd \<Rightarrow> ret fd | RESULT_INT i \<Rightarrow> ret i
     | RESULT_OK \<Rightarrow> lift (die ''could not accept on listening socket'')
     | RESULT_BAD \<Rightarrow> lift (die ''could not accept on listening socket''))"

definition vsf_two_process_chown_upload :: "env \<Rightarrow> int \<Rightarrow> unit act" where
  "vsf_two_process_chown_upload e fd =
     bnd (process_post_login_req e (PRIV_SOCK_CHOWN fd)) (\<lambda>r.
     must (r = RESULT_OK) ''unexpected failure in vsf_two_process_chown_upload'')"

section \<open>Addresses and ports\<close>

lemma addr_equal_port: "vsf_sysutil_sockaddr_set_port a p = Inr a' \<Longrightarrow>
    vsf_sysutil_sockaddr_addr_equal a a' \<and> port a' = p"
  by (auto simp: vsf_sysutil_sockaddr_set_port_def vsf_sysutil_sockaddr_addr_equal_def Let_def halt_simps split: if_splits)

section \<open>The port of a passive connection\<close>







end
