(* ===== verification/Parent.thy ===== *)
theory Parent
  imports Privops
begin

text \<open>
  The privileged parent of a session (\<^verbatim>\<open>postprivparent.c\<close>): its loop, and what it can be made to do by a session process
  that sends any requests it likes.
\<close>

text \<open>The loop of \<open>vsf_priv_parent_postlogin\<close> on the requests that arrive; it ends only by an error.\<close>

primrec vsf_priv_parent_postlogin :: "env \<Rightarrow> priv_cmd list \<Rightarrow> unit act" where
  "vsf_priv_parent_postlogin e [] = ret ()"
| "vsf_priv_parent_postlogin e (c # cs) =
     bnd (process_post_login_req e c) (\<lambda>reply. vsf_priv_parent_postlogin e cs)"

section \<open>What the parent may do\<close>

text \<open>
  Sockets; connections to the client's address at an unreserved port; giving a file to the configured user, if this is
  configured. Nothing on file names, no reading or writing of files, no authentication.
\<close>

definition parent_net_ok :: "sockaddr \<Rightarrow> net_op \<Rightarrow> bool" where
  "parent_net_ok remote q =
     (case q of
        Socket f \<Rightarrow> True | Bind fd a \<Rightarrow> True | Listen fd \<Rightarrow> True | Accept fd \<Rightarrow> True
      | Connect fd a \<Rightarrow> vsf_sysutil_sockaddr_addr_equal remote a \<and> \<not> vsf_sysutil_is_port_reserved (port a)
      | _ \<Rightarrow> False)"

definition parent_fd_ok :: "env \<Rightarrow> int \<Rightarrow> fd_op \<Rightarrow> bool" where
  "parent_fd_ok e uid p =
     (case p of
        Fstat \<Rightarrow> True | Close \<Rightarrow> True | Sockopt x \<Rightarrow> True
      | Fchown u \<Rightarrow> tb e ''chown_uploads'' \<and> u = uid \<and> u \<noteq> -1
      | _ \<Rightarrow> False)"

definition parent_event_ok :: "env \<Rightarrow> sockaddr \<Rightarrow> int \<Rightarrow> event \<Rightarrow> bool" where
  "parent_event_ok e remote uid ev =
     (case ev of
        Req r \<Rightarrow>
          (case r of
             Net q \<Rightarrow> parent_net_ok remote q
           | OnFd p fd \<Rightarrow> parent_fd_ok e uid p
           | Sleep n \<Rightarrow> True | GetRandomByte \<Rightarrow> True | Errno \<Rightarrow> True
           | _ \<Rightarrow> False)
      | _ \<Rightarrow> False)"

definition parent_inv :: "env \<Rightarrow> sockaddr \<Rightarrow> int \<Rightarrow> vsf_session \<Rightarrow> bool" where
  "parent_inv e remote uid s \<longleftrightarrow>
     p_remote_addr s = remote \<and> anon_upload_chown_uid s = uid \<and> list_all (parent_event_ok e remote uid) (trace s)"

section \<open>Every request keeps to it\<close>

named_theorems pvc \<open>preservation in the parent\<close>

lemmas parent_ok_defs = parent_event_ok_def parent_net_ok_def parent_fd_ok_def

lemma parent_emit [pvc]: "parent_event_ok e r u ev \<Longrightarrow> keeps (parent_inv e r u) (emit ev)"
  unfolding emit_def by (rule keeps_modif) (simp add: parent_inv_def)

lemma parent_call [pvc]: "parent_event_ok e r u (Req q) \<Longrightarrow> keeps (parent_inv e r u) (call e q)"
  unfolding call_def by (intro vc pvc)

lemma parent_call_stat [pvc]: "parent_event_ok e r u (Req q) \<Longrightarrow> keeps (parent_inv e r u) (call_stat e q)"
  unfolding call_stat_def by (intro vc pvc)

lemma parent_close [pvc]: "keeps (parent_inv e r u) (vsf_sysutil_close e fd)"
  unfolding vsf_sysutil_close_def by (intro vc pvc) (simp add: parent_ok_defs)

lemma parent_set_listen_fd [pvc]: "keeps (parent_inv e r u) (set_listen_fd p fd)"
  unfolding set_listen_fd_def by (rule keeps_modif) (cases p; simp add: parent_inv_def)

lemma parent_random [pvc]: "keeps (parent_inv e r u) (vsf_sysutil_get_random_byte e)"
  unfolding vsf_sysutil_get_random_byte_def by (intro vc pvc) (simp add: parent_ok_defs)

lemma parent_bind [pvc]: "keeps (parent_inv e r u) (vsf_sysutil_bind e fd a)"
  unfolding vsf_sysutil_bind_def by (intro vc pvc) (simp add: parent_ok_defs)

lemma parent_listen [pvc]: "keeps (parent_inv e r u) (vsf_sysutil_listen e fd)"
  unfolding vsf_sysutil_listen_def by (intro vc pvc) (simp_all add: parent_ok_defs)

lemma parent_reuseaddr [pvc]: "keeps (parent_inv e r u) (vsf_sysutil_activate_reuseaddr e fd)"
  unfolding vsf_sysutil_activate_reuseaddr_def by (intro vc pvc) (simp add: parent_ok_defs)

lemma parent_pasv_bind_loop [pvc]: "keeps (parent_inv e r u) (pasv_bind_loop e fd tries)"
proof (induction tries)
  case 0
  show ?case unfolding pasv_bind_loop.simps by (intro vc)
next
  case (Suc tries)
  show ?case unfolding pasv_bind_loop.simps by (intro vc pvc Suc.IH) (simp add: parent_ok_defs)
qed

lemma parent_pasv_listen [pvc]: "keeps (parent_inv e r u) (vsf_privop_pasv_listen e p)"
  unfolding vsf_privop_pasv_listen_def by (intro vc pvc) (simp add: parent_ok_defs)

lemma parent_pasv_cleanup [pvc]: "keeps (parent_inv e r u) (vsf_privop_pasv_cleanup e p)"
  unfolding vsf_privop_pasv_cleanup_def by (intro vc pvc)

lemma parent_accept [pvc]: "keeps (parent_inv e r u) (vsf_privop_accept_pasv e p)"
  unfolding vsf_privop_accept_pasv_def by (intro vc pvc) (simp add: parent_ok_defs)

lemma parent_get_ipsock [pvc]: "keeps (parent_inv e r u) (vsf_sysutil_get_ipsock e a)"
  unfolding vsf_sysutil_get_ipsock_def by (intro vc pvc) (simp add: parent_ok_defs)

lemma parent_port_bind_loop [pvc]: "keeps (parent_inv e r u) (port_bind_loop e fd p tries)"
proof (induction tries)
  case 0
  show ?case unfolding port_bind_loop.simps by (intro vc)
next
  case (Suc tries)
  show ?case unfolding port_bind_loop.simps by (intro vc pvc Suc.IH) (simp_all add: parent_ok_defs)
qed

text \<open>A connection for the session goes to the address at the other end of the control connection.\<close>

lemma parent_port_sock [pvc]: "keeps (parent_inv e r u) (vsf_privop_get_ftp_port_sock e p False)"
proof -
  have own: "keeps (parent_inv e r u) (bnd (bnd (gets p_remote_addr) (\<lambda>x. lift (vsf_sysutil_sockaddr_set_port x p)))
      (\<lambda>a. bnd (call e (Net (Connect fd a))) (\<lambda>retval.
        if vsf_sysutil_retval_is_error retval then seq (vsf_sysutil_close e fd) (ret (-1)) else ret fd)))"
    if "\<not> vsf_sysutil_is_port_reserved p" for fd
    unfolding bnd_assoc
  proof (intro keeps_gets_bnd keeps_lift_bnd vc pvc)
    fix s a assume "parent_inv e r u s" "vsf_sysutil_sockaddr_set_port (p_remote_addr s) p = Inr a"
    then show "parent_event_ok e r u (Req (Net (Connect fd a)))"
      using addr_equal_port that by (auto simp: parent_ok_defs parent_inv_def)
  qed
  show ?thesis
    unfolding vsf_privop_get_ftp_port_sock_def if_False by (intro own vc pvc)
qed

lemma parent_chown [pvc]:
  assumes "tb e ''chown_uploads''"
  shows "keeps (parent_inv e r u) (vsf_privop_do_file_chown e fd)"
  unfolding vsf_privop_do_file_chown_def vsf_sysutil_fstat_def
  by (intro keeps_gets_bnd vc pvc) (auto simp: parent_ok_defs parent_inv_def assms)

lemma parent_request [pvc]: "keeps (parent_inv e r u) (process_post_login_req e c)"
  by (cases c)
     (auto simp: process_post_login_req_def cmd_process_chown_def cmd_process_get_data_sock_def
        cmd_process_pasv_cleanup_def cmd_process_pasv_active_def vsf_privop_pasv_active_def cmd_process_pasv_listen_def
        cmd_process_pasv_accept_def intro!: vc pvc)

lemma parent_loop: "keeps (parent_inv e r u) (vsf_priv_parent_postlogin e cs)"
  by (induction cs) (simp_all add: vc pvc)

text \<open>
  Least privilege. Whatever requests a session process sends, in any order and number, and whatever the system
  answers, the privileged parent only handles sockets, connects only to the client's own address at an unreserved port,
  and changes the owner of a file only if \<open>chown_uploads\<close> is set and only to the configured user. It never opens,
  creates, renames or removes a file by name, and reads and writes none.
\<close>

theorem parent_least_privilege:
  assumes "trace s = []"
  shows "list_all (parent_event_ok e (p_remote_addr s) (anon_upload_chown_uid s))
           (trace (final (vsf_priv_parent_postlogin e cs s)))"
  using keepsD [OF parent_loop, of e "p_remote_addr s" "anon_upload_chown_uid s" s cs] assms
  by (simp add: parent_inv_def)

lemma parent_least_privilege_witness:
  "list_all (parent_event_ok (calm_env []) vsf_sysutil_sockaddr_alloc_ipv4 (-1))
     (trace (final (vsf_priv_parent_postlogin (calm_env []) [PRIV_SOCK_PASV_LISTEN, PRIV_SOCK_GET_DATA_SOCK 22, PRIV_SOCK_CHOWN 3]
       (new_session True []))))"
proof -
  have "anon_upload_chown_uid (new_session True []) = -1" by (simp add: new_session_def)
  then show ?thesis using parent_least_privilege [of "new_session True []" "calm_env []"]
    by (simp del: vsf_priv_parent_postlogin.simps)
qed

end
