(* ===== verification/Ftpdataio.thy ===== *)
theory Ftpdataio
  imports Privops Ascii
begin

text \<open>
  \<^verbatim>\<open>ftpdataio.c\<close>: the data connection, file transfers and directory transfers. What successive reads of a descriptor
  deliver is a list (\<open>e_reads\<close>): \<open>None\<close> for an error, the end of the list (or an empty piece) for the end of the
  data. Bandwidth limiting (\<open>handle_io\<close>, floating point and sleeping) is not modelled.
\<close>

section \<open>The data connection\<close>

definition start_data_alarm :: "env \<Rightarrow> unit act" where
  "start_data_alarm e =
     (if tu e ''data_connection_timeout'' > 0 then emit (Req (SetAlarm (tu e ''data_connection_timeout'')))
      else onlyif (tu e ''idle_session_timeout'' > 0) (emit (Req (SetAlarm 0))))"

definition handle_sigalrm :: "env \<Rightarrow> unit act" where
  "handle_sigalrm e =
     bnd (gets data_progress) (\<lambda>progress.
     seq (onlyif (\<not> progress) (vsf_cmdio_write_exit e FTP_DATA_TIMEOUT ''Data timeout. Reconnect. Sorry.''))
     (seq (modif (\<lambda>s. s\<lparr>data_progress := False\<rparr>)) (start_data_alarm e)))"

definition ssl_data_close :: "env \<Rightarrow> int act" where
  "ssl_data_close e =
     bnd (call e (Net SslClose)) (\<lambda>r.
     seq (modif (\<lambda>s. s\<lparr>p_data_ssl := False\<rparr>))
     (ret (if r \<noteq> 1 \<and> tb e ''strict_ssl_write_shutdown'' then 0 else 1)))"

definition vsf_ftpdataio_dispose_transfer_fd :: "env \<Rightarrow> int act" where
  "vsf_ftpdataio_dispose_transfer_fd e =
     bnd (gets data_fd) (\<lambda>fd.
     if fd = -1 then lift (bug ''no data descriptor in vsf_ftpdataio_dispose_transfer_fd'')
     else seq (start_data_alarm e)
     (bnd (gets (\<lambda>s. (data_use_ssl s \<and> ssl_slave_active s, p_data_ssl s))) (\<lambda>(slave, ssl).
      bnd (if slave then bnd (call e (Net SslClose)) (\<lambda>r. ret (if r = 1 then 1 else 0))
           else if ssl then ssl_data_close e else ret 1) (\<lambda>dispose_ret.
      bnd (call e (OnFd CloseFailok fd)) (\<lambda>retval.
      seq (onlyif (vsf_sysutil_retval_is_error retval) 
        (seq (emit (Req (OnFd (Sockopt ''SO_LINGER'') fd))) (emit (Req (OnFd CloseFailok fd)))))
      (seq (onlyif (tu e ''data_connection_timeout'' > 0) (emit (Req (SetAlarm 0))))
      (seq (modif (\<lambda>s. s\<lparr>data_fd := -1\<rparr>)) (ret dispose_ret))))))))"

definition init_data_sock_params :: "env \<Rightarrow> int \<Rightarrow> unit act" where
  "init_data_sock_params e sock_fd =
     bnd (gets data_fd) (\<lambda>fd.
     if fd \<noteq> -1 then lift (bug ''data descriptor still present in init_data_sock_params'')
     else seq (modif (\<lambda>s. s\<lparr>data_fd := sock_fd, data_progress := False\<rparr>))
     (seq (bnd (call e (OnFd (Sockopt ''SO_KEEPALIVE'') sock_fd)) (\<lambda>r. must (r = 0) ''setsockopt: keepalive''))
     (seq (emit (Req (OnFd (Sockopt ''IP_TOS'') sock_fd)))
     (seq (bnd (call e (OnFd (Sockopt ''SO_LINGER'') sock_fd)) (\<lambda>r. must (r = 0) ''setsockopt: linger''))
     (start_data_alarm e)))))"

definition vsf_ftpdataio_get_pasv_fd :: "env \<Rightarrow> int act" where
  "vsf_ftpdataio_get_pasv_fd e =
     bnd (if tb e ''one_process_model'' then vsf_privop_accept_pasv e Own else vsf_two_process_get_pasv_fd e) (\<lambda>remote_fd.
     if remote_fd = -1
     then seq (vsf_cmdio_write e FTP_BADSENDCONN ''Failed to establish connection.'') (ret remote_fd)
     else if remote_fd = -2
     then seq (vsf_cmdio_write e FTP_BADSENDCONN ''Security: Bad IP connecting.'') (ret (-1))
     else seq (init_data_sock_params e remote_fd) (ret remote_fd))"

definition vsf_ftpdataio_get_port_fd :: "env \<Rightarrow> int act" where
  "vsf_ftpdataio_get_port_fd e =
     bnd (if tb e ''one_process_model'' \<or> tb e ''port_promiscuous'' then vsf_one_process_get_priv_data_sock e
          else vsf_two_process_get_priv_data_sock e) (\<lambda>remote_fd.
     if vsf_sysutil_retval_is_error remote_fd
     then seq (vsf_cmdio_write e FTP_BADSENDCONN ''Failed to establish connection.'') (ret (-1))
     else seq (init_data_sock_params e remote_fd) (ret remote_fd))"

definition ssl_accept :: "env \<Rightarrow> int act" where
  "ssl_accept e =
     bnd (gets p_data_ssl) (\<lambda>ssl.
     if ssl then lift (die ''p_data_ssl should be NULL.'')
     else bnd (call e (Net SslAccept)) (\<lambda>r.
          if r = 1 then seq (modif (\<lambda>s. s\<lparr>p_data_ssl := True\<rparr>)) (ret 1) else ret 0))"

definition vsf_ftpdataio_post_mark_connect :: "env \<Rightarrow> int act" where
  "vsf_ftpdataio_post_mark_connect e =
     bnd (gets (\<lambda>s. (data_use_ssl s, ssl_slave_active s))) (\<lambda>(ssl, slave).
     if \<not> ssl then ret 1
     else bnd (if \<not> slave then ssl_accept e
               else bnd (call e (Net SslAccept)) (\<lambda>r. ret (if r = 1 then 1 else 0))) (\<lambda>r.
          seq (onlyif (r \<noteq> 1)
                 (vsf_cmdio_write_str e FTP_DATATLSBAD
                    (''SSL connection failed'' @
                     (if tb e ''require_ssl_reuse''
                      then ''; session reuse required: see require_ssl_reuse option in vsftpd.conf man page'' else []))))
          (ret r)))"

section \<open>Files\<close>

record vsf_transfer_ret =
  tr_retval :: int
  transferred :: int

definition VSFTP_DATA_BUFSIZE :: nat where
  "VSFTP_DATA_BUFSIZE = 65536"

definition get_chunk_size :: "env \<Rightarrow> nat" where
  "get_chunk_size e =
     (if tu e ''trans_chunk_size'' < VSFTP_DATA_BUFSIZE \<and> tu e ''trans_chunk_size'' > 0
      then (if tu e ''trans_chunk_size'' < 4096 then 4096 else tu e ''trans_chunk_size'') else VSFTP_DATA_BUFSIZE)"

definition ftp_write_data :: "env \<Rightarrow> string \<Rightarrow> int act" where
  "ftp_write_data e p_data =
     bnd (gets (\<lambda>s. e_sent e (trace s) p_data)) (\<lambda>r. seq (emit (SentData p_data)) (ret r))"

primrec send_rwloop :: "env \<Rightarrow> bool \<Rightarrow> string option list \<Rightarrow> bool \<Rightarrow> int \<Rightarrow> vsf_transfer_ret act" where
  "send_rwloop e ascii [] prev_cr sofar = ret \<lparr>tr_retval = 0, transferred = sofar\<rparr>"
| "send_rwloop e ascii (r # rs) prev_cr sofar =
     (case r of
        None \<Rightarrow> ret \<lparr>tr_retval = -1, transferred = sofar\<rparr>
      | Some d \<Rightarrow>
          if d = [] then ret \<lparr>tr_retval = 0, transferred = sofar\<rparr>
          else case (if ascii then vsf_ascii_bin_to_ascii d prev_cr else (d, prev_cr)) of (out, cr) \<Rightarrow>
            bnd (ftp_write_data e out) (\<lambda>retval.
            let sofar' = (if vsf_sysutil_retval_is_error retval then sofar else sofar + retval) in
            if vsf_sysutil_retval_is_error retval \<or> retval \<noteq> int (length out)
            then ret \<lparr>tr_retval = -2, transferred = sofar'\<rparr>
            else send_rwloop e ascii rs cr sofar'))"

definition do_file_send_rwloop :: "env \<Rightarrow> int \<Rightarrow> bool \<Rightarrow> vsf_transfer_ret act" where
  "do_file_send_rwloop e file_fd ascii =
     bnd (gets (\<lambda>s. e_reads e (trace s) file_fd)) (\<lambda>rs. send_rwloop e ascii rs False 0)"

definition calc_num_send :: "env \<Rightarrow> int \<Rightarrow> int \<Rightarrow> int act" where
  "calc_num_send e file_fd init_offset =
     bnd (vsf_sysutil_fstat e file_fd) (\<lambda>st.
     bnd (lift (vsf_sysutil_statbuf_get_size (st_size st))) (\<lambda>bytes_to_send.
     seq (must (\<not> (init_offset < 0 \<or> bytes_to_send < 0)) ''calc_num_send: negative file offset or send count'')
     (ret (if init_offset > bytes_to_send then 0 else bytes_to_send - init_offset))))"

definition do_file_send_sendfile :: "env \<Rightarrow> int \<Rightarrow> int \<Rightarrow> int \<Rightarrow> int \<Rightarrow> vsf_transfer_ret act" where
  "do_file_send_sendfile e net_fd file_fd curr_file_offset bytes_to_send =
     bnd (call e (Net (Sendfile net_fd file_fd bytes_to_send))) (\<lambda>retval.
     bnd (gets (\<lambda>s. e_ret e (trace s) (OnFd LseekCur file_fd))) (\<lambda>new_offset.
     let bytes_sent = new_offset - curr_file_offset in
     ret \<lparr>tr_retval = (if vsf_sysutil_retval_is_error retval \<or> bytes_sent \<noteq> bytes_to_send then -2 else 0),
          transferred = bytes_sent\<rparr>))"

definition file_write_loop :: "env \<Rightarrow> int \<Rightarrow> string \<Rightarrow> int act" where
  "file_write_loop e fd d = (if d = [] then ret 0 else call e (FileWrite fd d))"

text \<open>One piece of an upload: converted in the receive buffer, whose first byte is spare, and written.\<close>

definition recv_piece :: "env \<Rightarrow> int \<Rightarrow> bool \<Rightarrow> string \<Rightarrow> bool \<Rightarrow> (bool \<times> bool) act" where
  "recv_piece e file_fd ascii d prev_cr =
     bnd (if ascii then bnd (lift (vsf_ascii_ascii_to_bin (NUL # d) (length d) prev_cr)) (\<lambda>r. ret (a2b_out r, last_was_cr r))
          else ret (d, prev_cr)) (\<lambda>(out, cr).
     bnd (file_write_loop e file_fd out) (\<lambda>retval.
     ret (vsf_sysutil_retval_is_error retval \<or> retval \<noteq> int (length out), cr)))"

text \<open>
  At the end of the data a held-back CR is written in one more turn of the loop; that turn leaves no CR pending
  (\<open>recv_eof_done\<close>), so that the next read ends the loop.
\<close>

primrec recv_loop :: "env \<Rightarrow> int \<Rightarrow> bool \<Rightarrow> string option list \<Rightarrow> bool \<Rightarrow> int \<Rightarrow> vsf_transfer_ret act" where
  "recv_loop e file_fd ascii [] prev_cr sofar =
     (if \<not> prev_cr then ret \<lparr>tr_retval = 0, transferred = sofar\<rparr>
      else bnd (recv_piece e file_fd ascii [] prev_cr) (\<lambda>(failed, cr).
           if failed then ret \<lparr>tr_retval = -1, transferred = sofar\<rparr>
           else if cr then stop Undef
           else ret \<lparr>tr_retval = 0, transferred = sofar\<rparr>))"
| "recv_loop e file_fd ascii (r # rs) prev_cr sofar =
     (case r of
        None \<Rightarrow> ret \<lparr>tr_retval = -2, transferred = sofar\<rparr>
      | Some d \<Rightarrow>
          if d = [] \<and> \<not> prev_cr then ret \<lparr>tr_retval = 0, transferred = sofar\<rparr>
          else bnd (recv_piece e file_fd ascii d prev_cr) (\<lambda>(failed, cr).
               if failed then ret \<lparr>tr_retval = -1, transferred = sofar + int (length d)\<rparr>
               else recv_loop e file_fd ascii rs cr (sofar + int (length d))))"

definition do_file_recv :: "env \<Rightarrow> int \<Rightarrow> bool \<Rightarrow> vsf_transfer_ret act" where
  "do_file_recv e file_fd ascii =
     bnd (gets (\<lambda>s. e_reads e (trace s) (data_fd s))) (\<lambda>rs. recv_loop e file_fd ascii rs False 0)"

definition vsf_sysutil_get_file_offset :: "env \<Rightarrow> int \<Rightarrow> int act" where
  "vsf_sysutil_get_file_offset e fd =
     bnd (call e (OnFd LseekCur fd)) (\<lambda>r. seq (must (0 \<le> r) ''lseek'') (ret r))"

definition vsf_ftpdataio_transfer_file :: "env \<Rightarrow> int \<Rightarrow> int \<Rightarrow> bool \<Rightarrow> bool \<Rightarrow> vsf_transfer_ret act" where
  "vsf_ftpdataio_transfer_file e remote_fd file_fd is_recv ascii =
     (if \<not> is_recv
      then bnd (gets data_use_ssl) (\<lambda>ssl.
           if ascii \<or> ssl then do_file_send_rwloop e file_fd ascii
           else bnd (vsf_sysutil_get_file_offset e file_fd) (\<lambda>curr_offset.
                bnd (calc_num_send e file_fd curr_offset) (\<lambda>num_send.
                do_file_send_sendfile e remote_fd file_fd curr_offset num_send)))
      else do_file_recv e file_fd ascii)"

section \<open>Directories\<close>

definition VSFTP_DIR_BUFSIZE :: nat where
  "VSFTP_DIR_BUFSIZE = 16384"

fun write_dir_loop :: "env \<Rightarrow> EVSFRWTarget \<Rightarrow> string \<Rightarrow> string list \<Rightarrow> bool act" where
  "write_dir_loop e target buf_str [] = ret False"
| "write_dir_loop e target buf_str (l # ls) =
     (let buf = buf_str @ l in
      if ls = [] \<or> length buf + length (hd ls) > VSFTP_DIR_BUFSIZE
      then bnd (ftp_write_str e target buf) (\<lambda>writeret.
           if writeret \<noteq> 0 then ret True else write_dir_loop e target [] ls)
      else write_dir_loop e target buf ls)"

definition write_dir_list :: "env \<Rightarrow> mystr_list \<Rightarrow> EVSFRWTarget \<Rightarrow> bool act" where
  "write_dir_list e p_dir_list target = write_dir_loop e target [] (map node_str (nodes_of p_dir_list))"

definition vsf_sysutil_closedir :: "env \<Rightarrow> string \<Rightarrow> unit act" where
  "vsf_sysutil_closedir e dir_name = bnd (call e (Look (Closedir (c_str dir_name)))) (\<lambda>r. must (r = 0) ''closedir'')"

text \<open>
  The recursion into subdirectories needs one more component in the path per level, and the kernel opens no path
  of \<open>PATH_MAX\<close> (4096) bytes or more: \<open>depth\<close> counts the levels left and starts at 4096.
\<close>

function transfer_dir_internal ::
    "nat \<Rightarrow> env \<Rightarrow> EVSFRWTarget \<Rightarrow> string list \<Rightarrow> string \<Rightarrow> string \<Rightarrow> string \<Rightarrow> bool \<Rightarrow> int act"
  and transfer_subdirs ::
    "nat \<Rightarrow> env \<Rightarrow> EVSFRWTarget \<Rightarrow> string list \<Rightarrow> string \<Rightarrow> string \<Rightarrow> string \<Rightarrow> bool \<Rightarrow> bool act"
where
  "transfer_dir_internal depth e target p_dir p_base_dir_str p_option_str p_filter_str verbose =
     (let recurse = found (str_locate_char p_option_str CHR ''R'') \<and> tb e ''ls_recurse_enable'' in
      bnd (gets (\<lambda>s. vsf_ls_populate_dir_list (tun e) (e_ls e (trace s)) (s_hide_str s) INIT_STRLIST
                  (if recurse then Some INIT_STRLIST else None) p_dir p_base_dir_str p_option_str p_filter_str verbose))
        (\<lambda>r. bnd (lift r) (\<lambda>(dir_list, subdirs, hide).
      seq (modif (\<lambda>s. s\<lparr>s_hide_str := hide\<rparr>))
      (bnd (if recurse then bnd (ftp_write_str e target (p_base_dir_str @ '':'' @ [CR, LF])) (\<lambda>w. ret (w \<noteq> 0))
            else ret False) (\<lambda>failed.
       bnd (if failed then ret True else write_dir_list e dir_list target) (\<lambda>failed.
       bnd (if failed then ret True
            else transfer_subdirs depth e target
                   (case subdirs of None \<Rightarrow> [] | Some l \<Rightarrow> map node_str (nodes_of l))
                   p_base_dir_str p_option_str p_filter_str verbose) (\<lambda>failed.
       ret (if failed then -1 else 0)))))))) "
| "transfer_subdirs depth e target [] p_base_dir_str p_option_str p_filter_str verbose = ret False"
| "transfer_subdirs depth e target (d # ds) p_base_dir_str p_option_str p_filter_str verbose =
     (if str_equal_text d ''.'' \<or> str_equal_text d ''..''
      then transfer_subdirs depth e target ds p_base_dir_str p_option_str p_filter_str verbose
      else let sub_str = p_base_dir_str @ ''/'' @ d in
        bnd (str_opendir e sub_str) (\<lambda>p_subdir.
        case p_subdir of
          None \<Rightarrow> transfer_subdirs depth e target ds p_base_dir_str p_option_str p_filter_str verbose
        | Some names \<Rightarrow>
            bnd (ftp_write_str e target [CR, LF]) (\<lambda>retval.
            if retval \<noteq> 0 then seq (vsf_sysutil_closedir e sub_str) (ret True)
            else bnd (if depth = 0 then stop Undef
                      else transfer_dir_internal (depth - 1) e target names sub_str p_option_str p_filter_str verbose)
                   (\<lambda>retval.
                 seq (vsf_sysutil_closedir e sub_str)
                 (if retval \<noteq> 0 then ret True
                  else transfer_subdirs depth e target ds p_base_dir_str p_option_str p_filter_str verbose)))))"
  by pat_completeness auto
termination
  by (relation "measures [\<lambda>x. case x of Inl (depth, _) \<Rightarrow> depth | Inr (depth, _) \<Rightarrow> depth,
                          \<lambda>x. case x of Inl _ \<Rightarrow> Suc 0 | Inr _ \<Rightarrow> 0,
                          \<lambda>x. case x of Inl _ \<Rightarrow> 0 | Inr (_, _, _, ds, _) \<Rightarrow> length ds]") auto

definition vsf_ftpdataio_transfer_dir ::
  "env \<Rightarrow> bool \<Rightarrow> string list \<Rightarrow> string \<Rightarrow> string \<Rightarrow> string \<Rightarrow> bool \<Rightarrow> int act" where
  "vsf_ftpdataio_transfer_dir e is_control p_dir p_base_dir_str p_option_str p_filter_str verbose =
     transfer_dir_internal 4096 e (if is_control then kVSFRWControl else kVSFRWData) p_dir p_base_dir_str p_option_str
       p_filter_str verbose"

section \<open>What a transfer transfers\<close>

text \<open>The bytes written to a descriptor, and to the data connection, in the order in which they were written.\<close>

definition file_bytes :: "int \<Rightarrow> trace_t \<Rightarrow> string" where
  "file_bytes fd tr =
     concat (map (\<lambda>ev. case ev of Req r \<Rightarrow> (case r of FileWrite f d \<Rightarrow> if f = fd then d else [] | _ \<Rightarrow> []) | _ \<Rightarrow> []) (rev tr))"

definition data_bytes :: "trace_t \<Rightarrow> string" where
  "data_bytes tr = concat (map (\<lambda>ev. case ev of SentData d \<Rightarrow> d | _ \<Rightarrow> []) (rev tr))"

lemma file_bytes_write [simp]: "file_bytes fd (Req (FileWrite fd d) # tr) = file_bytes fd tr @ d"
  by (simp add: file_bytes_def)

lemma data_bytes_sent [simp]: "data_bytes (SentData d # tr) = data_bytes tr @ d"
  by (simp add: data_bytes_def)

text \<open>A disk that takes every write, and a connection that does.\<close>

definition disk_ok :: "env \<Rightarrow> bool" where
  "disk_ok e \<longleftrightarrow> (\<forall>tr fd d. e_ret e tr (FileWrite fd d) = int (length d))"

definition line_ok :: "env \<Rightarrow> bool" where
  "line_ok e \<longleftrightarrow> (\<forall>tr d. e_sent e tr d = int (length d))"

lemma recv_piece_ok:
  assumes "disk_ok e"
  shows "\<exists>s'. recv_piece e fd ascii d cr s = Ret (False, snd (if ascii then upload_step cr d else (d, cr))) s' \<and>
           file_bytes fd (trace s') = file_bytes fd (trace s) @ fst (if ascii then upload_step cr d else (d, cr))"
proof -
  obtain r where r: "vsf_ascii_ascii_to_bin (NUL # d) (length d) cr = Inr r"
    using ascii_to_bin_computes [of "NUL # d" d cr] by auto
  have w: "file_write_loop e fd x s = Ret (int (length x)) (if x = [] then s else s\<lparr>trace := Req (FileWrite fd x) # trace s\<rparr>)"
    for x using assms by (simp add: file_write_loop_def disk_ok_def act_simps)
  show ?thesis
    by (cases ascii)
       (simp_all add: recv_piece_def r w upload_step_def bnd_def lift_def ret_def vsf_sysutil_retval_is_error_def)
qed

lemma upload_binary_step: "d \<noteq> [] \<Longrightarrow> strip_cr (carried cr @ d @ rest) =
    fst (upload_step cr d) @ strip_cr (carried (snd (upload_step cr d)) @ rest)"
  by (rule upload.step_law)

lemma recv_loop_ok:
  assumes "disk_ok e" and "[] \<notin> set ds" and "cr \<Longrightarrow> ascii"
  shows "\<exists>s'. recv_loop e fd ascii (map Some ds) cr n s = Ret \<lparr>tr_retval = 0, transferred = n + int (length (concat ds))\<rparr> s' \<and>
           file_bytes fd (trace s') =
             file_bytes fd (trace s) @ (if ascii then strip_cr (carried cr @ concat ds) else concat ds)"
  using assms(2,3)
proof (induction ds arbitrary: cr n s)
  case Nil
  from recv_piece_ok [OF assms(1), of fd ascii "[]" cr s] Nil show ?case
    by (cases cr) (auto simp: ret_def upload_step_eq bnd_def)
next
  case (Cons d ds)
  let ?st = "if ascii then upload_step cr d else (d, cr)"
  obtain s1 where s1: "recv_piece e fd ascii d cr s = Ret (False, snd ?st) s1"
    "file_bytes fd (trace s1) = file_bytes fd (trace s) @ fst ?st"
    using recv_piece_ok [OF assms(1)] by blast
  have "snd ?st \<Longrightarrow> ascii" using Cons.prems by (simp split: if_splits)
  then obtain s2 where s2:
    "recv_loop e fd ascii (map Some ds) (snd ?st) (n + int (length d)) s1 =
       Ret \<lparr>tr_retval = 0, transferred = n + int (length d) + int (length (concat ds))\<rparr> s2"
    "file_bytes fd (trace s2) = file_bytes fd (trace s1) @ (if ascii then strip_cr (carried (snd ?st) @ concat ds) else concat ds)"
    using Cons.IH [of "snd ?st" "n + int (length d)" s1] Cons.prems(1) by auto
  have "d \<noteq> []" using Cons.prems(1) by auto
  with s1 s2 upload_binary_step [of d cr "concat ds"] show ?case
    by (auto simp: bnd_def algebra_simps)
qed

text \<open>
  C19: an upload stores what was sent. However the network cuts the data into pieces, when the disk takes every write
  the receive loop returns success with the number of bytes received, and the file got exactly these bytes: as they
  were in binary mode, with every CR LF turned into LF in ASCII mode, a CR at the very end included.
\<close>

theorem upload_stored:
  assumes "disk_ok e" and "e_reads e (trace s) (data_fd s) = map Some ds" and "[] \<notin> set ds"
  shows "\<exists>s'. vsf_ftpdataio_transfer_file e remote_fd file_fd True ascii s =
             Ret \<lparr>tr_retval = 0, transferred = int (length (concat ds))\<rparr> s' \<and>
           file_bytes file_fd (trace s') =
             file_bytes file_fd (trace s) @ (if ascii then strip_cr (concat ds) else concat ds)"
  using recv_loop_ok [OF assms(1,3), of False ascii file_fd 0 s] assms(2)
  by (cases ascii) (simp_all add: vsf_ftpdataio_transfer_file_def do_file_recv_def bnd_def gets_def)

lemma upload_stored_witness:
  "\<exists>s'. vsf_ftpdataio_transfer_file ((calm_env [])\<lparr>e_reads := \<lambda>tr fd. [Some [CHR ''a'', CR], Some [LF, CR]]\<rparr>) 4 5 True True
       (new_session True []) = Ret \<lparr>tr_retval = 0, transferred = 4\<rparr> s' \<and>
     file_bytes 5 (trace s') = [CHR ''a'', LF, CR]"
  using upload_stored [of "(calm_env [])\<lparr>e_reads := \<lambda>tr fd. [Some [CHR ''a'', CR], Some [LF, CR]]\<rparr>" "new_session True []"
      "[[CHR ''a'', CR], [LF, CR]]" 4 5 True]
  by (simp add: disk_ok_def file_bytes_def)

lemma write_data_ok:
  "line_ok e \<Longrightarrow> ftp_write_data e d s = Ret (int (length d)) (s\<lparr>trace := SentData d # trace s\<rparr>)"
  by (simp add: ftp_write_data_def line_ok_def act_simps)

lemma send_rwloop_ok:
  assumes "line_ok e" and "[] \<notin> set ds"
  shows "\<exists>k s'. send_rwloop e ascii (map Some ds) cr n s = Ret \<lparr>tr_retval = 0, transferred = n + k\<rparr> s' \<and>
           data_bytes (trace s') = data_bytes (trace s) @ (if ascii then add_cr cr (concat ds) else concat ds) \<and>
           k = int (length (if ascii then add_cr cr (concat ds) else concat ds))"
  using assms(2)
proof (induction ds arbitrary: cr n s)
  case Nil
  show ?case by (simp add: ret_def)
next
  case (Cons d ds)
  let ?st = "if ascii then download_step cr d else (d, cr)"
  let ?s1 = "s\<lparr>trace := SentData (fst ?st) # trace s\<rparr>"
  have d: "d \<noteq> []" using Cons.prems by auto
  obtain k s2 where s2: "send_rwloop e ascii (map Some ds) (snd ?st) (n + int (length (fst ?st))) ?s1 =
      Ret \<lparr>tr_retval = 0, transferred = n + int (length (fst ?st)) + k\<rparr> s2"
    "data_bytes (trace s2) = data_bytes (trace ?s1) @ (if ascii then add_cr (snd ?st) (concat ds) else concat ds)"
    "k = int (length (if ascii then add_cr (snd ?st) (concat ds) else concat ds))"
    using Cons.IH [of "snd ?st" "n + int (length (fst ?st))" ?s1] Cons.prems by auto
  have law: "ascii \<Longrightarrow> add_cr cr (d @ concat ds) = fst ?st @ add_cr (snd ?st) (concat ds)"
    using download.step_law [OF d] by simp
  show ?case
    using s2 d law write_data_ok [OF assms(1)]
    by (cases ascii) (auto simp: bnd_def download_step_def vsf_sysutil_retval_is_error_def split_def Let_def)
qed

text \<open>
  C20: a download through the read/write loop (ASCII mode, or TLS) sends what the file has. However the file is cut into
  buffers, when the connection takes every write the transfer succeeds, and the data connection got exactly the bytes
  of the file: as they are in binary mode, with a CR in front of every LF that has none in ASCII mode.
\<close>

theorem download_sent:
  assumes "line_ok e" and "e_reads e (trace s) file_fd = map Some ds" and "[] \<notin> set ds" and "ascii \<or> data_use_ssl s"
  shows "\<exists>k s'. vsf_ftpdataio_transfer_file e remote_fd file_fd False ascii s = Ret \<lparr>tr_retval = 0, transferred = k\<rparr> s' \<and>
           data_bytes (trace s') = data_bytes (trace s) @ (if ascii then add_cr False (concat ds) else concat ds)"
proof -
  obtain k s' where "send_rwloop e ascii (map Some ds) False 0 s = Ret \<lparr>tr_retval = 0, transferred = 0 + k\<rparr> s'"
    "data_bytes (trace s') = data_bytes (trace s) @ (if ascii then add_cr False (concat ds) else concat ds)"
    using send_rwloop_ok [OF assms(1,3)] by blast
  with assms(2,4) show ?thesis
    by (auto simp: vsf_ftpdataio_transfer_file_def do_file_send_rwloop_def bnd_def gets_def)
qed

lemma download_sent_witness:
  "\<exists>k s'. vsf_ftpdataio_transfer_file ((calm_env [])\<lparr>e_reads := \<lambda>tr fd. [Some [CHR ''a'', LF], Some [LF]],
         e_sent := \<lambda>tr d. int (length d)\<rparr>) 4 5 False True (new_session True []) = Ret \<lparr>tr_retval = 0, transferred = k\<rparr> s' \<and>
     data_bytes (trace s') = [CHR ''a'', CR, LF, CR, LF]"
  using download_sent [of "(calm_env [])\<lparr>e_reads := \<lambda>tr fd. [Some [CHR ''a'', LF], Some [LF]],
         e_sent := \<lambda>tr d. int (length d)\<rparr>" "new_session True []" 5 "[[CHR ''a'', LF], [LF]]" True 4]
  by (simp add: line_ok_def data_bytes_def)

text \<open>
  C39: a file downloaded in ASCII mode and uploaded again in ASCII mode is stored as it was, when it has no CR LF of
  its own (a CR LF comes back as LF). The first session reads the file in any buffers (\<open>ds\<close>) and sends it over a
  connection that takes every write; the second receives the bytes that were sent, cut by the network in any other way
  (\<open>us\<close>), and writes them to a disk that takes every write. A CR at the end of a buffer is carried into the next one
  on both sides.
\<close>

theorem ascii_roundtrip:
  assumes "line_ok e1" and "e_reads e1 (trace s1) file_fd = map Some ds" and "[] \<notin> set ds"
    and "vsf_ftpdataio_transfer_file e1 remote_fd file_fd False True s1 = Ret r s1'"
    and "data_bytes (trace s1') = data_bytes (trace s1) @ concat us"
    and "disk_ok e2" and "e_reads e2 (trace s2) (data_fd s2) = map Some us" and "[] \<notin> set us"
  shows "\<exists>s2'. vsf_ftpdataio_transfer_file e2 remote_fd' file_fd' True True s2 =
             Ret \<lparr>tr_retval = 0, transferred = int (length (concat us))\<rparr> s2' \<and>
           file_bytes file_fd' (trace s2') = file_bytes file_fd' (trace s2) @ strip_cr (concat ds) \<and>
           (if sublist [CR, LF] (concat ds) then True else strip_cr (concat ds) = concat ds)"
proof -
  obtain k s where "send_rwloop e1 True (map Some ds) False 0 s1 = Ret \<lparr>tr_retval = 0, transferred = 0 + k\<rparr> s"
    "data_bytes (trace s) = data_bytes (trace s1) @ add_cr False (concat ds)"
    using send_rwloop_ok [OF assms(1,3), of True False 0 s1] by auto
  with assms(2,4,5) have sent: "concat us = add_cr False (concat ds)"
    by (simp add: vsf_ftpdataio_transfer_file_def do_file_send_rwloop_def bnd_def gets_def)
  obtain s2' where "recv_loop e2 file_fd' True (map Some us) False 0 s2 =
      Ret \<lparr>tr_retval = 0, transferred = 0 + int (length (concat us))\<rparr> s2'"
    "file_bytes file_fd' (trace s2') = file_bytes file_fd' (trace s2) @ strip_cr (concat us)"
    using recv_loop_ok [OF assms(6,8), of False True file_fd' 0 s2] by auto
  with assms(7) sent strip_add_cr [of False "concat ds"] strip_cr_id [of "concat ds"] show ?thesis
    by (simp add: vsf_ftpdataio_transfer_file_def do_file_recv_def bnd_def gets_def)
qed

lemma ascii_roundtrip_witness:
  "\<exists>s1' s2'. vsf_ftpdataio_transfer_file ((calm_env [])\<lparr>e_reads := \<lambda>tr fd. [Some [CHR ''a'', LF], Some [CR]],
         e_sent := \<lambda>tr d. int (length d)\<rparr>) 4 5 False True (new_session True []) = Ret \<lparr>tr_retval = 0, transferred = 4\<rparr> s1' \<and>
     vsf_ftpdataio_transfer_file ((calm_env [])\<lparr>e_reads := \<lambda>tr fd. [Some [CHR ''a'', CR], Some [LF, CR]]\<rparr>) 6 7 True True
       (new_session True []) = Ret \<lparr>tr_retval = 0, transferred = 4\<rparr> s2' \<and>
     file_bytes 7 (trace s2') = [CHR ''a'', LF, CR]"
proof -
  let ?e1 = "(calm_env [])\<lparr>e_reads := \<lambda>tr fd. [Some [CHR ''a'', LF], Some [CR]], e_sent := \<lambda>tr d. int (length d)\<rparr>"
  let ?e2 = "(calm_env [])\<lparr>e_reads := \<lambda>tr fd. [Some [CHR ''a'', CR], Some [LF, CR]]\<rparr>"
  obtain s1' where run: "vsf_ftpdataio_transfer_file ?e1 4 5 False True (new_session True []) =
      Ret \<lparr>tr_retval = 0, transferred = 4\<rparr> s1'" "data_bytes (trace s1') = [CHR ''a'', CR, LF, CR]"
    using send_rwloop_ok [of ?e1 "[[CHR ''a'', LF], [CR]]" True False 0 "new_session True []"]
    by (auto simp: line_ok_def data_bytes_def vsf_ftpdataio_transfer_file_def do_file_send_rwloop_def bnd_def gets_def)
  then have "data_bytes (trace s1') = data_bytes (trace (new_session True [])) @ concat [[CHR ''a'', CR], [LF, CR]]"
    by (simp add: data_bytes_def)
  with ascii_roundtrip [of ?e1 "new_session True []" 5 "[[CHR ''a'', LF], [CR]]" 4 _ s1' "[[CHR ''a'', CR], [LF, CR]]" ?e2
      "new_session True []" 6 7] run
  show ?thesis by (auto simp: line_ok_def disk_ok_def file_bytes_def)
qed

end
