(* ===== verification/Mcupdate.thy ===== *)
theory Mcupdate
  imports Banner
begin

text \<open>
  \<^verbatim>\<open>mcupdate.c\<close>: update instructions for a modpack. A listfile names the files of a version, one a line; the
  instructions tell a client what to remove (\<^verbatim>\<open>-\<close>), what to fetch (\<^verbatim>\<open>+\<close>) and what to replace (\<^verbatim>\<open>*\<close>) to get from its
  version to the latest one.
\<close>

definition mcu_get_latest_version :: "env \<Rightarrow> string \<Rightarrow> (bool \<times> string) act" where
  "mcu_get_latest_version e modpack =
     bnd (fileread e (''/DATA/VERSION/'' @ modpack) 40) (\<lambda>(result, version).
     ret (result \<ge> 0, str_replace_text version [LF] []))"

text \<open>A line of a listfile that names no file of interest: empty, the directory itself, or in the other list.\<close>

definition mcu_skip :: "string \<Rightarrow> string \<Rightarrow> bool" where
  "mcu_skip other_list file \<longleftrightarrow> str_equal_text file ''.'' \<or> file = [] \<or> str_contains_line other_list file"

text \<open>The first loop, with the replacement after it: what is in the old list only.\<close>

definition mcu_removed :: "string \<Rightarrow> string \<Rightarrow> string" where
  "mcu_removed list1 list2 =
     str_replace_text (concat (map (\<lambda>l. l @ [LF]) (filter (\<lambda>l. \<not> mcu_skip list2 l) (str_lines_from list1 0))))
       ''./'' ''-umods/''"

text \<open>The second loop: what is in the new list only, marked with its kind. The descriptor of \<open>str_open\<close> stays open.\<close>

definition mcu_added_line :: "env \<Rightarrow> string \<Rightarrow> string \<Rightarrow> string act" where
  "mcu_added_line e modpack file =
     (let file2 = ''/'' @ modpack @ ''/mods/'' @ file in
      bnd (str_open e file2) (\<lambda>fd.
      bnd (str_stat e file2) (\<lambda>statbuf.
      ret (case statbuf of
             None \<Rightarrow> ''# unstatable file: '' @ file2
           | Some i \<Rightarrow>
               if vsf_sysutil_statbuf_is_regfile (st_mode i) then str_replace_text file ''./'' ''+fmods/''
               else if vsf_sysutil_statbuf_is_dir (st_mode i) then str_replace_text file ''./'' ''+dmods/''
               else str_replace_text file ''./'' ''+umods/''))))"

primrec mcu_added :: "env \<Rightarrow> string \<Rightarrow> string \<Rightarrow> string list \<Rightarrow> string \<Rightarrow> string act" where
  "mcu_added e modpack list1 [] instr = ret instr"
| "mcu_added e modpack list1 (file # files) instr =
     (if mcu_skip list1 file then mcu_added e modpack list1 files instr
      else bnd (mcu_added_line e modpack file) (\<lambda>l. mcu_added e modpack list1 files (instr @ l @ [LF])))"

text \<open>One line of the manual update list.\<close>

definition mcu_change :: "string \<Rightarrow> string \<Rightarrow> string" where
  "mcu_change file instr =
     (case file of
        [] \<Rightarrow> instr
      | c # file2 \<Rightarrow>
          let filep = ''+'' @ file2; filem = ''-'' @ file2; filea = ''*'' @ file2 in
          if c = CHR ''+''
          then (if str_contains_line instr filem then str_replace_text instr filem filea
                else if \<not> str_contains_line instr filep \<and> \<not> str_contains_line instr filea then instr @ filep @ [LF]
                else instr)
          else if c = CHR ''-''
          then (if str_contains_line instr filep \<or> str_contains_line instr filea
                then str_replace_text (str_replace_text instr (filep @ [LF]) []) (filea @ [LF]) []
                else if \<not> str_contains_line instr filem then instr @ filem @ [LF]
                else instr)
          else if c = CHR ''*''
          then (if str_contains_line instr filem then str_replace_text instr filem filea
                else if str_contains_line instr filep then str_replace_text instr filep filea
                else if \<not> str_contains_line instr filea then instr @ filea @ [LF]
                else instr)
          else instr)"

definition mcu_create_update_instructions :: "env \<Rightarrow> string \<Rightarrow> string \<Rightarrow> (int \<times> string) act" where
  "mcu_create_update_instructions e modpack version =
     bnd (mcu_get_latest_version e modpack) (\<lambda>(result, version_latest).
     if \<not> result then ret (1, [])
     else bnd (fileread e (''/DATA/LISTFILE/'' @ modpack @ ''/'' @ version) 100000) (\<lambda>(result, list1).
     if result < 0 then ret (2, [])
     else bnd (fileread e (''/DATA/LISTFILE/'' @ modpack @ ''/'' @ version_latest) 100000) (\<lambda>(result, list2).
     if result < 0 then ret (-1, [])
     else bnd (mcu_added e modpack list1 (str_lines_from list2 0) (mcu_removed list1 list2)) (\<lambda>instr.
     bnd (fileread e (''/DATA/CHANGE/'' @ modpack) 100000) (\<lambda>(result, changes).
     if result < 0 then ret (-1, instr)
     else case dropWhile (\<lambda>l. l \<noteq> ''@'' @ version) (str_lines_from changes 0) of
            [] \<Rightarrow> ret (-1, instr)
          | l # ls \<Rightarrow> ret (0, fold mcu_change ls instr))))))"

text \<open>
  The replacements are not tied to the beginning of a line: a directory whose name ends in a dot changes the path that
  the client is told.
\<close>

lemma mcu_removed_inner_dot:
  "mcu_removed (''./old./a.jar'' @ [LF]) [] = ''-umods/old-umods/a.jar'' @ [LF]"
  by code_simp

section \<open>What a client is told to remove\<close>

text \<open>A listfile as \<^verbatim>\<open>find\<close> writes it: one name a line, each with \<^verbatim>\<open>./\<close> in front.\<close>

definition listfile :: "string list \<Rightarrow> string" where
  "listfile fs = concat (map (\<lambda>f. ''./'' @ f @ [LF]) fs)"

text \<open>A name that the replacement does not spoil.\<close>

definition plain_name :: "string \<Rightarrow> bool" where
  "plain_name f \<longleftrightarrow> LF \<notin> set f \<and> \<not> sublist ''./'' f \<and> length f < INT_MAX - 2"

lemma split_lines_Cons_line: "LF \<notin> set l \<Longrightarrow> split_lines (l @ LF # rest) = l # split_lines rest"
  using split_lines_step [of "l @ LF # rest"] takeWhile_cut [of LF l rest] by auto

lemma listfile_lines: "list_all plain_name fs \<Longrightarrow> str_lines_from (listfile fs) 0 = map (\<lambda>f. ''./'' @ f) fs"
proof -
  assume "list_all plain_name fs"
  then have "split_lines (listfile fs) = map (\<lambda>f. ''./'' @ f) fs"
  proof (induction fs)
    case (Cons f fs)
    then show ?case using split_lines_Cons_line [of "''./'' @ f" "listfile fs"]
      by (simp add: listfile_def plain_name_def)
  qed (simp add: listfile_def)
  then show ?thesis using str_lines_from_eq [of 0 "listfile fs"] by simp
qed

lemma replace_line:
  assumes "plain_name f"
  shows "replace_all ''./'' t (f @ LF # rest) = f @ LF # replace_all ''./'' t rest"
proof -
  have "\<not> prefix ''./'' (drop j ((f @ [LF]) @ rest))" if "j < length (f @ [LF])" for j
  proof
    assume p: "prefix ''./'' (drop j ((f @ [LF]) @ rest))"
    show False
    proof (cases "Suc j < length f")
      case True
      then have "drop j ((f @ [LF]) @ rest) = f ! j # f ! Suc j # drop (Suc (Suc j)) ((f @ [LF]) @ rest)"
        by (simp add: Cons_nth_drop_Suc nth_append drop_Suc [symmetric] flip: Cons_nth_drop_Suc)
      with p have "f ! j = CHR ''.''" "f ! Suc j = CHR ''/''" by auto
      with True have "f = take j f @ ''./'' @ drop (Suc (Suc j)) f"
        by (metis Cons_nth_drop_Suc Suc_lessD append_Cons append_Nil append_take_drop_id)
      then have "sublist ''./'' f" by (metis sublist_appendI)
      with assms show ?thesis by (simp add: plain_name_def)
    next
      case False
      with that p show ?thesis
        by (cases "j = length f") (auto simp: nth_append drop_append take_Cons' drop_Cons' Cons_nth_drop_Suc [symmetric] dest!: prefix_length_le)
    qed
  qed
  from replace_all_skip [of "f @ [LF]" "''./''" rest t, OF this] show ?thesis by simp
qed

lemma replace_listfile:
  "list_all plain_name fs \<Longrightarrow> replace_all ''./'' t (listfile fs) = concat (map (\<lambda>f. t @ f @ [LF]) fs)"
proof (induction fs)
  case Nil
  show ?case by (simp add: listfile_def)
next
  case (Cons f fs)
  then show ?case using replace_all_here [of "''./''" t "f @ LF # listfile fs"] replace_line [of f t "listfile fs"]
    by (simp add: listfile_def)
qed

text \<open>
  C30: removal instructions. From a listfile of names that hold no \<^verbatim>\<open>./\<close> of their own, the first part of the update
  instructions has a line \<^verbatim>\<open>-umods/\<close> for exactly the names that the new listfile does not have, in the order of the
  old one.
\<close>

theorem removal_instructions:
  assumes "list_all plain_name fs"
  shows "mcu_removed (listfile fs) list2 =
         concat (map (\<lambda>f. ''-umods/'' @ f @ [LF]) (filter (\<lambda>f. \<not> str_contains_line list2 (''./'' @ f)) fs))"
proof -
  let ?gs = "filter (\<lambda>f. \<not> str_contains_line list2 (''./'' @ f)) fs"
  have skip: "mcu_skip list2 (''./'' @ f) = str_contains_line list2 (''./'' @ f)" if "plain_name f" for f
  proof -
    have "short_str (''./'' @ f)" "short_str ''.''" using that by (auto simp: plain_name_def short_str_def INT_MAX_def)
    then have "\<not> str_equal_text (''./'' @ f) ''.''" by (simp add: str_equal_text_iff c_str_def)
    then show ?thesis by (simp add: mcu_skip_def)
  qed
  have "filter (\<lambda>l. \<not> mcu_skip list2 l) (map (\<lambda>f. ''./'' @ f) fs) = map (\<lambda>f. ''./'' @ f) ?gs"
    using assms skip by (induction fs) auto
  then have "mcu_removed (listfile fs) list2 = str_replace_text (listfile ?gs) ''./'' ''-umods/''"
    using listfile_lines [OF assms] by (simp add: mcu_removed_def listfile_def o_def)
  moreover have "list_all plain_name ?gs" using assms by (auto simp: list_all_iff)
  ultimately show ?thesis
    using replace_listfile [of ?gs "''-umods/''"] by (simp add: str_replace_text_def replace_text_loop_eq c_str_def)
qed

lemma removal_instructions_witness:
  "mcu_removed (listfile [''a.jar'', ''b/c.jar'']) (listfile [''a.jar'']) = ''-umods/b/c.jar'' @ [LF]"
proof -
  have "list_all plain_name [''a.jar'', ''b/c.jar'']"
    by (simp add: plain_name_def INT_MAX_def sublist_Cons_right)
  moreover have "str_contains_line (listfile [''a.jar'']) (''./'' @ ''a.jar'')" "\<not> str_contains_line (listfile [''a.jar'']) (''./'' @ ''b/c.jar'')"
    by code_simp+
  ultimately show ?thesis
    using removal_instructions [of "[''a.jar'', ''b/c.jar'']" "listfile [''a.jar'']"] by simp
qed

end
