(* ===== verification/Postlogin.thy ===== *)
theory Postlogin
  imports Ftpdataio Mcupdate Ipaddrparse
begin

text \<open>
  \<^verbatim>\<open>postlogin.c\<close>: the commands of a logged-in session, one action per handler, and the command loop. The strings and
  buffers that the source keeps in static variables are local values. Setting the process title has no effect here.
\<close>

section \<open>Names and permissions\<close>

definition check_file :: "env \<Rightarrow> string \<Rightarrow> bool act" where
  "check_file e p_filename_str =
     bnd (gets (\<lambda>s. vsf_access_check_file (tun e) (s_access_str s) p_filename_str)) (\<lambda>r.
     bnd (lift r) (\<lambda>(ok, pat). seq (modif (\<lambda>s. s\<lparr>s_access_str := pat\<rparr>)) (ret ok)))"

definition resolve_tilde :: "env \<Rightarrow> string \<Rightarrow> string act" where
  "resolve_tilde e p_str =
     (if p_str \<noteq> [] \<and> hd p_str = CHR ''~''
      then if length p_str = 1 \<or> p_str ! 1 = CHR ''/''
           then bnd (gets home_str) (\<lambda>home. ret (home @ snd (str_split_char p_str CHR ''~'')))
           else if tb e ''tilde_user_enable'' \<and> length p_str > 1
           then case str_split_char (snd (str_split_char p_str CHR ''~'')) CHR ''/'' of (user, rhs) \<Rightarrow>
                bnd (str_getpwnam e user) (\<lambda>p_user.
                ret (case p_user of
                       None \<Rightarrow> p_str
                     | Some homedir \<Rightarrow> c_str homedir @ (if rhs \<noteq> [] then ''/'' @ rhs else [])))
           else ret p_str
      else ret p_str)"

definition resolve_arg :: "env \<Rightarrow> string act" where
  "resolve_arg e =
     bnd (gets ftp_arg_str) (\<lambda>a.
     bnd (resolve_tilde e a) (\<lambda>a'. seq (modif (\<lambda>s. s\<lparr>ftp_arg_str := a'\<rparr>)) (ret a')))"

definition prepend_path_to_filename :: "env \<Rightarrow> string \<Rightarrow> string act" where
  "prepend_path_to_filename e p_str =
     (if p_str = [] \<or> hd p_str \<noteq> CHR ''/''
      then bnd (str_getcwd e) (\<lambda>cwd.
           ret ((if cwd = [] \<or> last cwd \<noteq> CHR ''/'' then cwd @ ''/'' else cwd) @ p_str))
      else ret p_str)"

text \<open>\<open>vsf_log_start_entry\<close> with the name of the file as the text of the entry.\<close>

definition start_log_file :: "env \<Rightarrow> log_entry \<Rightarrow> string \<Rightarrow> unit act" where
  "start_log_file e what name =
     seq (vsf_log_start_entry e what)
     (bnd (prepend_path_to_filename e name) (\<lambda>path. modif (\<lambda>s. s\<lparr>log_str := path\<rparr>)))"

definition double_quotes :: "string \<Rightarrow> string" where
  "double_quotes p_str = str_replace_text p_str [QUOTE] [QUOTE, QUOTE]"

section \<open>Directories\<close>

definition handle_pwd :: "env \<Rightarrow> unit act" where
  "handle_pwd e =
     bnd (str_getcwd e) (\<lambda>cwd. vsf_cmdio_write_str e FTP_PWDOK ([QUOTE] @ double_quotes cwd @ [QUOTE]))"

definition handle_cwd :: "env \<Rightarrow> unit act" where
  "handle_cwd e =
     bnd (resolve_arg e) (\<lambda>arg.
     bnd (check_file e arg) (\<lambda>ok.
     if \<not> ok then vsf_cmdio_write e FTP_NOPERM ''Permission denied.''
     else bnd (str_chdir e arg) (\<lambda>retval.
          if retval = 0
          then seq (vsf_banner_dir_changed e FTP_CWDOK)
                   (vsf_cmdio_write e FTP_CWDOK ''Directory successfully changed.'')
          else vsf_cmdio_write e FTP_FILEFAIL ''Failed to change directory.'')))"

definition handle_cdup :: "env \<Rightarrow> unit act" where
  "handle_cdup e = seq (modif (\<lambda>s. s\<lparr>ftp_arg_str := ''..''\<rparr>)) (handle_cwd e)"

section \<open>The state of the data connection\<close>

text \<open>
  \<open>port_active\<close> and \<open>pasv_active\<close> call each other as a cross-check. When both were active the calls would go on
  until the C stack is used up; the first argument counts the frames left.
\<close>

fun port_active :: "nat \<Rightarrow> env \<Rightarrow> bool act"
  and pasv_active :: "nat \<Rightarrow> env \<Rightarrow> bool act" where
  "port_active 0 e = stop Undef"
| "port_active (Suc frames) e =
     bnd (gets p_port_sockaddr) (\<lambda>a.
     if a \<noteq> None
     then bnd (pasv_active frames e) (\<lambda>p. if p then lift (bug ''port and pasv both active'') else ret True)
     else ret False)"
| "pasv_active 0 e = stop Undef"
| "pasv_active (Suc frames) e =
     bnd (if tb e ''one_process_model'' then vsf_privop_pasv_active Own else vsf_two_process_pasv_active e) (\<lambda>r.
     if r
     then bnd (port_active frames e) (\<lambda>p. if p then lift (bug ''pasv and port both active'') else ret True)
     else ret False)"

definition stack_frames :: nat where
  "stack_frames = 1000"

definition port_cleanup :: "unit act" where
  "port_cleanup = modif (\<lambda>s. s\<lparr>p_port_sockaddr := None\<rparr>)"

definition pasv_cleanup :: "env \<Rightarrow> unit act" where
  "pasv_cleanup e =
     (if tb e ''one_process_model'' then vsf_privop_pasv_cleanup e Own else vsf_two_process_pasv_cleanup e)"

definition either_active :: "env \<Rightarrow> bool act" where
  "either_active e =
     bnd (pasv_active stack_frames e) (\<lambda>p. if p then ret True else port_active stack_frames e)"

definition data_transfer_checks_ok :: "env \<Rightarrow> bool act" where
  "data_transfer_checks_ok e =
     bnd (either_active e) (\<lambda>active.
     if \<not> active then seq (vsf_cmdio_write e FTP_BADSENDCONN ''Use PORT or PASV first.'') (ret False)
     else bnd (gets (\<lambda>s. (data_use_ssl s, is_anonymous s))) (\<lambda>(ssl, anon).
          if tb e ''ssl_enable'' \<and> \<not> ssl \<and>
             ((tb e ''force_local_data_ssl'' \<and> \<not> anon) \<or> (tb e ''force_anon_data_ssl'' \<and> anon))
          then seq (vsf_cmdio_write e FTP_NEEDENCRYPT ''Data connections must be encrypted.'') (ret False)
          else ret True))"

definition get_remote_transfer_fd :: "env \<Rightarrow> string \<Rightarrow> int act" where
  "get_remote_transfer_fd e p_status_msg =
     bnd (either_active e) (\<lambda>active.
     if \<not> active then lift (bug ''neither PORT nor PASV active in get_remote_transfer_fd'')
     else seq (modif (\<lambda>s. s\<lparr>abor_received := False\<rparr>))
     (bnd (pasv_active stack_frames e) (\<lambda>p.
      bnd (if p then vsf_ftpdataio_get_pasv_fd e else vsf_ftpdataio_get_port_fd e) (\<lambda>remote_fd.
      if vsf_sysutil_retval_is_error remote_fd then ret remote_fd
      else seq (vsf_cmdio_write e FTP_DATACONN p_status_msg)
      (bnd (vsf_ftpdataio_post_mark_connect e) (\<lambda>r.
       if r \<noteq> 1 then bnd (vsf_ftpdataio_dispose_transfer_fd e) (\<lambda>d. ret (-1)) else ret remote_fd))))))"

definition check_abor :: "env \<Rightarrow> unit act" where
  "check_abor e =
     bnd (gets abor_received) (\<lambda>a.
     onlyif a (seq (modif (\<lambda>s. s\<lparr>abor_received := False\<rparr>)) (vsf_cmdio_write e FTP_ABOROK ''ABOR successful.'')))"

section \<open>Passive and active mode\<close>

definition vsf_sysutil_inet_ntoa :: "string \<Rightarrow> string" where
  "vsf_sysutil_inet_ntoa p_raw_addr =
     (case map (\<lambda>c. num_str 10 (code c)) (take 4 p_raw_addr) of
        [a, b, c, d] \<Rightarrow> a @ ''.'' @ b @ ''.'' @ c @ ''.'' @ d
      | _ \<Rightarrow> [])"

definition pasv_sockaddr :: "env \<Rightarrow> sockaddr \<Rightarrow> sockaddr act" where
  "pasv_sockaddr e local =
     (case ts e ''pasv_address'' of
        None \<Rightarrow> lift (vsf_sysutil_sockaddr_clone local)
      | Some text \<Rightarrow>
          (case e_aton e text of
             None \<Rightarrow> lift (die ''invalid pasv_address'')
           | Some raw \<Rightarrow> ret (vsf_sysutil_sockaddr_alloc_ipv4\<lparr>sin_addr := raw\<rparr>)))"

definition pasv_host_text :: "env \<Rightarrow> bool \<Rightarrow> sockaddr \<Rightarrow> string result" where
  "pasv_host_text e is_ipv6 s_p_sockaddr =
     (if \<not> is_ipv6
      then (if family s_p_sockaddr = AF_INET then Inr (vsf_sysutil_inet_ntoa (sin_addr s_p_sockaddr))
            else if family s_p_sockaddr = AF_INET6 then Inr (e_ntop e (sin6_addr s_p_sockaddr))
            else die ''can only support ipv4 and ipv6 currently'')
      else (case vsf_sysutil_sockaddr_ipv6_v4 s_p_sockaddr of
              Some p_v4addr \<Rightarrow> Inr (vsf_sysutil_inet_ntoa p_v4addr)
            | None \<Rightarrow> Inr ''0,0,0,0''))"

definition handle_pasv :: "env \<Rightarrow> bool \<Rightarrow> unit act" where
  "handle_pasv e is_epsv =
     bnd (gets p_local_addr) (\<lambda>local.
     bnd (gets ftp_arg_str) (\<lambda>arg0.
     let is_ipv6 = vsf_sysutil_sockaddr_is_ipv6 local; arg = str_upper arg0; argval = vsf_sysutil_atoi arg in
     if is_epsv \<and> arg0 \<noteq> [] \<and> str_equal_text arg ''ALL''
     then seq (modif (\<lambda>s. s\<lparr>ftp_arg_str := arg, epsv_all := True\<rparr>)) (vsf_cmdio_write e FTP_EPSVALLOK ''EPSV ALL ok.'')
     else if is_epsv \<and> arg0 \<noteq> [] \<and> (argval < 1 \<or> argval > 2 \<or> (\<not> is_ipv6 \<and> argval = 2))
     then seq (modif (\<lambda>s. s\<lparr>ftp_arg_str := arg\<rparr>)) (vsf_cmdio_write e FTP_EPSVBAD ''Bad network protocol.'')
     else seq (onlyif (is_epsv \<and> arg0 \<noteq> []) (modif (\<lambda>s. s\<lparr>ftp_arg_str := arg\<rparr>)))
     (seq (pasv_cleanup e)
     (seq port_cleanup
     (bnd (if tb e ''one_process_model'' then vsf_privop_pasv_listen e Own else vsf_two_process_listen e) (\<lambda>the_port.
      if is_epsv
      then vsf_cmdio_write_str e FTP_EPSVOK
             (''Entering Extended Passive Mode (|||'' @ vsf_sysutil_ulong_to_str the_port @ ''|).'')
      else bnd (pasv_sockaddr e local) (\<lambda>addr.
           bnd (lift (pasv_host_text e is_ipv6 addr)) (\<lambda>host.
           vsf_cmdio_write_str e FTP_PASVOK
             (str_replace_char (''Entering Passive Mode ('' @ host) CHR ''.'' CHR '','' @ '','' @
              vsf_sysutil_ulong_to_str (the_port div 256) @ '','' @ vsf_sysutil_ulong_to_str (the_port mod 256) @
              '').'')))))))))"

definition handle_port :: "env \<Rightarrow> unit act" where
  "handle_port e =
     seq (pasv_cleanup e)
     (seq port_cleanup
     (bnd (gets (\<lambda>s. (ftp_arg_str s, p_local_addr s, p_remote_addr s))) (\<lambda>(arg, local, remote).
      case vsf_sysutil_parse_uchar_string_sep arg CHR '','' 6 of
        None \<Rightarrow> vsf_cmdio_write e FTP_BADCMD ''Illegal PORT command.''
      | Some vals \<Rightarrow>
          let the_port = code (vals ! 4) * 256 + code (vals ! 5) in
          bnd (lift (andthen (vsf_sysutil_sockaddr_clone local) (\<lambda>a.
                     andthen (vsf_sysutil_sockaddr_set_ipv4addr a vals) (\<lambda>a.
                     vsf_sysutil_sockaddr_set_port a the_port)))) (\<lambda>a.
          seq (modif (\<lambda>s. s\<lparr>p_port_sockaddr := Some a\<rparr>))
          (if \<not> tb e ''port_promiscuous'' \<and>
              (\<not> vsf_sysutil_sockaddr_addr_equal remote a \<or> vsf_sysutil_is_port_reserved the_port)
           then seq (vsf_cmdio_write e FTP_BADCMD ''Illegal PORT command.'') port_cleanup
           else vsf_cmdio_write e FTP_PORTOK ''PORT command successful.'')))))"

text \<open>The argument of \<^verbatim>\<open>EPRT\<close>: protocol, raw address and port, or the reply that refuses it.\<close>

definition parse_eprt :: "bool \<Rightarrow> string \<Rightarrow> (string + int \<times> string \<times> nat)" where
  "parse_eprt is_ipv6 arg =
     (case str_split_char arg CHR ''|'' of (part1, part2) \<Rightarrow>
      if part1 \<noteq> [] then Inl ''Bad EPRT command.''
      else case str_split_char part2 CHR ''|'' of (part2, part1) \<Rightarrow>
      let proto = str_atoi part2 in
      if proto < 1 \<or> proto > 2 \<or> (\<not> is_ipv6 \<and> proto = 2) then Inl ''Bad EPRT protocol.''
      else case str_split_char part1 CHR ''|'' of (part1, part2) \<Rightarrow>
      case (if proto = 2 then vsf_sysutil_parse_ipv6 (fst (str_split_char part1 CHR ''%''))
            else vsf_sysutil_parse_ipv4 part1) of
        None \<Rightarrow> Inl ''Bad EPRT command.''
      | Some raw \<Rightarrow>
          (case str_split_char part2 CHR ''|'' of (part2, part1) \<Rightarrow>
           if part1 \<noteq> [] \<or> part2 = [] then Inl ''Bad EPRT command.''
           else if str_atoi part2 < 0 \<or> str_atoi part2 > 65535 then Inl ''Bad EPRT command.''
           else Inr (proto, raw, nat (str_atoi part2))))"

definition handle_eprt :: "env \<Rightarrow> unit act" where
  "handle_eprt e =
     seq port_cleanup
     (seq (pasv_cleanup e)
     (bnd (gets (\<lambda>s. (ftp_arg_str s, p_local_addr s, p_remote_addr s))) (\<lambda>(arg, local, remote).
      case parse_eprt (vsf_sysutil_sockaddr_is_ipv6 local) arg of
        Inl text \<Rightarrow> vsf_cmdio_write e FTP_BADCMD text
      | Inr (proto, raw, the_port) \<Rightarrow>
          bnd (lift (andthen (vsf_sysutil_sockaddr_clone local) (\<lambda>a.
                     andthen (if proto = 2 then vsf_sysutil_sockaddr_set_ipv6addr a raw
                              else vsf_sysutil_sockaddr_set_ipv4addr a raw) (\<lambda>a.
                     vsf_sysutil_sockaddr_set_port a the_port)))) (\<lambda>a.
          seq (modif (\<lambda>s. s\<lparr>p_port_sockaddr := Some a\<rparr>))
          (if \<not> tb e ''port_promiscuous'' \<and>
              (\<not> vsf_sysutil_sockaddr_addr_equal remote a \<or> vsf_sysutil_is_port_reserved the_port)
           then seq (vsf_cmdio_write e FTP_BADCMD ''Illegal EPRT command.'') port_cleanup
           else vsf_cmdio_write e FTP_EPRTOK ''EPRT command successful. Consider using EPSV.'')))))"

section \<open>The cross-check of the two modes\<close>

lemma active_both:
  assumes "p_port_sockaddr s \<noteq> None" and "listen_fd (if tb e ''one_process_model'' then Own else Parent) s \<noteq> -1"
  shows "port_active n e s = Stop Undef s \<and> pasv_active n e s = Stop Undef s"
proof (induction n)
  case 0
  show ?case by (simp add: stop_def)
next
  case (Suc n)
  then show ?case using assms
    by (simp add: act_simps vsf_privop_pasv_active_def vsf_two_process_pasv_active_def process_post_login_req_def
        cmd_process_pasv_active_def split: if_splits)
qed

text \<open>
  C29: \<open>port_active\<close> and \<open>pasv_active\<close> tell whether an address or a passive socket is there, as long as there are not both;
  with both, each calls the other without end, on any stack, and never reaches the \<open>bug\<close> meant for this case.
\<close>

theorem active_cross_check:
  "let p = p_port_sockaddr s \<noteq> None; q = listen_fd (if tb e ''one_process_model'' then Own else Parent) s \<noteq> -1 in
   if p \<and> q then port_active n e s = Stop Undef s \<and> pasv_active n e s = Stop Undef s
   else port_active (Suc (Suc n)) e s = Ret p s \<and> pasv_active (Suc (Suc n)) e s = Ret q s"
  using active_both [of s e n]
  by (auto simp: Let_def act_simps vsf_privop_pasv_active_def vsf_two_process_pasv_active_def process_post_login_req_def
      cmd_process_pasv_active_def)

text \<open>
  With \<open>pasv_address\<close> set and a client on IPv6, \<^verbatim>\<open>PASV\<close> answers with the address 0,0,0,0: the configured IPv4 address is
  looked for inside an IPv6 one.
\<close>

lemma pasv_address_on_ipv6:
  assumes "ts e ''pasv_address'' = Some t" and "e_aton e t = Some raw"
  shows "bnd (pasv_sockaddr e local) (\<lambda>a. lift (pasv_host_text e True a)) s = Ret ''0,0,0,0'' s"
  using assms
  by (simp add: pasv_sockaddr_def pasv_host_text_def vsf_sysutil_sockaddr_ipv6_v4_def vsf_sysutil_sockaddr_alloc_ipv4_def
      act_simps)

end
