(* ===== verification/Commands.thy ===== *)
theory Commands
  imports Postlogin
begin

text \<open>\<^verbatim>\<open>postlogin.c\<close>, second part: transfers, changes to the file system, \<^verbatim>\<open>SITE\<close>, and the command loop.\<close>

section \<open>Downloads\<close>

definition vsf_sysutil_lseek_to :: "env \<Rightarrow> int \<Rightarrow> int \<Rightarrow> unit act" where
  "vsf_sysutil_lseek_to e fd seek_pos =
     (if seek_pos < 0 then lift (die ''negative seek_pos in vsf_sysutil_lseek_to'')
      else bnd (call e (OnFd (LseekTo seek_pos) fd)) (\<lambda>r. must (0 \<le> r) ''lseek''))"

definition vsf_sysutil_lseek_end :: "env \<Rightarrow> int \<Rightarrow> unit act" where
  "vsf_sysutil_lseek_end e fd = bnd (call e (OnFd LseekEnd fd)) (\<lambda>r. must (0 \<le> r) ''lseek'')"

definition vsf_sysutil_ftruncate :: "env \<Rightarrow> int \<Rightarrow> unit act" where
  "vsf_sysutil_ftruncate e fd = bnd (call e (OnFd Ftruncate fd)) (\<lambda>r. must (r = 0) ''ftruncate'')"

definition vsf_sysutil_fchmod :: "env \<Rightarrow> int \<Rightarrow> nat \<Rightarrow> unit act" where
  "vsf_sysutil_fchmod e fd md =
     bnd (call e (OnFd (Fchmod (unat (vsf_sysutil_chmod_mask (of_nat md)))) fd)) (\<lambda>r. must (r = 0) ''fchmod'')"

definition retr_mark :: "bool \<Rightarrow> string \<Rightarrow> int \<Rightarrow> string" where
  "retr_mark ascii name file_size =
     ''Opening '' @ (if ascii then ''ASCII'' else ''BINARY'') @ '' mode data connection for '' @ name @ '' ('' @
     vsf_sysutil_filesize_t_to_str file_size @ '' bytes).''"

text \<open>From the 150 mark to the final reply; the result tells whether a data connection could be had.\<close>

definition retr_send :: "env \<Rightarrow> bool \<Rightarrow> int \<Rightarrow> bool \<Rightarrow> string \<Rightarrow> unit act" where
  "retr_send e http opened_file ascii mark =
     bnd (if http then ret 0 else get_remote_transfer_fd e mark) (\<lambda>remote_fd.
     if \<not> http \<and> vsf_sysutil_retval_is_error remote_fd then seq port_cleanup (pasv_cleanup e)
     else bnd (vsf_ftpdataio_transfer_file e remote_fd opened_file False ascii) (\<lambda>tr.
     bnd (if http then ret 1 else vsf_ftpdataio_dispose_transfer_fd e) (\<lambda>d.
     let r = (if \<not> http \<and> d \<noteq> 1 \<and> tr_retval tr = 0 then -2 else tr_retval tr) in
     seq (modif (\<lambda>s. s\<lparr>transfer_size := transferred tr\<rparr>))
     (seq (onlyif (r = 0) (vsf_log_do_log e True))
     (if http then ret ()
      else seq (if r = -1 then vsf_cmdio_write e FTP_BADSENDFILE ''Failure reading local file.''
                else if r = -2 then vsf_cmdio_write e FTP_BADSENDNET ''Failure writing network stream.''
                else vsf_cmdio_write e FTP_TRANSFEROK ''Transfer complete.'')
           (seq (check_abor e) (seq port_cleanup (pasv_cleanup e))))))))"

definition retr_opened :: "env \<Rightarrow> bool \<Rightarrow> int \<Rightarrow> int \<Rightarrow> unit act" where
  "retr_opened e http opened_file offset =
     seq (onlyif (tb e ''lock_upload_files'') (bnd (call e (OnFd LockRead opened_file)) (\<lambda>r. ret ())))
     (bnd (vsf_sysutil_fstat e opened_file) (\<lambda>st.
      bnd (gets (\<lambda>s. (is_anonymous s, is_ascii s, ftp_arg_str s))) (\<lambda>(anon, ascii_mode, name).
      if \<not> vsf_sysutil_statbuf_is_regfile (st_mode st)
      then seq (vsf_cmdio_write e FTP_FILEFAIL ''Failed to open file.'')
           (seq (onlyif (vsf_sysutil_statbuf_is_dir (st_mode st)) vsf_log_clear_entry)
           (vsf_sysutil_close e opened_file))
      else seq (vsf_sysutil_deactivate_noblock e opened_file)
      (if anon \<and> tb e ''anon_world_readable_only'' \<and> \<not> vsf_sysutil_statbuf_is_readable_other (st_mode st)
       then seq (vsf_cmdio_write e FTP_FILEFAIL ''Failed to open file.'') (vsf_sysutil_close e opened_file)
       else seq (onlyif (offset \<noteq> 0) (vsf_sysutil_lseek_to e opened_file offset))
       (let ascii = tb e ''ascii_download_enable'' \<and> ascii_mode in
        bnd (lift (vsf_sysutil_statbuf_get_size (st_size st))) (\<lambda>file_size.
        seq (retr_send e http opened_file ascii (retr_mark ascii name file_size))
            (vsf_sysutil_close e opened_file)))))))"

definition handle_retr :: "env \<Rightarrow> bool \<Rightarrow> unit act" where
  "handle_retr e http =
     bnd (gets restart_pos) (\<lambda>offset.
     seq (modif (\<lambda>s. s\<lparr>restart_pos := 0\<rparr>))
     (bnd (if http then ret True else data_transfer_checks_ok e) (\<lambda>ok.
      if \<not> ok then ret ()
      else bnd (gets is_ascii) (\<lambda>ascii.
      if ascii \<and> offset \<noteq> 0 then vsf_cmdio_write e FTP_FILEFAIL ''No support for resume of ASCII transfer.''
      else bnd (resolve_arg e) (\<lambda>arg.
      seq (start_log_file e kVSFLogEntryDownload arg)
      (bnd (check_file e arg) (\<lambda>ok.
       if \<not> ok then vsf_cmdio_write e FTP_NOPERM ''Permission denied.''
       else bnd (str_open e arg) (\<lambda>opened_file.
            if vsf_sysutil_retval_is_error opened_file then vsf_cmdio_write e FTP_FILEFAIL ''Failed to open file.''
            else retr_opened e http opened_file offset))))))))"

section \<open>Listings\<close>

text \<open>The argument of a listing command: options and filter.\<close>

definition dir_options :: "string \<Rightarrow> string \<times> string" where
  "dir_options arg = (if arg \<noteq> [] \<and> hd arg = CHR ''-'' then str_split_char (tl arg) CHR '' '' else ([], arg))"

text \<open>The directory to list with its name and the filter that is left, for a filter that passed the checks.\<close>

definition dir_target :: "env \<Rightarrow> bool \<Rightarrow> string \<Rightarrow> (string list option \<times> string \<times> string) act" where
  "dir_target e given filt =
     bnd (if given then str_opendir e filt else ret None) (\<lambda>p_dir.
     case p_dir of
       Some names \<Rightarrow> ret (Some names, filt, [])
     | None \<Rightarrow>
         (case (if found (str_locate_char filt CHR ''/'')
                then (case str_split_char_reverse filt CHR ''/'' of (l, r) \<Rightarrow> (if l = [] then ''/'' else l, r))
                else (''.'', filt)) of (dir_name, filt') \<Rightarrow>
          bnd (str_opendir e dir_name) (\<lambda>d. ret (d, dir_name, filt'))))"

definition dir_readable :: "env \<Rightarrow> string list option \<Rightarrow> string \<Rightarrow> bool act" where
  "dir_readable e p_dir dir_name =
     bnd (gets is_anonymous) (\<lambda>anon.
     if anon \<and> p_dir \<noteq> None \<and> tb e ''anon_world_readable_only''
     then bnd (call_stat e (Look (DirStat (c_str dir_name)))) (\<lambda>st.
          case st of None \<Rightarrow> lift (die ''fstat'') | Some i \<Rightarrow> ret (vsf_sysutil_statbuf_is_readable_other (st_mode i)))
     else ret True)"

definition handle_dir_common :: "env \<Rightarrow> bool \<Rightarrow> bool \<Rightarrow> unit act" where
  "handle_dir_common e full_details stat_cmd =
     bnd (if stat_cmd then ret True else data_transfer_checks_ok e) (\<lambda>ok.
     if \<not> ok then ret ()
     else bnd (gets (\<lambda>s. dir_options (ftp_arg_str s))) (\<lambda>(opts, filt0).
     bnd (if filt0 \<noteq> []
          then bnd (resolve_tilde e filt0) (\<lambda>f. bnd (check_file e f) (\<lambda>ok. ret (ok, f))) else ret (True, [])) (\<lambda>(ok, filt).
     if \<not> ok then vsf_cmdio_write e FTP_NOPERM ''Permission denied.''
     else bnd (dir_target e (filt0 \<noteq> []) filt) (\<lambda>(p_dir, dir_name, filt').
     bnd (if stat_cmd
          then seq (vsf_cmdio_write_hyphen e FTP_STATFILE_OK ''Status follows:'') (ret 0)
          else get_remote_transfer_fd e ''Here comes the directory listing.'') (\<lambda>remote_fd.
     seq (if \<not> stat_cmd \<and> vsf_sysutil_retval_is_error remote_fd then ret ()
          else bnd (dir_readable e p_dir dir_name) (\<lambda>dir_allow_read.
          bnd (case p_dir of
                 Some names \<Rightarrow>
                   if dir_allow_read
                   then vsf_ftpdataio_transfer_dir e stat_cmd names dir_name (if stat_cmd then opts @ ''a'' else opts)
                          filt' full_details
                   else ret 0
               | None \<Rightarrow> ret 0) (\<lambda>retval.
          bnd (if stat_cmd then ret 1 else vsf_ftpdataio_dispose_transfer_fd e) (\<lambda>d.
          let retval = (if \<not> stat_cmd \<and> d \<noteq> 1 \<and> retval = 0 then -1 else retval) in
          seq (if stat_cmd then vsf_cmdio_write e FTP_STATFILE_OK ''End of status''
               else if p_dir = None \<or> \<not> dir_allow_read
               then vsf_cmdio_write e FTP_TRANSFEROK ''Transfer done (but failed to open directory).''
               else if retval = 0 then vsf_cmdio_write e FTP_TRANSFEROK ''Directory send OK.''
               else vsf_cmdio_write e FTP_BADSENDNET ''Failure writing network stream.'')
              (check_abor e)))))
     (seq (onlyif (p_dir \<noteq> None) (vsf_sysutil_closedir e dir_name))
          (onlyif (\<not> stat_cmd) (seq port_cleanup (pasv_cleanup e)))))))))"

definition handle_list :: "env \<Rightarrow> unit act" where
  "handle_list e = handle_dir_common e True False"

definition handle_nlst :: "env \<Rightarrow> unit act" where
  "handle_nlst e = handle_dir_common e False False"

definition handle_stat_file :: "env \<Rightarrow> unit act" where
  "handle_stat_file e = handle_dir_common e True True"

section \<open>Uploads\<close>

text \<open>The first free name \<^verbatim>\<open>base.1\<close>, \<^verbatim>\<open>base.2\<close>, \dots; \<open>tries\<close> bounds the search (see \<open>unique_tries\<close>).\<close>

primrec unique_loop :: "env \<Rightarrow> string \<Rightarrow> nat \<Rightarrow> nat \<Rightarrow> string act" where
  "unique_loop e base sfx 0 = stop Undef"
| "unique_loop e base sfx (Suc tries) =
     (let outstr = base @ ''.'' @ vsf_sysutil_ulong_to_str sfx in
      bnd (str_stat e outstr) (\<lambda>r. if r = None then ret outstr else unique_loop e base (u32 (sfx + 1)) tries))"

text \<open>The counter is an \<open>unsigned int\<close>; after \<open>2 ^ 32\<close> taken names the source would search for ever.\<close>

definition unique_tries :: nat where
  "unique_tries = 4294967296"

definition get_unique_filename :: "env \<Rightarrow> string \<Rightarrow> string act" where
  "get_unique_filename e base =
     bnd (str_stat e base) (\<lambda>r. if r = None then ret base else unique_loop e base 1 unique_tries)"

text \<open>What happens to the created file before the transfer: mode, owner, lock, truncation, position.\<close>

definition upload_prepare :: "env \<Rightarrow> int \<Rightarrow> bool \<Rightarrow> int \<Rightarrow> bool \<Rightarrow> unit act" where
  "upload_prepare e new_file_fd is_append offset do_truncate =
     bnd (vsf_sysutil_fstat e new_file_fd) (\<lambda>st.
     seq (onlyif (vsf_sysutil_statbuf_is_regfile (st_mode st)) (vsf_sysutil_deactivate_noblock e new_file_fd))
     (bnd (gets is_anonymous) (\<lambda>anon.
      seq (onlyif (anon \<and> tb e ''chown_uploads'')
             (seq (vsf_sysutil_fchmod e new_file_fd (tu e ''chown_upload_mode''))
                  (if tb e ''one_process_model'' then vsf_privop_do_file_chown e new_file_fd
                   else vsf_two_process_chown_upload e new_file_fd)))
      (seq (onlyif (tb e ''lock_upload_files'') (bnd (call e (OnFd LockWrite new_file_fd)) (\<lambda>r. ret ())))
      (seq (onlyif do_truncate (seq (vsf_sysutil_ftruncate e new_file_fd) (vsf_sysutil_lseek_to e new_file_fd 0)))
      (if \<not> is_append \<and> offset \<noteq> 0 then vsf_sysutil_lseek_to e new_file_fd offset
       else onlyif is_append (vsf_sysutil_lseek_end e new_file_fd)))))))"

text \<open>The transfer itself; the result tells whether it succeeded.\<close>

definition upload_receive :: "env \<Rightarrow> int \<Rightarrow> string \<Rightarrow> bool act" where
  "upload_receive e new_file_fd mark =
     bnd (get_remote_transfer_fd e mark) (\<lambda>remote_fd.
     if vsf_sysutil_retval_is_error remote_fd then ret False
     else bnd (gets is_ascii) (\<lambda>ascii_mode.
     bnd (vsf_ftpdataio_transfer_file e remote_fd new_file_fd True (tb e ''ascii_upload_enable'' \<and> ascii_mode)) (\<lambda>tr.
     bnd (vsf_ftpdataio_dispose_transfer_fd e) (\<lambda>d.
     let r = (if d \<noteq> 1 \<and> tr_retval tr = 0 then -2 else tr_retval tr) in
     seq (modif (\<lambda>s. s\<lparr>transfer_size := transferred tr\<rparr>))
     (seq (onlyif (r = 0) (vsf_log_do_log e True))
     (bnd (gets abor_received) (\<lambda>abor.
      seq (if r = -1 then vsf_cmdio_write e FTP_BADSENDFILE ''Failure writing to local file.''
           else if r = -2 \<or> abor then vsf_cmdio_write e FTP_BADSENDNET ''Failure reading network stream.''
           else vsf_cmdio_write e FTP_TRANSFEROK ''Transfer complete.'')
      (seq (check_abor e) (ret (r = 0))))))))))"

definition handle_upload_common :: "env \<Rightarrow> bool \<Rightarrow> bool \<Rightarrow> unit act" where
  "handle_upload_common e is_append is_unique =
     bnd (gets restart_pos) (\<lambda>offset.
     seq (modif (\<lambda>s. s\<lparr>restart_pos := 0\<rparr>))
     (bnd (data_transfer_checks_ok e) (\<lambda>ok.
      if \<not> ok then ret ()
      else bnd (resolve_arg e) (\<lambda>arg.
      bnd (if is_unique then get_unique_filename e arg else ret arg) (\<lambda>p_filename.
      seq (start_log_file e kVSFLogEntryUpload arg)
      (bnd (check_file e p_filename) (\<lambda>ok.
       if \<not> ok then vsf_cmdio_write e FTP_NOPERM ''Permission denied.''
       else bnd (gets is_anonymous) (\<lambda>anon.
       let exclusive = is_unique \<or> (anon \<and> \<not> tb e ''anon_other_write_enable'') in
       bnd (if exclusive then str_create_exclusive e p_filename else str_create e p_filename) (\<lambda>new_file_fd.
       if vsf_sysutil_retval_is_error new_file_fd then vsf_cmdio_write e FTP_UPLOADFAIL ''Could not create file.''
       else seq (upload_prepare e new_file_fd is_append offset (\<not> exclusive \<and> \<not> is_append \<and> offset = 0))
       (bnd (upload_receive e new_file_fd (if is_unique then ''FILE: '' @ p_filename else ''Ok to send data.'')) (\<lambda>success.
        seq port_cleanup
        (seq (pasv_cleanup e)
        (seq (onlyif (tb e ''delete_failed_uploads'' \<and> \<not> success) (bnd (str_unlink e p_filename) (\<lambda>r. ret ())))
        (vsf_sysutil_close e new_file_fd))))))))))))))"

definition handle_stor :: "env \<Rightarrow> unit act" where
  "handle_stor e = handle_upload_common e False False"

definition handle_appe :: "env \<Rightarrow> unit act" where
  "handle_appe e = handle_upload_common e True False"

definition handle_stou :: "env \<Rightarrow> unit act" where
  "handle_stou e = handle_upload_common e False True"

section \<open>Changing the file system\<close>

definition handle_mkd :: "env \<Rightarrow> unit act" where
  "handle_mkd e =
     bnd (resolve_arg e) (\<lambda>arg.
     seq (start_log_file e kVSFLogEntryMkdir arg)
     (bnd (check_file e arg) (\<lambda>ok.
      if \<not> ok then vsf_cmdio_write e FTP_NOPERM ''Permission denied.''
      else bnd (str_mkdir e arg 511) (\<lambda>retval.
           if retval \<noteq> 0 then vsf_cmdio_write e FTP_FILEFAIL ''Create directory operation failed.''
           else seq (vsf_log_do_log e True)
           (bnd (prepend_path_to_filename e arg) (\<lambda>path.
            vsf_cmdio_write_str e FTP_MKDIROK ([QUOTE] @ double_quotes path @ [QUOTE] @ '' created'')))))))"

definition handle_rmd :: "env \<Rightarrow> unit act" where
  "handle_rmd e =
     bnd (resolve_arg e) (\<lambda>arg.
     seq (start_log_file e kVSFLogEntryRmdir arg)
     (bnd (check_file e arg) (\<lambda>ok.
      if \<not> ok then vsf_cmdio_write e FTP_NOPERM ''Permission denied.''
      else bnd (str_rmdir e arg) (\<lambda>retval.
           if retval \<noteq> 0 then vsf_cmdio_write e FTP_FILEFAIL ''Remove directory operation failed.''
           else seq (vsf_log_do_log e True)
                    (vsf_cmdio_write e FTP_RMDIROK ''Remove directory operation successful.'')))))"

definition handle_dele :: "env \<Rightarrow> unit act" where
  "handle_dele e =
     bnd (resolve_arg e) (\<lambda>arg.
     seq (start_log_file e kVSFLogEntryDelete arg)
     (bnd (check_file e arg) (\<lambda>ok.
      if \<not> ok then vsf_cmdio_write e FTP_NOPERM ''Permission denied.''
      else bnd (str_unlink e arg) (\<lambda>retval.
           if retval \<noteq> 0 then vsf_cmdio_write e FTP_FILEFAIL ''Delete operation failed.''
           else seq (vsf_log_do_log e True) (vsf_cmdio_write e FTP_DELEOK ''Delete operation successful.'')))))"

definition handle_rest :: "env \<Rightarrow> unit act" where
  "handle_rest e =
     bnd (gets ftp_arg_str) (\<lambda>arg.
     let v = vsf_sysutil_a_to_filesize_t arg; val = (if v < 0 then 0 else v) in
     seq (modif (\<lambda>s. s\<lparr>restart_pos := val\<rparr>))
     (vsf_cmdio_write_str e FTP_RESTOK
        (''Restart position accepted ('' @ vsf_sysutil_filesize_t_to_str val @ '').'')))"

definition handle_rnfr :: "env \<Rightarrow> unit act" where
  "handle_rnfr e =
     seq (modif (\<lambda>s. s\<lparr>rnfr_filename_str := []\<rparr>))
     (bnd (resolve_arg e) (\<lambda>arg.
      bnd (check_file e arg) (\<lambda>ok.
      if \<not> ok
      then seq (start_log_file e kVSFLogEntryRename arg) (vsf_cmdio_write e FTP_NOPERM ''Permission denied.'')
      else bnd (str_stat e arg) (\<lambda>st.
           if st \<noteq> None
           then seq (modif (\<lambda>s. s\<lparr>rnfr_filename_str := arg\<rparr>)) (vsf_cmdio_write e FTP_RNFROK ''Ready for RNTO.'')
           else seq (start_log_file e kVSFLogEntryRename arg)
                    (vsf_cmdio_write e FTP_FILEFAIL ''RNFR command failed.'')))))"

definition handle_rnto :: "env \<Rightarrow> unit act" where
  "handle_rnto e =
     bnd (gets rnfr_filename_str) (\<lambda>from.
     if from = [] then vsf_cmdio_write e FTP_NEEDRNFR ''RNFR required first.''
     else bnd (resolve_arg e) (\<lambda>arg.
     seq (start_log_file e kVSFLogEntryRename from)
     (bnd (prepend_path_to_filename e arg) (\<lambda>tmp.
      seq (modif (\<lambda>s. s\<lparr>log_str := log_str s @ '' '' @ tmp\<rparr>))
      (bnd (check_file e arg) (\<lambda>ok.
       if \<not> ok then vsf_cmdio_write e FTP_NOPERM ''Permission denied.''
       else bnd (str_rename e from arg) (\<lambda>retval.
            seq (modif (\<lambda>s. s\<lparr>rnfr_filename_str := []\<rparr>))
            (if retval = 0
             then seq (vsf_log_do_log e True) (vsf_cmdio_write e FTP_RENAMEOK ''Rename successful.'')
             else vsf_cmdio_write e FTP_FILEFAIL ''Rename failed.''))))))))"

section \<open>Queries\<close>

definition handle_size :: "env \<Rightarrow> unit act" where
  "handle_size e =
     bnd (resolve_arg e) (\<lambda>arg.
     bnd (check_file e arg) (\<lambda>ok.
     if \<not> ok then vsf_cmdio_write e FTP_NOPERM ''Permission denied.''
     else bnd (str_stat e arg) (\<lambda>st.
          case st of
            None \<Rightarrow> vsf_cmdio_write e FTP_FILEFAIL ''Could not get file size.''
          | Some i \<Rightarrow>
              if \<not> vsf_sysutil_statbuf_is_regfile (st_mode i)
              then vsf_cmdio_write e FTP_FILEFAIL ''Could not get file size.''
              else bnd (lift (vsf_sysutil_statbuf_get_size (st_size i))) (\<lambda>sz.
                   vsf_cmdio_write_str e FTP_SIZEOK (vsf_sysutil_filesize_t_to_str sz)))))"

text \<open>The broken-down time of \<open>YYYYMMDD\<close> or \<open>YYYYMMDDhhmmss\<close>, as \<open>mktime\<close> gets it.\<close>

definition field :: "string \<Rightarrow> nat \<Rightarrow> nat \<Rightarrow> int" where
  "field p_text pos n = vsf_sysutil_atoi (take n (drop pos p_text))"

definition vsf_sysutil_parse_time :: "env \<Rightarrow> string \<Rightarrow> int" where
  "vsf_sysutil_parse_time e p_text =
     (let t = c_str p_text in
      e_mktime e ((if length t \<ge> 8 then [field t 0 4 - 1900, field t 4 2 - 1, field t 6 2] else [0, 0, 0]) @
                  (if length t \<ge> 14 then [field t 8 2, field t 10 2, field t 12 2] else [0, 0, 0])))"

definition mdtm_is_set :: "env \<Rightarrow> string \<Rightarrow> bool \<Rightarrow> bool" where
  "mdtm_is_set e arg stat_ok =
     (let loc = str_locate_char arg CHR '' '' in
      tb e ''mdtm_write'' \<and> \<not> stat_ok \<and> found loc \<and> vsf_sysutil_isdigit (hd arg) \<and>
      (index loc = 8 \<or> index loc = 14 \<or> (index loc > 15 \<and> arg ! 14 = CHR ''.'')))"

definition handle_mdtm :: "env \<Rightarrow> unit act" where
  "handle_mdtm e =
     bnd (gets ftp_arg_str) (\<lambda>arg.
     bnd (str_stat e arg) (\<lambda>st.
     let do_write = mdtm_is_set e arg (st \<noteq> None); modtime = vsf_sysutil_parse_time e (fst (str_split_char arg CHR '' '')) in
     seq (onlyif do_write (modif (\<lambda>s. s\<lparr>ftp_arg_str := snd (str_split_char arg CHR '' '')\<rparr>)))
     (bnd (resolve_arg e) (\<lambda>arg.
      bnd (check_file e arg) (\<lambda>ok.
      bnd (gets is_anonymous) (\<lambda>anon.
      if \<not> ok then vsf_cmdio_write e FTP_NOPERM ''Permission denied.''
      else if do_write \<and> tb e ''write_enable'' \<and> (tb e ''anon_other_write_enable'' \<or> \<not> anon)
      then bnd (str_stat e arg) (\<lambda>st.
           if (case st of None \<Rightarrow> True | Some i \<Rightarrow> \<not> vsf_sysutil_statbuf_is_regfile (st_mode i))
           then vsf_cmdio_write e FTP_FILEFAIL ''Could not set file modification time.''
           else bnd (call e (Change (Setmodtime (c_str arg) modtime (tb e ''use_localtime'')))) (\<lambda>retval.
                if retval \<noteq> 0 then vsf_cmdio_write e FTP_FILEFAIL ''Could not set file modification time.''
                else vsf_cmdio_write e FTP_MDTMOK ''File modification time set.''))
      else case st of
             None \<Rightarrow> vsf_cmdio_write e FTP_FILEFAIL ''Could not get file modification time.''
           | Some i \<Rightarrow>
               if \<not> vsf_sysutil_statbuf_is_regfile (st_mode i)
               then vsf_cmdio_write e FTP_FILEFAIL ''Could not get file modification time.''
               else vsf_cmdio_write_str e FTP_MDTMOK (c_str (e_numeric_date e i (tb e ''use_localtime''))))))))) "

definition handle_type :: "env \<Rightarrow> unit act" where
  "handle_type e =
     bnd upper_arg (\<lambda>arg.
     if str_equal_text arg ''I'' \<or> str_equal_text arg ''L8'' \<or> str_equal_text arg ''L 8''
     then seq (modif (\<lambda>s. s\<lparr>is_ascii := False\<rparr>)) (vsf_cmdio_write e FTP_TYPEOK ''Switching to Binary mode.'')
     else if str_equal_text arg ''A'' \<or> str_equal_text arg ''A N''
     then seq (modif (\<lambda>s. s\<lparr>is_ascii := True\<rparr>)) (vsf_cmdio_write e FTP_TYPEOK ''Switching to ASCII mode.'')
     else vsf_cmdio_write e FTP_BADCMD ''Unrecognised TYPE command.'')"

end
