(* ===== verification/Dispatch.thy ===== *)
theory Dispatch
  imports Commands
begin

text \<open>\<^verbatim>\<open>postlogin.c\<close>, third part: \<^verbatim>\<open>SITE\<close>, status and help, the command loop, and the HTTP variant of a session.\<close>

section \<open>SITE\<close>

definition handle_site_chmod :: "env \<Rightarrow> string \<Rightarrow> unit act" where
  "handle_site_chmod e p_arg_str =
     (if p_arg_str = [] then vsf_cmdio_write e FTP_BADCMD ''SITE CHMOD needs 2 arguments.''
      else case str_split_char p_arg_str CHR '' '' of (perms_str, file0) \<Rightarrow>
      if file0 = [] then vsf_cmdio_write e FTP_BADCMD ''SITE CHMOD needs 2 arguments.''
      else bnd (resolve_tilde e file0) (\<lambda>s_chmod_file_str.
      seq (start_log_file e kVSFLogEntryChmod s_chmod_file_str)
      (seq (modif (\<lambda>s. s\<lparr>log_str := log_str s @ '' '' @ perms_str\<rparr>))
      (bnd (check_file e s_chmod_file_str) (\<lambda>ok.
       if \<not> ok then vsf_cmdio_write e FTP_NOPERM ''Permission denied.''
       else bnd (str_chmod e s_chmod_file_str (vsf_sysutil_octal_to_uint (c_str perms_str))) (\<lambda>retval.
            if vsf_sysutil_retval_is_error retval then vsf_cmdio_write e FTP_FILEFAIL ''SITE CHMOD command failed.''
            else seq (vsf_log_do_log e True) (vsf_cmdio_write e FTP_CHMODOK ''SITE CHMOD command ok.'')))))))"

definition set_umask :: "nat \<Rightarrow> unit act" where
  "set_umask new_umask =
     (let m = unat (vsf_sysutil_set_umask (of_nat new_umask)) in
      seq (modif (\<lambda>s. s\<lparr>s_current_umask := m\<rparr>)) (emit (Req (SetUmask m))))"

definition handle_site_umask :: "env \<Rightarrow> string \<Rightarrow> unit act" where
  "handle_site_umask e p_arg_str =
     (if p_arg_str = []
      then bnd (gets s_current_umask) (\<lambda>m.
           vsf_cmdio_write_str e FTP_UMASKOK (''Your current UMASK is '' @ vsf_sysutil_uint_to_octal m))
      else seq (set_umask (vsf_sysutil_octal_to_uint (c_str p_arg_str)))
           (bnd (gets s_current_umask) (\<lambda>m.
            vsf_cmdio_write_str e FTP_UMASKOK (''UMASK set to '' @ vsf_sysutil_uint_to_octal m))))"

definition handle_site_vers :: "env \<Rightarrow> string \<Rightarrow> unit act" where
  "handle_site_vers e p_arg_str =
     (if p_arg_str = [] then vsf_cmdio_write e FTP_BADCMD ''Which modpack?''
      else if found (str_locate_char p_arg_str CHR ''/'') then vsf_cmdio_write e FTP_BADCMD ''Illegal character.''
      else bnd (mcu_get_latest_version e p_arg_str) (\<lambda>(ok, version).
           if \<not> ok then vsf_cmdio_write e FTP_FILEFAIL ''Modpack not found.''
           else vsf_cmdio_write e FTP_VERSOK version))"

text \<open>
  Sending the instructions. The descriptor that \<open>get_remote_transfer_fd\<close> returns is not looked at. The result of the
  write is in a variable that nothing sets when the instructions are empty (\<open>None\<close>).
\<close>

definition uins_send :: "env \<Rightarrow> string \<Rightarrow> unit act" where
  "uins_send e instructions =
     bnd (get_remote_transfer_fd e ''Here comes the update instructions.'') (\<lambda>remote_fd.
     bnd (if instructions \<noteq> [] then bnd (ftp_write_str e kVSFRWData instructions) (\<lambda>r. ret (Some r)) else ret None)
       (\<lambda>trans_ret.
     bnd (vsf_ftpdataio_dispose_transfer_fd e) (\<lambda>d.
     bnd (if d \<noteq> 1 then ret True
          else case trans_ret of None \<Rightarrow> stop Undef | Some r \<Rightarrow> ret (r < 0)) (\<lambda>failed.
     if failed
     then seq (vsf_log_do_log e False) (vsf_cmdio_write e FTP_BADSENDNET ''Failure writing network stream.'')
     else seq (vsf_log_do_log e True) (vsf_cmdio_write e FTP_TRANSFEROK ''Instructions send OK.'')))))"

definition handle_site_uins :: "env \<Rightarrow> string \<Rightarrow> unit act" where
  "handle_site_uins e p_arg_str =
     (if p_arg_str = [] then vsf_cmdio_write e FTP_BADCMD ''SITE UINS needs 2 arguments.''
      else if found (str_locate_char p_arg_str CHR ''/'') then vsf_cmdio_write e FTP_BADCMD ''Illegal character.''
      else case str_split_char p_arg_str CHR '' '' of (modpack, version) \<Rightarrow>
      if version = [] then vsf_cmdio_write e FTP_BADCMD ''SITE UINS needs 2 arguments.''
      else bnd (data_transfer_checks_ok e) (\<lambda>ok.
      if \<not> ok then ret ()
      else seq (vsf_log_start_entry e kVSFLogEntryUpdate)
      (seq (modif (\<lambda>s. s\<lparr>log_str := ''Modpack: '' @ modpack @ '', Version: '' @ version\<rparr>))
      (bnd (mcu_create_update_instructions e modpack version) (\<lambda>(retval, instructions).
       if retval = 1 then seq (vsf_log_do_log e False) (vsf_cmdio_write e FTP_FILEFAIL ''Modpack not found.'')
       else if retval = 2 then seq (vsf_log_do_log e False) (vsf_cmdio_write e FTP_FILEFAIL ''Version not found.'')
       else if retval = -1 then seq (vsf_log_do_log e False) (vsf_cmdio_write e FTP_FILEFAIL ''Listfile error.'')
       else uins_send e instructions)))))"

definition handle_site :: "env \<Rightarrow> unit act" where
  "handle_site e =
     bnd (gets (\<lambda>s. str_split_char (ftp_arg_str s) CHR '' '')) (\<lambda>(sub0, args).
     let sub = str_upper sub0 in
     seq (modif (\<lambda>s. s\<lparr>ftp_arg_str := sub\<rparr>))
     (if tb e ''write_enable'' \<and> tb e ''chmod_enable'' \<and> str_equal_text sub ''CHMOD'' then handle_site_chmod e args
      else if str_equal_text sub ''UMASK'' then handle_site_umask e args
      else if str_equal_text sub ''VERS'' then handle_site_vers e args
      else if str_equal_text sub ''UINS'' then handle_site_uins e args
      else if str_equal_text sub ''HELP''
      then (if tb e ''write_enable'' \<and> tb e ''chmod_enable''
            then vsf_cmdio_write e FTP_SITEHELP ''CHMOD UMASK VERS UINS HELP''
            else vsf_cmdio_write e FTP_SITEHELP ''UMASK VERS UINS HELP'')
      else vsf_cmdio_write e FTP_BADCMD ''Unknown SITE command.''))"

section \<open>Status and help\<close>

primrec write_raws :: "env \<Rightarrow> string list \<Rightarrow> unit act" where
  "write_raws e [] = ret ()"
| "write_raws e (l # ls) = seq (vsf_cmdio_write_raw e l) (write_raws e ls)"

definition handle_help :: "env \<Rightarrow> unit act" where
  "handle_help e =
     seq (vsf_cmdio_write_hyphen e FTP_HELP ''The following commands are recognized.'')
     (seq (write_raws e
        [crlf '' ABOR ACCT ALLO APPE CDUP CWD  DELE EPRT EPSV FEAT HELP LIST MDTM MKD'',
         crlf '' MODE NLST NOOP OPTS PASS PASV PORT PWD  QUIT REIN REST RETR RMD  RNFR'',
         crlf '' RNTO SITE SIZE SMNT STAT STOR STOU STRU SYST TYPE USER XCUP XCWD XMKD'',
         crlf '' XPWD XRMD''])
     (vsf_cmdio_write e FTP_HELP ''Help OK.''))"

definition stat_lines :: "env \<Rightarrow> vsf_session \<Rightarrow> string list" where
  "stat_lines e s =
     [''     Connected to '', remote_ip_str s, crlf [], ''     Logged in as '', user_str s, crlf [], ''     TYPE: '',
      (if is_ascii s then crlf ''ASCII'' else crlf ''BINARY'')] @
     (if bw_rate_max s = 0 then [crlf ''     No session bandwidth limit'']
      else [''     Session bandwidth limit in byte/s is '', vsf_sysutil_ulong_to_str (bw_rate_max s), crlf []]) @
     (if tu e ''idle_session_timeout'' = 0 then [crlf ''     No session timeout'']
      else [''     Session timeout in seconds is '', vsf_sysutil_ulong_to_str (tu e ''idle_session_timeout''), crlf []]) @
     [(if control_use_ssl s then crlf ''     Control connection is encrypted''
       else crlf ''     Control connection is plain text''),
      (if data_use_ssl s then crlf ''     Data connections will be encrypted''
       else crlf ''     Data connections will be plain text'')] @
     (if num_clients s > 0
      then [''     At session startup, client count was '', vsf_sysutil_ulong_to_str (num_clients s), crlf []] else []) @
     [crlf ''     vsFTPd 2.3.5 - secure, fast, stable'']"

definition handle_stat :: "env \<Rightarrow> unit act" where
  "handle_stat e =
     seq (vsf_cmdio_write_hyphen e FTP_STATOK ''FTP server status:'')
     (bnd (gets (stat_lines e)) (\<lambda>ls. seq (write_raws e ls) (vsf_cmdio_write e FTP_STATOK ''End of status'')))"

definition handle_logged_in_user :: "env \<Rightarrow> unit act" where
  "handle_logged_in_user e =
     bnd (gets (\<lambda>s. (is_anonymous s, str_equal (user_str s) (ftp_arg_str s)))) (\<lambda>(anon, same).
     if anon then vsf_cmdio_write e FTP_LOGINERR ''Can't change from guest user.''
     else if same then vsf_cmdio_write e FTP_GIVEPWORD ''Any password will do.''
     else vsf_cmdio_write e FTP_LOGINERR ''Can't change to another user.'')"

definition handle_logged_in_pass :: "env \<Rightarrow> unit act" where
  "handle_logged_in_pass e = vsf_cmdio_write e FTP_LOGINOK ''Already logged in.''"

text \<open>The handler of urgent data, run between two steps of a transfer.\<close>

definition handle_sigurg :: "env \<Rightarrow> unit act" where
  "handle_sigurg e =
     bnd (gets data_fd) (\<lambda>fd.
     if fd = -1 then ret ()
     else bnd (vsf_cmdio_get_cmd_and_arg e False) (\<lambda>(async_cmd, async_arg).
          if str_equal_text (if length async_cmd \<ge> 4 then drop 4 async_cmd else []) ''ABOR''
          then seq (modif (\<lambda>s. s\<lparr>abor_received := True\<rparr>)) (emit (Req (OnFd Shutdown fd)))
          else vsf_cmdio_write e FTP_BADCMD ''Unknown command.''))"

section \<open>The command loop\<close>

text \<open>The lists of allowed and denied commands: separated by commas, ended by an empty element.\<close>

lemma split_rest_shorter: "str_split_char src c = (l, r) \<Longrightarrow> l \<noteq> [] \<Longrightarrow> length r < length src"
  using split_char_length [of src c l r] by (cases l) auto

function cmd_in_list :: "string \<Rightarrow> string \<Rightarrow> bool" where
  "cmd_in_list src cmd =
     (case str_split_char src CHR '','' of (l, r) \<Rightarrow>
      if l = [] then False else if str_equal l cmd then True else cmd_in_list r cmd)"
  by pat_completeness auto
termination
  by (relation "measure (\<lambda>(src, cmd). length src)") (auto dest: sym intro: split_rest_shorter)

declare cmd_in_list.simps [simp del]

definition cmd_allowed :: "env \<Rightarrow> string \<Rightarrow> bool" where
  "cmd_allowed e cmd \<longleftrightarrow>
     (case ts e ''cmds_allowed'' of None \<Rightarrow> True | Some l \<Rightarrow> cmd_in_list (c_str l) cmd) \<and>
     (case ts e ''cmds_denied'' of None \<Rightarrow> True | Some l \<Rightarrow> \<not> cmd_in_list (c_str l) cmd)"

definition async_abor :: string where
  "async_abor = [CHR 0xFF, CHR 0xF4, CHR 0xFF, CHR 0xF2] @ ''ABOR''"

text \<open>The commands that exist but did not pass the guards before.\<close>

definition known_commands :: "string list" where
  "known_commands =
     [''PASV'', ''PORT'', ''STOR'', ''MKD'', ''XMKD'', ''RMD'', ''XRMD'', ''DELE'', ''RNFR'', ''RNTO'', ''SITE'', ''APPE'',
      ''EPSV'', ''EPRT'', ''RETR'', ''LIST'', ''NLST'', ''STOU'', ''ALLO'', ''REIN'', ''ACCT'', ''SMNT'', ''FEAT'', ''OPTS'',
      ''STAT'', ''PBSZ'', ''PROT'']"

text \<open>
  The dispatch of one command: \<open>anon\<close> is \<open>p_sess->is_anonymous\<close>, \<open>all\<close> is \<open>p_sess->epsv_all\<close>, \<open>is x\<close> compares the
  command with the text \<open>x\<close>.
\<close>

definition dispatch :: "env \<Rightarrow> bool \<Rightarrow> bool \<Rightarrow> string \<Rightarrow> string \<Rightarrow> unit act" where
  "dispatch e anon epsv_only cmd arg =
     (let is = str_equal_text cmd; write = tb e ''write_enable''; upload = tb e ''anon_upload_enable'' \<or> \<not> anon;
          mkdir = tb e ''anon_mkdir_write_enable'' \<or> \<not> anon; other = tb e ''anon_other_write_enable'' \<or> \<not> anon in
      if \<not> cmd_allowed e cmd then vsf_cmdio_write e FTP_NOPERM ''Permission denied.''
      else if is ''QUIT'' then vsf_cmdio_write_exit e FTP_GOODBYE ''Goodbye.''
      else if is ''PWD'' \<or> is ''XPWD'' then handle_pwd e
      else if is ''CWD'' \<or> is ''XCWD'' then handle_cwd e
      else if is ''CDUP'' \<or> is ''XCUP'' then handle_cdup e
      else if tb e ''pasv_enable'' \<and> \<not> epsv_only \<and> (is ''PASV'' \<or> is ''P@SW'') then handle_pasv e False
      else if tb e ''pasv_enable'' \<and> is ''EPSV'' then handle_pasv e True
      else if tb e ''download_enable'' \<and> is ''RETR'' then handle_retr e False
      else if is ''NOOP'' then vsf_cmdio_write e FTP_NOOPOK ''NOOP ok.''
      else if is ''SYST'' then vsf_cmdio_write e FTP_SYSTOK ''UNIX Type: L8''
      else if is ''HELP'' then handle_help e
      else if tb e ''dirlist_enable'' \<and> is ''LIST'' then handle_list e
      else if is ''TYPE'' then handle_type e
      else if tb e ''port_enable'' \<and> \<not> epsv_only \<and> is ''PORT'' then handle_port e
      else if write \<and> upload \<and> is ''STOR'' then handle_stor e
      else if write \<and> mkdir \<and> (is ''MKD'' \<or> is ''XMKD'') then handle_mkd e
      else if write \<and> other \<and> (is ''RMD'' \<or> is ''XRMD'') then handle_rmd e
      else if write \<and> other \<and> is ''DELE'' then handle_dele e
      else if is ''REST'' then handle_rest e
      else if write \<and> other \<and> is ''RNFR'' then handle_rnfr e
      else if write \<and> other \<and> is ''RNTO'' then handle_rnto e
      else if tb e ''dirlist_enable'' \<and> is ''NLST'' then handle_nlst e
      else if is ''SIZE'' then handle_size e
      else if \<not> anon \<and> is ''SITE'' then handle_site e
      else if is ''ABOR'' \<or> is async_abor then vsf_cmdio_write e FTP_ABOR_NOCONN ''No transfer to ABOR.''
      else if write \<and> other \<and> is ''APPE'' then handle_appe e
      else if is ''MDTM'' then handle_mdtm e
      else if tb e ''port_enable'' \<and> is ''EPRT'' then handle_eprt e
      else if is ''STRU''
      then bnd upper_arg (\<lambda>a. if str_equal_text a ''F'' then vsf_cmdio_write e FTP_STRUOK ''Structure set to F.''
                               else vsf_cmdio_write e FTP_BADSTRU ''Bad STRU command.'')
      else if is ''MODE''
      then bnd upper_arg (\<lambda>a. if str_equal_text a ''S'' then vsf_cmdio_write e FTP_MODEOK ''Mode set to S.''
                               else vsf_cmdio_write e FTP_BADMODE ''Bad MODE command.'')
      else if write \<and> upload \<and> is ''STOU'' then handle_stou e
      else if is ''ALLO'' then vsf_cmdio_write e FTP_ALLOOK ''ALLO command ignored.''
      else if is ''REIN'' then vsf_cmdio_write e FTP_COMMANDNOTIMPL ''REIN not implemented.''
      else if is ''ACCT'' then vsf_cmdio_write e FTP_COMMANDNOTIMPL ''ACCT not implemented.''
      else if is ''SMNT'' then vsf_cmdio_write e FTP_COMMANDNOTIMPL ''SMNT not implemented.''
      else if is ''FEAT'' then handle_feat e
      else if is ''OPTS'' then handle_opts e
      else if is ''STAT'' \<and> arg = [] then handle_stat e
      else if tb e ''dirlist_enable'' \<and> is ''STAT'' then handle_stat_file e
      else if tb e ''ssl_enable'' \<and> is ''PBSZ'' then handle_pbsz e
      else if tb e ''ssl_enable'' \<and> is ''PROT'' then handle_prot e
      else if is ''USER'' then handle_logged_in_user e
      else if is ''PASS'' then handle_logged_in_pass e
      else if list_ex is known_commands then vsf_cmdio_write e FTP_NOPERM ''Permission denied.''
      else if cmd = [] \<and> arg = [] then ret ()
      else vsf_cmdio_write e FTP_BADCMD ''Unknown command.'')"

text \<open>One turn of the loop of \<open>process_post_login\<close>.\<close>

definition post_login_step :: "env \<Rightarrow> unit act" where
  "post_login_step e =
     seq (get_session_cmd e)
     (bnd (gets (\<lambda>s. (is_anonymous s, epsv_all s, ftp_cmd_str s, ftp_arg_str s))) (\<lambda>(anon, epsv_only, cmd, arg).
      seq (dispatch e anon epsv_only cmd arg)
      (bnd (gets vsf_log_entry_pending) (\<lambda>pending. onlyif pending (vsf_log_do_log e False)))))"

text \<open>The loop has no exit of its own. \<open>turns\<close> bounds it here; returning means that the bound was reached.\<close>

primrec post_login_loop :: "nat \<Rightarrow> env \<Rightarrow> unit act" where
  "post_login_loop 0 e = ret ()"
| "post_login_loop (Suc turns) e = seq (post_login_step e) (post_login_loop turns e)"

section \<open>HTTP\<close>

primrec http_headers :: "nat \<Rightarrow> env \<Rightarrow> unit act" where
  "http_headers 0 e = stop Undef"
| "http_headers (Suc n) e =
     seq (get_session_cmd e)
     (bnd (gets (\<lambda>s. ftp_cmd_str s = [] \<and> ftp_arg_str s = [])) (\<lambda>eoh. if eoh then ret () else http_headers n e))"

definition handle_http :: "env \<Rightarrow> unit act" where
  "handle_http e =
     (if \<not> tb e ''download_enable'' then lift (bug ''HTTP needs download - fix your config'')
      else bnd (gets (\<lambda>s. length (control_in s))) (\<lambda>n.
      seq (http_headers (Suc n) e)
      (seq (write_raws e [crlf ''HTTP/1.1 200 OK'', crlf ''Server: vsftpd'', crlf ''Connection: close'',
              crlf ''X-Frame-Options: SAMEORIGIN'', crlf ''X-Content-Type-Options: nosniff''])
      (seq (modif (\<lambda>s. case str_split_char (http_get_arg s) CHR '' '' of (path, rest) \<Rightarrow>
                     case str_split_char path CHR ''.'' of (name, ext) \<Rightarrow>
                     s\<lparr>ftp_arg_str := path, http_get_arg := name, ftp_cmd_str := str_upper ext\<rparr>))
      (bnd (gets ftp_cmd_str) (\<lambda>ext.
       seq (write_raws e [if str_equal_text ext ''HTML'' \<or> str_equal_text ext ''HTM'' then crlf ''Content-Type: text/html''
                          else crlf ''Content-Type: dunno'', crlf []])
       (seq (modif (\<lambda>s. s\<lparr>is_ascii := False, restart_pos := 0\<rparr>))
       (seq (handle_retr e True)
       (bnd (gets vsf_log_entry_pending) (\<lambda>pending.
        seq (onlyif pending (vsf_log_do_log e False)) (sysutil_exit 0)))))))))))"

definition process_post_login :: "nat \<Rightarrow> env \<Rightarrow> unit act" where
  "process_post_login turns e =
     bnd (str_getcwd e) (\<lambda>cwd.
     seq (modif (\<lambda>s. s\<lparr>home_str := cwd\<rparr>))
     (bnd (gets (\<lambda>s. (is_anonymous s, is_http s))) (\<lambda>(anon, http).
      seq (set_umask (if anon then tu e ''anon_umask'' else tu e ''local_umask''))
      (seq (modif (\<lambda>s. s\<lparr>bw_rate_max := if anon then tu e ''anon_max_rate'' else tu e ''local_max_rate''\<rparr>))
      (if http then seq (handle_http e) (lift (bug ''should not be reached''))
       else seq (vsf_banner_dir_changed e FTP_LOGINOK)
            (seq (vsf_cmdio_write e FTP_LOGINOK ''Login successful.'')
                 (post_login_loop turns e)))))))"

section \<open>Command lists\<close>

text \<open>Reference: the elements of a list separated by commas, a comma at the very end adding none.\<close>

fun comma_items :: "string \<Rightarrow> string list" where
  "comma_items [] = []"
| "comma_items (c # cs) =
     (if c = CHR '','' then [] # comma_items cs
      else case comma_items cs of [] \<Rightarrow> [[c]] | i # is \<Rightarrow> if cs \<noteq> [] \<and> hd cs = CHR '','' then [c] # is else (c # i) # is)"

lemma comma_items_step:
  "src \<noteq> [] \<Longrightarrow> comma_items src = takeWhile (\<lambda>c. c \<noteq> CHR '','') src # comma_items (tl (dropWhile (\<lambda>c. c \<noteq> CHR '','') src))"
proof (induction src)
  case (Cons c cs)
  then show ?case by (cases cs) auto
qed simp

text \<open>
  A command is in a configured list exactly when it is one of the elements before the first empty one; the search
  ends on every list.
\<close>

theorem cmd_in_list_items:
  assumes "short_str src" and "short_str cmd"
  shows "cmd_in_list src cmd \<longleftrightarrow> cmd \<in> set (takeWhile (\<lambda>i. i \<noteq> []) (comma_items src))"
  using assms
proof (induction src cmd rule: cmd_in_list.induct)
  case (1 src cmd')
  let ?l = "takeWhile (\<lambda>c. c \<noteq> CHR '','') src" and ?r = "tl (dropWhile (\<lambda>c. c \<noteq> CHR '','') src)"
  have sp: "str_split_char src CHR '','' = (?l, ?r)" by (simp add: str_split_char_eq)
  have len: "length ?l + length ?r \<le> length src" using split_char_length [OF sp] .
  have sh: "short_str ?l" "short_str ?r" using 1(2) len by (auto simp: short_str_def)
  show ?case
  proof (cases "?l = []")
    case True
    then have "\<not> cmd_in_list src cmd'" by (simp add: cmd_in_list.simps [of src] sp)
    with True show ?thesis by (cases "src = []") (simp_all add: comma_items_step)
  next
    case False
    then have ne: "src \<noteq> []" by auto
    have eq: "str_equal ?l cmd' \<longleftrightarrow> ?l = cmd'" using str_equal_iff [OF sh(1) 1(3)] .
    have "\<not> str_equal ?l cmd' \<Longrightarrow> cmd_in_list ?r cmd' \<longleftrightarrow> cmd' \<in> set (takeWhile (\<lambda>i. i \<noteq> []) (comma_items ?r))"
      using 1(1) [OF sp [symmetric] False] sh(2) 1(3) by blast
    then show ?thesis using False eq
      by (simp add: cmd_in_list.simps [of src] sp comma_items_step [OF ne])
  qed
qed

lemma cmd_in_list_items_witness:
  "cmd_in_list ''RETR,LIST,,STOR'' ''LIST'' \<and> \<not> cmd_in_list ''RETR,LIST,,STOR'' ''STOR''"
  using cmd_in_list_items [of "''RETR,LIST,,STOR''" "''LIST''"] cmd_in_list_items [of "''RETR,LIST,,STOR''" "''STOR''"]
  by (simp add: short_str_def INT_MAX_def)

end
