(* ===== verification/Prelogin.thy ===== *)
theory Prelogin
  imports Privops
begin

text \<open>
  \<^verbatim>\<open>prelogin.c\<close>: a connection before login, with the login operations of \<^verbatim>\<open>privops.c\<close> and the client side of a login
  in \<^verbatim>\<open>oneprocess.c\<close> and \<^verbatim>\<open>twoprocess.c\<close>. Checking a password (\<open>vsf_sysdep_check_auth\<close>: PAM or the shadow file)
  is a request.
\<close>

section \<open>Checking a login\<close>

datatype EVSFPrivopLoginResult = kVSFLoginNull | kVSFLoginFail | kVSFLoginAnon | kVSFLoginReal

definition setup_username_globals :: "string \<Rightarrow> unit act" where
  "setup_username_globals p_str = modif (\<lambda>s. s\<lparr>user_str := p_str\<rparr>)"

definition handle_anonymous_login :: "env \<Rightarrow> string \<Rightarrow> EVSFPrivopLoginResult act" where
  "handle_anonymous_login e p_pass_str =
     bnd (gets (\<lambda>s. (banned_email_str s, email_passwords_str s))) (\<lambda>(banned, passwords).
     if banned \<noteq> [] \<and> str_contains_line banned p_pass_str then ret kVSFLoginFail
     else if passwords \<noteq> [] \<and> (\<not> str_contains_line passwords p_pass_str \<or> p_pass_str = []) then ret kVSFLoginFail
     else seq (modif (\<lambda>s. s\<lparr>anon_pass_str :=
            str_replace_char (str_replace_char (if p_pass_str = [] then ''?'' else p_pass_str) CHR '' '' CHR ''_'')
              LF CHR ''?''\<rparr>))
     (bnd (case ts e ''ftp_username'' of None \<Rightarrow> stop Undef | Some n \<Rightarrow> ret (c_str n)) (\<lambda>name.
      seq (setup_username_globals name)
      (seq (modif (\<lambda>s. s\<lparr>banned_email_str := [], email_passwords_str := []\<rparr>)) (ret kVSFLoginAnon)))))"

text \<open>
  The authentication may change the name in place (PAM does); \<open>auth_name\<close> is what it leaves. The callers pass the session's own
  \<open>user_str\<close>, so that the session has the new name even if the login fails later.
\<close>

definition auth_name :: "env \<Rightarrow> trace_t \<Rightarrow> string \<Rightarrow> string \<Rightarrow> string" where
  "auth_name e tr user pass = (case e_text e tr (CheckAuth user pass) of None \<Rightarrow> user | Some n \<Rightarrow> c_str n)"

definition handle_local_login :: "env \<Rightarrow> string \<Rightarrow> string \<Rightarrow> EVSFPrivopLoginResult act" where
  "handle_local_login e p_user_str p_pass_str =
     bnd (gets (\<lambda>s. auth_name e (trace s) p_user_str p_pass_str)) (\<lambda>name.
     bnd (call e (CheckAuth p_user_str p_pass_str)) (\<lambda>r.
     seq (modif (\<lambda>s. s\<lparr>user_str := name\<rparr>))
     (if r = 0 then ret kVSFLoginFail
      else seq (setup_username_globals name) (ret kVSFLoginReal))))"

definition username_ok :: "string \<Rightarrow> bool" where
  "username_ok u \<longleftrightarrow>
     u \<noteq> [] \<and> length u \<le> 128 \<and>
     (vsf_sysutil_isalnum (hd u) \<or> hd u = CHR ''_'' \<or> hd u = CHR ''.'') \<and>
     \<not> str_contains_space u \<and> \<not> str_contains_unprintable u"

definition names_anonymous :: "string \<Rightarrow> bool" where
  "names_anonymous u \<longleftrightarrow> str_equal_text (str_upper u) ''FTP'' \<or> str_equal_text (str_upper u) ''ANONYMOUS''"

definition handle_login :: "env \<Rightarrow> string \<Rightarrow> string \<Rightarrow> EVSFPrivopLoginResult act" where
  "handle_login e p_user_str p_pass_str =
     (if \<not> username_ok p_user_str \<or> length p_pass_str > 128 then ret kVSFLoginFail
      else if tb e ''anonymous_enable'' \<and> names_anonymous p_user_str then handle_anonymous_login e p_pass_str
      else if \<not> tb e ''local_enable'' then lift (die ''unexpected local login in handle_login'')
      else handle_local_login e p_user_str p_pass_str)"

definition vsf_privop_do_login :: "env \<Rightarrow> string \<Rightarrow> EVSFPrivopLoginResult act" where
  "vsf_privop_do_login e p_pass_str =
     bnd (gets user_str) (\<lambda>user.
     bnd (handle_login e user p_pass_str) (\<lambda>result.
     seq (vsf_log_start_entry e kVSFLogEntryLogin)
     (seq (vsf_log_do_log e (result \<noteq> kVSFLoginFail))
     (seq (let delay = (if result = kVSFLoginFail then tu e ''delay_failed_login'' else tu e ''delay_successful_login'')
           in onlyif (delay > 0) (emit (Req (Sleep delay))))
     (ret result)))))"

section \<open>Before login\<close>

definition check_login_delay :: "env \<Rightarrow> unit act" where
  "check_login_delay e = onlyif (tu e ''delay_failed_login'' > 0) (emit (Req (Sleep (tu e ''delay_failed_login''))))"

definition check_login_fails :: "env \<Rightarrow> unit act" where
  "check_login_fails e =
     seq (modif (\<lambda>s. s\<lparr>login_fails := u32 (login_fails s + 1)\<rparr>))
     (bnd (gets login_fails) (\<lambda>n. onlyif (n \<ge> tu e ''max_login_fails'') (sysutil_exit 0)))"

text \<open>
  A successful login ends this process's part (\<open>Exit 0\<close>): with one process \<open>process_post_login\<close> takes over, given
  as \<open>post\<close>, which never returns (\<open>session_ends\<close> in the theory of the whole session); with two, the parent starts the session process. In the parent the login works on its own copy of the
  session, of which only the events and the verdict are seen here.
\<close>

definition in_parent :: "'a act \<Rightarrow> 'a act" where
  "in_parent m s = (case m s of Ret a s' \<Rightarrow> Ret a (s\<lparr>trace := trace s'\<rparr>) | Stop h s' \<Rightarrow> Stop h s')"

definition vsf_one_process_login :: "env \<Rightarrow> unit act \<Rightarrow> string \<Rightarrow> unit act" where
  "vsf_one_process_login e post p_pass_str =
     bnd (vsf_privop_do_login e p_pass_str) (\<lambda>result.
     if result = kVSFLoginFail then ret ()
     else if result = kVSFLoginAnon then seq (modif (\<lambda>s. s\<lparr>is_anonymous := True\<rparr>)) post
     else lift (bug ''bad state in vsf_one_process_login''))"

definition vsf_two_process_login :: "env \<Rightarrow> string \<Rightarrow> unit act" where
  "vsf_two_process_login e p_pass_str =
     bnd (in_parent (vsf_privop_do_login e p_pass_str)) (\<lambda>result.
     if result = kVSFLoginFail then ret () else sysutil_exit 0)"

definition handle_pass_command :: "env \<Rightarrow> unit act \<Rightarrow> unit act" where
  "handle_pass_command e post =
     bnd (gets (\<lambda>s. (user_str s, ftp_arg_str s))) (\<lambda>(user, pass).
     if user = [] then vsf_cmdio_write e FTP_NEEDUSER ''Login with USER first.''
     else seq (if tb e ''one_process_model'' then vsf_one_process_login e post pass else vsf_two_process_login e pass)
     (seq (vsf_cmdio_write e FTP_LOGINERR ''Login incorrect.'')
     (seq (check_login_fails e) (modif (\<lambda>s. s\<lparr>user_str := []\<rparr>)))))"

definition user_refused :: "env \<Rightarrow> unit act" where
  "user_refused e = modif (\<lambda>s. s\<lparr>user_str := []\<rparr>)"

definition handle_user_command :: "env \<Rightarrow> unit act \<Rightarrow> unit act" where
  "handle_user_command e post =
     bnd (gets ftp_arg_str) (\<lambda>user.
     let is_anon = names_anonymous user in
     seq (modif (\<lambda>s. s\<lparr>user_str := user, ftp_arg_str := str_upper user\<rparr>))
     (bnd (gets (\<lambda>s. (control_use_ssl s, userlist_str s))) (\<lambda>(ssl, userlist).
      if \<not> tb e ''local_enable'' \<and> \<not> is_anon
      then seq (vsf_cmdio_write e FTP_LOGINERR ''This FTP server is anonymous only.'') (user_refused e)
      else if is_anon \<and> ssl \<and> \<not> tb e ''allow_anon_ssl'' \<and> \<not> tb e ''force_anon_logins_ssl''
      then seq (vsf_cmdio_write e FTP_LOGINERR ''Anonymous sessions may not use encryption.'') (user_refused e)
      else if tb e ''ssl_enable'' \<and> \<not> is_anon \<and> \<not> ssl \<and> tb e ''force_local_logins_ssl''
      then seq (vsf_cmdio_write e FTP_LOGINERR ''Non-anonymous sessions must use encryption.'') (sysutil_exit 0)
      else if tb e ''ssl_enable'' \<and> is_anon \<and> \<not> ssl \<and> tb e ''force_anon_logins_ssl''
      then seq (vsf_cmdio_write e FTP_LOGINERR ''Anonymous sessions must use encryption.'') (sysutil_exit 0)
      else let located = str_contains_line userlist user in
      if tb e ''userlist_enable'' \<and> ((located \<and> tb e ''userlist_deny'') \<or> (\<not> located \<and> \<not> tb e ''userlist_deny''))
      then seq (check_login_delay e)
           (seq (vsf_cmdio_write e FTP_LOGINERR ''Permission denied.'')
           (seq (check_login_fails e) (user_refused e)))
      else if is_anon \<and> tb e ''no_anon_password''
      then seq (modif (\<lambda>s. s\<lparr>ftp_arg_str := ''<no password>''\<rparr>)) (handle_pass_command e post)
      else vsf_cmdio_write e FTP_GIVEPWORD ''Please specify the password.'')))"

definition handle_get :: "env \<Rightarrow> unit act \<Rightarrow> unit act" where
  "handle_get e post =
     seq (modif (\<lambda>s. s\<lparr>is_http := True, http_get_arg := ftp_arg_str s, user_str := ''FTP'', ftp_arg_str := ''<http>''\<rparr>))
     (handle_pass_command e post)"

definition check_limits :: "env \<Rightarrow> unit act" where
  "check_limits e =
     bnd (gets (\<lambda>s. (num_clients s, num_this_ip s, tcp_wrapper_ok s))) (\<lambda>(clients, this_ip, wrapper_ok).
     if tu e ''max_clients'' > 0 \<and> clients > tu e ''max_clients''
     then seq (vsf_log_line e kVSFLogEntryConnection ''Connection refused: too many sessions.'')
              (vsf_cmdio_write_exit e FTP_TOO_MANY_USERS ''There are too many connected users, please try later.'')
     else if tu e ''max_per_ip'' > 0 \<and> this_ip > tu e ''max_per_ip''
     then seq (vsf_log_line e kVSFLogEntryConnection ''Connection refused: too many sessions for this address.'')
              (vsf_cmdio_write_exit e FTP_IP_LIMIT ''There are too many connections from your internet address.'')
     else if \<not> wrapper_ok
     then seq (vsf_log_line e kVSFLogEntryConnection ''Connection refused: tcp_wrappers denial.'')
              (vsf_cmdio_write_exit e FTP_IP_DENY ''Service not available.'')
     else vsf_log_line e kVSFLogEntryConnection [])"

definition emit_greeting :: "env \<Rightarrow> unit act" where
  "emit_greeting e =
     bnd (gets banner_str) (\<lambda>banner.
     if banner \<noteq> []
     then seq (vsf_banner_write e banner FTP_GREET)
          (seq (modif (\<lambda>s. s\<lparr>banner_str := []\<rparr>)) (vsf_cmdio_write e FTP_GREET []))
     else case ts e ''ftpd_banner'' of
            None \<Rightarrow> vsf_cmdio_write e FTP_GREET ''(vsFTPd 2.3.5)''
          | Some t \<Rightarrow> vsf_cmdio_write e FTP_GREET t)"

text \<open>One turn of the loop of \<open>parse_username_password\<close>.\<close>

definition prelogin_step :: "env \<Rightarrow> unit act \<Rightarrow> unit act" where
  "prelogin_step e post =
     seq (get_session_cmd e)
     (bnd (gets (\<lambda>s. (ftp_cmd_str s, ftp_arg_str s, control_use_ssl s))) (\<lambda>(cmd, arg, ssl).
      if tb e ''ftp_enable''
      then (if str_equal_text cmd ''USER'' then handle_user_command e post
            else if str_equal_text cmd ''PASS'' then handle_pass_command e post
            else if str_equal_text cmd ''QUIT'' then vsf_cmdio_write_exit e FTP_GOODBYE ''Goodbye.''
            else if str_equal_text cmd ''FEAT'' then handle_feat e
            else if str_equal_text cmd ''OPTS'' then handle_opts e
            else if tb e ''ssl_enable'' \<and> str_equal_text cmd ''AUTH'' \<and> \<not> ssl then handle_auth e
            else if tb e ''ssl_enable'' \<and> str_equal_text cmd ''PBSZ'' then handle_pbsz e
            else if tb e ''ssl_enable'' \<and> str_equal_text cmd ''PROT'' then handle_prot e
            else if cmd = [] \<and> arg = [] then ret ()
            else vsf_cmdio_write e FTP_LOGINERR ''Please login with USER and PASS.'')
      else onlyif (tb e ''http_enable'')
             (seq (if str_equal_text cmd ''GET'' then handle_get e post
                   else vsf_cmdio_write e FTP_LOGINERR ''Bad HTTP verb.'')
                  (sysutil_exit 0))))"

text \<open>The loop has no exit of its own; returning means that the bound \<open>turns\<close> was reached.\<close>

primrec parse_username_password :: "nat \<Rightarrow> env \<Rightarrow> unit act \<Rightarrow> unit act" where
  "parse_username_password 0 e post = ret ()"
| "parse_username_password (Suc turns) e post = seq (prelogin_step e post) (parse_username_password turns e post)"

definition init_connection :: "nat \<Rightarrow> env \<Rightarrow> unit act \<Rightarrow> unit act" where
  "init_connection turns e post =
     seq (vsf_cmdio_set_alarm e)
     (seq (check_limits e)
     (seq (onlyif (tb e ''ssl_enable'' \<and> tb e ''implicit_ssl'') (ssl_control_handshake e))
     (seq (onlyif (tb e ''ftp_enable'') (emit_greeting e))
     (parse_username_password turns e post))))"

section \<open>Who gets in\<close>

text \<open>
  C10: a login is granted only on the grounds the configuration names. An anonymous session needs \<open>anonymous_enable\<close>, one
  of the two anonymous names and a password that the e-mail lists do not forbid, and asks nobody; a local session needs
  \<open>local_enable\<close> and a positive answer of the authentication to exactly this name and password, and then has the name that the
  authentication gave; a refusal leaves the session's user name alone, unless it came from the authentication. Nobody gets
  in with a malformed name.
\<close>

theorem login_sound:
  "case handle_login e user pass s of
     Ret kVSFLoginAnon s' \<Rightarrow>
       username_ok user \<and> tb e ''anonymous_enable'' \<and> names_anonymous user \<and> trace s' = trace s \<and>
       (if banned_email_str s = [] then True else \<not> str_contains_line (banned_email_str s) pass) \<and>
       (if email_passwords_str s = [] then True else str_contains_line (email_passwords_str s) pass)
   | Ret kVSFLoginReal s' \<Rightarrow>
       username_ok user \<and> tb e ''local_enable'' \<and> e_ret e (trace s) (CheckAuth user pass) \<noteq> 0 \<and>
       user_str s' = auth_name e (trace s) user pass \<and>
       (if tb e ''anonymous_enable'' then \<not> names_anonymous user else True)
   | Ret kVSFLoginFail s' \<Rightarrow>
       user_str s' = user_str s \<or> (tb e ''local_enable'' \<and> username_ok user \<and> user_str s' = auth_name e (trace s) user pass)
   | Ret kVSFLoginNull s' \<Rightarrow> False
   | Stop h s' \<Rightarrow> True"
  by (simp add: handle_login_def handle_anonymous_login_def handle_local_login_def setup_username_globals_def act_simps
      halt_simps split: option.splits sum.splits)

end
