(* ===== verification/Policy.thy ===== *)
theory Policy
  imports Dispatch Prelogin
begin

text \<open>
  What a logged-in session may do to the outside: a policy on events, and the proof that every action of a session,
  whatever the client sends and the system answers, keeps to it.
\<close>

section \<open>The policy\<close>

definition access_ok :: "env \<Rightarrow> string \<Rightarrow> bool" where
  "access_ok e name \<longleftrightarrow> (\<exists>pat. vsf_access_check_file (tun e) [] name = Inr (True, pat))"

text \<open>A name the kernel gets that comes from a string which passed the \<open>deny_file\<close> check.\<close>

definition named_ok :: "env \<Rightarrow> string \<Rightarrow> bool" where
  "named_ok e f \<longleftrightarrow> (\<exists>name. f = c_str name \<and> access_ok e name)"

definition may_upload :: "env \<Rightarrow> bool \<Rightarrow> bool" where
  "may_upload e anon \<longleftrightarrow> tb e ''write_enable'' \<and> (\<not> anon \<or> tb e ''anon_upload_enable'')"

definition may_mkdir :: "env \<Rightarrow> bool \<Rightarrow> bool" where
  "may_mkdir e anon \<longleftrightarrow> tb e ''write_enable'' \<and> (\<not> anon \<or> tb e ''anon_mkdir_write_enable'')"

definition may_change :: "env \<Rightarrow> bool \<Rightarrow> bool" where
  "may_change e anon \<longleftrightarrow> tb e ''write_enable'' \<and> (\<not> anon \<or> tb e ''anon_other_write_enable'')"

text \<open>Files the server reads on its own account: the directory message, and the data of the updater.\<close>

definition server_file :: "env \<Rightarrow> bool \<Rightarrow> string \<Rightarrow> bool" where
  "server_file e anon f \<longleftrightarrow>
     (\<exists>m. ts e ''message_file'' = Some m \<and> f = c_str m) \<or>
     (\<not> anon \<and> (prefix ''/DATA/'' f \<or> (\<exists>m l. f = c_str (''/'' @ m @ ''/mods/'' @ l))))"

fun change_ok :: "env \<Rightarrow> bool \<Rightarrow> change \<Rightarrow> bool" where
  "change_ok e anon (Mkdir f md) = (may_mkdir e anon \<and> named_ok e f \<and> md = 511)"
| "change_ok e anon (Rmdir f) = (may_change e anon \<and> named_ok e f)"
| "change_ok e anon (Unlink f) =
     ((may_change e anon \<or> (may_upload e anon \<and> tb e ''delete_failed_uploads'')) \<and> named_ok e f)"
| "change_ok e anon (Rename f g) = (may_change e anon \<and> named_ok e f \<and> named_ok e g)"
| "change_ok e anon (Chmod f md) =
     (tb e ''write_enable'' \<and> tb e ''chmod_enable'' \<and> \<not> anon \<and> named_ok e f \<and> md < 512)"
| "change_ok e anon (CreateExclusive f md) =
     ((may_upload e anon \<or> may_change e anon) \<and> named_ok e f \<and> md = tu e ''file_open_mode'')"
| "change_ok e anon (CreateOrOpen f md) = (may_change e anon \<and> named_ok e f \<and> md = tu e ''file_open_mode'')"
| "change_ok e anon (Setmodtime f time loc) = (may_change e anon \<and> tb e ''mdtm_write'' \<and> named_ok e f)"

text \<open>
  The directories a listing opens: the one named by the argument, which passed the \<open>deny_file\<close> check, or when that
  cannot be opened the directory the checked name is in, or the current one. Only with \<open>ls_recurse_enable\<close> does a
  listing go on to subdirectories, whose names are not checked.
\<close>

definition dir_of :: "string \<Rightarrow> string" where
  "dir_of name =
     (if found (str_locate_char name CHR ''/'')
      then let l = fst (str_split_char_reverse name CHR ''/'') in if l = [] then ''/'' else l
      else ''.'')"

definition listed_ok :: "env \<Rightarrow> string \<Rightarrow> bool" where
  "listed_ok e f \<longleftrightarrow>
     named_ok e f \<or> f = ''.'' \<or> (\<exists>name. f = c_str (dir_of name) \<and> access_ok e name) \<or> tb e ''ls_recurse_enable''"

definition look_ok :: "env \<Rightarrow> bool \<Rightarrow> look \<Rightarrow> bool" where
  "look_ok e anon l =
     (case l of
        Chdir f \<Rightarrow> named_ok e f
      | OpenRead f \<Rightarrow> (tb e ''download_enable'' \<and> named_ok e f) \<or> server_file e anon f
      | Opendir f \<Rightarrow> listed_ok e f
      | _ \<Rightarrow> True)"

definition fd_op_ok :: "env \<Rightarrow> bool \<Rightarrow> fd_op \<Rightarrow> bool" where
  "fd_op_ok e anon p =
     (case p of
        Ftruncate \<Rightarrow> may_change e anon
      | Fchmod md \<Rightarrow> anon \<and> tb e ''chown_uploads'' \<and> (may_upload e anon \<or> may_change e anon) \<and> md < 512
      | Fchown uid \<Rightarrow> anon \<and> tb e ''chown_uploads'' \<and> (may_upload e anon \<or> may_change e anon)
      | _ \<Rightarrow> True)"

text \<open>Data connections go to the client's own address and no privileged port, unless the configuration waives this.\<close>

definition peer_ok :: "env \<Rightarrow> sockaddr \<Rightarrow> sockaddr \<Rightarrow> bool" where
  "peer_ok e remote a \<longleftrightarrow>
     tb e ''port_promiscuous'' \<or> (vsf_sysutil_sockaddr_addr_equal remote a \<and> \<not> vsf_sysutil_is_port_reserved (port a))"

definition net_ok :: "env \<Rightarrow> sockaddr \<Rightarrow> net_op \<Rightarrow> bool" where
  "net_ok e remote n = (case n of Connect fd a \<Rightarrow> peer_ok e remote a | _ \<Rightarrow> True)"

fun request_ok :: "env \<Rightarrow> bool \<Rightarrow> sockaddr \<Rightarrow> request \<Rightarrow> bool" where
  "request_ok e anon remote (Change c) = change_ok e anon c"
| "request_ok e anon remote (Look l) = look_ok e anon l"
| "request_ok e anon remote (OnFd p fd) = fd_op_ok e anon p"
| "request_ok e anon remote (Net n) = net_ok e remote n"
| "request_ok e anon remote (FileWrite fd d) = (may_upload e anon \<or> may_change e anon)"
| "request_ok e anon remote (SetUmask m) = (m < 512)"
| "request_ok e anon remote (Sleep n) = True"
| "request_ok e anon remote (SetAlarm n) = True"
| "request_ok e anon remote (CheckAuth u p) = False"
| "request_ok e anon remote (OpenAppend f) = False"
| "request_ok e anon remote GetRandomByte = True"
| "request_ok e anon remote Errno = True"

text \<open>Lines in the log files are printable and end with the only line feed they have.\<close>

definition log_line_ok :: "string \<Rightarrow> bool" where
  "log_line_ok l \<longleftrightarrow> (\<exists>text. l = text @ [LF] \<and> list_all vsf_sysutil_isprint text)"

fun event_ok :: "env \<Rightarrow> bool \<Rightarrow> sockaddr \<Rightarrow> event \<Rightarrow> bool" where
  "event_ok e anon remote (Req r) = request_ok e anon remote r"
| "event_ok e anon remote (LogWrite fd l) = log_line_ok l"
| "event_ok e anon remote (Sent d) = True"
| "event_ok e anon remote (SentData d) = True"
| "event_ok e anon remote (Syslog l severe) = tb e ''syslog_enable''"

section \<open>The invariant\<close>

text \<open>
  The session keeps its identity and its peer, the static pattern of the access check is the configured one, a
  pending \<^verbatim>\<open>RNFR\<close> name passed the check, the events so far keep to the policy, at most \<open>n\<close> bytes are left to read from
  the client, and \<open>P\<close> holds of the \<^verbatim>\<open>PORT\<close> address and the two passive sockets.
\<close>

definition good ::
  "env \<Rightarrow> bool \<Rightarrow> sockaddr \<Rightarrow> nat \<Rightarrow> (sockaddr option \<Rightarrow> int \<Rightarrow> int \<Rightarrow> bool) \<Rightarrow> vsf_session \<Rightarrow> bool" where
  "good e anon remote n P s \<longleftrightarrow>
     is_anonymous s = anon \<and> p_remote_addr s = remote \<and>
     (s_access_str s = [] \<or> (\<exists>pat. ts e ''deny_file'' = Some pat \<and> s_access_str s = c_str pat)) \<and>
     (rnfr_filename_str s = [] \<or> access_ok e (rnfr_filename_str s)) \<and>
     list_all (event_ok e anon remote) (trace s) \<and> length (control_in s) \<le> n \<and>
     P (p_port_sockaddr s) (pasv_listen_fd s) (parent_listen_fd s)"

text \<open>
  Between two commands: the \<^verbatim>\<open>PORT\<close> address passed its check, and an address and a passive socket never exist
  together.
\<close>

definition passive_fd :: "env \<Rightarrow> int \<Rightarrow> int \<Rightarrow> int" where
  "passive_fd e own_fd parent_fd = (if tb e ''one_process_model'' then own_fd else parent_fd)"

definition data_ok :: "env \<Rightarrow> sockaddr \<Rightarrow> sockaddr option \<Rightarrow> int \<Rightarrow> int \<Rightarrow> bool" where
  "data_ok e remote a own_fd parent_fd \<longleftrightarrow>
     (case a of None \<Rightarrow> True | Some a \<Rightarrow> peer_ok e remote a \<and> passive_fd e own_fd parent_fd = -1)"

lemma data_ok_None [simp]: "data_ok e r None i j"
  by (simp add: data_ok_def)

lemma data_ok_Some [simp]: "data_ok e r (Some a) i j \<longleftrightarrow> peer_ok e r a \<and> passive_fd e i j = -1"
  by (simp add: data_ok_def)

lemma keeps_good_modif [vc]:
  "(\<And>s. good e b r n P s \<Longrightarrow> good e b r n P (f s)) \<Longrightarrow> keeps (good e b r n P) (modif f)"
  by (rule keeps_modif)

lemma keeps_emit [vc]: "event_ok e b r ev \<Longrightarrow> keeps (good e b r n P) (emit ev)"
  unfolding emit_def by (rule keeps_modif) (simp add: good_def)

lemma keeps_call [vc]: "request_ok e b r q \<Longrightarrow> keeps (good e b r n P) (call e q)"
  unfolding call_def by (intro vc) simp

lemma keeps_call_stat [vc]: "request_ok e b r q \<Longrightarrow> keeps (good e b r n P) (call_stat e q)"
  unfolding call_stat_def by (intro vc) simp

lemma keeps_call_text [vc]: "request_ok e b r q \<Longrightarrow> keeps (good e b r n P) (call_text e q)"
  unfolding call_text_def by (intro vc) simp

text \<open>The access check answers as the policy does.\<close>

lemma check_cached:
  assumes "pat' = [] \<or> (\<exists>pat. ts e ''deny_file'' = Some pat \<and> pat' = c_str pat)"
    and "vsf_access_check_file (tun e) pat' name = Inr (ok, pat'')"
  shows "ok \<Longrightarrow> access_ok e name"
    and "pat'' = [] \<or> (\<exists>pat. ts e ''deny_file'' = Some pat \<and> pat'' = c_str pat)"
proof -
  have eq: "vsf_access_check_file (tun e) pat' name = vsf_access_check_file (tun e) [] name" if "ts e ''deny_file'' \<noteq> None"
    using assms(1) that by (auto simp: vsf_access_check_file_def access_common_def)
  show "access_ok e name" if ok
  proof (cases "ts e ''deny_file''")
    case None
    then show ?thesis by (simp add: access_ok_def vsf_access_check_file_def access_common_def)
  next
    case (Some pat)
    then have "vsf_access_check_file (tun e) [] name = Inr (True, pat'')" using eq assms(2) that by simp
    then show ?thesis by (auto simp: access_ok_def)
  qed
  show "pat'' = [] \<or> (\<exists>pat. ts e ''deny_file'' = Some pat \<and> pat'' = c_str pat)"
    using assms
    by (cases "ts e ''deny_file''")
       (auto simp: vsf_access_check_file_def access_common_def andthen_Inr_iff Let_def split: if_splits)
qed

lemma keeps_check:
  assumes "\<And>ok. (ok \<Longrightarrow> access_ok e name) \<Longrightarrow> keeps (good e b r n P) (f ok)"
  shows "keeps (good e b r n P) (bnd (check_file e name) f)"
  unfolding keeps_def
proof (intro allI impI)
  fix s assume s: "good e b r n P s"
  show "good e b r n P (final (bnd (check_file e name) f s))"
  proof (cases "vsf_access_check_file (tun e) (s_access_str s) name")
    case (Inl h)
    with s show ?thesis by (simp add: check_file_def act_simps)
  next
    case (Inr p)
    obtain ok pat where p: "p = (ok, pat)" by (cases p)
    have st: "s_access_str s = [] \<or> (\<exists>pat. ts e ''deny_file'' = Some pat \<and> s_access_str s = c_str pat)"
      using s by (simp add: good_def)
    note c = check_cached [OF st Inr [unfolded p]]
    have "good e b r n P (s\<lparr>s_access_str := pat\<rparr>)" using s c(2) by (simp add: good_def)
    then have "good e b r n P (final (f ok (s\<lparr>s_access_str := pat\<rparr>)))"
      using assms [of ok] c(1) by (auto simp: keeps_def)
    with Inr p show ?thesis by (simp add: check_file_def act_simps)
  qed
qed

section \<open>Replies, logging, commands\<close>

lemma log_line_printable: "log_line_ok (str_replace_unprintable l CHR ''?'' @ [LF])"
  by (auto simp: log_line_ok_def str_replace_unprintable_def list_all_iff isprint_range)

lemma keeps_log_to_file [vc]: "keeps (good e b r n P) (vsf_log_do_log_to_file e fd l)"
  unfolding vsf_log_do_log_to_file_def by (intro vc) (simp_all add: fd_op_ok_def log_line_printable)

lemma keeps_log_common [vc]: "keeps (good e b r n P) (vsf_log_common e ok what l)"
  unfolding vsf_log_common_def by (intro vc) simp_all

lemma keeps_log_line [vc]: "keeps (good e b r n P) (vsf_log_line e what l)"
  unfolding vsf_log_line_def by (intro vc)

lemma keeps_log_clear [vc]: "keeps (good e b r n P) vsf_log_clear_entry"
  unfolding vsf_log_clear_entry_def by (intro vc) (simp add: good_def)

lemma keeps_do_log [vc]: "keeps (good e b r n P) (vsf_log_do_log e ok)"
  unfolding vsf_log_do_log_def by (intro vc)

lemma keeps_log_start [vc]: "keeps (good e b r n P) (vsf_log_start_entry e what)"
  unfolding vsf_log_start_entry_def by (intro vc) (simp_all add: good_def)

lemma keeps_ftp_write_str [vc]: "keeps (good e b r n P) (ftp_write_str e target d)"
  unfolding ftp_write_str_def by (intro vc) simp_all

lemma keeps_noblock [vc]:
  "keeps (good e b r n P) (vsf_sysutil_activate_noblock e fd)" "keeps (good e b r n P) (vsf_sysutil_deactivate_noblock e fd)"
  unfolding vsf_sysutil_activate_noblock_def vsf_sysutil_deactivate_noblock_def
  by (intro vc; simp add: fd_op_ok_def)+

lemma keeps_write_common [vc]: "keeps (good e b r n P) (ftp_write_str_common e status sep d noblock)"
  unfolding ftp_write_str_common_def by (intro vc)

lemma keeps_cmdio_write [vc]: "keeps (good e b r n P) (vsf_cmdio_write e status d)"
  unfolding vsf_cmdio_write_def ftp_write_text_common_def by (intro vc)

lemma keeps_cmdio_write_hyphen [vc]: "keeps (good e b r n P) (vsf_cmdio_write_hyphen e status d)"
  unfolding vsf_cmdio_write_hyphen_def ftp_write_text_common_def by (intro vc)

lemma keeps_cmdio_write_str [vc]: "keeps (good e b r n P) (vsf_cmdio_write_str e status d)"
  unfolding vsf_cmdio_write_str_def by (intro vc)

lemma keeps_cmdio_write_str_hyphen [vc]: "keeps (good e b r n P) (vsf_cmdio_write_str_hyphen e status d)"
  unfolding vsf_cmdio_write_str_hyphen_def by (intro vc)

lemma keeps_cmdio_write_raw [vc]: "keeps (good e b r n P) (vsf_cmdio_write_raw e d)"
  unfolding vsf_cmdio_write_raw_def by (intro vc)

lemma keeps_cmdio_write_exit [vc]: "keeps (good e b r n P) (vsf_cmdio_write_exit e status d)"
  unfolding vsf_cmdio_write_exit_def ftp_write_text_common_def by (intro vc) (simp_all add: fd_op_ok_def)

lemma keeps_getline [vc]: "keeps (good e b r n P) (ftp_getline e)"
  unfolding ftp_getline_def
proof (rule keeps_gets_bnd)
  fix s assume s: "good e b r n P s"
  obtain v w where vw: "str_netfd_alloc (sock_peek (e_chunk e)) sock_read LF VSFTP_MAX_COMMAND_LINE (control_in s) = (v, w)"
    by fastforce
  have "length w \<le> n" using netfd_alloc_shrinks [OF vw] s by (simp add: good_def)
  then show "keeps (good e b r n P)
      (case str_netfd_alloc (sock_peek (e_chunk e)) sock_read LF VSFTP_MAX_COMMAND_LINE (control_in s) of
         (r, w) \<Rightarrow> seq (modif (\<lambda>s. s\<lparr>control_in := w\<rparr>)) (lift r))"
    unfolding vw prod.case by (intro vc) (simp add: good_def)
qed

lemma keeps_control_getline [vc]: "keeps (good e b r n P) (control_getline e)"
  unfolding control_getline_def by (intro vc)

lemma keeps_set_alarm [vc]: "keeps (good e b r n P) (vsf_cmdio_set_alarm e)"
  unfolding vsf_cmdio_set_alarm_def by (intro vc) simp

lemma keeps_get_cmd [vc]: "keeps (good e b r n P) (vsf_cmdio_get_cmd_and_arg e a)"
  unfolding vsf_cmdio_get_cmd_and_arg_def by (intro vc)

lemma keeps_get_session_cmd [vc]: "keeps (good e b r n P) (get_session_cmd e)"
  unfolding get_session_cmd_def by (intro vc) (simp add: good_def)

lemma keeps_write_raws [vc]: "keeps (good e b r n P) (write_raws e ls)"
  by (induction ls) (simp_all add: vc)

section \<open>Banner, features, TLS commands\<close>

lemma keeps_getcwd [vc]: "keeps (good e b r n P) (str_getcwd e)"
  unfolding str_getcwd_def by (intro vc) (simp add: look_ok_def)

lemma keeps_stat [vc]: "keeps (good e b r n P) (str_stat e f)"
  unfolding str_stat_def by (intro vc) (simp add: look_ok_def)

lemma keeps_getpwnam [vc]: "keeps (good e b r n P) (str_getpwnam e f)"
  unfolding str_getpwnam_def by (intro vc) (simp add: look_ok_def)

lemma keeps_opendir [vc]: "listed_ok e (c_str f) \<Longrightarrow> keeps (good e b r n P) (str_opendir e f)"
  unfolding str_opendir_def by (intro vc) (simp add: look_ok_def)

lemma keeps_chdir [vc]: "access_ok e f \<Longrightarrow> keeps (good e b r n P) (str_chdir e f)"
  unfolding str_chdir_def by (intro vc) (auto simp: look_ok_def named_ok_def)

lemma keeps_fileread [vc]: "server_file e b (c_str f) \<Longrightarrow> keeps (good e b r n P) (fileread e f m)"
  unfolding fileread_def by (intro vc) (simp add: look_ok_def)

lemma keeps_banner_lines [vc]: "keeps (good e b r n P) (banner_write_lines e c ls)"
  by (induction ls) (simp_all add: vc)

lemma keeps_dir_changed [vc]: "keeps (good e b r n P) (vsf_banner_dir_changed e c)"
  unfolding vsf_banner_dir_changed_def vsf_banner_write_def
  by (intro vc) (simp_all add: good_def server_file_def)

lemma keeps_feat [vc]: "keeps (good e b r n P) (handle_feat e)"
  unfolding handle_feat_def by (intro vc)

lemma keeps_upper_arg [vc]: "keeps (good e b r n P) upper_arg"
  unfolding upper_arg_def by (intro vc) (simp add: good_def)

lemma keeps_opts [vc]: "keeps (good e b r n P) (handle_opts e)"
  unfolding handle_opts_def by (intro vc)

lemma keeps_pbsz [vc]: "keeps (good e b r n P) (handle_pbsz e)"
  unfolding handle_pbsz_def by (intro vc)

lemma keeps_prot [vc]: "keeps (good e b r n P) (handle_prot e)"
  unfolding handle_prot_def by (intro vc) (simp_all add: good_def)

section \<open>Privileged operations\<close>

lemma keeps_close [vc]: "keeps (good e b r n P) (vsf_sysutil_close e fd)"
  unfolding vsf_sysutil_close_def by (intro vc) (simp add: fd_op_ok_def)

lemma keeps_set_listen_fd [vc]:
  assumes "\<And>a i j. P a i j \<Longrightarrow> P a fd j \<and> P a i fd"
  shows "keeps (good e b r n P) (set_listen_fd p fd)"
  unfolding set_listen_fd_def
proof (rule keeps_modif)
  fix s assume s: "good e b r n P s"
  then have "P (p_port_sockaddr s) (pasv_listen_fd s) (parent_listen_fd s)" by (simp add: good_def)
  from assms [OF this] s
  show "good e b r n P (case p of Own \<Rightarrow> s\<lparr>pasv_listen_fd := fd\<rparr> | Parent \<Rightarrow> s\<lparr>parent_listen_fd := fd\<rparr>)"
    by (cases p) (simp_all add: good_def)
qed

text \<open>Properties of the data connection that survive closing the passive socket, and opening one.\<close>

definition closable :: "(sockaddr option \<Rightarrow> int \<Rightarrow> int \<Rightarrow> bool) \<Rightarrow> bool" where
  "closable P \<longleftrightarrow> (\<forall>a i j. P a i j \<longrightarrow> P a (-1) j \<and> P a i (-1))"

definition openable :: "(sockaddr option \<Rightarrow> int \<Rightarrow> int \<Rightarrow> bool) \<Rightarrow> bool" where
  "openable P \<longleftrightarrow> (\<forall>a i j k. P a i j \<longrightarrow> P a k j \<and> P a i k)"

lemma closable_data_ok [simp]: "closable (data_ok e r)"
  by (auto simp: closable_def data_ok_def passive_fd_def split: option.splits)

lemma openable_closable: "openable P \<Longrightarrow> closable P"
  unfolding closable_def openable_def by blast

lemma openable_no_port [simp]: "openable (\<lambda>a i j. a = None)"
  by (simp add: openable_def)

lemma keeps_reuseaddr [vc]: "keeps (good e b r n P) (vsf_sysutil_activate_reuseaddr e fd)"
  unfolding vsf_sysutil_activate_reuseaddr_def by (intro vc) (simp add: fd_op_ok_def)

lemma keeps_privop_cleanup [vc]: "closable P \<Longrightarrow> keeps (good e b r n P) (vsf_privop_pasv_cleanup e p)"
  unfolding vsf_privop_pasv_cleanup_def by (intro vc) (unfold closable_def, blast)

lemma keeps_privop_active [vc]: "keeps (good e b r n P) (vsf_privop_pasv_active p)"
  unfolding vsf_privop_pasv_active_def by (intro vc)

lemma keeps_get_ipsock [vc]: "keeps (good e b r n P) (vsf_sysutil_get_ipsock e a)"
  unfolding vsf_sysutil_get_ipsock_def by (intro vc) (simp add: net_ok_def)

lemma keeps_bind [vc]: "keeps (good e b r n P) (vsf_sysutil_bind e fd a)"
  unfolding vsf_sysutil_bind_def by (intro vc) (simp add: net_ok_def)

lemma keeps_listen [vc]: "keeps (good e b r n P) (vsf_sysutil_listen e fd)"
  unfolding vsf_sysutil_listen_def by (intro vc) (simp_all add: net_ok_def)

lemma keeps_random [vc]: "keeps (good e b r n P) (vsf_sysutil_get_random_byte e)"
  unfolding vsf_sysutil_get_random_byte_def by (intro vc) simp

lemma keeps_pasv_bind_loop [vc]: "keeps (good e b r n P) (pasv_bind_loop e fd tries)"
proof (induction tries)
  case 0
  show ?case unfolding pasv_bind_loop.simps by (intro vc)
next
  case (Suc tries)
  show ?case unfolding pasv_bind_loop.simps by (intro vc Suc.IH) simp_all
qed

lemma keeps_privop_listen [vc]: "openable P \<Longrightarrow> keeps (good e b r n P) (vsf_privop_pasv_listen e p)"
  unfolding vsf_privop_pasv_listen_def by (intro vc) (simp add: net_ok_def, unfold openable_def, blast)

lemma keeps_accept_pasv [vc]: "keeps (good e b r n P) (vsf_privop_accept_pasv e p)"
  unfolding vsf_privop_accept_pasv_def by (intro vc) (simp add: net_ok_def)

lemma keeps_port_bind_loop [vc]: "keeps (good e b r n P) (port_bind_loop e fd p tries)"
proof (induction tries)
  case 0
  show ?case unfolding port_bind_loop.simps by (intro vc)
next
  case (Suc tries)
  show ?case unfolding port_bind_loop.simps by (intro vc Suc.IH) simp_all
qed

text \<open>Whoever connects, it is to the checked \<^verbatim>\<open>PORT\<close> address or to the client itself, and to no reserved port.\<close>

lemma keeps_port_sock [vc]:
  assumes "\<And>a i j. P (Some a) i j \<Longrightarrow> peer_ok e r a"
  shows "keeps (good e b r n P) (vsf_privop_get_ftp_port_sock e p use)"
proof -
  have c: "peer_ok e r a \<Longrightarrow> keeps (good e b r n P) (bnd (call e (Net (Connect fd a))) (\<lambda>retval.
      if vsf_sysutil_retval_is_error retval then seq (vsf_sysutil_close e fd) (ret (-1)) else ret fd))" for a fd
    by (intro vc) (simp add: net_ok_def)
  have own: "keeps (good e b r n P) (bnd (bnd (gets p_port_sockaddr) (\<lambda>a. case a of None \<Rightarrow> stop Undef | Some a \<Rightarrow> ret a))
      (\<lambda>a. bnd (call e (Net (Connect fd a))) (\<lambda>retval.
        if vsf_sysutil_retval_is_error retval then seq (vsf_sysutil_close e fd) (ret (-1)) else ret fd)))" for fd
    unfolding bnd_assoc
  proof (rule keeps_gets_bnd)
    fix s assume "good e b r n P s"
    then have "P (p_port_sockaddr s) (pasv_listen_fd s) (parent_listen_fd s)" by (simp add: good_def)
    then show "keeps (good e b r n P) (bnd (case p_port_sockaddr s of None \<Rightarrow> stop Undef | Some a \<Rightarrow> ret a) (\<lambda>a.
        bnd (call e (Net (Connect fd a))) (\<lambda>retval.
        if vsf_sysutil_retval_is_error retval then seq (vsf_sysutil_close e fd) (ret (-1)) else ret fd)))"
      using c assms by (cases "p_port_sockaddr s") (auto simp: bnd_def stop_def keeps_def)
  qed
  have peer: "keeps (good e b r n P) (bnd (bnd (gets p_remote_addr) (\<lambda>x. lift (vsf_sysutil_sockaddr_set_port x p)))
      (\<lambda>a. bnd (call e (Net (Connect fd a))) (\<lambda>retval.
        if vsf_sysutil_retval_is_error retval then seq (vsf_sysutil_close e fd) (ret (-1)) else ret fd)))"
    if "\<not> vsf_sysutil_is_port_reserved p" for fd
    unfolding bnd_assoc
  proof (intro keeps_gets_bnd keeps_lift_bnd c)
    fix s a assume "good e b r n P s" and "vsf_sysutil_sockaddr_set_port (p_remote_addr s) p = Inr a"
    then show "peer_ok e r a" using addr_equal_port that by (auto simp: peer_ok_def good_def)
  qed
  show ?thesis
    unfolding vsf_privop_get_ftp_port_sock_def
    by (cases use) (simp_all only: if_True if_False, (rule own peer vc | assumption)+)
qed

lemma keeps_fstat [vc]: "keeps (good e b r n P) (vsf_sysutil_fstat e fd)"
  unfolding vsf_sysutil_fstat_def by (intro vc) (simp add: fd_op_ok_def)

lemma keeps_file_chown [vc]:
  "fd_op_ok e b (Fchown 0) \<Longrightarrow> keeps (good e b r n P) (vsf_privop_do_file_chown e fd)"
  unfolding vsf_privop_do_file_chown_def by (intro vc) (auto simp: fd_op_ok_def)

lemma keeps_post_login_req [vc]:
  assumes "\<And>a i j. P (Some a) i j \<Longrightarrow> peer_ok e r a" and "closable P" and "c = PRIV_SOCK_PASV_LISTEN \<Longrightarrow> openable P"
    and "\<And>fd. c = PRIV_SOCK_CHOWN fd \<Longrightarrow> fd_op_ok e b (Fchown 0)"
  shows "keeps (good e b r n P) (process_post_login_req e c)"
  using assms
  by (cases c)
     (simp_all add: process_post_login_req_def cmd_process_chown_def cmd_process_get_data_sock_def
        cmd_process_pasv_cleanup_def cmd_process_pasv_active_def cmd_process_pasv_listen_def
        cmd_process_pasv_accept_def vc)

end
