(* ===== verification/Confinement.thy ===== *)
theory Confinement
  imports Policy
begin

text \<open>
  Every handler of \<^verbatim>\<open>postlogin.c\<close> keeps the session within the policy; so does the command loop.
\<close>

abbreviation safe :: "env \<Rightarrow> bool \<Rightarrow> sockaddr \<Rightarrow> nat \<Rightarrow> vsf_session \<Rightarrow> bool" where
  "safe e b r n \<equiv> good e b r n (data_ok e r)"

lemma keeps_priv_reply [vc]:
  "(r = RESULT_OK \<Longrightarrow> keeps I a) \<Longrightarrow> (\<And>fd. r = RESULT_FD fd \<Longrightarrow> keeps I (f fd)) \<Longrightarrow> (r = RESULT_BAD \<Longrightarrow> keeps I c) \<Longrightarrow>
   (\<And>i. r = RESULT_INT i \<Longrightarrow> keeps I (g i)) \<Longrightarrow>
   keeps I (case r of RESULT_OK \<Rightarrow> a | RESULT_FD fd \<Rightarrow> f fd | RESULT_BAD \<Rightarrow> c | RESULT_INT i \<Rightarrow> g i)"
  by (cases r) auto

section \<open>The data connection\<close>

lemma keeps_two_sock [vc]: "keeps (safe e b r n) (vsf_two_process_get_priv_data_sock e)"
  unfolding vsf_two_process_get_priv_data_sock_def by (intro vc) simp_all

lemma keeps_one_sock [vc]: "keeps (safe e b r n) (vsf_one_process_get_priv_data_sock e)"
  unfolding vsf_one_process_get_priv_data_sock_def by (intro vc) simp_all

lemma keeps_two_cleanup [vc]: "keeps (safe e b r n) (vsf_two_process_pasv_cleanup e)"
  unfolding vsf_two_process_pasv_cleanup_def by (intro vc) simp_all

lemma keeps_two_active [vc]: "keeps (safe e b r n) (vsf_two_process_pasv_active e)"
  unfolding vsf_two_process_pasv_active_def by (intro vc) simp_all

lemma keeps_two_listen [vc]: "keeps (good e b r n (\<lambda>a i j. a = None)) (vsf_two_process_listen e)"
  unfolding vsf_two_process_listen_def by (intro vc) (simp_all add: openable_closable)

lemma keeps_two_fd [vc]: "keeps (safe e b r n) (vsf_two_process_get_pasv_fd e)"
  unfolding vsf_two_process_get_pasv_fd_def by (intro vc) simp_all

lemma keeps_two_chown [vc]: "fd_op_ok e b (Fchown 0) \<Longrightarrow> keeps (safe e b r n) (vsf_two_process_chown_upload e fd)"
  unfolding vsf_two_process_chown_upload_def by (intro vc) simp_all

lemma keeps_data_alarm [vc]: "keeps (safe e b r n) (start_data_alarm e)"
  unfolding start_data_alarm_def by (intro vc) simp_all

lemma keeps_sigalrm [vc]: "keeps (safe e b r n) (handle_sigalrm e)"
  unfolding handle_sigalrm_def by (intro vc) (simp add: good_def)

lemma keeps_ssl_close [vc]: "keeps (safe e b r n) (ssl_data_close e)"
  unfolding ssl_data_close_def by (intro vc) (simp_all add: good_def net_ok_def)

lemma keeps_dispose [vc]: "keeps (safe e b r n) (vsf_ftpdataio_dispose_transfer_fd e)"
  unfolding vsf_ftpdataio_dispose_transfer_fd_def by (intro vc) (simp_all add: good_def net_ok_def fd_op_ok_def)

lemma keeps_sock_params [vc]: "keeps (safe e b r n) (init_data_sock_params e fd)"
  unfolding init_data_sock_params_def by (intro vc) (simp_all add: good_def fd_op_ok_def)

lemma keeps_pasv_fd [vc]: "keeps (safe e b r n) (vsf_ftpdataio_get_pasv_fd e)"
  unfolding vsf_ftpdataio_get_pasv_fd_def by (intro vc)

lemma keeps_port_fd [vc]: "keeps (safe e b r n) (vsf_ftpdataio_get_port_fd e)"
  unfolding vsf_ftpdataio_get_port_fd_def by (intro vc)

lemma keeps_ssl_accept [vc]: "keeps (safe e b r n) (ssl_accept e)"
  unfolding ssl_accept_def by (intro vc) (simp_all add: good_def net_ok_def)

lemma keeps_mark_connect [vc]: "keeps (safe e b r n) (vsf_ftpdataio_post_mark_connect e)"
  unfolding vsf_ftpdataio_post_mark_connect_def by (intro vc) (simp_all add: net_ok_def)

section \<open>Transfers\<close>

lemma keeps_write_data [vc]: "keeps (safe e b r n) (ftp_write_data e d)"
  unfolding ftp_write_data_def by (intro vc) simp

lemma keeps_send_rwloop [vc]: "keeps (safe e b r n) (send_rwloop e ascii rs cr k)"
proof (induction rs arbitrary: cr k)
  case Nil
  show ?case unfolding send_rwloop.simps by (intro vc)
next
  case (Cons x rs)
  show ?case unfolding send_rwloop.simps by (intro vc Cons.IH)
qed

lemma keeps_recv_piece [vc]:
  "may_upload e b \<or> may_change e b \<Longrightarrow> keeps (safe e b r n) (recv_piece e fd ascii d cr)"
  unfolding recv_piece_def file_write_loop_def by (intro vc) simp

lemma keeps_recv_loop [vc]:
  "may_upload e b \<or> may_change e b \<Longrightarrow> keeps (safe e b r n) (recv_loop e fd ascii rs cr k)"
proof (induction rs arbitrary: cr k)
  case Nil
  then show ?case unfolding recv_loop.simps by (intro vc)
next
  case (Cons x rs)
  show ?case unfolding recv_loop.simps by (intro vc Cons.IH Cons.prems)
qed

lemma keeps_transfer_file [vc]:
  "(recv \<Longrightarrow> may_upload e b \<or> may_change e b) \<Longrightarrow> keeps (safe e b r n) (vsf_ftpdataio_transfer_file e rfd fd recv ascii)"
  unfolding vsf_ftpdataio_transfer_file_def do_file_send_rwloop_def do_file_recv_def vsf_sysutil_get_file_offset_def
    calc_num_send_def do_file_send_sendfile_def
  by (intro vc) (simp_all add: fd_op_ok_def net_ok_def)

lemma keeps_write_dir_loop [vc]: "keeps (safe e b r n) (write_dir_loop e target buf ls)"
proof (induction ls arbitrary: buf)
  case Nil
  show ?case unfolding write_dir_loop.simps by (intro vc)
next
  case (Cons l ls)
  show ?case unfolding write_dir_loop.simps by (intro vc Cons.IH)
qed

lemma keeps_closedir [vc]: "keeps (safe e b r n) (vsf_sysutil_closedir e d)"
  unfolding vsf_sysutil_closedir_def by (intro vc) (simp add: look_ok_def)

lemma keeps_transfer_subdirs:
  assumes "ds \<noteq> [] \<Longrightarrow> tb e ''ls_recurse_enable''" and "\<And>p_dir base. depth \<noteq> 0 \<Longrightarrow>
    keeps (safe e b r n) (transfer_dir_internal (depth - 1) e target p_dir base opts filt verbose)"
  shows "keeps (safe e b r n) (transfer_subdirs depth e target ds base opts filt verbose)"
  using assms(1)
proof (induction ds)
  case Nil
  show ?case unfolding transfer_subdirs.simps by (intro vc)
next
  case (Cons d ds)
  show ?case unfolding transfer_subdirs.simps
    by (intro vc assms(2) Cons.IH) (simp_all add: look_ok_def listed_ok_def Cons.prems)
qed

text \<open>Without \<open>ls_recurse_enable\<close> a listing has no subdirectories to go into.\<close>

lemma keeps_transfer_level:
  assumes "\<And>p_dir base. depth \<noteq> 0 \<Longrightarrow>
    keeps (safe e b r n) (transfer_dir_internal (depth - 1) e target p_dir base opts filt verbose)"
  shows "keeps (safe e b r n) (transfer_dir_internal depth e target p_dir base opts filt verbose)"
  unfolding transfer_dir_internal.simps [of depth] write_dir_list_def Let_def
proof (intro keeps_gets_bnd keeps_lift_bnd, goal_cases)
  case (1 s x)
  then have "(case snd x of (sl, h) \<Rightarrow> (case sl of None \<Rightarrow> [] | Some l \<Rightarrow> map node_str (nodes_of l))) \<noteq> [] \<Longrightarrow>
      tb e ''ls_recurse_enable''"
    by (cases x) (auto split: if_splits dest: populate_no_subdirs)
  then show ?case
    by (cases x) (simp only: prod.case snd_conv, intro vc keeps_transfer_subdirs assms, auto simp: good_def)
qed

lemma keeps_transfer_dir_internal:
  "keeps (safe e b r n) (transfer_dir_internal depth e target p_dir base opts filt verbose)"
  by (induction depth arbitrary: p_dir base) (rule keeps_transfer_level; simp del: transfer_dir_internal.simps)+

lemma keeps_transfer_dir [vc]: "keeps (safe e b r n) (vsf_ftpdataio_transfer_dir e c p_dir base opts filt verbose)"
  unfolding vsf_ftpdataio_transfer_dir_def by (rule keeps_transfer_dir_internal)

section \<open>The updater\<close>

lemma c_str_prefix: "NUL \<notin> set p \<Longrightarrow> c_str (p @ q) = p @ c_str q"
  unfolding c_str_def by (rule takeWhile_append2) auto

lemma server_file_data: "\<not> b \<Longrightarrow> server_file e b (c_str (''/DATA/'' @ p))"
  by (subst c_str_prefix) (simp_all add: server_file_def)

lemma keeps_latest_version [vc]: "\<not> b \<Longrightarrow> keeps (safe e b r n) (mcu_get_latest_version e m)"
  unfolding mcu_get_latest_version_def using server_file_data [of b e "''VERSION/'' @ m"] by (intro vc) simp_all

lemma keeps_added_line [vc]: "\<not> b \<Longrightarrow> keeps (safe e b r n) (mcu_added_line e m file)"
  unfolding mcu_added_line_def str_open_def by (intro vc) (auto simp: look_ok_def server_file_def)

lemma keeps_added [vc]: "\<not> b \<Longrightarrow> keeps (safe e b r n) (mcu_added e m list1 files instr)"
proof (induction files arbitrary: instr)
  case Nil
  show ?case unfolding mcu_added.simps by (intro vc)
next
  case (Cons f files)
  then show ?case unfolding mcu_added.simps by (intro vc Cons.IH)
qed

lemma keeps_case_list [vc]:
  "(x = [] \<Longrightarrow> keeps I m) \<Longrightarrow> (\<And>a as. x = a # as \<Longrightarrow> keeps I (f a as)) \<Longrightarrow>
   keeps I (case x of [] \<Rightarrow> m | a # as \<Rightarrow> f a as)"
  by (cases x) auto

lemma keeps_instructions [vc]: "\<not> b \<Longrightarrow> keeps (safe e b r n) (mcu_create_update_instructions e m v)"
  unfolding mcu_create_update_instructions_def
  using server_file_data [of b e "''LISTFILE/'' @ m @ ''/'' @ v" for v] server_file_data [of b e "''CHANGE/'' @ m"]
  by (intro vc) simp_all

section \<open>Names and the state of the data connection\<close>

lemma keeps_resolve_tilde [vc]: "keeps (safe e b r n) (resolve_tilde e p)"
  unfolding resolve_tilde_def by (intro vc)

lemma keeps_resolve_arg [vc]: "keeps (safe e b r n) (resolve_arg e)"
  unfolding resolve_arg_def by (intro vc) (simp add: good_def)

lemma keeps_prepend [vc]: "keeps (safe e b r n) (prepend_path_to_filename e p)"
  unfolding prepend_path_to_filename_def by (intro vc)

lemma keeps_start_log_file [vc]: "keeps (safe e b r n) (start_log_file e what name)"
  unfolding start_log_file_def by (intro vc) (simp add: good_def)

lemma keeps_port_pasv_active:
  "keeps (safe e b r n) (port_active k e)" "keeps (safe e b r n) (pasv_active k e)"
proof (induction k)
  case 0
  show "keeps (safe e b r n) (port_active 0 e)" "keeps (safe e b r n) (pasv_active 0 e)" by (simp_all add: vc)
next
  case (Suc k)
  show "keeps (safe e b r n) (port_active (Suc k) e)" "keeps (safe e b r n) (pasv_active (Suc k) e)"
    unfolding port_active.simps pasv_active.simps by (intro vc Suc.IH)+
qed

declare keeps_port_pasv_active [vc]

lemma keeps_port_cleanup [vc]: "keeps (safe e b r n) port_cleanup"
  unfolding port_cleanup_def by (intro vc) (simp add: good_def)

lemma keeps_pasv_cleanup [vc]: "keeps (safe e b r n) (pasv_cleanup e)"
  unfolding pasv_cleanup_def by (intro vc) simp

lemma keeps_either_active [vc]: "keeps (safe e b r n) (either_active e)"
  unfolding either_active_def by (intro vc)

lemma keeps_checks [vc]: "keeps (safe e b r n) (data_transfer_checks_ok e)"
  unfolding data_transfer_checks_ok_def by (intro vc)

lemma keeps_remote_fd [vc]: "keeps (safe e b r n) (get_remote_transfer_fd e m)"
  unfolding get_remote_transfer_fd_def by (intro vc) (simp add: good_def)

lemma keeps_check_abor [vc]: "keeps (safe e b r n) (check_abor e)"
  unfolding check_abor_def by (intro vc) (simp add: good_def)

lemma keeps_pwd [vc]: "keeps (safe e b r n) (handle_pwd e)"
  unfolding handle_pwd_def by (intro vc)

lemma keeps_cwd [vc]: "keeps (safe e b r n) (handle_cwd e)"
  unfolding handle_cwd_def by (intro keeps_check keeps_gets_bnd vc) simp_all

lemma keeps_cdup [vc]: "keeps (safe e b r n) (handle_cdup e)"
  unfolding handle_cdup_def by (intro vc) (simp add: good_def)

section \<open>Active and passive mode\<close>

text \<open>
  The address of a refused \<^verbatim>\<open>PORT\<close> stays in the session until the refusal has been sent: when that write fails the
  process ends with it, and no connection is made. So a handler leads back to \<open>safe\<close> when it returns, and keeps the
  policy on events when it stops.
\<close>

definition leads :: "env \<Rightarrow> bool \<Rightarrow> sockaddr \<Rightarrow> nat \<Rightarrow> (vsf_session \<Rightarrow> bool) \<Rightarrow> 'a act \<Rightarrow> bool" where
  "leads e b r n I m \<longleftrightarrow> triple I m (\<lambda>_. safe e b r n) (\<lambda>_. good e b r n (\<lambda>_ _ _. True))"

abbreviation confined :: "env \<Rightarrow> bool \<Rightarrow> sockaddr \<Rightarrow> nat \<Rightarrow> 'a act \<Rightarrow> bool" where
  "confined e b r n m \<equiv> leads e b r n (safe e b r n) m"

lemma good_weaken: "good e b r n P s \<Longrightarrow> (\<And>a i j. P a i j \<Longrightarrow> Q a i j) \<Longrightarrow> good e b r n Q s"
  by (simp add: good_def)

lemma confined_keeps: "keeps (safe e b r n) m \<Longrightarrow> confined e b r n m"
  unfolding leads_def by (rule keeps_triple) (auto elim: good_weaken)

lemma leads_bnd: "triple I m (\<lambda>_. M) (\<lambda>_. good e b r n (\<lambda>_ _ _. True)) \<Longrightarrow> (\<And>a. leads e b r n M (f a)) \<Longrightarrow>
    leads e b r n I (bnd m f)"
  unfolding leads_def by (rule triple_bnd)

lemma confined_bnd: "confined e b r n m \<Longrightarrow> (\<And>a. leads e b r n (safe e b r n) (f a)) \<Longrightarrow> confined e b r n (bnd m f)"
  unfolding leads_def by (rule triple_bnd)

lemma confined_vc: "keeps (safe e b r n) m \<Longrightarrow> (\<And>a. confined e b r n (f a)) \<Longrightarrow> confined e b r n (bnd m f)"
  by (rule confined_bnd) (rule confined_keeps)

lemma confined_seq: "confined e b r n m \<Longrightarrow> confined e b r n m' \<Longrightarrow> confined e b r n (seq m m')"
  unfolding seq_def by (rule confined_bnd)

lemma leads_gets_bnd: "(\<And>s. I s \<Longrightarrow> leads e b r n I (g (f s))) \<Longrightarrow> leads e b r n I (bnd (gets f) g)"
  by (simp add: leads_def triple_def bnd_def gets_def)

lemma leads_if: "(c \<Longrightarrow> leads e b r n I m) \<Longrightarrow> (\<not> c \<Longrightarrow> leads e b r n I m') \<Longrightarrow> leads e b r n I (if c then m else m')"
  by simp

lemma leads_guard: "(c \<Longrightarrow> leads e b r n I m) \<Longrightarrow> leads e b r n I m' \<Longrightarrow> leads e b r n I (if c then m else m')"
  by simp

lemma leads_case: "(\<And>a c. x = (a, c) \<Longrightarrow> leads e b r n I (f a c)) \<Longrightarrow> leads e b r n I (case x of (a, c) \<Rightarrow> f a c)"
  by (cases x) auto

subsection \<open>PORT and EPRT\<close>

text \<open>No passive socket is open.\<close>

abbreviation quiet :: "env \<Rightarrow> bool \<Rightarrow> sockaddr \<Rightarrow> nat \<Rightarrow> vsf_session \<Rightarrow> bool" where
  "quiet e b r n \<equiv> good e b r n (\<lambda>a i j. data_ok e r a i j \<and> passive_fd e i j = -1)"

lemma quiet_safe: "quiet e b r n s \<Longrightarrow> safe e b r n s"
  by (erule good_weaken) simp

lemma leads_quiet: "keeps (quiet e b r n) m \<Longrightarrow> leads e b r n (quiet e b r n) m"
  unfolding leads_def by (rule keeps_triple) (auto elim: good_weaken)

lemma leads_lift_bnd:
  "(\<And>a. x = Inr a \<Longrightarrow> leads e b r n (quiet e b r n) (f a)) \<Longrightarrow> leads e b r n (quiet e b r n) (bnd (lift x) f)"
  by (cases x) (auto simp: leads_def triple_def bnd_def lift_def elim: good_weaken)

text \<open>After \<open>pasv_cleanup\<close> there is none.\<close>

lemma triple_pasv_cleanup:
  "triple (safe e b r n) (pasv_cleanup e) (\<lambda>_. quiet e b r n) (\<lambda>_. good e b r n (\<lambda>_ _ _. True))"
  unfolding triple_def
proof (intro allI impI)
  fix s assume s: "safe e b r n s"
  have k: "safe e b r n (final (pasv_cleanup e s))" by (rule keepsD [OF keeps_pasv_cleanup s])
  show "case pasv_cleanup e s of Ret a s' \<Rightarrow> quiet e b r n s' | Stop h s' \<Rightarrow> good e b r n (\<lambda>_ _ _. True) s'"
  proof (cases "pasv_cleanup e s")
    case (Ret u s')
    then have "passive_fd e (pasv_listen_fd s') (parent_listen_fd s') = -1"
      by (auto simp: pasv_cleanup_def vsf_two_process_pasv_cleanup_def process_post_login_req_def
          cmd_process_pasv_cleanup_def vsf_privop_pasv_cleanup_def listen_fd_def set_listen_fd_def passive_fd_def
          vsf_sysutil_close_def act_simps halt_simps split: if_splits sum.splits)
    with Ret k show ?thesis by (simp add: good_def)
  next
    case (Stop h s')
    with k show ?thesis by (auto elim: good_weaken)
  qed
qed

lemma keeps_quiet_port_cleanup: "keeps (quiet e b r n) port_cleanup"
  unfolding port_cleanup_def by (rule keeps_modif) (simp add: good_def)

text \<open>The last step of both: the address is stored, then kept or forgotten.\<close>

lemma leads_store_port:
  assumes "\<not> refuse \<Longrightarrow> peer_ok e r a"
  shows "leads e b r n (quiet e b r n) (seq (modif (\<lambda>s. s\<lparr>p_port_sockaddr := Some a\<rparr>))
           (if refuse then seq (vsf_cmdio_write e st t) port_cleanup else vsf_cmdio_write e st' t'))"
proof -
  let ?G = "good e b r n (\<lambda>p i j. p = Some a \<and> passive_fd e i j = -1)" and ?T = "good e b r n (\<lambda>_ _ _. True)"
  have set: "triple (quiet e b r n) (modif (\<lambda>s. s\<lparr>p_port_sockaddr := Some a\<rparr>)) (\<lambda>_. ?G) (\<lambda>_. ?T)"
    by (simp add: triple_def modif_def good_def)
  have w: "triple ?G (vsf_cmdio_write e st t) (\<lambda>_. ?G) (\<lambda>_. ?T)"
    by (rule keeps_triple) (auto intro: vc elim: good_weaken)
  have c: "triple ?G port_cleanup (\<lambda>_. safe e b r n) (\<lambda>_. ?T)"
    by (simp add: triple_def port_cleanup_def modif_def good_def)
  have ok: "triple ?G (vsf_cmdio_write e st' t') (\<lambda>_. safe e b r n) (\<lambda>_. ?T)" if "\<not> refuse"
    using assms [OF that] by (intro keeps_triple vc) (auto elim: good_weaken)
  show ?thesis
    unfolding leads_def by (cases refuse) (auto intro: triple_seqI [OF set] triple_seqI [OF w] c ok)
qed

lemma set_port_port: "vsf_sysutil_sockaddr_set_port a p = Inr a' \<Longrightarrow> port a' = p"
  using addr_equal_port by blast

lemma leads_new_port:
  "leads e b r n (quiet e b r n)
     (bnd (lift (andthen (vsf_sysutil_sockaddr_clone local) (\<lambda>a. andthen (f a) (\<lambda>a. vsf_sysutil_sockaddr_set_port a p)))) (\<lambda>a.
      seq (modif (\<lambda>s. s\<lparr>p_port_sockaddr := Some a\<rparr>))
      (if \<not> tb e ''port_promiscuous'' \<and> (\<not> vsf_sysutil_sockaddr_addr_equal r a \<or> vsf_sysutil_is_port_reserved p)
       then seq (vsf_cmdio_write e st t) port_cleanup
       else vsf_cmdio_write e st' t')))"
proof (intro leads_lift_bnd leads_store_port)
  fix a
  assume "andthen (vsf_sysutil_sockaddr_clone local) (\<lambda>a. andthen (f a) (\<lambda>a. vsf_sysutil_sockaddr_set_port a p)) = Inr a"
    and "\<not> (\<not> tb e ''port_promiscuous'' \<and> (\<not> vsf_sysutil_sockaddr_addr_equal r a \<or> vsf_sysutil_is_port_reserved p))"
  then show "peer_ok e r a" by (auto simp: peer_ok_def andthen_Inr_iff dest: set_port_port)
qed

lemma leads_gets_addrs:
  assumes "\<And>arg local. leads e b r n (quiet e b r n) (g (arg, local, r))"
  shows "leads e b r n (quiet e b r n) (bnd (gets (\<lambda>s. (ftp_arg_str s, p_local_addr s, p_remote_addr s))) g)"
  by (rule leads_gets_bnd) (use assms in \<open>simp add: good_def\<close>)

lemma confined_port: "confined e b r n (handle_port e)"
proof -
  have c: "leads e b r n (quiet e b r n) (case vsf_sysutil_parse_uchar_string_sep arg CHR '','' 6 of
        None \<Rightarrow> vsf_cmdio_write e FTP_BADCMD t | Some vals \<Rightarrow> f vals)"
    if "\<And>vals. leads e b r n (quiet e b r n) (f vals)" for arg f t
    by (auto split: option.splits intro: that leads_quiet vc)
  have p: "triple (quiet e b r n) port_cleanup (\<lambda>_. quiet e b r n) (\<lambda>_. good e b r n (\<lambda>_ _ _. True))"
    by (rule keeps_triple [OF keeps_quiet_port_cleanup]) (auto elim: good_weaken)
  show ?thesis
    unfolding handle_port_def Let_def seq_def [of "pasv_cleanup e"] seq_def [of port_cleanup]
    by (intro leads_bnd [OF triple_pasv_cleanup] leads_bnd [OF p] leads_gets_addrs)
       (unfold prod.case, intro c leads_new_port)
qed

lemma confined_eprt: "confined e b r n (handle_eprt e)"
proof -
  have c: "leads e b r n (quiet e b r n) (case parse_eprt v6 arg of
        Inl t \<Rightarrow> vsf_cmdio_write e FTP_BADCMD t | Inr (proto, raw, p) \<Rightarrow> f proto raw p)"
    if "\<And>proto raw p. leads e b r n (quiet e b r n) (f proto raw p)" for arg v6 f
    by (auto split: sum.splits intro: that leads_quiet vc)
  show ?thesis
    unfolding handle_eprt_def seq_def [of "pasv_cleanup e"] seq_def [of port_cleanup]
    by (intro confined_vc [OF keeps_port_cleanup] leads_bnd [OF triple_pasv_cleanup] leads_gets_addrs)
       (unfold prod.case, intro c leads_new_port)
qed

subsection \<open>PASV and EPSV\<close>

text \<open>The old socket is closed and the \<^verbatim>\<open>PORT\<close> address is forgotten before the new socket is opened.\<close>

lemma confined_forget_port:
  assumes "keeps (good e b r n (\<lambda>a i j. a = None)) m"
  shows "confined e b r n (seq port_cleanup m)"
  unfolding leads_def
proof (rule triple_seqI)
  show "triple (safe e b r n) port_cleanup (\<lambda>_. good e b r n (\<lambda>a i j. a = None)) (\<lambda>_. good e b r n (\<lambda>_ _ _. True))"
    by (simp add: triple_def port_cleanup_def modif_def good_def)
  show "triple (good e b r n (\<lambda>a i j. a = None)) m (\<lambda>_. safe e b r n) (\<lambda>_. good e b r n (\<lambda>_ _ _. True))"
    by (rule keeps_triple [OF assms]) (auto elim: good_weaken)
qed

lemma confined_pasv: "confined e b r n (handle_pasv e epsv)"
  unfolding handle_pasv_def pasv_sockaddr_def Let_def
  by (intro leads_gets_bnd leads_if confined_forget_port confined_seq confined_keeps vc) (simp_all add: good_def)

section \<open>Downloads and listings\<close>

lemma keeps_open [vc]: "tb e ''download_enable'' \<and> access_ok e f \<Longrightarrow> keeps (safe e b r n) (str_open e f)"
  unfolding str_open_def by (intro vc) (auto simp: look_ok_def named_ok_def)

lemma keeps_lseek_to [vc]: "keeps (safe e b r n) (vsf_sysutil_lseek_to e fd k)"
  unfolding vsf_sysutil_lseek_to_def by (intro vc) (simp add: fd_op_ok_def)

lemma keeps_lseek_end [vc]: "keeps (safe e b r n) (vsf_sysutil_lseek_end e fd)"
  unfolding vsf_sysutil_lseek_end_def by (intro vc) (simp add: fd_op_ok_def)

lemma keeps_retr_send [vc]: "keeps (safe e b r n) (retr_send e http fd ascii m)"
  unfolding retr_send_def by (intro vc) (simp_all add: good_def)

lemma keeps_retr_opened [vc]: "keeps (safe e b r n) (retr_opened e http fd k)"
  unfolding retr_opened_def by (intro vc) (simp_all add: fd_op_ok_def)

lemma keeps_retr [vc]: "tb e ''download_enable'' \<Longrightarrow> keeps (safe e b r n) (handle_retr e http)"
  unfolding handle_retr_def by (intro keeps_check keeps_gets_bnd vc) (simp_all add: good_def)

lemma c_str_dot [simp]: "c_str ''.'' = ''.''" "dir_of [] = ''.''"
  by code_simp+

lemma keeps_dir_target [vc]: "access_ok e filt \<or> (\<not> given \<and> filt = []) \<Longrightarrow> keeps (safe e b r n) (dir_target e given filt)"
  unfolding dir_target_def
proof (intro vc, goal_cases)
  case 1
  then show ?case by (auto simp: listed_ok_def named_ok_def)
next
  case (2 p_dir dir_name filt')
  then have "dir_name = dir_of filt" by (auto simp: dir_of_def Let_def split: prod.splits if_splits)
  with 2 show ?case by (auto simp: listed_ok_def)
qed

text \<open>The filter of a listing passed the check before a directory is opened.\<close>

lemma keeps_dir_filter:
  assumes "\<And>ok filt. (ok \<Longrightarrow> access_ok e filt \<or> (filt0 = [] \<and> filt = [])) \<Longrightarrow> keeps (safe e b r n) (F (ok, filt))"
  shows "keeps (safe e b r n) (bnd (if filt0 \<noteq> []
     then bnd (resolve_tilde e filt0) (\<lambda>f. bnd (check_file e f) (\<lambda>ok. ret (ok, f))) else ret (True, [])) F)"
proof (cases "filt0 = []")
  case True
  then show ?thesis using assms [of True "[]"] by simp
next
  case False
  show ?thesis unfolding if_P [OF False] bnd_assoc bnd_ret by (intro keeps_check keeps_bnd vc assms) simp
qed

lemma keeps_dir_readable [vc]: "keeps (safe e b r n) (dir_readable e p_dir d)"
  unfolding dir_readable_def by (intro vc) (simp add: look_ok_def)

lemma keeps_check_file [vc]: "keeps (safe e b r n) (check_file e name)"
proof -
  have "keeps (safe e b r n) (bnd (check_file e name) ret)" by (intro keeps_check vc)
  moreover have "bnd (check_file e name) ret = check_file e name"
    by (rule ext) (simp add: bnd_def ret_def split: outcome.splits)
  ultimately show ?thesis by simp
qed

lemma keeps_dir_common [vc]: "keeps (safe e b r n) (handle_dir_common e full st)"
  unfolding handle_dir_common_def by (intro keeps_dir_filter vc) auto

section \<open>Uploads and changes\<close>

lemma keeps_unique_loop [vc]: "keeps (safe e b r n) (unique_loop e base k tries)"
proof (induction tries arbitrary: k)
  case 0
  show ?case unfolding unique_loop.simps by (intro vc)
next
  case (Suc tries)
  show ?case unfolding unique_loop.simps by (intro vc Suc.IH)
qed

lemma keeps_unique [vc]: "keeps (safe e b r n) (get_unique_filename e base)"
  unfolding get_unique_filename_def by (intro vc)

lemma mask_less: "unat (w AND 0x1FF :: mode) < 512"
proof -
  have "w AND 0x1FF = take_bit 9 w" by (simp add: take_bit_eq_mask mask_eq_exp_minus_1)
  then show ?thesis using take_bit_nat_less_exp [of 9 "unat w"] by (simp add: unsigned_take_bit_eq)
qed

lemma chmod_mask_less: "unat (vsf_sysutil_chmod_mask w) < 512"
  unfolding vsf_sysutil_chmod_mask_def by (rule mask_less)

lemma keeps_fchmod [vc]: "fd_op_ok e b (Fchown 0) \<Longrightarrow> keeps (safe e b r n) (vsf_sysutil_fchmod e fd md)"
  unfolding vsf_sysutil_fchmod_def by (intro vc) (auto simp: fd_op_ok_def chmod_mask_less)

lemma keeps_ftruncate [vc]: "may_change e b \<Longrightarrow> keeps (safe e b r n) (vsf_sysutil_ftruncate e fd)"
  unfolding vsf_sysutil_ftruncate_def by (intro vc) (simp add: fd_op_ok_def)

lemma keeps_upload_prepare [vc]:
  "may_upload e b \<or> may_change e b \<Longrightarrow> (tr \<Longrightarrow> may_change e b) \<Longrightarrow> keeps (safe e b r n) (upload_prepare e fd app k tr)"
  unfolding upload_prepare_def by (intro keeps_gets_bnd vc) (auto simp: fd_op_ok_def good_def)

lemma keeps_upload_receive [vc]:
  "may_upload e b \<or> may_change e b \<Longrightarrow> keeps (safe e b r n) (upload_receive e fd m)"
  unfolding upload_receive_def by (intro vc) (simp_all add: good_def)

lemma keeps_create_exclusive [vc]:
  "may_upload e b \<or> may_change e b \<Longrightarrow> access_ok e f \<Longrightarrow> keeps (safe e b r n) (str_create_exclusive e f)"
  unfolding str_create_exclusive_def by (intro vc) (auto simp: named_ok_def)

lemma keeps_create [vc]: "may_change e b \<Longrightarrow> access_ok e f \<Longrightarrow> keeps (safe e b r n) (str_create e f)"
  unfolding str_create_def by (intro vc) (auto simp: named_ok_def)

lemma keeps_unlink [vc]:
  "may_change e b \<or> (may_upload e b \<and> tb e ''delete_failed_uploads'') \<Longrightarrow> access_ok e f \<Longrightarrow>
   keeps (safe e b r n) (str_unlink e f)"
  unfolding str_unlink_def by (intro vc) (auto simp: named_ok_def)

lemma keeps_upload_common:
  "may_upload e b \<or> may_change e b \<Longrightarrow> keeps (safe e b r n) (handle_upload_common e app uniq)"
  unfolding handle_upload_common_def
  by (intro keeps_check keeps_gets_bnd vc) (auto simp: good_def may_upload_def may_change_def)

lemma keeps_mkd: "may_mkdir e b \<Longrightarrow> keeps (safe e b r n) (handle_mkd e)"
  unfolding handle_mkd_def str_mkdir_def by (intro keeps_check vc) (auto simp: named_ok_def)

lemma keeps_rmd: "may_change e b \<Longrightarrow> keeps (safe e b r n) (handle_rmd e)"
  unfolding handle_rmd_def str_rmdir_def by (intro keeps_check vc) (auto simp: named_ok_def)

lemma keeps_dele: "may_change e b \<Longrightarrow> keeps (safe e b r n) (handle_dele e)"
  unfolding handle_dele_def by (intro keeps_check vc) auto

lemma keeps_rest [vc]: "keeps (safe e b r n) (handle_rest e)"
  unfolding handle_rest_def by (intro vc) (simp add: good_def)

lemma keeps_rnfr [vc]: "keeps (safe e b r n) (handle_rnfr e)"
  unfolding handle_rnfr_def by (intro keeps_check vc) (simp_all add: good_def)

lemma keeps_rnto: "may_change e b \<Longrightarrow> keeps (safe e b r n) (handle_rnto e)"
  unfolding handle_rnto_def str_rename_def
  by (intro keeps_check keeps_gets_bnd vc) (auto simp: named_ok_def good_def)

lemma keeps_size [vc]: "keeps (safe e b r n) (handle_size e)"
  unfolding handle_size_def by (intro vc)

lemma keeps_mdtm [vc]: "keeps (safe e b r n) (handle_mdtm e)"
  unfolding handle_mdtm_def
  by (intro keeps_check keeps_gets_bnd vc) (auto simp: good_def may_change_def named_ok_def mdtm_is_set_def Let_def)

lemma keeps_type [vc]: "keeps (safe e b r n) (handle_type e)"
  unfolding handle_type_def by (intro vc) (simp_all add: good_def)

section \<open>SITE and the rest\<close>

lemma keeps_site_chmod:
  "\<not> b \<Longrightarrow> tb e ''write_enable'' \<Longrightarrow> tb e ''chmod_enable'' \<Longrightarrow> keeps (safe e b r n) (handle_site_chmod e a)"
  unfolding handle_site_chmod_def str_chmod_def
  by (intro keeps_check vc) (auto simp: good_def named_ok_def chmod_mask_less)

lemma set_umask_less: "unat (vsf_sysutil_set_umask w) < 512"
  unfolding vsf_sysutil_set_umask_def by (rule mask_less)

lemma keeps_set_umask [vc]: "keeps (safe e b r n) (set_umask m)"
  unfolding set_umask_def by (intro vc) (simp_all add: good_def set_umask_less)

lemma keeps_site_umask [vc]: "keeps (safe e b r n) (handle_site_umask e a)"
  unfolding handle_site_umask_def by (intro vc)

lemma keeps_site_vers [vc]: "\<not> b \<Longrightarrow> keeps (safe e b r n) (handle_site_vers e a)"
  unfolding handle_site_vers_def by (intro vc)

lemma keeps_site_uins [vc]: "\<not> b \<Longrightarrow> keeps (safe e b r n) (handle_site_uins e a)"
  unfolding handle_site_uins_def uins_send_def by (intro vc) (simp_all add: good_def)

lemma keeps_site: "\<not> b \<Longrightarrow> keeps (safe e b r n) (handle_site e)"
  unfolding handle_site_def by (intro vc keeps_site_chmod) (simp_all add: good_def)

lemma keeps_help [vc]: "keeps (safe e b r n) (handle_help e)"
  unfolding handle_help_def by (intro vc)

lemma keeps_handle_stat [vc]: "keeps (safe e b r n) (handle_stat e)"
  unfolding handle_stat_def by (intro vc)

lemma keeps_logged_in [vc]:
  "keeps (safe e b r n) (handle_logged_in_user e)" "keeps (safe e b r n) (handle_logged_in_pass e)"
  unfolding handle_logged_in_user_def handle_logged_in_pass_def by (intro vc)+

lemma keeps_sigurg [vc]: "keeps (safe e b r n) (handle_sigurg e)"
  unfolding handle_sigurg_def by (intro vc) (simp_all add: good_def fd_op_ok_def)

section \<open>The session\<close>

lemma confined_dispatch: "confined e b r n (dispatch e b epsv_only cmd arg)"
  unfolding dispatch_def Let_def handle_list_def handle_nlst_def handle_stat_file_def handle_stor_def handle_appe_def
    handle_stou_def
  by (intro leads_guard confined_port confined_eprt confined_pasv confined_keeps vc keeps_upload_common keeps_mkd keeps_rmd keeps_dele
        keeps_rnto keeps_site)
     (auto simp: may_upload_def may_change_def may_mkdir_def)

lemma step_split: "\<exists>m. post_login_step e = seq (get_session_cmd e) m \<and> (\<forall>b r n. confined e b r n m)"
proof -
  have "confined e b r n (seq (dispatch e anon epsv_only cmd arg)
      (bnd (gets vsf_log_entry_pending) (\<lambda>pending. onlyif pending (vsf_log_do_log e False))))" if "anon = b"
    for b r n anon epsv_only cmd arg
    unfolding that by (intro confined_seq confined_dispatch confined_keeps vc)
  then have "confined e b r n (bnd (gets (\<lambda>s. (is_anonymous s, epsv_all s, ftp_cmd_str s, ftp_arg_str s)))
      (\<lambda>(anon, epsv_only, cmd, arg). seq (dispatch e anon epsv_only cmd arg)
      (bnd (gets vsf_log_entry_pending) (\<lambda>pending. onlyif pending (vsf_log_do_log e False)))))" for b r n
    by (intro leads_gets_bnd) (auto simp: good_def)
  then show ?thesis unfolding post_login_step_def by blast
qed

lemma confined_step: "confined e b r n (post_login_step e)"
proof -
  obtain m where m: "post_login_step e = seq (get_session_cmd e) m" "confined e b r n m" using step_split by metis
  show ?thesis unfolding m(1) by (intro confined_seq m(2) confined_keeps vc)
qed

lemma confined_loop: "confined e b r n (post_login_loop turns e)"
  by (induction turns) (auto intro: confined_keeps vc confined_seq confined_step)

lemma keeps_http_headers [vc]: "keeps (safe e b r n) (http_headers k e)"
proof (induction k)
  case 0
  show ?case unfolding http_headers.simps by (intro vc)
next
  case (Suc k)
  show ?case unfolding http_headers.simps by (intro vc Suc.IH)
qed

lemma keeps_http [vc]: "keeps (safe e b r n) (handle_http e)"
  unfolding handle_http_def by (intro vc) (auto simp: good_def split: prod.splits)

lemma confined_process_post_login: "confined e b r n (process_post_login turns e)"
  unfolding process_post_login_def
  by (intro confined_vc confined_seq leads_if confined_loop leads_case confined_keeps vc) (simp_all add: good_def)

section \<open>Reading commands uses up the input\<close>

text \<open>A command, once read, leaves fewer bytes than there were; an error stops the process.\<close>

definition consumes :: "env \<Rightarrow> bool \<Rightarrow> sockaddr \<Rightarrow> nat \<Rightarrow> 'a act \<Rightarrow> bool" where
  "consumes e b r n m \<longleftrightarrow> triple (safe e b r n) m (\<lambda>_ s. \<exists>k. n = Suc k \<and> safe e b r k s) (\<lambda>_ _. True)"

lemma triple_weaken: "triple I m Q R \<Longrightarrow> (\<And>a s. Q a s \<Longrightarrow> Q' a s) \<Longrightarrow> triple I m Q' (\<lambda>_ _. True)"
  unfolding triple_def by (auto split: outcome.splits)

lemma consumes_after:
  assumes "consumes e b r n m" and "\<And>a k. confined e b r k (f a)"
  shows "consumes e b r n (bnd m f)"
  unfolding consumes_def
proof (rule triple_bnd)
  show "triple (safe e b r n) m (\<lambda>_ s. \<exists>k. n = Suc k \<and> safe e b r k s) (\<lambda>_ _. True)"
    using assms(1) by (simp add: consumes_def)
  show "triple (\<lambda>s. \<exists>k. n = Suc k \<and> safe e b r k s) (f a) (\<lambda>_ s. \<exists>k. n = Suc k \<and> safe e b r k s) (\<lambda>_ _. True)" for a
    using assms(2) [of _ a] unfolding leads_def triple_def by (force split: outcome.splits)
qed

lemma consumes_before:
  assumes "keeps (safe e b r n) m" and "\<And>a. consumes e b r n (f a)"
  shows "consumes e b r n (bnd m f)"
  unfolding consumes_def
proof (rule triple_bnd)
  show "triple (safe e b r n) m (\<lambda>_. safe e b r n) (\<lambda>_ _. True)" by (rule keeps_triple [OF assms(1)]) auto
  show "triple (safe e b r n) (f a) (\<lambda>_ s. \<exists>k. n = Suc k \<and> safe e b r k s) (\<lambda>_ _. True)" for a
    using assms(2) by (simp add: consumes_def)
qed

lemma write_exit_stops: "triple I (vsf_cmdio_write_exit e st t) Q (\<lambda>_ _. True)"
  unfolding triple_def vsf_cmdio_write_exit_def seq_def bnd_def sysutil_exit_def stop_def
  by (auto split: outcome.splits)

lemma triple_ftp_getline:
  "triple (safe e b r n) (ftp_getline e) (\<lambda>(i, l) s. 0 \<le> i \<longrightarrow> (\<exists>k. n = Suc k \<and> safe e b r k s)) (\<lambda>_ _. True)"
  unfolding triple_def
proof (intro allI impI)
  fix s assume s: "safe e b r n s"
  obtain v w where vw: "str_netfd_alloc (sock_peek (e_chunk e)) sock_read LF VSFTP_MAX_COMMAND_LINE (control_in s) = (v, w)"
    by fastforce
  have run: "ftp_getline e s = lift v (s\<lparr>control_in := w\<rparr>)"
    by (simp add: ftp_getline_def act_simps vw)
  have "\<exists>k. n = Suc k \<and> safe e b r k (s\<lparr>control_in := w\<rparr>)" if "v = Inr (i, l)" "0 \<le> i" for i l
  proof -
    have "v = Inr (int (nat i), l)" using that by simp
    then have "length w < length (control_in s)" using netfd_alloc_shrinks(2) [OF vw] by blast
    then show ?thesis using s by (cases n) (auto simp: good_def)
  qed
  then show "case ftp_getline e s of Ret a s' \<Rightarrow> (case a of (i, l) \<Rightarrow> \<lambda>s. 0 \<le> i \<longrightarrow> (\<exists>k. n = Suc k \<and> safe e b r k s)) s'
      | Stop h s' \<Rightarrow> True"
    unfolding run by (cases v) (auto simp: lift_def)
qed

lemma consumes_control_getline: "consumes e b r n (control_getline e)"
  unfolding consumes_def control_getline_def
proof (rule triple_bnd [OF triple_ftp_getline])
  fix a :: "int \<times> string"
  show "triple ((case a of (i, l) \<Rightarrow> \<lambda>s. 0 \<le> i \<longrightarrow> (\<exists>k. n = Suc k \<and> safe e b r k s)))
      (case a of (r, p_str) \<Rightarrow> if r < 0 then vsf_cmdio_write_exit e FTP_BADCMD ''Input line too long.''
         else ret (strip_trailing_cr (str_replace_char p_str NUL LF)))
      (\<lambda>_ s. \<exists>k. n = Suc k \<and> safe e b r k s) (\<lambda>_ _. True)"
    by (cases a; cases "fst a < 0") (simp_all add: write_exit_stops, simp add: triple_def ret_def)
qed

lemma consumes_get_session_cmd: "consumes e b r n (get_session_cmd e)"
  unfolding get_session_cmd_def vsf_cmdio_get_cmd_and_arg_def seq_def [of "onlyif True (vsf_cmdio_set_alarm e)"] bnd_assoc
  by (intro consumes_before consumes_after consumes_control_getline leads_case confined_vc confined_seq confined_keeps vc)
     (simp_all add: good_def)

lemma consumes_step: "consumes e b r n (post_login_step e)"
proof -
  obtain m where m: "post_login_step e = seq (get_session_cmd e) m" "\<And>k. confined e b r k m" using step_split by metis
  show ?thesis unfolding m(1) seq_def by (intro consumes_after consumes_get_session_cmd m(2))
qed

lemma loop_never_returns:
  "n < turns \<Longrightarrow> triple (safe e b r n) (post_login_loop turns e) (\<lambda>_ _. False) (\<lambda>_ _. True)"
proof (induction turns arbitrary: n)
  case 0
  then show ?case by simp
next
  case (Suc turns)
  have "triple (\<lambda>s. \<exists>k. n = Suc k \<and> safe e b r k s) (post_login_loop turns e) (\<lambda>_ _. False) (\<lambda>_ _. True)"
    using Suc.IH [of "n - 1"] Suc.prems by (cases n) (auto simp: triple_def)
  then show ?case
    using consumes_step [of e b r n] unfolding post_login_loop.simps consumes_def by (rule triple_seqI [rotated])
qed

text \<open>An action that only ever stops.\<close>

definition stops :: "(vsf_session \<Rightarrow> bool) \<Rightarrow> 'a act \<Rightarrow> bool" where
  "stops I m \<longleftrightarrow> triple I m (\<lambda>_ _. False) (\<lambda>_ _. True)"

lemma stops_bnd: "keeps I m \<Longrightarrow> (\<And>a. stops I (f a)) \<Longrightarrow> stops I (bnd m f)"
  unfolding stops_def by (rule triple_bnd [where M = "\<lambda>_. I"]) (auto intro: keeps_triple)

lemma stops_seq: "keeps I m \<Longrightarrow> stops I m' \<Longrightarrow> stops I (seq m m')"
  unfolding seq_def by (rule stops_bnd)

lemma stops_bug: "stops I (lift (bug t))"
  by (simp add: stops_def triple_def lift_def halt_simps)

lemma stops_case: "(\<And>a c. x = (a, c) \<Longrightarrow> stops I (f a c)) \<Longrightarrow> stops I (case x of (a, c) \<Rightarrow> f a c)"
  by (cases x) auto

lemma stops_if: "stops I m \<Longrightarrow> stops I m' \<Longrightarrow> stops I (if c then m else m')"
  by simp

lemma session_stops: "n < turns \<Longrightarrow> stops (safe e b r n) (process_post_login turns e)"
  unfolding process_post_login_def
  by (intro stops_bnd stops_seq stops_case stops_if stops_bug vc loop_never_returns [folded stops_def]) (simp_all add: good_def)

section \<open>What a whole session does\<close>

lemma fresh_safe: "fresh_session s \<Longrightarrow> safe e (is_anonymous s) (p_remote_addr s) (length (control_in s)) s"
  by (simp add: fresh_session_def good_def)



text \<open>
  The bound of the loop shows only in a run that reaches it: one that stops does the same under every larger bound.
\<close>

definition stops_alike :: "'a act \<Rightarrow> 'a act \<Rightarrow> bool" where
  "stops_alike m m' \<longleftrightarrow> (\<forall>s h s'. m s = Stop h s' \<longrightarrow> m' s = Stop h s')"

lemma alike_refl [simp]: "stops_alike m m"
  by (simp add: stops_alike_def)

lemma alike_bnd: "(\<And>a. stops_alike (f a) (g a)) \<Longrightarrow> stops_alike (bnd m f) (bnd m g)"
  by (auto simp: stops_alike_def bnd_def split: outcome.splits)

lemma alike_seq: "stops_alike m' m'' \<Longrightarrow> stops_alike (seq m m') (seq m m'')"
  unfolding seq_def by (rule alike_bnd)

lemma alike_case: "(\<And>a c. stops_alike (f a c) (g a c)) \<Longrightarrow> stops_alike (case x of (a, c) \<Rightarrow> f a c) (case x of (a, c) \<Rightarrow> g a c)"
  by (cases x) simp

lemma alike_if: "stops_alike m m' \<Longrightarrow> stops_alike n n' \<Longrightarrow> stops_alike (if c then m else n) (if c then m' else n')"
  by simp

lemma loop_alike: "stops_alike (post_login_loop turns e) (post_login_loop (turns + k) e)"
proof (induction turns)
  case 0
  show ?case by (simp add: stops_alike_def ret_def)
next
  case (Suc turns)
  then show ?case by (simp add: alike_seq)
qed

lemma session_alike: "turns \<le> turns' \<Longrightarrow> stops_alike (process_post_login turns e) (process_post_login turns' e)"
  unfolding process_post_login_def using loop_alike [of turns e "turns' - turns"]
  by (intro alike_bnd alike_seq alike_case alike_if) simp_all

text \<open>
  C5: the command loop cannot outrun its client. After login a session reads one command per turn and each uses up
  input, so the loop of \<open>process_post_login\<close>, which has no exit of its own, never completes more turns than the client
  sends bytes: before that the process stops, and it stops the same way (\<open>h\<close>) in the same state under
  every larger bound on the turns, so the bound of the model plays no part. The process stops by an exit, by a fatal
  error, or within a command at a point where the model does not follow the code (\<open>Undef\<close>: an undefined
  operation of the C code, a search for a free \<^verbatim>\<open>STOU\<close> name past \<open>2 ^ 32\<close> taken ones, a recursive listing more than
  4096 levels deep); the statement does not tell these apart.
\<close>

theorem session_ends:
  assumes "fresh_session s" and "length (control_in s) < turns"
  shows "\<exists>h s'. process_post_login turns e s = Stop h s' \<and>
    (\<forall>turns' \<ge> turns. process_post_login turns' e s = Stop h s')"
proof -
  obtain h s' where run: "process_post_login turns e s = Stop h s'"
    using session_stops [OF assms(2), of e "is_anonymous s" "p_remote_addr s"] fresh_safe [OF assms(1), of e]
    unfolding stops_def triple_def by (cases "process_post_login turns e s") fastforce+
  moreover have "process_post_login turns' e s = Stop h s'" if "turns \<le> turns'" for turns'
    using session_alike [OF that, of e] run by (simp add: stops_alike_def)
  ultimately show ?thesis by blast
qed

lemma session_ends_witness:
  "\<exists>h s'. process_post_login 9 (calm_env []) (new_session True (''DELE x'' @ [CR, LF])) = Stop h s' \<and>
     process_post_login 20 (calm_env []) (new_session True (''DELE x'' @ [CR, LF])) = Stop h s'"
proof -
  obtain h s' where run: "process_post_login 9 (calm_env []) (new_session True (''DELE x'' @ [CR, LF])) = Stop h s'"
      and all: "\<forall>turns' \<ge> 9. process_post_login turns' (calm_env []) (new_session True (''DELE x'' @ [CR, LF])) = Stop h s'"
    using session_ends [of "new_session True (''DELE x'' @ [CR, LF])" 9 "calm_env []"] by auto
  from all have "process_post_login 20 (calm_env []) (new_session True (''DELE x'' @ [CR, LF])) = Stop h s'" by simp
  with run show ?thesis by blast
qed

text \<open>
  C6: between two commands an address from \<^verbatim>\<open>PORT\<close> or \<^verbatim>\<open>EPRT\<close> and a passive socket never exist together, so that the
  cross-check of \<open>port_active\<close> and \<open>pasv_active\<close> never fails; and a stored address is one that passed the check.
\<close>

theorem port_pasv_exclusive:
  assumes "fresh_session s" and "process_post_login turns e s = Ret u s'"
  shows "data_ok e (p_remote_addr s) (p_port_sockaddr s') (pasv_listen_fd s') (parent_listen_fd s')"
  using confined_process_post_login [of e "is_anonymous s" "p_remote_addr s" "length (control_in s)" turns]
    fresh_safe [OF assms(1), of e] assms(2)
  unfolding leads_def triple_def by (fastforce simp: good_def)

lemma port_pasv_exclusive_witness:
  "\<exists>s'. process_post_login 0 (calm_env []) (new_session True []) = Ret () s' \<and>
     data_ok (calm_env []) vsf_sysutil_sockaddr_alloc_ipv4 (p_port_sockaddr s') (pasv_listen_fd s') (parent_listen_fd s')"
proof -
  obtain s' where s': "process_post_login 0 (calm_env []) (new_session True []) = Ret () s'"
    by (simp add: process_post_login_def str_getcwd_def set_umask_def vsf_banner_dir_changed_def vsf_cmdio_write_def
        ftp_write_text_common_def ftp_write_str_common_def ftp_write_str_def act_simps Let_def)
  from port_pasv_exclusive [OF _ this] s' show ?thesis by simp
qed

end
