(* ===== verification/Bytes.thy ===== *)
theory Bytes
  imports Prelude
begin

text \<open>
  Values of 32 bits in memory, in the byte order of the machines the server runs on (least significant byte first), and
  the reading of a value off the front of a sequence of bytes.
\<close>

definition word_bytes :: "32 word \<Rightarrow> string" where
  "word_bytes w = map (\<lambda>i. char_of (unat w div 256 ^ i mod 256)) [0, 1, 2, 3]"

definition bytes_word :: "string \<Rightarrow> 32 word" where
  "bytes_word bs = word_of_nat (\<Sum>i\<leftarrow>[0, 1, 2, 3]. code (bs ! i) * 256 ^ i)"

lemma length_word_bytes [simp]: "length (word_bytes w) = 4"
  by (simp add: word_bytes_def)

lemma nat_base_256:
  fixes n :: nat
  assumes "n < 4294967296"
  shows "n mod 256 + (n div 256 mod 256 * 256 + (n div 65536 mod 256 * 65536 + n div 16777216 mod 256 * 16777216)) = n"
proof -
  have d: "n div 65536 = n div 256 div 256" "n div 16777216 = n div 256 div 256 div 256"
    by (simp_all add: div_mult2_eq [symmetric])
  have "n div 256 div 256 div 256 < 256" using assms by (simp add: div_mult2_eq [symmetric] less_mult_imp_div_less)
  then have "n div 256 div 256 div 256 mod 256 = n div 256 div 256 div 256" by simp
  then show ?thesis
    using mult_div_mod_eq [of 256 n] mult_div_mod_eq [of 256 "n div 256"] mult_div_mod_eq [of 256 "n div 256 div 256"]
    unfolding d by linarith
qed

lemma base_256_digit:
  fixes a x :: nat
  assumes "a < 256"
  shows "(a + 256 * x) mod 256 = a" and "(a + 256 * x) div 256 = x"
  using assms by simp_all

lemma base_256_bound:
  fixes a b c d :: nat
  shows "a < 256 \<Longrightarrow> b < 256 \<Longrightarrow> c < 256 \<Longrightarrow> d < 256 \<Longrightarrow> a + 256 * (b + 256 * (c + 256 * d)) < 4294967296"
  by simp

lemma bytes_word_bytes [simp]: "bytes_word (word_bytes w) = w"
proof -
  have "unat w < 4294967296" using unsigned_less [of w] by simp
  then show ?thesis
    using nat_base_256 [of "unat w"]
    by (simp add: bytes_word_def word_bytes_def del: of_nat_add of_nat_mult of_nat_mod)
qed

lemma bytes_word_append [simp]: "bytes_word (word_bytes w @ rest) = w"
  using bytes_word_bytes [of w] by (simp add: bytes_word_def nth_append)

lemma bytes_word_take: "4 \<le> length bs \<Longrightarrow> bytes_word (take 4 bs) = bytes_word bs"
  by (simp add: bytes_word_def)

text \<open>Every four bytes are those of the value they hold.\<close>

lemma word_bytes_word: "length bs = 4 \<Longrightarrow> word_bytes (bytes_word bs) = bs"
proof -
  assume "length bs = 4"
  then obtain a b c d where bs: "bs = [a, b, c, d]" by (auto simp: length_Suc_conv eval_nat_numeral)
  let ?n = "code a + 256 * (code b + 256 * (code c + 256 * code d))"
  have r: "code a < 256" "code b < 256" "code c < 256" "code d < 256" by simp_all
  have "?n < 4294967296" by (rule base_256_bound [OF r])
  moreover have "(\<Sum>i\<leftarrow>[0, 1, 2, 3]. code (bs ! i) * 256 ^ i) = ?n" by (simp add: bs)
  ultimately have n: "unat (bytes_word bs) = ?n"
    by (simp only: bytes_word_def) (simp only: unat_of_nat take_bit_nat_eq_self len_bit0 len_num1, simp)
  have d: "?n mod 256 = code a" "?n div 256 mod 256 = code b" "?n div 256 div 256 mod 256 = code c"
      "?n div 256 div 256 div 256 mod 256 = code d"
    by (simp_all only: base_256_digit r) (simp add: r)
  have "?n div 65536 = ?n div 256 div 256" "?n div 16777216 = ?n div 256 div 256 div 256"
    by (simp_all only: div_mult2_eq [symmetric]) simp_all
  then have "char_of (?n mod 256) = a" "char_of (?n div 256 mod 256) = b" "char_of (?n div 65536 mod 256) = c"
      "char_of (?n div 16777216 mod 256) = d"
    by (simp_all only: d) simp_all
  then show ?thesis by (simp only: word_bytes_def list.map n) (simp add: bs)
qed

end
