(* ===== verification/Sandbox.thy ===== *)
theory Sandbox
  imports Bytes
begin

unbundle bit_operations_syntax

text \<open>
  \<^verbatim>\<open>ptracesandbox.c\<close> (its Linux i386 half): a supervisor that runs a process under \<^verbatim>\<open>ptrace\<close> and lets it make only the
  system calls of a policy. Machine words are 32 bits wide. Validators of the policy that are defined elsewhere
  (\<^verbatim>\<open>ftppolicy.c\<close>) are values of a type \<open>'v\<close>, and the function that runs them is a parameter.
\<close>

section \<open>Numbers of the system interface (Linux, i386)\<close>

abbreviation MAX_SYSCALL :: int where "MAX_SYSCALL \<equiv> 300"
abbreviation NPROTO :: nat where "NPROTO \<equiv> 40"

abbreviation NR_exit :: nat where "NR_exit \<equiv> 1"
abbreviation NR_read :: nat where "NR_read \<equiv> 3"
abbreviation NR_write :: nat where "NR_write \<equiv> 4"
abbreviation NR_open :: nat where "NR_open \<equiv> 5"
abbreviation NR_close :: nat where "NR_close \<equiv> 6"
abbreviation NR_unlink :: nat where "NR_unlink \<equiv> 10"
abbreviation NR_chdir :: nat where "NR_chdir \<equiv> 12"
abbreviation NR_time :: nat where "NR_time \<equiv> 13"
abbreviation NR_chmod :: nat where "NR_chmod \<equiv> 15"
abbreviation NR_lseek :: nat where "NR_lseek \<equiv> 19"
abbreviation NR_alarm :: nat where "NR_alarm \<equiv> 27"
abbreviation NR_utime :: nat where "NR_utime \<equiv> 30"
abbreviation NR_rename :: nat where "NR_rename \<equiv> 38"
abbreviation NR_mkdir :: nat where "NR_mkdir \<equiv> 39"
abbreviation NR_rmdir :: nat where "NR_rmdir \<equiv> 40"
abbreviation NR_brk :: nat where "NR_brk \<equiv> 45"
abbreviation NR_fcntl :: nat where "NR_fcntl \<equiv> 55"
abbreviation NR_umask :: nat where "NR_umask \<equiv> 60"
abbreviation NR_sigaction :: nat where "NR_sigaction \<equiv> 67"
abbreviation NR_gettimeofday :: nat where "NR_gettimeofday \<equiv> 78"
abbreviation NR_select :: nat where "NR_select \<equiv> 82"
abbreviation NR_readlink :: nat where "NR_readlink \<equiv> 85"
abbreviation NR_ftruncate :: nat where "NR_ftruncate \<equiv> 93"
abbreviation NR_fchmod :: nat where "NR_fchmod \<equiv> 94"
abbreviation NR_fchown :: nat where "NR_fchown \<equiv> 95"
abbreviation NR_socketcall :: nat where "NR_socketcall \<equiv> 102"
abbreviation NR_stat :: nat where "NR_stat \<equiv> 106"
abbreviation NR_lstat :: nat where "NR_lstat \<equiv> 107"
abbreviation NR_fstat :: nat where "NR_fstat \<equiv> 108"
abbreviation NR_sigreturn :: nat where "NR_sigreturn \<equiv> 119"
abbreviation NR_mprotect :: nat where "NR_mprotect \<equiv> 125"
abbreviation NR_llseek :: nat where "NR_llseek \<equiv> 140"
abbreviation NR_getdents :: nat where "NR_getdents \<equiv> 141"
abbreviation NR_newselect :: nat where "NR_newselect \<equiv> 142"
abbreviation NR_nanosleep :: nat where "NR_nanosleep \<equiv> 162"
abbreviation NR_mremap :: nat where "NR_mremap \<equiv> 163"
abbreviation NR_rt_sigaction :: nat where "NR_rt_sigaction \<equiv> 174"
abbreviation NR_getcwd :: nat where "NR_getcwd \<equiv> 183"
abbreviation NR_sendfile :: nat where "NR_sendfile \<equiv> 187"
abbreviation NR_mmap2 :: nat where "NR_mmap2 \<equiv> 192"
abbreviation NR_ftruncate64 :: nat where "NR_ftruncate64 \<equiv> 194"
abbreviation NR_stat64 :: nat where "NR_stat64 \<equiv> 195"
abbreviation NR_lstat64 :: nat where "NR_lstat64 \<equiv> 196"
abbreviation NR_fstat64 :: nat where "NR_fstat64 \<equiv> 197"
abbreviation NR_fchown32 :: nat where "NR_fchown32 \<equiv> 207"
abbreviation NR_getdents64 :: nat where "NR_getdents64 \<equiv> 220"
abbreviation NR_fcntl64 :: nat where "NR_fcntl64 \<equiv> 221"
abbreviation NR_sendfile64 :: nat where "NR_sendfile64 \<equiv> 239"
abbreviation NR_exit_group :: nat where "NR_exit_group \<equiv> 252"
abbreviation NR_utimes :: nat where "NR_utimes \<equiv> 271"

abbreviation SYS_SOCKET :: nat where "SYS_SOCKET \<equiv> 1"
abbreviation SYS_BIND :: nat where "SYS_BIND \<equiv> 2"
abbreviation SYS_CONNECT :: nat where "SYS_CONNECT \<equiv> 3"
abbreviation SYS_LISTEN :: nat where "SYS_LISTEN \<equiv> 4"
abbreviation SYS_ACCEPT :: nat where "SYS_ACCEPT \<equiv> 5"
abbreviation SYS_RECV :: nat where "SYS_RECV \<equiv> 10"
abbreviation SYS_SHUTDOWN :: nat where "SYS_SHUTDOWN \<equiv> 13"
abbreviation SYS_SETSOCKOPT :: nat where "SYS_SETSOCKOPT \<equiv> 14"
abbreviation SYS_GETSOCKOPT :: nat where "SYS_GETSOCKOPT \<equiv> 15"

abbreviation MAP_SHARED :: "32 word" where "MAP_SHARED \<equiv> 1"
abbreviation O_ACCMODE :: "32 word" where "O_ACCMODE \<equiv> 3"
abbreviation O_RDONLY :: "32 word" where "O_RDONLY \<equiv> 0"
abbreviation O_ASYNC :: "32 word" where "O_ASYNC \<equiv> 0x2000"
abbreviation O_DIRECT :: "32 word" where "O_DIRECT \<equiv> 0x4000"
abbreviation O_SYNC :: "32 word" where "O_SYNC \<equiv> 0x101000"
abbreviation F_GETFD :: "32 word" where "F_GETFD \<equiv> 1"
abbreviation F_SETFD :: "32 word" where "F_SETFD \<equiv> 2"
abbreviation F_GETFL :: "32 word" where "F_GETFL \<equiv> 3"
abbreviation F_SETFL :: "32 word" where "F_SETFL \<equiv> 4"
abbreviation F_SETLK :: "32 word" where "F_SETLK \<equiv> 6"
abbreviation F_SETLKW :: "32 word" where "F_SETLKW \<equiv> 7"
abbreviation F_SETOWN :: "32 word" where "F_SETOWN \<equiv> 8"
abbreviation F_SETLK64 :: "32 word" where "F_SETLK64 \<equiv> 13"
abbreviation F_SETLKW64 :: "32 word" where "F_SETLKW64 \<equiv> 14"

abbreviation ESRCH :: int where "ESRCH \<equiv> 3"
abbreviation EINTR :: int where "EINTR \<equiv> 4"
abbreviation ECHILD :: int where "ECHILD \<equiv> 10"
abbreviation SIGKILL :: int where "SIGKILL \<equiv> 9"
abbreviation SIGCONT :: int where "SIGCONT \<equiv> 18"
abbreviation SIGSTOP :: int where "SIGSTOP \<equiv> 19"

abbreviation PTRACE_SANDBOX_ERR_DEAD :: int where "PTRACE_SANDBOX_ERR_DEAD \<equiv> -1"
abbreviation PTRACE_SANDBOX_ERR_PTRACE :: int where "PTRACE_SANDBOX_ERR_PTRACE \<equiv> -2"
abbreviation PTRACE_SANDBOX_ERR_WAITPID :: int where "PTRACE_SANDBOX_ERR_WAITPID \<equiv> -3"
abbreviation PTRACE_SANDBOX_ERR_WAIT_STATUS :: int where "PTRACE_SANDBOX_ERR_WAIT_STATUS \<equiv> -4"
abbreviation PTRACE_SANDBOX_ERR_POLICY_SYSCALL :: int where "PTRACE_SANDBOX_ERR_POLICY_SYSCALL \<equiv> -5"
abbreviation PTRACE_SANDBOX_ERR_BAD_SYSCALL :: int where "PTRACE_SANDBOX_ERR_BAD_SYSCALL \<equiv> -6"
abbreviation PTRACE_SANDBOX_ERR_POLICY_ARGS :: int where "PTRACE_SANDBOX_ERR_POLICY_ARGS \<equiv> -7"
abbreviation PTRACE_SANDBOX_ERR_API_ABUSE_STOPIT :: int where "PTRACE_SANDBOX_ERR_API_ABUSE_STOPIT \<equiv> -8"

section \<open>The sandbox\<close>

record user_regs =
  ebx :: "32 word"
  ecx :: "32 word"
  edx :: "32 word"
  esi :: "32 word"
  edi :: "32 word"
  ebp :: "32 word"
  orig_eax :: "32 word"
  xcs :: "32 word"
  eip :: "32 word"

definition zero_regs :: user_regs where
  "zero_regs = \<lparr>ebx = 0, ecx = 0, edx = 0, esi = 0, edi = 0, ebp = 0, orig_eax = 0, xcs = 0, eip = 0\<rparr>"

text \<open>The functions whose addresses the tables of validators hold.\<close>

datatype validator =
    validate_mmap2_ptr | validate_open_default_ptr | validate_open_readonly_ptr | validate_fcntl_ptr
  | validate_socketcall_ptr

text \<open>
  \<open>struct pt_sandbox\<close>. The arrays are functions of the index; the code tests an index from outside before it uses it.
  \<open>validator_arg\<close> is 0 throughout, and the argument of a socketcall validator is part of its \<open>'v\<close>.
\<close>

record 'v pt_sandbox =
  read_event_fd :: int
  write_event_fd :: int
  pid :: int
  is_allowed :: "nat \<Rightarrow> bool"
  validator :: "nat \<Rightarrow> validator option"
  is_exit :: bool
  regs :: user_regs
  is_socketcall_allowed :: "nat \<Rightarrow> bool"
  socketcall_validator :: "nat \<Rightarrow> 'v option"

text \<open>With memory available and \<open>sigaction\<close> working; otherwise the source returns \<open>NULL\<close>.\<close>

definition ptrace_sandbox_alloc :: "bool \<Rightarrow> bool \<Rightarrow> 'v pt_sandbox option" where
  "ptrace_sandbox_alloc malloc_ok sigaction_ok =
     (if malloc_ok \<and> sigaction_ok
      then Some \<lparr>read_event_fd = -1, write_event_fd = -1, pid = -1, is_allowed = (\<lambda>_. False), validator = (\<lambda>_. None),
                 is_exit = False, regs = zero_regs, is_socketcall_allowed = (\<lambda>_. False),
                 socketcall_validator = (\<lambda>_. None)\<rparr>
      else None)"

section \<open>Editing the policy\<close>

definition allow :: "nat \<Rightarrow> 'v pt_sandbox \<Rightarrow> 'v pt_sandbox" where
  "allow n p = p\<lparr>is_allowed := (is_allowed p)(n := True)\<rparr>"

definition set_validator :: "nat \<Rightarrow> validator \<Rightarrow> 'v pt_sandbox \<Rightarrow> 'v pt_sandbox" where
  "set_validator n v p = p\<lparr>validator := (validator p)(n := Some v)\<rparr>"

definition allow_socketcall :: "nat \<Rightarrow> 'v pt_sandbox \<Rightarrow> 'v pt_sandbox" where
  "allow_socketcall n p = p\<lparr>is_socketcall_allowed := (is_socketcall_allowed p)(n := True)\<rparr>"

definition set_socketcall_validator :: "nat \<Rightarrow> 'v \<Rightarrow> 'v pt_sandbox \<Rightarrow> 'v pt_sandbox" where
  "set_socketcall_validator n v p = p\<lparr>socketcall_validator := (socketcall_validator p)(n := Some v)\<rparr>"

definition ptrace_sandbox_permit_exit :: "'v pt_sandbox \<Rightarrow> 'v pt_sandbox" where
  "ptrace_sandbox_permit_exit p = allow NR_exit_group (allow NR_exit p)"

definition ptrace_sandbox_permit_read :: "'v pt_sandbox \<Rightarrow> 'v pt_sandbox" where
  "ptrace_sandbox_permit_read p = allow NR_read p"

definition ptrace_sandbox_permit_write :: "'v pt_sandbox \<Rightarrow> 'v pt_sandbox" where
  "ptrace_sandbox_permit_write p = allow NR_write p"

definition ptrace_sandbox_permit_sigaction :: "'v pt_sandbox \<Rightarrow> 'v pt_sandbox" where
  "ptrace_sandbox_permit_sigaction p = allow NR_rt_sigaction (allow NR_sigaction p)"

definition ptrace_sandbox_permit_alarm :: "'v pt_sandbox \<Rightarrow> 'v pt_sandbox" where
  "ptrace_sandbox_permit_alarm p = allow NR_alarm p"

definition ptrace_sandbox_permit_query_time :: "'v pt_sandbox \<Rightarrow> 'v pt_sandbox" where
  "ptrace_sandbox_permit_query_time p = allow NR_time (allow NR_gettimeofday p)"

definition ptrace_sandbox_permit_mprotect :: "'v pt_sandbox \<Rightarrow> 'v pt_sandbox" where
  "ptrace_sandbox_permit_mprotect p = allow NR_mprotect p"

definition ptrace_sandbox_permit_file_stats :: "'v pt_sandbox \<Rightarrow> 'v pt_sandbox" where
  "ptrace_sandbox_permit_file_stats p = allow NR_lstat64 (allow NR_lstat (allow NR_stat64 (allow NR_stat p)))"

definition ptrace_sandbox_permit_fd_stats :: "'v pt_sandbox \<Rightarrow> 'v pt_sandbox" where
  "ptrace_sandbox_permit_fd_stats p = allow NR_fstat64 (allow NR_fstat p)"

definition ptrace_sandbox_permit_getcwd :: "'v pt_sandbox \<Rightarrow> 'v pt_sandbox" where
  "ptrace_sandbox_permit_getcwd p = allow NR_getcwd p"

definition ptrace_sandbox_permit_chdir :: "'v pt_sandbox \<Rightarrow> 'v pt_sandbox" where
  "ptrace_sandbox_permit_chdir p = allow NR_chdir p"

definition ptrace_sandbox_permit_umask :: "'v pt_sandbox \<Rightarrow> 'v pt_sandbox" where
  "ptrace_sandbox_permit_umask p = allow NR_umask p"

definition ptrace_sandbox_permit_close :: "'v pt_sandbox \<Rightarrow> 'v pt_sandbox" where
  "ptrace_sandbox_permit_close p = allow NR_close p"

definition ptrace_sandbox_permit_getdents :: "'v pt_sandbox \<Rightarrow> 'v pt_sandbox" where
  "ptrace_sandbox_permit_getdents p = allow NR_getdents64 (allow NR_getdents p)"

definition ptrace_sandbox_permit_sendfile :: "'v pt_sandbox \<Rightarrow> 'v pt_sandbox" where
  "ptrace_sandbox_permit_sendfile p = allow NR_sendfile64 (allow NR_sendfile p)"

definition ptrace_sandbox_permit_seek :: "'v pt_sandbox \<Rightarrow> 'v pt_sandbox" where
  "ptrace_sandbox_permit_seek p = allow NR_llseek (allow NR_lseek p)"

definition ptrace_sandbox_permit_select :: "'v pt_sandbox \<Rightarrow> 'v pt_sandbox" where
  "ptrace_sandbox_permit_select p = allow NR_newselect (allow NR_select p)"

definition ptrace_sandbox_permit_unlink :: "'v pt_sandbox \<Rightarrow> 'v pt_sandbox" where
  "ptrace_sandbox_permit_unlink p = allow NR_unlink p"

definition ptrace_sandbox_permit_mkdir :: "'v pt_sandbox \<Rightarrow> 'v pt_sandbox" where
  "ptrace_sandbox_permit_mkdir p = allow NR_mkdir p"

definition ptrace_sandbox_permit_rmdir :: "'v pt_sandbox \<Rightarrow> 'v pt_sandbox" where
  "ptrace_sandbox_permit_rmdir p = allow NR_rmdir p"

definition ptrace_sandbox_permit_rename :: "'v pt_sandbox \<Rightarrow> 'v pt_sandbox" where
  "ptrace_sandbox_permit_rename p = allow NR_rename p"

definition ptrace_sandbox_permit_utime :: "'v pt_sandbox \<Rightarrow> 'v pt_sandbox" where
  "ptrace_sandbox_permit_utime p = allow NR_utimes (allow NR_utime p)"

definition ptrace_sandbox_permit_sigreturn :: "'v pt_sandbox \<Rightarrow> 'v pt_sandbox" where
  "ptrace_sandbox_permit_sigreturn p = allow NR_sigreturn p"

definition ptrace_sandbox_permit_readlink :: "'v pt_sandbox \<Rightarrow> 'v pt_sandbox" where
  "ptrace_sandbox_permit_readlink p = allow NR_readlink p"

definition ptrace_sandbox_permit_brk :: "'v pt_sandbox \<Rightarrow> 'v pt_sandbox" where
  "ptrace_sandbox_permit_brk p = allow NR_brk p"

definition ptrace_sandbox_permit_sleep :: "'v pt_sandbox \<Rightarrow> 'v pt_sandbox" where
  "ptrace_sandbox_permit_sleep p = allow NR_nanosleep p"

definition ptrace_sandbox_permit_fchmod :: "'v pt_sandbox \<Rightarrow> 'v pt_sandbox" where
  "ptrace_sandbox_permit_fchmod p = allow NR_fchmod p"

definition ptrace_sandbox_permit_chmod :: "'v pt_sandbox \<Rightarrow> 'v pt_sandbox" where
  "ptrace_sandbox_permit_chmod p = allow NR_chmod p"

definition ptrace_sandbox_permit_fchown :: "'v pt_sandbox \<Rightarrow> 'v pt_sandbox" where
  "ptrace_sandbox_permit_fchown p = allow NR_fchown32 (allow NR_fchown p)"

definition ptrace_sandbox_permit_mremap :: "'v pt_sandbox \<Rightarrow> 'v pt_sandbox" where
  "ptrace_sandbox_permit_mremap p = allow NR_mremap p"

definition ptrace_sandbox_permit_ftruncate :: "'v pt_sandbox \<Rightarrow> 'v pt_sandbox" where
  "ptrace_sandbox_permit_ftruncate p = allow NR_ftruncate64 (allow NR_ftruncate p)"

definition ptrace_sandbox_permit_mmap :: "'v pt_sandbox \<Rightarrow> 'v pt_sandbox" where
  "ptrace_sandbox_permit_mmap p = set_validator NR_mmap2 validate_mmap2_ptr (allow NR_mmap2 p)"

definition ptrace_sandbox_permit_open :: "bool \<Rightarrow> 'v pt_sandbox \<Rightarrow> 'v pt_sandbox" where
  "ptrace_sandbox_permit_open writeable p =
     set_validator NR_open (if writeable then validate_open_default_ptr else validate_open_readonly_ptr) (allow NR_open p)"

definition ptrace_sandbox_permit_fcntl :: "'v pt_sandbox \<Rightarrow> 'v pt_sandbox" where
  "ptrace_sandbox_permit_fcntl p =
     set_validator NR_fcntl64 validate_fcntl_ptr (allow NR_fcntl64
       (set_validator NR_fcntl validate_fcntl_ptr (allow NR_fcntl p)))"

definition install_socketcall :: "'v pt_sandbox \<Rightarrow> 'v pt_sandbox" where
  "install_socketcall p = set_validator NR_socketcall validate_socketcall_ptr (allow NR_socketcall p)"

definition ptrace_sandbox_permit_recv :: "'v pt_sandbox \<Rightarrow> 'v pt_sandbox" where
  "ptrace_sandbox_permit_recv p = allow_socketcall SYS_RECV (install_socketcall p)"

definition ptrace_sandbox_permit_socket :: "'v pt_sandbox \<Rightarrow> 'v pt_sandbox" where
  "ptrace_sandbox_permit_socket p = allow_socketcall SYS_SOCKET (install_socketcall p)"

definition ptrace_sandbox_permit_bind :: "'v pt_sandbox \<Rightarrow> 'v pt_sandbox" where
  "ptrace_sandbox_permit_bind p = allow_socketcall SYS_BIND (install_socketcall p)"

definition ptrace_sandbox_permit_connect :: "'v pt_sandbox \<Rightarrow> 'v pt_sandbox" where
  "ptrace_sandbox_permit_connect p = allow_socketcall SYS_CONNECT (install_socketcall p)"

definition ptrace_sandbox_permit_listen :: "'v pt_sandbox \<Rightarrow> 'v pt_sandbox" where
  "ptrace_sandbox_permit_listen p = allow_socketcall SYS_LISTEN (install_socketcall p)"

definition ptrace_sandbox_permit_accept :: "'v pt_sandbox \<Rightarrow> 'v pt_sandbox" where
  "ptrace_sandbox_permit_accept p = allow_socketcall SYS_ACCEPT (install_socketcall p)"

definition ptrace_sandbox_permit_setsockopt :: "'v pt_sandbox \<Rightarrow> 'v pt_sandbox" where
  "ptrace_sandbox_permit_setsockopt p = allow_socketcall SYS_SETSOCKOPT (install_socketcall p)"

definition ptrace_sandbox_permit_getsockopt :: "'v pt_sandbox \<Rightarrow> 'v pt_sandbox" where
  "ptrace_sandbox_permit_getsockopt p = allow_socketcall SYS_GETSOCKOPT (install_socketcall p)"

definition ptrace_sandbox_permit_shutdown :: "'v pt_sandbox \<Rightarrow> 'v pt_sandbox" where
  "ptrace_sandbox_permit_shutdown p = allow_socketcall SYS_SHUTDOWN (install_socketcall p)"

definition ptrace_sandbox_set_socket_validator :: "'v \<Rightarrow> 'v pt_sandbox \<Rightarrow> 'v pt_sandbox" where
  "ptrace_sandbox_set_socket_validator = set_socketcall_validator SYS_SOCKET"

definition ptrace_sandbox_set_bind_validator :: "'v \<Rightarrow> 'v pt_sandbox \<Rightarrow> 'v pt_sandbox" where
  "ptrace_sandbox_set_bind_validator = set_socketcall_validator SYS_BIND"

definition ptrace_sandbox_set_connect_validator :: "'v \<Rightarrow> 'v pt_sandbox \<Rightarrow> 'v pt_sandbox" where
  "ptrace_sandbox_set_connect_validator = set_socketcall_validator SYS_CONNECT"

definition ptrace_sandbox_set_setsockopt_validator :: "'v \<Rightarrow> 'v pt_sandbox \<Rightarrow> 'v pt_sandbox" where
  "ptrace_sandbox_set_setsockopt_validator = set_socketcall_validator SYS_SETSOCKOPT"

definition ptrace_sandbox_set_getsockopt_validator :: "'v \<Rightarrow> 'v pt_sandbox \<Rightarrow> 'v pt_sandbox" where
  "ptrace_sandbox_set_getsockopt_validator = set_socketcall_validator SYS_GETSOCKOPT"

lemmas permit_defs =
  ptrace_sandbox_permit_exit_def ptrace_sandbox_permit_read_def ptrace_sandbox_permit_write_def
  ptrace_sandbox_permit_sigaction_def ptrace_sandbox_permit_alarm_def ptrace_sandbox_permit_query_time_def
  ptrace_sandbox_permit_mprotect_def ptrace_sandbox_permit_file_stats_def ptrace_sandbox_permit_fd_stats_def
  ptrace_sandbox_permit_getcwd_def ptrace_sandbox_permit_chdir_def ptrace_sandbox_permit_umask_def
  ptrace_sandbox_permit_close_def ptrace_sandbox_permit_getdents_def ptrace_sandbox_permit_sendfile_def
  ptrace_sandbox_permit_seek_def ptrace_sandbox_permit_select_def ptrace_sandbox_permit_unlink_def
  ptrace_sandbox_permit_mkdir_def ptrace_sandbox_permit_rmdir_def ptrace_sandbox_permit_rename_def
  ptrace_sandbox_permit_utime_def ptrace_sandbox_permit_sigreturn_def ptrace_sandbox_permit_readlink_def
  ptrace_sandbox_permit_brk_def ptrace_sandbox_permit_sleep_def ptrace_sandbox_permit_fchmod_def
  ptrace_sandbox_permit_chmod_def ptrace_sandbox_permit_fchown_def ptrace_sandbox_permit_mremap_def
  ptrace_sandbox_permit_ftruncate_def ptrace_sandbox_permit_mmap_def ptrace_sandbox_permit_open_def
  ptrace_sandbox_permit_fcntl_def install_socketcall_def ptrace_sandbox_permit_recv_def
  ptrace_sandbox_permit_socket_def ptrace_sandbox_permit_bind_def ptrace_sandbox_permit_connect_def
  ptrace_sandbox_permit_listen_def ptrace_sandbox_permit_accept_def ptrace_sandbox_permit_setsockopt_def
  ptrace_sandbox_permit_getsockopt_def ptrace_sandbox_permit_shutdown_def ptrace_sandbox_set_socket_validator_def
  ptrace_sandbox_set_bind_validator_def ptrace_sandbox_set_connect_validator_def
  ptrace_sandbox_set_setsockopt_validator_def ptrace_sandbox_set_getsockopt_validator_def allow_def
  set_validator_def allow_socketcall_def set_socketcall_validator_def

section \<open>Looking at the child\<close>

text \<open>
  What \<^verbatim>\<open>PTRACE_PEEKDATA\<close> answers at an address: the word there, or an \<open>errno\<close>. A look ends in a value, an error code, or
  (\<open>Wild\<close>) in a write outside the caller's buffer.
\<close>

type_synonym child_memory = "32 word \<Rightarrow> int + 32 word"

datatype 'a look_res = Val 'a | Err int | Wild

definition thn :: "'a look_res \<Rightarrow> ('a \<Rightarrow> 'b look_res) \<Rightarrow> 'b look_res" where
  "thn r f = (case r of Val a \<Rightarrow> f a | Err c \<Rightarrow> Err c | Wild \<Rightarrow> Wild)"

definition ptrace_sandbox_get_arg :: "'v pt_sandbox \<Rightarrow> int \<Rightarrow> 32 word look_res" where
  "ptrace_sandbox_get_arg p arg =
     (if orig_eax (regs p) = 0 then Err PTRACE_SANDBOX_ERR_API_ABUSE_STOPIT
      else if arg < 0 \<or> arg > 5 then Err PTRACE_SANDBOX_ERR_API_ABUSE_STOPIT
      else Val (if arg = 0 then ebx (regs p) else if arg = 1 then ecx (regs p) else if arg = 2 then edx (regs p)
                else if arg = 3 then esi (regs p) else if arg = 4 then edi (regs p) else ebp (regs p)))"

definition peek :: "child_memory \<Rightarrow> 32 word \<Rightarrow> 32 word look_res" where
  "peek m ptr =
     (case m ptr of
        Inr w \<Rightarrow> Val w
      | Inl err \<Rightarrow> Err (if err = ESRCH then PTRACE_SANDBOX_ERR_DEAD else PTRACE_SANDBOX_ERR_PTRACE))"

text \<open>
  The loop counts an \<open>unsigned long\<close> down by 4 until it is 0. If it is not a multiple of 4 it wraps around after the last
  bytes, and the next word that can be read is written behind the buffer.
\<close>

function ptrace_sandbox_get_buf :: "child_memory \<Rightarrow> 32 word \<Rightarrow> nat \<Rightarrow> string look_res" where
  "ptrace_sandbox_get_buf m ptr len =
     (if len = 0 then Val []
      else thn (peek m ptr) (\<lambda>w.
           if 4 \<le> len
           then thn (ptrace_sandbox_get_buf m (ptr + 4) (len - 4)) (\<lambda>rest. Val (word_bytes w @ rest))
           else thn (peek m (ptr + 4)) (\<lambda>_. Wild)))"
  by pat_completeness auto
termination by (relation "measure (\<lambda>(m, ptr, len). len)") auto

declare ptrace_sandbox_get_buf.simps [simp del]

definition ptrace_sandbox_get_long :: "child_memory \<Rightarrow> 32 word \<Rightarrow> 32 word look_res" where
  "ptrace_sandbox_get_long m ptr = thn (ptrace_sandbox_get_buf m ptr 4) (\<lambda>bs. Val (bytes_word bs))"

definition ptrace_sandbox_get_socketcall_arg :: "'v pt_sandbox \<Rightarrow> child_memory \<Rightarrow> int \<Rightarrow> 32 word look_res" where
  "ptrace_sandbox_get_socketcall_arg p m arg =
     (if orig_eax (regs p) = 0 then Err PTRACE_SANDBOX_ERR_API_ABUSE_STOPIT
      else if arg < 0 \<or> arg > 2 then Err PTRACE_SANDBOX_ERR_API_ABUSE_STOPIT
      else thn (ptrace_sandbox_get_arg p 1) (\<lambda>ptr. ptrace_sandbox_get_long m (ptr + word_of_int (arg * 4))))"

section \<open>Validators\<close>

type_synonym 'v extern = "'v \<Rightarrow> 'v pt_sandbox \<Rightarrow> child_memory \<Rightarrow> unit look_res"

definition refuse_if :: "bool \<Rightarrow> int \<Rightarrow> unit look_res" where
  "refuse_if c r = (if c then Err r else Val ())"

definition validate_mmap2 :: "'v pt_sandbox \<Rightarrow> unit look_res" where
  "validate_mmap2 p = thn (ptrace_sandbox_get_arg p 3) (\<lambda>arg4. refuse_if (arg4 AND MAP_SHARED \<noteq> 0) (-1))"

definition validate_open_default :: "'v pt_sandbox \<Rightarrow> unit look_res" where
  "validate_open_default p =
     thn (ptrace_sandbox_get_arg p 1) (\<lambda>arg2. refuse_if (arg2 AND (O_ASYNC OR O_DIRECT OR O_SYNC) \<noteq> 0) (-1))"

definition validate_open_readonly :: "'v pt_sandbox \<Rightarrow> unit look_res" where
  "validate_open_readonly p =
     thn (validate_open_default p) (\<lambda>_.
     thn (ptrace_sandbox_get_arg p 1) (\<lambda>arg2. refuse_if (arg2 AND O_ACCMODE \<noteq> O_RDONLY) (-1)))"

definition fcntl_commands :: "32 word list" where
  "fcntl_commands = [F_GETFL, F_SETFL, F_SETOWN, F_SETLK, F_SETLKW, F_SETLK64, F_SETLKW64, F_SETFD, F_GETFD]"

definition validate_fcntl :: "'v pt_sandbox \<Rightarrow> unit look_res" where
  "validate_fcntl p =
     thn (ptrace_sandbox_get_arg p 1) (\<lambda>arg2.
     thn (ptrace_sandbox_get_arg p 2) (\<lambda>arg3.
     if arg2 \<notin> set fcntl_commands then Err (-1)
     else if arg2 = F_SETFL \<and> arg3 AND (O_ASYNC OR O_DIRECT) \<noteq> 0 then Err (-2)
     else refuse_if (arg2 = F_SETOWN \<and> sint arg3 \<noteq> pid p) (-3)))"

definition validate_socketcall :: "'v extern \<Rightarrow> 'v pt_sandbox \<Rightarrow> child_memory \<Rightarrow> unit look_res" where
  "validate_socketcall ext p m =
     thn (ptrace_sandbox_get_arg p 0) (\<lambda>arg1.
     if unat arg1 < 1 \<or> NPROTO \<le> unat arg1 then Err (-1)
     else if \<not> is_socketcall_allowed p (unat arg1) then Err (-2)
     else (case socketcall_validator p (unat arg1) of
             None \<Rightarrow> Val ()
           | Some v \<Rightarrow> (case ext v p m of Val _ \<Rightarrow> Val () | Err c \<Rightarrow> Err (-3) | Wild \<Rightarrow> Wild)))"

definition run_validator :: "'v extern \<Rightarrow> validator \<Rightarrow> 'v pt_sandbox \<Rightarrow> child_memory \<Rightarrow> unit look_res" where
  "run_validator ext v p m =
     (case v of
        validate_mmap2_ptr \<Rightarrow> validate_mmap2 p
      | validate_open_default_ptr \<Rightarrow> validate_open_default p
      | validate_open_readonly_ptr \<Rightarrow> validate_open_readonly p
      | validate_fcntl_ptr \<Rightarrow> validate_fcntl p
      | validate_socketcall_ptr \<Rightarrow> validate_socketcall ext p m)"

section \<open>The traced process\<close>

text \<open>
  One return of \<open>waitpid\<close> in the supervisor: the result and \<open>errno\<close>, the status, the registers and the memory of the
  child as it is then, and the answers to the \<open>ptrace\<close> calls that may follow (0, or an \<open>errno\<close>).
\<close>

record stop =
  wait_ret :: int
  wait_errno :: int
  status :: nat
  child_regs :: user_regs
  child_mem :: child_memory
  getregs_err :: int
  setregs_err :: int
  cont_err :: int

definition WIFEXITED :: "nat \<Rightarrow> bool" where "WIFEXITED st \<longleftrightarrow> st mod 128 = 0"
definition WIFSIGNALED :: "nat \<Rightarrow> bool" where "WIFSIGNALED st \<longleftrightarrow> 1 \<le> st mod 128 \<and> st mod 128 \<le> 126"
definition WIFSTOPPED :: "nat \<Rightarrow> bool" where "WIFSTOPPED st \<longleftrightarrow> st mod 256 = 127"
definition WSTOPSIG :: "nat \<Rightarrow> int" where "WSTOPSIG st = int (st div 256 mod 256)"

text \<open>
  The kernel's side, after \<^verbatim>\<open>ptrace(2)\<close> with \<^verbatim>\<open>PTRACE_O_TRACESYSGOOD\<close>: the child stops at the entry of every system call
  and again at its exit, with bit 7 of the signal set; the call of an entry is \<open>pending\<close> while the child is stopped
  there, and runs with the registers of that moment as soon as the child goes on. It goes on by \<^verbatim>\<open>PTRACE_SYSCALL\<close>, and also
  when it is killed (a kill of a child that is stopped at an entry comes too late for the call). \<open>calls_run\<close> are the calls
  that ran, each with the memory it saw, and \<open>delivered\<close> the signals that the supervisor let through or sent.
\<close>

record traced =
  future :: "stop list"
  here :: stop
  in_call :: bool
  pending :: bool
  now_regs :: user_regs
  delivered :: "int list"
  calls_run :: "(user_regs \<times> child_memory) list"

definition syscall_stop :: "stop \<Rightarrow> bool" where
  "syscall_stop st \<longleftrightarrow> 0 < wait_ret st \<and> WIFSTOPPED (status st) \<and> 128 \<le> WSTOPSIG (status st)"

definition reach :: "stop \<Rightarrow> traced \<Rightarrow> traced" where
  "reach st w =
     (let ic = (if syscall_stop st then \<not> in_call w else in_call w) in
      w\<lparr>here := st, in_call := ic, pending := (syscall_stop st \<and> ic), now_regs := child_regs st\<rparr>)"

definition go_on :: "traced \<Rightarrow> traced" where
  "go_on w = (if pending w then w\<lparr>pending := False, calls_run := (now_regs w, child_mem (here w)) # calls_run w\<rparr> else w)"

section \<open>The supervisor\<close>

definition deliver :: "int \<Rightarrow> traced \<Rightarrow> traced" where
  "deliver sig w = (if sig = 0 then w else w\<lparr>delivered := sig # delivered w\<rparr>)"

definition ptrace_sandbox_continue_process :: "int \<Rightarrow> traced \<Rightarrow> int \<times> traced" where
  "ptrace_sandbox_continue_process sig w =
     (if cont_err (here w) = 0 then (0, deliver sig (go_on w))
      else (if cont_err (here w) = ESRCH then PTRACE_SANDBOX_ERR_DEAD else PTRACE_SANDBOX_ERR_PTRACE, w))"

definition get_action :: "'v extern \<Rightarrow> 'v pt_sandbox \<Rightarrow> traced \<Rightarrow> (int \<times> 'v pt_sandbox) option" where
  "get_action ext p w =
     (let err = getregs_err (here w) in
      if err \<noteq> 0 then Some (if err = ESRCH then PTRACE_SANDBOX_ERR_DEAD else PTRACE_SANDBOX_ERR_PTRACE, p)
      else
        let p = p\<lparr>regs := now_regs w\<rparr>;
            cs = sint (xcs (regs p));
            call = sint (orig_eax (regs p));
            out = (\<lambda>r. Some (r, p\<lparr>regs := zero_regs\<rparr>))
        in if cs \<noteq> 0x73 \<and> cs \<noteq> 0x23 then out PTRACE_SANDBOX_ERR_BAD_SYSCALL
           else if call < 0 \<or> call \<ge> MAX_SYSCALL then out PTRACE_SANDBOX_ERR_BAD_SYSCALL
           else if \<not> is_allowed p (nat call) then out PTRACE_SANDBOX_ERR_POLICY_SYSCALL
           else case validator p (nat call) of
                  None \<Rightarrow> out 0
                | Some v \<Rightarrow>
                    (case run_validator ext v p (child_mem (here w)) of
                       Val _ \<Rightarrow> out 0 | Err c \<Rightarrow> out PTRACE_SANDBOX_ERR_POLICY_ARGS | Wild \<Rightarrow> None))"

text \<open>\<open>None\<close>: undefined behaviour in a validator. The result has the source's return value and the new states.\<close>

definition ptrace_sandbox_handle_event :: "'v extern \<Rightarrow> 'v pt_sandbox \<Rightarrow> traced \<Rightarrow> (int \<times> 'v pt_sandbox \<times> traced) option" where
  "ptrace_sandbox_handle_event ext p w =
     (let st = status (here w);
          sig = WSTOPSIG st;
          continue_process = (\<lambda>sig p. case ptrace_sandbox_continue_process sig w of (r, w') \<Rightarrow> Some (r, p, w'))
      in if WIFEXITED st \<or> WIFSIGNALED st then Some (1, p\<lparr>pid := -1\<rparr>, w)
         else if \<not> WIFSTOPPED st then Some (PTRACE_SANDBOX_ERR_WAIT_STATUS, p, w)
         else if sig \<ge> 0 \<and> sig < 0x80 then continue_process (if sig = SIGSTOP \<or> sig = SIGCONT then SIGKILL else sig) p
         else if is_exit p then continue_process 0 (p\<lparr>is_exit := False\<rparr>)
         else (case get_action ext (p\<lparr>is_exit := True\<rparr>) w of
                 None \<Rightarrow> None
               | Some (action, p') \<Rightarrow> if action \<noteq> 0 then Some (action, p', w) else continue_process 0 p'))"

definition ptrace_sandbox_kill_processes :: "'v pt_sandbox \<Rightarrow> traced \<Rightarrow> 'v pt_sandbox \<times> traced" where
  "ptrace_sandbox_kill_processes p w =
     (if pid p = -1 then (p, w)
      else if getregs_err (here w) \<noteq> 0 then (p\<lparr>pid := -1\<rparr>, deliver SIGKILL (go_on w))
      else let w = (if setregs_err (here w) = 0
                    then w\<lparr>now_regs := (now_regs w)\<lparr>orig_eax := word_of_nat NR_exit_group, eip := 0xFFFFFFFF\<rparr>\<rparr> else w)
           in (p\<lparr>pid := -1\<rparr>, deliver SIGKILL (go_on w)))"

text \<open>
  The loop of \<open>ptrace_sandbox_run_processes\<close>, on the returns of \<open>waitpid\<close> to come. Those with \<^verbatim>\<open>EINTR\<close> are retried. Without
  another one the supervisor waits for ever: \<open>Waiting\<close>.
\<close>

datatype 'v run_res = Returned int "'v pt_sandbox" traced | Waiting "'v pt_sandbox" traced | Undefined

definition give_up :: "'v pt_sandbox \<Rightarrow> traced \<Rightarrow> 'v run_res" where
  "give_up p w = (case ptrace_sandbox_kill_processes p w of (p', w') \<Rightarrow> Returned (-1) p' w')"

definition ptrace_sandbox_get_event :: "stop \<Rightarrow> int" where
  "ptrace_sandbox_get_event st =
     (if wait_ret st = -1
      then if wait_errno st = ECHILD then PTRACE_SANDBOX_ERR_DEAD else PTRACE_SANDBOX_ERR_WAITPID
      else wait_ret st)"

primrec run_loop :: "'v extern \<Rightarrow> 'v pt_sandbox \<Rightarrow> traced \<Rightarrow> stop list \<Rightarrow> 'v run_res" where
  "run_loop ext p w [] = Waiting p w"
| "run_loop ext p w (st # sts) =
     (if wait_ret st = -1 \<and> wait_errno st = EINTR then run_loop ext p w sts
      else let w = reach st w in
           if ptrace_sandbox_get_event st \<le> 0 then give_up p w
           else case ptrace_sandbox_handle_event ext p w of
                  None \<Rightarrow> Undefined
                | Some (r, p', w') \<Rightarrow>
                    if r < 0 then give_up p' w' else if r = 1 then Returned 0 p' w' else run_loop ext p' w' sts)"

definition ptrace_sandbox_run_processes :: "'v extern \<Rightarrow> 'v pt_sandbox \<Rightarrow> traced \<Rightarrow> 'v run_res" where
  "ptrace_sandbox_run_processes ext p w =
     (case ptrace_sandbox_continue_process 0 w of
        (r, w') \<Rightarrow> if r \<noteq> 0 then give_up p w' else run_loop ext p w' (future w'))"

fun run_world :: "'v run_res \<Rightarrow> traced option" where
  "run_world (Returned r p w) = Some w"
| "run_world (Waiting p w) = Some w"
| "run_world Undefined = None"

section \<open>Starting and ending\<close>

text \<open>The child's first steps: exit codes where the source gives up, \<open>None\<close> where it goes on.\<close>

definition sanitize_child :: "bool \<Rightarrow> int option" where
  "sanitize_child prctl_ok = (if prctl_ok then None else Some 3)"

definition ptrace_sandbox_attach_point :: "int \<Rightarrow> bool \<Rightarrow> bool \<Rightarrow> int option" where
  "ptrace_sandbox_attach_point own_pid traceme_ok kill_ok =
     (if own_pid \<le> 1 then Some 1 else if \<not> traceme_ok then Some 2 else if \<not> kill_ok then Some 3 else None)"

text \<open>
  \<open>ptrace_sandbox_launch_process\<close> in the parent: the result, the sandbox, and whether the child was killed. \<open>waits\<close> are the
  returns of \<open>waitpid\<close>; without one that is not interrupted the parent waits for ever (\<open>None\<close>).
\<close>

definition ptrace_sandbox_launch_process ::
  "'v pt_sandbox \<Rightarrow> int \<Rightarrow> stop list \<Rightarrow> bool \<Rightarrow> (int \<times> 'v pt_sandbox \<times> bool) option" where
  "ptrace_sandbox_launch_process p fork_ret waits setoptions_ok =
     (if pid p \<noteq> -1 \<or> fork_ret < 0 then Some (-1, p, False)
      else case dropWhile (\<lambda>st. wait_ret st = -1 \<and> wait_errno st = EINTR) waits of
             [] \<Rightarrow> None
           | st # sts \<Rightarrow>
               if wait_ret st \<noteq> -1 \<and> wait_ret st = fork_ret \<and> WIFSTOPPED (status st) \<and> WSTOPSIG (status st) = SIGSTOP \<and>
                  setoptions_ok
               then Some (fork_ret, p\<lparr>pid := fork_ret\<rparr>, False)
               else Some (-1, p\<lparr>pid := -1\<rparr>, True))"

definition ptrace_sandbox_free :: "'v pt_sandbox \<Rightarrow> traced \<Rightarrow> traced" where
  "ptrace_sandbox_free p w = (if pid p \<noteq> -1 then deliver SIGKILL (go_on w) else w)"

text \<open>When the supervisor returns, the child is gone or killed, so that releasing the sandbox does not touch it.\<close>

lemma handle_event_gone: "ptrace_sandbox_handle_event ext p w = Some (1, p', w') \<Longrightarrow> pid p' = -1"
  by (auto simp: ptrace_sandbox_handle_event_def ptrace_sandbox_continue_process_def get_action_def Let_def
      split: if_splits option.splits look_res.splits prod.splits)

lemma give_up_gone: "give_up p w = Returned r p' w' \<Longrightarrow> pid p' = -1"
  by (auto simp: give_up_def ptrace_sandbox_kill_processes_def Let_def split: if_splits)

lemma run_loop_gone: "run_loop ext p w sts = Returned r p' w' \<Longrightarrow> pid p' = -1"
  by (induction sts arbitrary: p w)
     (auto simp: Let_def split: if_splits option.splits dest: give_up_gone handle_event_gone)

lemma run_processes_gone: "ptrace_sandbox_run_processes ext p w = Returned r p' w' \<Longrightarrow> pid p' = -1"
  by (auto simp: ptrace_sandbox_run_processes_def split: if_splits prod.splits dest: give_up_gone run_loop_gone)

section \<open>Facts about the child's data\<close>

lemma thn_Val_iff: "thn r f = Val b \<longleftrightarrow> (\<exists>a. r = Val a \<and> f a = Val b)"
  by (cases r) (auto simp: thn_def)

lemma refuse_if_Val [simp]: "refuse_if c r = Val u \<longleftrightarrow> \<not> c"
  by (auto simp: refuse_if_def)

text \<open>What the memory holds from an address on, as far as it can be read.\<close>

primrec mem_words :: "child_memory \<Rightarrow> 32 word \<Rightarrow> nat \<Rightarrow> string option" where
  "mem_words m ptr 0 = Some []"
| "mem_words m ptr (Suc n) =
     (case (m ptr, mem_words m (ptr + 4) n) of (Inr w, Some bs) \<Rightarrow> Some (word_bytes w @ bs) | _ \<Rightarrow> None)"

lemma get_buf_words: "ptrace_sandbox_get_buf m ptr (4 * n) = Val bs \<longleftrightarrow> mem_words m ptr n = Some bs"
proof (induction n arbitrary: ptr bs)
  case 0
  show ?case by (auto simp: ptrace_sandbox_get_buf.simps)
next
  case (Suc n)
  have "ptrace_sandbox_get_buf m ptr (4 * Suc n) =
      thn (peek m ptr) (\<lambda>w. thn (ptrace_sandbox_get_buf m (ptr + 4) (4 * n)) (\<lambda>rest. Val (word_bytes w @ rest)))"
    by (subst ptrace_sandbox_get_buf.simps) simp
  then show ?case
    by (cases "m ptr") (auto simp: thn_Val_iff peek_def Suc.IH split: option.splits)
qed

lemma get_buf_not_wild: "ptrace_sandbox_get_buf m ptr (4 * n) \<noteq> Wild"
proof (induction n arbitrary: ptr)
  case (Suc n)
  show ?case
    using Suc.IH [of "ptr + 4"]
    by (subst ptrace_sandbox_get_buf.simps) (auto simp: thn_def peek_def split: look_res.splits sum.splits)
qed (simp add: ptrace_sandbox_get_buf.simps)

lemma length_mem_words: "mem_words m ptr n = Some bs \<Longrightarrow> length bs = 4 * n"
  by (induction n arbitrary: ptr bs) (auto split: sum.splits option.splits)

lemma get_long_Val: "ptrace_sandbox_get_long m ptr = Val w \<longleftrightarrow> m ptr = Inr w"
  using get_buf_words [of m ptr 1]
  by (cases "m ptr") (auto simp: ptrace_sandbox_get_long_def thn_Val_iff)

lemma get_long_not_wild: "ptrace_sandbox_get_long m ptr \<noteq> Wild"
  using get_buf_not_wild [of m ptr 1]
  by (auto simp: ptrace_sandbox_get_long_def thn_def split: look_res.splits)

lemma get_arg_not_wild: "ptrace_sandbox_get_arg p i \<noteq> Wild"
  by (simp add: ptrace_sandbox_get_arg_def)

lemma socketcall_arg_not_wild: "ptrace_sandbox_get_socketcall_arg p m i \<noteq> Wild"
  using get_arg_not_wild [of p 1] get_long_not_wild
  by (auto simp: ptrace_sandbox_get_socketcall_arg_def thn_def split: look_res.splits)

lemma thn_wild: "thn r f = Wild \<longleftrightarrow> r = Wild \<or> (\<exists>a. r = Val a \<and> f a = Wild)"
  by (cases r) (auto simp: thn_def)

lemma refuse_if_not_wild [simp]: "refuse_if c r \<noteq> Wild"
  by (simp add: refuse_if_def)

lemma run_validator_not_wild:
  assumes "\<And>v. ext v p m \<noteq> Wild"
  shows "run_validator ext v p m \<noteq> Wild"
  using assms get_arg_not_wild
  by (cases v)
     (auto simp: run_validator_def validate_mmap2_def validate_open_default_def validate_open_readonly_def
        validate_fcntl_def validate_socketcall_def thn_wild split: option.splits look_res.splits if_splits)

lemmas look_not_wild = get_long_not_wild get_arg_not_wild socketcall_arg_not_wild get_buf_not_wild

lemma nat_sint: "0 \<le> sint w \<Longrightarrow> nat (sint w) = unat w" for w :: "32 word"
proof -
  assume "0 \<le> sint w"
  moreover have "uint w = sint w mod 2 ^ 32" by (simp add: uint_sint take_bit_eq_mod)
  moreover have "sint w < 2 ^ 31" using sint_lt [of w] by simp
  ultimately have "uint w = sint w" by simp
  then show ?thesis by (simp add: unat_eq_nat_uint)
qed

lemma reach_sels [simp]:
  "here (reach st w) = st" "calls_run (reach st w) = calls_run w" "now_regs (reach st w) = child_regs st"
  "in_call (reach st w) = (if syscall_stop st then \<not> in_call w else in_call w)"
  "pending (reach st w) = (syscall_stop st \<and> \<not> in_call w)"
  by (simp_all add: reach_def Let_def)

lemma less_or_ge: "a < b \<or> b \<le> (a :: int)"
  by linarith

lemma mod_256_127: "st mod 256 = 127 \<Longrightarrow> st mod 128 = (127::nat)"
  using mod_mod_cancel [of 128 256 st] by simp

section \<open>A policy and what it admits\<close>

text \<open>
  What a supervisor may rely on. \<open>policy\<close>: a sandbox whose tables are set up. \<open>admits pid\<close>: calls, with the memory they see,
  that the policy means to admit to the child \<open>pid\<close>. The laws: leaving is always admitted, and so is every call that is in
  the table and that its validator accepts; no validator writes wildly.
\<close>

definition same_tables :: "'v pt_sandbox \<Rightarrow> 'v pt_sandbox \<Rightarrow> bool" where
  "same_tables p q \<longleftrightarrow> is_allowed q = is_allowed p \<and> validator q = validator p \<and>
     is_socketcall_allowed q = is_socketcall_allowed p \<and> socketcall_validator q = socketcall_validator p"

definition accepted :: "'v extern \<Rightarrow> 'v pt_sandbox \<Rightarrow> child_memory \<Rightarrow> bool" where
  "accepted ext q m \<longleftrightarrow>
     (let n = unat (orig_eax (regs q)) in
      n < 300 \<and> is_allowed q n \<and>
      (case validator q n of None \<Rightarrow> True | Some v \<Rightarrow> run_validator ext v q m = Val ()))"

text \<open>
  All calls that ran are good ones; only the last of them (the calls are listed backwards) may be another one, and only when the registers
  of the child could not be read or written at that stop: then a call that was refused cannot be replaced and runs before the kill.
\<close>

definition calls_within :: "(user_regs \<times> child_memory \<Rightarrow> bool) \<Rightarrow> traced \<Rightarrow> bool" where
  "calls_within good w \<longleftrightarrow> list_all good (calls_run w) \<or>
     (getregs_err (here w) \<noteq> 0 \<or> setregs_err (here w) \<noteq> 0) \<and> list_all good (tl (calls_run w))"

locale sandbox_policy =
  fixes ext :: "'v extern" and policy :: "'v pt_sandbox" and admits :: "int \<Rightarrow> user_regs \<Rightarrow> child_memory \<Rightarrow> bool"
  assumes exit_admitted: "unat (orig_eax r) = NR_exit_group \<Longrightarrow> admits i r m"
    and accepted_admitted: "same_tables policy q \<Longrightarrow> accepted ext q m \<Longrightarrow> admits (pid q) (regs q) m"
    and ext_not_wild: "ext v q m \<noteq> Wild"
begin

lemma get_action_cases:
  assumes "same_tables policy p"
  shows "\<exists>r p'. get_action ext p w = Some (r, p') \<and> same_tables policy p' \<and> pid p' = pid p \<and> is_exit p' = is_exit p \<and> r \<le> 0 \<and>
    (r = 0 \<longrightarrow> admits (pid p) (now_regs w) (child_mem (here w)))"
proof -
  let ?q = "p\<lparr>regs := now_regs w\<rparr>"
  let ?m = "child_mem (here w)"
  have nw: "run_validator ext v ?q ?m \<noteq> Wild" for v by (rule run_validator_not_wild) (rule ext_not_wild)
  have q: "same_tables policy ?q" using assms by (simp add: same_tables_def)
  have tables: "same_tables policy p" "same_tables policy (?q\<lparr>regs := zero_regs\<rparr>)"
    using assms by (simp_all add: same_tables_def)
  have adm: "admits (pid p) (now_regs w) ?m" if "accepted ext ?q ?m"
    using accepted_admitted [OF q that] by simp
  show ?thesis
  proof (cases "getregs_err (here w) = 0 \<and> (sint (xcs (now_regs w)) = 0x73 \<or> sint (xcs (now_regs w)) = 0x23) \<and>
      0 \<le> sint (orig_eax (now_regs w)) \<and> sint (orig_eax (now_regs w)) < MAX_SYSCALL \<and>
      is_allowed p (nat (sint (orig_eax (now_regs w))))")
    case False
    then show ?thesis using tables by (auto simp: get_action_def Let_def)
  next
    case True
    let ?n = "nat (sint (orig_eax (now_regs w)))"
    have n: "?n = unat (orig_eax (now_regs w))" "?n < 300" using True by (simp add: nat_sint, simp only: nat_less_iff, simp)
    show ?thesis
    proof (cases "validator p ?n")
      case None
      then have "accepted ext ?q ?m" using True n by (simp add: accepted_def)
      then show ?thesis using True None tables adm by (auto simp: get_action_def Let_def)
    next
      case (Some v)
      have "accepted ext ?q ?m" if "run_validator ext v ?q ?m = Val ()"
        using True n Some that by (simp add: accepted_def)
      then show ?thesis using True Some tables adm nw [of v]
        by (cases "run_validator ext v ?q ?m") (auto simp: get_action_def Let_def)
    qed
  qed
qed

text \<open>
  The supervisor's phase is the kernel's, nothing is pending while the child is not stopped at an entry, and all that
  calls_run was admitted.
\<close>

definition supervised :: "int \<Rightarrow> 'v pt_sandbox \<Rightarrow> traced \<Rightarrow> bool" where
  "supervised i p w \<longleftrightarrow> same_tables policy p \<and> pid p = i \<and> is_exit p = in_call w \<and> \<not> pending w \<and>
     list_all (\<lambda>(r, m). admits i r m) (calls_run w)"

text \<open>After \<open>reach\<close>, before the event is handled.\<close>

definition attending :: "int \<Rightarrow> 'v pt_sandbox \<Rightarrow> traced \<Rightarrow> bool" where
  "attending i p w \<longleftrightarrow> same_tables policy p \<and> pid p = i \<and> list_all (\<lambda>(r, m). admits i r m) (calls_run w)"

lemma supervised_attending: "supervised i p w \<Longrightarrow> attending i p w"
  by (simp add: supervised_def attending_def)

lemma give_up_admitted:
  assumes "attending i p w" and "i \<noteq> -1"
  shows "\<exists>w'. run_world (give_up p w) = Some w' \<and> calls_within (\<lambda>(r, m). admits i r m) w' \<and> \<not> pending w'"
  using assms exit_admitted
  by (auto simp: attending_def give_up_def ptrace_sandbox_kill_processes_def go_on_def deliver_def calls_within_def Let_def)

lemma continue_supervised:
  assumes "same_tables policy p" and "pid p = i" and "is_exit p = in_call w" and "list_all (\<lambda>(r, m). admits i r m) (calls_run w)"
    and "pending w \<Longrightarrow> admits i (now_regs w) (child_mem (here w))"
    and "ptrace_sandbox_continue_process sig w = (r, w')"
  shows "(r = 0 \<and> supervised i p w') \<or> (r < 0 \<and> attending i p w' \<and> here w' = here w)"
  using assms
  by (auto simp: ptrace_sandbox_continue_process_def go_on_def deliver_def supervised_def attending_def split: if_splits)

lemma handle_event_supervised:
  assumes sup: "supervised i p w" and "0 < wait_ret st"
  shows "\<exists>r p' w'. ptrace_sandbox_handle_event ext p (reach st w) = Some (r, p', w') \<and>
    (r = 0 \<and> supervised i p' w' \<or> r < 0 \<and> attending i p' w' \<and> here w' = st \<or>
     r = 1 \<and> list_all (\<lambda>(r, m). admits i r m) (calls_run w') \<and> \<not> pending w')"
proof -
  let ?w = "reach st w"
  have tables: "same_tables policy p" "pid p = i" and log: "list_all (\<lambda>(r, m). admits i r m) (calls_run w)"
    using sup by (simp_all add: supervised_def)
  note sd = supervised_def attending_def
  consider (gone) "WIFEXITED (status st) \<or> WIFSIGNALED (status st)"
    | (weird) "\<not> (WIFEXITED (status st) \<or> WIFSIGNALED (status st))" "\<not> WIFSTOPPED (status st)"
    | (signal) "\<not> (WIFEXITED (status st) \<or> WIFSIGNALED (status st))" "WIFSTOPPED (status st)" "WSTOPSIG (status st) < 0x80"
    | (leave) "\<not> (WIFEXITED (status st) \<or> WIFSIGNALED (status st))" "syscall_stop st" "is_exit p"
    | (enter) "\<not> (WIFEXITED (status st) \<or> WIFSIGNALED (status st))" "syscall_stop st" "\<not> is_exit p"
    using assms(2) less_or_ge [of "WSTOPSIG (status st)" 128] unfolding syscall_stop_def by blast
  then show ?thesis
  proof cases
    case gone
    then have "\<not> syscall_stop st"
      by (auto simp: syscall_stop_def WIFEXITED_def WIFSIGNALED_def WIFSTOPPED_def dest: mod_256_127)
    then show ?thesis using gone log by (simp add: ptrace_sandbox_handle_event_def Let_def)
  next
    case weird
    then show ?thesis using tables log by (simp add: ptrace_sandbox_handle_event_def Let_def sd)
  next
    case signal
    then have "\<not> syscall_stop st" "0 \<le> WSTOPSIG (status st)" by (simp_all add: syscall_stop_def WSTOPSIG_def)
    then show ?thesis
      using signal sup continue_supervised [of p i ?w "if WSTOPSIG (status st) = SIGSTOP \<or> WSTOPSIG (status st) = SIGCONT
        then SIGKILL else WSTOPSIG (status st)"]
      by (cases "ptrace_sandbox_continue_process (if WSTOPSIG (status st) = SIGSTOP \<or> WSTOPSIG (status st) = SIGCONT
        then SIGKILL else WSTOPSIG (status st)) ?w")
         (simp add: ptrace_sandbox_handle_event_def Let_def supervised_def, blast)
  next
    case leave
    then have st: "WIFSTOPPED (status st)" "128 \<le> WSTOPSIG (status st)" by (simp_all add: syscall_stop_def)
    have "in_call w" "\<not> pending ?w" "in_call ?w = False" "here ?w = st" "calls_run ?w = calls_run w"
      using leave sup by (simp_all add: supervised_def)
    then show ?thesis
      using leave st tables log continue_supervised [of "p\<lparr>is_exit := False\<rparr>" i ?w 0]
      by (cases "ptrace_sandbox_continue_process 0 ?w")
         (auto simp: ptrace_sandbox_handle_event_def Let_def same_tables_def)
  next
    case enter
    then have st: "WIFSTOPPED (status st)" "128 \<le> WSTOPSIG (status st)" by (simp_all add: syscall_stop_def)
    have w: "pending ?w" "in_call ?w" "here ?w = st" "calls_run ?w = calls_run w"
      using enter sup by (simp_all add: supervised_def)
    have "same_tables policy (p\<lparr>is_exit := True\<rparr>)" using tables by (simp add: same_tables_def)
    then obtain r p' where act: "get_action ext (p\<lparr>is_exit := True\<rparr>) ?w = Some (r, p')" "same_tables policy p'"
        "pid p' = i" "is_exit p'" "r = 0 \<longrightarrow> admits i (now_regs ?w) (child_mem (here ?w))" "r \<le> 0"
      using get_action_cases [of "p\<lparr>is_exit := True\<rparr>" ?w] tables by auto
    show ?thesis
    proof (cases "r = 0")
      case True
      then show ?thesis
        using enter st act w log continue_supervised [of p' i ?w 0]
        by (cases "ptrace_sandbox_continue_process 0 ?w") (auto simp: ptrace_sandbox_handle_event_def Let_def)
    next
      case False
      then show ?thesis using enter st act w log
        by (auto simp: ptrace_sandbox_handle_event_def Let_def sd)
    qed
  qed
qed

lemma run_loop_admitted:
  assumes "supervised i p w" and "i \<noteq> -1"
  shows "\<exists>w'. run_world (run_loop ext p w sts) = Some w' \<and> calls_within (\<lambda>(r, m). admits i r m) w' \<and> \<not> pending w'"
  using assms
proof (induction sts arbitrary: p w)
  case Nil
  then show ?case by (simp add: supervised_def calls_within_def)
next
  case (Cons st sts)
  consider (again) "wait_ret st = -1 \<and> wait_errno st = EINTR"
    | (fail) "\<not> (wait_ret st = -1 \<and> wait_errno st = EINTR)" "ptrace_sandbox_get_event st \<le> 0"
    | (event) "\<not> (wait_ret st = -1 \<and> wait_errno st = EINTR)" "0 < ptrace_sandbox_get_event st"
    using less_or_ge [of 0 "ptrace_sandbox_get_event st"] by blast
  then show ?case
  proof cases
    case again
    then show ?thesis using Cons.IH [OF Cons.prems] by simp
  next
    case fail
    have "attending i p (reach st w)" "here (reach st w) = st"
      using Cons.prems(1) by (simp_all add: supervised_def attending_def)
    then show ?thesis using fail give_up_admitted [of i p "reach st w"] Cons.prems(2) by (auto simp: Let_def)
  next
    case event
    then have "0 < wait_ret st" by (simp add: ptrace_sandbox_get_event_def split: if_splits)
    then obtain r p' w' where ev: "ptrace_sandbox_handle_event ext p (reach st w) = Some (r, p', w')"
        "r = 0 \<and> supervised i p' w' \<or> r < 0 \<and> attending i p' w' \<and> here w' = st \<or>
         r = 1 \<and> list_all (\<lambda>(r, m). admits i r m) (calls_run w') \<and> \<not> pending w'"
      using handle_event_supervised [OF Cons.prems(1)] by blast
    from ev(2) show ?thesis
    proof (elim disjE)
      assume "r = 0 \<and> supervised i p' w'"
      then show ?thesis using Cons.IH [of p' w'] Cons.prems(2) event ev(1) by (auto simp: Let_def)
    next
      assume "r < 0 \<and> attending i p' w' \<and> here w' = st"
      then show ?thesis using give_up_admitted [of i p' w'] Cons.prems(2) event ev(1) by (auto simp: Let_def)
    next
      assume "r = 1 \<and> list_all (\<lambda>(r, m). admits i r m) (calls_run w') \<and> \<not> pending w'"
      then show ?thesis using event ev(1) by (auto simp: calls_within_def Let_def)
    qed
  qed
qed

lemma run_processes_admitted:
  assumes "same_tables policy p" and "pid p \<noteq> -1" and "\<not> is_exit p"
    and "\<not> in_call w" and "\<not> pending w" and "calls_run w = []"
  shows "\<exists>w'. run_world (ptrace_sandbox_run_processes ext p w) = Some w' \<and>
    calls_within (\<lambda>(r, m). admits (pid p) r m) w' \<and> \<not> pending w'"
proof -
  obtain r w' where c: "ptrace_sandbox_continue_process 0 w = (r, w')" by (cases "ptrace_sandbox_continue_process 0 w")
  then have w': "future w' = future w" "here w' = here w"
    by (auto simp: ptrace_sandbox_continue_process_def go_on_def deliver_def split: if_splits)
  have "(r = 0 \<and> supervised (pid p) p w') \<or> (r < 0 \<and> attending (pid p) p w' \<and> here w' = here w)"
    using assms(1,3-6) c by (intro continue_supervised) simp_all
  then show ?thesis
    using run_loop_admitted [of "pid p" p w' "future w"] give_up_admitted [of "pid p" p w'] assms(2) c w'
    by (auto simp: ptrace_sandbox_run_processes_def)
qed

end

end
