(* ===== verification/Ftppolicy.thy ===== *)
theory Ftppolicy
  imports Sandbox Policy
begin

text \<open>
  \<^verbatim>\<open>ftppolicy.c\<close>: the policy of the sandbox for a session, from its configuration, and the session that
  \<^verbatim>\<open>oneprocess.c\<close> starts under it. Shown: whatever the sandboxed process does, only calls that the configuration
  allows are ever run.
\<close>

unbundle bit_operations_syntax

section \<open>Validators of the policy\<close>

text \<open>Numbers of the socket interface (Linux).\<close>

abbreviation SOCK_STREAM :: "32 word" where "SOCK_STREAM \<equiv> 1"
abbreviation SOL_SOCKET :: "32 word" where "SOL_SOCKET \<equiv> 1"
abbreviation IPPROTO_TCP :: "32 word" where "IPPROTO_TCP \<equiv> 6"
abbreviation IPPROTO_IP :: "32 word" where "IPPROTO_IP \<equiv> 0"
abbreviation TCP_NODELAY :: "32 word" where "TCP_NODELAY \<equiv> 1"
abbreviation IP_TOS :: "32 word" where "IP_TOS \<equiv> 1"
abbreviation SO_REUSEADDR :: "32 word" where "SO_REUSEADDR \<equiv> 2"
abbreviation SO_ERROR :: "32 word" where "SO_ERROR \<equiv> 4"
abbreviation SO_KEEPALIVE :: "32 word" where "SO_KEEPALIVE \<equiv> 9"
abbreviation SO_OOBINLINE :: "32 word" where "SO_OOBINLINE \<equiv> 10"
abbreviation SO_LINGER :: "32 word" where "SO_LINGER \<equiv> 13"

definition family_number :: "bool \<Rightarrow> nat" where
  "family_number v6 = (if v6 then 10 else 2)"

text \<open>\<open>sizeof(struct sockaddr_in)\<close> is 16, that of \<open>sockaddr_in6\<close> is 28.\<close>

definition sockaddr_words :: "bool \<Rightarrow> nat" where
  "sockaddr_words v6 = (if v6 then 7 else 4)"

datatype ftp_validator =
  socket_validator_ptr vsf_session | connect_validator_ptr vsf_session | getsockopt_validator_ptr | setsockopt_validator_ptr

definition socket_validator :: "vsf_session \<Rightarrow> ftp_validator pt_sandbox \<Rightarrow> child_memory \<Rightarrow> unit look_res" where
  "socket_validator s p m =
     (let expected_family = family_number (vsf_sysutil_sockaddr_is_ipv6 (p_local_addr s)) in
      thn (ptrace_sandbox_get_socketcall_arg p m 0) (\<lambda>arg1.
      thn (ptrace_sandbox_get_socketcall_arg p m 1) (\<lambda>arg2.
      refuse_if (unat arg1 \<noteq> expected_family \<or> arg2 \<noteq> SOCK_STREAM) (-1))))"

definition sa_family_of :: "string \<Rightarrow> nat" where
  "sa_family_of buf = code (buf ! 0) + 256 * code (buf ! 1)"

definition connect_validator :: "vsf_session \<Rightarrow> ftp_validator pt_sandbox \<Rightarrow> child_memory \<Rightarrow> unit look_res" where
  "connect_validator s p m =
     (let v6 = vsf_sysutil_sockaddr_is_ipv6 (p_local_addr s);
          expected_family = family_number v6;
          expected_len = 4 * sockaddr_words v6
      in thn (ptrace_sandbox_get_socketcall_arg p m 1) (\<lambda>arg2.
         thn (ptrace_sandbox_get_socketcall_arg p m 2) (\<lambda>arg3.
         if unat arg3 \<noteq> expected_len then Err (-1)
         else case ptrace_sandbox_get_buf m arg2 expected_len of
                Err c \<Rightarrow> Err (-2)
              | Wild \<Rightarrow> Wild
              | Val buf \<Rightarrow>
                  if sa_family_of buf \<noteq> expected_family then Err (-3)
                  else case (if v6 then vsf_sysutil_sockaddr_set_ipv6addr vsf_sysutil_sockaddr_alloc_ipv6 (take 16 (drop 8 buf))
                             else vsf_sysutil_sockaddr_set_ipv4addr vsf_sysutil_sockaddr_alloc_ipv4 (take 4 (drop 4 buf))) of
                         Inl h \<Rightarrow> Wild
                       | Inr a \<Rightarrow> refuse_if (\<not> vsf_sysutil_sockaddr_addr_equal (p_remote_addr s) a) (-4))))"

definition getsockopt_validator :: "ftp_validator pt_sandbox \<Rightarrow> child_memory \<Rightarrow> unit look_res" where
  "getsockopt_validator p m =
     thn (ptrace_sandbox_get_socketcall_arg p m 1) (\<lambda>arg2.
     thn (ptrace_sandbox_get_socketcall_arg p m 2) (\<lambda>arg3.
     refuse_if (arg2 \<noteq> SOL_SOCKET \<or> arg3 \<noteq> SO_ERROR) (-1)))"

definition setsockopt_validator :: "ftp_validator pt_sandbox \<Rightarrow> child_memory \<Rightarrow> unit look_res" where
  "setsockopt_validator p m =
     thn (ptrace_sandbox_get_socketcall_arg p m 1) (\<lambda>arg2.
     thn (ptrace_sandbox_get_socketcall_arg p m 2) (\<lambda>arg3.
     if arg2 = SOL_SOCKET
     then refuse_if (arg3 \<noteq> SO_KEEPALIVE \<and> arg3 \<noteq> SO_REUSEADDR \<and> arg3 \<noteq> SO_OOBINLINE \<and> arg3 \<noteq> SO_LINGER) (-1)
     else if arg2 = IPPROTO_TCP then refuse_if (arg3 \<noteq> TCP_NODELAY) (-2)
     else if arg2 = IPPROTO_IP then refuse_if (arg3 \<noteq> IP_TOS) (-3)
     else Err (-4)))"

definition ftp_extern :: "ftp_validator extern" where
  "ftp_extern v p m =
     (case v of
        socket_validator_ptr s \<Rightarrow> socket_validator s p m
      | connect_validator_ptr s \<Rightarrow> connect_validator s p m
      | getsockopt_validator_ptr \<Rightarrow> getsockopt_validator p m
      | setsockopt_validator_ptr \<Rightarrow> setsockopt_validator p m)"

section \<open>The policy of a session\<close>

type_synonym edit = "ftp_validator pt_sandbox \<Rightarrow> ftp_validator pt_sandbox"

definition edits :: "edit list \<Rightarrow> edit" where
  "edits fs p = fold (\<lambda>f p. f p) fs p"

definition in_case :: "bool \<Rightarrow> edit list \<Rightarrow> edit" where
  "in_case c fs = (if c then edits fs else id)"

definition policy_setup :: "env \<Rightarrow> vsf_session \<Rightarrow> edit" where
  "policy_setup e s =
     (let is_anon = is_anonymous s in edits
      [ptrace_sandbox_permit_exit, ptrace_sandbox_permit_mmap, ptrace_sandbox_permit_mprotect, ptrace_sandbox_permit_brk,
       ptrace_sandbox_permit_read, ptrace_sandbox_permit_write, ptrace_sandbox_permit_query_time,
       ptrace_sandbox_permit_file_stats, ptrace_sandbox_permit_fd_stats, ptrace_sandbox_permit_getcwd,
       ptrace_sandbox_permit_chdir, ptrace_sandbox_permit_umask, ptrace_sandbox_permit_open False,
       ptrace_sandbox_permit_close, ptrace_sandbox_permit_sendfile, ptrace_sandbox_permit_getdents,
       ptrace_sandbox_permit_readlink, ptrace_sandbox_permit_fcntl, ptrace_sandbox_permit_seek,
       ptrace_sandbox_permit_select, ptrace_sandbox_permit_sigreturn, ptrace_sandbox_permit_sleep,
       in_case (tb e ''async_abor_enable'' \<or> tu e ''idle_session_timeout'' > 0 \<or> tu e ''data_connection_timeout'' > 0)
         [ptrace_sandbox_permit_sigaction],
       in_case (tu e ''idle_session_timeout'' > 0 \<or> tu e ''data_connection_timeout'' > 0) [ptrace_sandbox_permit_alarm],
       in_case (tb e ''text_userdb_names'') [ptrace_sandbox_permit_mremap],
       ptrace_sandbox_permit_recv, ptrace_sandbox_permit_shutdown, ptrace_sandbox_permit_socket,
       ptrace_sandbox_set_socket_validator (socket_validator_ptr s), ptrace_sandbox_permit_bind,
       ptrace_sandbox_set_bind_validator (connect_validator_ptr s), ptrace_sandbox_permit_setsockopt,
       ptrace_sandbox_set_setsockopt_validator setsockopt_validator_ptr, ptrace_sandbox_permit_shutdown,
       in_case (tb e ''port_enable'')
         [ptrace_sandbox_permit_connect, ptrace_sandbox_set_connect_validator (connect_validator_ptr s),
          ptrace_sandbox_permit_getsockopt, ptrace_sandbox_set_getsockopt_validator getsockopt_validator_ptr],
       in_case (tb e ''pasv_enable'') [ptrace_sandbox_permit_listen, ptrace_sandbox_permit_accept],
       in_case (tb e ''write_enable'')
         [in_case (\<not> is_anon \<or> tb e ''anon_upload_enable'') [ptrace_sandbox_permit_open True],
          in_case (\<not> is_anon \<or> tb e ''anon_mkdir_write_enable'') [ptrace_sandbox_permit_mkdir],
          in_case (\<not> is_anon \<or> tb e ''anon_other_write_enable'')
            [ptrace_sandbox_permit_unlink, ptrace_sandbox_permit_rmdir, ptrace_sandbox_permit_rename,
             ptrace_sandbox_permit_ftruncate, in_case (tb e ''mdtm_write'') [ptrace_sandbox_permit_utime]],
          in_case (\<not> is_anon \<and> tb e ''chmod_enable'') [ptrace_sandbox_permit_chmod],
          in_case (is_anon \<and> tb e ''chown_uploads'') [ptrace_sandbox_permit_fchmod, ptrace_sandbox_permit_fchown]]])"

section \<open>What the tables hold\<close>

definition empty_sandbox :: "ftp_validator pt_sandbox" where
  "empty_sandbox =
     \<lparr>read_event_fd = -1, write_event_fd = -1, pid = -1, is_allowed = (\<lambda>_. False), validator = (\<lambda>_. None),
      is_exit = False, regs = zero_regs, is_socketcall_allowed = (\<lambda>_. False), socketcall_validator = (\<lambda>_. None)\<rparr>"

lemma alloc_empty: "ptrace_sandbox_alloc m g = Some p \<longleftrightarrow> m \<and> g \<and> p = empty_sandbox"
  by (auto simp: ptrace_sandbox_alloc_def empty_sandbox_def)

text \<open>
  The calls of the table, each with the condition under which it is there, in terms of what the session may do at all
  (\<open>Policy\<close>), in the order of the edits. Some have validators that check them further.
\<close>

definition timed :: "env \<Rightarrow> bool" where
  "timed e \<longleftrightarrow> tu e ''idle_session_timeout'' > 0 \<or> tu e ''data_connection_timeout'' > 0"

definition session_calls :: "env \<Rightarrow> bool \<Rightarrow> (nat \<times> bool) list" where
  "session_calls e anon =
     map (\<lambda>n. (n, True))
       [NR_exit, NR_exit_group, NR_mmap2, NR_mprotect, NR_brk, NR_read, NR_write, NR_gettimeofday, NR_time, NR_stat, NR_stat64,
        NR_lstat, NR_lstat64, NR_fstat, NR_fstat64, NR_getcwd, NR_chdir, NR_umask, NR_open, NR_close, NR_sendfile,
        NR_sendfile64, NR_getdents, NR_getdents64, NR_readlink, NR_fcntl, NR_fcntl64, NR_lseek, NR_llseek, NR_select,
        NR_newselect, NR_sigreturn, NR_nanosleep] @
     [(NR_sigaction, tb e ''async_abor_enable'' \<or> timed e), (NR_rt_sigaction, tb e ''async_abor_enable'' \<or> timed e),
      (NR_alarm, timed e), (NR_mremap, tb e ''text_userdb_names'')] @
     [(NR_socketcall, True), (NR_socketcall, True), (NR_socketcall, True), (NR_socketcall, True), (NR_socketcall, True),
      (NR_socketcall, True), (NR_socketcall, tb e ''port_enable''), (NR_socketcall, tb e ''port_enable''),
      (NR_socketcall, tb e ''pasv_enable''), (NR_socketcall, tb e ''pasv_enable'')] @
     [(NR_open, may_upload e anon), (NR_mkdir, may_mkdir e anon),
      (NR_unlink, may_change e anon), (NR_rmdir, may_change e anon), (NR_rename, may_change e anon),
      (NR_ftruncate, may_change e anon), (NR_ftruncate64, may_change e anon),
      (NR_utime, may_change e anon \<and> tb e ''mdtm_write''), (NR_utimes, may_change e anon \<and> tb e ''mdtm_write''),
      (NR_chmod, tb e ''write_enable'' \<and> \<not> anon \<and> tb e ''chmod_enable''),
      (NR_fchmod, tb e ''write_enable'' \<and> anon \<and> tb e ''chown_uploads''),
      (NR_fchown, tb e ''write_enable'' \<and> anon \<and> tb e ''chown_uploads''),
      (NR_fchown32, tb e ''write_enable'' \<and> anon \<and> tb e ''chown_uploads'')]"

lemma edits_simps: "edits [] p = p" "edits (f # fs) p = edits fs (f p)" "in_case c fs p = (if c then edits fs p else p)"
  by (simp_all add: edits_def in_case_def)

section \<open>What an edit adds to the tables\<close>

text \<open>\<open>effect f A V SA SV\<close>: the edit \<open>f\<close> allows the calls \<open>A\<close> and the socket calls \<open>SA\<close>, and sets the validators \<open>V\<close> and \<open>SV\<close>.\<close>

definition effect :: "edit \<Rightarrow> (nat \<times> bool) list \<Rightarrow> (nat \<rightharpoonup> validator) \<Rightarrow> nat set \<Rightarrow> (nat \<rightharpoonup> ftp_validator) \<Rightarrow> bool" where
  "effect f A V SA SV \<longleftrightarrow>
     (\<forall>p. f p = p\<lparr>is_allowed := (\<lambda>n. (n, True) \<in> set A \<or> is_allowed p n), validator := validator p ++ V,
                 is_socketcall_allowed := (\<lambda>n. n \<in> SA \<or> is_socketcall_allowed p n),
                 socketcall_validator := socketcall_validator p ++ SV\<rparr>)"

named_theorems effects \<open>what each edit adds\<close>

lemma effect_Nil [effects]: "effect (edits []) [] Map.empty {} Map.empty"
  by (simp add: effect_def edits_simps)

lemma effect_Cons [effects]:
  "effect f A V SA SV \<Longrightarrow> effect (edits fs) B W SB SW \<Longrightarrow> effect (edits (f # fs)) (A @ B) (V ++ W) (SB \<union> SA) (SV ++ SW)"
  unfolding effect_def edits_simps by (simp add: fun_eq_iff disj_ac)

lemma effect_in_case [effects]:
  "effect (edits fs) A V SA SV \<Longrightarrow>
   effect (in_case c fs) (map (\<lambda>(n, b). (n, c \<and> b)) A) (if c then V else Map.empty) {n \<in> SA. c} (if c then SV else Map.empty)"
  by (cases c) (simp_all add: effect_def in_case_def image_iff split_beta case_prod_unfold)

lemma permit_effects [effects]:
  "effect ptrace_sandbox_permit_exit [(NR_exit, True), (NR_exit_group, True)] Map.empty {} Map.empty"
  "effect ptrace_sandbox_permit_read [(NR_read, True)] Map.empty {} Map.empty"
  "effect ptrace_sandbox_permit_write [(NR_write, True)] Map.empty {} Map.empty"
  "effect ptrace_sandbox_permit_sigaction [(NR_sigaction, True), (NR_rt_sigaction, True)] Map.empty {} Map.empty"
  "effect ptrace_sandbox_permit_alarm [(NR_alarm, True)] Map.empty {} Map.empty"
  "effect ptrace_sandbox_permit_query_time [(NR_gettimeofday, True), (NR_time, True)] Map.empty {} Map.empty"
  "effect ptrace_sandbox_permit_mprotect [(NR_mprotect, True)] Map.empty {} Map.empty"
  "effect ptrace_sandbox_permit_file_stats [(NR_stat, True), (NR_stat64, True), (NR_lstat, True), (NR_lstat64, True)] Map.empty {} Map.empty"
  "effect ptrace_sandbox_permit_fd_stats [(NR_fstat, True), (NR_fstat64, True)] Map.empty {} Map.empty"
  "effect ptrace_sandbox_permit_getcwd [(NR_getcwd, True)] Map.empty {} Map.empty"
  "effect ptrace_sandbox_permit_chdir [(NR_chdir, True)] Map.empty {} Map.empty"
  "effect ptrace_sandbox_permit_umask [(NR_umask, True)] Map.empty {} Map.empty"
  "effect ptrace_sandbox_permit_close [(NR_close, True)] Map.empty {} Map.empty"
  "effect ptrace_sandbox_permit_getdents [(NR_getdents, True), (NR_getdents64, True)] Map.empty {} Map.empty"
  "effect ptrace_sandbox_permit_sendfile [(NR_sendfile, True), (NR_sendfile64, True)] Map.empty {} Map.empty"
  "effect ptrace_sandbox_permit_seek [(NR_lseek, True), (NR_llseek, True)] Map.empty {} Map.empty"
  "effect ptrace_sandbox_permit_select [(NR_select, True), (NR_newselect, True)] Map.empty {} Map.empty"
  "effect ptrace_sandbox_permit_unlink [(NR_unlink, True)] Map.empty {} Map.empty"
  "effect ptrace_sandbox_permit_mkdir [(NR_mkdir, True)] Map.empty {} Map.empty"
  "effect ptrace_sandbox_permit_rmdir [(NR_rmdir, True)] Map.empty {} Map.empty"
  "effect ptrace_sandbox_permit_rename [(NR_rename, True)] Map.empty {} Map.empty"
  "effect ptrace_sandbox_permit_utime [(NR_utime, True), (NR_utimes, True)] Map.empty {} Map.empty"
  "effect ptrace_sandbox_permit_sigreturn [(NR_sigreturn, True)] Map.empty {} Map.empty"
  "effect ptrace_sandbox_permit_readlink [(NR_readlink, True)] Map.empty {} Map.empty"
  "effect ptrace_sandbox_permit_brk [(NR_brk, True)] Map.empty {} Map.empty"
  "effect ptrace_sandbox_permit_sleep [(NR_nanosleep, True)] Map.empty {} Map.empty"
  "effect ptrace_sandbox_permit_fchmod [(NR_fchmod, True)] Map.empty {} Map.empty"
  "effect ptrace_sandbox_permit_chmod [(NR_chmod, True)] Map.empty {} Map.empty"
  "effect ptrace_sandbox_permit_fchown [(NR_fchown, True), (NR_fchown32, True)] Map.empty {} Map.empty"
  "effect ptrace_sandbox_permit_mremap [(NR_mremap, True)] Map.empty {} Map.empty"
  "effect ptrace_sandbox_permit_ftruncate [(NR_ftruncate, True), (NR_ftruncate64, True)] Map.empty {} Map.empty"
  by (auto simp: effect_def permit_defs fun_eq_iff)

lemma checked_effects [effects]:
  "effect ptrace_sandbox_permit_mmap [(NR_mmap2, True)] [NR_mmap2 \<mapsto> validate_mmap2_ptr] {} Map.empty"
  "effect (ptrace_sandbox_permit_open b) [(NR_open, True)]
     [NR_open \<mapsto> if b then validate_open_default_ptr else validate_open_readonly_ptr] {} Map.empty"
  "effect ptrace_sandbox_permit_fcntl [(NR_fcntl, True), (NR_fcntl64, True)]
     [NR_fcntl \<mapsto> validate_fcntl_ptr, NR_fcntl64 \<mapsto> validate_fcntl_ptr] {} Map.empty"
  "effect ptrace_sandbox_permit_recv [(NR_socketcall, True)] [NR_socketcall \<mapsto> validate_socketcall_ptr] {SYS_RECV} Map.empty"
  "effect ptrace_sandbox_permit_socket [(NR_socketcall, True)] [NR_socketcall \<mapsto> validate_socketcall_ptr] {SYS_SOCKET} Map.empty"
  "effect ptrace_sandbox_permit_bind [(NR_socketcall, True)] [NR_socketcall \<mapsto> validate_socketcall_ptr] {SYS_BIND} Map.empty"
  "effect ptrace_sandbox_permit_connect [(NR_socketcall, True)] [NR_socketcall \<mapsto> validate_socketcall_ptr] {SYS_CONNECT} Map.empty"
  "effect ptrace_sandbox_permit_listen [(NR_socketcall, True)] [NR_socketcall \<mapsto> validate_socketcall_ptr] {SYS_LISTEN} Map.empty"
  "effect ptrace_sandbox_permit_accept [(NR_socketcall, True)] [NR_socketcall \<mapsto> validate_socketcall_ptr] {SYS_ACCEPT} Map.empty"
  "effect ptrace_sandbox_permit_setsockopt [(NR_socketcall, True)] [NR_socketcall \<mapsto> validate_socketcall_ptr] {SYS_SETSOCKOPT} Map.empty"
  "effect ptrace_sandbox_permit_getsockopt [(NR_socketcall, True)] [NR_socketcall \<mapsto> validate_socketcall_ptr] {SYS_GETSOCKOPT} Map.empty"
  "effect ptrace_sandbox_permit_shutdown [(NR_socketcall, True)] [NR_socketcall \<mapsto> validate_socketcall_ptr] {SYS_SHUTDOWN} Map.empty"
  "effect (ptrace_sandbox_set_socket_validator v) [] Map.empty {} [SYS_SOCKET \<mapsto> v]"
  "effect (ptrace_sandbox_set_bind_validator v) [] Map.empty {} [SYS_BIND \<mapsto> v]"
  "effect (ptrace_sandbox_set_connect_validator v) [] Map.empty {} [SYS_CONNECT \<mapsto> v]"
  "effect (ptrace_sandbox_set_setsockopt_validator v) [] Map.empty {} [SYS_SETSOCKOPT \<mapsto> v]"
  "effect (ptrace_sandbox_set_getsockopt_validator v) [] Map.empty {} [SYS_GETSOCKOPT \<mapsto> v]"
  by (auto simp: effect_def permit_defs fun_eq_iff)

lemma effect_trans:
  "effect f A V SA SV \<Longrightarrow> A = A' \<Longrightarrow> V = V' \<Longrightarrow> SA = SA' \<Longrightarrow> SV = SV' \<Longrightarrow> effect f A' V' SA' SV'"
  by simp

definition policy_validators :: "env \<Rightarrow> bool \<Rightarrow> nat \<rightharpoonup> validator" where
  "policy_validators e anon =
     [NR_mmap2 \<mapsto> validate_mmap2_ptr, NR_open \<mapsto> validate_open_readonly_ptr, NR_fcntl \<mapsto> validate_fcntl_ptr,
      NR_fcntl64 \<mapsto> validate_fcntl_ptr, NR_socketcall \<mapsto> validate_socketcall_ptr] ++
     (if may_upload e anon then [NR_open \<mapsto> validate_open_default_ptr] else Map.empty)"

definition policy_socketcalls :: "env \<Rightarrow> nat set" where
  "policy_socketcalls e =
     {SYS_RECV, SYS_SHUTDOWN, SYS_SOCKET, SYS_BIND, SYS_SETSOCKOPT} \<union>
     {n \<in> {SYS_CONNECT, SYS_GETSOCKOPT}. tb e ''port_enable''} \<union> {n \<in> {SYS_LISTEN, SYS_ACCEPT}. tb e ''pasv_enable''}"

definition policy_socketcall_validators :: "env \<Rightarrow> vsf_session \<Rightarrow> nat \<rightharpoonup> ftp_validator" where
  "policy_socketcall_validators e s =
     [SYS_SOCKET \<mapsto> socket_validator_ptr s, SYS_BIND \<mapsto> connect_validator_ptr s, SYS_SETSOCKOPT \<mapsto> setsockopt_validator_ptr] ++
     (if tb e ''port_enable''
      then [SYS_CONNECT \<mapsto> connect_validator_ptr s, SYS_GETSOCKOPT \<mapsto> getsockopt_validator_ptr] else Map.empty)"

lemma policy_effect:
  "effect (policy_setup e s) (session_calls e (is_anonymous s)) (policy_validators e (is_anonymous s))
     (policy_socketcalls e) (policy_socketcall_validators e s)"
  unfolding policy_setup_def Let_def
  apply (rule effect_trans)
  apply ((rule effects)+)[1]
  subgoal
    by (simp add: session_calls_def timed_def may_upload_def may_mkdir_def may_change_def)
  subgoal
    by (simp add: policy_validators_def may_upload_def)
  subgoal
    by (auto simp: policy_socketcalls_def)
  subgoal
    by (simp add: policy_socketcall_validators_def)
  done

section \<open>What the policy means\<close>

text \<open>The argument block of a socket call, and the address it points to.\<close>

definition block :: "user_regs \<Rightarrow> child_memory \<Rightarrow> 32 word \<Rightarrow> int + 32 word" where
  "block r m i = m (ecx r + 4 * i)"

definition address_of_bytes :: "bool \<Rightarrow> string \<Rightarrow> sockaddr" where
  "address_of_bytes v6 buf =
     (if v6 then vsf_sysutil_sockaddr_alloc_ipv6\<lparr>sin6_addr := take 16 (drop 8 buf)\<rparr>
      else vsf_sysutil_sockaddr_alloc_ipv4\<lparr>sin_addr := take 4 (drop 4 buf)\<rparr>)"

definition names_client :: "vsf_session \<Rightarrow> user_regs \<Rightarrow> child_memory \<Rightarrow> bool" where
  "names_client s r m =
     (let v6 = vsf_sysutil_sockaddr_is_ipv6 (p_local_addr s) in
      case (block r m 1, block r m 2) of
        (Inr ptr, Inr n) \<Rightarrow>
          (case mem_words m ptr (sockaddr_words v6) of
             None \<Rightarrow> False
           | Some buf \<Rightarrow> unat n = 4 * sockaddr_words v6 \<and> sa_family_of buf = family_number v6 \<and>
               vsf_sysutil_sockaddr_addr_equal (p_remote_addr s) (address_of_bytes v6 buf))
      | _ \<Rightarrow> False)"

definition socket_options :: "(32 word \<times> 32 word) list" where
  "socket_options =
     [(SOL_SOCKET, SO_KEEPALIVE), (SOL_SOCKET, SO_REUSEADDR), (SOL_SOCKET, SO_OOBINLINE), (SOL_SOCKET, SO_LINGER),
      (IPPROTO_TCP, TCP_NODELAY), (IPPROTO_IP, IP_TOS)]"

definition socketcall_ok :: "env \<Rightarrow> vsf_session \<Rightarrow> user_regs \<Rightarrow> child_memory \<Rightarrow> bool" where
  "socketcall_ok e s r m =
     (let n = unat (ebx r) in
      n \<in> policy_socketcalls e \<and>
      (if n = SYS_SOCKET
       then map_sum id unat (block r m 0) = Inr (family_number (vsf_sysutil_sockaddr_is_ipv6 (p_local_addr s))) \<and>
            block r m 1 = Inr SOCK_STREAM
       else if n = SYS_BIND \<or> n = SYS_CONNECT then names_client s r m
       else if n = SYS_GETSOCKOPT then block r m 1 = Inr SOL_SOCKET \<and> block r m 2 = Inr SO_ERROR
       else if n = SYS_SETSOCKOPT
       then (case (block r m 1, block r m 2) of (Inr a, Inr b) \<Rightarrow> (a, b) \<in> set socket_options | _ \<Rightarrow> False)
       else True))"

definition ftp_admits :: "env \<Rightarrow> vsf_session \<Rightarrow> int \<Rightarrow> user_regs \<Rightarrow> child_memory \<Rightarrow> bool" where
  "ftp_admits e s i r m =
     (let n = unat (orig_eax r) in
      (n, True) \<in> set (session_calls e (is_anonymous s)) \<and>
      (if n = NR_mmap2 then esi r AND MAP_SHARED = 0
       else if n = NR_open
       then ecx r AND (O_ASYNC OR O_DIRECT OR O_SYNC) = 0 \<and>
            (may_upload e (is_anonymous s) \<or> ecx r AND O_ACCMODE = O_RDONLY)
       else if n = NR_fcntl \<or> n = NR_fcntl64
       then ecx r \<in> set fcntl_commands \<and> (ecx r \<noteq> F_SETFL \<or> edx r AND (O_ASYNC OR O_DIRECT) = 0) \<and>
            (ecx r \<noteq> F_SETOWN \<or> sint (edx r) = i)
       else if n = NR_socketcall then socketcall_ok e s r m
       else True))"

section \<open>The validators check what the policy means\<close>

lemma get_arg_Val:
  assumes "orig_eax (regs p) \<noteq> 0"
  shows "ptrace_sandbox_get_arg p 0 = Val (ebx (regs p))" "ptrace_sandbox_get_arg p 1 = Val (ecx (regs p))"
    "ptrace_sandbox_get_arg p 2 = Val (edx (regs p))" "ptrace_sandbox_get_arg p 3 = Val (esi (regs p))"
  using assms by (simp_all add: ptrace_sandbox_get_arg_def)

lemma socketcall_arg_Val:
  assumes "orig_eax (regs p) \<noteq> 0"
  shows "ptrace_sandbox_get_socketcall_arg p m 0 = Val w \<longleftrightarrow> block (regs p) m 0 = Inr w"
    "ptrace_sandbox_get_socketcall_arg p m 1 = Val w \<longleftrightarrow> block (regs p) m 1 = Inr w"
    "ptrace_sandbox_get_socketcall_arg p m 2 = Val w \<longleftrightarrow> block (regs p) m 2 = Inr w"
  using assms by (simp_all add: ptrace_sandbox_get_socketcall_arg_def get_arg_Val thn_def block_def get_long_Val)

lemma if_Err_Val: "(if c then Err x else r) = Val u \<longleftrightarrow> \<not> c \<and> r = Val u"
  by simp

lemma case_Val: "(case r of Val b \<Rightarrow> f b | Err c \<Rightarrow> Err x | Wild \<Rightarrow> Wild) = Val u \<longleftrightarrow> (\<exists>b. r = Val b \<and> f b = Val u)"
  by (cases r) auto

lemma address_set:
  assumes "mem_words m ptr (sockaddr_words v6) = Some buf"
  shows "(if v6 then vsf_sysutil_sockaddr_set_ipv6addr vsf_sysutil_sockaddr_alloc_ipv6 (take 16 (drop 8 buf))
      else vsf_sysutil_sockaddr_set_ipv4addr vsf_sysutil_sockaddr_alloc_ipv4 (take 4 (drop 4 buf))) = Inr (address_of_bytes v6 buf)"
  using length_mem_words [OF assms]
  by (auto simp: sockaddr_words_def address_of_bytes_def vsf_sysutil_sockaddr_set_ipv6addr_def
      vsf_sysutil_sockaddr_set_ipv4addr_def raw_bytes_def vsf_sysutil_sockaddr_alloc_ipv4_def
      vsf_sysutil_sockaddr_alloc_ipv6_def)

lemma case_wild:
  "(case r of Val b \<Rightarrow> f b | Err c \<Rightarrow> Err x | Wild \<Rightarrow> Wild) = Wild \<longleftrightarrow> r = Wild \<or> (\<exists>b. r = Val b \<and> f b = Wild)"
  by (cases r) auto

lemma if_Err_wild: "(if c then Err x else r) = Wild \<longleftrightarrow> \<not> c \<and> r = Wild"
  by simp

lemma connect_validator_Val:
  assumes "orig_eax (regs p) \<noteq> 0"
  shows "connect_validator s p m = Val () \<longleftrightarrow> names_client s (regs p) m"
proof -
  let ?v6 = "vsf_sysutil_sockaddr_is_ipv6 (p_local_addr s)"
  have "connect_validator s p m = Val () \<longleftrightarrow>
      (\<exists>ptr n buf. block (regs p) m 1 = Inr ptr \<and> block (regs p) m 2 = Inr n \<and> unat n = 4 * sockaddr_words ?v6 \<and>
         mem_words m ptr (sockaddr_words ?v6) = Some buf \<and> sa_family_of buf = family_number ?v6 \<and>
         vsf_sysutil_sockaddr_addr_equal (p_remote_addr s) (address_of_bytes ?v6 buf))"
    unfolding connect_validator_def Let_def thn_Val_iff socketcall_arg_Val [OF assms] if_Err_Val case_Val get_buf_words
    using address_set by fastforce
  then show ?thesis
    by (auto simp: names_client_def Let_def split: sum.splits option.splits)
qed

lemma connect_not_wild: "connect_validator s p m \<noteq> Wild"
proof
  assume "connect_validator s p m = Wild"
  then show False
    unfolding connect_validator_def Let_def thn_wild if_Err_wild case_wild get_buf_words
    using address_set look_not_wild by fastforce
qed

lemma ftp_extern_not_wild: "ftp_extern v p m \<noteq> Wild"
  using socketcall_arg_not_wild connect_not_wild
  by (cases v) (auto simp: ftp_extern_def socket_validator_def getsockopt_validator_def setsockopt_validator_def Let_def
      thn_wild split: if_splits)

definition session_sandbox :: "env \<Rightarrow> vsf_session \<Rightarrow> ftp_validator pt_sandbox" where
  "session_sandbox e s = policy_setup e s empty_sandbox"

lemma session_sandbox_tables:
  assumes "same_tables (session_sandbox e s) q"
  shows "is_allowed q n \<longleftrightarrow> (n, True) \<in> set (session_calls e (is_anonymous s))"
    and "validator q = policy_validators e (is_anonymous s)"
    and "is_socketcall_allowed q n \<longleftrightarrow> n \<in> policy_socketcalls e"
    and "socketcall_validator q = policy_socketcall_validators e s"
  using assms policy_effect [of e s]
  by (simp_all add: same_tables_def session_sandbox_def effect_def empty_sandbox_def)

lemma policy_validators_at:
  "policy_validators e anon NR_mmap2 = Some validate_mmap2_ptr"
  "policy_validators e anon NR_open = Some (if may_upload e anon then validate_open_default_ptr else validate_open_readonly_ptr)"
  "policy_validators e anon NR_fcntl = Some validate_fcntl_ptr" "policy_validators e anon NR_fcntl64 = Some validate_fcntl_ptr"
  "policy_validators e anon NR_socketcall = Some validate_socketcall_ptr"
  by (simp_all add: policy_validators_def)

lemma socket_validators:
  assumes "orig_eax (regs q) \<noteq> 0" and "unat (ebx (regs q)) \<in> policy_socketcalls e"
    and "case policy_socketcall_validators e s (unat (ebx (regs q))) of None \<Rightarrow> True | Some v \<Rightarrow> ftp_extern v q m = Val ()"
  shows "socketcall_ok e s (regs q) m"
proof -
  have sock: "map_sum id unat (block (regs q) m 0) = Inr (family_number (vsf_sysutil_sockaddr_is_ipv6 (p_local_addr s))) \<and>
      block (regs q) m 1 = Inr SOCK_STREAM" if "socket_validator s q m = Val ()"
    using that by (auto simp: socket_validator_def Let_def thn_Val_iff socketcall_arg_Val assms(1))
  have get: "block (regs q) m 1 = Inr SOL_SOCKET \<and> block (regs q) m 2 = Inr SO_ERROR" if "getsockopt_validator q m = Val ()"
    using that by (auto simp: getsockopt_validator_def thn_Val_iff socketcall_arg_Val assms(1))
  have set: "case (block (regs q) m 1, block (regs q) m 2) of (Inr a, Inr b) \<Rightarrow> (a, b) \<in> set socket_options | _ \<Rightarrow> False"
    if "setsockopt_validator q m = Val ()"
    using that
    by (auto simp: setsockopt_validator_def thn_Val_iff socketcall_arg_Val assms(1) socket_options_def split: if_splits)
  show ?thesis
    using assms(2,3) sock get set connect_validator_Val [OF assms(1), of s m]
    by (auto simp: policy_socketcalls_def policy_socketcall_validators_def socketcall_ok_def ftp_extern_def Let_def
        split: if_splits)
qed

lemma accepted_admits:
  assumes "same_tables (session_sandbox e s) q" and "accepted ftp_extern q m"
  shows "ftp_admits e s (pid q) (regs q) m"
proof -
  let ?n = "unat (orig_eax (regs q))"
  note tabs = session_sandbox_tables [OF assms(1)]
  have allowed: "(?n, True) \<in> set (session_calls e (is_anonymous s))"
    and valid: "case policy_validators e (is_anonymous s) ?n of None \<Rightarrow> True | Some v \<Rightarrow> run_validator ftp_extern v q m = Val ()"
    using assms(2) by (simp_all add: accepted_def Let_def tabs)
  have "?n \<noteq> 0" using allowed by (auto simp: session_calls_def)
  then have nz: "orig_eax (regs q) \<noteq> 0" by auto
  note args = get_arg_Val [OF nz] thn_Val_iff
  have "esi (regs q) AND MAP_SHARED = 0" if "?n = NR_mmap2"
    using valid that by (simp add: policy_validators_at run_validator_def validate_mmap2_def args)
  moreover have "ecx (regs q) AND (O_ASYNC OR O_DIRECT OR O_SYNC) = 0 \<and>
      (may_upload e (is_anonymous s) \<or> ecx (regs q) AND O_ACCMODE = O_RDONLY)" if "?n = NR_open"
    using valid that
    by (auto simp: policy_validators_at run_validator_def validate_open_default_def validate_open_readonly_def args
        split: if_splits)
  moreover have "ecx (regs q) \<in> set fcntl_commands \<and> (ecx (regs q) \<noteq> F_SETFL \<or> edx (regs q) AND (O_ASYNC OR O_DIRECT) = 0) \<and>
      (ecx (regs q) \<noteq> F_SETOWN \<or> sint (edx (regs q)) = pid q)" if "?n = NR_fcntl \<or> ?n = NR_fcntl64"
    using valid that
    by (auto simp: policy_validators_at run_validator_def validate_fcntl_def args split: if_splits)
  moreover have "socketcall_ok e s (regs q) m" if "?n = NR_socketcall"
  proof -
    have "validate_socketcall ftp_extern q m = Val ()"
      using valid that by (simp add: policy_validators_at run_validator_def)
    then show ?thesis
      by (intro socket_validators nz)
         (auto simp: validate_socketcall_def args tabs split: if_splits option.splits look_res.splits)
  qed
  ultimately show ?thesis using allowed by (simp add: ftp_admits_def Let_def)
qed

interpretation ftp: sandbox_policy ftp_extern "session_sandbox e s" "ftp_admits e s" for e s
proof
  fix r :: user_regs and i m
  assume "unat (orig_eax r) = NR_exit_group"
  then show "ftp_admits e s i r m" by (simp add: ftp_admits_def session_calls_def)
qed (auto intro: accepted_admits simp: ftp_extern_not_wild)

section \<open>A session under the sandbox\<close>

text \<open>
  \<open>vsf_one_process_start\<close> with \<open>sandbox\<close> set, in the supervising process. \<open>launch\<close> has the answers of the system while the child
  is started, and the child as it is then.
\<close>

record launch =
  malloc_ok :: bool
  sigaction_ok :: bool
  fork_ret :: int
  first_waits :: "stop list"
  setoptions_ok :: bool
  child :: traced

datatype start_end = Died string | Supervised_to_the_end traced | Still_waiting "traced option" | Went_wild

definition vsf_one_process_start :: "env \<Rightarrow> vsf_session \<Rightarrow> launch \<Rightarrow> start_end" where
  "vsf_one_process_start e s l =
     (case ptrace_sandbox_alloc (malloc_ok l) (sigaction_ok l) of
        None \<Rightarrow> Died ''could not allocate sandbox (only works for 32-bit builds)''
      | Some p_sandbox \<Rightarrow>
          (case ptrace_sandbox_launch_process (policy_setup e s p_sandbox) (fork_ret l) (first_waits l) (setoptions_ok l) of
             None \<Rightarrow> Still_waiting None
           | Some (r, p_sandbox, killed) \<Rightarrow>
               if r \<le> 0 then Died ''could not launch sandboxed child''
               else (case ptrace_sandbox_run_processes ftp_extern p_sandbox (child l) of
                       Returned r p_sandbox w \<Rightarrow> Supervised_to_the_end (ptrace_sandbox_free p_sandbox w)
                     | Waiting p_sandbox w \<Rightarrow> Still_waiting (Some w)
                     | Undefined \<Rightarrow> Went_wild)))"

text \<open>
  A child that was just attached to, as the kernel has it: it is in no call, and has made none since.
\<close>

definition fresh_child :: "traced \<Rightarrow> bool" where
  "fresh_child w \<longleftrightarrow> \<not> in_call w \<and> \<not> pending w \<and> calls_run w = []"

definition held_back :: "env \<Rightarrow> vsf_session \<Rightarrow> int \<Rightarrow> traced \<Rightarrow> bool" where
  "held_back e s i w \<longleftrightarrow> calls_within (\<lambda>(r, m). ftp_admits e s i r m) w \<and> \<not> pending w"

text \<open>A child that writes something, then tries to remove a file.\<close>

definition stop_at :: "nat \<Rightarrow> nat \<Rightarrow> stop" where
  "stop_at sig nr =
     \<lparr>wait_ret = 7, wait_errno = 0, status = sig * 256 + 127,
      child_regs = zero_regs\<lparr>orig_eax := word_of_nat nr, xcs := 0x73\<rparr>, child_mem = (\<lambda>_. Inl 5),
      getregs_err = 0, setregs_err = 0, cont_err = 0\<rparr>"

definition example_launch :: launch where
  "example_launch =
     \<lparr>malloc_ok = True, sigaction_ok = True, fork_ret = 7, first_waits = [stop_at 19 0], setoptions_ok = True,
      child = \<lparr>future = [stop_at 133 NR_write, stop_at 133 NR_write, stop_at 133 NR_unlink], here = stop_at 19 0,
               in_call = False, pending = False, now_regs = zero_regs, delivered = [], calls_run = []\<rparr>\<rparr>"

lemma fresh_example: "fresh_child (child example_launch)" "fork_ret example_launch = 7"
  by (simp_all add: fresh_child_def example_launch_def stop_at_def)

lemma example_run:
  "case vsf_one_process_start (calm_env []) (new_session True []) example_launch of
     Supervised_to_the_end w \<Rightarrow> map (\<lambda>(r, m). unat (orig_eax r)) (calls_run w) = [NR_exit_group, NR_write]
   | _ \<Rightarrow> False"
proof -
  let ?p = "session_sandbox (calm_env []) (new_session True [])"
  have same: "same_tables ?p ?p" by (simp add: same_tables_def)
  have tabs: "is_allowed ?p NR_write" "\<not> is_allowed ?p NR_unlink" "validator ?p NR_write = None"
    by (simp_all add: session_sandbox_tables [OF same] session_calls_def policy_validators_def may_change_def)
  have p: "pid ?p = -1" "\<not> is_exit ?p"
    using policy_effect [of "calm_env []" "new_session True []"] by (simp_all add: session_sandbox_def effect_def empty_sandbox_def)
  have alloc: "ptrace_sandbox_alloc True True = Some empty_sandbox" by (simp add: alloc_empty)
  show ?thesis
    using tabs p
    by (simp add: vsf_one_process_start_def example_launch_def alloc session_sandbox_def [symmetric] Let_def
        ptrace_sandbox_launch_process_def stop_at_def WIFSTOPPED_def WSTOPSIG_def
        WIFEXITED_def WIFSIGNALED_def ptrace_sandbox_run_processes_def ptrace_sandbox_continue_process_def go_on_def deliver_def
        reach_def syscall_stop_def ptrace_sandbox_get_event_def ptrace_sandbox_handle_event_def get_action_def give_up_def
        ptrace_sandbox_kill_processes_def ptrace_sandbox_free_def zero_regs_def)
qed

text \<open>
  C3: the sandbox confines. Whatever system calls a sandboxed session process attempts, in any order, with any registers
  and memory, between any signals and any failures of the calls the supervisor makes: every call that is ever run is one that the policy means
  to admit for this configuration (files are opened for writing only where uploads are allowed, removed and renamed only
  where changes are allowed, connections go only to the client, and so on), with one exception that comments of the code name: when the
  registers of the child can not be read or written at the stop where the supervisor gives up, the call the child stands in front of runs
  before the kill takes effect; it is then the last one. No call is left pending, and the supervisor itself never writes outside its
  buffers. The child that is launched is in no call yet.
\<close>

theorem sandbox_confines:
  assumes "fresh_child (child l)" and "0 < fork_ret l"
  shows "case vsf_one_process_start e s l of
           Died text \<Rightarrow> True
         | Supervised_to_the_end w \<Rightarrow> held_back e s (fork_ret l) w
         | Still_waiting None \<Rightarrow> True
         | Still_waiting (Some w) \<Rightarrow> held_back e s (fork_ret l) w
         | Went_wild \<Rightarrow> False"
proof -
  let ?p = "(session_sandbox e s)\<lparr>pid := fork_ret l\<rparr>"
  have exit: "\<not> is_exit ?p" "pid (session_sandbox e s) = -1"
    using policy_effect [of e s] by (simp_all add: session_sandbox_def effect_def empty_sandbox_def)
  have "\<exists>w'. run_world (ptrace_sandbox_run_processes ftp_extern ?p (child l)) = Some w' \<and>
      calls_within (\<lambda>(r, m). ftp_admits e s (pid ?p) r m) w' \<and> \<not> pending w'"
    using assms exit by (intro ftp.run_processes_admitted) (simp_all add: same_tables_def fresh_child_def)
  then have "case ptrace_sandbox_run_processes ftp_extern ?p (child l) of
      Returned r p w \<Rightarrow> held_back e s (fork_ret l) w | Waiting p w \<Rightarrow> held_back e s (fork_ret l) w | Undefined \<Rightarrow> False"
    by (cases "ptrace_sandbox_run_processes ftp_extern ?p (child l)") (simp_all add: held_back_def)
  then show ?thesis
    using exit run_processes_gone [of ftp_extern ?p "child l"]
    by (auto simp: vsf_one_process_start_def ptrace_sandbox_launch_process_def alloc_empty
        session_sandbox_def [symmetric] ptrace_sandbox_free_def
        split: option.splits run_res.splits list.splits if_splits)
qed

lemma sandbox_confines_witness:
  "case vsf_one_process_start (calm_env []) (new_session True []) example_launch of
     Supervised_to_the_end w \<Rightarrow>
       held_back (calm_env []) (new_session True []) 7 w \<and>
       map (\<lambda>(r, m). unat (orig_eax r)) (calls_run w) = [NR_exit_group, NR_write]
   | _ \<Rightarrow> False"
  using sandbox_confines [of example_launch "calm_env []" "new_session True []"] example_run fresh_example
  by (cases "vsf_one_process_start (calm_env []) (new_session True []) example_launch") auto

section \<open>Where the policy and the server disagree\<close>

text \<open>
  The validator of \<open>bind\<close> is that of \<open>connect\<close>, which compares with the client's address: a bind to any other address, as the
  server's own in \<open>vsf_privop_pasv_listen\<close>, is refused.
\<close>

lemma bind_elsewhere_refused:
  assumes "unat (orig_eax r) = NR_socketcall" and "unat (ebx r) = SYS_BIND"
    and "block r m 1 = Inr ptr" and "mem_words m ptr (sockaddr_words (vsf_sysutil_sockaddr_is_ipv6 (p_local_addr s))) = Some buf"
    and "\<not> vsf_sysutil_sockaddr_addr_equal (p_remote_addr s)
           (address_of_bytes (vsf_sysutil_sockaddr_is_ipv6 (p_local_addr s)) buf)"
  shows "\<not> ftp_admits e s i r m"
  using assms by (auto simp: ftp_admits_def socketcall_ok_def names_client_def Let_def split: sum.splits)

text \<open>
  An open with read access is admitted whatever else it asks for: with \<^verbatim>\<open>O_CREAT\<close> and \<^verbatim>\<open>O_TRUNC\<close> (0x240) it creates or empties
  a file, although the configuration allows no writing at all.
\<close>

lemma readonly_open_may_create:
  assumes "unat (orig_eax r) = NR_open" and "ecx r = 0x240"
  shows "ftp_admits e s i r m"
  using assms by (simp add: ftp_admits_def session_calls_def)

text \<open>The call that a change of the file system is made by.\<close>

fun change_call :: "change \<Rightarrow> nat" where
  "change_call (Mkdir f md) = NR_mkdir"
| "change_call (Rmdir f) = NR_rmdir"
| "change_call (Unlink f) = NR_unlink"
| "change_call (Rename f g) = NR_rename"
| "change_call (Chmod f md) = NR_chmod"
| "change_call (CreateExclusive f md) = NR_open"
| "change_call (CreateOrOpen f md) = NR_open"
| "change_call (Setmodtime f t loc) = NR_utime"

fun creates :: "change \<Rightarrow> bool" where
  "creates (CreateExclusive f md) = True"
| "creates (CreateOrOpen f md) = True"
| "creates c = False"

definition change_admitted :: "'v pt_sandbox \<Rightarrow> change \<Rightarrow> bool" where
  "change_admitted q c \<longleftrightarrow>
     is_allowed q (change_call c) \<and> (if creates c then validator q NR_open = Some validate_open_default_ptr else True)"

text \<open>
  Where the sandbox agrees with the session. Every change of the file system that a session may make
  (\<open>session_confined\<close>) has its system call in the table of the sandbox, and files may be opened for writing where it creates
  some, with exactly these exceptions, all of an anonymous user: removing a failed upload (\<open>delete_failed_uploads\<close>) when the
  user may upload but not otherwise change files, and writing a file (\<^verbatim>\<open>APPE\<close>) when the user may change files but not
  upload.
\<close>

theorem sandbox_covers_changes:
  assumes "change_ok e (is_anonymous s) c" and "same_tables (session_sandbox e s) q"
  shows "change_admitted q c \<longleftrightarrow>
    \<not> (is_anonymous s \<and> ((\<exists>f. c = Unlink f) \<and> \<not> may_change e True \<or> creates c \<and> \<not> may_upload e True))"
proof -
  note tabs = session_sandbox_tables [OF assms(2)]
  have "may_change e False = may_upload e False" by (simp add: may_change_def may_upload_def)
  then show ?thesis
    using assms(1)
    by (cases c; cases "is_anonymous s")
       (simp_all add: change_admitted_def tabs session_calls_def policy_validators_at, blast?)
qed

lemma sandbox_covers_changes_witness:
  "is_allowed (session_sandbox (calm_env [''write_enable'', ''anon_mkdir_write_enable'']) (new_session True [])) NR_mkdir"
proof -
  let ?e = "calm_env [''write_enable'', ''anon_mkdir_write_enable'']"
  have "access_ok ?e ''d''" by (simp add: access_ok_def vsf_access_check_file_def access_common_def)
  then have "named_ok ?e ''d''" unfolding named_ok_def by (intro exI [of _ "''d''"]) simp
  then have "change_ok ?e (is_anonymous (new_session True [])) (Mkdir ''d'' 511)" by (simp add: may_mkdir_def)
  then show ?thesis
    using sandbox_covers_changes [of ?e "new_session True []" "Mkdir ''d'' 511" "session_sandbox ?e (new_session True [])"]
    by (simp add: same_tables_def change_admitted_def)
qed

end
