(* ===== verification/Secutil.thy ===== *)
theory Secutil
  imports Prelude
begin

text \<open>
  \<^verbatim>\<open>secutil.c\<close>: giving up privileges, with the wrappers of \<^verbatim>\<open>sysutil.c\<close> and \<^verbatim>\<open>sysdeputil.c\<close> it uses. The credentials of a
  process are a record, and the system calls on them are functions after \<^verbatim>\<open>credentials(7)\<close>, \<^verbatim>\<open>setuid(2)\<close>, \<^verbatim>\<open>setreuid(2)\<close>,
  \<^verbatim>\<open>capabilities(7)\<close> and \<^verbatim>\<open>chroot(2)\<close>.
\<close>

section \<open>Credentials and the system calls on them\<close>

datatype capability = CAP_CHOWN | CAP_NET_BIND_SERVICE

text \<open>All capabilities, as root has them, or just some.\<close>

datatype caps = Full | Only "capability set"

text \<open>
  Directories are absolute names in the file system of the host, \<open>root_dir\<close> and \<open>cwd\<close> as well. \<open>no_fds\<close> and \<open>no_procs\<close>: the
  limits on descriptors and on processes are 0.
\<close>

record cred =
  ruid :: int
  euid :: int
  suid :: int
  rgid :: int
  egid :: int
  sgid :: int
  groups :: "int list"
  permitted :: caps
  effective :: caps
  keepcaps :: bool
  root_dir :: string
  cwd :: string
  no_fds :: bool
  no_procs :: bool

text \<open>
  What the credentials do not determine: the user database, where a change of directory leads (\<open>None\<close>: it fails), whether
  a directory is writable, whether the kernel has capabilities and \<^verbatim>\<open>PR_SET_KEEPCAPS\<close>, and which call fails for want of
  resources.
\<close>

record user =
  pw_uid :: int
  pw_gid :: int
  pw_dir :: string

record host =
  getpwnam :: "string \<Rightarrow> user option"
  grouplist :: "string \<Rightarrow> int list"
  chdir_to :: "cred \<Rightarrow> string \<Rightarrow> string option"
  writable :: "cred \<Rightarrow> string \<Rightarrow> bool"
  kernel_caps :: bool
  kernel_keepcaps :: bool
  fails :: "string \<Rightarrow> bool"

text \<open>A change of the effective user from or to root changes the effective capabilities.\<close>

definition fix_effective :: "int \<Rightarrow> cred \<Rightarrow> cred" where
  "fix_effective old c =
     (if old = 0 \<and> euid c \<noteq> 0 then c\<lparr>effective := Only {}\<rparr>
      else if old \<noteq> 0 \<and> euid c = 0 then c\<lparr>effective := permitted c\<rparr> else c)"

text \<open>When none of the three is root any more, all capabilities are lost unless they are to be kept.\<close>

definition fix_permitted :: "cred \<Rightarrow> cred \<Rightarrow> cred" where
  "fix_permitted old c =
     (if (ruid old = 0 \<or> euid old = 0 \<or> suid old = 0) \<and> ruid c \<noteq> 0 \<and> euid c \<noteq> 0 \<and> suid c \<noteq> 0 \<and> \<not> keepcaps old
      then c\<lparr>permitted := Only {}, effective := Only {}\<rparr> else c)"

definition k_setuid :: "int \<Rightarrow> cred \<Rightarrow> cred option" where
  "k_setuid u c =
     (if effective c = Full then Some (fix_permitted c (fix_effective (euid c) (c\<lparr>ruid := u, euid := u, suid := u\<rparr>)))
      else if u = ruid c \<or> u = suid c then Some (fix_permitted c (fix_effective (euid c) (c\<lparr>euid := u\<rparr>)))
      else None)"

text \<open>\<open>setreuid(-1, u)\<close>: the saved id follows the new effective id unless that is the real id.\<close>

definition k_set_euid :: "int \<Rightarrow> cred \<Rightarrow> cred option" where
  "k_set_euid u c =
     (if effective c = Full \<or> u = ruid c \<or> u = euid c \<or> u = suid c
      then Some (fix_permitted c (fix_effective (euid c)
             (c\<lparr>euid := u, suid := (if u \<noteq> ruid c then u else suid c)\<rparr>)))
      else None)"

definition k_setgid :: "int \<Rightarrow> cred \<Rightarrow> cred option" where
  "k_setgid g c =
     (if effective c = Full then Some (c\<lparr>rgid := g, egid := g, sgid := g\<rparr>)
      else if g = rgid c \<or> g = sgid c then Some (c\<lparr>egid := g\<rparr>)
      else None)"

definition k_set_egid :: "int \<Rightarrow> cred \<Rightarrow> cred option" where
  "k_set_egid g c =
     (if effective c = Full \<or> g = rgid c \<or> g = egid c \<or> g = sgid c
      then Some (c\<lparr>egid := g, sgid := (if g \<noteq> rgid c then g else sgid c)\<rparr>)
      else None)"

definition k_setgroups :: "int list \<Rightarrow> cred \<Rightarrow> cred option" where
  "k_setgroups gs c = (if effective c = Full then Some (c\<lparr>groups := gs\<rparr>) else None)"

definition k_chroot_here :: "cred \<Rightarrow> cred option" where
  "k_chroot_here c = (if effective c = Full then Some (c\<lparr>root_dir := cwd c\<rparr>) else None)"

text \<open>A process may only drop capabilities.\<close>

definition caps_le :: "caps \<Rightarrow> caps \<Rightarrow> bool" where
  "caps_le a b = (case b of Full \<Rightarrow> True | Only B \<Rightarrow> (case a of Full \<Rightarrow> False | Only A \<Rightarrow> A \<subseteq> B))"

definition k_set_caps :: "capability set \<Rightarrow> cred \<Rightarrow> cred option" where
  "k_set_caps A c = (if caps_le (Only A) (permitted c) then Some (c\<lparr>permitted := Only A, effective := Only A\<rparr>) else None)"

section \<open>The wrappers\<close>

text \<open>A call that must succeed.\<close>

definition need :: "host \<Rightarrow> string \<Rightarrow> cred option \<Rightarrow> cred result" where
  "need h p_text r = (case r of None \<Rightarrow> die p_text | Some c \<Rightarrow> if fails h p_text then die p_text else Inr c)"

definition vsf_sysutil_running_as_root :: "cred \<Rightarrow> bool" where
  "vsf_sysutil_running_as_root c \<longleftrightarrow> ruid c = 0"

definition vsf_sysutil_setuid :: "host \<Rightarrow> user \<Rightarrow> cred \<Rightarrow> cred result" where
  "vsf_sysutil_setuid h u c = need h ''setuid'' (k_setuid (pw_uid u) c)"

definition vsf_sysutil_setgid :: "host \<Rightarrow> user \<Rightarrow> cred \<Rightarrow> cred result" where
  "vsf_sysutil_setgid h u c = need h ''setgid'' (k_setgid (pw_gid u) c)"

definition vsf_sysutil_seteuid_numeric :: "host \<Rightarrow> int \<Rightarrow> cred \<Rightarrow> cred result" where
  "vsf_sysutil_seteuid_numeric h uid c = need h ''seteuid'' (k_set_euid uid c)"

definition vsf_sysutil_setegid_numeric :: "host \<Rightarrow> int \<Rightarrow> cred \<Rightarrow> cred result" where
  "vsf_sysutil_setegid_numeric h gid c = need h ''setegid'' (k_set_egid gid c)"

definition vsf_sysutil_clear_supp_groups :: "host \<Rightarrow> cred \<Rightarrow> cred result" where
  "vsf_sysutil_clear_supp_groups h c = need h ''setgroups'' (k_setgroups [] c)"

definition vsf_sysutil_initgroups :: "host \<Rightarrow> string \<Rightarrow> user \<Rightarrow> cred \<Rightarrow> cred result" where
  "vsf_sysutil_initgroups h name u c = need h ''initgroups'' (k_setgroups (pw_gid u # grouplist h name) c)"

definition vsf_sysutil_chroot_here :: "host \<Rightarrow> cred \<Rightarrow> cred result" where
  "vsf_sysutil_chroot_here h c = need h ''chroot'' (k_chroot_here c)"

definition vsf_sysutil_set_no_fds :: "host \<Rightarrow> cred \<Rightarrow> cred result" where
  "vsf_sysutil_set_no_fds h c = need h ''setrlimit NOFILE'' (Some (c\<lparr>no_fds := True\<rparr>))"

definition vsf_sysutil_set_no_procs :: "host \<Rightarrow> cred \<Rightarrow> cred result" where
  "vsf_sysutil_set_no_procs h c = need h ''setrlimit NPROC'' (Some (c\<lparr>no_procs := True\<rparr>))"

text \<open>\<open>chdir_cred\<close>: success, with the new working directory.\<close>

definition chdir_cred :: "host \<Rightarrow> string \<Rightarrow> cred \<Rightarrow> cred option" where
  "chdir_cred h p_str c = map_option (\<lambda>d. c\<lparr>cwd := d\<rparr>) (chdir_to h c (c_str p_str))"

definition vsf_sysdep_has_capabilities :: "host \<Rightarrow> bool" where
  "vsf_sysdep_has_capabilities h = kernel_caps h"

definition vsf_sysdep_has_capabilities_as_non_root :: "host \<Rightarrow> bool" where
  "vsf_sysdep_has_capabilities_as_non_root h = kernel_keepcaps h"

definition vsf_sysdep_keep_capabilities :: "host \<Rightarrow> cred \<Rightarrow> cred result" where
  "vsf_sysdep_keep_capabilities h c =
     (if \<not> vsf_sysdep_has_capabilities_as_non_root h then bug ''asked to keep capabilities, but no support exists''
      else need h ''prctl'' (Some (c\<lparr>keepcaps := True\<rparr>)))"

definition vsf_sysdep_adopt_capabilities :: "host \<Rightarrow> capability set \<Rightarrow> cred \<Rightarrow> cred result" where
  "vsf_sysdep_adopt_capabilities h A c = need h ''cap_set_proc'' (k_set_caps A c)"

section \<open>Changing credentials\<close>

record options =
  OPTION_CHROOT :: bool
  OPTION_USE_GROUPS :: bool
  OPTION_CHANGE_EUID :: bool
  OPTION_NO_FDS :: bool
  OPTION_NO_PROCS :: bool

text \<open>A failure on the extra directory is an error only if it is to be the new root.\<close>

definition enter_ext_dir :: "host \<Rightarrow> string option \<Rightarrow> options \<Rightarrow> cred \<Rightarrow> cred result" where
  "enter_ext_dir h p_ext_dir_str opts c =
     (case p_ext_dir_str of
        None \<Rightarrow> Inr c
      | Some x \<Rightarrow>
          if x = [] then Inr c
          else (case chdir_cred h x c of
                  Some c \<Rightarrow> Inr c
                | None \<Rightarrow> if OPTION_CHROOT opts then die2 ''cannot change directory:'' x else Inr c))"

text \<open>The change of directory, done with the ids of the user if that is asked for.\<close>

definition enter_dir :: "host \<Rightarrow> user \<Rightarrow> string \<Rightarrow> string option \<Rightarrow> options \<Rightarrow> cred \<Rightarrow> cred result" where
  "enter_dir h p_user dir_str p_ext_dir_str opts c =
     (let saved_euid = euid c; saved_egid = egid c in
      andthen (if OPTION_CHANGE_EUID opts
               then andthen (vsf_sysutil_setegid_numeric h (pw_gid p_user) c) (vsf_sysutil_seteuid_numeric h (pw_uid p_user))
               else Inr c) (\<lambda>c.
      case chdir_cred h dir_str c of
        None \<Rightarrow> die2 ''cannot change directory:'' dir_str
      | Some c \<Rightarrow>
          andthen (enter_ext_dir h p_ext_dir_str opts c) (\<lambda>c.
          andthen (if OPTION_CHANGE_EUID opts
                   then andthen (vsf_sysutil_seteuid_numeric h saved_euid c) (vsf_sysutil_setegid_numeric h saved_egid)
                   else Inr c) (\<lambda>c.
          if OPTION_CHROOT opts then vsf_sysutil_chroot_here h c else Inr c))))"

text \<open>
  \<open>p_dir_str\<close> and \<open>p_ext_dir_str\<close> are \<open>None\<close> for a null pointer; \<open>caps\<close> is the set of capabilities to keep, empty for 0.
\<close>

definition vsf_secutil_change_credentials ::
  "host \<Rightarrow> string \<Rightarrow> string option \<Rightarrow> string option \<Rightarrow> capability set \<Rightarrow> options \<Rightarrow> cred \<Rightarrow> cred result" where
  "vsf_secutil_change_credentials h p_user_str p_dir_str p_ext_dir_str caps opts c =
     (if \<not> vsf_sysutil_running_as_root c then bug ''vsf_secutil_change_credentials: not running as root''
      else case getpwnam h (c_str p_user_str) of
        None \<Rightarrow> die2 ''cannot locate user entry:'' p_user_str
      | Some p_user \<Rightarrow>
          let dir_str = (case p_dir_str of
                           None \<Rightarrow> pw_dir p_user | Some d \<Rightarrow> if d = [] then pw_dir p_user else d)
          in
          andthen (if OPTION_USE_GROUPS opts then vsf_sysutil_initgroups h (c_str p_user_str) p_user c
                   else vsf_sysutil_clear_supp_groups h c) (\<lambda>c.
          andthen (enter_dir h p_user dir_str p_ext_dir_str opts c) (\<lambda>c.
          andthen (if OPTION_NO_FDS opts then vsf_sysutil_set_no_fds h c else Inr c) (\<lambda>c.
          if caps \<noteq> {} \<and> \<not> vsf_sysdep_has_capabilities h then Inr c
          else if caps \<noteq> {} \<and> \<not> vsf_sysdep_has_capabilities_as_non_root h then vsf_sysdep_adopt_capabilities h caps c
          else
          andthen (if caps \<noteq> {} then vsf_sysdep_keep_capabilities h c else Inr c) (\<lambda>c.
          andthen (vsf_sysutil_setgid h p_user c) (\<lambda>c.
          andthen (vsf_sysutil_setuid h p_user c) (\<lambda>c.
          andthen (if caps \<noteq> {} then vsf_sysdep_adopt_capabilities h caps c else Inr c) (\<lambda>c.
          andthen (if OPTION_NO_PROCS opts then vsf_sysutil_set_no_procs h c else Inr c) (\<lambda>c.
          if OPTION_CHROOT opts \<and> writable h c (root_dir c)
          then die ''vsftpd: refusing to run with writable root inside chroot()''
          else Inr c)))))))))"

section \<open>What is left of the privileges\<close>

definition root_process :: "cred \<Rightarrow> bool" where
  "root_process c \<longleftrightarrow> ruid c = 0 \<and> euid c = 0 \<and> permitted c = Full \<and> effective c = Full \<and> \<not> keepcaps c"

text \<open>A process of the user \<open>u\<close> with the capabilities \<open>A\<close> and nothing else, and with no way to get more.\<close>

definition only_user :: "user \<Rightarrow> capability set \<Rightarrow> cred \<Rightarrow> bool" where
  "only_user u A c \<longleftrightarrow>
     ruid c = pw_uid u \<and> euid c = pw_uid u \<and> suid c = pw_uid u \<and>
     rgid c = pw_gid u \<and> egid c = pw_gid u \<and> sgid c = pw_gid u \<and> permitted c = Only A \<and> effective c = Only A"

lemma need_Inr: "need h t r = Inr c \<longleftrightarrow> r = Some c \<and> \<not> fails h t"
  by (auto simp: need_def halt_simps split: option.splits)

lemmas k_defs = k_setuid_def k_set_euid_def k_setgid_def k_set_egid_def k_setgroups_def k_chroot_here_def k_set_caps_def
  fix_effective_def fix_permitted_def

lemmas wrapper_defs = vsf_sysutil_setuid_def vsf_sysutil_setgid_def vsf_sysutil_seteuid_numeric_def
  vsf_sysutil_setegid_numeric_def vsf_sysutil_clear_supp_groups_def vsf_sysutil_initgroups_def vsf_sysutil_chroot_here_def
  vsf_sysutil_set_no_fds_def vsf_sysutil_set_no_procs_def vsf_sysdep_adopt_capabilities_def need_Inr

text \<open>What a process may become by any sequence of the system calls on its credentials, of changes of directory and of \<open>prctl\<close>.\<close>

inductive becomes :: "cred \<Rightarrow> cred \<Rightarrow> bool" where
  stays: "becomes c c"
| by_setuid: "becomes c c1 \<Longrightarrow> k_setuid u c1 = Some c2 \<Longrightarrow> becomes c c2"
| by_set_euid: "becomes c c1 \<Longrightarrow> k_set_euid u c1 = Some c2 \<Longrightarrow> becomes c c2"
| by_setgid: "becomes c c1 \<Longrightarrow> k_setgid g c1 = Some c2 \<Longrightarrow> becomes c c2"
| by_set_egid: "becomes c c1 \<Longrightarrow> k_set_egid g c1 = Some c2 \<Longrightarrow> becomes c c2"
| by_setgroups: "becomes c c1 \<Longrightarrow> k_setgroups gs c1 = Some c2 \<Longrightarrow> becomes c c2"
| by_chroot: "becomes c c1 \<Longrightarrow> k_chroot_here c1 = Some c2 \<Longrightarrow> becomes c c2"
| by_set_caps: "becomes c c1 \<Longrightarrow> k_set_caps B c1 = Some c2 \<Longrightarrow> becomes c c2"
| by_chdir: "becomes c c1 \<Longrightarrow> becomes c (c1\<lparr>cwd := d\<rparr>)"
| by_keepcaps: "becomes c c1 \<Longrightarrow> becomes c (c1\<lparr>keepcaps := b\<rparr>)"

text \<open>Nothing gained: the same ids, groups and root directory, and at most the capabilities \<open>A\<close>.\<close>

definition no_more :: "user \<Rightarrow> capability set \<Rightarrow> cred \<Rightarrow> cred \<Rightarrow> bool" where
  "no_more u A c c' \<longleftrightarrow>
     ruid c' = pw_uid u \<and> euid c' = pw_uid u \<and> suid c' = pw_uid u \<and> rgid c' = pw_gid u \<and> egid c' = pw_gid u \<and> sgid c' = pw_gid u \<and>
     groups c' = groups c \<and> root_dir c' = root_dir c \<and>
     (\<exists>B \<subseteq> A. permitted c' = Only B) \<and> (\<exists>B \<subseteq> A. effective c' = Only B)"

lemma no_way_back:
  assumes "becomes c c'" and "only_user u A c" and "pw_uid u \<noteq> 0"
  shows "no_more u A c c'"
  using assms
proof (induction rule: becomes.induct)
  case (stays c)
  then show ?case by (auto simp: no_more_def only_user_def)
qed (auto simp: no_more_def k_defs caps_le_def split: if_splits)

text \<open>Entering the directory leaves the process root, with its groups and limits.\<close>

definition same_outside :: "cred \<Rightarrow> cred \<Rightarrow> bool" where
  "same_outside c c' \<longleftrightarrow> groups c' = groups c \<and> no_fds c' = no_fds c \<and> no_procs c' = no_procs c"

text \<open>Between the two changes of the effective user the process can become root again: its real id is 0.\<close>

definition root_behind :: "cred \<Rightarrow> bool" where
  "root_behind c \<longleftrightarrow> ruid c = 0 \<and> permitted c = Full \<and> (if euid c = 0 then effective c = Full else True) \<and> \<not> keepcaps c"

definition same_place :: "cred \<Rightarrow> cred \<Rightarrow> bool" where
  "same_place c c' \<longleftrightarrow> same_outside c c' \<and> root_dir c' = root_dir c \<and> cwd c' = cwd c"

lemma setegid_behind:
  "root_behind c \<Longrightarrow> vsf_sysutil_setegid_numeric h g c = Inr c' \<Longrightarrow> root_behind c' \<and> same_place c c' \<and> euid c' = euid c"
  by (auto simp: vsf_sysutil_setegid_numeric_def need_Inr k_set_egid_def root_behind_def same_place_def same_outside_def
      split: if_splits)

lemma seteuid_behind:
  "root_behind c \<Longrightarrow> vsf_sysutil_seteuid_numeric h u c = Inr c' \<Longrightarrow> root_behind c' \<and> same_place c c' \<and> euid c' = u"
  by (auto simp: vsf_sysutil_seteuid_numeric_def need_Inr k_set_euid_def fix_effective_def fix_permitted_def root_behind_def
      same_place_def same_outside_def split: if_splits)

lemma root_behind_iff: "root_process c \<longleftrightarrow> root_behind c \<and> euid c = 0"
  by (auto simp: root_process_def root_behind_def)

lemma root_behind_cwd [simp]: "root_behind (c\<lparr>cwd := d\<rparr>) = root_behind c"
  by (simp add: root_behind_def)

lemma to_user_and_back:
  assumes "root_process c" and "vsf_sysutil_setegid_numeric h g c = Inr c1" and "vsf_sysutil_seteuid_numeric h u c1 = Inr c2"
    and "vsf_sysutil_seteuid_numeric h (euid c) (c2\<lparr>cwd := d\<rparr>) = Inr c3" and "vsf_sysutil_setegid_numeric h (egid c) c3 = Inr c4"
  shows "root_process c4 \<and> same_outside c c4 \<and> root_dir c4 = root_dir c \<and> cwd c4 = d"
proof -
  have 0: "root_behind c" "euid c = 0" using assms(1) by (simp_all add: root_behind_iff)
  have 1: "root_behind c1 \<and> same_place c c1" using setegid_behind [OF 0(1) assms(2)] by simp
  have 2: "root_behind c2 \<and> same_place c1 c2" using seteuid_behind [OF conjunct1 [OF 1] assms(3)] by simp
  then have "root_behind (c2\<lparr>cwd := d\<rparr>)" by simp
  from seteuid_behind [OF this assms(4)] have 3: "root_behind c3 \<and> same_place (c2\<lparr>cwd := d\<rparr>) c3 \<and> euid c3 = 0"
    using 0(2) by simp
  have "root_behind c4 \<and> same_place c3 c4 \<and> euid c4 = 0" using setegid_behind [OF conjunct1 [OF 3] assms(5)] 3 by simp
  with 1 2 3 show ?thesis by (simp add: root_behind_iff same_place_def same_outside_def)
qed

text \<open>
  Where a process is sent: from where it is, with the effective ids of the user if that is asked for and of root otherwise,
  to the first directory, and from there to the extra one, if there is one; that this fails is ignored only if the
  directory is not to be the new root.
\<close>

definition on_to :: "host \<Rightarrow> bool \<Rightarrow> cred \<Rightarrow> string \<Rightarrow> string option \<Rightarrow> string \<Rightarrow> bool" where
  "on_to h must_work c d0 ext d \<longleftrightarrow>
     (case ext of
        None \<Rightarrow> d = d0
      | Some x \<Rightarrow>
          if x = [] then d = d0
          else (case chdir_to h (c\<lparr>cwd := d0\<rparr>) (c_str x) of Some d1 \<Rightarrow> d = d1 | None \<Rightarrow> \<not> must_work \<and> d = d0))"

definition sent_to :: "host \<Rightarrow> options \<Rightarrow> user \<Rightarrow> cred \<Rightarrow> string \<Rightarrow> string option \<Rightarrow> string \<Rightarrow> bool" where
  "sent_to h opts u c dir ext d \<longleftrightarrow>
     (\<exists>c0 d0. root_dir c0 = root_dir c \<and> cwd c0 = cwd c \<and>
        euid c0 = (if OPTION_CHANGE_EUID opts then pw_uid u else euid c) \<and>
        egid c0 = (if OPTION_CHANGE_EUID opts then pw_gid u else egid c) \<and>
        chdir_to h c0 (c_str dir) = Some d0 \<and> on_to h (OPTION_CHROOT opts) c0 d0 ext d)"

lemma sent_to_place: "root_dir c1 = root_dir c \<Longrightarrow> cwd c1 = cwd c \<Longrightarrow> euid c1 = euid c \<Longrightarrow> egid c1 = egid c \<Longrightarrow>
    sent_to h opts u c1 dir ext d = sent_to h opts u c dir ext d"
  by (simp add: sent_to_def)

lemma enter_ext_dir_cwd:
  "enter_ext_dir h x opts (c\<lparr>cwd := d\<rparr>) = Inr c' \<Longrightarrow> \<exists>e. c' = c\<lparr>cwd := e\<rparr> \<and> on_to h (OPTION_CHROOT opts) c d x e"
  by (auto simp: enter_ext_dir_def on_to_def chdir_cred_def halt_simps split: option.splits if_splits)

lemma enter_dir_root:
  assumes "root_process c" and "enter_dir h u d x opts c = Inr c'"
  shows "root_process c' \<and> same_outside c c' \<and> (if OPTION_CHROOT opts then root_dir c' = cwd c' else root_dir c' = root_dir c) \<and>
    sent_to h opts u c d x (cwd c')"
proof -
  have ch: "root_process c2 \<and> same_outside c1 c2 \<and> root_dir c2 = cwd c2 \<and> cwd c2 = cwd c1"
    if "root_process c1" "vsf_sysutil_chroot_here h c1 = Inr c2" for c1 c2
    using that by (auto simp: root_process_def same_outside_def wrapper_defs k_defs split: if_splits)
  show ?thesis
  proof (cases "OPTION_CHANGE_EUID opts")
    case True
    obtain c1 c2 d0 e c3 c4 where steps: "vsf_sysutil_setegid_numeric h (pw_gid u) c = Inr c1"
        "vsf_sysutil_seteuid_numeric h (pw_uid u) c1 = Inr c2"
        "vsf_sysutil_seteuid_numeric h (euid c) (c2\<lparr>cwd := e\<rparr>) = Inr c3" "vsf_sysutil_setegid_numeric h (egid c) c3 = Inr c4"
        "(if OPTION_CHROOT opts then vsf_sysutil_chroot_here h c4 else Inr c4) = Inr c'"
      and place: "chdir_to h c2 (c_str d) = Some d0" "on_to h (OPTION_CHROOT opts) c2 d0 x e"
      using assms(2) True
      by (auto simp: enter_dir_def Let_def andthen_Inr_iff halt_simps chdir_cred_def dest!: enter_ext_dir_cwd
          split: option.splits)
    have 0: "root_behind c" "euid c = 0" using assms(1) by (simp_all add: root_behind_iff)
    have 1: "root_behind c1 \<and> same_place c c1" using setegid_behind [OF 0(1) steps(1)] by simp
    have 2: "same_place c1 c2 \<and> euid c2 = pw_uid u" using seteuid_behind [OF conjunct1 [OF 1] steps(2)] by simp
    have "egid c2 = pw_gid u"
      using steps(1,2) by (auto simp: vsf_sysutil_setegid_numeric_def vsf_sysutil_seteuid_numeric_def need_Inr k_set_egid_def
          k_set_euid_def fix_effective_def fix_permitted_def split: if_splits)
    with 1 2 place True have "sent_to h opts u c d x e" unfolding sent_to_def same_place_def by (intro exI [of _ c2] exI [of _ d0]) simp
    then show ?thesis using to_user_and_back [OF assms(1) steps(1-4)] steps(5) ch [of c4 c'] by (auto simp: same_outside_def split: if_splits)
  next
    case False
    obtain d0 e where steps: "(if OPTION_CHROOT opts then vsf_sysutil_chroot_here h (c\<lparr>cwd := e\<rparr>) else Inr (c\<lparr>cwd := e\<rparr>)) = Inr c'"
      and place: "chdir_to h c (c_str d) = Some d0" "on_to h (OPTION_CHROOT opts) c d0 x e"
      using assms(2) False
      by (auto simp: enter_dir_def Let_def andthen_Inr_iff halt_simps chdir_cred_def dest!: enter_ext_dir_cwd
          split: option.splits)
    have "root_process (c\<lparr>cwd := e\<rparr>)" using assms(1) by (simp add: root_process_def)
    moreover have "sent_to h opts u c d x e" using place False unfolding sent_to_def by (intro exI [of _ c] exI [of _ d0]) simp
    ultimately show ?thesis using steps ch [of "c\<lparr>cwd := e\<rparr>" c'] by (auto simp: same_outside_def split: if_splits)
  qed
qed

lemma if_die_Inr: "(if b then die t else Inr c) = Inr c' \<longleftrightarrow> \<not> b \<and> c = c'"
  by (simp add: halt_simps)

text \<open>The last part, from the capabilities on.\<close>

lemma drop_to_user:
  assumes "root_process c" and "pw_uid u \<noteq> 0" and "kernel_keepcaps h \<or> A = {}"
    and "(if A \<noteq> {} then vsf_sysdep_keep_capabilities h c else Inr c) = Inr c1"
    and "vsf_sysutil_setgid h u c1 = Inr c2" and "vsf_sysutil_setuid h u c2 = Inr c3"
    and "(if A \<noteq> {} then vsf_sysdep_adopt_capabilities h A c3 else Inr c3) = Inr c4"
  shows "only_user u A c4 \<and> same_outside c c4 \<and> root_dir c4 = root_dir c \<and> cwd c4 = cwd c"
proof -
  have 1: "c1 = c\<lparr>keepcaps := A \<noteq> {}\<rparr>"
    using assms(1,3,4)
    by (cases "A = {}") (auto simp: vsf_sysdep_keep_capabilities_def need_Inr root_process_def halt_simps split: if_splits)
  have full: "effective c = Full" "permitted c = Full" "euid c = 0" "ruid c = 0" using assms(1) by (simp_all add: root_process_def)
  have 2: "c2 = c1\<lparr>rgid := pw_gid u, egid := pw_gid u, sgid := pw_gid u\<rparr>"
    using assms(5) full by (simp add: vsf_sysutil_setgid_def need_Inr k_setgid_def 1 split: if_splits)
  have 3: "ruid c3 = pw_uid u \<and> euid c3 = pw_uid u \<and> suid c3 = pw_uid u \<and> rgid c3 = pw_gid u \<and> egid c3 = pw_gid u \<and>
      sgid c3 = pw_gid u \<and> groups c3 = groups c \<and> effective c3 = Only {} \<and> permitted c3 = (if A = {} then Only {} else Full) \<and>
      same_outside c c3 \<and> root_dir c3 = root_dir c \<and> cwd c3 = cwd c"
    using assms(2,6) full
    by (cases "A = {}")
       (auto simp: vsf_sysutil_setuid_def need_Inr k_setuid_def fix_effective_def fix_permitted_def 1 2 same_outside_def)
  show ?thesis
    using 3 assms(7)
    by (auto simp: vsf_sysdep_adopt_capabilities_def need_Inr k_set_caps_def only_user_def same_outside_def split: if_splits)
qed

text \<open>The directory a user is sent to first: the one that is given, or that of the user database.\<close>

definition first_dir :: "user \<Rightarrow> string option \<Rightarrow> string" where
  "first_dir u p_dir_str = (case p_dir_str of None \<Rightarrow> pw_dir u | Some d \<Rightarrow> if d = [] then pw_dir u else d)"

lemma dropped_to_user:
  assumes "vsf_secutil_change_credentials h name d x A opts c = Inr c'" and "root_process c"
    and "getpwnam h (c_str name) = Some u" and "pw_uid u \<noteq> 0" and "A = {} \<or> (kernel_caps h \<and> kernel_keepcaps h)"
  shows "only_user u A c' \<and>
    groups c' = (if OPTION_USE_GROUPS opts then pw_gid u # grouplist h (c_str name) else []) \<and>
    sent_to h opts u c (first_dir u d) x (cwd c') \<and> root_dir c' = (if OPTION_CHROOT opts then cwd c' else root_dir c) \<and>
    \<not> (OPTION_CHROOT opts \<and> writable h c' (root_dir c')) \<and>
    no_fds c' = (OPTION_NO_FDS opts \<or> no_fds c) \<and> no_procs c' = (OPTION_NO_PROCS opts \<or> no_procs c)"
proof -
  let ?dir = "first_dir u d"
  have root: "vsf_sysutil_running_as_root c" using assms(2) by (simp add: vsf_sysutil_running_as_root_def root_process_def)
  have caps: "\<not> (A \<noteq> {} \<and> \<not> vsf_sysdep_has_capabilities h)" "\<not> (A \<noteq> {} \<and> \<not> vsf_sysdep_has_capabilities_as_non_root h)"
    using assms(5) by (auto simp: vsf_sysdep_has_capabilities_def vsf_sysdep_has_capabilities_as_non_root_def)
  obtain c1 c2 c3 c4 c5 c6 c7 where
    g: "(if OPTION_USE_GROUPS opts then vsf_sysutil_initgroups h (c_str name) u c else vsf_sysutil_clear_supp_groups h c) = Inr c1"
    and dir: "enter_dir h u ?dir x opts c1 = Inr c2"
    and fds: "(if OPTION_NO_FDS opts then vsf_sysutil_set_no_fds h c2 else Inr c2) = Inr c3"
    and drop: "(if A \<noteq> {} then vsf_sysdep_keep_capabilities h c3 else Inr c3) = Inr c4" "vsf_sysutil_setgid h u c4 = Inr c5"
      "vsf_sysutil_setuid h u c5 = Inr c6" "(if A \<noteq> {} then vsf_sysdep_adopt_capabilities h A c6 else Inr c6) = Inr c7"
    and procs: "(if OPTION_NO_PROCS opts then vsf_sysutil_set_no_procs h c7 else Inr c7) = Inr c'"
    and safe: "\<not> (OPTION_CHROOT opts \<and> writable h c' (root_dir c'))"
    using assms(1)
    by (auto simp: vsf_secutil_change_credentials_def first_dir_def [symmetric] root assms(3) caps Let_def andthen_Inr_iff if_die_Inr
        split del: if_split)
  have 1: "root_process c1 \<and> groups c1 = (if OPTION_USE_GROUPS opts then pw_gid u # grouplist h (c_str name) else []) \<and>
      root_dir c1 = root_dir c \<and> no_fds c1 = no_fds c \<and> no_procs c1 = no_procs c \<and> cwd c1 = cwd c \<and> euid c1 = euid c \<and> egid c1 = egid c"
    using g assms(2) by (auto simp: wrapper_defs k_setgroups_def root_process_def split: if_splits)
  have 2: "root_process c2 \<and> same_outside c1 c2 \<and> (if OPTION_CHROOT opts then root_dir c2 = cwd c2 else root_dir c2 = root_dir c1) \<and>
      sent_to h opts u c1 ?dir x (cwd c2)"
    using enter_dir_root [OF _ dir] 1 by blast
  then have sent: "sent_to h opts u c ?dir x (cwd c2)" using sent_to_place [of c1 c] 1 by simp
  have 3: "root_process c3 \<and> groups c3 = groups c2 \<and> root_dir c3 = root_dir c2 \<and> cwd c3 = cwd c2 \<and>
      no_fds c3 = (OPTION_NO_FDS opts \<or> no_fds c2) \<and> no_procs c3 = no_procs c2"
    using fds 2 by (auto simp: vsf_sysutil_set_no_fds_def need_Inr root_process_def split: if_splits)
  have 4: "only_user u A c7 \<and> same_outside c3 c7 \<and> root_dir c7 = root_dir c3 \<and> cwd c7 = cwd c3"
    using drop_to_user [OF conjunct1 [OF 3] assms(4) _ drop] assms(5) by blast
  have 5: "only_user u A c' \<and> groups c' = groups c7 \<and> root_dir c' = root_dir c7 \<and> cwd c' = cwd c7 \<and> no_fds c' = no_fds c7 \<and>
      no_procs c' = (OPTION_NO_PROCS opts \<or> no_procs c7)"
    using procs 4 by (auto simp: vsf_sysutil_set_no_procs_def need_Inr only_user_def split: if_splits)
  show ?thesis
    using 1 2 3 4 5 safe sent by (simp add: same_outside_def split: if_splits)
qed

text \<open>
  C7: giving up privileges. When \<open>vsf_secutil_change_credentials\<close> returns in a process of root, for a user other than root,
  and the kernel can keep the capabilities that are asked for, the process has the ids of this user and of nobody
  else, exactly these capabilities and the groups that were asked for. Its working directory is where it was sent, to the
  given directory (or the user's own) and on to the extra one, with the user's ids if that was asked for; with \<open>OPTION_CHROOT\<close>
  this is its root directory, which it cannot write, and otherwise it keeps its root directory. Its limits are set. And
  whatever further calls it makes to change ids, groups, capabilities or directories, it keeps these ids, groups and this
  root directory and never gets another capability.
\<close>

theorem credentials_dropped:
  assumes "vsf_secutil_change_credentials h name d x A opts c = Inr c'" and "root_process c"
    and "getpwnam h (c_str name) = Some u" and "pw_uid u \<noteq> 0" and "A = {} \<or> (kernel_caps h \<and> kernel_keepcaps h)"
  shows "only_user u A c' \<and>
    groups c' = (if OPTION_USE_GROUPS opts then pw_gid u # grouplist h (c_str name) else []) \<and>
    sent_to h opts u c (first_dir u d) x (cwd c') \<and> root_dir c' = (if OPTION_CHROOT opts then cwd c' else root_dir c) \<and>
    \<not> (OPTION_CHROOT opts \<and> writable h c' (root_dir c')) \<and>
    no_fds c' = (OPTION_NO_FDS opts \<or> no_fds c) \<and> no_procs c' = (OPTION_NO_PROCS opts \<or> no_procs c) \<and>
    (\<forall>c''. becomes c' c'' \<longrightarrow> no_more u A c' c'')"
  using dropped_to_user [OF assms] no_way_back [OF _ _ assms(4)] by blast

text \<open>A host with two users, for concrete runs, and a process of root on it.\<close>

definition plain_host :: host where
  "plain_host =
     \<lparr>getpwnam = [''ftp'' \<mapsto> \<lparr>pw_uid = 14, pw_gid = 50, pw_dir = ''/srv/ftp''\<rparr>, ''nobody'' \<mapsto> \<lparr>pw_uid = 99, pw_gid = 99, pw_dir = ''/''\<rparr>],
      grouplist = (\<lambda>n. [50]), chdir_to = (\<lambda>c d. Some d), writable = (\<lambda>c d. euid c = 0), kernel_caps = True, kernel_keepcaps = True,
      fails = (\<lambda>t. False)\<rparr>"

definition root_cred :: cred where
  "root_cred = \<lparr>ruid = 0, euid = 0, suid = 0, rgid = 0, egid = 0, sgid = 0, groups = [0], permitted = Full, effective = Full,
     keepcaps = False, root_dir = ''/'', cwd = ''/'', no_fds = False, no_procs = False\<rparr>"

lemma root_cred_root [simp]: "root_process root_cred"
  by (simp add: root_process_def root_cred_def)

lemmas run_defs = vsf_secutil_change_credentials_def vsf_sysutil_running_as_root_def enter_dir_def enter_ext_dir_def chdir_cred_def
  vsf_sysdep_keep_capabilities_def vsf_sysdep_has_capabilities_def vsf_sysdep_has_capabilities_as_non_root_def
  vsf_sysutil_setuid_def vsf_sysutil_setgid_def vsf_sysutil_seteuid_numeric_def vsf_sysutil_setegid_numeric_def
  vsf_sysutil_clear_supp_groups_def vsf_sysutil_initgroups_def vsf_sysutil_chroot_here_def vsf_sysutil_set_no_fds_def
  vsf_sysutil_set_no_procs_def vsf_sysdep_adopt_capabilities_def need_def k_defs caps_le_def plain_host_def root_cred_def

lemma credentials_dropped_witness:
  "\<exists>c'. vsf_secutil_change_credentials plain_host ''ftp'' None (Some ''pub'') {CAP_CHOWN}
      \<lparr>OPTION_CHROOT = True, OPTION_USE_GROUPS = True, OPTION_CHANGE_EUID = True, OPTION_NO_FDS = False, OPTION_NO_PROCS = True\<rparr>
      root_cred = Inr c' \<and>
    only_user \<lparr>pw_uid = 14, pw_gid = 50, pw_dir = ''/srv/ftp''\<rparr> {CAP_CHOWN} c' \<and> root_dir c' = ''pub'' \<and> \<not> becomes c' root_cred"
proof -
  let ?run = "vsf_secutil_change_credentials plain_host ''ftp'' None (Some ''pub'') {CAP_CHOWN}
      \<lparr>OPTION_CHROOT = True, OPTION_USE_GROUPS = True, OPTION_CHANGE_EUID = True, OPTION_NO_FDS = False, OPTION_NO_PROCS = True\<rparr>
      root_cred"
  obtain c' where run: "?run = Inr c'" by (simp add: run_defs)
  let ?u = "\<lparr>pw_uid = 14, pw_gid = 50, pw_dir = ''/srv/ftp''\<rparr>"
  have u: "getpwnam plain_host (c_str ''ftp'') = Some ?u" "pw_uid ?u \<noteq> 0"
    and k: "{CAP_CHOWN} = {} \<or> (kernel_caps plain_host \<and> kernel_keepcaps plain_host)"
    by (simp_all add: plain_host_def)
  note dropped = credentials_dropped [OF run root_cred_root u k]
  have "only_user ?u {CAP_CHOWN} c'" using dropped by blast
  moreover have "root_dir c' = ''pub''" using dropped by (auto simp: sent_to_def on_to_def plain_host_def first_dir_def c_str_def)
  moreover have "\<not> becomes c' root_cred" using dropped by (auto simp: no_more_def root_cred_def)
  ultimately show ?thesis using run by blast
qed

end
