(* ===== verification/Privsock.thy ===== *)
theory Privsock
  imports Bytes Parent
begin

text \<open>
  \<^verbatim>\<open>privsock.c\<close>: the messages between the session process and its privileged parent, on the bytes of their socket pair.
  \<open>Parent\<close> treats an exchange as a call; here it is shown that the bytes carry the call and its answer, and that
  whatever else arrives is refused.
\<close>

section \<open>The socket pair\<close>

text \<open>
  One direction of the socket pair is a sequence of bytes, each with the descriptor that was sent along with it, if any
  (\<open>vsf_sysutil_send_fd\<close> sends one byte for that). \<open>vsf_sysutil_read_loop\<close> delivers as many bytes as it is asked for unless
  the other end is closed before (\<open>Sysutil.read_loop_complete\<close>); \<open>vsf_sysutil_write_loop\<close> writes all of them unless it is
  closed, which is \<open>alive = False\<close>.
\<close>

type_synonym cell = "char \<times> int option"

definition plain :: "string \<Rightarrow> cell list" where
  "plain bs = map (\<lambda>b. (b, None)) bs"

definition read_cells :: "nat \<Rightarrow> string \<Rightarrow> cell list \<Rightarrow> (string \<times> cell list) result" where
  "read_cells n p_text cs = (if length cs < n then die p_text else Inr (map fst (take n cs), drop n cs))"

definition write_cells :: "bool \<Rightarrow> string \<Rightarrow> string \<Rightarrow> cell list result" where
  "write_cells alive p_text bs = (if alive then Inr (plain bs) else die p_text)"

definition VSFTP_PRIVSOCK_MAXSTR :: nat where
  "VSFTP_PRIVSOCK_MAXSTR = 131072"

section \<open>Sending\<close>

definition priv_sock_send_cmd :: "bool \<Rightarrow> char \<Rightarrow> cell list result" where
  "priv_sock_send_cmd alive cmd = write_cells alive ''priv_sock_send_cmd'' [cmd]"

definition priv_sock_send_result :: "bool \<Rightarrow> char \<Rightarrow> cell list result" where
  "priv_sock_send_result alive res = write_cells alive ''priv_sock_send_result'' [res]"

definition priv_sock_send_int :: "bool \<Rightarrow> int \<Rightarrow> cell list result" where
  "priv_sock_send_int alive the_int = write_cells alive ''priv_sock_send_int'' (word_bytes (word_of_int the_int))"

definition priv_sock_send_str :: "bool \<Rightarrow> string \<Rightarrow> cell list result" where
  "priv_sock_send_str alive p_str =
     andthen (priv_sock_send_int alive (int (u32 (length p_str)))) (\<lambda>cs.
     if u32 (length p_str) > 0 then Inr (cs @ (if alive then plain p_str else [])) else Inr cs)"

definition priv_sock_send_buf :: "bool \<Rightarrow> string \<Rightarrow> cell list result" where
  "priv_sock_send_buf alive p_data =
     andthen (priv_sock_send_int alive (int (length p_data))) (\<lambda>cs.
     if length p_data > 0 then andthen (write_cells alive ''priv_sock_send_buf'' p_data) (\<lambda>bs. Inr (cs @ bs)) else Inr cs)"

definition vsf_sysutil_send_fd :: "bool \<Rightarrow> int \<Rightarrow> cell list result" where
  "vsf_sysutil_send_fd alive send_fd = (if alive then Inr [(NUL, Some send_fd)] else die ''sendmsg'')"

definition priv_sock_send_fd :: "bool \<Rightarrow> int \<Rightarrow> cell list result" where
  "priv_sock_send_fd = vsf_sysutil_send_fd"

section \<open>Receiving\<close>

definition priv_sock_get_result :: "cell list \<Rightarrow> (char \<times> cell list) result" where
  "priv_sock_get_result cs = andthen (read_cells 1 ''priv_sock_get_result'' cs) (\<lambda>(bs, cs). Inr (hd bs, cs))"

definition priv_sock_get_cmd :: "cell list \<Rightarrow> (char \<times> cell list) result" where
  "priv_sock_get_cmd cs = andthen (read_cells 1 ''priv_sock_get_cmd'' cs) (\<lambda>(bs, cs). Inr (hd bs, cs))"

definition priv_sock_get_int :: "cell list \<Rightarrow> (int \<times> cell list) result" where
  "priv_sock_get_int cs = andthen (read_cells 4 ''priv_sock_get_int'' cs) (\<lambda>(bs, cs). Inr (sint (bytes_word bs), cs))"

text \<open>A length is an \<open>int\<close> read as \<open>unsigned int\<close>.\<close>

definition unsigned_int :: "int \<Rightarrow> nat" where
  "unsigned_int i = nat (i mod 4294967296)"

definition priv_sock_get_str :: "cell list \<Rightarrow> (string \<times> cell list) result" where
  "priv_sock_get_str cs =
     andthen (priv_sock_get_int cs) (\<lambda>(i, cs).
     let n = unsigned_int i in
     if n > VSFTP_PRIVSOCK_MAXSTR then die ''priv_sock_get_str: too big''
     else if n > 0 then read_cells n ''priv_sock_get_str: read error'' cs
     else Inr ([], cs))"

text \<open>The bytes that \<open>priv_sock_recv_buf\<close> puts into a buffer of \<open>buf_size\<close> bytes.\<close>

definition priv_sock_recv_buf :: "nat \<Rightarrow> cell list \<Rightarrow> (string \<times> cell list) result" where
  "priv_sock_recv_buf buf_size cs =
     andthen (priv_sock_get_int cs) (\<lambda>(i, cs).
     let recv_len = unsigned_int i in
     if recv_len > buf_size then bug ''recv_len bigger than buffer''
     else if recv_len > 0 then read_cells recv_len ''priv_sock_recv_buf'' cs
     else Inr ([], cs))"

definition vsf_sysutil_recv_fd :: "cell list \<Rightarrow> (int \<times> cell list) result" where
  "vsf_sysutil_recv_fd cs =
     (case cs of
        [] \<Rightarrow> die ''recvmsg''
      | (b, f) # cs \<Rightarrow>
          (case f of
             None \<Rightarrow> die ''no passed fd''
           | Some fd \<Rightarrow> if fd = -1 then die ''no passed fd'' else Inr (fd, cs)))"

definition priv_sock_recv_fd :: "cell list \<Rightarrow> (int \<times> cell list) result" where
  "priv_sock_recv_fd = vsf_sysutil_recv_fd"

section \<open>Round trips\<close>

lemma plain_simps [simp]: "length (plain bs) = length bs" "map fst (plain bs) = bs" "plain (a @ b) = plain a @ plain b"
  by (simp_all add: plain_def comp_def)

lemma read_plain [simp]: "length bs = n \<Longrightarrow> read_cells n p (plain bs @ rest) = Inr (bs, rest)"
  by (auto simp: read_cells_def)

lemma int_roundtrip:
  assumes "priv_sock_send_int True i = Inr cs" and "-2147483648 \<le> i" and "i < 2147483648"
  shows "priv_sock_get_int (cs @ rest) = Inr (i, rest)"
proof -
  have "sint (word_of_int i :: 32 word) = i" using assms(2,3) by (simp add: sint_sbintrunc' signed_take_bit_int_eq_self)
  then show ?thesis
    using assms(1) by (auto simp: priv_sock_send_int_def write_cells_def priv_sock_get_int_def)
qed

lemma unsigned_int_length: "n < 4294967296 \<Longrightarrow> unsigned_int (sint (word_of_int (int n) :: 32 word)) = n"
proof -
  assume n: "n < 4294967296"
  have "sint (word_of_int (int n) :: 32 word) mod 4294967296 = uint (word_of_int (int n) :: 32 word)"
    by (simp add: uint_sint take_bit_eq_mod)
  also have "\<dots> = int n" using n by (simp only: uint_word_of_int) simp
  finally show ?thesis by (simp add: unsigned_int_def)
qed

lemma str_roundtrip:
  assumes "priv_sock_send_str True s = Inr cs" and "length s \<le> VSFTP_PRIVSOCK_MAXSTR"
  shows "priv_sock_get_str (cs @ rest) = Inr (s, rest)"
proof -
  have len: "length s < 4294967296" using assms(2) by (simp add: VSFTP_PRIVSOCK_MAXSTR_def)
  show ?thesis
    using assms len unsigned_int_length [OF len]
    by (cases "s = []")
       (auto simp: priv_sock_send_str_def priv_sock_send_int_def write_cells_def priv_sock_get_str_def priv_sock_get_int_def
         Let_def)
qed

lemma fd_roundtrip:
  assumes "priv_sock_send_fd True fd = Inr cs" and "fd \<noteq> -1"
  shows "priv_sock_recv_fd (cs @ rest) = Inr (fd, rest)"
  using assms by (auto simp: priv_sock_send_fd_def vsf_sysutil_send_fd_def priv_sock_recv_fd_def vsf_sysutil_recv_fd_def)

section \<open>Requests after login\<close>

text \<open>The codes of \<^verbatim>\<open>privsock.h\<close>.\<close>

abbreviation CMD_LOGIN :: char where "CMD_LOGIN \<equiv> CHR 0x01"
abbreviation CMD_CHOWN :: char where "CMD_CHOWN \<equiv> CHR 0x02"
abbreviation CMD_GET_DATA_SOCK :: char where "CMD_GET_DATA_SOCK \<equiv> CHR 0x03"
abbreviation CMD_PASV_CLEANUP :: char where "CMD_PASV_CLEANUP \<equiv> CHR 0x0A"
abbreviation CMD_PASV_ACTIVE :: char where "CMD_PASV_ACTIVE \<equiv> CHR 0x0B"
abbreviation CMD_PASV_LISTEN :: char where "CMD_PASV_LISTEN \<equiv> CHR 0x0C"
abbreviation CMD_PASV_ACCEPT :: char where "CMD_PASV_ACCEPT \<equiv> CHR 0x0D"
abbreviation SOCK_RESULT_OK :: char where "SOCK_RESULT_OK \<equiv> CHR 0x01"
abbreviation SOCK_RESULT_BAD :: char where "SOCK_RESULT_BAD \<equiv> CHR 0x02"

text \<open>What the functions of \<^verbatim>\<open>twoprocess.c\<close> send for a request, before they wait for the answer.\<close>

definition send_request :: "bool \<Rightarrow> priv_cmd \<Rightarrow> cell list result" where
  "send_request alive c =
     (case c of
        PRIV_SOCK_CHOWN fd \<Rightarrow>
          andthen (priv_sock_send_cmd alive CMD_CHOWN) (\<lambda>a. andthen (priv_sock_send_fd alive fd) (\<lambda>b. Inr (a @ b)))
      | PRIV_SOCK_GET_DATA_SOCK p \<Rightarrow>
          andthen (priv_sock_send_cmd alive CMD_GET_DATA_SOCK) (\<lambda>a. andthen (priv_sock_send_int alive p) (\<lambda>b. Inr (a @ b)))
      | PRIV_SOCK_PASV_CLEANUP \<Rightarrow> priv_sock_send_cmd alive CMD_PASV_CLEANUP
      | PRIV_SOCK_PASV_ACTIVE \<Rightarrow> priv_sock_send_cmd alive CMD_PASV_ACTIVE
      | PRIV_SOCK_PASV_LISTEN \<Rightarrow> priv_sock_send_cmd alive CMD_PASV_LISTEN
      | PRIV_SOCK_PASV_ACCEPT \<Rightarrow> priv_sock_send_cmd alive CMD_PASV_ACCEPT
      | _ \<Rightarrow> Inl Undef)"

text \<open>What \<open>process_post_login_req\<close> and the functions it calls read.\<close>

definition read_request :: "bool \<Rightarrow> cell list \<Rightarrow> (priv_cmd \<times> cell list) result" where
  "read_request chown_uploads cs =
     andthen (priv_sock_get_cmd cs) (\<lambda>(cmd, cs).
     if chown_uploads \<and> cmd = CMD_CHOWN then andthen (priv_sock_recv_fd cs) (\<lambda>(fd, cs). Inr (PRIV_SOCK_CHOWN fd, cs))
     else if cmd = CMD_GET_DATA_SOCK then andthen (priv_sock_get_int cs) (\<lambda>(p, cs). Inr (PRIV_SOCK_GET_DATA_SOCK p, cs))
     else if cmd = CMD_PASV_CLEANUP then Inr (PRIV_SOCK_PASV_CLEANUP, cs)
     else if cmd = CMD_PASV_ACTIVE then Inr (PRIV_SOCK_PASV_ACTIVE, cs)
     else if cmd = CMD_PASV_LISTEN then Inr (PRIV_SOCK_PASV_LISTEN, cs)
     else if cmd = CMD_PASV_ACCEPT then Inr (PRIV_SOCK_PASV_ACCEPT, cs)
     else Inr (PRIV_SOCK_OTHER, cs))"

text \<open>What the parent answers to a request, and what the session's functions make of it.\<close>

definition send_reply :: "bool \<Rightarrow> priv_cmd \<Rightarrow> priv_reply \<Rightarrow> cell list result" where
  "send_reply alive c r =
     (case r of
        RESULT_OK \<Rightarrow> priv_sock_send_result alive SOCK_RESULT_OK
      | RESULT_BAD \<Rightarrow> priv_sock_send_result alive SOCK_RESULT_BAD
      | RESULT_FD fd \<Rightarrow>
          andthen (priv_sock_send_result alive SOCK_RESULT_OK) (\<lambda>a. andthen (priv_sock_send_fd alive fd) (\<lambda>b. Inr (a @ b)))
      | RESULT_INT i \<Rightarrow>
          if c = PRIV_SOCK_PASV_ACCEPT
          then andthen (priv_sock_send_result alive SOCK_RESULT_BAD) (\<lambda>a. andthen (priv_sock_send_int alive i) (\<lambda>b. Inr (a @ b)))
          else priv_sock_send_int alive i)"

definition read_reply :: "priv_cmd \<Rightarrow> cell list \<Rightarrow> (priv_reply \<times> cell list) result" where
  "read_reply c cs =
     (case c of
        PRIV_SOCK_PASV_ACTIVE \<Rightarrow> andthen (priv_sock_get_int cs) (\<lambda>(i, cs). Inr (RESULT_INT i, cs))
      | PRIV_SOCK_PASV_LISTEN \<Rightarrow> andthen (priv_sock_get_int cs) (\<lambda>(i, cs). Inr (RESULT_INT i, cs))
      | PRIV_SOCK_GET_DATA_SOCK p \<Rightarrow>
          andthen (priv_sock_get_result cs) (\<lambda>(res, cs).
          if res = SOCK_RESULT_BAD then Inr (RESULT_BAD, cs)
          else if res \<noteq> SOCK_RESULT_OK then die ''could not get privileged socket''
          else andthen (priv_sock_recv_fd cs) (\<lambda>(fd, cs). Inr (RESULT_FD fd, cs)))
      | PRIV_SOCK_PASV_ACCEPT \<Rightarrow>
          andthen (priv_sock_get_result cs) (\<lambda>(res, cs).
          if res = SOCK_RESULT_BAD then andthen (priv_sock_get_int cs) (\<lambda>(i, cs). Inr (RESULT_INT i, cs))
          else if res \<noteq> SOCK_RESULT_OK then die ''could not accept on listening socket''
          else andthen (priv_sock_recv_fd cs) (\<lambda>(fd, cs). Inr (RESULT_FD fd, cs)))
      | PRIV_SOCK_PASV_CLEANUP \<Rightarrow>
          andthen (priv_sock_get_result cs) (\<lambda>(res, cs).
          if res \<noteq> SOCK_RESULT_OK then die ''could not clean up socket'' else Inr (RESULT_OK, cs))
      | PRIV_SOCK_CHOWN fd \<Rightarrow>
          andthen (priv_sock_get_result cs) (\<lambda>(res, cs).
          if res \<noteq> SOCK_RESULT_OK then die ''unexpected failure in vsf_two_process_chown_upload'' else Inr (RESULT_OK, cs))
      | _ \<Rightarrow> Inl Undef)"

text \<open>Requests a session process makes, and answers its parent gives, have valid descriptors and numbers of 32 bits.\<close>

definition int32_ok :: "int \<Rightarrow> bool" where
  "int32_ok i \<longleftrightarrow> -2147483648 \<le> i \<and> i < 2147483648"

definition request_wf :: "bool \<Rightarrow> priv_cmd \<Rightarrow> bool" where
  "request_wf chown_uploads c =
     (case c of
        PRIV_SOCK_CHOWN fd \<Rightarrow> chown_uploads \<and> fd \<noteq> -1
      | PRIV_SOCK_GET_DATA_SOCK p \<Rightarrow> int32_ok p
      | PRIV_SOCK_LOGIN \<Rightarrow> False | PRIV_SOCK_OTHER \<Rightarrow> False | _ \<Rightarrow> True)"

definition reply_wf :: "priv_cmd \<Rightarrow> priv_reply \<Rightarrow> bool" where
  "reply_wf c r =
     (case c of
        PRIV_SOCK_CHOWN fd \<Rightarrow> r = RESULT_OK
      | PRIV_SOCK_PASV_CLEANUP \<Rightarrow> r = RESULT_OK
      | PRIV_SOCK_GET_DATA_SOCK p \<Rightarrow> (case r of RESULT_BAD \<Rightarrow> True | RESULT_FD fd \<Rightarrow> fd \<noteq> -1 | _ \<Rightarrow> False)
      | PRIV_SOCK_PASV_ACCEPT \<Rightarrow> (case r of RESULT_INT i \<Rightarrow> int32_ok i | RESULT_FD fd \<Rightarrow> fd \<noteq> -1 | _ \<Rightarrow> False)
      | PRIV_SOCK_PASV_ACTIVE \<Rightarrow> (case r of RESULT_INT i \<Rightarrow> int32_ok i | _ \<Rightarrow> False)
      | PRIV_SOCK_PASV_LISTEN \<Rightarrow> (case r of RESULT_INT i \<Rightarrow> int32_ok i | _ \<Rightarrow> False)
      | _ \<Rightarrow> False)"

lemma cmd_roundtrip [simp]: "priv_sock_get_cmd (plain [b] @ rest) = Inr (b, rest)" "priv_sock_get_result (plain [b] @ rest) = Inr (b, rest)"
  by (simp_all add: priv_sock_get_cmd_def priv_sock_get_result_def)

lemma get_int_plain: "int32_ok i \<Longrightarrow> priv_sock_get_int (plain (word_bytes (word_of_int i)) @ rest) = Inr (i, rest)"
  using int_roundtrip [of i "plain (word_bytes (word_of_int i))" rest]
  by (simp add: priv_sock_send_int_def write_cells_def int32_ok_def)

lemma recv_fd_cell: "fd \<noteq> -1 \<Longrightarrow> priv_sock_recv_fd ((NUL, Some fd) # rest) = Inr (fd, rest)"
  by (simp add: priv_sock_recv_fd_def vsf_sysutil_recv_fd_def)

lemmas send_simps = priv_sock_send_cmd_def priv_sock_send_result_def priv_sock_send_int_def priv_sock_send_fd_def
  vsf_sysutil_send_fd_def write_cells_def

text \<open>
  C27: the bytes carry the request and its answer. What the session process sends for a request is read by the parent
  as this request, and what the parent sends as its answer is read by the session process as this answer; neither side
  takes a byte or a descriptor of what follows.
\<close>

theorem exchange_roundtrip:
  assumes "request_wf chown_uploads c" and "reply_wf c r"
  shows "\<exists>req rep. send_request True c = Inr req \<and> send_reply True c r = Inr rep \<and>
    (\<forall>rest. read_request chown_uploads (req @ rest) = Inr (c, rest)) \<and>
    (\<forall>rest. read_reply c (rep @ rest) = Inr (r, rest))"
  using assms
  by (cases c; cases r)
     (simp_all add: request_wf_def reply_wf_def send_request_def read_request_def send_reply_def read_reply_def send_simps
       get_int_plain recv_fd_cell split: if_splits)

lemma exchange_roundtrip_witness:
  "\<exists>req rep. send_request True (PRIV_SOCK_GET_DATA_SOCK 2121) = Inr req \<and>
    send_reply True (PRIV_SOCK_GET_DATA_SOCK 2121) (RESULT_FD 5) = Inr rep \<and>
    (\<forall>rest. read_request False (req @ rest) = Inr (PRIV_SOCK_GET_DATA_SOCK 2121, rest)) \<and>
    (\<forall>rest. read_reply (PRIV_SOCK_GET_DATA_SOCK 2121) (rep @ rest) = Inr (RESULT_FD 5, rest))"
  by (rule exchange_roundtrip) (simp_all add: request_wf_def reply_wf_def int32_ok_def)

section \<open>The parent on bytes\<close>

text \<open>Every request takes at least one byte.\<close>

lemma read_cells_shorter: "read_cells n p cs = Inr (bs, cs') \<Longrightarrow> length cs' = length cs - n \<and> n \<le> length cs"
  by (auto simp: read_cells_def halt_simps split: if_splits)

lemma read_request_shorter: "read_request c cs = Inr (r, cs') \<Longrightarrow> length cs' < length cs"
  by (fastforce simp: read_request_def priv_sock_get_cmd_def priv_sock_get_int_def priv_sock_recv_fd_def
      vsf_sysutil_recv_fd_def andthen_Inr_iff halt_simps dest!: read_cells_shorter split: if_splits list.splits option.splits)

text \<open>The requests that a sequence of bytes holds, and how reading them ends.\<close>

function read_requests :: "bool \<Rightarrow> cell list \<Rightarrow> priv_cmd list \<times> halt" where
  "read_requests c cs =
     (case read_request c cs of
        Inl h \<Rightarrow> ([], h)
      | Inr (r, cs') \<Rightarrow> (case read_requests c cs' of (rs, h) \<Rightarrow> (r # rs, h)))"
  by pat_completeness auto
termination by (relation "measure (\<lambda>(c, cs). length cs)") (auto dest: read_request_shorter)

declare read_requests.simps [simp del]

text \<open>
  The parent after login, on what arrives from the session process: it reads a request, serves it, and reads the next,
  until reading fails (at the latest when the other end is closed). What it reads does not depend on what it did.
\<close>

definition priv_parent_on_bytes :: "env \<Rightarrow> cell list \<Rightarrow> unit act" where
  "priv_parent_on_bytes e cs =
     (case read_requests (tb e ''chown_uploads'') cs of
        (rs, h) \<Rightarrow> seq (vsf_priv_parent_postlogin e rs) (stop h))"

lemma priv_parent_step:
  "priv_parent_on_bytes e cs =
     (case read_request (tb e ''chown_uploads'') cs of
        Inl h \<Rightarrow> stop h
      | Inr (r, cs') \<Rightarrow> bnd (process_post_login_req e r) (\<lambda>_. priv_parent_on_bytes e cs'))"
  unfolding priv_parent_on_bytes_def
  by (subst read_requests.simps)
     (auto simp: seq_def bnd_assoc split: sum.splits prod.splits)

text \<open>
  C4: least privilege. Whatever bytes and descriptors a session process sends, and whatever the system answers, the
  privileged parent ends, and before that only handles sockets, connects only to the client's own address at an
  unreserved port, and changes the owner of a file only if \<open>chown_uploads\<close> is set and only to the configured user. It never
  opens, creates, renames or removes a file by name, and reads and writes none.
\<close>

theorem parent_least_privilege_bytes:
  assumes "trace s = []"
  shows "\<exists>h s'. priv_parent_on_bytes e cs s = Stop h s' \<and>
    list_all (parent_event_ok e (p_remote_addr s) (anon_upload_chown_uid s)) (trace s')"
proof -
  obtain rs h where r: "read_requests (tb e ''chown_uploads'') cs = (rs, h)" by (cases "read_requests (tb e ''chown_uploads'') cs")
  have "parent_inv e (p_remote_addr s) (anon_upload_chown_uid s) (final (vsf_priv_parent_postlogin e rs s))"
    using keepsD [OF parent_loop] assms by (simp add: parent_inv_def)
  then show ?thesis
    by (cases "vsf_priv_parent_postlogin e rs s")
       (auto simp: priv_parent_on_bytes_def r seq_def bnd_def stop_def parent_inv_def)
qed

lemma parent_least_privilege_bytes_witness:
  "\<exists>h s'. priv_parent_on_bytes (calm_env []) (plain [CMD_PASV_LISTEN, CMD_LOGIN]) (new_session True []) = Stop h s' \<and>
    list_all (parent_event_ok (calm_env []) vsf_sysutil_sockaddr_alloc_ipv4 (-1)) (trace s')"
proof -
  have "anon_upload_chown_uid (new_session True []) = -1" by (simp add: new_session_def)
  then show ?thesis
    using parent_least_privilege_bytes [of "new_session True []" "calm_env []" "plain [CMD_PASV_LISTEN, CMD_LOGIN]"] by simp
qed

section \<open>The login request\<close>

text \<open>What \<open>vsf_two_process_login\<close> sends, and what \<open>process_login_req\<close> reads before it checks the login.\<close>

definition send_login :: "bool \<Rightarrow> string \<Rightarrow> string \<Rightarrow> int \<Rightarrow> int \<Rightarrow> cell list result" where
  "send_login alive user pass control_ssl data_ssl =
     andthen (priv_sock_send_cmd alive CMD_LOGIN) (\<lambda>a.
     andthen (priv_sock_send_str alive user) (\<lambda>b.
     andthen (priv_sock_send_str alive pass) (\<lambda>c.
     andthen (priv_sock_send_int alive control_ssl) (\<lambda>d.
     andthen (priv_sock_send_int alive data_ssl) (\<lambda>f. Inr (a @ b @ c @ d @ f))))))"

definition read_login :: "cell list \<Rightarrow> ((string \<times> string \<times> int \<times> int) \<times> cell list) result" where
  "read_login cs =
     andthen (priv_sock_get_cmd cs) (\<lambda>(cmd, cs).
     if cmd \<noteq> CMD_LOGIN then die ''bad request''
     else andthen (priv_sock_get_str cs) (\<lambda>(user, cs).
          andthen (priv_sock_get_str cs) (\<lambda>(pass, cs).
          andthen (priv_sock_get_int cs) (\<lambda>(control_ssl, cs).
          andthen (priv_sock_get_int cs) (\<lambda>(data_ssl, cs).
          Inr ((user, pass, control_ssl, data_ssl), cs))))))"

lemma str_sent: "\<exists>cs. priv_sock_send_str True s = Inr cs"
  by (simp add: priv_sock_send_str_def priv_sock_send_int_def write_cells_def)

lemma login_sent:
  assumes "length user \<le> VSFTP_PRIVSOCK_MAXSTR" and "length pass \<le> VSFTP_PRIVSOCK_MAXSTR" and "int32_ok c" and "int32_ok d"
  shows "\<exists>cs. send_login True user pass c d = Inr cs \<and> (\<forall>rest. read_login (cs @ rest) = Inr ((user, pass, c, d), rest))"
proof -
  obtain u p where up: "priv_sock_send_str True user = Inr u" "priv_sock_send_str True pass = Inr p"
    using str_sent by blast
  show ?thesis
    using str_roundtrip [OF up(1)] str_roundtrip [OF up(2)] assms
    by (auto simp: send_login_def read_login_def up send_simps get_int_plain)
qed

text \<open>
  The login request. A user name and a password of up to 128 KiB each reach the parent as they were sent; and
  whatever bytes arrive, the parent never takes a longer one.
\<close>

theorem login_roundtrip:
  "(if length user \<le> VSFTP_PRIVSOCK_MAXSTR \<and> length pass \<le> VSFTP_PRIVSOCK_MAXSTR \<and> int32_ok c \<and> int32_ok d
    then \<exists>cs. send_login True user pass c d = Inr cs \<and> (\<forall>rest. read_login (cs @ rest) = Inr ((user, pass, c, d), rest))
    else True) \<and>
   (case read_login cells of
      Inl h \<Rightarrow> True
    | Inr ((u, p, c, d), rest) \<Rightarrow> length u \<le> VSFTP_PRIVSOCK_MAXSTR \<and> length p \<le> VSFTP_PRIVSOCK_MAXSTR)"
proof (intro conjI)
  show "if length user \<le> VSFTP_PRIVSOCK_MAXSTR \<and> length pass \<le> VSFTP_PRIVSOCK_MAXSTR \<and> int32_ok c \<and> int32_ok d
    then \<exists>cs. send_login True user pass c d = Inr cs \<and> (\<forall>rest. read_login (cs @ rest) = Inr ((user, pass, c, d), rest))
    else True"
    using login_sent by simp
  have len: "length s \<le> VSFTP_PRIVSOCK_MAXSTR" if "priv_sock_get_str cs = Inr (s, cs')" for cs s cs'
    using that by (auto simp: priv_sock_get_str_def andthen_Inr_iff Let_def read_cells_def halt_simps split: if_splits)
  show "case read_login cells of Inl h \<Rightarrow> True
    | Inr ((u, p, c, d), rest) \<Rightarrow> length u \<le> VSFTP_PRIVSOCK_MAXSTR \<and> length p \<le> VSFTP_PRIVSOCK_MAXSTR"
    by (auto simp: read_login_def andthen_Inr_iff halt_simps dest: len split: sum.splits if_splits)
qed

end
