(* ===== verification/Channels.thy ===== *)
theory Channels
  imports Prelude
begin

text \<open>
  The descriptors that join the processes of a session: the socket pair of \<^verbatim>\<open>privsock.c\<close> between the privileged parent and its
  child, and the one of \<^verbatim>\<open>ssl.c\<close> between the process that speaks TLS and the one that uses it. A fork copies the record;
  \<open>open_fds\<close> are the descriptors that are open in the process.
\<close>

record channels =
  parent_fd :: int
  child_fd :: int
  ssl_consumer_fd :: int
  ssl_slave_fd :: int
  open_fds :: "int set"

text \<open>The four fields as \<open>main\<close> initialises them.\<close>

definition no_channels :: "int set \<Rightarrow> channels" where
  "no_channels fds = \<lparr>parent_fd = -1, child_fd = -1, ssl_consumer_fd = -1, ssl_slave_fd = -1, open_fds = fds\<rparr>"

definition vsf_sysutil_close_fd :: "int \<Rightarrow> channels \<Rightarrow> channels result" where
  "vsf_sysutil_close_fd fd ch = (if fd \<in> open_fds ch then Inr (ch\<lparr>open_fds := open_fds ch - {fd}\<rparr>) else die ''close'')"

section \<open>The two pairs\<close>

text \<open>\<open>retval\<close>: the two descriptors that \<open>socketpair\<close> made.\<close>

definition priv_sock_init :: "int \<times> int \<Rightarrow> channels \<Rightarrow> channels result" where
  "priv_sock_init retval ch =
     (if parent_fd ch \<noteq> -1 then bug ''parent_fd active''
      else if child_fd ch \<noteq> -1 then bug ''child_fd active''
      else Inr (ch\<lparr>parent_fd := fst retval, child_fd := snd retval, open_fds := open_fds ch \<union> {fst retval, snd retval}\<rparr>))"

definition priv_sock_close :: "channels \<Rightarrow> channels result" where
  "priv_sock_close ch =
     andthen (if parent_fd ch \<noteq> -1
              then andthen (vsf_sysutil_close_fd (parent_fd ch) ch) (\<lambda>ch. Inr (ch\<lparr>parent_fd := -1\<rparr>)) else Inr ch) (\<lambda>ch.
     if child_fd ch \<noteq> -1
     then andthen (vsf_sysutil_close_fd (child_fd ch) ch) (\<lambda>ch. Inr (ch\<lparr>child_fd := -1\<rparr>)) else Inr ch)"

definition priv_sock_set_parent_context :: "channels \<Rightarrow> channels result" where
  "priv_sock_set_parent_context ch =
     (if child_fd ch = -1 then bug ''child_fd not active''
      else andthen (vsf_sysutil_close_fd (child_fd ch) ch) (\<lambda>ch. Inr (ch\<lparr>child_fd := -1\<rparr>)))"

definition priv_sock_set_child_context :: "channels \<Rightarrow> channels result" where
  "priv_sock_set_child_context ch =
     (if parent_fd ch = -1 then bug ''parent_fd not active''
      else andthen (vsf_sysutil_close_fd (parent_fd ch) ch) (\<lambda>ch. Inr (ch\<lparr>parent_fd := -1\<rparr>)))"

definition ssl_comm_channel_init :: "int \<times> int \<Rightarrow> channels \<Rightarrow> channels result" where
  "ssl_comm_channel_init retval ch =
     (if ssl_consumer_fd ch \<noteq> -1 then bug ''ssl_consumer_fd active''
      else if ssl_slave_fd ch \<noteq> -1 then bug ''ssl_slave_fd active''
      else Inr (ch\<lparr>ssl_consumer_fd := fst retval, ssl_slave_fd := snd retval,
                   open_fds := open_fds ch \<union> {fst retval, snd retval}\<rparr>))"

definition ssl_comm_channel_set_consumer_context :: "channels \<Rightarrow> channels result" where
  "ssl_comm_channel_set_consumer_context ch =
     (if ssl_slave_fd ch = -1 then bug ''ssl_slave_fd already closed''
      else andthen (vsf_sysutil_close_fd (ssl_slave_fd ch) ch) (\<lambda>ch. Inr (ch\<lparr>ssl_slave_fd := -1\<rparr>)))"

definition ssl_comm_channel_set_producer_context :: "channels \<Rightarrow> channels result" where
  "ssl_comm_channel_set_producer_context ch =
     (if ssl_consumer_fd ch = -1 then bug ''ssl_consumer_fd already closed''
      else andthen (vsf_sysutil_close_fd (ssl_consumer_fd ch) ch) (\<lambda>ch. Inr (ch\<lparr>ssl_consumer_fd := -1\<rparr>)))"

lemmas channel_defs = no_channels_def vsf_sysutil_close_fd_def priv_sock_init_def priv_sock_close_def
  priv_sock_set_parent_context_def priv_sock_set_child_context_def ssl_comm_channel_init_def
  ssl_comm_channel_set_consumer_context_def ssl_comm_channel_set_producer_context_def

section \<open>The processes of a connection\<close>

text \<open>
  \<open>vsf_two_process_start\<close>: the descriptors of the parent and of the process before login, after the fork. \<open>pair\<close> and \<open>ssl_pair\<close>
  are what \<open>socketpair\<close> makes.
\<close>

definition start_channels :: "bool \<Rightarrow> int \<times> int \<Rightarrow> int \<times> int \<Rightarrow> channels \<Rightarrow> (channels \<times> channels) result" where
  "start_channels ssl_enable pair ssl_pair ch =
     andthen (priv_sock_init pair ch) (\<lambda>ch.
     andthen (if ssl_enable then ssl_comm_channel_init ssl_pair ch else Inr ch) (\<lambda>ch.
     andthen (andthen (priv_sock_set_parent_context ch) (\<lambda>ch.
              if ssl_enable then ssl_comm_channel_set_consumer_context ch else Inr ch)) (\<lambda>par.
     andthen (andthen (priv_sock_set_child_context ch) (\<lambda>ch.
              if ssl_enable then ssl_comm_channel_set_producer_context ch else Inr ch)) (\<lambda>chi.
     Inr (par, chi)))))"

text \<open>
  \<open>common_do_login\<close>: from the parent's descriptors, those of the parent and of the session process. \<open>ssl_enable\<close> is the
  setting after the user's own configuration was read.
\<close>

definition login_channels :: "bool \<Rightarrow> int \<times> int \<Rightarrow> channels \<Rightarrow> (channels \<times> channels) result" where
  "login_channels ssl_enable pair ch =
     andthen (priv_sock_close ch) (\<lambda>ch.
     andthen (priv_sock_init pair ch) (\<lambda>ch.
     andthen (priv_sock_set_child_context ch) (\<lambda>chi.
     andthen (andthen (priv_sock_set_parent_context ch) (\<lambda>ch.
              if ssl_enable then ssl_comm_channel_set_producer_context ch else Inr ch)) (\<lambda>par.
     Inr (par, chi)))))"

text \<open>What \<open>socketpair\<close> promises: two new descriptors.\<close>

definition fresh_pair :: "int \<times> int \<Rightarrow> int set \<Rightarrow> bool" where
  "fresh_pair p fds \<longleftrightarrow> fst p \<noteq> snd p \<and> fst p \<noteq> -1 \<and> snd p \<noteq> -1 \<and> fst p \<notin> fds \<and> snd p \<notin> fds"

lemma start_channels_value:
  assumes "fresh_pair p fds" and "fresh_pair q (fds \<union> {fst p, snd p})"
  shows "start_channels ssl p q (no_channels fds) = Inr
    (\<lparr>parent_fd = fst p, child_fd = -1, ssl_consumer_fd = (if ssl then fst q else -1), ssl_slave_fd = -1,
      open_fds = fds \<union> {fst p} \<union> (if ssl then {fst q} else {})\<rparr>,
     \<lparr>parent_fd = -1, child_fd = snd p, ssl_consumer_fd = -1, ssl_slave_fd = (if ssl then snd q else -1),
      open_fds = fds \<union> {snd p} \<union> (if ssl then {snd q} else {})\<rparr>)"
proof -
  have "fds \<union> {fst p, snd p} - {snd p} = fds \<union> {fst p}" "fds \<union> {fst p, snd p} - {fst p} = fds \<union> {snd p}"
    "fds \<union> {fst p, snd p} \<union> {fst q, snd q} - {snd p} - {snd q} = fds \<union> {fst p} \<union> {fst q}"
    "fds \<union> {fst p, snd p} \<union> {fst q, snd q} - {fst p} - {fst q} = fds \<union> {snd p} \<union> {snd q}"
    using assms by (auto simp: fresh_pair_def)
  moreover have "fst p \<noteq> -1" "snd p \<noteq> -1" "snd q \<noteq> snd p" "fst q \<noteq> fst p" "fst q \<noteq> -1" "snd q \<noteq> -1"
    using assms by (auto simp: fresh_pair_def)
  ultimately show ?thesis
    by (cases ssl) (simp_all add: start_channels_def channel_defs)
qed

lemma login_channels_value:
  assumes "fresh_pair r (fds \<union> {f})" and "f \<notin> fds" and "f \<noteq> -1" and "if ssl then t \<in> fds \<and> t \<noteq> -1 else True"
  shows "login_channels ssl r
      \<lparr>parent_fd = f, child_fd = -1, ssl_consumer_fd = t, ssl_slave_fd = -1, open_fds = fds \<union> {f}\<rparr> = Inr
    (\<lparr>parent_fd = fst r, child_fd = -1, ssl_consumer_fd = (if ssl then -1 else t), ssl_slave_fd = -1,
      open_fds = (fds \<union> {fst r}) - (if ssl then {t} else {})\<rparr>,
     \<lparr>parent_fd = -1, child_fd = snd r, ssl_consumer_fd = t, ssl_slave_fd = -1, open_fds = fds \<union> {snd r}\<rparr>)"
proof -
  have "fds \<union> {f} - {f} = fds" "fds \<union> {fst r, snd r} - {fst r} = fds \<union> {snd r}" "fds \<union> {fst r, snd r} - {snd r} = fds \<union> {fst r}"
    using assms by (auto simp: fresh_pair_def)
  moreover have "fst r \<noteq> -1" "snd r \<noteq> -1" using assms by (auto simp: fresh_pair_def)
  ultimately show ?thesis
    using assms(3,4) by (cases ssl) (simp_all add: login_channels_def channel_defs)
qed

text \<open>
  Each process keeps its own end. From the start to the session none of the checks on the descriptors fires when the TLS
  setting stays the same; before login the parent has only its end of the pair and the child only the other one; after the
  login the old pair is gone, the parent and the session process have one end each of a new one, and the session
  process is the only one of the two that holds the channel to the process that speaks TLS.
\<close>

theorem one_end_each:
  assumes "fresh_pair p fds" and "fresh_pair q (fds \<union> {fst p, snd p})" and "fresh_pair r (fds \<union> {fst p, fst q})"
  shows "\<exists>par chi par' ses. start_channels ssl p q (no_channels fds) = Inr (par, chi) \<and> login_channels ssl r par = Inr (par', ses) \<and>
    open_fds par = fds \<union> {fst p} \<union> (if ssl then {fst q} else {}) \<and>
    open_fds chi = fds \<union> {snd p} \<union> (if ssl then {snd q} else {}) \<and>
    open_fds par' = fds \<union> {fst r} \<and> parent_fd par' = fst r \<and> child_fd par' = -1 \<and>
    open_fds ses = fds \<union> {snd r} \<union> (if ssl then {fst q} else {}) \<and> child_fd ses = snd r \<and> parent_fd ses = -1"
proof -
  let ?fds = "fds \<union> (if ssl then {fst q} else {})"
  have r: "fresh_pair r (?fds \<union> {fst p})" using assms(3) by (auto simp: fresh_pair_def)
  have p: "fst p \<notin> ?fds" "fst p \<noteq> -1" using assms(1,2) by (auto simp: fresh_pair_def)
  have t: "if ssl then (if ssl then fst q else -1) \<in> ?fds \<and> (if ssl then fst q else -1) \<noteq> -1 else True"
    using assms(2) by (auto simp: fresh_pair_def)
  have eq: "fds \<union> {fst p} \<union> (if ssl then {fst q} else {}) = ?fds \<union> {fst p}" by blast
  have gone: "?fds \<union> {fst r} - (if ssl then {if ssl then fst q else - 1} else {}) = fds \<union> {fst r}"
    using assms(2,3) by (auto simp: fresh_pair_def)
  show ?thesis
    using start_channels_value [OF assms(1,2), of ssl] login_channels_value [OF r p t]
    unfolding eq gone by - (intro exI conjI, assumption, assumption, auto)
qed

lemma one_end_each_witness:
  "\<exists>par chi par' ses. start_channels True (5, 6) (7, 8) (no_channels {0, 1, 2}) = Inr (par, chi) \<and>
    login_channels True (6, 8) par = Inr (par', ses) \<and>
    open_fds par = {0, 1, 2} \<union> {5} \<union> {7} \<and> open_fds chi = {0, 1, 2} \<union> {6} \<union> {8} \<and>
    open_fds par' = {0, 1, 2} \<union> {6} \<and> parent_fd par' = 6 \<and> child_fd par' = -1 \<and>
    open_fds ses = {0, 1, 2} \<union> {8} \<union> {7} \<and> child_fd ses = 8 \<and> parent_fd ses = -1"
  using one_end_each [of "(5, 6)" "{0, 1, 2}" "(7, 8)" "(6, 8)" True] by (simp add: fresh_pair_def)

text \<open>A user's own configuration that turns TLS on stops the parent.\<close>

lemma ssl_per_user_stops:
  assumes "fresh_pair p fds" and "fresh_pair r (fds \<union> {fst p})"
  shows "\<exists>par chi. start_channels False p q (no_channels fds) = Inr (par, chi) \<and>
    login_channels True r par = bug ''ssl_consumer_fd already closed''"
proof -
  have "fds \<union> {fst p, snd p} - {snd p} = fds \<union> {fst p}" "fds \<union> {fst p, snd p} - {fst p} = fds \<union> {snd p}"
    "fds \<union> {fst p} - {fst p} = fds" "fds \<union> {fst r, snd r} - {fst r} = fds \<union> {snd r}" "fds \<union> {fst r, snd r} - {snd r} = fds \<union> {fst r}"
    using assms by (auto simp: fresh_pair_def)
  moreover have "fst p \<noteq> -1" "snd p \<noteq> -1" "fst r \<noteq> -1" "snd r \<noteq> -1" using assms by (auto simp: fresh_pair_def)
  ultimately show ?thesis by (simp add: start_channels_def login_channels_def channel_defs halt_simps)
qed

end
