(* ===== verification/Twoprocess.thy ===== *)
theory Twoprocess
  imports Secutil Privsock Prelogin Channels
begin

text \<open>
  How the processes of a session get their privileges: \<^verbatim>\<open>twoprocess.c\<close> (before and after login), the start of
  \<^verbatim>\<open>postprivparent.c\<close> and of \<^verbatim>\<open>oneprocess.c\<close>. The configuration is a value of \<open>tunables\<close>, since a user's own configuration
  file may change it between the login and the session.
\<close>

section \<open>The configuration\<close>

text \<open>\<open>str_alloc_text\<close> of a variable that is not set reads from a null pointer.\<close>

definition text_of :: "tunables \<Rightarrow> string \<Rightarrow> string result" where
  "text_of t n = (case t_str t n of None \<Rightarrow> Inl Undef | Some x \<Rightarrow> Inr (c_str x))"

text \<open>Reading a file that the configuration names, as a whole (\<^verbatim>\<open>VSFTP_CONF_FILE_MAX\<close> bytes of it).\<close>

definition load_text :: "file_system \<Rightarrow> tunables \<Rightarrow> string \<Rightarrow> string \<Rightarrow> string result" where
  "load_text fs t var p_text =
     andthen (text_of t var) (\<lambda>f.
     andthen (str_fileread fs f 100000) (\<lambda>(retval, x).
     if vsf_sysutil_retval_is_error retval then die2 p_text f else Inr x))"

text \<open>The system as these functions see it: the files, and the \<open>errno\<close> where \<open>stat\<close> fails.\<close>

record files =
  contents :: file_system
  stat_errno :: "string \<Rightarrow> int"

abbreviation ENOENT :: int where "ENOENT \<equiv> 2"

text \<open>The parent runs as root, so a configuration file must belong to user 0.\<close>

definition handle_per_user_config :: "(nat \<Rightarrow> bool) \<Rightarrow> files \<Rightarrow> parseconf_state \<Rightarrow> string \<Rightarrow> parseconf_state result" where
  "handle_per_user_config avail fs st p_user_str =
     (case t_str (parseconf_state.tun st) ''user_config_dir'' of
        None \<Rightarrow> Inr st
      | Some dir \<Rightarrow>
          if found (str_locate_char p_user_str CHR ''/'') then Inr st
          else
            let filename_str = c_str (c_str dir @ ''/'' @ p_user_str) in
            (case contents fs filename_str of
               Some p_statbuf \<Rightarrow> vsf_parseconf_load_file avail (contents fs) 0 st (Some filename_str) True
             | None \<Rightarrow> if stat_errno fs filename_str \<noteq> ENOENT then die ''error opening per-user config file'' else Inr st))"

section \<open>Where a session starts\<close>

definition sub_token :: "tunables \<Rightarrow> string \<Rightarrow> string \<Rightarrow> string" where
  "sub_token t p_str p_orig_user_str =
     (case t_str t ''user_sub_token'' of None \<Rightarrow> p_str | Some tok \<Rightarrow> str_replace_text p_str tok p_orig_user_str)"

text \<open>The results are \<open>p_userdir_str\<close>, \<open>p_chroot_str\<close> and \<open>p_chdir_str\<close>.\<close>

definition calculate_chdir_dir :: "tunables \<Rightarrow> host \<Rightarrow> bool \<Rightarrow> string \<Rightarrow> string \<Rightarrow> (string \<times> string \<times> string) result" where
  "calculate_chdir_dir t h anon_login p_user_str p_orig_user_str =
     andthen (if anon_login then Inr []
              else case getpwnam h (c_str p_user_str) of
                     None \<Rightarrow> die2 ''cannot locate user entry:'' p_user_str
                   | Some p_user \<Rightarrow> Inr (sub_token t (c_str (pw_dir p_user)) p_orig_user_str)) (\<lambda>userdir.
     let chroot_str = (if anon_login then (case t_str t ''anon_root'' of None \<Rightarrow> [] | Some r \<Rightarrow> c_str r)
                       else (case t_str t ''local_root'' of None \<Rightarrow> [] | Some r \<Rightarrow> sub_token t (c_str r) p_orig_user_str))
     in if \<not> anon_login \<and> t_bool t ''passwd_chroot_enable'' \<and> found (str_locate_text userdir ''/./'')
        then (case str_split_text userdir ''/./'' of (dir, chdir) \<Rightarrow> Inr (dir, dir, chdir))
        else Inr (userdir, chroot_str, []))"

text \<open>A change of directory whose failure is ignored.\<close>

definition try_chdir :: "host \<Rightarrow> string \<Rightarrow> cred \<Rightarrow> cred" where
  "try_chdir h p_str c = (if p_str = [] then c else case chdir_cred h p_str c of None \<Rightarrow> c | Some c \<Rightarrow> c)"

section \<open>The process before login\<close>

text \<open>\<open>found\<close>: whether the directory exists (\<open>str_lstat\<close>).\<close>

definition drop_all_privs :: "tunables \<Rightarrow> host \<Rightarrow> bool \<Rightarrow> cred \<Rightarrow> cred result" where
  "drop_all_privs t h dir_found c =
     andthen (text_of t ''nopriv_user'') (\<lambda>user_str.
     andthen (text_of t ''secure_chroot_dir'') (\<lambda>dir_str.
     if \<not> dir_found then die2 ''vsftpd: not found: directory given in 'secure_chroot_dir':'' dir_str
     else vsf_secutil_change_credentials h user_str (Some dir_str) None {}
            \<lparr>OPTION_CHROOT = True, OPTION_USE_GROUPS = False, OPTION_CHANGE_EUID = False,
             OPTION_NO_FDS = \<not> t_bool t ''ssl_enable'', OPTION_NO_PROCS = True\<rparr> c))"

text \<open>
  \<open>vsf_two_process_start\<close> in the child, up to \<open>init_connection\<close>: the list of users is read while it still may be. (The
  descriptors of both processes are \<open>start_channels\<close>.)
\<close>

definition network_process :: "tunables \<Rightarrow> files \<Rightarrow> host \<Rightarrow> bool \<Rightarrow> string \<Rightarrow> cred \<Rightarrow> (string \<times> cred) result" where
  "network_process t fs h dir_found userlist c =
     andthen (if t_bool t ''local_enable'' \<and> t_bool t ''userlist_enable''
              then load_text (contents fs) t ''userlist_file'' ''cannot read user list file:''
              else Inr userlist) (\<lambda>userlist.
     andthen (drop_all_privs t h dir_found c) (\<lambda>c. Inr (userlist, c)))"

section \<open>The session process\<close>

text \<open>
  The child of \<open>common_do_login\<close>, up to \<open>process_post_login\<close>: whether the session is anonymous and a guest's, and the
  credentials it runs with.
\<close>

definition login_child :: "tunables \<Rightarrow> host \<Rightarrow> string \<Rightarrow> bool \<Rightarrow> bool \<Rightarrow> cred \<Rightarrow> (bool \<times> bool \<times> cred) result" where
  "login_child t h p_user_str do_chroot anon c =
     (let was_anon = anon; p_orig_user_str = p_user_str; is_guest = (t_bool t ''guest_enable'' \<and> \<not> anon) in
      andthen (if is_guest then text_of t ''guest_username'' else Inr p_user_str) (\<lambda>p_user_str.
      let restricted = (is_guest \<and> \<not> t_bool t ''virtual_use_local_privs'');
          anon = (restricted \<or> anon);
          do_chroot = (restricted \<or> do_chroot);
          secutil_option = \<lparr>OPTION_CHROOT = do_chroot, OPTION_USE_GROUPS = True, OPTION_CHANGE_EUID = \<not> anon,
                            OPTION_NO_FDS = False, OPTION_NO_PROCS = True\<rparr>
      in andthen (calculate_chdir_dir t h was_anon p_user_str p_orig_user_str) (\<lambda>(userdir_str, chroot_str, chdir_str).
         andthen (vsf_secutil_change_credentials h p_user_str (Some userdir_str) (Some chroot_str) {} secutil_option c) (\<lambda>c.
         Inr (anon, is_guest, try_chdir h chdir_str c)))))"

text \<open>Whether a local user is confined to a directory.\<close>

definition local_do_chroot :: "tunables \<Rightarrow> files \<Rightarrow> string \<Rightarrow> bool result" where
  "local_do_chroot t fs user =
     (let do_chroot = t_bool t ''chroot_local_user'' in
      if \<not> t_bool t ''chroot_list_enable'' then Inr do_chroot
      else andthen (load_text (contents fs) t ''chroot_list_file'' ''could not read chroot() list file:'') (\<lambda>chroot_list_file.
           Inr (if str_contains_line chroot_list_file user then \<not> do_chroot else do_chroot)))"

text \<open>
  \<open>process_login_req\<close> and \<open>common_do_login\<close> after the login was granted, in the child that becomes the session. \<open>user\<close> is
  the name that was logged in.
\<close>

definition session_process ::
  "(nat \<Rightarrow> bool) \<Rightarrow> files \<Rightarrow> parseconf_state \<Rightarrow> host \<Rightarrow> EVSFPrivopLoginResult \<Rightarrow> string \<Rightarrow> cred \<Rightarrow>
   (tunables \<times> bool \<times> bool \<times> cred) result" where
  "session_process avail fs st h e_login_result user c =
     (let common_do_login = (\<lambda>p_user_str do_chroot anon.
            andthen (handle_per_user_config avail fs st p_user_str) (\<lambda>st'.
            andthen (login_child (parseconf_state.tun st') h p_user_str do_chroot anon c) (\<lambda>(a, g, c').
            Inr (parseconf_state.tun st', a, g, c'))))
      in case e_login_result of
           kVSFLoginAnon \<Rightarrow> andthen (text_of (parseconf_state.tun st) ''ftp_username'') (\<lambda>u. common_do_login u True True)
         | kVSFLoginReal \<Rightarrow> andthen (local_do_chroot (parseconf_state.tun st) fs user) (\<lambda>do_chroot. common_do_login user do_chroot False)
         | _ \<Rightarrow> bug ''weird state in process_login_request'')"

section \<open>The privileged parent\<close>

definition wanted_caps :: "tunables \<Rightarrow> capability set" where
  "wanted_caps t = (if t_bool t ''chown_uploads'' then {CAP_CHOWN} else {}) \<union>
     (if t_bool t ''connect_from_port_20'' then {CAP_NET_BIND_SERVICE} else {})"

definition minimize_privilege :: "tunables \<Rightarrow> host \<Rightarrow> bool \<Rightarrow> cred \<Rightarrow> cred result" where
  "minimize_privilege t h is_anon c =
     (if \<not> is_anon \<and> t_bool t ''session_support'' then Inr c
      else andthen (text_of t ''nopriv_user'') (\<lambda>user_str.
           andthen (text_of t ''secure_chroot_dir'') (\<lambda>dir_str.
           vsf_secutil_change_credentials h user_str (Some dir_str) None (wanted_caps t)
             \<lparr>OPTION_CHROOT = True, OPTION_USE_GROUPS = False, OPTION_CHANGE_EUID = False, OPTION_NO_FDS = False,
              OPTION_NO_PROCS = False\<rparr> c)))"

section \<open>One process\<close>

text \<open>\<open>one_process_start\<close> up to \<open>init_connection\<close>.\<close>

definition one_process_start :: "tunables \<Rightarrow> host \<Rightarrow> cred \<Rightarrow> cred result" where
  "one_process_start t h c =
     andthen (text_of t ''ftp_username'') (\<lambda>user_name.
     let chdir_str = (case t_str t ''anon_root'' of None \<Rightarrow> [] | Some r \<Rightarrow> c_str r) in
     if t_bool t ''run_as_launching_user''
     then Inr (try_chdir h chdir_str c)
     else vsf_secutil_change_credentials h user_name None (Some chdir_str) (wanted_caps t)
            \<lparr>OPTION_CHROOT = True, OPTION_USE_GROUPS = True, OPTION_CHANGE_EUID = False, OPTION_NO_FDS = False,
             OPTION_NO_PROCS = True\<rparr> c)"

section \<open>Signals\<close>

text \<open>\<open>handle_sigchld\<close>: when its child is gone, the parent goes as well. The arguments are what \<open>wait\<close> reports.\<close>

definition two_process_sigchld :: "int \<Rightarrow> bool \<Rightarrow> int \<Rightarrow> 'a result" where
  "two_process_sigchld wait_retval exited_normally exitcode =
     (if vsf_sysutil_retval_is_error wait_retval \<or> \<not> exited_normally \<or> exitcode \<noteq> 0 then die ''child died''
      else Inl (Exit 0))"

text \<open>\<open>handle_sigterm\<close>: the control connection is shut down, whether this succeeds or not.\<close>

definition two_process_sigterm :: "env \<Rightarrow> unit act" where
  "two_process_sigterm e = bnd (call e (OnFd Shutdown VSFTP_COMMAND_FD)) (\<lambda>r. sysutil_exit 1)"

section \<open>The parent before login\<close>

text \<open>
  \<open>process_login_req\<close> up to its switch: a login request is read and decided. The parent's copy of the session gets the
  user's name and the state of TLS, as far as TLS is enabled.
\<close>

definition process_login_req :: "env \<Rightarrow> cell list \<Rightarrow> (EVSFPrivopLoginResult \<times> cell list) act" where
  "process_login_req e cs =
     bnd (lift (read_login cs)) (\<lambda>((user, password_str, control_ssl, data_ssl), cs).
     seq (modif (\<lambda>s. s\<lparr>user_str := user, control_use_ssl := (tb e ''ssl_enable'' \<and> control_ssl \<noteq> 0),
                       data_use_ssl := (tb e ''ssl_enable'' \<and> data_ssl \<noteq> 0)\<rparr>))
     (bnd (vsf_privop_do_login e password_str) (\<lambda>e_login_result. ret (e_login_result, cs))))"

text \<open>The loop of \<open>vsf_two_process_start\<close> in the parent: it goes on while logins fail. A request has at least one byte.\<close>

lemma get_str_shorter: "priv_sock_get_str cs = Inr (s, cs') \<Longrightarrow> length cs' \<le> length cs"
  by (auto simp: priv_sock_get_str_def priv_sock_get_int_def andthen_Inr_iff Let_def halt_simps split: if_splits
      dest!: read_cells_shorter)

lemma get_int_shorter: "priv_sock_get_int cs = Inr (i, cs') \<Longrightarrow> length cs' \<le> length cs"
  by (auto simp: priv_sock_get_int_def andthen_Inr_iff dest!: read_cells_shorter)

lemma get_cmd_shorter: "priv_sock_get_cmd cs = Inr (b, cs') \<Longrightarrow> length cs' < length cs"
  by (auto simp: priv_sock_get_cmd_def andthen_Inr_iff dest!: read_cells_shorter)

lemma read_login_shorter: "read_login cs = Inr (x, cs') \<Longrightarrow> length cs' < length cs"
  by (fastforce simp: read_login_def andthen_Inr_iff halt_simps split: if_splits
      dest!: get_str_shorter get_int_shorter get_cmd_shorter)

lemma login_req_shorter: "process_login_req e cs s = Ret (r, cs') s' \<Longrightarrow> length cs' < length cs"
  by (auto simp: process_login_req_def bnd_def seq_def lift_def modif_def ret_def split: sum.splits outcome.splits
      dest: read_login_shorter)

function login_loop :: "env \<Rightarrow> cell list \<Rightarrow> vsf_session \<Rightarrow> EVSFPrivopLoginResult outcome" where
  "login_loop e cs s =
     (case process_login_req e cs s of
        Stop h s' \<Rightarrow> Stop h s'
      | Ret rc s' \<Rightarrow> if fst rc = kVSFLoginFail then login_loop e (snd rc) s' else Ret (fst rc) s')"
  by pat_completeness auto
termination
  by (relation "measure (\<lambda>(e, cs, s). length cs)") (auto dest: login_req_shorter)

declare login_loop.simps [simp del]

text \<open>
  From the requests that arrive to the session process: the parent has one configuration, which logins and the session are
  decided by. The result has the login's kind and the parent's copy of the session.
\<close>

definition start_session ::
  "(nat \<Rightarrow> bool) \<Rightarrow> files \<Rightarrow> parseconf_state \<Rightarrow> host \<Rightarrow> cred \<Rightarrow> env \<Rightarrow> cell list \<Rightarrow> vsf_session \<Rightarrow>
   (EVSFPrivopLoginResult \<times> vsf_session \<times> tunables \<times> bool \<times> bool \<times> cred) result" where
  "start_session avail fs st h c e cs s =
     (case login_loop (e\<lparr>env.tun := parseconf_state.tun st\<rparr>) cs s of
        Stop h s' \<Rightarrow> Inl h
      | Ret r s' \<Rightarrow> andthen (session_process avail fs st h r (user_str s') c) (\<lambda>x. Inr (r, s', x)))"

section \<open>A session needs grounds\<close>

text \<open>Somewhere in the trace a well-formed name was authenticated, and the authentication made it \<open>u\<close>.\<close>

definition checked :: "env \<Rightarrow> string \<Rightarrow> trace_t \<Rightarrow> bool" where
  "checked e u tr \<longleftrightarrow>
     (\<exists>v p a b. tr = a @ Req (CheckAuth v p) # b \<and> e_ret e b (CheckAuth v p) \<noteq> 0 \<and> username_ok v \<and> u = auth_name e b v p)"

lemma checked_Cons: "checked e u tr \<Longrightarrow> checked e u (ev # tr)"
  unfolding checked_def by (metis append_Cons)

lemma checked_here:
  "e_ret e tr (CheckAuth v p) \<noteq> 0 \<Longrightarrow> username_ok v \<Longrightarrow> checked e (auth_name e tr v p) (Req (CheckAuth v p) # tr)"
  unfolding checked_def by (metis append_Nil)

definition granted :: "env \<Rightarrow> EVSFPrivopLoginResult \<Rightarrow> vsf_session \<Rightarrow> bool" where
  "granted e r s =
     (case r of
        kVSFLoginAnon \<Rightarrow> tb e ''anonymous_enable''
      | kVSFLoginReal \<Rightarrow> tb e ''local_enable'' \<and> checked e (user_str s) (trace s)
      | kVSFLoginFail \<Rightarrow> True | kVSFLoginNull \<Rightarrow> False)"

lemma granted_emit [vc]: "keeps (granted e r) (emit ev)"
  unfolding emit_def by (rule keeps_modif) (auto simp: granted_def checked_Cons split: EVSFPrivopLoginResult.splits)

lemma granted_call [vc]: "keeps (granted e r) (call e q)"
  unfolding call_def by (intro vc)

lemma granted_modif [vc]:
  "(\<And>s. user_str (f s) = user_str s \<and> trace (f s) = trace s) \<Longrightarrow> keeps (granted e r) (modif f)"
  by (rule keeps_modif) (cases r; simp add: granted_def)

lemma granted_log [vc]: "keeps (granted e r) (vsf_log_start_entry e what)" "keeps (granted e r) (vsf_log_do_log e ok)"
  unfolding vsf_log_start_entry_def vsf_log_do_log_def vsf_log_common_def vsf_log_do_log_to_file_def vsf_log_clear_entry_def
  by (intro vc; simp)+

lemma handle_login_granted: "handle_login e user pass s = Ret r s' \<Longrightarrow> granted e r s'"
  by (auto simp: handle_login_def handle_anonymous_login_def handle_local_login_def setup_username_globals_def act_simps
      halt_simps granted_def checked_here split: option.splits if_splits)

lemma do_login_granted:
  assumes "vsf_privop_do_login e pass s = Ret r s'"
  shows "granted e r s'"
proof -
  define m where "m = (\<lambda>result. seq (vsf_log_start_entry e kVSFLogEntryLogin)
     (seq (vsf_log_do_log e (result \<noteq> kVSFLoginFail))
     (seq (let delay = (if result = kVSFLoginFail then tu e ''delay_failed_login'' else tu e ''delay_successful_login'')
           in onlyif (delay > 0) (emit (Req (Sleep delay))))
     (ret result))))"
  obtain r1 s1 where login: "handle_login e (user_str s) pass s = Ret r1 s1" and rest: "m r1 s1 = Ret r s'"
    using assms by (auto simp: vsf_privop_do_login_def m_def bnd_def gets_def split: outcome.splits)
  have "keeps (granted e r1) (m r1)" unfolding m_def by (intro vc)
  from keepsD [OF this handle_login_granted [OF login]] have "granted e r1 s'" by (simp add: rest)
  moreover have "returns (\<lambda>x. x = r1) (m r1)" unfolding m_def by (intro returns_seq returns_ret) simp
  then have "r = r1" by (rule returnsD) (rule rest)
  ultimately show ?thesis by simp
qed

lemma login_loop_granted: "login_loop e cs s = Ret r s' \<Longrightarrow> granted e r s' \<and> r \<noteq> kVSFLoginFail"
proof (induction e cs s rule: login_loop.induct)
  case (1 e cs s)
  then obtain r1 cs1 s1 where req: "process_login_req e cs s = Ret (r1, cs1) s1"
    by (auto simp: login_loop.simps [of e cs s] split: outcome.splits)
  then have g: "granted e r1 s1"
    by (auto simp: process_login_req_def act_simps split: sum.splits outcome.splits dest: do_login_granted)
  show ?case
    using "1.IH" [OF req] "1.prems" g by (auto simp: login_loop.simps [of e cs s] req split: if_splits)
qed

section \<open>No process that talks to the client has privileges\<close>

text \<open>The name stands for a user, who is not root.\<close>

definition runs_as :: "host \<Rightarrow> string result \<Rightarrow> capability set \<Rightarrow> cred \<Rightarrow> bool" where
  "runs_as h name A c \<longleftrightarrow> (\<exists>n u. name = Inr n \<and> getpwnam h (c_str n) = Some u \<and> only_user u A c)"

definition not_root :: "host \<Rightarrow> string result \<Rightarrow> bool" where
  "not_root h name \<longleftrightarrow> (\<forall>n u. name = Inr n \<and> getpwnam h (c_str n) = Some u \<longrightarrow> pw_uid u \<noteq> 0)"

lemma cwd_same: "cwd c = d \<Longrightarrow> c\<lparr>cwd := d\<rparr> = c"
  by auto

lemma only_user_cwd [simp]: "only_user u A (c\<lparr>cwd := d\<rparr>) = only_user u A c"
  by (simp add: only_user_def)

lemma runs_as_cwd [simp]: "runs_as h n A (c\<lparr>cwd := d\<rparr>) = runs_as h n A c"
  by (simp add: runs_as_def)

text \<open>
  A process whose root directory was changed to the directory that a process at \<open>c0\<close> reaches when it goes to \<open>dir\<close> (the user's
  own if there is none) and on to \<open>ext\<close>, with the effective ids of the user or not, and which cannot write that directory.
\<close>

definition jailed :: "host \<Rightarrow> cred \<Rightarrow> bool \<Rightarrow> string result \<Rightarrow> string option \<Rightarrow> string option \<Rightarrow> cred \<Rightarrow> bool" where
  "jailed h c0 as_user name dir ext c \<longleftrightarrow>
     (\<exists>n u opts. name = Inr n \<and> getpwnam h (c_str n) = Some u \<and> OPTION_CHROOT opts \<and> OPTION_CHANGE_EUID opts = as_user \<and>
        sent_to h opts u c0 (first_dir u dir) ext (root_dir c)) \<and>
     \<not> writable h (c\<lparr>cwd := root_dir c\<rparr>) (root_dir c)"

lemma jailed_cwd [simp]: "jailed h c0 b n dir ext (c\<lparr>cwd := d\<rparr>) = jailed h c0 b n dir ext c"
  by (simp add: jailed_def)

lemma change_credentials_user:
  assumes "vsf_secutil_change_credentials h name d x A opts c = Inr c'"
  shows "\<exists>u. getpwnam h (c_str name) = Some u"
  using assms by (auto simp: vsf_secutil_change_credentials_def halt_simps split: if_splits option.splits)

lemma changed_credentials:
  assumes "vsf_secutil_change_credentials h name d x A opts c = Inr c'" and "root_process c" and "not_root h (Inr name)"
    and "A = {} \<or> (kernel_caps h \<and> kernel_keepcaps h)"
  shows "runs_as h (Inr name) A c' \<and> no_procs c' = (OPTION_NO_PROCS opts \<or> no_procs c) \<and>
    no_fds c' = (OPTION_NO_FDS opts \<or> no_fds c) \<and> (if OPTION_CHROOT opts then jailed h c (OPTION_CHANGE_EUID opts) (Inr name) d x c' else root_dir c' = root_dir c)"
proof -
  obtain u where u: "getpwnam h (c_str name) = Some u" using change_credentials_user [OF assms(1)] by blast
  then have "pw_uid u \<noteq> 0" using assms(3) by (simp add: not_root_def)
  note dropped = dropped_to_user [OF assms(1,2) u this assms(4)]
  have "jailed h c (OPTION_CHANGE_EUID opts) (Inr name) d x c'" if "OPTION_CHROOT opts"
    using dropped u that unfolding jailed_def by (auto simp: cwd_same intro!: exI [of _ opts])
  with dropped show ?thesis using u by (auto simp: runs_as_def)
qed

lemma try_chdir_cwd: "\<exists>d'. try_chdir h d c = c\<lparr>cwd := d'\<rparr>"
  by (auto simp: try_chdir_def chdir_cred_def cwd_same split: option.splits)
     (metis cwd_same)+

text \<open>The name that the session of a login runs under, from the configuration \<open>t\<close> with which its process starts.\<close>

definition child_name :: "tunables \<Rightarrow> string \<Rightarrow> bool \<Rightarrow> string result" where
  "child_name t name anon = (if t_bool t ''guest_enable'' \<and> \<not> anon then text_of t ''guest_username'' else Inr name)"

text \<open>
  Where the session of a login is confined to: the directories that \<open>calculate_chdir_dir\<close> finds for the name it runs under and the
  name that was given (\<open>orig\<close>).
\<close>

definition session_jail :: "tunables \<Rightarrow> host \<Rightarrow> bool \<Rightarrow> bool \<Rightarrow> string \<Rightarrow> cred \<Rightarrow> cred \<Rightarrow> bool" where
  "session_jail t h was_anon as_user orig c c' \<longleftrightarrow>
     (\<exists>n userdir chroot chdir. child_name t orig was_anon = Inr n \<and>
        calculate_chdir_dir t h was_anon n orig = Inr (userdir, chroot, chdir) \<and>
        jailed h c as_user (Inr n) (Some userdir) (Some chroot) c')"

lemma login_child_unprivileged:
  assumes "login_child t h name do_chroot anon c = Inr (a, g, c')" and "root_process c"
    and "not_root h (child_name t name anon)"
  shows "runs_as h (child_name t name anon) {} c' \<and> no_procs c' \<and> (if anon then a else True) \<and>
    (if do_chroot \<or> (a \<and> \<not> anon) then session_jail t h anon (\<not> a) name c c' else root_dir c' = root_dir c)"
proof -
  let ?restricted = "(t_bool t ''guest_enable'' \<and> \<not> anon) \<and> \<not> t_bool t ''virtual_use_local_privs''"
  let ?opts = "\<lparr>OPTION_CHROOT = ?restricted \<or> do_chroot, OPTION_USE_GROUPS = True, OPTION_CHANGE_EUID = \<not> (?restricted \<or> anon),
      OPTION_NO_FDS = False, OPTION_NO_PROCS = True\<rparr>"
  obtain user ud cs cd c1 where
    cred: "vsf_secutil_change_credentials h user (Some ud) (Some cs) {} ?opts c = Inr c1"
    and a: "a = (?restricted \<or> anon)" and c': "c' = try_chdir h cd c1" and user: "child_name t name anon = Inr user"
    and dirs: "calculate_chdir_dir t h anon user name = Inr (ud, cs, cd)"
    using assms(1)
    by (force simp: login_child_def Let_def andthen_Inr_iff child_name_def simp del: de_Morgan_disj de_Morgan_conj)
  from try_chdir_cwd obtain d where d: "c' = c1\<lparr>cwd := d\<rparr>" unfolding c' by blast
  show ?thesis
    using changed_credentials [OF cred assms(2) assms(3) [unfolded user]] a dirs
    by (auto simp: d user session_jail_def split: if_splits)
qed

text \<open>The name that a session of this kind runs under; \<open>t'\<close> is the configuration with the user's own settings.\<close>

definition session_name :: "tunables \<Rightarrow> tunables \<Rightarrow> EVSFPrivopLoginResult \<Rightarrow> string \<Rightarrow> string result" where
  "session_name t t' r user = (if r = kVSFLoginAnon then text_of t ''ftp_username'' else child_name t' user False)"

text \<open>Whether a session is confined: when it counts as anonymous, and a local one when the configuration says so for its user.\<close>

definition confined_login :: "tunables \<Rightarrow> files \<Rightarrow> EVSFPrivopLoginResult \<Rightarrow> string \<Rightarrow> bool \<Rightarrow> bool" where
  "confined_login t fs r user a \<longleftrightarrow> a \<or> (r = kVSFLoginReal \<and> local_do_chroot t fs user = Inr True)"

text \<open>The name that was given: that of \<open>ftp_username\<close> for an anonymous login.\<close>

definition given_name :: "tunables \<Rightarrow> EVSFPrivopLoginResult \<Rightarrow> string \<Rightarrow> string result" where
  "given_name t r user = (if r = kVSFLoginAnon then text_of t ''ftp_username'' else Inr user)"

lemma session_process_unprivileged:
  assumes "session_process avail fs st h r user c = Inr (t', a, g, c')" and "root_process c"
    and "not_root h (session_name (parseconf_state.tun st) t' r user)"
  shows "runs_as h (session_name (parseconf_state.tun st) t' r user) {} c' \<and> no_procs c' \<and>
    (if confined_login (parseconf_state.tun st) fs r user a
     then \<exists>orig. given_name (parseconf_state.tun st) r user = Inr orig \<and> session_jail t' h (r = kVSFLoginAnon) (\<not> a) orig c c'
     else root_dir c' = root_dir c)"
proof -
  consider (anon) n where "r = kVSFLoginAnon" "text_of (parseconf_state.tun st) ''ftp_username'' = Inr n"
      "login_child t' h n True True c = Inr (a, g, c')"
    | (real) b where "r = kVSFLoginReal" "local_do_chroot (parseconf_state.tun st) fs user = Inr b"
      "login_child t' h user b False c = Inr (a, g, c')"
    using assms(1) by (cases r) (auto simp: session_process_def Let_def andthen_Inr_iff halt_simps)
  then show ?thesis
  proof cases
    case anon
    then have name: "session_name (parseconf_state.tun st) t' r user = child_name t' n True"
      by (simp add: session_name_def child_name_def)
    show ?thesis using login_child_unprivileged [OF anon(3) assms(2)] assms(3) anon(1,2) unfolding name
      by (cases a) (simp_all add: confined_login_def given_name_def)
  next
    case real
    then have name: "session_name (parseconf_state.tun st) t' r user = child_name t' user False"
      by (simp add: session_name_def)
    show ?thesis
      using login_child_unprivileged [OF real(3) assms(2)] assms(3) real(1,2) unfolding name
      by (auto simp: confined_login_def given_name_def split: if_splits)
  qed
qed

lemma session_process_kind:
  "session_process avail fs st h r user c = Inr (t', a, g, c') \<Longrightarrow> if r = kVSFLoginAnon then a else r = kVSFLoginReal"
  by (cases r) (auto simp: session_process_def login_child_def Let_def andthen_Inr_iff halt_simps)

lemma granted_cong: "granted (e\<lparr>env.tun := t\<rparr>) r s = 
    (case r of
        kVSFLoginAnon \<Rightarrow> t_bool t ''anonymous_enable''
      | kVSFLoginReal \<Rightarrow> t_bool t ''local_enable'' \<and> checked e (user_str s) (trace s)
      | kVSFLoginFail \<Rightarrow> True | kVSFLoginNull \<Rightarrow> False)"
  by (cases r) (simp_all add: granted_def checked_def auth_name_def)

text \<open>
  C2: a session needs grounds and has no privileges. Whatever bytes the process that talks to the client sends to the
  parent before login, the parent (which is root) starts a session process only for an anonymous login, if those are enabled,
  and then counts it as anonymous, or for a user whose name and password the authentication has accepted, if local logins are
  enabled; this holds for users with the uid of root as well. When the user it is to run as (that of \<open>ftp_username\<close>, the guest
  user or the user himself) is not root, the session process has the ids of this user and of nobody else and no
  capabilities, and cannot start processes. If it counts as anonymous (a guest without \<open>virtual_use_local_privs\<close> does), or
  if the configuration says so for a local user, its root directory is the one that the login calculates (\<open>calculate_chdir_dir\<close>,
  reached with the user's ids unless it counts as anonymous), and it cannot write that; otherwise it keeps the root directory.
\<close>

theorem session_grounds:
  assumes "start_session avail fs st h c e cs s = Inr (r, s', t', a, g, c')" and "root_process c"
    and "t = parseconf_state.tun st"
  shows "(if r = kVSFLoginAnon then a \<and> t_bool t ''anonymous_enable''
      else r = kVSFLoginReal \<and> t_bool t ''local_enable'' \<and> checked e (user_str s') (trace s')) \<and>
    (not_root h (session_name t t' r (user_str s')) \<longrightarrow>
      runs_as h (session_name t t' r (user_str s')) {} c' \<and> no_procs c' \<and>
      (if confined_login t fs r (user_str s') a
       then \<exists>orig. given_name t r (user_str s') = Inr orig \<and> session_jail t' h (r = kVSFLoginAnon) (\<not> a) orig c c'
       else root_dir c' = root_dir c))"
proof -
  have loop: "login_loop (e\<lparr>env.tun := t\<rparr>) cs s = Ret r s'"
    and ses: "session_process avail fs st h r (user_str s') c = Inr (t', a, g, c')"
    using assms(1,3) by (auto simp: start_session_def andthen_Inr_iff split: outcome.splits)
  have "if r = kVSFLoginAnon then a \<and> t_bool t ''anonymous_enable''
      else r = kVSFLoginReal \<and> t_bool t ''local_enable'' \<and> checked e (user_str s') (trace s')"
    using session_process_kind [OF ses] conjunct1 [OF login_loop_granted [OF loop]] by (auto simp: granted_cong split: if_splits)
  then show ?thesis using session_process_unprivileged [OF ses assms(2)] unfolding assms(3) by blast
qed

definition secure_jail :: "tunables \<Rightarrow> host \<Rightarrow> cred \<Rightarrow> cred \<Rightarrow> bool" where
  "secure_jail t h c c' \<longleftrightarrow>
     (\<exists>d. text_of t ''secure_chroot_dir'' = Inr d \<and> jailed h c False (text_of t ''nopriv_user'') (Some d) None c')"

text \<open>
  C8: the other two processes. When \<open>nopriv_user\<close> is not root: the process before login runs as this user without any
  capability, with \<open>secure_chroot_dir\<close> as its root directory, which it cannot write, cannot start processes and, without
  TLS, cannot open descriptors. The parent of a session, unless it has to stay to record the end of a local session
  (\<open>session_support\<close>), runs as this user too, with the same root directory, which it cannot write, and with the
  capabilities that the configuration needs and no others, if the kernel can do that.
\<close>

theorem helpers_unprivileged:
  assumes "root_process c" and "not_root h (text_of t ''nopriv_user'')" and "kernel_caps h" and "kernel_keepcaps h"
  shows "(case network_process t fs h dir_found userlist c of
            Inl stopped \<Rightarrow> True
          | Inr (u, c') \<Rightarrow> runs_as h (text_of t ''nopriv_user'') {} c' \<and> secure_jail t h c c' \<and> no_procs c' \<and>
              (if t_bool t ''ssl_enable'' then True else no_fds c')) \<and>
    (case minimize_privilege t h is_anon c of
            Inl stopped \<Rightarrow> True
          | Inr c' \<Rightarrow>
              if \<not> is_anon \<and> t_bool t ''session_support'' then c' = c
              else runs_as h (text_of t ''nopriv_user'') (wanted_caps t) c' \<and> secure_jail t h c c')"
  (is "?N \<and> ?M")
proof (rule conjI)
  show ?N
  proof (cases "network_process t fs h dir_found userlist c")
    case (Inr uc)
    obtain n d opts where n: "text_of t ''nopriv_user'' = Inr n" "text_of t ''secure_chroot_dir'' = Inr d"
      and cred: "vsf_secutil_change_credentials h n (Some d) None {} opts c = Inr (snd uc)"
      and opts: "OPTION_CHROOT opts" "OPTION_NO_PROCS opts" "OPTION_NO_FDS opts = (\<not> t_bool t ''ssl_enable'')"
        "\<not> OPTION_CHANGE_EUID opts"
      using Inr by (fastforce simp: network_process_def drop_all_privs_def andthen_Inr_iff halt_simps split: if_splits)
    show ?thesis
      using changed_credentials [OF cred assms(1)] assms(2) opts by (cases uc) (auto simp: Inr n secure_jail_def)
  qed simp
  show ?M
  proof (cases "minimize_privilege t h is_anon c")
    case (Inr c')
    show ?thesis
    proof (cases "\<not> is_anon \<and> t_bool t ''session_support''")
      case False
      obtain n d opts where n: "text_of t ''nopriv_user'' = Inr n" "text_of t ''secure_chroot_dir'' = Inr d"
        and opts: "OPTION_CHROOT opts" "\<not> OPTION_CHANGE_EUID opts"
        and cred: "vsf_secutil_change_credentials h n (Some d) None (wanted_caps t) opts c = Inr c'"
        using Inr False by (fastforce simp: minimize_privilege_def andthen_Inr_iff split: if_splits)
      show ?thesis
        using changed_credentials [OF cred assms(1)] assms(2-4) opts False by (auto simp: Inr n secure_jail_def)
    qed (use Inr in \<open>auto simp: minimize_privilege_def\<close>)
  qed simp
qed

section \<open>A concrete run\<close>

text \<open>An anonymous login of the user \<open>ftp\<close> on the host of \<open>plain_host\<close>.\<close>

definition anon_tunables :: tunables where
  "anon_tunables = (plain_tunables [''anonymous_enable''])
     \<lparr>t_str := [''ftp_username'' \<mapsto> ''ftp'', ''nopriv_user'' \<mapsto> ''nobody'', ''secure_chroot_dir'' \<mapsto> ''/empty'']\<rparr>"

definition anon_state :: parseconf_state where
  "anon_state = \<lparr>saved_filename = None, parseconf_state.tun = anon_tunables\<rparr>"

definition login_cells :: "cell list" where
  "login_cells = (case send_login True ''ftp'' ''me@'' 0 0 of Inl h \<Rightarrow> [] | Inr cs \<Rightarrow> cs)"

lemma anon_tunables_sels [simp]:
  "t_bool anon_tunables n \<longleftrightarrow> n = ''anonymous_enable''" "t_uint anon_tunables n = 0"
  "text_of anon_tunables ''ftp_username'' = Inr ''ftp''" "text_of anon_tunables ''nopriv_user'' = Inr ''nobody''"
  "text_of anon_tunables ''secure_chroot_dir'' = Inr ''/empty''" "t_str anon_tunables ''user_config_dir'' = None"
  "t_str anon_tunables ''anon_root'' = None" "t_str anon_tunables ''ftp_username'' = Some ''ftp''"
  by (simp_all add: anon_tunables_def plain_tunables_def text_of_def)

lemma read_login_cells: "read_login login_cells = Inr ((''ftp'', ''me@'', 0, 0), [])"
proof -
  have "\<exists>cs. send_login True ''ftp'' ''me@'' 0 0 = Inr cs \<and> (\<forall>rest. read_login (cs @ rest) = Inr ((''ftp'', ''me@'', 0, 0), rest))"
    by (rule login_sent) (simp_all add: VSFTP_PRIVSOCK_MAXSTR_def int32_ok_def)
  then obtain cs where cs: "send_login True ''ftp'' ''me@'' 0 0 = Inr cs" "\<forall>rest. read_login (cs @ rest) = Inr ((''ftp'', ''me@'', 0, 0), rest)"
    by blast
  from cs(2) have "read_login (cs @ []) = Inr ((''ftp'', ''me@'', 0, 0), [])" by blast
  then show ?thesis by (simp add: login_cells_def cs(1))
qed

lemma ftp_name: "username_ok ''ftp''" "names_anonymous ''ftp''"
proof -
  show "username_ok ''ftp''"
    by (simp add: username_ok_def vsf_sysutil_isalnum_def str_contains_space_def str_contains_unprintable_def
        vsf_sysutil_isspace_def isprint_range)
  have "str_upper ''ftp'' = ''FTP''" by code_simp
  moreover have "str_equal_text ''FTP'' ''FTP''" by (simp add: str_equal_text_iff short_str_def width_simps)
  ultimately show "names_anonymous ''ftp''" by (simp add: names_anonymous_def)
qed

lemma anon_login_loop:
  "\<exists>s'. login_loop ((calm_env [])\<lparr>env.tun := anon_tunables\<rparr>) login_cells (new_session True []) = Ret kVSFLoginAnon s'"
  by (subst login_loop.simps)
     (simp add: process_login_req_def read_login_cells vsf_privop_do_login_def handle_login_def ftp_name
       handle_anonymous_login_def setup_username_globals_def vsf_log_start_entry_def vsf_log_do_log_def vsf_log_common_def
       vsf_log_type_is_transfer_def vsf_log_clear_entry_def act_simps new_session_def)

lemma anon_session:
  "\<exists>c'. session_process avail fs anon_state plain_host kVSFLoginAnon user root_cred = Inr (anon_tunables, True, False, c')"
  by (simp add: session_process_def anon_state_def handle_per_user_config_def login_child_def calculate_chdir_dir_def
      try_chdir_def run_defs Let_def)

lemma plain_not_root [simp]: "not_root plain_host name"
  by (auto simp: not_root_def plain_host_def split: if_splits)

definition no_files :: files where
  "no_files = \<lparr>contents = (\<lambda>_. None), stat_errno = (\<lambda>_. ENOENT)\<rparr>"

lemma session_grounds_witness:
  "\<exists>s' c'. start_session (\<lambda>_. True) no_files anon_state plain_host root_cred (calm_env []) login_cells (new_session True []) =
      Inr (kVSFLoginAnon, s', anon_tunables, True, False, c') \<and>
    runs_as plain_host (Inr ''ftp'') {} c' \<and> no_procs c' \<and> root_dir c' = ''/srv/ftp''"
proof -
  obtain s' where loop: "login_loop ((calm_env [])\<lparr>env.tun := anon_tunables\<rparr>) login_cells (new_session True []) = Ret kVSFLoginAnon s'"
    using anon_login_loop by blast
  obtain c' where ses: "session_process (\<lambda>_. True) no_files anon_state plain_host kVSFLoginAnon (user_str s') root_cred =
      Inr (anon_tunables, True, False, c')"
    using anon_session by blast
  have tun: "parseconf_state.tun anon_state = anon_tunables" by (simp add: anon_state_def)
  have run: "start_session (\<lambda>_. True) no_files anon_state plain_host root_cred (calm_env []) login_cells (new_session True []) =
      Inr (kVSFLoginAnon, s', anon_tunables, True, False, c')"
    by (simp add: start_session_def tun loop ses)
  show ?thesis
    using run session_grounds [OF run root_cred_root refl]
    by (auto simp: tun session_name_def confined_login_def given_name_def session_jail_def child_name_def calculate_chdir_dir_def
        jailed_def sent_to_def on_to_def first_dir_def Let_def) (auto simp: plain_host_def c_str_def)
qed

lemma helpers_unprivileged_witness:
  "\<exists>c'. network_process anon_tunables no_files plain_host True [] root_cred = Inr ([], c') \<and>
    runs_as plain_host (Inr ''nobody'') {} c' \<and> root_dir c' = ''/empty'' \<and> no_procs c' \<and> no_fds c'"
proof -
  obtain c' where run: "network_process anon_tunables no_files plain_host True [] root_cred = Inr ([], c')"
    by (simp add: network_process_def drop_all_privs_def run_defs Let_def)
  have "kernel_caps plain_host" "kernel_keepcaps plain_host" by (simp_all add: plain_host_def)
  note helpers = helpers_unprivileged [OF root_cred_root plain_not_root this, of anon_tunables no_files True "[]", THEN conjunct1]
  have tun: "text_of anon_tunables ''nopriv_user'' = Inr ''nobody''" "text_of anon_tunables ''secure_chroot_dir'' = Inr ''/empty''"
    "\<not> t_bool anon_tunables ''ssl_enable''"
    by (simp_all add: text_of_def anon_tunables_def plain_tunables_def c_str_def)
  have network: "runs_as plain_host (Inr ''nobody'') {} c'" "secure_jail anon_tunables plain_host root_cred c'" "no_procs c'" "no_fds c'"
    using helpers run tun by simp_all
  moreover have "root_dir c' = ''/empty''"
    using network(2) unfolding secure_jail_def jailed_def tun
    by (auto simp: sent_to_def on_to_def first_dir_def plain_host_def c_str_def)
  ultimately show ?thesis using run by blast
qed

end
