(* ===== verification/Startup.thy ===== *)
theory Startup
  imports Twoprocess Standalone
begin

text \<open>
  \<^verbatim>\<open>main.c\<close>: reading the arguments and the configuration, the sanity checks, preparing the session, and the choice of a
  process model; with \<open>vsf_log_init\<close> of \<^verbatim>\<open>logging.c\<close> and the verdict of \<^verbatim>\<open>tcpwrap.c\<close>. OpenSSL's initialisation, process titles,
  time zones and the options of the control socket are left out.
\<close>

section \<open>What a start depends on\<close>

text \<open>
  The arguments after the program's name, or \<open>None\<close> for an empty \<open>argv\<close>; the files; the address a name resolves to, as text;
  what the listener returns in the process of a client; the verdict of \<open>hosts_access\<close> and the configuration file
  it may set in the environment; whether standard input is a socket, with its two addresses; and the descriptor of a log file
  opened for appending.
\<close>

record start_env =
  argv :: "string list option"
  l_files :: file_system
  l_resolve :: "string \<Rightarrow> string result"
  l_listener :: "tunables \<Rightarrow> vsf_client_launch result"
  hosts_access :: bool
  l_load_conf :: "string option"
  stdin_is_socket :: bool
  l_remote :: sockaddr
  l_local :: sockaddr
  l_ntop :: "sockaddr \<Rightarrow> string"
  l_open_log :: "string \<Rightarrow> int"

text \<open>The initial value of \<open>the_session\<close>; both addresses are null pointers until \<open>session_init\<close>.\<close>

definition the_session :: "string \<Rightarrow> vsf_session" where
  "the_session input =
     \<lparr>p_local_addr = vsf_sysutil_sockaddr_alloc, p_remote_addr = vsf_sysutil_sockaddr_alloc,
      pasv_listen_fd = -1, parent_listen_fd = -1, p_port_sockaddr = None, data_fd = -1, data_progress = False,
      bw_rate_max = 0, is_anonymous = True, is_guest = False, user_str = [], anon_pass_str = [], restart_pos = 0,
      is_ascii = True, rnfr_filename_str = [], abor_received = False, epsv_all = False, is_http = False,
      http_get_arg = [], p_visited_dir_list = None, anon_ftp_uid = -1, guest_user_uid = -1, anon_upload_chown_uid = -1,
      banned_email_str = [], email_passwords_str = [], userlist_str = [], banner_str = [], tcp_wrapper_ok = True,
      xferlog_fd = -1, vsftpd_log_fd = -1, remote_ip_str = [], log_type = None, log_start_sec = 0, log_start_usec = 0,
      log_str = [], transfer_size = 0, ftp_cmd_str = [], ftp_arg_str = [], num_clients = 0, num_this_ip = 0,
      home_str = [], control_use_ssl = False, data_use_ssl = False, p_data_ssl = False, ssl_slave_active = False,
      login_fails = 0, s_access_str = [], s_hide_str = [], s_current_umask = 0, control_in = input, trace = []\<rparr>"

section \<open>Configuration\<close>

text \<open>The character at an index of a C string.\<close>

definition char_at :: "string \<Rightarrow> nat \<Rightarrow> char" where
  "char_at p i = (if i < length p then p ! i else NUL)"

text \<open>The loop over the arguments; the result tells whether a file was loaded. \<open>uid\<close> is the user that runs the server.\<close>

fun parse_args :: "(nat \<Rightarrow> bool) \<Rightarrow> file_system \<Rightarrow> int \<Rightarrow> parseconf_state \<Rightarrow> bool \<Rightarrow> string list \<Rightarrow> (parseconf_state \<times> bool) result" where
  "parse_args avail fs uid st config_loaded [] = Inr (st, config_loaded)"
| "parse_args avail fs uid st config_loaded (p_arg # args) =
     (if char_at p_arg 0 \<noteq> CHR ''-''
      then andthen (vsf_parseconf_load_file avail fs uid st (Some p_arg) True) (\<lambda>st. parse_args avail fs uid st True args)
      else if char_at p_arg 1 = CHR ''v'' then Inl (Exit 0)
      else if char_at p_arg 1 = CHR ''o''
      then andthen (vsf_parseconf_load_setting avail (parseconf_state.tun st) (drop 2 p_arg) True) (\<lambda>t.
           parse_args avail fs uid (st\<lparr>parseconf_state.tun := t\<rparr>) config_loaded args)
      else die2 ''unrecognise option: '' p_arg)"

definition VSFTP_DEFAULT_CONFIG :: string where
  "VSFTP_DEFAULT_CONFIG = ''/etc/vsftpd.conf''"

definition resolve_pasv_address :: "start_env \<Rightarrow> tunables \<Rightarrow> tunables result" where
  "resolve_pasv_address w t =
     (case t_str t ''pasv_address'' of
        None \<Rightarrow> Inr t
      | Some a \<Rightarrow>
          if t_bool t ''pasv_addr_resolve''
          then andthen (l_resolve w a) (\<lambda>n. Inr (t\<lparr>t_str := (t_str t)(''pasv_address'' \<mapsto> n)\<rparr>)) else Inr t)"

definition load_config :: "(nat \<Rightarrow> bool) \<Rightarrow> start_env \<Rightarrow> int \<Rightarrow> parseconf_state \<Rightarrow> parseconf_state result" where
  "load_config avail w uid st =
     (case argv w of
        None \<Rightarrow> die ''vsftpd: missing argv[0]''
      | Some args \<Rightarrow>
          andthen (parse_args avail (l_files w) uid st False args) (\<lambda>(st, config_loaded).
          andthen (if \<not> config_loaded \<and> l_files w VSFTP_DEFAULT_CONFIG \<noteq> None
                   then vsf_parseconf_load_file avail (l_files w) uid st (Some VSFTP_DEFAULT_CONFIG) True else Inr st) (\<lambda>st.
          andthen (resolve_pasv_address w (parseconf_state.tun st)) (\<lambda>t. Inr (st\<lparr>parseconf_state.tun := t\<rparr>)))))"

section \<open>Checks\<close>

definition die_unless_privileged :: "cred \<Rightarrow> unit result" where
  "die_unless_privileged c =
     (if \<not> vsf_sysutil_running_as_root c then die ''vsftpd: must be started as root (see run_as_launching_user option)''
      else Inr ())"

definition do_sanity_checks :: "host \<Rightarrow> tunables \<Rightarrow> bool \<Rightarrow> unit result" where
  "do_sanity_checks h t is_socket =
     (if \<not> is_socket then die ''vsftpd: not configured for standalone, must be started from inetd''
      else if t_bool t ''one_process_model'' \<and> t_bool t ''local_enable''
      then die ''vsftpd: security: 'one_process_model' is anonymous only''
      else if t_bool t ''one_process_model'' \<and> \<not> vsf_sysdep_has_capabilities_as_non_root h
      then die ''vsftpd: security: 'one_process_model' needs a better OS''
      else if \<not> t_bool t ''local_enable'' \<and> \<not> t_bool t ''anonymous_enable''
      then die ''vsftpd: both local and anonymous access disabled!''
      else if \<not> t_bool t ''ftp_enable'' \<and> \<not> t_bool t ''http_enable'' then die ''vsftpd: both FTP and HTTP disabled!''
      else if t_bool t ''http_enable'' \<and> \<not> t_bool t ''one_process_model''
      then die ''vsftpd: HTTP needs 'one_process_model' for now''
      else Inr ())"

section \<open>The session\<close>

text \<open>The uid of a user that the configuration names.\<close>

definition named_uid :: "host \<Rightarrow> tunables \<Rightarrow> string \<Rightarrow> string \<Rightarrow> int result" where
  "named_uid h t var p_text =
     andthen (text_of t var) (\<lambda>n. case getpwnam h n of None \<Rightarrow> die2 p_text n | Some p_user \<Rightarrow> Inr (pw_uid p_user))"

text \<open>A value that the session gets if the configuration asks for it.\<close>

definition put_if :: "bool \<Rightarrow> 'a result \<Rightarrow> ('a \<Rightarrow> vsf_session \<Rightarrow> vsf_session) \<Rightarrow> vsf_session \<Rightarrow> vsf_session result" where
  "put_if b m f s = (if b then andthen m (\<lambda>x. Inr (f x s)) else Inr s)"

definition session_init :: "start_env \<Rightarrow> host \<Rightarrow> tunables \<Rightarrow> vsf_session \<Rightarrow> vsf_session result" where
  "session_init w h t s =
     andthen (put_if (t_bool t ''anonymous_enable'')
                (named_uid h t ''ftp_username'' ''vsftpd: cannot locate user specified in 'ftp_username':'')
                (\<lambda>u s. s\<lparr>anon_ftp_uid := u\<rparr>) (s\<lparr>p_remote_addr := l_remote w, p_local_addr := l_local w\<rparr>)) (\<lambda>s.
     andthen (put_if (t_bool t ''guest_enable'')
                (named_uid h t ''guest_username'' ''vsftpd: cannot locate user specified in 'guest_username':'')
                (\<lambda>u s. s\<lparr>guest_user_uid := u\<rparr>) s) (\<lambda>s.
     put_if (t_bool t ''chown_uploads'')
       (named_uid h t ''chown_username'' ''vsftpd: cannot locate user specified in 'chown_username':'')
       (\<lambda>u s. s\<lparr>anon_upload_chown_uid := u\<rparr>) s))"

definition VSFTP_SECURE_UMASK :: nat where
  "VSFTP_SECURE_UMASK = 63"

text \<open>Of \<open>env_init\<close>, what later code depends on: the umask.\<close>

definition env_init :: "vsf_session \<Rightarrow> vsf_session" where
  "env_init s = s\<lparr>s_current_umask := VSFTP_SECURE_UMASK\<rparr>"

text \<open>The limit on the address space that \<open>limits_init\<close> sets.\<close>

definition limits_init :: "tunables \<Rightarrow> nat" where
  "limits_init t = (let limit = 100 * 1024 * 1024 in if t_bool t ''text_userdb_names'' then limit * 3 else limit)"

definition open_log :: "start_env \<Rightarrow> tunables \<Rightarrow> string \<Rightarrow> string \<Rightarrow> int result" where
  "open_log w t var p_text =
     andthen (text_of t var) (\<lambda>f.
     let retval = l_open_log w f in if vsf_sysutil_retval_is_error retval then die2 p_text f else Inr retval)"

definition vsf_log_init :: "start_env \<Rightarrow> tunables \<Rightarrow> vsf_session \<Rightarrow> vsf_session result" where
  "vsf_log_init w t s =
     (let dual = t_bool t ''dual_log_enable''; std = t_bool t ''xferlog_std_format'' in
      if \<not> t_bool t ''xferlog_enable'' \<and> \<not> dual then Inr s
      else andthen (put_if (dual \<or> std) (open_log w t ''xferlog_file'' ''failed to open xferlog log file:'')
                      (\<lambda>fd s. s\<lparr>xferlog_fd := fd\<rparr>) s) (\<lambda>s.
           put_if ((dual \<or> \<not> std) \<and> \<not> t_bool t ''syslog_enable'')
             (open_log w t ''vsftpd_log_file'' ''failed to open vsftpd log file:'') (\<lambda>fd s. s\<lparr>vsftpd_log_fd := fd\<rparr>) s))"

text \<open>The files that are read before the process may be confined.\<close>

definition load_lists :: "start_env \<Rightarrow> tunables \<Rightarrow> vsf_session \<Rightarrow> vsf_session result" where
  "load_lists w t s =
     andthen (put_if (t_bool t ''deny_email_enable'')
                (load_text (l_files w) t ''banned_email_file'' ''cannot read anon e-mail list file:'')
                (\<lambda>x s. s\<lparr>banned_email_str := x\<rparr>) s) (\<lambda>s.
     andthen (put_if (t_str t ''banner_file'' \<noteq> None) (load_text (l_files w) t ''banner_file'' ''cannot read banner file:'')
                (\<lambda>x s. s\<lparr>banner_str := x\<rparr>) s) (\<lambda>s.
     put_if (t_bool t ''secure_email_list_enable'')
       (load_text (l_files w) t ''email_password_file'' ''cannot read email passwords file:'')
       (\<lambda>x s. s\<lparr>email_passwords_str := x\<rparr>) s))"

definition vsf_tcp_wrapper_ok :: "start_env \<Rightarrow> bool" where
  "vsf_tcp_wrapper_ok w = hosts_access w"

section \<open>Starting\<close>

definition set_bool :: "string \<Rightarrow> bool \<Rightarrow> tunables \<Rightarrow> tunables" where
  "set_bool n b t = t\<lparr>t_bool := (t_bool t)(n := b)\<rparr>"

definition launching_user :: "cred \<Rightarrow> tunables \<Rightarrow> tunables" where
  "launching_user c t =
     (if t_bool t ''run_as_launching_user''
      then let t = set_bool ''one_process_model'' True t in
           if \<not> vsf_sysutil_running_as_root c
           then set_bool ''chown_uploads'' False (set_bool ''connect_from_port_20'' False t) else t
      else t)"

text \<open>\<open>main\<close> up to the configuration: privileges, the listener, TCP wrappers and the file they may name.\<close>

definition main_config ::
  "(nat \<Rightarrow> bool) \<Rightarrow> start_env \<Rightarrow> cred \<Rightarrow> string \<Rightarrow> (parseconf_state \<times> vsf_session) result" where
  "main_config avail w c input =
     andthen (load_config avail w (ruid c) \<lparr>saved_filename = None, parseconf_state.tun = tunables_load_defaults\<rparr>) (\<lambda>st.
     let t = parseconf_state.tun st in
     andthen (if t_bool t ''run_as_launching_user'' then Inr () else die_unless_privileged c) (\<lambda>_.
     andthen (put_if (t_bool t ''listen'' \<or> t_bool t ''listen_ipv6'') (l_listener w t)
                (\<lambda>r s. s\<lparr>num_clients := num_children r, vsf_session.num_this_ip := vsf_client_launch.num_this_ip r\<rparr>)
                (the_session input)) (\<lambda>s.
     andthen (case l_load_conf w of None \<Rightarrow> Inr st | Some f \<Rightarrow> vsf_parseconf_load_file avail (l_files w) (ruid c) st (Some f) True) (\<lambda>st.
     Inr (st, if t_bool t ''tcp_wrappers'' then s\<lparr>tcp_wrapper_ok := vsf_tcp_wrapper_ok w\<rparr> else s)))))"

text \<open>The rest, up to the start of a process model: the session, and the limit on the address space.\<close>

definition main_session :: "start_env \<Rightarrow> host \<Rightarrow> cred \<Rightarrow> tunables \<Rightarrow> vsf_session \<Rightarrow> (tunables \<times> vsf_session \<times> nat) result" where
  "main_session w h c t s =
     andthen (do_sanity_checks h t (stdin_is_socket w)) (\<lambda>_.
     andthen (session_init w h t s) (\<lambda>s.
     andthen (vsf_log_init w t (env_init s)) (\<lambda>s.
     andthen (load_lists w t (s\<lparr>remote_ip_str := l_ntop w (p_remote_addr s)\<rparr>)) (\<lambda>s.
     Inr (launching_user c t, s, limits_init t)))))"

definition main_start ::
  "(nat \<Rightarrow> bool) \<Rightarrow> start_env \<Rightarrow> host \<Rightarrow> cred \<Rightarrow> string \<Rightarrow> (parseconf_state \<times> vsf_session \<times> nat) result" where
  "main_start avail w h c input =
     andthen (main_config avail w c input) (\<lambda>(st, s).
     andthen (main_session w h c (parseconf_state.tun st) s) (\<lambda>(t, s, limit). Inr (st\<lparr>parseconf_state.tun := t\<rparr>, s, limit)))"

section \<open>What a start guarantees\<close>

lemma parse_args_append:
  "parse_args avail fs uid st b (xs @ ys) =
     andthen (parse_args avail fs uid st b xs) (\<lambda>(st, b). parse_args avail fs uid st b ys)"
proof (induction xs arbitrary: st b)
  case (Cons x xs)
  have assoc: "andthen (andthen m f) g = andthen m (\<lambda>a. andthen (f a) g)" for m :: "'a result" and f :: "'a \<Rightarrow> 'b result" and g :: "'b \<Rightarrow> 'c result"
    by (cases m) auto
  show ?case by (simp add: Cons.IH assoc halt_simps cong: andthen_cong)
qed simp

lemma parse_args_options:
  "list_all (\<lambda>x. item_ok x \<and> \<not> is_note x) xs \<Longrightarrow> \<forall>n \<le> 100000. avail n \<Longrightarrow>
   parse_args avail fs uid st b (map (\<lambda>x. ''-o'' @ item_line x) xs) =
     Inr (st\<lparr>parseconf_state.tun := foldl item_apply (parseconf_state.tun st) xs\<rparr>, b)"
  by (induction xs arbitrary: st) (simp_all add: char_at_def load_item)

text \<open>
  The command line is read in order. Options \<^verbatim>\<open>-o\<close> with settings change exactly the variables they
  name, each on top of what came before it, and what follows on the command line, option or file, is read with that
  configuration.
\<close>

theorem options_in_order:
  assumes "list_all (\<lambda>x. item_ok x \<and> \<not> is_note x) xs" and "\<forall>n \<le> 100000. avail n" and "parse_args avail fs uid st b args = Inr (st1, b1)"
  shows "parse_args avail fs uid st b (args @ map (\<lambda>x. ''-o'' @ item_line x) xs @ rest) =
    parse_args avail fs uid (st1\<lparr>parseconf_state.tun := foldl item_apply (parseconf_state.tun st1) xs\<rparr>) b1 rest"
  using assms(3) parse_args_options [OF assms(1,2), of fs uid st1 b1] by (simp add: parse_args_append)

lemma options_in_order_witness:
  "parse_args (\<lambda>_. True) (\<lambda>_. None) 0 \<lparr>saved_filename = None, parseconf_state.tun = tunables_load_defaults\<rparr> False
     ([] @ map (\<lambda>x. ''-o'' @ item_line x) [ConfBool ''listen'' True ''YES'', ConfUint ''max_clients'' 9] @ [''-v'']) =
   parse_args (\<lambda>_. True) (\<lambda>_. None) 0 \<lparr>saved_filename = None, parseconf_state.tun =
     foldl item_apply tunables_load_defaults [ConfBool ''listen'' True ''YES'', ConfUint ''max_clients'' 9]\<rparr> False
     [''-v'']"
  using options_in_order [of "[ConfBool ''listen'' True ''YES'', ConfUint ''max_clients'' 9]" "\<lambda>_. True" "\<lambda>_. None" 0
      "\<lparr>saved_filename = None, parseconf_state.tun = tunables_load_defaults\<rparr>" False "[]"
      "\<lparr>saved_filename = None, parseconf_state.tun = tunables_load_defaults\<rparr>" False "[''-v'']"]
  by (simp add: parseconf_bool_array_def parseconf_uint_array_def is_note_def str_upper_def vsf_sysutil_toupper_def
      del: item_apply.simps)

text \<open>Facts about the parts of \<open>main\<close>.\<close>

lemma sanity_checked:
  "do_sanity_checks h t sock = Inr u \<longleftrightarrow>
     sock \<and> (t_bool t ''one_process_model'' \<longrightarrow> \<not> t_bool t ''local_enable'' \<and> kernel_keepcaps h) \<and>
     (t_bool t ''local_enable'' \<or> t_bool t ''anonymous_enable'') \<and> (t_bool t ''ftp_enable'' \<or> t_bool t ''http_enable'') \<and>
     (t_bool t ''http_enable'' \<longrightarrow> t_bool t ''one_process_model'')"
  by (auto simp: do_sanity_checks_def halt_simps vsf_sysdep_has_capabilities_as_non_root_def)

definition is_uid_of :: "host \<Rightarrow> tunables \<Rightarrow> string \<Rightarrow> int \<Rightarrow> bool" where
  "is_uid_of h t var i \<longleftrightarrow> (\<exists>n u. text_of t var = Inr n \<and> getpwnam h n = Some u \<and> i = pw_uid u)"

lemma named_uid_Inr: "named_uid h t var p = Inr i \<longleftrightarrow> is_uid_of h t var i"
  by (auto simp: named_uid_def is_uid_of_def andthen_Inr_iff halt_simps split: option.splits)

lemma put_if_Inr: "put_if b m f s = Inr s' \<longleftrightarrow> (if b then \<exists>x. m = Inr x \<and> s' = f x s else s' = s)"
  by (auto simp: put_if_def andthen_Inr_iff)

lemma put_if_same: "put_if b m f s = Inr s' \<Longrightarrow> (\<And>x. g (f x s) = g s) \<Longrightarrow> g s' = g s"
  by (auto simp: put_if_Inr split: if_splits)

text \<open>What \<open>main\<close> finds out about the other end and about the users, and the steps that leave this alone.\<close>

definition peer :: "vsf_session \<Rightarrow> sockaddr \<times> sockaddr \<times> int \<times> int \<times> bool \<times> nat" where
  "peer s = (p_remote_addr s, p_local_addr s, anon_ftp_uid s, anon_upload_chown_uid s, tcp_wrapper_ok s, s_current_umask s)"

lemma session_initialised:
  assumes "session_init w h t s = Inr s'"
  shows "\<exists>a u. peer s' = (l_remote w, l_local w, a, u, tcp_wrapper_ok s, s_current_umask s) \<and>
    (if t_bool t ''anonymous_enable'' then is_uid_of h t ''ftp_username'' a else a = anon_ftp_uid s) \<and>
    (if t_bool t ''chown_uploads'' then is_uid_of h t ''chown_username'' u else u = anon_upload_chown_uid s)"
proof -
  let ?s = "s\<lparr>p_remote_addr := l_remote w, p_local_addr := l_local w\<rparr>"
  obtain s1 s2 where
    1: "put_if (t_bool t ''anonymous_enable'') (named_uid h t ''ftp_username'' ''vsftpd: cannot locate user specified in 'ftp_username':'')
      (\<lambda>u s. s\<lparr>anon_ftp_uid := u\<rparr>) ?s = Inr s1"
    and 2: "put_if (t_bool t ''guest_enable'') (named_uid h t ''guest_username'' ''vsftpd: cannot locate user specified in 'guest_username':'')
      (\<lambda>u s. s\<lparr>guest_user_uid := u\<rparr>) s1 = Inr s2"
    and 3: "put_if (t_bool t ''chown_uploads'') (named_uid h t ''chown_username'' ''vsftpd: cannot locate user specified in 'chown_username':'')
      (\<lambda>u s. s\<lparr>anon_upload_chown_uid := u\<rparr>) s2 = Inr s'"
    using assms by (auto simp only: session_init_def andthen_Inr_iff)
  have p1: "\<exists>a. peer s1 = (l_remote w, l_local w, a, anon_upload_chown_uid s, tcp_wrapper_ok s, s_current_umask s) \<and>
      (if t_bool t ''anonymous_enable'' then is_uid_of h t ''ftp_username'' a else a = anon_ftp_uid s)"
    using 1 by (auto simp: put_if_Inr named_uid_Inr peer_def split: if_splits)
  have p2: "peer s2 = peer s1" by (rule put_if_same [OF 2]) (simp add: peer_def)
  show ?thesis using p1 3 unfolding p2 [symmetric] by (auto simp: put_if_Inr named_uid_Inr peer_def split: if_splits)
qed

lemma log_init_peer: "vsf_log_init w t s = Inr s' \<Longrightarrow> peer s' = peer s"
  by (auto simp: vsf_log_init_def Let_def andthen_Inr_iff peer_def dest!: put_if_same [where g = peer] split: if_splits)

lemma load_lists_peer: "load_lists w t s = Inr s' \<Longrightarrow> peer s' = peer s"
  by (auto simp: load_lists_def andthen_Inr_iff peer_def dest!: put_if_same [where g = peer])

lemma launching_user_bool:
  "t_bool (launching_user c t) ''run_as_launching_user'' = t_bool t ''run_as_launching_user''"
  "t_bool (launching_user c t) ''one_process_model'' = (t_bool t ''run_as_launching_user'' \<or> t_bool t ''one_process_model'')"
  "t_bool (launching_user c t) ''local_enable'' = t_bool t ''local_enable''"
  "t_bool (launching_user c t) ''anonymous_enable'' = t_bool t ''anonymous_enable''"
  "t_bool (launching_user c t) ''ftp_enable'' = t_bool t ''ftp_enable''"
  "t_bool (launching_user c t) ''http_enable'' = t_bool t ''http_enable''"
  "t_str (launching_user c t) = t_str t"
  by (auto simp: launching_user_def set_bool_def Let_def)

lemma main_config_checked:
  assumes "main_config avail w c input = Inr (st, s)"
  shows "s_current_umask s = 0 \<and> (tcp_wrapper_ok s \<or> \<not> hosts_access w) \<and>
    (if l_load_conf w = None \<and> \<not> t_bool (parseconf_state.tun st) ''run_as_launching_user'' then ruid c = 0 else True)"
proof -
  obtain st0 s0 where s0: "put_if (t_bool (parseconf_state.tun st0) ''listen'' \<or> t_bool (parseconf_state.tun st0) ''listen_ipv6'')
        (l_listener w (parseconf_state.tun st0))
        (\<lambda>r s. s\<lparr>num_clients := num_children r, vsf_session.num_this_ip := vsf_client_launch.num_this_ip r\<rparr>) (the_session input) = Inr s0"
    and priv: "(if t_bool (parseconf_state.tun st0) ''run_as_launching_user'' then Inr () else die_unless_privileged c) = Inr ()"
    and st: "(case l_load_conf w of None \<Rightarrow> Inr st0 | Some f \<Rightarrow> vsf_parseconf_load_file avail (l_files w) (ruid c) st0 (Some f) True) = Inr st"
    and s: "s = (if t_bool (parseconf_state.tun st0) ''tcp_wrappers'' then s0\<lparr>tcp_wrapper_ok := vsf_tcp_wrapper_ok w\<rparr> else s0)"
    using assms by (auto simp only: main_config_def Let_def andthen_Inr_iff prod.inject sum.inject unit_eq)
  have "(tcp_wrapper_ok s0, s_current_umask s0) = (tcp_wrapper_ok (the_session input), s_current_umask (the_session input))"
    by (rule put_if_same [OF s0]) simp
  then have "tcp_wrapper_ok s0" "s_current_umask s0 = 0" by (simp_all add: the_session_def)
  then show ?thesis
    using priv st by (auto simp: s vsf_tcp_wrapper_ok_def die_unless_privileged_def vsf_sysutil_running_as_root_def halt_simps split: if_splits)
qed

lemma main_session_checked:
  assumes "main_session w h c t s = Inr (t', s', limit)"
  shows "t' = launching_user c t \<and> limit = limits_init t \<and> do_sanity_checks h t (stdin_is_socket w) = Inr () \<and>
    (\<exists>a u. peer s' = (l_remote w, l_local w, a, u, tcp_wrapper_ok s, VSFTP_SECURE_UMASK) \<and>
      (if t_bool t ''anonymous_enable'' then is_uid_of h t ''ftp_username'' a else a = anon_ftp_uid s) \<and>
      (if t_bool t ''chown_uploads'' then is_uid_of h t ''chown_username'' u else u = anon_upload_chown_uid s))"
proof -
  obtain s1 s2 where 1: "session_init w h t s = Inr s1" and 2: "vsf_log_init w t (env_init s1) = Inr s2"
    and 3: "load_lists w t (s2\<lparr>remote_ip_str := l_ntop w (p_remote_addr s2)\<rparr>) = Inr s'"
    and ok: "t' = launching_user c t" "limit = limits_init t" "do_sanity_checks h t (stdin_is_socket w) = Inr ()"
    using assms by (auto simp only: main_session_def andthen_Inr_iff prod.inject sum.inject unit_eq)
  have "peer s' = peer s2" using load_lists_peer [OF 3] by (simp add: peer_def)
  also have "\<dots> = peer (env_init s1)" by (rule log_init_peer [OF 2])
  finally show ?thesis using session_initialised [OF 1] ok by (auto simp: peer_def env_init_def)
qed

lemma text_of_launching [simp]: "text_of (launching_user c t) = text_of t"
  by (rule ext) (simp add: text_of_def launching_user_bool)

text \<open>
  C28: what holds when a process model is started. The control connection is a socket, and the session knows its two ends;
  somebody may log in and some protocol is enabled; HTTP comes with one process only; unless the launching user is kept, one
  process means no local logins and a kernel that keeps capabilities, and the server was started by root (if TCP
  wrappers did not add to the configuration); the session's uid of the anonymous user is that of \<open>ftp_username\<close>; no file is
  created accessible to others; and a host that TCP wrappers let in was let in.
\<close>

theorem start_checked:
  "case main_start avail w h c input of
     Inl stopped \<Rightarrow> True
   | Inr (st, s, limit) \<Rightarrow>
       let t = parseconf_state.tun st in
       stdin_is_socket w \<and> p_remote_addr s = l_remote w \<and> p_local_addr s = l_local w \<and>
       (t_bool t ''local_enable'' \<or> t_bool t ''anonymous_enable'') \<and> (t_bool t ''ftp_enable'' \<or> t_bool t ''http_enable'') \<and>
       (if t_bool t ''http_enable'' then t_bool t ''one_process_model'' else True) \<and>
       (if t_bool t ''run_as_launching_user'' then t_bool t ''one_process_model''
        else (if l_load_conf w = None then ruid c = 0 else True) \<and>
             (if t_bool t ''one_process_model'' then \<not> t_bool t ''local_enable'' \<and> kernel_keepcaps h else True)) \<and>
       (if t_bool t ''anonymous_enable'' then is_uid_of h t ''ftp_username'' (anon_ftp_uid s) else True) \<and>
       s_current_umask s = 63 \<and> (if hosts_access w then tcp_wrapper_ok s else True)"
proof (cases "main_start avail w h c input")
  case (Inr r)
  obtain st1 s1 t s limit where 1: "main_config avail w c input = Inr (st1, s1)"
    and 2: "main_session w h c (parseconf_state.tun st1) s1 = Inr (t, s, limit)"
    and r: "r = (st1\<lparr>parseconf_state.tun := t\<rparr>, s, limit)"
    using Inr by (auto simp: main_start_def andthen_Inr_iff)
  let ?t = "parseconf_state.tun st1"
  note session = main_session_checked [OF 2] and config = main_config_checked [OF 1]
  have t: "t = launching_user c ?t" using session by blast
  obtain a u where peer: "peer s = (l_remote w, l_local w, a, u, tcp_wrapper_ok s1, VSFTP_SECURE_UMASK)"
    and uid: "if t_bool ?t ''anonymous_enable'' then is_uid_of h ?t ''ftp_username'' a else a = anon_ftp_uid s1"
    using session by blast
  have sane: "do_sanity_checks h ?t (stdin_is_socket w) = Inr ()" using session by blast
  have s: "p_remote_addr s = l_remote w" "p_local_addr s = l_local w" "anon_ftp_uid s = a" "tcp_wrapper_ok s = tcp_wrapper_ok s1"
    "s_current_umask s = 63"
    using peer by (simp_all add: peer_def VSFTP_SECURE_UMASK_def)
  have user: "if t_bool ?t ''anonymous_enable'' then is_uid_of h t ''ftp_username'' a else True"
    using uid by (simp add: is_uid_of_def t split: if_splits)
  have wrapper: "if hosts_access w then tcp_wrapper_ok s1 else True" using config by auto
  have model: "if t_bool ?t ''run_as_launching_user'' then True
      else (if l_load_conf w = None then ruid c = 0 else True) \<and>
        (if t_bool ?t ''one_process_model'' then \<not> t_bool ?t ''local_enable'' \<and> kernel_keepcaps h else True)"
    using config sane [unfolded sanity_checked] by simp
  show ?thesis
    using sane [unfolded sanity_checked] user wrapper model
    by (auto simp: Inr r Let_def s t launching_user_bool)
qed simp

lemma main_start_session:
  assumes "main_start avail w h c input = Inr (st, s, limit)"
  obtains st1 :: parseconf_state and s1 where "main_session w h c (parseconf_state.tun st1) s1 = Inr (parseconf_state.tun st, s, limit)"
proof -
  obtain st1 s1 t where "main_session w h c (parseconf_state.tun st1) s1 = Inr (t, s, limit)" "st = st1\<lparr>parseconf_state.tun := t\<rparr>"
    using assms by (auto simp: main_start_def andthen_Inr_iff)
  then show thesis using that [of st1 s1] by simp
qed

text \<open>
  C9: one process. When the server is started in the model of one process, not as the launching user, by root, for a user
  \<open>ftp_username\<close> that is not root, on a kernel with capabilities (on one without, \<open>vsf_secutil_change_credentials\<close> would
  keep the process root when capabilities are wanted), then before the first byte from the client is read its process has the
  ids of this user and of nobody else and the capabilities that the configuration needs and no others; its root directory
  is the user's own directory or, from there, \<open>anon_root\<close>, and it cannot write it; it cannot start processes; and no local user
  can log in.
\<close>

theorem one_process_unprivileged:
  assumes "main_start avail w h c input = Inr (st, s, limit)" and "t = parseconf_state.tun st"
    and "t_bool t ''one_process_model''" and "\<not> t_bool t ''run_as_launching_user''" and "root_process c"
    and "not_root h (text_of t ''ftp_username'')" and "kernel_caps h" and "one_process_start t h c = Inr c'"
  shows "runs_as h (text_of t ''ftp_username'') (wanted_caps t) c' \<and>
    jailed h c False (text_of t ''ftp_username'') None
      (Some (case t_str t ''anon_root'' of None \<Rightarrow> [] | Some r \<Rightarrow> c_str r)) c' \<and> no_procs c' \<and> \<not> t_bool t ''local_enable''"
proof -
  obtain st1 :: parseconf_state and s1 where 2: "main_session w h c (parseconf_state.tun st1) s1 = Inr (t, s, limit)"
    by (rule main_start_session [OF assms(1), folded assms(2)])
  have sane: "\<not> t_bool t ''local_enable''" "kernel_keepcaps h"
    using main_session_checked [OF 2] assms(3,4) unfolding sanity_checked by (auto simp: launching_user_bool)
  obtain n where n: "text_of t ''ftp_username'' = Inr n"
    and cred: "vsf_secutil_change_credentials h n None (Some (case t_str t ''anon_root'' of None \<Rightarrow> [] | Some r \<Rightarrow> c_str r)) (wanted_caps t)
      \<lparr>OPTION_CHROOT = True, OPTION_USE_GROUPS = True, OPTION_CHANGE_EUID = False, OPTION_NO_FDS = False,
       OPTION_NO_PROCS = True\<rparr> c = Inr c'"
    using assms(4,8) unfolding one_process_start_def Let_def andthen_Inr_iff if_not_P [OF assms(4)] by blast
  from changed_credentials [OF cred assms(5) _ disjI2] assms(6,7) sane n show ?thesis by simp
qed

section \<open>A concrete start\<close>

definition inetd_launch :: "string list \<Rightarrow> start_env" where
  "inetd_launch args =
     \<lparr>argv = Some args, l_files = (\<lambda>_. None), l_resolve = (\<lambda>_. die ''resolve''), l_listener = (\<lambda>_. die ''listen''), hosts_access = True,
      l_load_conf = None, stdin_is_socket = True, l_remote = vsf_sysutil_sockaddr_alloc_ipv4,
      l_local = vsf_sysutil_sockaddr_alloc_ipv4, l_ntop = (\<lambda>_. []), l_open_log = (\<lambda>_. 5)\<rparr>"

definition option_args :: "string list \<Rightarrow> string list" where
  "option_args ns = map (\<lambda>n. ''-o'' @ item_line (ConfBool n True ''YES'')) ns"

definition with_options :: "string list \<Rightarrow> tunables" where
  "with_options ns = tunables_load_defaults\<lparr>t_bool := \<lambda>n. n \<in> set ns \<or> t_bool tunables_load_defaults n\<rparr>"

lemma with_options_bool: "t_bool (with_options ns) n \<longleftrightarrow> n \<in> set ns \<or> t_bool tunables_load_defaults n"
  by (simp add: with_options_def)

lemma with_options_str: "t_str (with_options ns) = t_str tunables_load_defaults"
  by (simp add: with_options_def)

lemma apply_options:
  "list_all (\<lambda>n. setting_var n = n) ns \<Longrightarrow>
   foldl item_apply t (map (\<lambda>n. ConfBool n True ''YES'') ns) = t\<lparr>t_bool := \<lambda>n. n \<in> set ns \<or> t_bool t n\<rparr>"
  by (induction ns arbitrary: t) (auto simp: fun_eq_iff intro!: arg_cong [where f = "\<lambda>b. t_bool_update b _" for t])

lemma install_all:
  "t_bool (fold (\<lambda>(var, p_value). install_str_setting p_value var) xs t) = t_bool t"
  "t_str (fold (\<lambda>(var, p_value). install_str_setting p_value var) xs t) n =
     (case map_of (rev xs) n of None \<Rightarrow> t_str t n | Some v \<Rightarrow> v)"
  by (induction xs arbitrary: t) (auto simp: install_str_setting_def map_add_def split: option.splits)

lemma default_string: "t_str tunables_load_defaults n = (case map_of (rev str_defaults) n of None \<Rightarrow> None | Some v \<Rightarrow> v)"
  by (simp add: tunables_load_defaults_def install_all split: option.splits)

lemma default_strings: "t_str tunables_load_defaults ''ftp_username'' = Some ''ftp''" "t_str tunables_load_defaults ''pasv_address'' = None"
  "t_str tunables_load_defaults ''banner_file'' = None" "t_str tunables_load_defaults ''anon_root'' = None"
  by (simp_all add: default_string str_defaults_def)

lemma default_bool: "t_bool tunables_load_defaults n \<longleftrightarrow> (case map_of bool_defaults n of None \<Rightarrow> False | Some b \<Rightarrow> b)"
  by (simp add: tunables_load_defaults_def install_all store_of_def)

lemma default_bool_values:
  "list_all (\<lambda>(n, b). map_of bool_defaults n = Some b)
    [(''listen'', False), (''listen_ipv6'', False), (''tcp_wrappers'', False), (''one_process_model'', False), (''local_enable'', False),
     (''anonymous_enable'', True), (''ftp_enable'', True), (''http_enable'', False), (''run_as_launching_user'', False),
     (''guest_enable'', False), (''chown_uploads'', False), (''connect_from_port_20'', False), (''xferlog_enable'', False),
     (''dual_log_enable'', False), (''deny_email_enable'', False), (''secure_email_list_enable'', False)]"
  by code_simp

lemmas default_bools = default_bool_values [unfolded list.pred_inject case_prod_conv]

lemma inetd_config:
  assumes "list_all (\<lambda>n. (n, n) \<in> set parseconf_bool_array) ns" and "ruid c = 0"
    and "''listen'' \<notin> set ns" and "''listen_ipv6'' \<notin> set ns" and "''tcp_wrappers'' \<notin> set ns" and "\<forall>n \<le> 100000. avail n"
  shows "main_config avail (inetd_launch (option_args ns)) c input =
    Inr (\<lparr>saved_filename = None, parseconf_state.tun = with_options ns\<rparr>, the_session input)"
proof -
  have "(n, n) \<in> set parseconf_bool_array \<Longrightarrow> n \<in> fst ` set parseconf_bool_array \<and> setting_var n = n" for n
    using table_vars(1) by (force intro: image_eqI [of _ _ "(n, n)"])
  then have "list_all (\<lambda>x. item_ok x \<and> \<not> is_note x) (map (\<lambda>n. ConfBool n True ''YES'') ns)" "list_all (\<lambda>n. setting_var n = n) ns"
    using assms(1) by (auto simp: list_all_iff is_note_def str_upper_def vsf_sysutil_toupper_def)
  with parse_args_options [of "map (\<lambda>n. ConfBool n True ''YES'') ns" avail] apply_options assms(6) have
    "parse_args avail (\<lambda>_. None) 0 \<lparr>saved_filename = None, parseconf_state.tun = tunables_load_defaults\<rparr> False (option_args ns) =
       Inr (\<lparr>saved_filename = None, parseconf_state.tun = with_options ns\<rparr>, False)"
    by (simp add: option_args_def with_options_def comp_def)
  then show ?thesis
    using assms(2-5)
    by (simp add: default_bool default_bools main_config_def load_config_def inetd_launch_def resolve_pasv_address_def with_options_str default_strings put_if_def
        with_options_bool die_unless_privileged_def vsf_sysutil_running_as_root_def)
qed

text \<open>A session for which nothing but the anonymous user is looked up.\<close>

lemma inetd_session:
  assumes "list_all (\<lambda>n. n \<in> {''one_process_model'', ''local_enable'', ''run_as_launching_user''}) ns"
    and "\<not> (''one_process_model'' \<in> set ns \<and> ''local_enable'' \<in> set ns)"
  shows "\<exists>s. main_session (inetd_launch args) plain_host c (with_options ns) s0 =
    Inr (launching_user c (with_options ns), s, limits_init (with_options ns))"
proof -
  have off: "n \<notin> set ns" if "n \<notin> {''one_process_model'', ''local_enable'', ''run_as_launching_user''}" for n
    using assms(1) that by (auto simp: list_all_iff)
  have sane: "do_sanity_checks plain_host (with_options ns) True = Inr ()"
    unfolding sanity_checked using assms(2)
    by (simp add: with_options_bool default_bool default_bools off plain_host_def)
  have "text_of (with_options ns) ''ftp_username'' = Inr ''ftp''" by (simp add: text_of_def with_options_str default_strings)
  then show ?thesis
    using sane
    by (simp add: main_session_def inetd_launch_def session_init_def put_if_def with_options_bool default_bool default_bools off
        named_uid_def plain_host_def vsf_log_init_def load_lists_def with_options_str default_strings)
qed

lemma one_process_unprivileged_witness:
  "\<exists>st s limit c'. main_start (\<lambda>_. True) (inetd_launch (option_args [''one_process_model''])) plain_host root_cred [] = Inr (st, s, limit) \<and>
    one_process_start (parseconf_state.tun st) plain_host root_cred = Inr c' \<and>
    runs_as plain_host (Inr ''ftp'') {} c' \<and> root_dir c' = ''/srv/ftp'' \<and> no_procs c'"
proof -
  let ?t = "with_options [''one_process_model'']" and ?w = "inetd_launch (option_args [''one_process_model''])"
  have t: "launching_user root_cred ?t = ?t" and caps: "wanted_caps ?t = {}"
    by (simp_all add: launching_user_def with_options_bool default_bool default_bools wanted_caps_def)
  have user: "text_of ?t ''ftp_username'' = Inr ''ftp''" by (simp add: text_of_def with_options_str default_strings)
  have config: "main_config (\<lambda>_. True) ?w root_cred [] = Inr (\<lparr>saved_filename = None, parseconf_state.tun = ?t\<rparr>, the_session [])"
    by (rule inetd_config) (simp_all add: parseconf_bool_array_def root_cred_def)
  obtain s where "main_session ?w plain_host root_cred ?t (the_session []) = Inr (?t, s, limits_init ?t)"
    using inetd_session [of "[''one_process_model'']" "option_args [''one_process_model'']" root_cred "the_session []"] t by auto
  with config have start: "main_start (\<lambda>_. True) ?w plain_host root_cred [] =
      Inr (\<lparr>saved_filename = None, parseconf_state.tun = ?t\<rparr>, s, limits_init ?t)"
    by (simp add: main_start_def)
  obtain c' where run: "one_process_start ?t plain_host root_cred = Inr c'"
    by (simp add: one_process_start_def user with_options_bool default_bool default_bools with_options_str default_strings caps
        run_defs Let_def)
  have "t_bool ?t ''one_process_model''" "\<not> t_bool ?t ''run_as_launching_user''" "kernel_caps plain_host"
    by (simp_all add: with_options_bool default_bool default_bools plain_host_def)
  from one_process_unprivileged [OF start _ this(1,2) root_cred_root plain_not_root this(3) run] start run show ?thesis
    by (auto simp: user caps jailed_def sent_to_def on_to_def first_dir_def with_options_str default_strings)
       (auto simp: plain_host_def c_str_def)
qed

text \<open>
  The check that one process is anonymous only comes before \<open>run_as_launching_user\<close> chooses one process: with that option local
  logins stay enabled.
\<close>

lemma launching_user_keeps_local:
  "\<exists>st s limit. main_start (\<lambda>_. True) (inetd_launch (option_args [''local_enable'', ''run_as_launching_user''])) plain_host root_cred [] =
      Inr (st, s, limit) \<and> t_bool (parseconf_state.tun st) ''one_process_model'' \<and> t_bool (parseconf_state.tun st) ''local_enable''"
proof -
  let ?ns = "[''local_enable'', ''run_as_launching_user'']"
  have config: "main_config (\<lambda>_. True) (inetd_launch (option_args ?ns)) root_cred [] =
      Inr (\<lparr>saved_filename = None, parseconf_state.tun = with_options ?ns\<rparr>, the_session [])"
    by (rule inetd_config) (simp_all add: parseconf_bool_array_def root_cred_def)
  obtain s where "main_session (inetd_launch (option_args ?ns)) plain_host root_cred (with_options ?ns) (the_session []) =
      Inr (launching_user root_cred (with_options ?ns), s, limits_init (with_options ?ns))"
    using inetd_session [of ?ns "option_args ?ns" root_cred "the_session []"] by auto
  then show ?thesis
    using config by (auto simp: main_start_def launching_user_bool with_options_bool)
qed

end
