(* ===== verification/Auth.thy ===== *)
theory Auth
  imports Sysutil Tunables
begin

text \<open>
  Authentication in \<^verbatim>\<open>sysdeputil.c\<close>: \<open>vsf_sysdep_check_auth\<close> with PAM, which the repository builds, its conversation function,
  the clean-up at exit and the records of logins (\<open>utmp\<close>). This is what answers the request \<open>CheckAuth\<close> of a session. The PAM library is
  a parameter: what a call returns may depend on all calls before it.
\<close>

section \<open>PAM\<close>

datatype msg_style = PAM_PROMPT_ECHO_OFF | PAM_PROMPT_ECHO_ON | PAM_TEXT_INFO | PAM_ERROR_MSG | PAM_OTHER

datatype pam_item = PAM_RHOST | PAM_TTY | PAM_RUSER

datatype pam_call =
    PamStart string string
  | PamSetItem pam_item string
  | PamAuthenticate "string option list option"
  | PamGetUser
  | PamAcctMgmt
  | PamEstablishCred
  | PamDeleteCred
  | PamOpenSession
  | PamCloseSession
  | PamEnd int

abbreviation PAM_SUCCESS :: int where "PAM_SUCCESS \<equiv> 0"

text \<open>
  \<open>pam_ret\<close>: the result of a call, after the calls before it (newest first). \<open>pam_styles\<close>: the messages that the modules show while
  they authenticate (none: they hold no conversation). \<open>pam_user\<close>: the item \<^verbatim>\<open>PAM_USER\<close>, \<open>None\<close> for a null pointer.
\<close>

record pam =
  pam_ret :: "pam_call list \<Rightarrow> pam_call \<Rightarrow> int"
  pam_styles :: "pam_call list \<Rightarrow> msg_style list"
  pam_user :: "pam_call list \<Rightarrow> string option"

text \<open>
  The static variables: whether \<open>s_pamh\<close> is a handle, the password for the conversation, whether the clean-up is registered for the
  exit; the calls of PAM; and the login records.
\<close>

datatype ut_type = USER_PROCESS | DEAD_PROCESS

record utent =
  ut_type :: ut_type
  ut_line :: string
  ut_user :: string
  ut_host :: string

record auth =
  s_pamh :: bool
  s_pword_str :: string
  exit_func :: bool
  calls :: "pam_call list"
  s_uwtmp_inserted :: bool
  s_utent :: utent
  uwtmp :: "utent list"

section \<open>Login records\<close>

text \<open>The sizes of the fields of \<open>struct utmpx\<close> (Linux). Times and the process number, which \<open>ut_line\<close> has, are left out of the record.\<close>

abbreviation UT_LINESIZE :: nat where "UT_LINESIZE \<equiv> 32"
abbreviation UT_NAMESIZE :: nat where "UT_NAMESIZE \<equiv> 32"
abbreviation UT_HOSTSIZE :: nat where "UT_HOSTSIZE \<equiv> 256"

text \<open>The C string that \<open>vsf_sysutil_strcpy\<close> leaves in a buffer of \<open>maxsize\<close> bytes, more than 0.\<close>

definition vsf_sysutil_strcpy :: "string \<Rightarrow> nat \<Rightarrow> string" where
  "vsf_sysutil_strcpy p_src maxsize = take (maxsize - 1) (c_str p_src)"

text \<open>\<open>pututxline\<close> and \<open>updwtmpx\<close> write the record.\<close>

definition put_utent :: "utent \<Rightarrow> auth \<Rightarrow> auth" where
  "put_utent u st = st\<lparr>s_utent := u, uwtmp := u # uwtmp st\<rparr>"

definition vsf_insert_uwtmp :: "nat \<Rightarrow> string \<Rightarrow> string \<Rightarrow> auth \<Rightarrow> auth result" where
  "vsf_insert_uwtmp pid p_user_str p_host_str st =
     (if s_uwtmp_inserted st then bug ''vsf_insert_uwtmp''
      else let line_str = ''vsftpd:'' @ vsf_sysutil_ulong_to_str pid in
           if length line_str \<ge> UT_LINESIZE then Inr st
           else Inr (put_utent \<lparr>ut_type = USER_PROCESS, ut_line = vsf_sysutil_strcpy line_str UT_LINESIZE,
                        ut_user = vsf_sysutil_strcpy p_user_str UT_NAMESIZE, ut_host = vsf_sysutil_strcpy p_host_str UT_HOSTSIZE\<rparr>
                      (st\<lparr>s_uwtmp_inserted := True\<rparr>)))"

definition vsf_remove_uwtmp :: "auth \<Rightarrow> auth" where
  "vsf_remove_uwtmp st =
     (if \<not> s_uwtmp_inserted st then st
      else put_utent ((s_utent st)\<lparr>ut_type := DEAD_PROCESS, ut_user := [], ut_host := []\<rparr>) (st\<lparr>s_uwtmp_inserted := False\<rparr>))"

section \<open>The conversation\<close>

text \<open>
  \<open>pam_conv_func\<close>: the responses, \<open>None\<close> for \<^verbatim>\<open>PAM_CONV_ERR\<close>. The password goes to prompts that do not echo and nowhere else.
\<close>

fun pam_conv_func :: "string \<Rightarrow> msg_style list \<Rightarrow> string option list option" where
  "pam_conv_func pword [] = Some []"
| "pam_conv_func pword (m # ms) =
     (case m of
        PAM_PROMPT_ECHO_OFF \<Rightarrow> map_option ((#) (Some (c_str pword))) (pam_conv_func pword ms)
      | PAM_TEXT_INFO \<Rightarrow> map_option ((#) None) (pam_conv_func pword ms)
      | PAM_ERROR_MSG \<Rightarrow> map_option ((#) None) (pam_conv_func pword ms)
      | _ \<Rightarrow> None)"

section \<open>Checking a login\<close>

definition pam_do :: "pam_call \<Rightarrow> auth \<Rightarrow> auth" where
  "pam_do c st = st\<lparr>calls := c # calls st\<rparr>"

text \<open>A call that fails ends the attempt: the handle is given back with the error.\<close>

definition pam_end :: "int \<Rightarrow> auth \<Rightarrow> auth" where
  "pam_end retval st = (pam_do (PamEnd retval) st)\<lparr>s_pamh := False\<rparr>"

type_synonym verdict = "bool \<times> string \<times> auth"

definition attempt :: "pam \<Rightarrow> pam_call \<Rightarrow> string \<Rightarrow> (auth \<Rightarrow> verdict result) \<Rightarrow> auth \<Rightarrow> verdict result" where
  "attempt p c user k st =
     (let retval = pam_ret p (calls st) c; st = pam_do c st in
      if retval \<noteq> PAM_SUCCESS then Inr (False, user, pam_end retval st) else k st)"

definition open_session :: "pam \<Rightarrow> string \<Rightarrow> auth \<Rightarrow> verdict result" where
  "open_session p user st =
     (let retval = pam_ret p (calls st) PamOpenSession; st = pam_do PamOpenSession st in
      if retval \<noteq> PAM_SUCCESS then Inr (False, user, pam_end retval (pam_do PamDeleteCred (vsf_remove_uwtmp st)))
      else Inr (True, user, st\<lparr>exit_func := True\<rparr>))"

text \<open>The result: whether the login is right, the name as PAM leaves it, and the new state.\<close>

definition vsf_sysdep_check_auth ::
  "pam \<Rightarrow> nat \<Rightarrow> bool \<Rightarrow> string \<Rightarrow> string \<Rightarrow> string \<Rightarrow> string \<Rightarrow> auth \<Rightarrow> verdict result" where
  "vsf_sysdep_check_auth p pid session_support service p_user_str p_pass_str p_remote_host st =
     (let user = c_str p_user_str; start = PamStart service user in
      if s_pamh st then bug ''vsf_sysdep_check_auth''
      else let retval = pam_ret p (calls st) start; st = pam_do start (st\<lparr>s_pword_str := p_pass_str\<rparr>) in
      if retval \<noteq> PAM_SUCCESS then Inr (False, p_user_str, st)
      else
      attempt p (PamSetItem PAM_RHOST (c_str p_remote_host)) p_user_str (
      attempt p (PamSetItem PAM_TTY ''ftp'') p_user_str (
      attempt p (PamSetItem PAM_RUSER user) p_user_str (\<lambda>st.
      attempt p (PamAuthenticate (pam_conv_func (s_pword_str st) (pam_styles p (calls st)))) p_user_str (
      attempt p PamGetUser p_user_str (\<lambda>st.
      case pam_user p (calls st) of
        None \<Rightarrow> Inl Undef
      | Some pam_user_name \<Rightarrow>
          let user' = c_str pam_user_name in
          attempt p PamAcctMgmt user' (
          attempt p PamEstablishCred user' (\<lambda>st.
          if \<not> session_support then Inr (True, user', pam_end PAM_SUCCESS st)
          else andthen (vsf_insert_uwtmp pid user' p_remote_host st) (open_session p user'))) st)) st)))
        (st\<lparr>s_pamh := True\<rparr>))"

text \<open>\<open>vsf_auth_shutdown\<close>, which the exit of the process runs.\<close>

definition vsf_auth_shutdown :: "auth \<Rightarrow> auth result" where
  "vsf_auth_shutdown st =
     (if \<not> s_pamh st then bug ''vsf_auth_shutdown''
      else Inr (vsf_remove_uwtmp (pam_end PAM_SUCCESS (pam_do PamDeleteCred (pam_do PamCloseSession st)))))"

section \<open>How PAM wants to be used\<close>

text \<open>There is a handle after the calls \<open>cs\<close>: it was started and not ended yet.\<close>

fun live :: "pam \<Rightarrow> pam_call list \<Rightarrow> bool" where
  "live p [] = False"
| "live p (PamStart s u # cs) = (pam_ret p cs (PamStart s u) = PAM_SUCCESS)"
| "live p (PamEnd r # cs) = False"
| "live p (c # cs) = live p cs"

text \<open>A handle is started only when there is none, and nothing else is called without one.\<close>

fun disciplined :: "pam \<Rightarrow> pam_call list \<Rightarrow> bool" where
  "disciplined p [] = True"
| "disciplined p (PamStart s u # cs) = (\<not> live p cs \<and> disciplined p cs)"
| "disciplined p (c # cs) = (live p cs \<and> disciplined p cs)"

text \<open>
  The invariant of the static variables: the handle is there when PAM has one; no login is recorded without one; and the
  record says whether somebody is logged in.
\<close>

fun someone_in :: "utent list \<Rightarrow> bool" where
  "someone_in [] = False"
| "someone_in (u # us) = (ut_type u = USER_PROCESS)"

definition auth_ok :: "pam \<Rightarrow> auth \<Rightarrow> bool" where
  "auth_ok p st \<longleftrightarrow>
     disciplined p (calls st) \<and> s_pamh st = live p (calls st) \<and> (s_uwtmp_inserted st \<longrightarrow> s_pamh st) \<and>
     s_uwtmp_inserted st = someone_in (uwtmp st)"

text \<open>Between the start and the end of an attempt nobody is recorded.\<close>

definition trying :: "pam \<Rightarrow> auth \<Rightarrow> bool" where
  "trying p st \<longleftrightarrow> auth_ok p st \<and> s_pamh st \<and> \<not> s_uwtmp_inserted st"

definition plain_call :: "pam_call \<Rightarrow> bool" where
  "plain_call c = (case c of PamStart s u \<Rightarrow> False | PamEnd r \<Rightarrow> False | _ \<Rightarrow> True)"

lemma plain_call_live: "plain_call c \<Longrightarrow> live p (c # cs) = live p cs" "plain_call c \<Longrightarrow> disciplined p (c # cs) = (live p cs \<and> disciplined p cs)"
  by (cases c; simp add: plain_call_def)+

lemma pam_do_sels [simp]:
  "calls (pam_do c st) = c # calls st" "s_pamh (pam_do c st) = s_pamh st" "exit_func (pam_do c st) = exit_func st"
  "s_uwtmp_inserted (pam_do c st) = s_uwtmp_inserted st" "uwtmp (pam_do c st) = uwtmp st" "s_pword_str (pam_do c st) = s_pword_str st"
  "s_utent (pam_do c st) = s_utent st"
  by (simp_all add: pam_do_def)

lemma pam_end_sels [simp]:
  "calls (pam_end r st) = PamEnd r # calls st" "s_pamh (pam_end r st) = False" "exit_func (pam_end r st) = exit_func st"
  "s_uwtmp_inserted (pam_end r st) = s_uwtmp_inserted st" "uwtmp (pam_end r st) = uwtmp st"
  by (simp_all add: pam_end_def)

lemma trying_do: "trying p st \<Longrightarrow> plain_call c \<Longrightarrow> trying p (pam_do c st)"
  by (auto simp: trying_def auth_ok_def plain_call_live)

lemma trying_end: "trying p st \<Longrightarrow> auth_ok p (pam_end r st)"
  by (auto simp: trying_def auth_ok_def)

text \<open>An outcome that keeps the invariant, and keeps the handle only for a login with a session.\<close>

definition verdict_ok :: "pam \<Rightarrow> bool \<Rightarrow> bool \<Rightarrow> verdict result \<Rightarrow> bool" where
  "verdict_ok p session_support reg r =
     (case r of
        Inl h \<Rightarrow> True
      | Inr (ok, user, st') \<Rightarrow>
          auth_ok p st' \<and> s_pamh st' = (ok \<and> session_support) \<and> exit_func st' = (reg \<or> (ok \<and> session_support)))"

text \<open>\<open>reg\<close>: the clean-up was registered before.\<close>

definition midway :: "pam \<Rightarrow> bool \<Rightarrow> auth \<Rightarrow> bool" where
  "midway p reg st \<longleftrightarrow> trying p st \<and> exit_func st = reg"

lemma attempt_ok:
  assumes "plain_call c" and "\<And>st'. midway p reg st' \<Longrightarrow> verdict_ok p ss reg (k st')" and "midway p reg st"
  shows "verdict_ok p ss reg (attempt p c user k st)"
proof -
  have st: "trying p st" "exit_func st = reg" using assms(3) by (simp_all add: midway_def)
  from trying_do [OF st(1) assms(1)] have "midway p reg (pam_do c st)" by (simp add: midway_def st(2))
  from assms(2) [OF this] trying_end [OF trying_do [OF st(1) assms(1)]] st(2) show ?thesis
    by (simp add: attempt_def Let_def verdict_ok_def)
qed

lemma uwtmp_calls:
  "calls (vsf_remove_uwtmp st) = calls st" "vsf_insert_uwtmp pid u h st = Inr st' \<Longrightarrow> calls st' = calls st"
  by (auto simp: vsf_remove_uwtmp_def vsf_insert_uwtmp_def put_utent_def halt_simps Let_def split: if_splits)

lemma insert_ok:
  "trying p st \<Longrightarrow> vsf_insert_uwtmp pid u h st = Inr st' \<Longrightarrow> auth_ok p st' \<and> s_pamh st' \<and> exit_func st' = exit_func st"
  by (auto simp: vsf_insert_uwtmp_def trying_def auth_ok_def put_utent_def halt_simps Let_def split: if_splits)

lemma remove_ok:
  "auth_ok p st \<Longrightarrow> auth_ok p (vsf_remove_uwtmp st) \<and> \<not> s_uwtmp_inserted (vsf_remove_uwtmp st) \<and>
    s_pamh (vsf_remove_uwtmp st) = s_pamh st \<and> exit_func (vsf_remove_uwtmp st) = exit_func st"
  by (auto simp: vsf_remove_uwtmp_def auth_ok_def put_utent_def)

lemma do_ok: "auth_ok p st \<Longrightarrow> s_pamh st \<Longrightarrow> plain_call c \<Longrightarrow> auth_ok p (pam_do c st)"
  by (auto simp: auth_ok_def plain_call_live)

lemma open_session_ok:
  assumes "auth_ok p st" and "s_pamh st"
  shows "verdict_ok p True (exit_func st) (open_session p user st)"
proof -
  let ?st = "pam_do PamOpenSession st"
  have 1: "auth_ok p ?st" using assms by (rule do_ok) (simp add: plain_call_def)
  then have 2: "trying p (vsf_remove_uwtmp ?st)" using remove_ok [OF 1] assms(2) by (simp add: trying_def)
  then have "trying p (pam_do PamDeleteCred (vsf_remove_uwtmp ?st))" by (rule trying_do) (simp add: plain_call_def)
  from trying_end [OF this] 1 remove_ok [OF 1] assms(2) show ?thesis
    by (auto simp: open_session_def Let_def verdict_ok_def auth_ok_def)
qed

lemma finish_ok:
  assumes "midway p reg st"
  shows "verdict_ok p ss reg (if \<not> ss then Inr (True, user, pam_end PAM_SUCCESS st)
      else andthen (vsf_insert_uwtmp pid user host st) (open_session p user))"
proof (cases ss)
  case True
  have st: "trying p st" "exit_func st = reg" using assms by (simp_all add: midway_def)
  show ?thesis
  proof (cases "vsf_insert_uwtmp pid user host st")
    case (Inr st')
    with insert_ok [OF st(1) this] open_session_ok [of p st' user] st(2) True show ?thesis by simp
  qed (use True in \<open>simp add: verdict_ok_def\<close>)
qed (use assms in \<open>auto simp: midway_def verdict_ok_def dest: trying_end\<close>)

lemma verdict_case: "(\<And>x. o' = Some x \<Longrightarrow> verdict_ok p ss reg (f x)) \<Longrightarrow> verdict_ok p ss reg (case o' of None \<Rightarrow> Inl h | Some x \<Rightarrow> f x)"
  by (cases o') (simp_all add: verdict_ok_def)

lemma check_auth_ok:
  assumes "auth_ok p st" and "\<not> s_pamh st"
  shows "verdict_ok p ss (exit_func st) (vsf_sysdep_check_auth p pid ss service user pass host st)"
proof -
  let ?start = "PamStart service (c_str user)"
  let ?st = "pam_do ?start (st\<lparr>s_pword_str := pass\<rparr>)"
  have no: "verdict_ok p ss (exit_func st) (Inr (False, user, ?st))" if "pam_ret p (calls st) ?start \<noteq> PAM_SUCCESS"
    using assms that by (auto simp: verdict_ok_def auth_ok_def)
  have yes: "midway p (exit_func st) (?st\<lparr>s_pamh := True\<rparr>)" if "\<not> pam_ret p (calls st) ?start \<noteq> PAM_SUCCESS"
    using assms that by (auto simp: midway_def trying_def auth_ok_def)
  have plain: "plain_call (PamSetItem i x)" "plain_call (PamAuthenticate r)" "plain_call PamGetUser" "plain_call PamAcctMgmt"
    "plain_call PamEstablishCred" for i x r
    by (simp_all add: plain_call_def)
  have if_rule: "verdict_ok p ss reg (if b then x else y)"
    if "b \<Longrightarrow> verdict_ok p ss reg x" "\<not> b \<Longrightarrow> verdict_ok p ss reg y" for b reg x y
    using that by simp
  show ?thesis
    unfolding vsf_sysdep_check_auth_def Let_def if_not_P [OF assms(2)]
    by (rule if_rule, erule no, intro attempt_ok plain verdict_case finish_ok; (assumption | erule yes))
qed

text \<open>What PAM has to say for a login to be right.\<close>

definition pam_accepts :: "pam \<Rightarrow> pam_call list \<Rightarrow> string \<Rightarrow> string \<Rightarrow> string \<Rightarrow> string \<Rightarrow> bool" where
  "pam_accepts p cs service user pass host =
     (let c1 = PamStart service user # cs; c2 = PamSetItem PAM_RHOST host # c1; c3 = PamSetItem PAM_TTY ''ftp'' # c2;
          c4 = PamSetItem PAM_RUSER user # c3; c5 = PamAuthenticate (pam_conv_func pass (pam_styles p c4)) # c4;
          c6 = PamGetUser # c5; c7 = PamAcctMgmt # c6
      in list_all (\<lambda>c. pam_ret p (tl c) (hd c) = PAM_SUCCESS) [c1, c2, c3, c4, c5, c6, c7, PamEstablishCred # c7])"

lemma insert_Inr: "\<not> s_uwtmp_inserted st \<Longrightarrow> \<exists>st'. vsf_insert_uwtmp pid u h st = Inr st' \<and> calls st' = calls st"
  by (simp add: vsf_insert_uwtmp_def put_utent_def Let_def)

text \<open>The name that PAM has for the user after the authentication.\<close>

definition pam_name :: "pam \<Rightarrow> pam_call list \<Rightarrow> string \<Rightarrow> string \<Rightarrow> string \<Rightarrow> string \<Rightarrow> string option" where
  "pam_name p cs service user pass host =
     (let c4 = [PamSetItem PAM_RUSER user, PamSetItem PAM_TTY ''ftp'', PamSetItem PAM_RHOST host, PamStart service user] @ cs
      in map_option c_str (pam_user p ([PamGetUser, PamAuthenticate (pam_conv_func pass (pam_styles p c4))] @ c4)))"

lemma check_auth_accepts:
  assumes "vsf_sysdep_check_auth p pid ss service user pass host st = Inr (ok, user', st')" and "\<not> s_pamh st"
  shows "if ok then pam_accepts p (calls st) service (c_str user) pass (c_str host) \<and>
      pam_name p (calls st) service (c_str user) pass (c_str host) = Some user'
    else \<not> ss \<longrightarrow> \<not> pam_accepts p (calls st) service (c_str user) pass (c_str host)"
  using assms
  by (auto simp: vsf_sysdep_check_auth_def attempt_def open_session_def andthen_Inr_iff Let_def pam_accepts_def pam_name_def
      split: if_splits option.splits)

text \<open>What PAM holds for the process after the calls: credentials that were established, and a session that was opened.\<close>

fun holds :: "pam \<Rightarrow> pam_call list \<Rightarrow> bool \<times> bool" where
  "holds p [] = (False, False)"
| "holds p (PamEstablishCred # cs) = (pam_ret p cs PamEstablishCred = PAM_SUCCESS \<or> fst (holds p cs), snd (holds p cs))"
| "holds p (PamDeleteCred # cs) = (False, snd (holds p cs))"
| "holds p (PamOpenSession # cs) = (fst (holds p cs), pam_ret p cs PamOpenSession = PAM_SUCCESS \<or> snd (holds p cs))"
| "holds p (PamCloseSession # cs) = (fst (holds p cs), False)"
| "holds p (c # cs) = holds p cs"

lemma check_auth_holds:
  assumes "vsf_sysdep_check_auth p pid ss service user pass host st = Inr (ok, user', st')" and "\<not> s_pamh st"
    and "holds p (calls st) = (False, False)"
  shows "holds p (calls st') = (ok, ok \<and> ss)"
  using assms
  by (auto simp: vsf_sysdep_check_auth_def attempt_def open_session_def andthen_Inr_iff Let_def uwtmp_calls
      split: if_splits option.splits)

lemma shutdown_ok:
  assumes "auth_ok p st" and "s_pamh st"
  shows "\<exists>st'. vsf_auth_shutdown st = Inr st' \<and> auth_ok p st' \<and> \<not> s_pamh st' \<and> \<not> someone_in (uwtmp st') \<and>
    calls st' = [PamEnd PAM_SUCCESS, PamDeleteCred, PamCloseSession] @ calls st"
  using assms by (auto simp: vsf_auth_shutdown_def auth_ok_def vsf_remove_uwtmp_def put_utent_def)

text \<open>
  C11: authentication with PAM. A login is accepted only if PAM accepted every step (the host, the name and the password from
  the conversation, the account, the credentials), and without sessions it is accepted whenever PAM did; the user then has
  the name that PAM gives. On every path the handle of PAM is started and ended properly: a refused login leaves no handle, no
  credentials and no session, an accepted one keeps handle and session only with \<open>session_support\<close>, and their end is then
  registered for the exit of the process. That end closes the session, deletes the credentials and ends the handle, in this
  order and with no other call, so that PAM holds nothing any more, and leaves nobody recorded as logged in. (Without
  \<open>session_support\<close> the handle of an accepted login is ended at once and its credentials stay established, as in the code.)
\<close>

theorem auth_sound:
  assumes "auth_ok p st" and "\<not> s_pamh st" and "holds p (calls st) = (False, False)"
  shows "case vsf_sysdep_check_auth p pid session_support service user pass host st of
      Inl stopped \<Rightarrow> True
    | Inr (ok, user', st') \<Rightarrow>
        auth_ok p st' \<and> s_pamh st' = (ok \<and> session_support) \<and> holds p (calls st') = (ok, ok \<and> session_support) \<and>
        (if ok then pam_accepts p (calls st) service (c_str user) pass (c_str host) \<and>
                    pam_name p (calls st) service (c_str user) pass (c_str host) = Some user'
         else session_support \<or> \<not> pam_accepts p (calls st) service (c_str user) pass (c_str host)) \<and>
        (if ok \<and> session_support
         then exit_func st' \<and>
              (\<exists>st''. vsf_auth_shutdown st' = Inr st'' \<and> auth_ok p st'' \<and> \<not> s_pamh st'' \<and> \<not> someone_in (uwtmp st'') \<and>
                 calls st'' = [PamEnd PAM_SUCCESS, PamDeleteCred, PamCloseSession] @ calls st' \<and>
                 holds p (calls st'') = (False, False))
         else \<not> someone_in (uwtmp st'))"
proof (cases "vsf_sysdep_check_auth p pid session_support service user pass host st")
  case (Inr r)
  obtain ok user' st' where r: "r = (ok, user', st')" by (cases r)
  have ok: "auth_ok p st'" "s_pamh st' = (ok \<and> session_support)" "exit_func st' = (exit_func st \<or> (ok \<and> session_support))"
    using check_auth_ok [OF assms(1,2), of session_support pid service user pass host] by (simp_all add: Inr r verdict_ok_def)
  have nobody: "\<not> someone_in (uwtmp st')" if "\<not> s_pamh st'" using ok(1) that by (auto simp: auth_ok_def)
  show ?thesis
    using ok nobody check_auth_accepts [OF Inr [unfolded r] assms(2)] check_auth_holds [OF Inr [unfolded r] assms(2,3)]
      shutdown_ok [OF ok(1)]
    by (auto simp: Inr r split: if_splits)
qed simp

definition yes_pam :: pam where
  "yes_pam = \<lparr>pam_ret = (\<lambda>cs c. 0), pam_styles = (\<lambda>cs. [PAM_TEXT_INFO, PAM_PROMPT_ECHO_OFF]), pam_user = (\<lambda>cs. Some ''anna'')\<rparr>"

definition no_auth :: auth where
  "no_auth = \<lparr>s_pamh = False, s_pword_str = [], exit_func = False, calls = [], s_uwtmp_inserted = False,
     s_utent = \<lparr>ut_type = DEAD_PROCESS, ut_line = [], ut_user = [], ut_host = []\<rparr>, uwtmp = []\<rparr>"

lemma auth_sound_witness:
  "\<exists>st'. vsf_sysdep_check_auth yes_pam 7 True ''ftp'' ''Anna'' ''secret'' ''192.0.2.1'' no_auth = Inr (True, ''anna'', st') \<and>
    auth_ok yes_pam st' \<and> s_pamh st' \<and> exit_func st' \<and>
    (\<exists>st''. vsf_auth_shutdown st' = Inr st'' \<and> auth_ok yes_pam st'' \<and> \<not> s_pamh st'' \<and> \<not> someone_in (uwtmp st'') \<and>
       holds yes_pam (calls st'') = (False, False))"
proof -
  have st: "auth_ok yes_pam no_auth" "\<not> s_pamh no_auth" "holds yes_pam (calls no_auth) = (False, False)"
    by (simp_all add: auth_ok_def no_auth_def)
  note auth_sound [OF st, where pid = 7 and session_support = True and service = "''ftp''" and user = "''Anna''"
      and pass = "''secret''" and host = "''192.0.2.1''"]
  moreover have "vsf_sysutil_ulong_to_str 7 = ''7''" by code_simp
  then obtain st' where "vsf_sysdep_check_auth yes_pam 7 True ''ftp'' ''Anna'' ''secret'' ''192.0.2.1'' no_auth = Inr (True, ''anna'', st')"
    by (simp add: vsf_sysdep_check_auth_def attempt_def open_session_def vsf_insert_uwtmp_def yes_pam_def no_auth_def put_utent_def
        pam_do_def Let_def)
  ultimately show ?thesis by auto
qed

section \<open>Without PAM\<close>

text \<open>
  \<open>vsf_sysdep_check_auth\<close> as it is built without PAM. The databases of users and of shells are those of the C library, \<open>crypt\<close> is a parameter too: \<open>None\<close> is its null pointer,
  for a salt that it does not know.
\<close>

record passwd =
  pw_passwd :: string
  pw_shell :: string

record spwd =
  sp_pwdp :: string
  sp_expire :: int
  sp_lstchg :: int
  sp_max :: int

definition crypt_matches :: "(string \<Rightarrow> string \<Rightarrow> string option) \<Rightarrow> string \<Rightarrow> string \<Rightarrow> bool result" where
  "crypt_matches crypt p_pass p_hash =
     (case crypt (c_str p_pass) p_hash of None \<Rightarrow> Inl Undef | Some p_crypted \<Rightarrow> Inr (p_crypted = p_hash))"

definition account_expired :: "int \<Rightarrow> spwd \<Rightarrow> bool" where
  "account_expired curr_time p_spwd \<longleftrightarrow>
     (let days = curr_time div (60 * 60 * 24) in
      sp_expire p_spwd > 0 \<and> sp_expire p_spwd < days \<or>
      sp_lstchg p_spwd > 0 \<and> sp_max p_spwd > 0 \<and> sp_lstchg p_spwd + sp_max p_spwd < days)"

definition check_auth_shadow ::
  "tunables \<Rightarrow> (string \<Rightarrow> passwd option) \<Rightarrow> string list \<Rightarrow> (string \<Rightarrow> spwd option) \<Rightarrow> (string \<Rightarrow> string \<Rightarrow> string option) \<Rightarrow> int \<Rightarrow>
   string \<Rightarrow> string \<Rightarrow> bool result" where
  "check_auth_shadow t getpwnam shells getspnam crypt curr_time p_user_str p_pass_str =
     (case getpwnam (c_str p_user_str) of
        None \<Rightarrow> Inr False
      | Some p_pwd \<Rightarrow>
          if t_bool t ''check_shell'' \<and> pw_shell p_pwd \<notin> set shells then Inr False
          else andthen (case getspnam (c_str p_user_str) of
                 None \<Rightarrow> Inr None
               | Some p_spwd \<Rightarrow>
                   if account_expired curr_time p_spwd then Inr (Some False)
                   else andthen (crypt_matches crypt p_pass_str (sp_pwdp p_spwd)) (\<lambda>same. Inr (if same then Some True else None))) (\<lambda>verdict.
               case verdict of Some v \<Rightarrow> Inr v | None \<Rightarrow> crypt_matches crypt p_pass_str (pw_passwd p_pwd)))"

text \<open>Whoever gets in has an account with an allowed shell that has not expired, and a password that one of the two databases has.\<close>

lemma check_auth_shadow_sound:
  assumes "check_auth_shadow t getpwnam shells getspnam crypt curr_time p_user_str p_pass_str = Inr True"
  shows "\<exists>pw hash. getpwnam (c_str p_user_str) = Some pw \<and> (t_bool t ''check_shell'' \<longrightarrow> pw_shell pw \<in> set shells) \<and>
    (\<forall>sp. getspnam (c_str p_user_str) = Some sp \<longrightarrow> \<not> account_expired curr_time sp) \<and> crypt (c_str p_pass_str) hash = Some hash \<and>
    (hash = pw_passwd pw \<or> (\<exists>sp. getspnam (c_str p_user_str) = Some sp \<and> hash = sp_pwdp sp))"
  using assms by (auto simp: check_auth_shadow_def crypt_matches_def andthen_Inr_iff split: option.splits if_splits)

text \<open>
  A wrong password of an account with a shadow entry is compared with the other database as well, where there is only a mark: if \<open>crypt\<close> has no result for it the process
  reads a null pointer.
\<close>

lemma shadow_wrong_password:
  assumes "getpwnam (c_str p_user_str) = Some pw" and "t_bool t ''check_shell'' \<longrightarrow> pw_shell pw \<in> set shells"
    and "getspnam (c_str p_user_str) = Some sp" and "\<not> account_expired curr_time sp" and "crypt (c_str p_pass_str) (sp_pwdp sp) = Some other"
    and "other \<noteq> sp_pwdp sp" and "crypt (c_str p_pass_str) (pw_passwd pw) = None"
  shows "check_auth_shadow t getpwnam shells getspnam crypt curr_time p_user_str p_pass_str = Inl Undef"
  using assms by (simp add: check_auth_shadow_def crypt_matches_def)

end
