(* ===== verification/Sendfile.thy ===== *)
theory Sendfile
  imports Prelude
begin

text \<open>
  \<open>vsf_sysutil_sendfile\<close> of \<^verbatim>\<open>sysdeputil.c\<close> (on Linux): moving a file to a connection in chunks, by the system call or, where that
  does not work, by reading and writing.
\<close>

section \<open>The kernel\<close>

text \<open>
  The file and the position in it, the bytes that went to the connection, and what the kernel will answer to the calls that
  move bytes: a count or an error with its \<open>errno\<close>; \<open>answers\<close> are those of \<open>sendfile\<close> and \<open>read\<close>, \<open>write_answers\<close> those
  of the loop that writes. A call never moves more than it was asked to or than the file
  has. When the answers are used up the process waits for ever. Signals that interrupt a call do nothing else here. The last two fields are the static variables of \<open>do_sendfile\<close>.
\<close>

record sf =
  in_data :: string
  in_pos :: nat
  sent :: string
  answers :: "(int \<times> int) list"
  write_answers :: "(int \<times> int) list"
  s_sendfile_checked :: bool
  s_runtime_sendfile_works :: bool

abbreviation EINTR :: int where "EINTR \<equiv> 4"
abbreviation EINVAL :: int where "EINVAL \<equiv> 22"
abbreviation ENOSYS :: int where "ENOSYS \<equiv> 38"
abbreviation EOPNOTSUPP :: int where "EOPNOTSUPP \<equiv> 95"

abbreviation DATA_BUFSIZE :: nat where "DATA_BUFSIZE \<equiv> 65536"

text \<open>What is left of the file.\<close>

definition rest_of :: "sf \<Rightarrow> string" where
  "rest_of w = drop (in_pos w) (in_data w)"

definition k_sendfile :: "nat \<Rightarrow> sf \<Rightarrow> (int \<times> int \<times> sf) option" where
  "k_sendfile n w =
     (case answers w of
        [] \<Rightarrow> None
      | (r, err) # as \<Rightarrow>
          if r < 0 then Some (r, err, w\<lparr>answers := as\<rparr>)
          else let d = take (min (nat r) n) (rest_of w)
               in Some (int (length d), err, w\<lparr>answers := as, sent := sent w @ d, in_pos := in_pos w + length d\<rparr>))"

definition k_read :: "nat \<Rightarrow> sf \<Rightarrow> (int \<times> string \<times> sf) option" where
  "k_read n w =
     (case answers w of
        [] \<Rightarrow> None
      | (r, err) # as \<Rightarrow>
          if r < 0 then Some (r, [], w\<lparr>answers := as\<rparr>)
          else let d = take (min (nat r) n) (rest_of w)
               in Some (int (length d), d, w\<lparr>answers := as, in_pos := in_pos w + length d\<rparr>))"

text \<open>
  \<open>vsf_sysutil_write_loop\<close> writes all of the bytes unless an error occurs or \<open>write\<close> returns 0 (\<open>Sysutil.write_loop_complete\<close>).
\<close>

definition k_write_loop :: "string \<Rightarrow> sf \<Rightarrow> (int \<times> sf) option" where
  "k_write_loop d w =
     (case write_answers w of
        [] \<Rightarrow> None
      | (r, err) # as \<Rightarrow>
          if r < 0 then Some (r, w\<lparr>write_answers := as\<rparr>)
          else let d = take (nat r) d in Some (int (length d), w\<lparr>write_answers := as, sent := sent w @ d\<rparr>))"

section \<open>The code\<close>

text \<open>The loop around the system call: again when it was interrupted.\<close>

lemma k_sendfile_uses: "k_sendfile n w = Some (r, err, w') \<Longrightarrow> length (answers w') < length (answers w)"
  by (auto simp: k_sendfile_def Let_def split: list.splits if_splits)

function sendfile_retry :: "nat \<Rightarrow> sf \<Rightarrow> (int \<times> int \<times> sf) option" where
  "sendfile_retry n w =
     (case k_sendfile n w of
        None \<Rightarrow> None
      | Some (r, err, w') \<Rightarrow> if r < 0 \<and> err = EINTR then sendfile_retry n w' else Some (r, err, w'))"
  by pat_completeness auto
termination
  by (relation "measure (\<lambda>(n, w). length (answers w))") (auto dest: k_sendfile_uses)

declare sendfile_retry.simps [simp del]

text \<open>An \<open>unsigned int\<close> returned as an \<open>int\<close>.\<close>

definition as_int :: "nat \<Rightarrow> int" where
  "as_int n = (if n mod 4294967296 < 2147483648 then int (n mod 4294967296) else int (n mod 4294967296) - 4294967296)"

text \<open>Reading and writing, with \<open>total_written\<close>. A short write returns the number of its own bytes.\<close>

lemma k_read_uses: "k_read n w = Some (r, d, w') \<Longrightarrow> length (answers w') < length (answers w)"
  by (auto simp: k_read_def Let_def split: list.splits if_splits)

lemma k_write_uses: "k_write_loop d w = Some (r, w') \<Longrightarrow> answers w' = answers w"
  by (auto simp: k_write_loop_def Let_def split: list.splits if_splits)

function copy_loop :: "nat \<Rightarrow> nat \<Rightarrow> sf \<Rightarrow> (int \<times> sf) result option" where
  "copy_loop total_written num_send w =
     (case k_read (min DATA_BUFSIZE num_send) w of
        None \<Rightarrow> None
      | Some (retval, d, w1) \<Rightarrow>
          if retval < 0 then Some (Inr (retval, w1))
          else if retval = 0 then Some (Inr (-1, w1))
          else (case k_write_loop d w1 of
                  None \<Rightarrow> None
                | Some (written, w2) \<Rightarrow>
                    if written < 0 then Some (Inr (written, w2))
                    else if written \<noteq> retval then Some (Inr (written, w2))
                    else if nat written > num_send then Some (bug ''num_written bigger than num_send in do_sendfile'')
                    else if num_send - nat written = 0 then Some (Inr (as_int (total_written + nat written), w2))
                    else copy_loop (total_written + nat written) (num_send - nat written) w2))"
  by pat_completeness auto
termination
  by (relation "measure (\<lambda>(t, n, w). length (answers w))") (auto dest!: k_read_uses simp: k_write_uses)

declare copy_loop.simps [simp del]

text \<open>The system call, as long as it is not known to be missing; some errors fall through to reading and writing.\<close>

definition do_sendfile :: "bool \<Rightarrow> nat \<Rightarrow> sf \<Rightarrow> (int \<times> sf) result option" where
  "do_sendfile use_sendfile num_send w =
     (if use_sendfile \<and> (\<not> s_sendfile_checked w \<or> s_runtime_sendfile_works w)
      then (case sendfile_retry num_send w of
              None \<Rightarrow> None
            | Some (retval, err, w1) \<Rightarrow>
                let w2 = (if s_sendfile_checked w1 then w1
                          else w1\<lparr>s_sendfile_checked := True,
                                  s_runtime_sendfile_works := (s_runtime_sendfile_works w1 \<or> \<not> retval < 0 \<or> err \<noteq> ENOSYS)\<rparr>)
                in if \<not> retval < 0 then Some (Inr (retval, w2))
                   else if s_runtime_sendfile_works w2 \<and> err \<noteq> EINVAL \<and> err \<noteq> EOPNOTSUPP then Some (Inr (retval, w2))
                   else copy_loop 0 num_send w2)
      else copy_loop 0 num_send w)"

text \<open>The loop over the chunks; the result has the new offset. \<open>vsf_sysutil_lseek_to\<close> sets the position.\<close>

function send_chunks :: "bool \<Rightarrow> nat \<Rightarrow> nat \<Rightarrow> nat \<Rightarrow> sf \<Rightarrow> (int \<times> nat \<times> sf) result option" where
  "send_chunks use_sendfile max_chunk offset num_send w =
     (if num_send = 0 then Some (Inr (0, offset, w))
      else case do_sendfile use_sendfile (min num_send max_chunk) (w\<lparr>in_pos := offset\<rparr>) of
             None \<Rightarrow> None
           | Some (Inl h) \<Rightarrow> Some (Inl h)
           | Some (Inr (retval, w1)) \<Rightarrow>
               if retval \<le> 0 then Some (Inr (retval, offset, w1))
               else send_chunks use_sendfile max_chunk (offset + nat retval) (num_send - nat retval) w1)"
  by pat_completeness auto
termination by (relation "measure (\<lambda>(u, m, off, n, w). n)") auto

declare send_chunks.simps [simp del]

definition vsf_sysutil_sendfile :: "bool \<Rightarrow> int \<Rightarrow> int \<Rightarrow> nat \<Rightarrow> sf \<Rightarrow> (int \<times> nat \<times> sf) result option" where
  "vsf_sysutil_sendfile use_sendfile p_offset num_send max_chunk w =
     (if p_offset < 0 \<or> num_send < 0 then Some (die ''invalid offset or send count in vsf_sysutil_sendfile'')
      else send_chunks use_sendfile (if max_chunk = 0 then INT_MAX else max_chunk) (nat p_offset) (nat num_send) w)"

section \<open>What is sent\<close>

text \<open>\<open>moved m w w'\<close>: \<open>m\<close> bytes of the file, from the position in \<open>w\<close> on, were sent, and the file stayed the same.\<close>

definition moved :: "nat \<Rightarrow> sf \<Rightarrow> sf \<Rightarrow> bool" where
  "moved m w w' \<longleftrightarrow> sent w' = sent w @ take m (rest_of w) \<and> m \<le> length (rest_of w) \<and> in_data w' = in_data w"

text \<open>Every write is complete or fails; nothing is said of what \<open>sendfile\<close> and \<open>read\<close> answer.\<close>

definition full_writes :: "(int \<times> int) list \<Rightarrow> bool" where
  "full_writes as = list_all (\<lambda>(r, err). r < 0 \<or> r \<ge> int DATA_BUFSIZE) as"

lemma take_min_length [simp]: "take (min (length xs) k) xs = take k xs"
  by (simp add: min_def)

lemma k_sendfile_moves:
  assumes "k_sendfile n w = Some (r, err, w')"
  shows "if r < 0 then moved 0 w w' \<and> in_pos w' = in_pos w else r \<le> int n \<and> moved (nat r) w w'"
  using assms by (auto simp: k_sendfile_def moved_def Let_def split: list.splits if_splits)

lemma retry_moves:
  "sendfile_retry n w = Some (r, err, w') \<Longrightarrow>
   if r < 0 then moved 0 w w' \<and> in_pos w' = in_pos w else r \<le> int n \<and> moved (nat r) w w'"
proof (induction n w rule: sendfile_retry.induct)
  case (1 n w)
  obtain r1 e1 w1 where k: "k_sendfile n w = Some (r1, e1, w1)"
    using "1.prems" by (auto simp: sendfile_retry.simps [of n w] split: option.splits)
  note step = k_sendfile_moves [OF k]
  show ?case
  proof (cases "r1 < 0 \<and> e1 = EINTR")
    case True
    then have again: "sendfile_retry n w1 = Some (r, err, w')" using "1.prems" by (simp add: sendfile_retry.simps [of n w] k)
    from True step have same: "sent w1 = sent w" "in_data w1 = in_data w" "rest_of w1 = rest_of w" "in_pos w1 = in_pos w"
      by (auto simp: moved_def rest_of_def)
    show ?thesis using "1.IH" [OF k refl refl True again] same by (auto simp: moved_def split: if_splits)
  next
    case False
    then show ?thesis using "1.prems" step by (auto simp: sendfile_retry.simps [of n w] k)
  qed
qed

lemma retry_answers: "sendfile_retry n w = Some (r, err, w') \<Longrightarrow> full_writes (write_answers w) \<Longrightarrow> full_writes (write_answers w')"
proof (induction n w rule: sendfile_retry.induct)
  case (1 n w)
  obtain r1 e1 w1 where k: "k_sendfile n w = Some (r1, e1, w1)"
    using "1.prems" by (auto simp: sendfile_retry.simps [of n w] split: option.splits)
  have "full_writes (write_answers w1)"
    using k "1.prems"(2) by (auto simp: k_sendfile_def full_writes_def Let_def split: list.splits if_splits)
  then show ?case using "1.IH" [OF k refl refl] "1.prems"(1) by (auto simp: sendfile_retry.simps [of n w] k split: if_splits)
qed

text \<open>One turn of the loop that copies: nothing is sent, or a piece of the file.\<close>

lemma k_read_piece:
  assumes "k_read n w = Some (r, d, w1)"
  shows "sent w1 = sent w \<and> in_data w1 = in_data w \<and> write_answers w1 = write_answers w \<and>
    (0 \<le> r \<longrightarrow> d = take (nat r) (rest_of w) \<and> nat r \<le> length (rest_of w) \<and> nat r \<le> n \<and> in_pos w1 = in_pos w + nat r)"
  using assms by (auto simp: k_read_def Let_def split: list.splits if_splits)

lemma k_write_piece:
  assumes "k_write_loop d w = Some (r, w1)" and "full_writes (write_answers w)" and "length d \<le> DATA_BUFSIZE"
  shows "in_data w1 = in_data w \<and> in_pos w1 = in_pos w \<and> full_writes (write_answers w1) \<and>
    (if r < 0 then sent w1 = sent w else sent w1 = sent w @ d \<and> r = int (length d))"
  using assms by (auto simp: k_write_loop_def full_writes_def Let_def split: list.splits if_splits)

lemma moved_trans:
  assumes "sent w2 = sent w @ take k (rest_of w)" and "in_data w2 = in_data w" and "in_pos w2 = in_pos w + k"
    and "k \<le> length (rest_of w)" and "moved m w2 w'"
  shows "moved (k + m) w w'"
proof -
  have rest: "rest_of w2 = drop k (rest_of w)" using assms(2,3) by (simp add: rest_of_def add.commute)
  then show ?thesis using assms by (auto simp: moved_def take_add)
qed

lemma copy_moves:
  assumes "copy_loop t n w = Some x" and "full_writes (write_answers w)" and "0 < n" and "t + n \<le> INT_MAX"
  shows "\<exists>r w' m. x = Inr (r, w') \<and> m \<le> n \<and> moved m w w' \<and> full_writes (write_answers w') \<and> (0 \<le> r \<longrightarrow> r = int (t + m) \<and> m = n)"
  using assms
proof (induction t n w rule: copy_loop.induct)
  case (1 t n w)
  obtain r d w1 where rd: "k_read (min DATA_BUFSIZE n) w = Some (r, d, w1)"
    using "1.prems"(1) by (auto simp: copy_loop.simps [of t n w] split: option.splits)
  note p = k_read_piece [OF rd]
  have full1: "full_writes (write_answers w1)" using p "1.prems"(2) by (auto simp: full_writes_def)
  show ?case
  proof (cases "0 < r")
    case False
    have "moved 0 w w1" using p by (simp add: moved_def)
    then show ?thesis
      using False "1.prems"(1) full1 by (auto simp: copy_loop.simps [of t n w] rd split: if_splits)
  next
    case True
    obtain wr w2 where wl: "k_write_loop d w1 = Some (wr, w2)"
      using "1.prems"(1) True by (auto simp: copy_loop.simps [of t n w] rd split: option.splits)
    have d: "length d = nat r" "nat r \<le> n" "nat r \<le> DATA_BUFSIZE" using p True by auto
    note q = k_write_piece [OF wl full1] d
    show ?thesis
    proof (cases "wr < 0")
      case True2: True
      then have "moved 0 w w2" using p q by (simp add: moved_def)
      then show ?thesis using True True2 "1.prems"(1) q by (auto simp: copy_loop.simps [of t n w] rd wl)
    next
      case False
      then have w2: "sent w2 = sent w @ take (nat r) (rest_of w)" "in_data w2 = in_data w" "in_pos w2 = in_pos w + nat r"
        "wr = r" "full_writes (write_answers w2)"
        using p q True by auto
      have len: "nat r \<le> length (rest_of w)" using p True by auto
      show ?thesis
      proof (cases "n = nat r")
        case n: True
        have "x = Inr (as_int (t + nat r), w2)"
          using "1.prems"(1) True False w2(4) n [symmetric] by (simp add: copy_loop.simps [of t n w] rd wl)
        moreover have "moved (nat r) w w2" using w2 len by (simp add: moved_def)
        moreover have "as_int (t + nat r) = int (t + n)" using "1.prems"(4) n by (simp add: as_int_def INT_MAX_def)
        ultimately show ?thesis using w2(5) n by auto
      next
        case n: False
        then have less: "nat r < n" using d(2) by simp
        have "copy_loop (t + nat wr) (n - nat wr) w2 = Some x"
          using "1.prems"(1) True False w2(4) less by (simp add: copy_loop.simps [of t n w] rd wl)
        moreover have "0 < n - nat wr" "t + nat wr + (n - nat wr) \<le> INT_MAX" using less w2(4) "1.prems"(4) by simp_all
        ultimately obtain r' w' m where IH: "x = Inr (r', w')" "m \<le> n - nat wr" "moved m w2 w'" "full_writes (write_answers w')"
            "0 \<le> r' \<longrightarrow> r' = int (t + nat wr + m) \<and> m = n - nat wr"
          using "1.IH" [OF rd refl refl _ _ wl refl] True False w2(4,5) less by auto
        have "moved (nat r + m) w w'" by (rule moved_trans [OF w2(1-3) len IH(3)])
        then show ?thesis using IH w2(4) less by (intro exI [of _ r'] exI [of _ w'] exI [of _ "nat r + m"]) auto
      qed
    qed
  qed
qed

text \<open>One chunk: no more than asked for is sent, and a count that is returned is what was sent.\<close>

lemma do_sendfile_moves:
  assumes "do_sendfile use_sendfile n w = Some x" and "full_writes (write_answers w)" and "0 < n" and "n \<le> INT_MAX"
  shows "\<exists>r w' m. x = Inr (r, w') \<and> m \<le> n \<and> moved m w w' \<and> full_writes (write_answers w') \<and> (0 \<le> r \<longrightarrow> r = int m)"
proof -
  have copied: ?thesis if "copy_loop 0 n w1 = Some x" "moved 0 w w1" "in_pos w1 = in_pos w" "full_writes (write_answers w1)" for w1
  proof -
    have "moved (0 + m) w w'" if "moved m w1 w'" for m w'
      using \<open>moved 0 w w1\<close> \<open>in_pos w1 = in_pos w\<close> that by (intro moved_trans [of w1]) (auto simp: moved_def)
    then show ?thesis using copy_moves [OF that(1,4)] assms(3,4) by fastforce
  qed
  show ?thesis
  proof (cases "use_sendfile \<and> (\<not> s_sendfile_checked w \<or> s_runtime_sendfile_works w)")
    case True
    then obtain r err w1 where k: "sendfile_retry n w = Some (r, err, w1)"
      using assms(1) by (auto simp: do_sendfile_def split: option.splits)
    define w2 where "w2 = (if s_sendfile_checked w1 then w1
       else w1\<lparr>s_sendfile_checked := True, s_runtime_sendfile_works := (s_runtime_sendfile_works w1 \<or> \<not> r < 0 \<or> err \<noteq> ENOSYS)\<rparr>)"
    have same: "moved m w w2 = moved m w w1" "in_pos w2 = in_pos w1" "write_answers w2 = write_answers w1" for m
      by (simp_all add: w2_def moved_def)
    have full: "full_writes (write_answers w2)" using retry_answers [OF k assms(2)] same(3) by simp
    have x: "Some x = (if \<not> r < 0 \<or> s_runtime_sendfile_works w2 \<and> err \<noteq> EINVAL \<and> err \<noteq> EOPNOTSUPP then Some (Inr (r, w2))
       else copy_loop 0 n w2)"
      using assms(1) unfolding do_sendfile_def if_P [OF True] k Let_def option.case prod.case w2_def [symmetric] by (auto split: if_splits)
    note mv = retry_moves [OF k]
    show ?thesis
    proof (cases "\<not> r < 0 \<or> s_runtime_sendfile_works w2 \<and> err \<noteq> EINVAL \<and> err \<noteq> EOPNOTSUPP")
      case True
      then have "x = Inr (r, w2)" using x by simp
      then show ?thesis using mv full same(1) by (intro exI [of _ r] exI [of _ w2] exI [of _ "nat r"]) (auto split: if_splits)
    next
      case False
      then show ?thesis using copied [of w2] x mv full same by (auto split: if_splits)
    qed
  next
    case False
    then show ?thesis using copied [of w] assms by (auto simp: do_sendfile_def moved_def)
  qed
qed

lemma send_chunks_moves:
  assumes "send_chunks use_sendfile max_chunk off num w = Some x" and "full_writes (write_answers w)" and "0 < max_chunk"
    and "max_chunk \<le> INT_MAX"
  shows "\<exists>r off' w' m. x = Inr (r, off', w') \<and> m \<le> num \<and> moved m (w\<lparr>in_pos := off\<rparr>) w' \<and> off \<le> off' \<and> off' \<le> off + m \<and>
    (0 \<le> r \<longrightarrow> r = 0 \<and> off' = off + m)"
  using assms
proof (induction use_sendfile max_chunk off num w arbitrary: x rule: send_chunks.induct)
  case (1 u mc off num w)
  let ?w = "w\<lparr>in_pos := off\<rparr>"
  show ?case
  proof (cases "num = 0")
    case True
    then show ?thesis using "1.prems"(1) by (auto simp: send_chunks.simps [of u mc off 0 w] moved_def)
  next
    case False
    obtain y where y: "do_sendfile u (min num mc) ?w = Some y"
      using "1.prems"(1) False by (auto simp: send_chunks.simps [of u mc off num w] split: option.splits)
    have n: "0 < min num mc" "min num mc \<le> INT_MAX" using False "1.prems"(3,4) by auto
    obtain r w1 m where c: "y = Inr (r, w1)" "m \<le> min num mc" "moved m ?w w1" "full_writes (write_answers w1)" "0 \<le> r \<longrightarrow> r = int m"
      using do_sendfile_moves [OF y _ n] "1.prems"(2) by auto
    show ?thesis
    proof (cases "r \<le> 0")
      case True
      then have "x = Inr (r, off, w1)" using "1.prems"(1) False by (simp add: send_chunks.simps [of u mc off num w] y c(1))
      then show ?thesis using c True by auto
    next
      case r: False
      then have rm: "nat r = m" "0 < m" using c(5) by auto
      have "send_chunks u mc (off + nat r) (num - nat r) w1 = Some x"
        using "1.prems"(1) False r by (simp add: send_chunks.simps [of u mc off num w] y c(1))
      from "1.IH" [OF False y c(1) refl r this c(4) "1.prems"(3,4)] obtain r' off' w' m' where
        IH: "x = Inr (r', off', w')" "m' \<le> num - m" "moved m' (w1\<lparr>in_pos := off + m\<rparr>) w'" "off + m \<le> off'" "off' \<le> off + m + m'"
          "0 \<le> r' \<longrightarrow> r' = 0 \<and> off' = off + m + m'"
        by (auto simp: rm(1))
      have "moved (m + m') ?w w'" using c(3) by (intro moved_trans [OF _ _ _ _ IH(3)]) (simp_all add: moved_def)
      then show ?thesis using IH c(2) by (intro exI [of _ r'] exI [of _ off'] exI [of _ w'] exI [of _ "m + m'"]) auto
    qed
  qed
qed

text \<open>
  C21: sending a file. In every run that returns (the others wait for ever for the kernel), with a chunk size that fits an \<open>int\<close>, and when every write of the loop that copies by hand is complete or fails
  (\<open>vsf_sysutil_write_loop\<close> returns a smaller count only when a \<open>write\<close> of the system returns 0), \<open>vsf_sysutil_sendfile\<close> sends one
  contiguous piece of the file, from the offset on and not longer than asked for, whether the system call works, is interrupted, is missing
  or does not support the file, and whatever counts, errors and interruptions \<open>sendfile\<close> and \<open>read\<close> answer with. It never stops the
  process. The new offset never passes what was sent, and when no error is returned it is the end of that piece.
\<close>

theorem sendfile_exact:
  assumes "vsf_sysutil_sendfile use_sendfile (int off) (int num) max_chunk w = Some x" and "full_writes (write_answers w)"
    and "max_chunk \<le> INT_MAX"
  shows "\<exists>r off' w' m. x = Inr (r, off', w') \<and> m \<le> num \<and> m \<le> length (in_data w) - off \<and>
    sent w' = sent w @ take m (drop off (in_data w)) \<and> off \<le> off' \<and> off' \<le> off + m \<and> (0 \<le> r \<longrightarrow> r = 0 \<and> off' = off + m)"
  using send_chunks_moves [of use_sendfile "if max_chunk = 0 then INT_MAX else max_chunk" off num w x] assms
  by (fastforce simp: vsf_sysutil_sendfile_def moved_def rest_of_def INT_MAX_def split: if_splits)

text \<open>
  A system call that is interrupted and then sends two bytes of the three asked for, one that sends a single byte, and, when the system call
  turns out to refuse the file, a copy of the rest with a short read.
\<close>

definition sf_example :: sf where
  "sf_example = \<lparr>in_data = ''abcdefg'', in_pos = 0, sent = [], answers = [(-1, EINTR), (2, 0), (1, 0), (-1, EINVAL), (1, 0), (7, 0)],
     write_answers = [(65536, 0), (65536, 0)],
     s_sendfile_checked = False, s_runtime_sendfile_works = False\<rparr>"

lemma sendfile_exact_witness:
  "\<exists>w'. vsf_sysutil_sendfile True 1 5 3 sf_example = Some (Inr (0, 6, w')) \<and> sent w' = ''bcdef''"
proof -
  obtain w' where run: "vsf_sysutil_sendfile True (int 1) (int 5) 3 sf_example = Some (Inr (0, 6, w'))"
    by (simp add: vsf_sysutil_sendfile_def send_chunks.simps do_sendfile_def sendfile_retry.simps k_sendfile_def copy_loop.simps
        k_read_def k_write_loop_def rest_of_def as_int_def sf_example_def Let_def)
  have "full_writes (write_answers sf_example)" "3 \<le> INT_MAX" by (simp_all add: sf_example_def full_writes_def INT_MAX_def)
  from sendfile_exact [OF run this] have "sent w' = ''bcdef''" by (auto simp: sf_example_def)
  with run show ?thesis by simp
qed

end
