(* ===== verification/Secbuf.thy ===== *)
theory Secbuf
  imports Prelude
begin

text \<open>
  \<^verbatim>\<open>secbuf.c\<close>: buffers between two pages that must not be touched. The data of the control connection, of transfers and of configuration files is
  read into such buffers.
\<close>

section \<open>Pages\<close>

datatype prot = ProtNone | ProtRead | ProtReadWrite

text \<open>
  The memory of the process: what its pages allow (\<open>None\<close>: not mapped) and the integers at addresses. The kernel chooses where a mapping
  goes, and may refuse it. \<open>P\<close> is the size of a page.
\<close>

record vm =
  page_prot :: "nat \<Rightarrow> prot option"
  ints :: "nat \<Rightarrow> nat"

type_synonym mmap = "nat \<Rightarrow> vm \<Rightarrow> nat option"

definition set_pages :: "nat \<Rightarrow> nat \<Rightarrow> nat \<Rightarrow> prot option \<Rightarrow> vm \<Rightarrow> vm" where
  "set_pages P addr len pr s = s\<lparr>page_prot := (\<lambda>q. if addr div P \<le> q \<and> q * P < addr + len then pr else page_prot s q)\<rparr>"

definition vsf_sysutil_getpagesize :: "nat \<Rightarrow> nat result" where
  "vsf_sysutil_getpagesize P = (if P = 0 then die ''getpagesize'' else Inr P)"

definition vsf_sysutil_map_anon_pages :: "nat \<Rightarrow> mmap \<Rightarrow> nat \<Rightarrow> vm \<Rightarrow> (nat \<times> vm) result" where
  "vsf_sysutil_map_anon_pages P mmap len s =
     (case mmap len s of
        None \<Rightarrow> die ''mmap''
      | Some a \<Rightarrow> Inr (a, (set_pages P a len (Some ProtReadWrite) s)))"

text \<open>\<^verbatim>\<open>mprotect\<close> wants an aligned address and mapped pages, \<^verbatim>\<open>munmap\<close> an aligned address and a length.\<close>

definition vsf_sysutil_memprotect :: "nat \<Rightarrow> nat \<Rightarrow> nat \<Rightarrow> prot \<Rightarrow> vm \<Rightarrow> vm result" where
  "vsf_sysutil_memprotect P addr len perm s =
     (if addr mod P = 0 \<and> list_all (\<lambda>q. page_prot s q \<noteq> None) [addr div P ..< (addr + len + P - 1) div P]
      then Inr (set_pages P addr len (Some perm) s)
      else die ''mprotect'')"

definition vsf_sysutil_memunmap :: "nat \<Rightarrow> nat \<Rightarrow> nat \<Rightarrow> vm \<Rightarrow> vm result" where
  "vsf_sysutil_memunmap P start len s =
     (if start mod P = 0 \<and> 0 < len then Inr (set_pages P start len None s) else die ''munmap'')"

text \<open>An access that the page does not allow ends the process.\<close>

definition writable :: "nat \<Rightarrow> nat \<Rightarrow> vm \<Rightarrow> bool" where
  "writable P a s \<longleftrightarrow> page_prot s (a div P) = Some ProtReadWrite"

definition readable :: "nat \<Rightarrow> nat \<Rightarrow> vm \<Rightarrow> bool" where
  "readable P a s \<longleftrightarrow> page_prot s (a div P) = Some ProtReadWrite \<or> page_prot s (a div P) = Some ProtRead"

definition store_int :: "nat \<Rightarrow> nat \<Rightarrow> nat \<Rightarrow> vm \<Rightarrow> vm result" where
  "store_int P a v s = (if writable P a s then Inr (s\<lparr>ints := (ints s)(a := v)\<rparr>) else Inl Undef)"

definition load_int :: "nat \<Rightarrow> nat \<Rightarrow> vm \<Rightarrow> nat result" where
  "load_int P a s = (if readable P a s then Inr (ints s a) else Inl Undef)"

section \<open>Secure buffers\<close>

definition vsf_secbuf_free :: "nat \<Rightarrow> nat \<Rightarrow> vm \<Rightarrow> vm result" where
  "vsf_secbuf_free P p_ptr s =
     andthen (vsf_sysutil_getpagesize P) (\<lambda>page_size.
     if p_ptr = 0 then Inr s
     else let p_mmap = p_ptr - p_ptr mod page_size - page_size in
       andthen (vsf_sysutil_memprotect P p_mmap page_size ProtRead s) (\<lambda>s.
       andthen (load_int P p_mmap s) (\<lambda>map_size.
       vsf_sysutil_memunmap P p_mmap map_size s)))"

text \<open>The size of the mapping, in \<open>unsigned int\<close>: whole pages for the buffer and two more.\<close>

definition round_up :: "nat \<Rightarrow> nat \<Rightarrow> nat" where
  "round_up page_size sz =
     u32 ((if sz mod page_size \<noteq> 0 then u32 ((sz div page_size + 1) * page_size) else sz) + page_size * 2)"

definition vsf_secbuf_alloc :: "nat \<Rightarrow> mmap \<Rightarrow> nat \<Rightarrow> nat \<Rightarrow> vm \<Rightarrow> (nat \<times> vm) result" where
  "vsf_secbuf_alloc P mmap p_ptr sz s =
     andthen (vsf_sysutil_getpagesize P) (\<lambda>page_size.
     andthen (vsf_secbuf_free P p_ptr s) (\<lambda>s.
     let page_offset = sz mod page_size; round_up = round_up page_size sz in
     andthen (vsf_sysutil_map_anon_pages P mmap round_up s) (\<lambda>(p_mmap, s).
     andthen (vsf_sysutil_memprotect P (p_mmap + round_up - page_size) page_size ProtNone s) (\<lambda>s.
     andthen (store_int P p_mmap round_up s) (\<lambda>s.
     andthen (vsf_sysutil_memprotect P p_mmap page_size ProtNone s) (\<lambda>s.
     Inr (p_mmap + page_size + (if page_offset \<noteq> 0 then page_size - page_offset else 0), s)))))))"

section \<open>The guard\<close>

text \<open>What \<^verbatim>\<open>mmap\<close> promises: a mapping starts at a page that is not the first one, on pages that nobody uses.\<close>

definition mmap_ok :: "nat \<Rightarrow> mmap \<Rightarrow> bool" where
  "mmap_ok P mmap \<longleftrightarrow>
     (\<forall>len s a. mmap len s = Some a \<longrightarrow> 0 < a \<and> a mod P = 0 \<and> (\<forall>q. a div P \<le> q \<and> q * P < a + len \<longrightarrow> page_prot s q = None))"

text \<open>The same in pages: the buffer with its \<open>n\<close> pages, from page \<open>b + 1\<close> on, ends where the page behind it begins.\<close>

definition buf_pages :: "nat \<Rightarrow> nat \<Rightarrow> nat" where
  "buf_pages P sz = (sz + P - 1) div P"

lemma round_up_pages:
  assumes "0 < P" and "sz + 3 * P < 4294967296"
  shows "round_up P sz = (buf_pages P sz + 2) * P"
    and "sz + (if sz mod P \<noteq> 0 then P - sz mod P else 0) = buf_pages P sz * P"
proof -
  have d: "sz = sz div P * P + sz mod P" by simp
  have n: "buf_pages P sz = (if sz mod P \<noteq> 0 then sz div P + 1 else sz div P)"
  proof (cases "sz mod P = 0")
    case True
    then have "(sz + P - 1) div P = (P - 1 + sz div P * P) div P" using assms(1) d by (simp add: add.commute)
    also have "\<dots> = sz div P" using assms(1) by (subst div_mult_self1) simp_all
    finally show ?thesis using True by (simp add: buf_pages_def)
  next
    case False
    then have pos: "0 < sz" by (cases sz) simp_all
    have "sz + P - 1 = (sz mod P - 1) + (sz div P + 1) * P" using d False pos by (simp add: algebra_simps)
    then have "(sz + P - 1) div P = (sz mod P - 1) div P + (sz div P + 1)"
      using assms(1) by (simp only: div_mult_self1)
    moreover have "(sz mod P - 1) div P = 0" using assms(1) by (intro div_less) (simp add: less_imp_diff_less)
    ultimately show ?thesis using False by (simp add: buf_pages_def)
  qed
  show "sz + (if sz mod P \<noteq> 0 then P - sz mod P else 0) = buf_pages P sz * P"
  proof (cases "sz mod P = 0")
    case False
    have "sz + (P - sz mod P) = sz div P * P + P" using d mod_less_divisor [OF assms(1), of sz] by linarith
    then show ?thesis using False by (simp add: n)
  qed (use d n in simp)
  have le: "sz div P * P \<le> sz" by simp
  show "round_up P sz = (buf_pages P sz + 2) * P"
  proof (cases "sz mod P = 0")
    case True
    then show ?thesis using d assms(2) by (simp add: round_up_def n algebra_simps)
  next
    case False
    have "sz div P * P + P + P * 2 < 4294967296" using le assms(2) by linarith
    then show ?thesis using False by (simp add: round_up_def n algebra_simps)
  qed
qed

lemma set_pages_aligned:
  "0 < P \<Longrightarrow> page_prot (set_pages P (b * P) (k * P) pr s) = (\<lambda>q. if b \<le> q \<and> q < b + k then pr else page_prot s q)"
  "0 < P \<Longrightarrow> page_prot (set_pages P (b * P) P pr s) = (page_prot s)(b := pr)"
  "ints (set_pages P a l pr s) = ints s"
proof -
  have "q * P < b * P + k * P \<longleftrightarrow> q < b + k" if "0 < P" for q k
    using that by (simp add: add_mult_distrib [symmetric])
  from this this [where k = 1]
  show "0 < P \<Longrightarrow> page_prot (set_pages P (b * P) (k * P) pr s) = (\<lambda>q. if b \<le> q \<and> q < b + k then pr else page_prot s q)"
    and "0 < P \<Longrightarrow> page_prot (set_pages P (b * P) P pr s) = (page_prot s)(b := pr)"
    by (auto simp: set_pages_def fun_eq_iff)
qed (simp add: set_pages_def)

lemma one_page: "0 < P \<Longrightarrow> [b * P div P ..< (b * P + P + P - 1) div P] = [b :: nat]"
proof -
  assume "0 < P"
  moreover have "(b * P + P + P - 1) div P = b + 1"
  proof -
    have "b * P + P + P - 1 = (P - 1) + (b + 1) * P" using \<open>0 < P\<close> by (simp add: algebra_simps)
    then show ?thesis using \<open>0 < P\<close> by (simp only: div_mult_self1) simp
  qed
  ultimately show ?thesis by simp
qed

lemma memprotect_page:
  "0 < P \<Longrightarrow> page_prot s b \<noteq> None \<Longrightarrow> vsf_sysutil_memprotect P (b * P) P perm s = Inr (set_pages P (b * P) P (Some perm) s)"
  by (simp only: vsf_sysutil_memprotect_def one_page) simp

text \<open>The memory with a buffer of \<open>n\<close> pages behind page \<open>b\<close>.\<close>

definition with_buf :: "nat \<Rightarrow> nat \<Rightarrow> (nat \<Rightarrow> prot option) \<Rightarrow> nat \<Rightarrow> prot option" where
  "with_buf b n pp q =
     (if q = b \<or> q = b + n + 1 then Some ProtNone else if b < q \<and> q \<le> b + n then Some ProtReadWrite else pp q)"

lemma alloc_run:
  assumes "0 < P" and "sz + 3 * P < 4294967296" and "mmap_ok P mmap"
  defines "n \<equiv> buf_pages P sz"
  shows "case vsf_secbuf_alloc P mmap 0 sz s of
      Inl stopped \<Rightarrow> stopped = Bug ''mmap''
    | Inr (p, s') \<Rightarrow> \<exists>b. 0 < b \<and> p + sz = (b + n + 1) * P \<and> p - p mod P = (b + 1) * P \<and> (b + 1) * P \<le> p \<and>
        page_prot s' = with_buf b n (page_prot s) \<and> ints s' (b * P) = (n + 2) * P \<and>
        (\<forall>q. b \<le> q \<and> q < b + n + 2 \<longrightarrow> page_prot s q = None)"
proof (cases "mmap ((n + 2) * P) s")
  case None
  then show ?thesis
    using assms by (simp add: vsf_secbuf_alloc_def vsf_secbuf_free_def vsf_sysutil_getpagesize_def vsf_sysutil_map_anon_pages_def
        round_up_pages halt_simps)
next
  case (Some a)
  note pages = round_up_pages [OF assms(1,2), folded n_def]
  let ?pad = "if sz mod P \<noteq> 0 then P - sz mod P else 0"
  from assms(3) Some have a: "0 < a" "a mod P = 0" "\<And>q. a div P \<le> q \<Longrightarrow> q * P < a + (n + 2) * P \<Longrightarrow> page_prot s q = None"
    unfolding mmap_ok_def by blast+
  define b where "b = a div P"
  have ab: "a = b * P" using a(2) by (auto simp: b_def)
  have b: "0 < b" using a(1) ab by (cases b) simp_all
  have unused: "page_prot s q = None" if "b \<le> q" "q < b + n + 2" for q
  proof -
    have "q * P < (b + n + 2) * P" using that(2) assms(1) by (simp only: mult_less_cancel2)
    then show ?thesis using a(3) [of q] that(1) assms(1) by (simp add: ab algebra_simps)
  qed
  have last: "b * P + (n + 2) * P - P = (b + n + 1) * P" by (simp add: algebra_simps)
  define s1 where "s1 = set_pages P (b * P) ((n + 2) * P) (Some ProtReadWrite) s"
  define s2 where "s2 = set_pages P ((b + n + 1) * P) P (Some ProtNone) s1"
  define s3 where "s3 = s2\<lparr>ints := (ints s2)(b * P := (n + 2) * P)\<rparr>"
  define s4 where "s4 = set_pages P (b * P) P (Some ProtNone) s3"
  note aligned = set_pages_aligned(1,2) [OF assms(1)]
  have prot1: "page_prot s1 = (\<lambda>q. if b \<le> q \<and> q < b + (n + 2) then Some ProtReadWrite else page_prot s q)"
    unfolding s1_def by (rule aligned)
  have prot2: "page_prot s2 = (page_prot s1)(b + n + 1 := Some ProtNone)" unfolding s2_def by (rule aligned)
  have prot3: "page_prot s3 = page_prot s2" by (simp add: s3_def)
  have 1: "vsf_sysutil_memprotect P ((b + n + 1) * P) P ProtNone s1 = Inr s2"
    unfolding s2_def using assms(1) by (intro memprotect_page) (simp_all add: prot1)
  have 2: "store_int P (b * P) ((n + 2) * P) s2 = Inr s3"
    using assms(1) by (simp add: store_int_def writable_def s3_def prot1 prot2)
  have 3: "vsf_sysutil_memprotect P (b * P) P ProtNone s3 = Inr s4"
    unfolding s4_def using assms(1) by (intro memprotect_page) (simp_all add: prot1 prot2 prot3)
  have 0: "vsf_sysutil_map_anon_pages P mmap (round_up P sz) s = Inr (b * P, s1)"
    unfolding vsf_sysutil_map_anon_pages_def pages(1) Some ab s1_def by simp
  have run: "vsf_secbuf_alloc P mmap 0 sz s = Inr (b * P + P + ?pad, s4)"
    using assms(1) 1 [folded last, folded pages(1)] 2 [folded pages(1)] 3 0
    by (simp add: vsf_secbuf_alloc_def vsf_secbuf_free_def vsf_sysutil_getpagesize_def Let_def)
  have prot: "page_prot s4 = with_buf b n (page_prot s)"
    unfolding s4_def aligned prot1 prot2 prot3 by (auto simp: with_buf_def fun_eq_iff)
  have "?pad < P" using assms(1) by auto
  then have base: "b * P + P + ?pad - (b * P + P + ?pad) mod P = (b + 1) * P"
  proof -
    have "(b * P + P + ?pad) mod P = (?pad + (b + 1) * P) mod P" by (simp add: algebra_simps)
    also have "\<dots> = ?pad" using \<open>?pad < P\<close> by (subst mod_mult_self1) simp
    finally show ?thesis by simp
  qed
  show ?thesis
    unfolding run sum.case prod.case
  proof (intro exI [of _ b] conjI allI impI)
    show "b * P + P + ?pad + sz = (b + n + 1) * P" using pages(2) by (simp only: add_mult_distrib)
    show "ints s4 (b * P) = (n + 2) * P" by (simp add: s4_def s3_def set_pages_aligned)
  qed (use b base prot unused in auto)
qed

lemma free_run:
  assumes "0 < P" and "page_prot s' = with_buf b n pp" and "ints s' (b * P) = (n + 2) * P" and "p - p mod P = (b + 1) * P"
    and "\<And>q. b \<le> q \<Longrightarrow> q < b + n + 2 \<Longrightarrow> pp q = None"
  shows "\<exists>s''. vsf_secbuf_free P p s' = Inr s'' \<and> page_prot s'' = pp"
proof -
  have p: "p \<noteq> 0" using assms(1,4) by (cases p) auto
  have start: "p - p mod P - P = b * P" using assms(4) by simp
  let ?s1 = "set_pages P (b * P) P (Some ProtRead) s'"
  have 1: "vsf_sysutil_memprotect P (b * P) P ProtRead s' = Inr ?s1"
    using assms(1,2) by (intro memprotect_page) (simp_all add: with_buf_def)
  have 2: "load_int P (b * P) ?s1 = Inr ((n + 2) * P)"
    using assms(1,3) by (simp add: load_int_def readable_def set_pages_aligned)
  have 3: "page_prot (set_pages P (b * P) ((n + 2) * P) None ?s1) = pp"
    unfolding set_pages_aligned(1,2) [OF assms(1)] assms(2) using assms(5) by (auto simp: with_buf_def fun_eq_iff)
  show ?thesis
    using 3 p assms(1)
    by (intro exI [of _ "set_pages P (b * P) ((n + 2) * P) None ?s1"])
      (simp add: vsf_secbuf_free_def vsf_sysutil_getpagesize_def Let_def start 1 2 vsf_sysutil_memunmap_def
        del: mult_Suc add_2_eq_Suc' diff_diff_left)
qed

text \<open>
  Secure buffers. With a size whose pages fit an \<open>unsigned int\<close>, a new buffer is entirely writable, the byte directly behind its last one may
  not be touched, whatever the size is (and neither may the page before its first one), and no page that was in use changes. Only a
  refused mapping stops the process. Freeing the buffer finds the size of the mapping in that first page and gives back exactly these pages.
\<close>

theorem secbuf_guarded:
  assumes "0 < P" and "sz + 3 * P < 4294967296" and "mmap_ok P mmap"
  shows "case vsf_secbuf_alloc P mmap 0 sz s of
      Inl stopped \<Rightarrow> stopped = Bug ''mmap''
    | Inr (p, s') \<Rightarrow>
        (\<forall>i < sz. writable P (p + i) s') \<and> \<not> readable P (p + sz) s' \<and> \<not> readable P (p - p mod P - 1) s' \<and>
        (\<forall>q. page_prot s q \<noteq> None \<longrightarrow> page_prot s' q = page_prot s q) \<and>
        (\<exists>s''. vsf_secbuf_free P p s' = Inr s'' \<and> page_prot s'' = page_prot s)"
proof (cases "vsf_secbuf_alloc P mmap 0 sz s")
  case (Inr r)
  obtain p s' where r: "r = (p, s')" by (cases r)
  obtain b where b: "0 < b" "p + sz = (b + buf_pages P sz + 1) * P" "p - p mod P = (b + 1) * P" "(b + 1) * P \<le> p"
      "page_prot s' = with_buf b (buf_pages P sz) (page_prot s)" "ints s' (b * P) = (buf_pages P sz + 2) * P"
      "\<And>q. b \<le> q \<Longrightarrow> q < b + buf_pages P sz + 2 \<Longrightarrow> page_prot s q = None"
    using alloc_run [OF assms, of s] by (auto simp: Inr r)
  have "writable P (p + i) s'" if "i < sz" for i
  proof -
    have "(b + 1) * P \<le> p + i" "p + i < (b + buf_pages P sz + 1) * P" using b(2,4) that by auto
    then have "b + 1 \<le> (p + i) div P" "(p + i) div P < b + buf_pages P sz + 1"
      using assms(1) by (metis div_le_mono nonzero_mult_div_cancel_right less_numeral_extra(3), metis less_mult_imp_div_less)
    then show ?thesis by (simp add: writable_def b(5) with_buf_def)
  qed
  moreover have "\<not> readable P (p + sz) s'"
    unfolding b(2) using assms(1) by (simp add: readable_def b(5) with_buf_def del: mult_Suc)
  moreover have "(p - p mod P - 1) div P = b"
  proof -
    have "p - p mod P - 1 = P - 1 + b * P" using b(3) assms(1) by simp
    then show ?thesis using assms(1) by (simp only: div_mult_self1) simp
  qed
  then have "\<not> readable P (p - p mod P - 1) s'" by (simp add: readable_def b(5) with_buf_def)
  moreover have "page_prot s' q = page_prot s q" if "page_prot s q \<noteq> None" for q
    using that b(7) [of q] by (auto simp: b(5) with_buf_def)
  ultimately show ?thesis using free_run [OF assms(1) b(5,6,3,7)] by (simp add: Inr r)
qed (use alloc_run [OF assms, of s] in simp)

text \<open>A kernel that has memory for one mapping, at address 8192, and a buffer of 5000 bytes.\<close>

definition one_mapping :: mmap where
  "one_mapping len s = (if \<forall>q \<in> set [2 ..< (8192 + len + 4095) div 4096]. page_prot s q = None then Some 8192 else None)"

lemma secbuf_guarded_witness:
  "mmap_ok 4096 one_mapping \<and>
   (\<exists>s'. vsf_secbuf_alloc 4096 one_mapping 0 5000 \<lparr>page_prot = (\<lambda>q. None), ints = (\<lambda>a. 0)\<rparr> = Inr (15480, s') \<and>
     writable 4096 15480 s' \<and> writable 4096 20479 s' \<and> \<not> readable 4096 20480 s')"
proof -
  have "q < (8192 + len + 4095) div 4096" if "q * 4096 < 8192 + len" for q len :: nat
    using that by (simp add: less_eq_div_iff_mult_less_eq Suc_le_eq [symmetric])
  then have ok: "mmap_ok 4096 one_mapping" by (auto simp: mmap_ok_def one_mapping_def split: if_splits)
  obtain s' where run: "vsf_secbuf_alloc 4096 one_mapping 0 5000 \<lparr>page_prot = (\<lambda>q. None), ints = (\<lambda>a. 0)\<rparr> = Inr (15480, s')"
    by (simp add: vsf_secbuf_alloc_def vsf_secbuf_free_def vsf_sysutil_getpagesize_def vsf_sysutil_map_anon_pages_def one_mapping_def
        round_up_def vsf_sysutil_memprotect_def store_int_def writable_def set_pages_def Let_def upt_conv_Cons)
  have "\<forall>i < 5000. writable 4096 (15480 + i) s'" "\<not> readable 4096 (15480 + 5000) s'"
    using secbuf_guarded [of 4096 5000, OF _ _ ok, of "\<lparr>page_prot = (\<lambda>q. None), ints = (\<lambda>a. 0)\<rparr>"] by (simp_all add: run)
  then show ?thesis using ok run by (auto dest: spec [of _ 0] spec [of _ 4999])
qed

end
