(* ===== verification/Tls.thy ===== *)
theory Tls
  imports Netstr Tunables
begin

text \<open>
  \<^verbatim>\<open>ssl.c\<close> on top of OpenSSL, which is a parameter: what a call returns may depend on all calls before it. Other theories see TLS as
  requests (\<open>Ftpdataio.ssl_accept\<close> and others); here is what the code does for them: setting up the library, handshakes, the check of the certificate and of the
  session of a data connection, reading, writing and closing.
\<close>

section \<open>OpenSSL\<close>

datatype conn = ControlConn | DataConn

datatype ssl_call =
    SslNew conn
  | SslSetFd conn int
  | SslDoAccept conn
  | SslRead conn nat
  | SslPeek conn nat
  | SslWrite conn string
  | SslShutdown conn
  | SslFree conn

text \<open>
  \<open>o_ret\<close>: the result of a call after the calls before it (newest first). \<open>o_wants\<close>: how often a call first asks to be tried again
  (\<^verbatim>\<open>SSL_ERROR_WANT_READ\<close>, \<^verbatim>\<open>SSL_ERROR_WANT_WRITE\<close>), finitely often in a row. \<open>o_data\<close>: the bytes that a call puts into the buffer. \<open>o_shutdown\<close>:
  \<open>SSL_get_shutdown\<close>. \<open>o_reused\<close>: \<open>SSL_session_reused\<close>. \<open>o_digest\<close>: the digest of the certificate of the peer, if it has sent one; \<open>Some None\<close> when it
  cannot be computed. The texts are for the log.
\<close>

record openssl =
  o_ret :: "ssl_call list \<Rightarrow> ssl_call \<Rightarrow> int"
  o_wants :: "ssl_call list \<Rightarrow> ssl_call \<Rightarrow> nat"
  o_data :: "ssl_call list \<Rightarrow> ssl_call \<Rightarrow> string"
  o_shutdown :: "ssl_call list \<Rightarrow> conn \<Rightarrow> int"
  o_reused :: "ssl_call list \<Rightarrow> conn \<Rightarrow> bool"
  o_digest :: "ssl_call list \<Rightarrow> conn \<Rightarrow> string option option"
  o_error :: "ssl_call list \<Rightarrow> string"
  o_version :: "ssl_call list \<Rightarrow> string"
  o_cipher :: "ssl_call list \<Rightarrow> string"
  o_errno :: "ssl_call list \<Rightarrow> nat"

abbreviation (input) SSL_SENT_SHUTDOWN :: int where "SSL_SENT_SHUTDOWN \<equiv> 1"
abbreviation (input) SSL_RECEIVED_SHUTDOWN :: int where "SSL_RECEIVED_SHUTDOWN \<equiv> 2"

text \<open>
  The fields of the session that \<^verbatim>\<open>ssl.c\<close> uses: whether there are SSL objects (\<open>p_control_ssl\<close>, \<open>p_data_ssl\<close>), the digest of the certificate of the control
  connection; the calls of the library; and the debug lines for the log.
\<close>

record tls =
  ssl_calls :: "ssl_call list"
  control_ssl :: bool
  data_ssl :: bool
  control_cert_digest :: string
  debug_lines :: "string list"

definition ssl_do :: "ssl_call \<Rightarrow> tls \<Rightarrow> tls" where
  "ssl_do c s = s\<lparr>ssl_calls := c # ssl_calls s\<rparr>"

definition debug_line :: "string \<Rightarrow> tls \<Rightarrow> tls" where
  "debug_line l s = s\<lparr>debug_lines := l # debug_lines s\<rparr>"

definition debug_if :: "tunables \<Rightarrow> string \<Rightarrow> tls \<Rightarrow> tls" where
  "debug_if t l s = (if t_bool t ''debug_ssl'' then debug_line l s else s)"

section \<open>Setting up\<close>

datatype ctx_call =
    CtxNew
  | CtxOptions bool bool bool
  | CtxCertificate string
  | CtxPrivateKey string
  | CtxCiphers string
  | RandStatus
  | CtxVerify bool bool
  | CtxVerifyLocations string
  | ClientCAFile string
  | CtxClientCAList
  | CtxSessionId string
  | CtxTimeout nat

text \<open>A call whose result has to be good.\<close>

definition ctx_must :: "(ctx_call \<Rightarrow> int) \<Rightarrow> (int \<Rightarrow> bool) \<Rightarrow> ctx_call \<Rightarrow> string \<Rightarrow> ctx_call list \<Rightarrow> ctx_call list result" where
  "ctx_must o_ctx good c p_text cs = (if good (o_ctx c) then Inr (c # cs) else die p_text)"

definition load_key_pair ::
  "(ctx_call \<Rightarrow> int) \<Rightarrow> string option \<Rightarrow> string option \<Rightarrow> string \<Rightarrow> string \<Rightarrow> ctx_call list \<Rightarrow> ctx_call list result" where
  "load_key_pair o_ctx cert_file key_file p_cert_text p_key_text cs =
     (case cert_file of
        None \<Rightarrow> Inr cs
      | Some cert \<Rightarrow>
          andthen (ctx_must o_ctx (\<lambda>r. r = 1) (CtxCertificate cert) p_cert_text cs)
            (ctx_must o_ctx (\<lambda>r. r = 1) (CtxPrivateKey (case key_file of None \<Rightarrow> cert | Some k \<Rightarrow> k)) p_key_text))"

definition ctx_verify :: "(ctx_call \<Rightarrow> int) \<Rightarrow> tunables \<Rightarrow> ctx_call list \<Rightarrow> ctx_call list result" where
  "ctx_verify o_ctx t cs =
     (if t_bool t ''ssl_request_cert'' \<or> t_bool t ''require_cert''
      then let cs = CtxVerify (t_bool t ''ssl_request_cert'') (t_bool t ''require_cert'') # cs in
           (case t_str t ''ca_certs_file'' of
              None \<Rightarrow> Inr cs
            | Some ca \<Rightarrow>
                andthen (ctx_must o_ctx (\<lambda>r. r \<noteq> 0) (CtxVerifyLocations ca) ''SSL: could not load verify file'' cs) (\<lambda>cs.
                andthen (ctx_must o_ctx (\<lambda>r. r \<noteq> 0) (ClientCAFile ca) ''SSL: could not load client certs file'' cs) (\<lambda>cs.
                Inr (CtxClientCAList # cs))))
      else Inr cs)"

text \<open>The calls that are made, newest first; none when the library was set up before.\<close>

definition ssl_init :: "bool \<Rightarrow> (ctx_call \<Rightarrow> int) \<Rightarrow> tunables \<Rightarrow> ctx_call list result" where
  "ssl_init ssl_inited o_ctx t =
     (if ssl_inited then Inr [] else
     andthen (ctx_must o_ctx (\<lambda>r. r \<noteq> 0) CtxNew ''SSL: could not allocate SSL context'' []) (\<lambda>cs.
     andthen (Inr (CtxOptions (\<not> t_bool t ''sslv2'') (\<not> t_bool t ''sslv3'') (\<not> t_bool t ''tlsv1'') # cs)) (\<lambda>cs.
     andthen (load_key_pair o_ctx (t_str t ''rsa_cert_file'') (t_str t ''rsa_private_key_file'') ''SSL: cannot load RSA certificate''
               ''SSL: cannot load RSA private key'' cs) (\<lambda>cs.
     andthen (load_key_pair o_ctx (t_str t ''dsa_cert_file'') (t_str t ''dsa_private_key_file'') ''SSL: cannot load DSA certificate''
               ''SSL: cannot load DSA private key'' cs) (\<lambda>cs.
     andthen (case t_str t ''ssl_ciphers'' of None \<Rightarrow> Inr cs
              | Some c \<Rightarrow> ctx_must o_ctx (\<lambda>r. r = 1) (CtxCiphers c) ''SSL: could not set cipher list'' cs) (\<lambda>cs.
     andthen (ctx_must o_ctx (\<lambda>r. r = 1) RandStatus ''SSL: RNG is not seeded'' cs) (\<lambda>cs.
     andthen (ctx_verify o_ctx t cs) (\<lambda>cs.
     Inr ((if t_bool t ''require_ssl_reuse'' then [CtxTimeout INT_MAX] else []) @ CtxSessionId ''vsftpd'' # cs)))))))))"

definition ssl_verify_callback :: "tunables \<Rightarrow> int \<Rightarrow> int" where
  "ssl_verify_callback t verify_ok = (if t_bool t ''validate_cert'' then verify_ok else 1)"

text \<open>\<open>loaded\<close> is what \<open>RAND_load_file\<close> returns.\<close>

definition ssl_add_entropy :: "int \<Rightarrow> tls \<Rightarrow> tls" where
  "ssl_add_entropy loaded s =
     (if loaded \<noteq> 16 then debug_line (''Couldn't add extra OpenSSL entropy: '' @ vsf_sysutil_ulong_to_str (nat (loaded mod 2 ^ 64))) s else s)"

section \<open>Reading and writing\<close>

text \<open>The tries that a call asks for again, before the one that counts.\<close>

primrec ssl_retry :: "nat \<Rightarrow> ssl_call \<Rightarrow> tls \<Rightarrow> tls" where
  "ssl_retry 0 c s = s"
| "ssl_retry (Suc n) c s = ssl_retry n c (ssl_do c s)"

definition ssl_read_common :: "openssl \<Rightarrow> tunables \<Rightarrow> conn \<Rightarrow> ssl_call \<Rightarrow> tls \<Rightarrow> int \<times> string \<times> tls" where
  "ssl_read_common L t k c s =
     (let s = ssl_retry (o_wants L (ssl_calls s) c) c s; retval = o_ret L (ssl_calls s) c; d = take (nat retval) (o_data L (ssl_calls s) c);
          s = ssl_do c s
      in if retval = 0 \<and> o_shutdown L (ssl_calls s) k \<noteq> SSL_RECEIVED_SHUTDOWN
         then let s = debug_line ''Connection terminated without SSL shutdown - buggy client?'' s
              in (if t_bool t ''strict_ssl_read_eof'' then -1 else retval, d, s)
         else (retval, d, s))"

definition ssl_read :: "openssl \<Rightarrow> tunables \<Rightarrow> conn \<Rightarrow> tls \<Rightarrow> nat \<Rightarrow> int \<times> string \<times> tls" where
  "ssl_read L t k s len = ssl_read_common L t k (SslRead k len) s"

definition ssl_peek :: "openssl \<Rightarrow> tunables \<Rightarrow> conn \<Rightarrow> tls \<Rightarrow> nat \<Rightarrow> int \<times> string \<times> tls" where
  "ssl_peek L t k s len = ssl_read_common L t k (SslPeek k len) s"

definition ssl_write :: "openssl \<Rightarrow> conn \<Rightarrow> string \<Rightarrow> tls \<Rightarrow> int \<times> tls" where
  "ssl_write L k p_buf s =
     (let c = SslWrite k p_buf; s = ssl_retry (o_wants L (ssl_calls s) c) c s in (o_ret L (ssl_calls s) c, ssl_do c s))"

text \<open>This one is not tried again: when the library wants that, it has returned -1.\<close>

definition ssl_write_str :: "openssl \<Rightarrow> conn \<Rightarrow> string \<Rightarrow> tls \<Rightarrow> int \<times> tls" where
  "ssl_write_str L k p_str s =
     (let c = SslWrite k p_str; r = (if o_wants L (ssl_calls s) c > 0 then -1 else o_ret L (ssl_calls s) c)
      in (if r \<noteq> int (length p_str) then -1 else 0, ssl_do c s))"

definition ssl_read_into_str :: "openssl \<Rightarrow> tunables \<Rightarrow> conn \<Rightarrow> nat \<Rightarrow> tls \<Rightarrow> int \<times> string \<times> tls" where
  "ssl_read_into_str L t k len s =
     (case ssl_read L t k s len of (ret, d, s) \<Rightarrow> (ret, if ret \<ge> 0 then take (nat ret) d else [], s))"

section \<open>Closing\<close>

definition maybe_log_shutdown_state :: "openssl \<Rightarrow> tunables \<Rightarrow> tls \<Rightarrow> tls" where
  "maybe_log_shutdown_state L t s =
     (let r = o_shutdown L (ssl_calls s) DataConn in
      debug_if t (''SSL shutdown state is: '' @
        (if r = 0 then ''NONE'' else if r = SSL_SENT_SHUTDOWN then ''SSL_SENT_SHUTDOWN''
         else if r = SSL_RECEIVED_SHUTDOWN then ''SSL_RECEIVED_SHUTDOWN'' else vsf_sysutil_ulong_to_str (nat (r mod 2 ^ 64)))) s)"

definition maybe_log_ssl_error_state :: "openssl \<Rightarrow> tunables \<Rightarrow> int \<Rightarrow> tls \<Rightarrow> tls" where
  "maybe_log_ssl_error_state L t r s =
     debug_if t (''SSL ret: '' @ vsf_sysutil_ulong_to_str (nat (r mod 2 ^ 64)) @ '', SSL error: '' @
       c_str (o_error L (ssl_calls s)) @ '', errno: '' @ vsf_sysutil_ulong_to_str (o_errno L (ssl_calls s))) s"

definition ssl_shutdown :: "openssl \<Rightarrow> tls \<Rightarrow> int \<times> tls" where
  "ssl_shutdown L s = (o_ret L (ssl_calls s) (SslShutdown DataConn), ssl_do (SslShutdown DataConn) s)"

definition ssl_data_close_tls :: "openssl \<Rightarrow> tunables \<Rightarrow> tls \<Rightarrow> int \<times> tls" where
  "ssl_data_close_tls L t s =
     (if \<not> data_ssl s then (1, s)
      else let strict = (if t_bool t ''strict_ssl_write_shutdown'' then 0 else 1 :: int) in
        case ssl_shutdown L (maybe_log_shutdown_state L t s) of (r, s) \<Rightarrow>
        let s = maybe_log_shutdown_state L t s in
        case (if r = 0
              then (case ssl_shutdown L s of (r, s) \<Rightarrow>
                    let s = maybe_log_shutdown_state L t s in
                    if r \<noteq> 1 then (strict, maybe_log_ssl_error_state L t r (maybe_log_shutdown_state L t s)) else (1, s))
              else if r < 0 then (strict, maybe_log_ssl_error_state L t r s)
              else (1, s)) of (success, s) \<Rightarrow>
        (success, (ssl_do (SslFree DataConn) s)\<lparr>data_ssl := False\<rparr>))"

section \<open>Handshakes\<close>

definition get_ssl :: "openssl \<Rightarrow> tunables \<Rightarrow> conn \<Rightarrow> int \<Rightarrow> tls \<Rightarrow> (bool \<times> tls) result" where
  "get_ssl L t k fd s =
     (let r = o_ret L (ssl_calls s) (SslNew k); s = ssl_do (SslNew k) s in
      if r = 0 then Inr (False, debug_if t ''SSL_new failed'' s)
      else let r = o_ret L (ssl_calls s) (SslSetFd k fd); s = ssl_do (SslSetFd k fd) s in
      if r = 0 then Inr (False, ssl_do (SslFree k) (debug_if t ''SSL_set_fd failed'' s))
      else let r = o_ret L (ssl_calls s) (SslDoAccept k); s = ssl_do (SslDoAccept k) s in
      if r \<noteq> 1 then die (c_str (o_error L (ssl_calls s)))
      else Inr (True, debug_if t (''SSL version: '' @ o_version L (ssl_calls s) @ '', SSL cipher: '' @ o_cipher L (ssl_calls s) @
             (if o_reused L (ssl_calls s) k then '', reused'' else '', not reused'') @
             (if o_digest L (ssl_calls s) k \<noteq> None then '', CERT PRESENTED'' else '', no cert'')) s))"

text \<open>The digest as numbers, for the log.\<close>

definition digest_text :: "string \<Rightarrow> string" where
  "digest_text d = ''Cert digest:'' @ concat (map (\<lambda>c. '' '' @ vsf_sysutil_ulong_to_str (code c)) d)"

definition ssl_cert_digest :: "openssl \<Rightarrow> tunables \<Rightarrow> conn \<Rightarrow> tls \<Rightarrow> (string option \<times> tls) result" where
  "ssl_cert_digest L t k s =
     (case o_digest L (ssl_calls s) k of
        None \<Rightarrow> Inr (None, s)
      | Some None \<Rightarrow> die ''X509_digest failed''
      | Some (Some d) \<Rightarrow> Inr (Some d, debug_if t (digest_text d) s))"

definition ssl_session_init :: "openssl \<Rightarrow> tunables \<Rightarrow> tls \<Rightarrow> (bool \<times> tls) result" where
  "ssl_session_init L t s =
     andthen (get_ssl L t ControlConn 0 s) (\<lambda>(ok, s).
     if \<not> ok then Inr (False, s)
     else andthen (ssl_cert_digest L t ControlConn (s\<lparr>control_ssl := True\<rparr>)) (\<lambda>(d, s).
          Inr (True, case d of None \<Rightarrow> s | Some d \<Rightarrow> s\<lparr>control_cert_digest := d\<rparr>)))"

definition refuse_data :: "openssl \<Rightarrow> tunables \<Rightarrow> string \<Rightarrow> tls \<Rightarrow> int \<times> tls" where
  "refuse_data L t l s = (0, snd (ssl_data_close_tls L t (debug_line l s)))"

text \<open>The client has shown a certificate on the control connection.\<close>

definition accept_cert :: "openssl \<Rightarrow> tunables \<Rightarrow> tls \<Rightarrow> (int \<times> tls) result" where
  "accept_cert L t s =
     andthen (ssl_cert_digest L t DataConn s) (\<lambda>(d, s).
     case d of
       None \<Rightarrow> Inr (refuse_data L t ''Missing cert on data channel.'' s)
     | Some d \<Rightarrow>
         if str_strcmp (control_cert_digest s) d \<noteq> 0
         then Inr (refuse_data L t ''DIFFERENT cert on data channel.'' s)
         else Inr (1, debug_if t ''Matching cert on data channel.'' s))"

definition ssl_accept_tls :: "openssl \<Rightarrow> tunables \<Rightarrow> int \<Rightarrow> tls \<Rightarrow> (int \<times> tls) result" where
  "ssl_accept_tls L t fd s =
     (if data_ssl s then die ''p_data_ssl should be NULL.''
      else andthen (get_ssl L t DataConn fd s) (\<lambda>(ok, s).
      if \<not> ok then Inr (0, s)
      else let s = s\<lparr>data_ssl := True\<rparr> in
      if t_bool t ''require_ssl_reuse'' \<and> \<not> o_reused L (ssl_calls s) DataConn
      then Inr (refuse_data L t ''No SSL session reuse on data channel.'' s)
      else if length (control_cert_digest s) > 0 then accept_cert L t s
      else Inr (1, s)))"

section \<open>What is guaranteed\<close>

text \<open>The library has an object for the connection \<open>k\<close>: it was made and not freed yet.\<close>

fun ssl_live :: "openssl \<Rightarrow> conn \<Rightarrow> ssl_call list \<Rightarrow> bool" where
  "ssl_live L k [] = False"
| "ssl_live L k (c # cs) =
     (if c = SslNew k then o_ret L cs c \<noteq> 0 else if c = SslFree k then False else ssl_live L k cs)"

text \<open>The session has a pointer to an object of the data connection exactly when there is one.\<close>

definition tls_ok :: "openssl \<Rightarrow> tls \<Rightarrow> bool" where
  "tls_ok L s \<longleftrightarrow> data_ssl s = ssl_live L DataConn (ssl_calls s)"

text \<open>Calls that neither make nor free an object.\<close>

fun plain_ssl :: "ssl_call \<Rightarrow> bool" where
  "plain_ssl (SslNew k) = False"
| "plain_ssl (SslFree k) = False"
| "plain_ssl c = True"

lemma live_plain [simp]: "plain_ssl c \<Longrightarrow> ssl_live L k (c # cs) = ssl_live L k cs"
  by (cases c) auto

lemma debug_sels [simp]:
  "ssl_calls (debug_line l s) = ssl_calls s" "data_ssl (debug_line l s) = data_ssl s" "control_cert_digest (debug_line l s) = control_cert_digest s"
  "ssl_calls (debug_if t l s) = ssl_calls s" "data_ssl (debug_if t l s) = data_ssl s"
  "control_cert_digest (debug_if t l s) = control_cert_digest s"
  by (simp_all add: debug_line_def debug_if_def)

lemma log_sels [simp]:
  "ssl_calls (maybe_log_shutdown_state L t s) = ssl_calls s" "data_ssl (maybe_log_shutdown_state L t s) = data_ssl s"
  "control_cert_digest (maybe_log_shutdown_state L t s) = control_cert_digest s"
  "ssl_calls (maybe_log_ssl_error_state L t r s) = ssl_calls s" "data_ssl (maybe_log_ssl_error_state L t r s) = data_ssl s"
  "control_cert_digest (maybe_log_ssl_error_state L t r s) = control_cert_digest s"
  by (simp_all add: maybe_log_shutdown_state_def maybe_log_ssl_error_state_def Let_def)

lemma do_sels [simp]:
  "ssl_calls (ssl_do c s) = c # ssl_calls s" "data_ssl (ssl_do c s) = data_ssl s" "control_cert_digest (ssl_do c s) = control_cert_digest s"
  by (simp_all add: ssl_do_def)

lemma retry_sels [simp]:
  "data_ssl (ssl_retry n c s) = data_ssl s" "control_cert_digest (ssl_retry n c s) = control_cert_digest s"
  by (induction n arbitrary: s) simp_all

lemma live_retry [simp]: "plain_ssl c \<Longrightarrow> ssl_live L k (ssl_calls (ssl_retry n c s)) = ssl_live L k (ssl_calls s)"
  by (induction n arbitrary: s) (simp_all del: ssl_live.simps)

lemma io_ok:
  "tls_ok L s \<Longrightarrow> ssl_read L t k s len = (r, d, s') \<Longrightarrow> tls_ok L s'"
  "tls_ok L s \<Longrightarrow> ssl_peek L t k s len = (r, d, s') \<Longrightarrow> tls_ok L s'"
  "tls_ok L s \<Longrightarrow> ssl_write L k b s = (r, s') \<Longrightarrow> tls_ok L s'"
  by (auto simp: ssl_read_def ssl_peek_def ssl_read_common_def ssl_write_def tls_ok_def Let_def split: if_splits)

lemma close_effect:
  assumes "tls_ok L s" and "ssl_data_close_tls L t s = (r, s')"
  shows "tls_ok L s' \<and> \<not> data_ssl s' \<and> control_cert_digest s' = control_cert_digest s \<and> (r = 0 \<or> r = 1)"
  using assms
  by (auto simp: ssl_data_close_tls_def ssl_shutdown_def tls_ok_def Let_def split: if_splits prod.splits)

lemma get_ssl_effect:
  assumes "get_ssl L t DataConn fd s = Inr (ok, s')" and "\<not> ssl_live L DataConn (ssl_calls s)"
  shows "ssl_live L DataConn (ssl_calls s') = ok \<and> data_ssl s' = data_ssl s \<and> control_cert_digest s' = control_cert_digest s \<and>
    (ok \<longrightarrow> (\<exists>cs. ssl_calls s' = [SslDoAccept DataConn, SslSetFd DataConn fd] @ cs \<and>
       o_ret L ([SslSetFd DataConn fd] @ cs) (SslDoAccept DataConn) = 1))"
  using assms by (auto simp: get_ssl_def halt_simps Let_def split: if_splits)

lemma digest_effect:
  assumes "ssl_cert_digest L t k s = Inr (d, s')"
  shows "ssl_calls s' = ssl_calls s \<and> data_ssl s' = data_ssl s \<and> control_cert_digest s' = control_cert_digest s \<and>
    (\<forall>x. d = Some x \<longrightarrow> o_digest L (ssl_calls s) k = Some (Some x))"
  using assms by (auto simp: ssl_cert_digest_def halt_simps split: option.splits)

lemma accept_cert_effect:
  assumes "accept_cert L t s = Inr (r, s')" and "tls_ok L s" and "short_str (control_cert_digest s)"
    and "\<And>cs d. o_digest L cs DataConn = Some (Some d) \<Longrightarrow> short_str d"
  shows "(\<exists>l s2. (r, s') = refuse_data L t l s2 \<and> tls_ok L s2 \<and> control_cert_digest s2 = control_cert_digest s) \<or>
    (r = 1 \<and> ssl_calls s' = ssl_calls s \<and> data_ssl s' = data_ssl s \<and> control_cert_digest s' = control_cert_digest s \<and>
     o_digest L (ssl_calls s) DataConn = Some (Some (control_cert_digest s)))"
proof -
  obtain d s2 where d: "ssl_cert_digest L t DataConn s = Inr (d, s2)"
    using assms(1) by (auto simp: accept_cert_def andthen_Inr_iff)
  note f = digest_effect [OF d]
  have s2: "tls_ok L s2" using f assms(2) by (simp add: tls_ok_def)
  show ?thesis
  proof (cases "\<exists>x. d = Some x \<and> str_strcmp (control_cert_digest s2) x = 0")
    case True
    then obtain x where x: "d = Some x" "str_strcmp (control_cert_digest s2) x = 0" by blast
    have "x = control_cert_digest s" using x f assms(3,4) str_strcmp_eq by metis
    then show ?thesis using x f assms(1) by (auto simp: accept_cert_def d)
  next
    case False
    then obtain l where "refuse_data L t l s2 = (r, s')" using assms(1) by (cases d) (auto simp: accept_cert_def d)
    then show ?thesis using f s2 by (intro disjI1 exI [of _ l] exI [of _ s2]) simp
  qed
qed

text \<open>
  C16: data connections under TLS. When \<open>ssl_accept\<close> reports success the handshake on the given descriptor has succeeded, the session of the
  control connection was reused where the configuration demands it, and the client has shown the same certificate as on the control
  connection if it has shown one there. Otherwise it reports failure. Either way the session has an object of the library exactly if the connection was
  accepted, so that none is lost and none is used after it was freed.
\<close>

theorem data_connection_checked:
  assumes "tls_ok L s" and "ssl_accept_tls L t fd s = Inr (r, s')" and "short_str (control_cert_digest s)"
    and "\<And>cs d. o_digest L cs DataConn = Some (Some d) \<Longrightarrow> short_str d"
  shows "tls_ok L s' \<and> control_cert_digest s' = control_cert_digest s \<and>
    (if data_ssl s'
     then r = 1 \<and>
       (\<exists>cs. ssl_calls s' = [SslDoAccept DataConn, SslSetFd DataConn fd] @ cs \<and>
          o_ret L ([SslSetFd DataConn fd] @ cs) (SslDoAccept DataConn) = 1) \<and>
       (t_bool t ''require_ssl_reuse'' \<longrightarrow> o_reused L (ssl_calls s') DataConn) \<and>
       (control_cert_digest s = [] \<or> o_digest L (ssl_calls s') DataConn = Some (Some (control_cert_digest s)))
     else r = 0)"
proof -
  have fresh: "\<not> data_ssl s" "\<not> ssl_live L DataConn (ssl_calls s)"
    using assms(1,2) by (auto simp: tls_ok_def ssl_accept_tls_def halt_simps split: if_splits)
  obtain ok s1 where g: "get_ssl L t DataConn fd s = Inr (ok, s1)"
    using assms(2) fresh by (auto simp: ssl_accept_tls_def andthen_Inr_iff)
  note e = get_ssl_effect [OF g fresh(2)]
  have refused: ?thesis if "(r, s') = refuse_data L t l s2" "tls_ok L s2" "control_cert_digest s2 = control_cert_digest s" for l s2
  proof -
    have "tls_ok L (debug_line l s2)" using that(2) by (simp add: tls_ok_def)
    from close_effect [OF this prod.collapse [symmetric], of t] that(1,3) show ?thesis by (simp add: refuse_data_def)
  qed
  show ?thesis
  proof (cases ok)
    case False
    then show ?thesis using assms(2) fresh e by (auto simp: ssl_accept_tls_def tls_ok_def g)
  next
    case True
    let ?s = "s1\<lparr>data_ssl := True\<rparr>"
    have s1: "tls_ok L ?s" "control_cert_digest ?s = control_cert_digest s" using True e by (simp_all add: tls_ok_def)
    have rest: "(if t_bool t ''require_ssl_reuse'' \<and> \<not> o_reused L (ssl_calls s1) DataConn
       then Inr (refuse_data L t ''No SSL session reuse on data channel.'' ?s)
       else if control_cert_digest s \<noteq> [] then accept_cert L t ?s else Inr (1, ?s)) = Inr (r, s')"
      using assms(2) fresh(1) True e by (auto simp: ssl_accept_tls_def g Let_def split: if_splits)
    consider (reuse) "(r, s') = refuse_data L t ''No SSL session reuse on data channel.'' ?s"
      | (cert) "t_bool t ''require_ssl_reuse'' \<longrightarrow> o_reused L (ssl_calls s1) DataConn" "accept_cert L t ?s = Inr (r, s')"
      | (none) "t_bool t ''require_ssl_reuse'' \<longrightarrow> o_reused L (ssl_calls s1) DataConn" "control_cert_digest s = []" "r = 1" "s' = ?s"
      using rest by (cases "t_bool t ''require_ssl_reuse'' \<and> \<not> o_reused L (ssl_calls s1) DataConn"; cases "control_cert_digest s = []") auto
    then show ?thesis
    proof cases
      case reuse
      then show ?thesis by (rule refused [OF _ s1])
    next
      case cert
      have "short_str (control_cert_digest ?s)" using assms(3) s1(2) by simp
      then have "(\<exists>l s2. (r, s') = refuse_data L t l s2 \<and> tls_ok L s2 \<and> control_cert_digest s2 = control_cert_digest ?s) \<or>
        (r = 1 \<and> ssl_calls s' = ssl_calls ?s \<and> data_ssl s' = data_ssl ?s \<and> control_cert_digest s' = control_cert_digest ?s \<and>
         o_digest L (ssl_calls ?s) DataConn = Some (Some (control_cert_digest ?s)))"
        by (rule accept_cert_effect [OF cert(2) s1(1)]) (rule assms(4))
      then show ?thesis
      proof (elim disjE exE conjE)
        fix l s2
        assume "(r, s') = refuse_data L t l s2" "tls_ok L s2" "control_cert_digest s2 = control_cert_digest ?s"
        then show ?thesis using s1(2) by (intro refused [of l s2]) simp_all
      next
        assume "r = 1" "ssl_calls s' = ssl_calls ?s" "data_ssl s' = data_ssl ?s" "control_cert_digest s' = control_cert_digest ?s"
          "o_digest L (ssl_calls ?s) DataConn = Some (Some (control_cert_digest ?s))"
        then show ?thesis using cert(1) e True by (simp add: tls_ok_def)
      qed
    next
      case none
      then show ?thesis using s1 e True by (auto simp: tls_ok_def)
    qed
  qed
qed

text \<open>A library that accepts everything, and a client that shows the same certificate on both connections.\<close>

definition good_openssl :: openssl where
  "good_openssl = \<lparr>o_ret = (\<lambda>cs c. 1), o_wants = (\<lambda>cs c. 0), o_data = (\<lambda>cs c. ''x''), o_shutdown = (\<lambda>cs k. 2), o_reused = (\<lambda>cs k. True),
     o_digest = (\<lambda>cs k. Some (Some ''digest'')), o_error = (\<lambda>cs. []), o_version = (\<lambda>cs. ''TLSv1''), o_cipher = (\<lambda>cs. ''AES''),
     o_errno = (\<lambda>cs. 0)\<rparr>"

definition tls_session :: tls where
  "tls_session = \<lparr>ssl_calls = [], control_ssl = True, data_ssl = False, control_cert_digest = ''digest'', debug_lines = []\<rparr>"

lemma data_connection_checked_witness:
  "\<exists>s'. ssl_accept_tls good_openssl \<lparr>t_bool = (\<lambda>n. True), t_uint = (\<lambda>n. 0), t_str = (\<lambda>n. None)\<rparr> 7 tls_session = Inr (1, s') \<and>
    tls_ok good_openssl s' \<and> data_ssl s' \<and> o_digest good_openssl (ssl_calls s') DataConn = Some (Some ''digest'')"
proof -
  let ?t = "\<lparr>t_bool = (\<lambda>n. True), t_uint = (\<lambda>n. 0), t_str = (\<lambda>n. None)\<rparr>"
  have short: "short_str ''digest''" by (simp add: short_str_def INT_MAX_def)
  then have eq: "str_strcmp ''digest'' ''digest'' = 0" by (simp add: str_strcmp_eq)
  obtain s' where run: "ssl_accept_tls good_openssl ?t 7 tls_session = Inr (1, s')"
    by (simp add: ssl_accept_tls_def accept_cert_def get_ssl_def ssl_cert_digest_def good_openssl_def tls_session_def eq Let_def)
  have "tls_ok good_openssl tls_session" by (simp add: tls_ok_def tls_session_def)
  note data_connection_checked [OF this run]
  then show ?thesis using run short by (auto simp: tls_session_def good_openssl_def split: if_splits)
qed

text \<open>
  The library asks for a certificate only with \<^verbatim>\<open>SSL_VERIFY_PEER\<close>, which is set for \<open>ssl_request_cert\<close>; without it \<open>require_cert\<close> has no effect.
\<close>

lemma require_cert_without_request:
  assumes "ctx_verify o_ctx t cs = Inr cs'" and "t_bool t ''require_cert''" and "\<not> t_bool t ''ssl_request_cert''"
  shows "\<exists>new. cs' = new @ cs \<and> CtxVerify False True \<in> set new \<and> (\<forall>b. CtxVerify True b \<notin> set new)"
proof -
  let ?v = "CtxVerify False True"
  have "\<exists>new. cs' = new @ cs \<and> (new = [?v] \<or> (\<exists>ca. new = [CtxClientCAList, ClientCAFile ca, CtxVerifyLocations ca, ?v]))"
    using assms
    by (cases "t_str t ''ca_certs_file''") (auto simp: ctx_verify_def ctx_must_def andthen_Inr_iff halt_simps Let_def split: if_splits)
  then show ?thesis by auto
qed

end
