(* ===== verification/Sslslave.thy ===== *)
theory Sslslave
  imports Tls Privsock Ftpdataio
begin

text \<open>
  \<^verbatim>\<open>sslslave.c\<close> and the other side of it in \<^verbatim>\<open>readwrite.c\<close> and \<^verbatim>\<open>ftpdataio.c\<close>. After the login of a local user under TLS, the process before login keeps the
  keys and becomes a slave: the session process asks it, over a socket pair, to read and write for it. Shown is that a session process sees through the slave
  what it would see if it called OpenSSL itself, and where it does not.
\<close>

section \<open>The slave\<close>

abbreviation CMD_GET_USER_CMD :: char where "CMD_GET_USER_CMD \<equiv> CHR 0x04"
abbreviation CMD_WRITE_USER_RESP :: char where "CMD_WRITE_USER_RESP \<equiv> CHR 0x05"
abbreviation CMD_SSL_HANDSHAKE :: char where "CMD_SSL_HANDSHAKE \<equiv> CHR 0x06"
abbreviation CMD_SSL_CLOSE :: char where "CMD_SSL_CLOSE \<equiv> CHR 0x07"
abbreviation CMD_SSL_READ :: char where "CMD_SSL_READ \<equiv> CHR 0x08"
abbreviation CMD_SSL_WRITE :: char where "CMD_SSL_WRITE \<equiv> CHR 0x09"

text \<open>The slave: what it has of TLS, its descriptor of the data connection, and the descriptors that it closed.\<close>

record slave =
  sl_tls :: tls
  sl_data_fd :: int
  sl_closed :: "int list"

definition ssl_peek_adapter :: "openssl \<Rightarrow> tunables \<Rightarrow> tls \<Rightarrow> nat \<Rightarrow> int \<times> string \<times> tls" where
  "ssl_peek_adapter L t s n = ssl_peek L t ControlConn s n"

definition ssl_read_adapter :: "openssl \<Rightarrow> tunables \<Rightarrow> tls \<Rightarrow> nat \<Rightarrow> int \<times> string \<times> tls" where
  "ssl_read_adapter L t s n = ssl_read L t ControlConn s n"

text \<open>\<open>ftp_getline\<close> in a process that has the keys.\<close>

definition getline_tls :: "openssl \<Rightarrow> tunables \<Rightarrow> tls \<Rightarrow> (int \<times> string) result \<times> tls" where
  "getline_tls L t s = str_netfd_alloc (ssl_peek_adapter L t) (ssl_read_adapter L t) LF VSFTP_MAX_COMMAND_LINE s"

definition close_slave_fd :: "slave \<Rightarrow> slave result" where
  "close_slave_fd sl =
     (if sl_data_fd sl = -1 then die ''close'' else Inr (sl\<lparr>sl_data_fd := -1, sl_closed := sl_data_fd sl # sl_closed sl\<rparr>))"

text \<open>
  One turn of the loop of \<open>ssl_slave\<close>: what it writes to the session process, and how it goes on or stops. What was written before a stop
  arrives.
\<close>

type_synonym 'a turn = "cell list \<times> 'a result"

definition send_then :: "cell list result \<Rightarrow> 'a turn \<Rightarrow> 'a turn" where
  "send_then m k = (case m of Inl h \<Rightarrow> ([], Inl h) | Inr a \<Rightarrow> (a @ fst k, snd k))"

definition take_then :: "'b result \<Rightarrow> ('b \<Rightarrow> 'a turn) \<Rightarrow> 'a turn" where
  "take_then m k = (case m of Inl h \<Rightarrow> ([], Inl h) | Inr b \<Rightarrow> k b)"

definition leaving :: "cell list \<Rightarrow> 'a turn \<Rightarrow> ('a \<times> cell list) turn" where
  "leaving cs k = (fst k, map_sum id (\<lambda>x. (x, cs)) (snd k))"

lemma turn_simps [simp]:
  "send_then (Inl h) k = ([], Inl h)" "send_then (Inr a) k = (a @ fst k, snd k)"
  "take_then (Inl h) f = ([], Inl h)" "take_then (Inr b) f = f b"
  "leaving cs (a, Inl h) = (a, Inl h)" "leaving cs (a, Inr x) = (a, Inr (x, cs))"
  by (simp_all add: send_then_def take_then_def leaving_def)

lemma turn_goes_on:
  "take_then m f = (a, Inr x) \<longleftrightarrow> (\<exists>b. m = Inr b \<and> f b = (a, Inr x))"
  "leaving cs k = (a, Inr (x', cs')) \<longleftrightarrow> k = (a, Inr x') \<and> cs' = cs"
  by (auto simp: take_then_def leaving_def map_sum_def prod_eq_iff split: sum.splits)

definition slave_getline :: "openssl \<Rightarrow> tunables \<Rightarrow> slave \<Rightarrow> slave turn" where
  "slave_getline L t sl =
     (case getline_tls L t (sl_tls sl) of (r, s) \<Rightarrow>
      take_then r (\<lambda>(retval, line).
      send_then (priv_sock_send_int True retval)
      (send_then (if retval \<ge> 0 then priv_sock_send_str True line else Inr []) ([], Inr (sl\<lparr>sl_tls := s\<rparr>)))))"

definition slave_write_resp :: "openssl \<Rightarrow> string \<Rightarrow> slave \<Rightarrow> slave turn" where
  "slave_write_resp L p_str sl =
     (case ssl_write_str L ControlConn p_str (sl_tls sl) of (retval, s) \<Rightarrow>
      send_then (priv_sock_send_int True retval) ([], Inr (sl\<lparr>sl_tls := s\<rparr>)))"

definition slave_handshake :: "openssl \<Rightarrow> tunables \<Rightarrow> int \<Rightarrow> slave \<Rightarrow> slave turn" where
  "slave_handshake L t fd sl =
     take_then (ssl_accept_tls L t fd (sl_tls sl)) (\<lambda>(retval, s).
     let sl = sl\<lparr>sl_data_fd := fd, sl_tls := s\<rparr> in
     if retval = 1 then send_then (priv_sock_send_result True SOCK_RESULT_OK) ([], Inr sl)
     else take_then (close_slave_fd sl) (\<lambda>sl. send_then (priv_sock_send_result True SOCK_RESULT_BAD) ([], Inr sl)))"

definition slave_read :: "openssl \<Rightarrow> tunables \<Rightarrow> slave \<Rightarrow> slave turn" where
  "slave_read L t sl =
     (case ssl_read_into_str L t DataConn VSFTP_DATA_BUFSIZE (sl_tls sl) of (retval, d, s) \<Rightarrow>
      send_then (priv_sock_send_int True retval) (send_then (priv_sock_send_str True d) ([], Inr (sl\<lparr>sl_tls := s\<rparr>))))"

definition slave_write :: "openssl \<Rightarrow> string \<Rightarrow> slave \<Rightarrow> slave turn" where
  "slave_write L d sl =
     (case ssl_write L DataConn d (sl_tls sl) of (retval, s) \<Rightarrow>
      send_then (priv_sock_send_int True retval) ([], Inr (sl\<lparr>sl_tls := s\<rparr>)))"

definition slave_close :: "openssl \<Rightarrow> tunables \<Rightarrow> slave \<Rightarrow> slave turn" where
  "slave_close L t sl =
     (if sl_data_fd sl = -1 \<and> \<not> data_ssl (sl_tls sl) then send_then (priv_sock_send_result True SOCK_RESULT_OK) ([], Inr sl)
      else case ssl_data_close_tls L t (sl_tls sl) of (retval, s) \<Rightarrow>
           take_then (close_slave_fd (sl\<lparr>sl_tls := s\<rparr>)) (\<lambda>sl.
           send_then (priv_sock_send_result True (if retval = 1 then SOCK_RESULT_OK else SOCK_RESULT_BAD)) ([], Inr sl)))"

definition ssl_slave_req :: "openssl \<Rightarrow> tunables \<Rightarrow> slave \<Rightarrow> cell list \<Rightarrow> (slave \<times> cell list) turn" where
  "ssl_slave_req L t sl cs =
     take_then (priv_sock_get_cmd cs) (\<lambda>(cmd, cs).
     if cmd = CMD_GET_USER_CMD then leaving cs (slave_getline L t sl)
     else if cmd = CMD_WRITE_USER_RESP
     then take_then (priv_sock_get_str cs) (\<lambda>(p_str, cs). leaving cs (slave_write_resp L p_str sl))
     else if cmd = CMD_SSL_HANDSHAKE
     then if sl_data_fd sl \<noteq> -1 \<or> data_ssl (sl_tls sl) then ([], bug ''state not clean'')
          else take_then (priv_sock_recv_fd cs) (\<lambda>(fd, cs). leaving cs (slave_handshake L t fd sl))
     else if cmd = CMD_SSL_READ then leaving cs (slave_read L t sl)
     else if cmd = CMD_SSL_WRITE
     then take_then (priv_sock_get_str cs) (\<lambda>(d, cs). leaving cs (slave_write L d sl))
     else if cmd = CMD_SSL_CLOSE then leaving cs (slave_close L t sl)
     else ([], die ''bad request in process_ssl_slave_req''))"

text \<open>The loop, on all that arrives: what is answered, and how the slave stops, at the latest when the other end is closed.\<close>

lemma ssl_slave_req_shorter: "ssl_slave_req L t sl cs = (a, Inr (sl', cs')) \<Longrightarrow> length cs' < length cs"
  by (auto simp: ssl_slave_req_def turn_goes_on priv_sock_get_cmd_def priv_sock_get_str_def priv_sock_get_int_def priv_sock_recv_fd_def
      vsf_sysutil_recv_fd_def andthen_Inr_iff halt_simps Let_def dest!: read_cells_shorter split: if_splits list.splits option.splits)

function ssl_slave :: "openssl \<Rightarrow> tunables \<Rightarrow> slave \<Rightarrow> cell list \<Rightarrow> cell list \<times> slave \<times> halt" where
  "ssl_slave L t sl cs =
     (case ssl_slave_req L t sl cs of
        (rep, Inl h) \<Rightarrow> (rep, sl, h)
      | (rep, Inr (sl', cs')) \<Rightarrow> (case ssl_slave L t sl' cs' of (reps, sl'', h) \<Rightarrow> (rep @ reps, sl'', h)))"
  by pat_completeness auto
termination by (relation "measure (\<lambda>(L, t, sl, cs). length cs)") (auto dest!: ssl_slave_req_shorter [OF sym])

declare ssl_slave.simps [simp del]

section \<open>The session process\<close>

text \<open>
  What the session process sends for each request, and what it makes of the answer. It waits for the answer before it does anything else, so that
  an exchange is one request, one turn of the slave, one answer. A slave that stops closes its end of the socket pair: the session process is not
  stopped by that, but finds the end of the file when it reads what is missing of the answer.
\<close>

definition exchange ::
  "openssl \<Rightarrow> tunables \<Rightarrow> cell list result \<Rightarrow> (cell list \<Rightarrow> ('a \<times> cell list) result) \<Rightarrow> slave \<Rightarrow> ('a \<times> slave) result" where
  "exchange L t request answer sl =
     andthen request (\<lambda>req.
     case ssl_slave_req L t sl req of (rep, next) \<Rightarrow>
     andthen (answer rep) (\<lambda>(x, _). Inr (x, case next of Inl h \<Rightarrow> sl | Inr (sl', _) \<Rightarrow> sl')))"

definition request_with :: "char \<Rightarrow> cell list result \<Rightarrow> cell list result" where
  "request_with cmd arg = andthen (priv_sock_send_cmd True cmd) (\<lambda>a. andthen arg (\<lambda>b. Inr (a @ b)))"

text \<open>\<open>ftp_read_data\<close> into a buffer of \<open>n\<close> bytes.\<close>

definition read_data_by_slave :: "openssl \<Rightarrow> tunables \<Rightarrow> nat \<Rightarrow> slave \<Rightarrow> ((int \<times> string) \<times> slave) result" where
  "read_data_by_slave L t n =
     exchange L t (priv_sock_send_cmd True CMD_SSL_READ)
       (\<lambda>rep. andthen (priv_sock_get_int rep) (\<lambda>(retval, rep). andthen (priv_sock_recv_buf n rep) (\<lambda>(d, rep). Inr ((retval, d), rep))))"

definition write_data_by_slave :: "openssl \<Rightarrow> tunables \<Rightarrow> string \<Rightarrow> slave \<Rightarrow> (int \<times> slave) result" where
  "write_data_by_slave L t d =
     exchange L t (request_with CMD_SSL_WRITE (priv_sock_send_buf True d)) priv_sock_get_int"

definition write_str_by_slave :: "openssl \<Rightarrow> tunables \<Rightarrow> EVSFRWTarget \<Rightarrow> string \<Rightarrow> slave \<Rightarrow> (int \<times> slave) result" where
  "write_str_by_slave L t target p_str =
     (if target = kVSFRWData
      then exchange L t (request_with CMD_SSL_WRITE (priv_sock_send_str True p_str))
             (\<lambda>rep. andthen (priv_sock_get_int rep) (\<lambda>(written, rep).
                    Inr (if written > 0 \<and> written = int (length p_str) then 0 else -1, rep)))
      else exchange L t (request_with CMD_WRITE_USER_RESP (priv_sock_send_str True p_str)) priv_sock_get_int)"

definition getline_by_slave :: "openssl \<Rightarrow> tunables \<Rightarrow> slave \<Rightarrow> ((int \<times> string) \<times> slave) result" where
  "getline_by_slave L t =
     exchange L t (priv_sock_send_cmd True CMD_GET_USER_CMD)
       (\<lambda>rep. andthen (priv_sock_get_int rep) (\<lambda>(retval, rep).
              if retval \<ge> 0 then andthen (priv_sock_get_str rep) (\<lambda>(line, rep). Inr ((retval, line), rep)) else Inr ((retval, []), rep)))"

definition handshake_by_slave :: "openssl \<Rightarrow> tunables \<Rightarrow> int \<Rightarrow> slave \<Rightarrow> (int \<times> slave) result" where
  "handshake_by_slave L t fd =
     exchange L t (request_with CMD_SSL_HANDSHAKE (priv_sock_send_fd True fd))
       (\<lambda>rep. andthen (priv_sock_get_result rep) (\<lambda>(res, rep). Inr (if res = SOCK_RESULT_OK then 1 else 0, rep)))"

definition close_by_slave :: "openssl \<Rightarrow> tunables \<Rightarrow> slave \<Rightarrow> (int \<times> slave) result" where
  "close_by_slave L t =
     exchange L t (priv_sock_send_cmd True CMD_SSL_CLOSE)
       (\<lambda>rep. andthen (priv_sock_get_result rep) (\<lambda>(res, rep). Inr (if res = SOCK_RESULT_OK then 1 else 0, rep)))"

section \<open>The same with the keys at hand\<close>

text \<open>What the session process does with TLS, by a slave or by calling OpenSSL itself. The line of a \<open>GetLine\<close> that failed is not used.\<close>

datatype tls_op = ReadData nat | WriteData string | WriteStr EVSFRWTarget string | GetLine | Handshake int | CloseData

datatype tls_answer = Number int | Octets int string

definition by_slave :: "openssl \<Rightarrow> tunables \<Rightarrow> tls_op \<Rightarrow> slave \<Rightarrow> (tls_answer \<times> slave) result" where
  "by_slave L t op sl =
     (case op of
        ReadData n \<Rightarrow> andthen (read_data_by_slave L t n sl) (\<lambda>((r, d), sl). Inr (Octets r d, sl))
      | WriteData d \<Rightarrow> andthen (write_data_by_slave L t d sl) (\<lambda>(r, sl). Inr (Number r, sl))
      | WriteStr target p_str \<Rightarrow> andthen (write_str_by_slave L t target p_str sl) (\<lambda>(r, sl). Inr (Number r, sl))
      | GetLine \<Rightarrow> andthen (getline_by_slave L t sl) (\<lambda>((r, l), sl). Inr (Octets r l, sl))
      | Handshake fd \<Rightarrow> andthen (handshake_by_slave L t fd sl) (\<lambda>(r, sl). Inr (Number r, sl))
      | CloseData \<Rightarrow> andthen (close_by_slave L t sl) (\<lambda>(r, sl). Inr (Number r, sl)))"

definition direct :: "openssl \<Rightarrow> tunables \<Rightarrow> tls_op \<Rightarrow> tls \<Rightarrow> (tls_answer \<times> tls) result" where
  "direct L t op s =
     (case op of
        ReadData n \<Rightarrow> (case ssl_read_into_str L t DataConn n s of (r, d, s) \<Rightarrow> Inr (Octets r d, s))
      | WriteData d \<Rightarrow> (case ssl_write L DataConn d s of (r, s) \<Rightarrow> Inr (Number r, s))
      | WriteStr target p_str \<Rightarrow>
          (case ssl_write_str L (if target = kVSFRWData then DataConn else ControlConn) p_str s of (r, s) \<Rightarrow> Inr (Number r, s))
      | GetLine \<Rightarrow> (case getline_tls L t s of (r, s) \<Rightarrow> andthen r (\<lambda>(i, l). Inr (Octets i (if i \<ge> 0 then l else []), s)))
      | Handshake fd \<Rightarrow> andthen (ssl_accept_tls L t fd s) (\<lambda>(r, s). Inr (Number r, s))
      | CloseData \<Rightarrow> (case ssl_data_close_tls L t s of (r, s) \<Rightarrow> Inr (Number r, s)))"

text \<open>A sequence of requests: the answers that the session process got, and how it goes on or stops.\<close>

fun run_slave :: "openssl \<Rightarrow> tunables \<Rightarrow> tls_op list \<Rightarrow> slave \<Rightarrow> tls_answer list \<times> slave result" where
  "run_slave L t [] sl = ([], Inr sl)"
| "run_slave L t (op # ops) sl =
     (case by_slave L t op sl of
        Inl h \<Rightarrow> ([], Inl h)
      | Inr (a, sl) \<Rightarrow> (case run_slave L t ops sl of (as, r) \<Rightarrow> (a # as, r)))"

fun run_direct :: "openssl \<Rightarrow> tunables \<Rightarrow> tls_op list \<Rightarrow> tls \<Rightarrow> tls_answer list \<times> tls result" where
  "run_direct L t [] s = ([], Inr s)"
| "run_direct L t (op # ops) s =
     (case direct L t op s of
        Inl h \<Rightarrow> ([], Inl h)
      | Inr (a, s) \<Rightarrow> (case run_direct L t ops s of (as, r) \<Rightarrow> (a # as, r)))"

text \<open>What the documentation of OpenSSL says about counts.\<close>

definition openssl_ok :: "openssl \<Rightarrow> bool" where
  "openssl_ok L \<longleftrightarrow>
     (\<forall>cs k n. - 2147483648 \<le> o_ret L cs (SslRead k n) \<and> o_ret L cs (SslRead k n) \<le> int n) \<and>
     (\<forall>cs k n. o_ret L cs (SslPeek k n) \<le> int n) \<and>
     (\<forall>cs k d. - 2147483648 \<le> o_ret L cs (SslWrite k d) \<and> o_ret L cs (SslWrite k d) \<le> int (length d))"

text \<open>
  Requests for which the slave makes no difference: data is read in the size of the slave's buffer, what is sent is not longer than a message may
  be, a text for the data connection is not empty and is written without another try, and a handshake starts on a new connection.
\<close>

definition op_fits :: "openssl \<Rightarrow> tls \<Rightarrow> tls_op \<Rightarrow> bool" where
  "op_fits L s op =
     (case op of
        ReadData n \<Rightarrow> n = VSFTP_DATA_BUFSIZE
      | WriteData d \<Rightarrow> length d \<le> VSFTP_PRIVSOCK_MAXSTR
      | WriteStr target p_str \<Rightarrow>
          length p_str \<le> VSFTP_PRIVSOCK_MAXSTR \<and>
          (target = kVSFRWData \<longrightarrow> p_str \<noteq> [] \<and> o_wants L (ssl_calls s) (SslWrite DataConn p_str) = 0)
      | Handshake fd \<Rightarrow> fd \<noteq> -1 \<and> \<not> data_ssl s
      | _ \<Rightarrow> True)"

fun ops_fit :: "openssl \<Rightarrow> tunables \<Rightarrow> tls_op list \<Rightarrow> tls \<Rightarrow> bool" where
  "ops_fit L t [] s = True"
| "ops_fit L t (op # ops) s = (op_fits L s op \<and> (case direct L t op s of Inl h \<Rightarrow> True | Inr (a, s') \<Rightarrow> ops_fit L t ops s'))"

text \<open>How a session process ends when the slave has stopped: by the first read of an answer that does not come.\<close>

definition lost_slave :: "'a result \<Rightarrow> bool" where
  "lost_slave r \<longleftrightarrow> r = die ''priv_sock_get_int'' \<or> r = die ''priv_sock_get_result''"

definition slave_ok :: "slave \<Rightarrow> bool" where
  "slave_ok sl \<longleftrightarrow> (sl_data_fd sl \<noteq> -1) = data_ssl (sl_tls sl)"

section \<open>Lines\<close>

lemma netfd_loop_bounds:
  assumes peek: "\<And>w n. fst (peek w n) \<le> int n" and rd: "\<And>w n. length (fst (snd (rd w n))) \<le> nat (fst (rd w n))"
    and "netfd_loop peek rd t got left w = (Inr (r, l), w')"
  shows "-1 \<le> r \<and> r \<le> int left \<and> length l \<le> length got + left"
  using assms(3)
proof (induction left arbitrary: got w rule: less_induct)
  case (less left)
  obtain rp d w1 where p: "peek w left = (rp, d, w1)" by (cases "peek w left")
  have rp: "rp \<le> int left" using peek [of w left] p by simp
  let ?i = "length (takeWhile (\<lambda>c. c \<noteq> t) (take (nat rp) d))"
  show ?case
  proof (cases "left = 0 \<or> rp \<le> 0")
    case True
    then show ?thesis
      using less.prems by (auto simp: netfd_loop.simps [of peek rd t got left w] p vsf_sysutil_retval_is_error_def halt_simps split: if_splits)
  next
    case False
    show ?thesis
    proof (cases "?i < length (take (nat rp) d)")
      case True
      obtain r2 d2 w2 where q: "rd w1 (?i + 1) = (r2, d2, w2)" by (cases "rd w1 (?i + 1)")
      have d2: "length d2 \<le> nat r2" using rd [of w1 "?i + 1"] q by simp
      have "nat rp \<le> left" using rp by simp
      then have "?i < left" using True by simp
      moreover have res: "r = int ?i" "l = takeWhile (\<lambda>c. c \<noteq> t) (got @ d2)" "r2 = int (?i + 1)"
        using less.prems False True q
        by (auto simp: netfd_loop.simps [of peek rd t got left w] p vsf_sysutil_retval_is_error_def halt_simps Let_def split: if_splits)
      moreover have "length l \<le> length got + length d2" unfolding res(2) using length_takeWhile_le [of _ "got @ d2"] by simp
      ultimately show ?thesis using d2 by auto
    next
      case no: False
      obtain r2 d2 w2 where q: "rd w1 (nat rp) = (r2, d2, w2)" by (cases "rd w1 (nat rp)")
      have d2: "length d2 \<le> nat r2" using rd [of w1 "nat rp"] q by simp
      have "netfd_loop peek rd t (got @ d2) (left - nat rp) w2 = (Inr (r, l), w')" "r2 = int (nat rp)"
        using less.prems False no q
        by (auto simp: netfd_loop.simps [of peek rd t got left w] p vsf_sysutil_retval_is_error_def halt_simps Let_def split: if_splits)
      from less.IH [OF _ this(1)] this(2) d2 False rp show ?thesis by auto
    qed
  qed
qed

text \<open>What reading does not change.\<close>

lemma netfd_loop_keeps:
  assumes peek: "\<And>w n. f (snd (snd (peek w n))) = f w" and rd: "\<And>w n. f (snd (snd (rd w n))) = f w"
  shows "f (snd (netfd_loop peek rd t got left w)) = f w"
proof (induction left arbitrary: got w rule: less_induct)
  case (less left)
  obtain rp d w1 where p: "peek w left = (rp, d, w1)" by (cases "peek w left")
  obtain r2 d2 w2 where q: "rd w1 (nat rp) = (r2, d2, w2)" by (cases "rd w1 (nat rp)")
  let ?i = "length (takeWhile (\<lambda>c. c \<noteq> t) (take (nat rp) d))"
  obtain r3 d3 w3 where q3: "rd w1 (?i + 1) = (r3, d3, w3)" by (cases "rd w1 (?i + 1)")
  have f: "f w1 = f w" "f w2 = f w" "f w3 = f w"
    using peek [of w left] rd [of w1 "nat rp"] rd [of w1 "?i + 1"] p q q3 by simp_all
  have IH: "f (snd (netfd_loop peek rd t (got @ d2) (left - nat rp) w2)) = f w" if "0 < rp" "left \<noteq> 0"
    using less.IH [of "left - nat rp" "got @ d2" w2] that f(2) by simp
  show ?case
    unfolding netfd_loop.simps [of peek rd t got left w] p prod.case Let_def q q3
    using f IH by (simp add: vsf_sysutil_retval_is_error_def)
qed

section \<open>The slave is transparent\<close>

lemma ssl_read_common_bounds:
  assumes "ssl_read_common L t k c s = (r, d, s')" and "\<And>cs. o_ret L cs c \<le> int n"
  shows "r \<le> int n" and "length d \<le> nat r" and "data_ssl s' = data_ssl s"
  using assms by (auto simp: ssl_read_common_def Let_def split: if_splits)

lemma getline_bounds:
  assumes "openssl_ok L" and "getline_tls L t s = (Inr (r, l), s')"
  shows "int32_ok r" and "length l \<le> VSFTP_PRIVSOCK_MAXSTR"
proof -
  have "fst (ssl_peek_adapter L t w n) \<le> int n" "length (fst (snd (ssl_read_adapter L t w n))) \<le> nat (fst (ssl_read_adapter L t w n))" for w n
    using assms(1) ssl_read_common_bounds(1) [of L t ControlConn "SslPeek ControlConn n" w]
      ssl_read_common_bounds(2) [of L t ControlConn "SslRead ControlConn n" w]
    by (auto simp: openssl_ok_def ssl_peek_adapter_def ssl_read_adapter_def ssl_peek_def ssl_read_def split: prod.splits)
      (metis fst_conv prod.collapse snd_conv)+
  from netfd_loop_bounds [OF this assms(2) [unfolded getline_tls_def str_netfd_alloc_def]]
  show "int32_ok r" "length l \<le> VSFTP_PRIVSOCK_MAXSTR"
    by (simp_all add: int32_ok_def VSFTP_MAX_COMMAND_LINE_def VSFTP_PRIVSOCK_MAXSTR_def)
qed

lemma getline_keeps: "data_ssl (snd (getline_tls L t s)) = data_ssl s"
  unfolding getline_tls_def str_netfd_alloc_def
proof (rule netfd_loop_keeps)
  show "data_ssl (snd (snd (ssl_peek_adapter L t w n))) = data_ssl w" "data_ssl (snd (snd (ssl_read_adapter L t w n))) = data_ssl w" for w n
    by (simp_all add: ssl_peek_adapter_def ssl_read_adapter_def ssl_peek_def ssl_read_def ssl_read_common_def Let_def)
qed

lemma accept_result:
  assumes "ssl_accept_tls L t fd s = Inr (r, s')"
  shows "r = (if data_ssl s' then 1 else 0)"
proof -
  have closed: "\<not> data_ssl (snd (ssl_data_close_tls L t x))" for x
    by (auto simp: ssl_data_close_tls_def Let_def split: prod.splits)
  then have "fst (refuse_data L t l x) = 0 \<and> \<not> data_ssl (snd (refuse_data L t l x))" for l x by (simp add: refuse_data_def)
  moreover have "data_ssl s2 = data_ssl s1" if "get_ssl L t DataConn fd s1 = Inr (ok, s2)" for s1 s2 ok
    using that by (auto simp: get_ssl_def halt_simps Let_def split: if_splits)
  ultimately show ?thesis
    using assms
    by (auto simp: ssl_accept_tls_def accept_cert_def andthen_Inr_iff halt_simps Let_def prod_eq_iff split: if_splits option.splits
        dest!: digest_effect)
qed

definition str_cells :: "string \<Rightarrow> cell list" where
  "str_cells d = plain (word_bytes (word_of_int (int (length d))) @ d)"

abbreviation int_cells :: "int \<Rightarrow> cell list" where
  "int_cells i \<equiv> plain (word_bytes (word_of_int i))"

lemma send_cells:
  "length d < 4294967296 \<Longrightarrow> priv_sock_send_str True d = Inr (str_cells d)"
  "length d < 4294967296 \<Longrightarrow> priv_sock_send_buf True d = Inr (str_cells d)"
  "priv_sock_send_int True i = Inr (int_cells i)"
  "priv_sock_send_cmd True c = Inr (plain [c])" "priv_sock_send_result True c = Inr (plain [c])"
  "priv_sock_send_fd True fd = Inr [(NUL, Some fd)]"
  by (auto simp: priv_sock_send_str_def priv_sock_send_buf_def str_cells_def send_simps Privsock.plain_def)

lemma get_str_cells: "length d \<le> VSFTP_PRIVSOCK_MAXSTR \<Longrightarrow> priv_sock_get_str (str_cells d @ rest) = Inr (d, rest)"
  using str_roundtrip [of d "str_cells d" rest] send_cells(1) [of d] by (simp add: VSFTP_PRIVSOCK_MAXSTR_def)

lemma recv_buf_cells:
  assumes "length d < 4294967296"
  shows "priv_sock_recv_buf n (str_cells d @ rest) = (if length d \<le> n then Inr (d, rest) else bug ''recv_len bigger than buffer'')"
  using unsigned_int_length [OF assms]
  by (cases "d = []") (auto simp: priv_sock_recv_buf_def priv_sock_get_int_def str_cells_def Let_def)

lemma nothing_comes: "priv_sock_get_int [] = die ''priv_sock_get_int''" "priv_sock_get_result [] = die ''priv_sock_get_result''"
  by (simp_all add: priv_sock_get_int_def priv_sock_get_result_def read_cells_def halt_simps)

lemmas no_rest = get_str_cells [where rest = "[]", simplified] recv_buf_cells [where rest = "[]", simplified]
  get_int_plain [where rest = "[]", simplified] recv_fd_cell cmd_roundtrip [where rest = "[]", simplified] cmd_roundtrip

text \<open>The requests, one by one.\<close>

lemma read_data_direct:
  assumes "openssl_ok L"
  shows "\<exists>r d s. ssl_read_into_str L t DataConn VSFTP_DATA_BUFSIZE (sl_tls sl) = (r, d, s) \<and> length d \<le> VSFTP_DATA_BUFSIZE \<and>
    data_ssl s = data_ssl (sl_tls sl) \<and>
    read_data_by_slave L t n sl = (if length d \<le> n then Inr ((r, d), sl\<lparr>sl_tls := s\<rparr>) else bug ''recv_len bigger than buffer'')"
proof -
  obtain r d0 s where rd: "ssl_read L t DataConn (sl_tls sl) VSFTP_DATA_BUFSIZE = (r, d0, s)"
    by (cases "ssl_read L t DataConn (sl_tls sl) VSFTP_DATA_BUFSIZE")
  have b: "r \<le> int VSFTP_DATA_BUFSIZE" "length d0 \<le> nat r" "data_ssl s = data_ssl (sl_tls sl)"
    using ssl_read_common_bounds [OF rd [unfolded ssl_read_def], of VSFTP_DATA_BUFSIZE] assms by (simp_all add: openssl_ok_def)
  have "- 2147483648 \<le> r"
    using rd assms by (auto simp: ssl_read_def ssl_read_common_def openssl_ok_def Let_def split: if_splits)
  then have i: "int32_ok r" using b(1) by (simp add: int32_ok_def VSFTP_DATA_BUFSIZE_def)
  define d where "d = (if r \<ge> 0 then take (nat r) d0 else [])"
  have into: "ssl_read_into_str L t DataConn VSFTP_DATA_BUFSIZE (sl_tls sl) = (r, d, s)" by (simp add: ssl_read_into_str_def rd d_def)
  have len: "length d < 4294967296" "length d \<le> nat r" using b(1,2) by (auto simp: d_def VSFTP_DATA_BUFSIZE_def)
  have "read_data_by_slave L t n sl =
    (if length d \<le> n then Inr ((r, d), sl\<lparr>sl_tls := s\<rparr>) else bug ''recv_len bigger than buffer'')"
    using len(1) i
    by (simp add: read_data_by_slave_def exchange_def ssl_slave_req_def slave_read_def into send_cells no_rest get_int_plain halt_simps)
  moreover have "length d \<le> VSFTP_DATA_BUFSIZE" using len(2) b(1) by simp
  ultimately show ?thesis using into b(3) by blast
qed

lemma ret_int32:
  assumes "openssl_ok L" and "length d \<le> VSFTP_PRIVSOCK_MAXSTR"
  shows "int32_ok (o_ret L cs (SslWrite k d))"
proof -
  have "- 2147483648 \<le> o_ret L cs (SslWrite k d)" "o_ret L cs (SslWrite k d) \<le> int (length d)"
    using assms(1) by (simp_all add: openssl_ok_def)
  then show ?thesis using assms(2) by (simp add: int32_ok_def VSFTP_PRIVSOCK_MAXSTR_def)
qed

lemma write_data_direct:
  assumes "openssl_ok L" and "length d \<le> VSFTP_PRIVSOCK_MAXSTR"
  shows "\<exists>r s. ssl_write L DataConn d (sl_tls sl) = (r, s) \<and> write_data_by_slave L t d sl = Inr (r, sl\<lparr>sl_tls := s\<rparr>) \<and>
    data_ssl s = data_ssl (sl_tls sl)"
proof -
  obtain r s where w: "ssl_write L DataConn d (sl_tls sl) = (r, s)" by (cases "ssl_write L DataConn d (sl_tls sl)")
  then have "int32_ok r" "data_ssl s = data_ssl (sl_tls sl)"
    using ret_int32 [OF assms] by (auto simp: ssl_write_def Let_def)
  then show ?thesis
    using assms(2) w
    by (simp add: write_data_by_slave_def request_with_def exchange_def ssl_slave_req_def slave_write_def send_cells no_rest
        VSFTP_PRIVSOCK_MAXSTR_def)
qed

lemma write_str_direct:
  assumes "openssl_ok L" and "op_fits L (sl_tls sl) (WriteStr target p_str)"
  shows "\<exists>r s. ssl_write_str L (if target = kVSFRWData then DataConn else ControlConn) p_str (sl_tls sl) = (r, s) \<and>
    write_str_by_slave L t target p_str sl = Inr (r, sl\<lparr>sl_tls := s\<rparr>) \<and> data_ssl s = data_ssl (sl_tls sl)"
proof -
  have len: "length p_str \<le> VSFTP_PRIVSOCK_MAXSTR" "length p_str < 4294967296"
    using assms(2) by (simp_all add: op_fits_def VSFTP_PRIVSOCK_MAXSTR_def)
  show ?thesis
  proof (cases target)
    case kVSFRWControl
    obtain r s where w: "ssl_write_str L ControlConn p_str (sl_tls sl) = (r, s)" by (cases "ssl_write_str L ControlConn p_str (sl_tls sl)")
    then have "int32_ok r" "data_ssl s = data_ssl (sl_tls sl)" by (auto simp: ssl_write_str_def int32_ok_def Let_def split: if_splits)
    then show ?thesis
      using w len kVSFRWControl
      by (simp add: write_str_by_slave_def request_with_def exchange_def ssl_slave_req_def slave_write_resp_def send_cells no_rest)
  next
    case kVSFRWData
    let ?c = "SslWrite DataConn p_str"
    let ?r = "o_ret L (ssl_calls (sl_tls sl)) ?c"
    have nw: "p_str \<noteq> []" "o_wants L (ssl_calls (sl_tls sl)) ?c = 0" using assms(2) kVSFRWData by (simp_all add: op_fits_def)
    have "int32_ok ?r" by (rule ret_int32 [OF assms(1) len(1)])
    then show ?thesis
      using len kVSFRWData nw
      by (simp add: write_str_by_slave_def request_with_def exchange_def ssl_slave_req_def slave_write_def ssl_write_def ssl_write_str_def
          send_cells no_rest Let_def)
  qed
qed

lemma getline_direct:
  assumes "openssl_ok L"
  shows "case getline_tls L t (sl_tls sl) of
      (Inl h, s) \<Rightarrow> lost_slave (getline_by_slave L t sl)
    | (Inr (r, l), s) \<Rightarrow> getline_by_slave L t sl = Inr ((r, if r \<ge> 0 then l else []), sl\<lparr>sl_tls := s\<rparr>)"
proof (cases "getline_tls L t (sl_tls sl)")
  case (Pair x s)
  show ?thesis
  proof (cases x)
    case (Inl h)
    then show ?thesis
      using Pair by (simp add: getline_by_slave_def exchange_def ssl_slave_req_def slave_getline_def send_cells no_rest nothing_comes lost_slave_def halt_simps)
  next
    case (Inr y)
    obtain r l where y: "y = (r, l)" by (cases y)
    note b = getline_bounds [OF assms Pair [unfolded Inr y]]
    have "length l < 4294967296" using b(2) by (simp add: VSFTP_PRIVSOCK_MAXSTR_def)
    then show ?thesis
      using Pair Inr y b by (simp add: getline_by_slave_def exchange_def ssl_slave_req_def slave_getline_def send_cells no_rest get_int_plain)
  qed
qed

lemma handshake_direct:
  assumes "slave_ok sl" and "\<not> data_ssl (sl_tls sl)" and "fd \<noteq> -1"
  shows "case ssl_accept_tls L t fd (sl_tls sl) of
      Inl h \<Rightarrow> lost_slave (handshake_by_slave L t fd sl)
    | Inr (r, s) \<Rightarrow> \<exists>sl'. handshake_by_slave L t fd sl = Inr (r, sl') \<and> sl_tls sl' = s \<and> slave_ok sl'"
proof (cases "ssl_accept_tls L t fd (sl_tls sl)")
  case (Inl h)
  then show ?thesis
    using assms by (simp add: handshake_by_slave_def request_with_def exchange_def ssl_slave_req_def slave_handshake_def slave_ok_def
        send_cells no_rest nothing_comes lost_slave_def halt_simps)
next
  case (Inr y)
  obtain r s where y: "y = (r, s)" by (cases y)
  have r: "r = (if data_ssl s then 1 else 0)" using accept_result Inr y by blast
  show ?thesis
    using assms Inr y r
    by (auto simp: handshake_by_slave_def request_with_def exchange_def ssl_slave_req_def slave_handshake_def slave_ok_def
        close_slave_fd_def send_cells no_rest Let_def)
qed

lemma close_direct:
  assumes "slave_ok sl"
  shows "\<exists>r s sl'. ssl_data_close_tls L t (sl_tls sl) = (r, s) \<and> close_by_slave L t sl = Inr (r, sl') \<and> sl_tls sl' = s \<and> slave_ok sl'"
proof (cases "data_ssl (sl_tls sl)")
  case False
  then show ?thesis
    using assms
    by (simp add: close_by_slave_def exchange_def ssl_slave_req_def slave_close_def slave_ok_def ssl_data_close_tls_def send_cells no_rest)
next
  case True
  obtain r s where c: "ssl_data_close_tls L t (sl_tls sl) = (r, s)" by (cases "ssl_data_close_tls L t (sl_tls sl)")
  then have "r = 0 \<or> r = 1" "\<not> data_ssl s" by (auto simp: ssl_data_close_tls_def Let_def split: if_splits prod.splits)
  then show ?thesis
    using assms True c
    by (auto simp: close_by_slave_def exchange_def ssl_slave_req_def slave_close_def slave_ok_def close_slave_fd_def send_cells no_rest)
qed

lemma by_slave_direct:
  assumes "openssl_ok L" and "slave_ok sl" and "op_fits L (sl_tls sl) op"
  shows "case direct L t op (sl_tls sl) of
      Inl h \<Rightarrow> lost_slave (by_slave L t op sl)
    | Inr (a, s) \<Rightarrow> \<exists>sl'. by_slave L t op sl = Inr (a, sl') \<and> sl_tls sl' = s \<and> slave_ok sl'"
proof (cases op)
  case (ReadData n)
  from assms(3) have n: "n = VSFTP_DATA_BUFSIZE" by (simp add: op_fits_def ReadData)
  show ?thesis
    using read_data_direct [OF assms(1), where t = t and n = n and sl = sl] assms(2)
    by (auto simp: by_slave_def direct_def ReadData slave_ok_def n)
next
  case (WriteData d)
  then show ?thesis
    using write_data_direct [OF assms(1), of d sl t] assms(2,3) by (auto simp: by_slave_def direct_def op_fits_def slave_ok_def)
next
  case (WriteStr target p_str)
  then show ?thesis
    using write_str_direct [OF assms(1) assms(3) [unfolded WriteStr], of t] assms(2)
    by (auto simp: by_slave_def direct_def slave_ok_def simp del: if_split)
next
  case GetLine
  obtain x s where g: "getline_tls L t (sl_tls sl) = (x, s)" by (cases "getline_tls L t (sl_tls sl)")
  show ?thesis
    using getline_direct [OF assms(1), of t sl] getline_keeps [of L t "sl_tls sl"] assms(2)
    by (cases x) (auto simp: by_slave_def direct_def slave_ok_def GetLine g lost_slave_def halt_simps)
next
  case (Handshake fd)
  then show ?thesis
    using handshake_direct [OF assms(2), of fd L t] assms(3)
    by (auto simp: by_slave_def direct_def op_fits_def lost_slave_def halt_simps split: sum.splits prod.splits)
next
  case CloseData
  then show ?thesis
    using close_direct [OF assms(2), of L t] by (auto simp: by_slave_def direct_def)
qed

text \<open>
  C17: the slave makes no difference. Whatever a session process does with TLS through a slave, in any order (replies, lines, handshakes, data, closing), it gets
  the answers that it would get if it called OpenSSL itself, one after the other, and OpenSSL sees the same calls. Where OpenSSL called directly would
  stop the process, the slave stops, and the session process with it: it dies on the read of the answer that never comes. This holds when
  OpenSSL returns counts as documented, the slave has a descriptor for data exactly when it has a TLS connection for data, and the requests are
  those that \<open>op_fits\<close> admits: data is read in the size of the slave's buffer; messages are not longer than \<open>VSFTP_PRIVSOCK_MAXSTR\<close>; a text
  for the data connection (a line of a directory listing) is not empty, and OpenSSL does not ask to repeat its write (the slave does not repeat it,
  \<open>ssl_write_str\<close> does); a handshake starts on a valid descriptor and without a TLS connection for data.
\<close>

theorem slave_transparent:
  assumes "openssl_ok L" and "slave_ok sl" and "ops_fit L t ops (sl_tls sl)"
  shows "fst (run_slave L t ops sl) = fst (run_direct L t ops (sl_tls sl)) \<and>
    (case snd (run_direct L t ops (sl_tls sl)) of
       Inl h \<Rightarrow> lost_slave (snd (run_slave L t ops sl))
     | Inr s \<Rightarrow> \<exists>sl'. snd (run_slave L t ops sl) = Inr sl' \<and> sl_tls sl' = s \<and> slave_ok sl')"
  using assms(2,3)
proof (induction ops arbitrary: sl)
  case (Cons op ops)
  note d = by_slave_direct [OF assms(1) Cons.prems(1), of op t]
  show ?case
  proof (cases "direct L t op (sl_tls sl)")
    case (Inl h)
    then have "lost_slave (by_slave L t op sl)" using d Cons.prems(2) by simp
    then show ?thesis using Inl by (auto simp: lost_slave_def halt_simps)
  next
    case (Inr x)
    obtain a s where x: "x = (a, s)" by (cases x)
    then obtain sl' where sl': "by_slave L t op sl = Inr (a, sl')" "sl_tls sl' = s" "slave_ok sl'" using d Cons.prems(2) Inr by auto
    have "ops_fit L t ops (sl_tls sl')" using Cons.prems(2) Inr x sl'(2) by simp
    from Cons.IH [OF sl'(3) this] show ?thesis
      using Inr x sl' by (auto simp: case_prod_beta split: sum.splits)
  qed
qed simp

definition counting_openssl :: openssl where
  "counting_openssl = good_openssl\<lparr>o_ret := (\<lambda>cs c. case c of SslWrite k d \<Rightarrow> int (length d) | SslRead k n \<Rightarrow> min 1 (int n) | SslPeek k n \<Rightarrow> min 1 (int n) | _ \<Rightarrow> 1)\<rparr>"

definition fresh_slave :: slave where
  "fresh_slave = \<lparr>sl_tls = tls_session\<lparr>control_cert_digest := []\<rparr>, sl_data_fd = -1, sl_closed = []\<rparr>"

lemma slave_transparent_witness:
  "openssl_ok counting_openssl \<and>
   (let t = \<lparr>t_bool = (\<lambda>n. False), t_uint = (\<lambda>n. 0), t_str = (\<lambda>n. None)\<rparr>;
        ops = [Handshake 7, WriteData ''hello'', ReadData VSFTP_DATA_BUFSIZE, CloseData]
    in fst (run_slave counting_openssl t ops fresh_slave) = fst (run_direct counting_openssl t ops (sl_tls fresh_slave)))"
proof -
  let ?t = "\<lparr>t_bool = (\<lambda>n. False), t_uint = (\<lambda>n. 0), t_str = (\<lambda>n. None)\<rparr>"
  let ?ops = "[Handshake 7, WriteData ''hello'', ReadData VSFTP_DATA_BUFSIZE, CloseData]"
  have ok: "openssl_ok counting_openssl" by (auto simp: openssl_ok_def counting_openssl_def)
  have "slave_ok fresh_slave" by (simp add: slave_ok_def fresh_slave_def tls_session_def)
  moreover have "ops_fit counting_openssl ?t ?ops (sl_tls fresh_slave)"
    by (simp add: op_fits_def direct_def fresh_slave_def tls_session_def ssl_accept_tls_def get_ssl_def ssl_write_def ssl_read_into_str_def
        ssl_read_def ssl_read_common_def counting_openssl_def good_openssl_def VSFTP_PRIVSOCK_MAXSTR_def debug_if_def Let_def
        split: sum.split prod.split)
  ultimately show ?thesis unfolding Let_def by (intro conjI ok slave_transparent [OF ok, THEN conjunct1])
qed

text \<open>
  C18: reading through the slave. The session process gets what OpenSSL has returned, all of it or, when it does not fit the buffer of the session process, none: then the
  process stops, and nothing is written behind the buffer. The slave always asks for 65536 bytes; this stop is what an upload meets with
  \<open>trans_chunk_size\<close> set to less than the bytes of a record of TLS.
\<close>

theorem slave_read_bounded:
  assumes "openssl_ok L"
  shows "\<exists>r d s. ssl_read_into_str L t DataConn VSFTP_DATA_BUFSIZE (sl_tls sl) = (r, d, s) \<and>
    read_data_by_slave L t n sl = (if length d \<le> n then Inr ((r, d), sl\<lparr>sl_tls := s\<rparr>) else bug ''recv_len bigger than buffer'')"
  using read_data_direct [OF assms, where t = t and n = n and sl = sl] by blast

text \<open>A record of 10000 bytes and a chunk size of 8192.\<close>

definition record_openssl :: openssl where
  "record_openssl = good_openssl\<lparr>o_ret := (\<lambda>cs c. case c of SslRead k n \<Rightarrow> min 10000 (int n) | _ \<Rightarrow> 0), o_data := (\<lambda>cs c. replicate 10000 CHR ''x'')\<rparr>"

lemma slave_read_bounded_witness:
  "openssl_ok record_openssl \<and>
   read_data_by_slave record_openssl \<lparr>t_bool = (\<lambda>n. False), t_uint = (\<lambda>n. 8192), t_str = (\<lambda>n. None)\<rparr> 8192 fresh_slave =
     bug ''recv_len bigger than buffer''"
proof -
  let ?t = "\<lparr>t_bool = (\<lambda>n. False), t_uint = (\<lambda>n. 8192), t_str = (\<lambda>n. None)\<rparr>"
  have ok: "openssl_ok record_openssl" by (simp add: openssl_ok_def record_openssl_def)
  have "fst (snd (ssl_read_into_str record_openssl ?t DataConn VSFTP_DATA_BUFSIZE (sl_tls fresh_slave))) = replicate 10000 CHR ''x''"
    by (simp add: ssl_read_into_str_def ssl_read_def ssl_read_common_def record_openssl_def good_openssl_def VSFTP_DATA_BUFSIZE_def Let_def)
  with slave_read_bounded [OF ok, where t = ?t and n = 8192 and sl = fresh_slave] ok show ?thesis
    by (auto split: if_splits)
qed

end
