(* ===== verification/Datetime.thy ===== *)
theory Datetime
  imports Commands
begin

text \<open>
  Times and dates of \<^verbatim>\<open>sysutil.c\<close>: the time zone that a process keeps when it changes its root, the dates of listings, logs and \<^verbatim>\<open>MDTM\<close>, and setting
  the time of a file. The functions of the C library are those of the Gregorian calendar; the time zone of the system is a parameter.
\<close>

section \<open>The calendar of the C library\<close>

record tm =
  tm_sec :: int
  tm_min :: int
  tm_hour :: int
  tm_mday :: int
  tm_mon :: int
  tm_year :: int
  tm_wday :: int
  tm_gmtoff :: int

definition leap :: "int \<Rightarrow> bool" where
  "leap y \<longleftrightarrow> y mod 4 = 0 \<and> (y mod 100 \<noteq> 0 \<or> y mod 400 = 0)"

text \<open>Days from the first day of year 1 to the first day of a year, and from the first day of a year to that of a month (counted from 0).\<close>

definition year_start :: "int \<Rightarrow> int" where
  "year_start y = 365 * (y - 1) + (y - 1) div 4 - (y - 1) div 100 + (y - 1) div 400"

definition month_start :: "bool \<Rightarrow> int \<Rightarrow> int" where
  "month_start lp m = [0, 31, 59, 90, 120, 151, 181, 212, 243, 273, 304, 334] ! nat m + (if lp \<and> m \<ge> 2 then 1 else 0)"

text \<open>The first of January 1970.\<close>

definition epoch_day :: int where
  "epoch_day = 719162"

text \<open>The mean length of a year is 146097 / 400 days; the year that this gives is the right one or the one before.\<close>

definition year_of :: "int \<Rightarrow> int" where
  "year_of d = (let y = d * 400 div 146097 + 1 in if year_start (y + 1) \<le> d then y + 1 else y)"

definition month_of :: "bool \<Rightarrow> int \<Rightarrow> int" where
  "month_of lp n = int (length (filter (\<lambda>m. month_start lp m \<le> n) [1, 2, 3, 4, 5, 6, 7, 8, 9, 10, 11]))"

definition split_time :: "int \<Rightarrow> tm" where
  "split_time t =
     (let d = t div 86400 + epoch_day; r = t mod 86400; y = year_of d; n = d - year_start y; m = month_of (leap y) n
      in \<lparr>tm_sec = r mod 60, tm_min = r div 60 mod 60, tm_hour = r div 3600, tm_mday = n - month_start (leap y) m + 1, tm_mon = m, tm_year = y - 1900,
          tm_wday = (d + 1) mod 7, tm_gmtoff = 0\<rparr>)"

text \<open>\<open>None\<close> is the null pointer, for a year that is no \<open>int\<close>.\<close>

definition gmtime :: "int \<Rightarrow> tm option" where
  "gmtime t = (let tm = split_time t in if -2147483648 \<le> tm_year tm \<and> tm_year tm \<le> 2147483647 then Some tm else None)"

text \<open>The time of a date in UTC; months may be out of range, days, hours, minutes and seconds are just added.\<close>

definition timegm :: "tm \<Rightarrow> int" where
  "timegm tm =
     (let y = tm_year tm + 1900 + tm_mon tm div 12; m = tm_mon tm mod 12
      in (((year_start y + month_start (leap y) m + tm_mday tm - 1 - epoch_day) * 24 + tm_hour tm) * 60 + tm_min tm) * 60 + tm_sec tm)"

subsection \<open>\<open>strftime\<close>\<close>

primrec digits :: "nat \<Rightarrow> nat \<Rightarrow> string" where
  "digits 0 n = []"
| "digits (Suc k) n = digits k (n div 10) @ [digit_char (n mod 10)]"

definition int_text :: "int \<Rightarrow> string" where
  "int_text n = (if n < 0 then ''-'' @ num_str 10 (nat (- n)) else num_str 10 (nat n))"

definition day_name :: "tm \<Rightarrow> string" where
  "day_name tm = [''Sun'', ''Mon'', ''Tue'', ''Wed'', ''Thu'', ''Fri'', ''Sat''] ! nat (tm_wday tm)"

definition month_name :: "tm \<Rightarrow> string" where
  "month_name tm = [''Jan'', ''Feb'', ''Mar'', ''Apr'', ''May'', ''Jun'', ''Jul'', ''Aug'', ''Sep'', ''Oct'', ''Nov'', ''Dec''] ! nat (tm_mon tm)"

definition conversion :: "char \<Rightarrow> tm \<Rightarrow> string" where
  "conversion c tm =
     (if c = CHR ''Y'' then int_text (tm_year tm + 1900)
      else if c = CHR ''m'' then digits 2 (nat (tm_mon tm + 1))
      else if c = CHR ''d'' then digits 2 (nat (tm_mday tm))
      else if c = CHR ''H'' then digits 2 (nat (tm_hour tm))
      else if c = CHR ''M'' then digits 2 (nat (tm_min tm))
      else if c = CHR ''S'' then digits 2 (nat (tm_sec tm))
      else if c = CHR ''a'' then day_name tm
      else if c = CHR ''b'' then month_name tm
      else if c = CHR ''z''
      then (if tm_gmtoff tm < 0 then CHR ''-'' else CHR ''+'') #
           digits 4 (nat (\<bar>tm_gmtoff tm\<bar> div 3600 * 100 + \<bar>tm_gmtoff tm\<bar> div 60 mod 60))
      else [c])"

fun expand :: "string \<Rightarrow> tm \<Rightarrow> string" where
  "expand (a # c # f) tm = (if a = CHR ''%'' then conversion c tm @ expand f tm else a # expand (c # f) tm)"
| "expand f tm = f"

declare expand.simps [simp del]

text \<open>\<open>None\<close> is the result 0: the text and its end do not fit.\<close>

definition strftime :: "nat \<Rightarrow> string \<Rightarrow> tm \<Rightarrow> string option" where
  "strftime size_max p_format tm = (let s = expand p_format tm in if length s < size_max then Some s else None)"

section \<open>The time zone\<close>

text \<open>\<open>zone t\<close> is the offset of the time zone of the system from UTC at the time \<open>t\<close>, in seconds. The environment variable \<open>TZ\<close> overrides it.\<close>

record clock =
  s_timezone :: int
  env_tz :: "string option"

definition digit_value :: "char \<Rightarrow> int" where
  "digit_value c = int (code c) - 48"

text \<open>A \<open>TZ\<close> of the form \<^verbatim>\<open>UTC-hh:mm\<close>: what has to be added to local time to get UTC.\<close>

definition posix_offset :: "string \<Rightarrow> int" where
  "posix_offset tz =
     (let v = (digit_value (tz ! 4) * 10 + digit_value (tz ! 5)) * 3600 + (digit_value (tz ! 7) * 10 + digit_value (tz ! 8)) * 60
      in if tz ! 3 = CHR ''-'' then v else - v)"

definition local_offset :: "(int \<Rightarrow> int) \<Rightarrow> clock \<Rightarrow> int \<Rightarrow> int" where
  "local_offset zone ck t = (case env_tz ck of None \<Rightarrow> zone t | Some tz \<Rightarrow> posix_offset tz)"

definition localtime :: "(int \<Rightarrow> int) \<Rightarrow> clock \<Rightarrow> int \<Rightarrow> tm option" where
  "localtime zone ck t =
     (let off = local_offset zone ck t in map_option (\<lambda>tm. tm\<lparr>tm_gmtoff := off\<rparr>) (gmtime (t + off)))"

text \<open>\<open>mktime\<close> when \<open>TZ\<close> is set, on year, month, day, hour, minute and second.\<close>

definition mktime :: "string \<Rightarrow> int list \<Rightarrow> int" where
  "mktime tz fs =
     timegm \<lparr>tm_sec = fs ! 5, tm_min = fs ! 4, tm_hour = fs ! 3, tm_mday = fs ! 2, tm_mon = fs ! 1, tm_year = fs ! 0, tm_wday = 0, tm_gmtoff = 0\<rparr>
     - posix_offset tz"

text \<open>The buffer with the offset: a colon between hours and minutes, and the other sign.\<close>

definition tz_text :: "string \<Rightarrow> string" where
  "tz_text p_text =
     (let b = p_text @ [NUL, NUL];
          b = b[5 := b ! 4];
          b = b[4 := b ! 3];
          b = b[3 := CHR '':'']
      in b[0 := if b ! 0 = CHR ''+'' then CHR ''-'' else CHR ''+''])"

definition tz_seconds :: "string \<Rightarrow> int" where
  "tz_seconds b =
     (let v = (digit_value (b ! 1) * 10 + digit_value (b ! 2)) * 60 * 60 + (digit_value (b ! 4) * 10 + digit_value (b ! 5)) * 60
      in if b ! 0 = CHR ''-'' then v * -1 else v)"

definition vsf_sysutil_tzset :: "(int \<Rightarrow> int) \<Rightarrow> int \<Rightarrow> clock \<Rightarrow> clock result" where
  "vsf_sysutil_tzset zone the_time ck =
     (case localtime zone ck the_time of
        None \<Rightarrow> die ''localtime''
      | Some p_tm \<Rightarrow>
          let ck = (case strftime 7 ''%z'' p_tm of
                      None \<Rightarrow> ck
                    | Some p_text \<Rightarrow>
                        if length p_text = 5
                        then let b = tz_text p_text in \<lparr>s_timezone = tz_seconds b, env_tz = Some (''UTC'' @ c_str b)\<rparr>
                        else ck)
          in if localtime zone ck the_time = None then die ''localtime #2''
             else if gmtime the_time = None then die ''gmtime''
             else Inr ck)"

section \<open>Dates\<close>

text \<open>A null pointer of \<open>gmtime\<close> or \<open>localtime\<close> is given to \<open>strftime\<close>, which reads it.\<close>

definition strftime_checked :: "nat \<Rightarrow> string \<Rightarrow> tm option \<Rightarrow> string result" where
  "strftime_checked size_max p_format p_tm =
     (case p_tm of
        None \<Rightarrow> Inl Undef
      | Some tm \<Rightarrow> (case strftime size_max p_format tm of None \<Rightarrow> die ''strftime'' | Some s \<Rightarrow> Inr s))"

definition file_tm :: "(int \<Rightarrow> int) \<Rightarrow> clock \<Rightarrow> file_info \<Rightarrow> bool \<Rightarrow> tm option" where
  "file_tm zone ck i use_localtime = (if \<not> use_localtime then gmtime (st_mtime i) else localtime zone ck (st_mtime i))"

definition vsf_sysutil_statbuf_get_date :: "(int \<Rightarrow> int) \<Rightarrow> clock \<Rightarrow> file_info \<Rightarrow> bool \<Rightarrow> int \<Rightarrow> string result" where
  "vsf_sysutil_statbuf_get_date zone ck i use_localtime curr_time =
     strftime_checked 64
       (if st_mtime i > curr_time \<or> curr_time - st_mtime i > 60 * 60 * 24 * 182 then ''%b %d  %Y'' else ''%b %d %H:%M'')
       (file_tm zone ck i use_localtime)"

definition vsf_sysutil_statbuf_get_numeric_date :: "(int \<Rightarrow> int) \<Rightarrow> clock \<Rightarrow> file_info \<Rightarrow> bool \<Rightarrow> string result" where
  "vsf_sysutil_statbuf_get_numeric_date zone ck i use_localtime =
     strftime_checked 15 ''%Y%m%d%H%M%S'' (file_tm zone ck i use_localtime)"

text \<open>The exclamation mark stands before the day, whose leading zero becomes a space.\<close>

definition day_hack :: "string \<Rightarrow> string" where
  "day_hack s =
     (let b = s @ [NUL]; i = length (takeWhile (\<lambda>c. c \<noteq> CHR ''!'' \<and> c \<noteq> NUL) b)
      in c_str (if b ! i = CHR ''!''
                then let b = b[i := CHR '' ''] in if b ! (i + 1) = CHR ''0'' then b[i + 1 := CHR '' ''] else b
                else b))"

definition vsf_sysutil_get_current_date :: "(int \<Rightarrow> int) \<Rightarrow> clock \<Rightarrow> int \<Rightarrow> string result" where
  "vsf_sysutil_get_current_date zone ck curr_time =
     andthen (strftime_checked 64 ''%a %b!%d %H:%M:%S %Y'' (localtime zone ck curr_time)) (\<lambda>s. Inr (day_hack s))"

text \<open>The time that \<open>utime\<close> is asked to set.\<close>

definition vsf_sysutil_setmodtime :: "clock \<Rightarrow> int \<Rightarrow> bool \<Rightarrow> int" where
  "vsf_sysutil_setmodtime ck the_time is_localtime = (if \<not> is_localtime then the_time - s_timezone ck else the_time)"

section \<open>The calendar is right\<close>

lemma div_step:
  fixes k :: int
  assumes "0 < k"
  shows "y div k = (y - 1) div k + (if y mod k = 0 then 1 else 0)"
proof (cases "y mod k = 0")
  case True
  then have "y = k * (y div k)" using mult_div_mod_eq [of k y] by linarith
  then have "y - 1 = k * (y div k - 1) + (k - 1)" unfolding right_diff_distrib by linarith
  then have "(y - 1) div k = y div k - 1" by (rule int_div_pos_eq) (use assms in simp_all)
  with True show ?thesis by simp
next
  case False
  have "y - 1 = k * (y div k) + (y mod k - 1)" using mult_div_mod_eq [of k y] by linarith
  moreover have "0 \<le> y mod k - 1" "y mod k - 1 < k" using False assms pos_mod_sign [of k y] pos_mod_bound [of k y] by linarith+
  ultimately have "(y - 1) div k = y div k" by (intro int_div_pos_eq)
  with False show ?thesis by simp
qed

lemma leap_mod: "(y :: int) mod 400 = 0 \<Longrightarrow> y mod 100 = 0" "(y :: int) mod 100 = 0 \<Longrightarrow> y mod 4 = 0"
proof -
  have "(100 :: int) dvd 400" "(4 :: int) dvd 100" by simp_all
  then show "y mod 400 = 0 \<Longrightarrow> y mod 100 = 0" "y mod 100 = 0 \<Longrightarrow> y mod 4 = 0"
    by (auto simp only: mod_eq_0_iff_dvd intro: dvd_trans)
qed

lemma year_start_next: "year_start (y + 1) = year_start y + (if leap y then 366 else 365)"
proof -
  define p4 p100 p400 where p: "p4 \<longleftrightarrow> y mod 4 = 0" "p100 \<longleftrightarrow> y mod 100 = 0" "p400 \<longleftrightarrow> y mod 400 = 0"
  define a b c where q: "a = (y - 1) div 4" "b = (y - 1) div 100" "c = (y - 1) div 400"
  have d: "y div 4 = a + (if p4 then 1 else 0)" "y div 100 = b + (if p100 then 1 else 0)" "y div 400 = c + (if p400 then 1 else 0)"
    unfolding p q by (rule div_step, simp)+
  have imp: "p400 \<Longrightarrow> p100" "p100 \<Longrightarrow> p4" unfolding p by (rule leap_mod; assumption)+
  show ?thesis unfolding year_start_def leap_def add_diff_cancel_right' d q [symmetric] p [symmetric] using imp by auto
qed

lemma div_near:
  fixes k :: int
  assumes "0 < k"
  shows "q < k * (q div k) + k" and "k * (q div k) \<le> q"
  using mult_div_mod_eq [of k q] pos_mod_bound [OF assms, of q] pos_mod_sign [OF assms, of q] by linarith+

lemma year_start_near: "146097 * q - 800 \<le> 400 * year_start (q + 1)" "400 * year_start (q + 1) \<le> 146097 * q + 396"
proof -
  define a b c where abc: "a = q div 4" "b = q div 100" "c = q div 400"
  have "q < 4 * a + 4" "4 * a \<le> q" "q < 100 * b + 100" "100 * b \<le> q" "q < 400 * c + 400" "400 * c \<le> q"
    unfolding abc by (rule div_near, simp)+
  note near = this
  have "100 * q \<le> 400 * a + 400" "400 * b \<le> 4 * q" "q \<le> 400 * c + 400" using near by linarith+
  moreover have upper: "400 * a \<le> 100 * q" "4 * q \<le> 400 * b + 396" "400 * c \<le> q" using near by linarith+
  ultimately show "146097 * q - 800 \<le> 400 * year_start (q + 1)"
    unfolding year_start_def add_diff_cancel_right' abc [symmetric] by (simp add: algebra_simps)
  show "400 * year_start (q + 1) \<le> 146097 * q + 396"
    unfolding year_start_def add_diff_cancel_right' abc [symmetric] using upper by (simp add: algebra_simps)
qed

lemma year_of_bounds: "year_start (year_of d) \<le> d \<and> d < year_start (year_of d + 1)"
proof -
  define q where "q = d * 400 div 146097"
  have q: "146097 * q \<le> d * 400" "d * 400 < 146097 * q + 146097" unfolding q_def by (rule div_near, simp)+
  have "400 * year_start (q + 1) \<le> 146097 * q + 396" by (rule year_start_near)
  then have "year_start (q + 1) \<le> d" using q(1) by linarith
  moreover have "146097 * (q + 2) - 800 \<le> 400 * year_start (q + 2 + 1)" by (rule year_start_near)
  then have "d < year_start (q + 2 + 1)" using q(2) unfolding distrib_left by linarith
  ultimately show ?thesis unfolding year_of_def q_def [symmetric] Let_def by (simp add: add.assoc)
qed

lemma month_of_bounds:
  assumes "0 \<le> n" and "n < (if lp then 366 else 365)"
  shows "0 \<le> month_of lp n" "month_of lp n \<le> 11" "month_start lp (month_of lp n) \<le> n" "n < month_start lp (month_of lp n) + 31"
proof -
  define k where "k = (if lp then 1 else 0 :: int)"
  have "n < 31 \<or> 31 \<le> n \<and> n < 59 + k \<or> 59 + k \<le> n \<and> n < 90 + k \<or> 90 + k \<le> n \<and> n < 120 + k \<or> 120 + k \<le> n \<and> n < 151 + k \<or>
    151 + k \<le> n \<and> n < 181 + k \<or> 181 + k \<le> n \<and> n < 212 + k \<or> 212 + k \<le> n \<and> n < 243 + k \<or> 243 + k \<le> n \<and> n < 273 + k \<or>
    273 + k \<le> n \<and> n < 304 + k \<or> 304 + k \<le> n \<and> n < 334 + k \<or> 334 + k \<le> n"
    by linarith
  then have "0 \<le> month_of lp n \<and> month_of lp n \<le> 11 \<and> month_start lp (month_of lp n) \<le> n \<and> n < month_start lp (month_of lp n) + 31"
    using assms by (cases lp) (simp_all only: k_def if_True if_False, (elim disjE conjE; simp add: month_of_def month_start_def)+)
  then show "0 \<le> month_of lp n" "month_of lp n \<le> 11" "month_start lp (month_of lp n) \<le> n" "n < month_start lp (month_of lp n) + 31"
    by blast+
qed

lemma day_of_year:
  "0 \<le> d - year_start (year_of d)" "d - year_start (year_of d) < (if leap (year_of d) then 366 else 365)"
  using year_of_bounds [of d] year_start_next [of "year_of d"] by auto

lemmas month_in_range = month_of_bounds [OF day_of_year]

lemma hour_range:
  fixes r :: int
  assumes "0 \<le> r" and "r < 86400"
  shows "0 \<le> r div 3600" and "r div 3600 < 24"
proof -
  define h where "h = r div 3600"
  have "3600 * h \<le> r" "r < 3600 * h + 3600" unfolding h_def by (rule div_near, simp)+
  with assms show "0 \<le> r div 3600" "r div 3600 < 24" unfolding h_def [symmetric] by linarith+
qed

lemma split_time_range:
  "0 \<le> tm_sec (split_time t)" "tm_sec (split_time t) < 60" "0 \<le> tm_min (split_time t)" "tm_min (split_time t) < 60"
  "0 \<le> tm_hour (split_time t)" "tm_hour (split_time t) < 24" "1 \<le> tm_mday (split_time t)" "tm_mday (split_time t) \<le> 31"
  "0 \<le> tm_mon (split_time t)" "tm_mon (split_time t) < 12" "0 \<le> tm_wday (split_time t)" "tm_wday (split_time t) < 7"
proof -
  define d r where dr: "d = t div 86400 + epoch_day" "r = t mod 86400"
  note [simp] = split_time_def Let_def
  have r: "0 \<le> r" "r < 86400" unfolding dr by (rule pos_mod_sign, simp, rule pos_mod_bound, simp)
  show "0 \<le> tm_hour (split_time t)" "tm_hour (split_time t) < 24"
    unfolding split_time_def Let_def dr [symmetric] tm.simps by (rule hour_range [OF r])+
  show "1 \<le> tm_mday (split_time t)" "tm_mday (split_time t) \<le> 31" "0 \<le> tm_mon (split_time t)" "tm_mon (split_time t) < 12"
    unfolding split_time_def Let_def dr [symmetric] tm.simps using month_in_range [of d] by linarith+
  show "0 \<le> tm_sec (split_time t)" "tm_sec (split_time t) < 60" "0 \<le> tm_min (split_time t)" "tm_min (split_time t) < 60"
    "0 \<le> tm_wday (split_time t)" "tm_wday (split_time t) < 7"
    unfolding split_time_def Let_def dr [symmetric] tm.simps by (rule pos_mod_sign pos_mod_bound, simp)+
qed

lemma time_of_day: "((r div 3600) * 60 + r div 60 mod 60) * 60 + r mod 60 = (r :: int)"
proof -
  have "r div 3600 = r div 60 div 60" using zdiv_zmult2_eq [of 60 r 60] by simp
  then show ?thesis by simp
qed

lemma timegm_split_time: "timegm (split_time t\<lparr>tm_wday := w, tm_gmtoff := g\<rparr>) = t"
proof -
  define d r where dr: "d = t div 86400" "r = t mod 86400"
  define m where "m = month_of (leap (year_of (d + epoch_day))) (d + epoch_day - year_start (year_of (d + epoch_day)))"
  have m: "m div 12 = 0" "m mod 12 = m"
    unfolding m_def using month_in_range [of "d + epoch_day"] by (simp_all only: div_pos_pos_trivial mod_pos_pos_trivial)
  have days: "a + b + (d + epoch_day - a - b + 1) - 1 - epoch_day = d" for a b by simp
  have "timegm (split_time t\<lparr>tm_wday := w, tm_gmtoff := g\<rparr>) = ((d * 24 + r div 3600) * 60 + r div 60 mod 60) * 60 + r mod 60"
    unfolding timegm_def split_time_def Let_def dr [symmetric] m_def [symmetric] tm.simps m diff_add_cancel add_0_right days ..
  also have "\<dots> = d * 86400 + r" using time_of_day [of r] by simp
  finally show ?thesis unfolding dr by simp
qed

section \<open>Digits\<close>

lemma length_digits [simp]: "length (digits k n) = k"
  by (induction k arbitrary: n) simp_all

lemma digits_isdigit: "list_all vsf_sysutil_isdigit (digits k n)"
  by (induction k arbitrary: n) simp_all

lemma dec_value_digits: "dec_value (digits k n) = n mod 10 ^ k"
proof (induction k arbitrary: n)
  case 0
  then show ?case by (simp add: dec_value_def)
next
  case (Suc k)
  then show ?case by (simp add: dec_value_append mod_mult2_eq)
qed

lemma atoi_of_digits:
  assumes "list_all vsf_sysutil_isdigit ds" and "ds \<noteq> []" and "dec_value ds < 2147483648"
  shows "vsf_sysutil_atoi ds = int (dec_value ds)"
proof -
  have hd: "vsf_sysutil_isdigit (hd ds)" and digs: "\<forall>c\<in>set ds. vsf_sysutil_isdigit c" using assms(1,2) by (cases ds; simp add: list_all_iff)+
  have "NUL \<notin> set ds" using digs by (auto simp: vsf_sysutil_isdigit_def)
  moreover have "dropWhile vsf_sysutil_isspace ds = ds" using isdigit_not_space [OF hd] assms(2) by (cases ds) auto
  moreover have "takeWhile vsf_sysutil_isdigit ds = ds" using digs by simp
  ultimately show ?thesis
    using assms(3) isdigit_not_space [OF hd] by (simp add: vsf_sysutil_atoi_def to_int32_def Let_def del: takeWhile_eq_all_conv)
qed

lemma atoi_digits:
  assumes "n < 10 ^ k" and "0 < k" and "k < 10"
  shows "vsf_sysutil_atoi (digits k n) = int n"
proof -
  have "(10 :: nat) ^ k \<le> 10 ^ 9" using assms(3) by (intro power_increasing) auto
  then have "dec_value (digits k n) < 2147483648" using assms(1) by (simp add: dec_value_digits)
  moreover have "digits k n \<noteq> []" using assms(2) length_digits [of k n] by (metis length_0_conv less_irrefl)
  ultimately show ?thesis using atoi_of_digits [OF digits_isdigit] assms(1) by (simp add: dec_value_digits)
qed

lemma num_str_eq_digits: "n < 10 ^ Suc k \<Longrightarrow> k = 0 \<or> 10 ^ k \<le> n \<Longrightarrow> num_str 10 n = digits (Suc k) n"
proof (induction k arbitrary: n)
  case 0
  then show ?case by (simp add: num_str.simps [of 10 n])
next
  case (Suc k)
  then have "10 \<le> n" using one_le_power [of "10 :: nat" k] by (simp, linarith)
  moreover have "n div 10 < 10 ^ Suc k" using Suc.prems(1) by (intro less_mult_imp_div_less) simp
  moreover have "10 ^ k \<le> n div 10" using Suc.prems(2) by (simp add: less_eq_div_iff_mult_less_eq mult.commute)
  ultimately show ?case using Suc.IH [of "n div 10"] by (simp add: num_str.simps [of 10 n])
qed

lemma dec_value_less: "list_all vsf_sysutil_isdigit ds \<Longrightarrow> dec_value ds < 10 ^ length ds"
proof (induction ds rule: rev_induct)
  case (snoc c ds)
  then show ?case using isdigit_code [of c] by (auto simp: dec_value_append)
qed (simp add: dec_value_def)

lemma num_str_long: "10 ^ k \<le> n \<Longrightarrow> k < length (num_str 10 n)"
  using dec_value_less [of "num_str 10 n"] num_str_digits [of 10 n]
  by (simp add: dec_value_num_str list_all_iff) (meson le_less_trans nat_power_less_imp_less one_less_numeral_iff semiring_norm zero_less_numeral)

lemma digits_split: "digits (k + j) n = digits k (n div 10 ^ j) @ digits j n"
  by (induction j arbitrary: n) (simp_all add: div_mult2_eq)

lemma digits_two: "digits 2 n = [digit_char (n div 10 mod 10), digit_char (n mod 10)]"
  by (simp add: numeral_2_eq_2)

lemma digit_value_char [simp]: "d < 10 \<Longrightarrow> digit_value (digit_char d) = int d"
  by (simp add: digit_value_def)

lemma digits_no [simp]: "NUL \<notin> set (digits k n)" "CHR '' '' \<notin> set (digits k n)" "CHR ''!'' \<notin> set (digits k n)"
  using digits_isdigit [of k n] by (auto simp: list_all_iff vsf_sysutil_isdigit_def)

lemma hd_digits: "0 < k \<Longrightarrow> vsf_sysutil_isdigit (hd (digits k n))"
  using digits_isdigit [of k n] length_digits [of k n] by (cases "digits k n") auto

section \<open>The time zone is kept\<close>

lemma two_digits:
  assumes "h < 100"
  obtains x y where "x < 10" "y < 10" "digits 2 h = [digit_char x, digit_char y]" "int h = int x * 10 + int y"
proof (rule that)
  have "h div 10 < 10" using assms by (simp add: less_mult_imp_div_less)
  then have "h div 10 mod 10 * 10 + h mod 10 = h" using div_mult_mod_eq [of h 10] by simp
  then have "int (h div 10 mod 10 * 10 + h mod 10) = int h" by (rule arg_cong)
  then show "int h = int (h div 10 mod 10) * 10 + int (h mod 10)" by (simp only: of_nat_add of_nat_mult of_nat_numeral)
qed (simp_all add: digits_two)

lemma tz_text_values:
  assumes "h < 100" and "m < 100"
  shows "tz_seconds (tz_text (c # digits 4 (h * 100 + m))) = (if c = CHR ''+'' then - 1 else 1) * (int h * 3600 + int m * 60)"
    and "posix_offset (''UTC'' @ c_str (tz_text (c # digits 4 (h * 100 + m)))) = (if c = CHR ''+'' then 1 else - 1) * (int h * 3600 + int m * 60)"
proof -
  obtain x y where h: "x < 10" "y < 10" "digits 2 h = [digit_char x, digit_char y]" "int h = int x * 10 + int y"
    using assms(1) by (rule two_digits)
  obtain v w where m: "v < 10" "w < 10" "digits 2 m = [digit_char v, digit_char w]" "int m = int v * 10 + int w"
    using assms(2) by (rule two_digits)
  have "digits 4 (h * 100 + m) = digits 2 ((h * 100 + m) div 10 ^ 2) @ digits 2 (h * 100 + m)"
    using digits_split [of 2 2 "h * 100 + m"] by simp
  moreover have "(h * 100 + m) div 10 ^ 2 = h" using assms(2) by simp
  moreover have "digits 2 (h * 100 + m) = digits 2 m"
    using div_mult_self3 [of 10 "h * 10" m] mod_mult_self3 [of "h * 10" 10 m] mod_mult_self3 [of h 10 "m div 10"]
    by (simp add: digits_two mult.commute)
  ultimately have "digits 4 (h * 100 + m) = [digit_char x, digit_char y, digit_char v, digit_char w]" by (simp add: h m)
  then have b: "tz_text (c # digits 4 (h * 100 + m)) =
      [if c = CHR ''+'' then CHR ''-'' else CHR ''+'', digit_char x, digit_char y, CHR '':'', digit_char v, digit_char w, NUL]"
    by (simp add: tz_text_def)
  show "tz_seconds (tz_text (c # digits 4 (h * 100 + m))) = (if c = CHR ''+'' then - 1 else 1) * (int h * 3600 + int m * 60)"
    using h(1,2) m(1,2) by (simp add: b tz_seconds_def Let_def h(4) m(4))
  show "posix_offset (''UTC'' @ c_str (tz_text (c # digits 4 (h * 100 + m)))) = (if c = CHR ''+'' then 1 else - 1) * (int h * 3600 + int m * 60)"
    using h(1,2) m(1,2) by (simp add: b posix_offset_def c_str_def Let_def h(4) m(4))
qed

lemma whole_minutes:
  fixes off :: int
  assumes "60 dvd off" and "\<bar>off\<bar> < 360000"
  obtains h m where "h < 100" "m < 100" "\<bar>off\<bar> = int h * 3600 + int m * 60" "\<bar>off\<bar> div 3600 * 100 + \<bar>off\<bar> div 60 mod 60 = int (h * 100 + m)"
proof
  define a b where ab: "a = \<bar>off\<bar> div 3600" "b = \<bar>off\<bar> div 60 mod 60"
  have "\<bar>off\<bar> mod 60 = 0" using assms(1) by simp
  then have sum: "(a * 60 + b) * 60 = \<bar>off\<bar>" using time_of_day [of "\<bar>off\<bar>"] unfolding ab by simp
  have b: "0 \<le> b" "b < 60" unfolding ab by simp_all
  have a: "3600 * a \<le> \<bar>off\<bar>" "\<bar>off\<bar> < 3600 * a + 3600" unfolding ab by (rule div_near, simp)+
  then have a': "0 \<le> a" "a < 100" using assms(2) by linarith+
  show "nat a < 100" "nat b < 100" using a' b by simp_all
  show "\<bar>off\<bar> = int (nat a) * 3600 + int (nat b) * 60" using a' b sum by simp
  show "\<bar>off\<bar> div 3600 * 100 + \<bar>off\<bar> div 60 mod 60 = int (nat a * 100 + nat b)" unfolding ab [symmetric] using a' b by simp
qed

lemma tz_of_offset:
  assumes "60 dvd off" and "\<bar>off\<bar> < 360000" and "tm_gmtoff tm = off"
  shows "\<exists>p_text. strftime 7 ''%z'' tm = Some p_text \<and> length p_text = 5 \<and> tz_seconds (tz_text p_text) = - off \<and>
    posix_offset (''UTC'' @ c_str (tz_text p_text)) = off"
proof -
  obtain h m where hm: "h < 100" "m < 100" "\<bar>off\<bar> = int h * 3600 + int m * 60" "\<bar>off\<bar> div 3600 * 100 + \<bar>off\<bar> div 60 mod 60 = int (h * 100 + m)"
    using assms(1,2) by (rule whole_minutes)
  let ?c = "if off < 0 then CHR ''-'' else CHR ''+''"
  have "expand ''%z'' tm = ?c # digits 4 (nat (\<bar>off\<bar> div 3600 * 100 + \<bar>off\<bar> div 60 mod 60))" by (simp add: expand.simps conversion_def assms(3))
  then have tzt: "expand ''%z'' tm = ?c # digits 4 (h * 100 + m)" unfolding hm(4) nat_int .
  have "off = (if off < 0 then - 1 else 1) * (int h * 3600 + int m * 60)" using hm(3) by (cases "off < 0") simp_all
  then show ?thesis
    using tz_text_values [OF hm(1,2), of ?c] by (intro exI [of _ "?c # digits 4 (h * 100 + m)"]) (auto simp: strftime_def tzt Let_def split: if_splits)
qed

lemma tzset_fixes_zone:
  assumes "vsf_sysutil_tzset zone the_time ck0 = Inr ck" and "60 dvd local_offset zone ck0 the_time" and "\<bar>local_offset zone ck0 the_time\<bar> < 360000"
  shows "s_timezone ck = - local_offset zone ck0 the_time" and "\<exists>tz. env_tz ck = Some tz \<and> posix_offset tz = local_offset zone ck0 the_time"
proof -
  obtain p_tm where tm: "localtime zone ck0 the_time = Some p_tm" "tm_gmtoff p_tm = local_offset zone ck0 the_time"
    using assms(1) by (auto simp: vsf_sysutil_tzset_def localtime_def Let_def halt_simps split: option.splits)
  from tz_of_offset [OF assms(2,3) tm(2)] assms(1) tm(1)
  show "s_timezone ck = - local_offset zone ck0 the_time" "\<exists>tz. env_tz ck = Some tz \<and> posix_offset tz = local_offset zone ck0 the_time"
    by (auto simp: vsf_sysutil_tzset_def Let_def halt_simps split: if_splits option.splits)
qed

section \<open>\<^verbatim>\<open>MDTM\<close>\<close>

definition tm_in_range :: "tm \<Rightarrow> bool" where
  "tm_in_range tm \<longleftrightarrow> 0 \<le> tm_sec tm \<and> tm_sec tm < 60 \<and> 0 \<le> tm_min tm \<and> tm_min tm < 60 \<and> 0 \<le> tm_hour tm \<and> tm_hour tm < 24 \<and>
     1 \<le> tm_mday tm \<and> tm_mday tm \<le> 31 \<and> 0 \<le> tm_mon tm \<and> tm_mon tm < 12 \<and> 0 \<le> tm_wday tm \<and> tm_wday tm < 7"

lemma gmtime_facts:
  assumes "gmtime t = Some tm"
  shows "tm_in_range (tm\<lparr>tm_gmtoff := g\<rparr>)" and "timegm (tm\<lparr>tm_wday := w, tm_gmtoff := g\<rparr>) = t"
    and "-2147483648 \<le> tm_year tm" and "tm_year tm \<le> 2147483647"
proof -
  have tm: "tm = split_time t" "-2147483648 \<le> tm_year tm" "tm_year tm \<le> 2147483647" using assms by (auto simp: gmtime_def Let_def split: if_splits)
  show "tm_in_range (tm\<lparr>tm_gmtoff := g\<rparr>)" using split_time_range [of t] by (simp add: tm(1) tm_in_range_def)
  show "timegm (tm\<lparr>tm_wday := w, tm_gmtoff := g\<rparr>) = t" unfolding tm(1) by (rule timegm_split_time)
  show "-2147483648 \<le> tm_year tm" "tm_year tm \<le> 2147483647" by (rule tm)+
qed

text \<open>The time that a broken-down time of a file stands for.\<close>

lemma file_tm_facts:
  assumes "file_tm zone ck i use_localtime = Some tm"
  shows "tm_in_range tm"
    and "timegm (tm\<lparr>tm_wday := w, tm_gmtoff := g\<rparr>) = st_mtime i + (if use_localtime then local_offset zone ck (st_mtime i) else 0)"
proof -
  let ?t = "st_mtime i + (if use_localtime then local_offset zone ck (st_mtime i) else 0)"
  obtain tm0 g0 where "gmtime ?t = Some tm0" "tm = tm0\<lparr>tm_gmtoff := g0\<rparr>"
    using assms by (cases use_localtime) (auto simp: file_tm_def localtime_def Let_def intro: that [of tm "tm_gmtoff tm"])
  then show "tm_in_range tm" "timegm (tm\<lparr>tm_wday := w, tm_gmtoff := g\<rparr>) = ?t"
    using gmtime_facts [of ?t tm0] by simp_all
qed

lemma numeric_expand:
  "expand ''%Y%m%d%H%M%S'' tm =
     int_text (tm_year tm + 1900) @ digits 2 (nat (tm_mon tm + 1)) @ digits 2 (nat (tm_mday tm)) @ digits 2 (nat (tm_hour tm)) @
     digits 2 (nat (tm_min tm)) @ digits 2 (nat (tm_sec tm))"
  by (simp add: expand.simps conversion_def)

lemma int_text_four:
  assumes "length (int_text y) = 4" and "vsf_sysutil_isdigit (hd (int_text y @ r))"
  shows "0 \<le> y" and "y \<le> 9999" and "int_text y = digits 4 (nat y)"
proof -
  show y: "0 \<le> y" using assms(2) by (auto simp: int_text_def vsf_sysutil_isdigit_def split: if_splits)
  then have t: "int_text y = num_str 10 (nat y)" by (simp add: int_text_def)
  have "nat y < 10 ^ 4" using num_str_long [of 4 "nat y"] assms(1) t by (cases "nat y < 10 ^ 4") simp_all
  moreover have "10 ^ 3 \<le> nat y" using length_num_str [of 10 "nat y" 3] assms(1) t by (cases "nat y < 10 ^ 3") auto
  moreover have "Suc 3 = 4" by simp
  ultimately show "int_text y = digits 4 (nat y)" using num_str_eq_digits [of "nat y" 3] unfolding t by metis
  show "y \<le> 9999" using \<open>nat y < 10 ^ 4\<close> by simp
qed

lemma parse_time_numeric:
  assumes "yr \<le> 9999" and "mo < 100" and "da < 100" and "ho < 100" and "mi < 100" and "se < 100"
  shows "vsf_sysutil_parse_time e (digits 4 yr @ digits 2 mo @ digits 2 da @ digits 2 ho @ digits 2 mi @ digits 2 se) =
    e_mktime e [int yr - 1900, int mo - 1, int da, int ho, int mi, int se]"
  using assms by (simp add: vsf_sysutil_parse_time_def Let_def field_def atoi_digits)

lemma locate_char_hit:
  assumes "c \<noteq> NUL" and "c \<notin> set l"
  shows "str_locate_char (l @ c # r) c = locate_hit (length l)"
proof -
  have at: "drop (length l) (l @ c # r) = c # r" by simp
  have ne: "c_str [c] \<noteq> []" using assms(1) by simp
  show ?thesis
  proof (cases rule: str_locate_text_cases [OF ne, of "l @ c # r"])
    case (1 k)
    note hit = this
    have "\<not> k < length l"
    proof
      assume k: "k < length l"
      then have "drop k (l @ c # r) = l ! k # drop (Suc k) (l @ c # r)" by (simp add: Cons_nth_drop_Suc flip: nth_append_left [OF k])
      then show False using hit(2) k assms nth_mem [OF k] by auto
    qed
    moreover have "\<not> length l < k" using hit(3) [of "length l"] at assms(1) by auto
    ultimately show ?thesis using hit(1) by (simp add: str_locate_char_def)
  next
    case 2
    then show ?thesis using 2(2) [of "length l"] at assms(1) by auto
  qed
qed

text \<open>
  C26: \<^verbatim>\<open>MDTM\<close> there and back. After \<open>vsf_sysutil_tzset\<close>, in a time zone of whole minutes, with and without \<open>use_localtime\<close>: the date of 14 digits that the
  server gives for a file, sent back to it before the name of a file, is taken as the request to set a time where that is configured, and sets the time that the
  file had. The time zone of the system is not looked at again, since it is out of reach when the root has changed.
\<close>

theorem mdtm_roundtrip:
  assumes "vsf_sysutil_tzset zone the_time ck0 = Inr ck" and "60 dvd local_offset zone ck0 the_time" and "\<bar>local_offset zone ck0 the_time\<bar> < 360000"
    and "e_mktime e = mktime (the (env_tz ck))"
    and "vsf_sysutil_statbuf_get_numeric_date zone' ck i use_localtime = Inr date" and "length date = 14" and "vsf_sysutil_isdigit (hd date)"
  shows "mdtm_is_set e (date @ CHR '' '' # p_file) False = tb e ''mdtm_write'' \<and>
    vsf_sysutil_setmodtime ck (vsf_sysutil_parse_time e (fst (str_split_char (date @ CHR '' '' # p_file) CHR '' ''))) use_localtime = st_mtime i"
proof -
  obtain tz where tz: "env_tz ck = Some tz" "posix_offset tz = local_offset zone ck0 the_time" "s_timezone ck = - posix_offset tz"
    using tzset_fixes_zone [OF assms(1-3)] by auto
  obtain tm where tm: "file_tm zone' ck i use_localtime = Some tm" "date = expand ''%Y%m%d%H%M%S'' tm"
    using assms(5) by (auto simp: vsf_sysutil_statbuf_get_numeric_date_def strftime_checked_def strftime_def Let_def halt_simps split: option.splits if_splits)
  have year: "length (int_text (tm_year tm + 1900)) = 4" using assms(6) by (simp add: tm(2) numeric_expand)
  note y = int_text_four [OF year assms(7) [unfolded tm(2) numeric_expand]]
  note r = file_tm_facts(1) [OF tm(1), unfolded tm_in_range_def]
  have date: "date = digits 4 (nat (tm_year tm + 1900)) @ digits 2 (nat (tm_mon tm + 1)) @ digits 2 (nat (tm_mday tm)) @ digits 2 (nat (tm_hour tm)) @
     digits 2 (nat (tm_min tm)) @ digits 2 (nat (tm_sec tm))"
    unfolding tm(2) numeric_expand y(3) ..
  have "vsf_sysutil_parse_time e date = mktime tz [tm_year tm, tm_mon tm, tm_mday tm, tm_hour tm, tm_min tm, tm_sec tm]"
    unfolding date using y(1,2) r by (subst parse_time_numeric) (auto simp: assms(4) tz(1) nat_less_iff)
  also have "\<dots> = timegm (tm\<lparr>tm_wday := 0, tm_gmtoff := 0\<rparr>) - posix_offset tz" by (cases tm) (simp add: mktime_def)
  also have "\<dots> = st_mtime i + (if use_localtime then posix_offset tz else 0) - posix_offset tz"
    unfolding file_tm_facts(2) [OF tm(1)] by (simp add: local_offset_def tz(1))
  finally have "vsf_sysutil_setmodtime ck (vsf_sysutil_parse_time e date) use_localtime = st_mtime i"
    by (simp add: vsf_sysutil_setmodtime_def tz(3))
  moreover have sp: "CHR '' '' \<notin> set date" unfolding date by simp
  moreover have "date \<noteq> []" using assms(6) by auto
  ultimately show ?thesis
    using assms(6,7) locate_char_hit [OF _ sp, of p_file] by (simp add: mdtm_is_set_def str_split_char_hit locate_hit_def Let_def)
qed

lemma mdtm_roundtrip_witness:
  "vsf_sysutil_setmodtime \<lparr>s_timezone = -3600, env_tz = Some ''UTC-01:00''\<rparr>
     (vsf_sysutil_parse_time (calm_env []\<lparr>e_mktime := mktime ''UTC-01:00''\<rparr>) (fst (str_split_char ''20010909014640 a'' CHR '' ''))) False = 1000000000"
proof -
  let ?ck = "\<lparr>s_timezone = -3600, env_tz = Some ''UTC-01:00''\<rparr>"
  let ?i = "\<lparr>st_mode = 0x81A4, st_size = 0, st_uid = 0, st_gid = 0, st_mtime = 1000000000, st_nlink = 1, file_data = []\<rparr>"
  have "vsf_sysutil_tzset (\<lambda>t. 3600) 0 \<lparr>s_timezone = 0, env_tz = None\<rparr> = Inr ?ck" by code_simp
  moreover have "vsf_sysutil_statbuf_get_numeric_date (\<lambda>t. 3600) ?ck ?i False = Inr ''20010909014640''" by code_simp
  ultimately show ?thesis
    using mdtm_roundtrip [where zone = "\<lambda>t. 3600" and the_time = 0 and ck = ?ck and i = ?i and use_localtime = False and p_file = "''a''"
        and e = "calm_env []\<lparr>e_mktime := mktime ''UTC-01:00''\<rparr>" and date = "''20010909014640''" and ck0 = "\<lparr>s_timezone = 0, env_tz = None\<rparr>"
        and zone' = "\<lambda>t. 3600"]
    by (simp add: local_offset_def vsf_sysutil_isdigit_def)
qed

section \<open>Dates outside of four digits\<close>

text \<open>The buffer has room for a year of four digits; a later one ends the process.\<close>

lemma numeric_date_dies:
  assumes "file_tm zone ck i use_localtime = Some tm" and "10000 \<le> tm_year tm + 1900"
  shows "vsf_sysutil_statbuf_get_numeric_date zone ck i use_localtime = die ''strftime''"
proof -
  have "10 ^ 4 \<le> nat (tm_year tm + 1900)" using assms(2) by simp
  from num_str_long [OF this] have "4 < length (int_text (tm_year tm + 1900))" using assms(2) by (simp add: int_text_def)
  then show ?thesis by (simp add: vsf_sysutil_statbuf_get_numeric_date_def strftime_checked_def strftime_def assms(1) numeric_expand Let_def)
qed

text \<open>
  A client can set such a time, if the file system keeps it, since the month of \<^verbatim>\<open>MDTM\<close> is not checked: the month 99 of the year 9999 is in the year 10007.
  The next session that asks for the time of this file ends.
\<close>

lemma far_date_set:
  assumes "e_mktime e = mktime ''UTC+00:00''"
    and "st_mtime i = vsf_sysutil_setmodtime \<lparr>s_timezone = 0, env_tz = Some ''UTC+00:00''\<rparr> (vsf_sysutil_parse_time e ''99999901000000'') False"
  shows "vsf_sysutil_statbuf_get_numeric_date zone ck i False = die ''strftime''"
proof (rule numeric_date_dies)
  have c: "digit_char 9 = CHR ''9''" "digit_char (Suc 0) = CHR ''1''" "digit_char 0 = CHR ''0''" by code_simp+
  have d: "''99999901000000'' = digits 4 9999 @ digits 2 99 @ digits 2 1 @ digits 2 0 @ digits 2 0 @ digits 2 0"
    using digits_split [of 2 2 9999] by (simp add: digits_two c)
  have t: "vsf_sysutil_parse_time e ''99999901000000'' = mktime ''UTC+00:00'' [8099, 98, 1, 0, 0, 0]"
    unfolding d by (subst parse_time_numeric) (simp_all add: assms(1))
  have "mktime ''UTC+00:00'' [8099, 98, 1, 0, 0, 0] = 253628323200" by code_simp
  then have "st_mtime i = 253628323200" using assms(2) t by (simp add: vsf_sysutil_setmodtime_def)
  then show "file_tm zone ck i False = Some (split_time 253628323200)"
    by (simp add: file_tm_def gmtime_def Let_def) code_simp
  show "10000 \<le> tm_year (split_time 253628323200) + 1900" by code_simp
qed

section \<open>Dates in logs and listings\<close>

lemma set_num_str: "c \<in> set (num_str 10 n) \<Longrightarrow> vsf_sysutil_isdigit c"
  using num_str_digits [of 10 n] by (auto simp: list_all_iff)

lemma int_text_no: "NUL \<notin> set (int_text y)" "CHR ''!'' \<notin> set (int_text y)"
  using set_num_str [of NUL] set_num_str [of "CHR ''!''"] by (auto simp: int_text_def vsf_sysutil_isdigit_def)

lemma length_int_text:
  assumes "\<bar>y\<bar> < 10 ^ k" and "0 < k"
  shows "length (int_text y) \<le> Suc k"
proof -
  have "nat \<bar>y\<bar> < 10 ^ k" using assms(1) by (simp add: nat_less_iff)
  then show ?thesis using length_num_str [of 10 "nat \<bar>y\<bar>" k] assms(2) by (cases "y < 0") (simp_all add: int_text_def)
qed

lemma day_name_facts:
  assumes "tm_in_range tm"
  shows "length (day_name tm) = 3" "NUL \<notin> set (day_name tm)" "CHR ''!'' \<notin> set (day_name tm)"
proof -
  have "day_name tm \<in> set [''Sun'', ''Mon'', ''Tue'', ''Wed'', ''Thu'', ''Fri'', ''Sat'']"
    unfolding day_name_def by (rule nth_mem) (use assms in \<open>simp add: tm_in_range_def nat_less_iff\<close>)
  then show "length (day_name tm) = 3" "NUL \<notin> set (day_name tm)" "CHR ''!'' \<notin> set (day_name tm)" by auto
qed

lemma month_name_facts:
  assumes "tm_in_range tm"
  shows "length (month_name tm) = 3" "NUL \<notin> set (month_name tm)" "CHR ''!'' \<notin> set (month_name tm)"
proof -
  have "month_name tm \<in> set [''Jan'', ''Feb'', ''Mar'', ''Apr'', ''May'', ''Jun'', ''Jul'', ''Aug'', ''Sep'', ''Oct'', ''Nov'', ''Dec'']"
    unfolding month_name_def by (rule nth_mem) (use assms in \<open>simp add: tm_in_range_def nat_less_iff\<close>)
  then show "length (month_name tm) = 3" "NUL \<notin> set (month_name tm)" "CHR ''!'' \<notin> set (month_name tm)" by auto
qed

lemma day_hack_at:
  assumes "CHR ''!'' \<notin> set a" and "NUL \<notin> set a" and "NUL \<notin> set (d # r)"
  shows "day_hack (a @ CHR ''!'' # d # r) = a @ CHR '' '' # (if d = CHR ''0'' then CHR '' '' else d) # r"
proof -
  have tw: "takeWhile (\<lambda>c. c \<noteq> CHR ''!'' \<and> c \<noteq> NUL) (a @ CHR ''!'' # x) = a" for x
    using assms(1,2) by (subst takeWhile_append2) auto
  have cs: "c_str (x @ [NUL]) = x" if "NUL \<notin> set x" for x using that by (induction x) (auto simp: c_str_def)
  have "day_hack (a @ CHR ''!'' # d # r) = c_str ((a @ CHR '' '' # (if d = CHR ''0'' then CHR '' '' else d) # r) @ [NUL])"
    by (simp add: day_hack_def Let_def tw nth_append list_update_append)
  then show ?thesis using assms by (simp only: cs) (subst cs, auto)
qed

text \<open>The date of the log is that of \<open>asctime\<close>, for every time of which there is a year: a day of one digit has a space before it.\<close>

lemma current_date_asctime:
  assumes "localtime zone ck t = Some tm"
  shows "vsf_sysutil_get_current_date zone ck t =
    Inr (day_name tm @ '' '' @ month_name tm @ '' '' @
         (if tm_mday tm < 10 then CHR '' '' # digits 1 (nat (tm_mday tm)) else digits 2 (nat (tm_mday tm))) @ '' '' @
         digits 2 (nat (tm_hour tm)) @ '':'' @ digits 2 (nat (tm_min tm)) @ '':'' @ digits 2 (nat (tm_sec tm)) @ '' '' @ int_text (tm_year tm + 1900))"
proof -
  obtain tm0 g where gm: "gmtime (t + local_offset zone ck t) = Some tm0" "tm = tm0\<lparr>tm_gmtoff := g\<rparr>"
    using assms by (auto simp: localtime_def Let_def)
  have r: "tm_in_range tm" "-2147483648 \<le> tm_year tm" "tm_year tm \<le> 2147483647" using gmtime_facts [OF gm(1)] by (simp_all add: gm(2))
  define rest where "rest = '' '' @ digits 2 (nat (tm_hour tm)) @ '':'' @ digits 2 (nat (tm_min tm)) @ '':'' @ digits 2 (nat (tm_sec tm)) @ '' '' @
    int_text (tm_year tm + 1900)"
  have nul: "NUL \<notin> set rest" by (simp add: rest_def int_text_no)
  let ?d = "nat (tm_mday tm)"
  have dn: "NUL \<noteq> digit_char (n mod 10)" for n using digit_char_facts(2) [of "n mod 10"] by (metis mod_less_divisor zero_less_numeral)
  have xt: "expand ''%a %b!%d %H:%M:%S %Y'' tm = (day_name tm @ '' '' @ month_name tm) @ CHR ''!'' # digit_char (?d div 10 mod 10) # digit_char (?d mod 10) # rest"
    by (simp add: expand.simps conversion_def rest_def digits_two)
  have "length (int_text (tm_year tm + 1900)) \<le> Suc 10" using r(2,3) by (intro length_int_text) auto
  then have "length (expand ''%a %b!%d %H:%M:%S %Y'' tm) < 64"
    using day_name_facts(1) [OF r(1)] month_name_facts(1) [OF r(1)] by (simp add: xt rest_def)
  then have "vsf_sysutil_get_current_date zone ck t = Inr (day_hack (expand ''%a %b!%d %H:%M:%S %Y'' tm))"
    by (simp add: vsf_sysutil_get_current_date_def strftime_checked_def strftime_def assms)
  also have "day_hack (expand ''%a %b!%d %H:%M:%S %Y'' tm) =
      (day_name tm @ '' '' @ month_name tm) @ CHR '' '' # (if ?d div 10 mod 10 = 0 then CHR '' '' else digit_char (?d div 10 mod 10)) # digit_char (?d mod 10) # rest"
    unfolding xt using day_name_facts [OF r(1)] month_name_facts [OF r(1)] nul by (subst day_hack_at) (simp_all add: dn)
  also have "?d div 10 mod 10 = 0 \<longleftrightarrow> tm_mday tm < 10"
  proof -
    have "?d \<le> 31" "0 \<le> tm_mday tm" using r(1) by (auto simp: tm_in_range_def)
    then have "?d div 10 \<le> 3" using div_le_mono [of ?d 31 10] by simp
    then show ?thesis using \<open>0 \<le> tm_mday tm\<close> by (simp add: div_eq_0_iff) linarith
  qed
  finally show ?thesis by (simp add: rest_def digits_two)
qed

text \<open>Dates of listings have twelve characters, so that names are aligned.\<close>

lemma listing_date_width:
  assumes "vsf_sysutil_statbuf_get_date zone ck i use_localtime curr_time = Inr date" and "file_tm zone ck i use_localtime = Some tm"
    and "1000 \<le> tm_year tm + 1900" and "tm_year tm + 1900 \<le> 9999"
  shows "length date = 12"
proof -
  have "length (int_text (tm_year tm + 1900)) = 4"
    using num_str_eq_digits [of "nat (tm_year tm + 1900)" 3] assms(3,4) by (simp add: int_text_def nat_le_iff nat_less_iff)
  then show ?thesis
    using assms(1) month_name_facts(1) [OF file_tm_facts(1) [OF assms(2)]]
    by (auto simp: vsf_sysutil_statbuf_get_date_def strftime_checked_def strftime_def assms(2) expand.simps conversion_def Let_def halt_simps
        split: if_splits)
qed

end
