(* ===== verification/Signals.thy ===== *)
theory Signals
  imports Prelude
begin

text \<open>
  Signals in \<^verbatim>\<open>sysutil.c\<close>: a signal that arrives is noted, and its handler runs at the next of the points where the program looks for noted signals
  (\<open>vsf_sysutil_check_pending_actions\<close>, after every call that may block). Handlers are programs of the same operations, so that they may
  look for signals themselves and handlers may run inside handlers.
\<close>

section \<open>State\<close>

text \<open>Linux has the signals 1 to 64.\<close>

definition NSIG :: nat where
  "NSIG = 65"

datatype EVSFSysUtilSignal =
    kVSFSysUtilSigALRM | kVSFSysUtilSigTERM | kVSFSysUtilSigCHLD | kVSFSysUtilSigPIPE | kVSFSysUtilSigURG | kVSFSysUtilSigHUP

datatype EVSFSysUtilInterruptContext = kVSFSysUtilUnknown | kVSFSysUtilIO

abbreviation SIGALRM :: nat where "SIGALRM \<equiv> 14"

fun vsf_sysutil_translate_sig :: "EVSFSysUtilSignal \<Rightarrow> nat" where
  "vsf_sysutil_translate_sig kVSFSysUtilSigALRM = SIGALRM"
| "vsf_sysutil_translate_sig kVSFSysUtilSigTERM = 15"
| "vsf_sysutil_translate_sig kVSFSysUtilSigCHLD = 17"
| "vsf_sysutil_translate_sig kVSFSysUtilSigPIPE = 13"
| "vsf_sysutil_translate_sig kVSFSysUtilSigURG = 23"
| "vsf_sysutil_translate_sig kVSFSysUtilSigHUP = 1"

text \<open>
  \<open>s_sig_details\<close>; a handler is the number of its program. What the kernel does with a signal: its default action, one of the two functions
  of \<^verbatim>\<open>sysutil.c\<close>, or an asynchronous handler.
\<close>

record sig_details =
  sync_sig_handler :: "nat option"
  p_private :: nat
  pending :: bool
  running :: bool
  use_alarm :: bool

datatype disposition = SIG_DFL | Common | Alrm | AsyncHandler nat

text \<open>What happens, newest first in the state: a signal is noted, a handler starts and ends, an asynchronous handler runs.\<close>

datatype place = Sig nat | Io

datatype event = Raised nat | Enter place nat nat | Leave place | Async nat

record sigs =
  s_sig_details :: "nat \<Rightarrow> sig_details"
  s_io_handler :: "nat option"
  s_p_io_handler_private :: nat
  s_io_handler_running :: bool
  dispositions :: "nat \<Rightarrow> disposition"
  blocked :: "nat set"
  kpending :: "nat set"
  alarm_in :: nat
  events :: "event list"

definition detail :: "nat \<Rightarrow> (sig_details \<Rightarrow> sig_details) \<Rightarrow> sigs \<Rightarrow> sigs" where
  "detail i f s = s\<lparr>s_sig_details := (s_sig_details s)(i := f (s_sig_details s i))\<rparr>"

definition happens :: "event \<Rightarrow> sigs \<Rightarrow> sigs" where
  "happens ev s = s\<lparr>events := ev # events s\<rparr>"

text \<open>What an operation does: it returns, or the process ends.\<close>

type_synonym step = "halt option \<times> sigs"

section \<open>Operations\<close>

definition set_alarm :: "nat \<Rightarrow> sigs \<Rightarrow> sigs" where
  "set_alarm trigger_seconds s = s\<lparr>alarm_in := trigger_seconds\<rparr>"

definition vsf_sysutil_alrm_sighandler :: "sigs \<Rightarrow> sigs" where
  "vsf_sysutil_alrm_sighandler s = set_alarm 1 s"

definition vsf_sysutil_common_sighandler :: "nat \<Rightarrow> sigs \<Rightarrow> sigs" where
  "vsf_sysutil_common_sighandler signum s =
     (if signum \<ge> NSIG then s
      else if sync_sig_handler (s_sig_details s signum) \<noteq> None
      then let s = happens (Raised signum) (detail signum (pending_update (\<lambda>_. True)) s)
           in if use_alarm (s_sig_details s signum) then set_alarm 1 s else s
      else s)"

text \<open>
  The kernel: a blocked signal waits; \<^verbatim>\<open>SIGCHLD\<close>, \<^verbatim>\<open>SIGCONT\<close>, \<^verbatim>\<open>SIGURG\<close> and \<^verbatim>\<open>SIGWINCH\<close> are ignored by default, other signals end the
  process (those that stop it until it is continued are not modelled). While a handler of the kernel
  runs all signals are blocked (\<open>sigfillset\<close>).
\<close>

definition ignored :: "nat \<Rightarrow> bool" where
  "ignored i \<longleftrightarrow> i \<in> {17, 18, 23, 28}"

definition deliver :: "nat \<Rightarrow> sigs \<Rightarrow> step" where
  "deliver i s =
     (if i \<in> blocked s then (None, s\<lparr>kpending := insert i (kpending s)\<rparr>)
      else case dispositions s i of
             SIG_DFL \<Rightarrow> (if ignored i then None else Some (Exit (int (128 + i))), s)
           | Common \<Rightarrow> (None, vsf_sysutil_common_sighandler i s)
           | Alrm \<Rightarrow> (None, vsf_sysutil_alrm_sighandler s)
           | AsyncHandler h \<Rightarrow> (None, happens (Async i) s))"

definition vsf_sysutil_set_sighandler :: "nat \<Rightarrow> disposition \<Rightarrow> sigs \<Rightarrow> sigs" where
  "vsf_sysutil_set_sighandler sig p_handlefunc s = s\<lparr>dispositions := (dispositions s)(sig := p_handlefunc)\<rparr>"

definition vsf_sysutil_install_sighandler :: "EVSFSysUtilSignal \<Rightarrow> nat \<Rightarrow> nat \<Rightarrow> bool \<Rightarrow> sigs \<Rightarrow> sigs" where
  "vsf_sysutil_install_sighandler sig handler private alarm s =
     (let realsig = vsf_sysutil_translate_sig sig;
          s = detail realsig (\<lambda>d. d\<lparr>p_private := private, sync_sig_handler := Some handler, use_alarm := alarm\<rparr>) s;
          s = vsf_sysutil_set_sighandler realsig Common s
      in if alarm \<and> realsig \<noteq> SIGALRM then vsf_sysutil_set_sighandler SIGALRM Alrm s else s)"

definition no_handler :: "sig_details \<Rightarrow> sig_details" where
  "no_handler d = d\<lparr>p_private := 0, sync_sig_handler := None\<rparr>"

definition vsf_sysutil_default_sig :: "EVSFSysUtilSignal \<Rightarrow> sigs \<Rightarrow> sigs" where
  "vsf_sysutil_default_sig sig s =
     (let realsig = vsf_sysutil_translate_sig sig
      in detail realsig no_handler (vsf_sysutil_set_sighandler realsig SIG_DFL s))"

definition vsf_sysutil_install_null_sighandler :: "EVSFSysUtilSignal \<Rightarrow> sigs \<Rightarrow> sigs" where
  "vsf_sysutil_install_null_sighandler sig s =
     (let realsig = vsf_sysutil_translate_sig sig
      in vsf_sysutil_set_sighandler realsig Common (detail realsig no_handler s))"

definition vsf_sysutil_block_sig :: "EVSFSysUtilSignal \<Rightarrow> sigs \<Rightarrow> sigs" where
  "vsf_sysutil_block_sig sig s = s\<lparr>blocked := insert (vsf_sysutil_translate_sig sig) (blocked s)\<rparr>"

definition vsf_sysutil_unblock_sig :: "EVSFSysUtilSignal \<Rightarrow> sigs \<Rightarrow> step" where
  "vsf_sysutil_unblock_sig sig s =
     (let i = vsf_sysutil_translate_sig sig; s' = s\<lparr>blocked := blocked s - {i}, kpending := kpending s - {i}\<rparr>
      in if i \<in> kpending s then deliver i s' else (None, s'))"

definition vsf_sysutil_install_async_sighandler :: "EVSFSysUtilSignal \<Rightarrow> nat \<Rightarrow> sigs \<Rightarrow> sigs" where
  "vsf_sysutil_install_async_sighandler sig handler s =
     (let realsig = vsf_sysutil_translate_sig sig
      in vsf_sysutil_set_sighandler realsig (AsyncHandler handler) (vsf_sysutil_block_sig sig (detail realsig no_handler s)))"

definition vsf_sysutil_install_io_handler :: "nat \<Rightarrow> nat \<Rightarrow> sigs \<Rightarrow> step" where
  "vsf_sysutil_install_io_handler handler private s =
     (if s_io_handler s \<noteq> None then (Some (Bug ''double register of i/o handler''), s)
      else (None, s\<lparr>s_io_handler := Some handler, s_p_io_handler_private := private\<rparr>))"

definition vsf_sysutil_uninstall_io_handler :: "sigs \<Rightarrow> step" where
  "vsf_sysutil_uninstall_io_handler s =
     (if s_io_handler s = None then (Some (Bug ''no i/o handler to unregister!''), s)
      else (None, s\<lparr>s_io_handler := None, s_p_io_handler_private := 0\<rparr>))"

text \<open>
  What programs do, with what the outside does to them in between: a signal arrives, the alarm goes off, or the process ends.
\<close>

datatype op =
    Arrives nat
  | AlarmRings
  | Check EVSFSysUtilInterruptContext
  | Install EVSFSysUtilSignal nat nat bool
  | Default EVSFSysUtilSignal
  | InstallNull EVSFSysUtilSignal
  | InstallAsync EVSFSysUtilSignal nat
  | Block EVSFSysUtilSignal
  | Unblock EVSFSysUtilSignal
  | InstallIo nat nat
  | UninstallIo
  | SetAlarm nat
  | Quit int

fun simple_op :: "op \<Rightarrow> sigs \<Rightarrow> step" where
  "simple_op (Arrives i) s = deliver i s"
| "simple_op AlarmRings s = (if alarm_in s = 0 then (None, s) else deliver SIGALRM (s\<lparr>alarm_in := 0\<rparr>))"
| "simple_op (Check context) s = (None, s)"
| "simple_op (Install sig h p a) s = (None, vsf_sysutil_install_sighandler sig h p a s)"
| "simple_op (Default sig) s = (None, vsf_sysutil_default_sig sig s)"
| "simple_op (InstallNull sig) s = (None, vsf_sysutil_install_null_sighandler sig s)"
| "simple_op (InstallAsync sig h) s = (None, vsf_sysutil_install_async_sighandler sig h s)"
| "simple_op (Block sig) s = (None, vsf_sysutil_block_sig sig s)"
| "simple_op (Unblock sig) s = vsf_sysutil_unblock_sig sig s"
| "simple_op (InstallIo h p) s = vsf_sysutil_install_io_handler h p s"
| "simple_op UninstallIo s = vsf_sysutil_uninstall_io_handler s"
| "simple_op (SetAlarm n) s = (None, set_alarm n s)"
| "simple_op (Quit c) s = (Some (Exit c), s)"

text \<open>A step after another; \<open>None\<close> says that handlers were nested deeper than they may be (see \<open>exec\<close> below).\<close>

fun and_next :: "step option \<Rightarrow> (sigs \<Rightarrow> step option) \<Rightarrow> step option" where
  "and_next None f = None"
| "and_next (Some (Some h, s)) f = Some (Some h, s)"
| "and_next (Some (None, s)) f = f s"

text \<open>
  \<open>vsf_sysutil_check_pending_actions\<close>: first the handler of input and output, then the signals in their order. \<open>run\<close> runs the program of a handler.
\<close>

definition enter_io :: "nat \<Rightarrow> sigs \<Rightarrow> sigs" where
  "enter_io h s = happens (Enter Io h (s_p_io_handler_private s)) (s\<lparr>s_io_handler_running := True\<rparr>)"

definition leave_io :: "sigs \<Rightarrow> sigs" where
  "leave_io s = happens (Leave Io) (s\<lparr>s_io_handler_running := False\<rparr>)"

definition enter_sig :: "nat \<Rightarrow> nat \<Rightarrow> sigs \<Rightarrow> sigs" where
  "enter_sig i h s = happens (Enter (Sig i) h (p_private (s_sig_details s i))) (detail i (pending_update (\<lambda>_. False)) s)"

definition handle_sig :: "(nat \<Rightarrow> op list) \<Rightarrow> (op list \<Rightarrow> sigs \<Rightarrow> step option) \<Rightarrow> nat \<Rightarrow> sigs \<Rightarrow> step option" where
  "handle_sig H run i s =
     (let s1 = detail i (running_update (\<lambda>_. True)) s;
          s2 = (if use_alarm (s_sig_details s1 i) then set_alarm 0 s1 else s1)
      in case sync_sig_handler (s_sig_details s2 i) of
           None \<Rightarrow> Some (None, detail i (running_update (\<lambda>_. False)) s2)
         | Some h \<Rightarrow> and_next (run (H h) (enter_sig i h s2))
             (\<lambda>s3. Some (None, happens (Leave (Sig i)) (detail i (running_update (\<lambda>_. False)) s3))))"

fun check_loop :: "(nat \<Rightarrow> op list) \<Rightarrow> (op list \<Rightarrow> sigs \<Rightarrow> step option) \<Rightarrow> nat list \<Rightarrow> sigs \<Rightarrow> step option" where
  "check_loop H run [] s = Some (None, s)"
| "check_loop H run (i # is) s =
     and_next (if pending (s_sig_details s i) \<and> \<not> running (s_sig_details s i) then handle_sig H run i s else Some (None, s))
       (check_loop H run is)"

definition check_io ::
  "(nat \<Rightarrow> op list) \<Rightarrow> (op list \<Rightarrow> sigs \<Rightarrow> step option) \<Rightarrow> EVSFSysUtilInterruptContext \<Rightarrow> sigs \<Rightarrow> step option" where
  "check_io H run context s =
     (case s_io_handler s of
        Some h \<Rightarrow>
          if \<not> s_io_handler_running s \<and> context = kVSFSysUtilIO
          then and_next (run (H h) (enter_io h s)) (\<lambda>s1. Some (None, leave_io s1))
          else Some (None, s)
      | None \<Rightarrow> Some (None, s))"

definition vsf_sysutil_check_pending_actions ::
  "(nat \<Rightarrow> op list) \<Rightarrow> (op list \<Rightarrow> sigs \<Rightarrow> step option) \<Rightarrow> EVSFSysUtilInterruptContext \<Rightarrow> sigs \<Rightarrow> step option" where
  "vsf_sysutil_check_pending_actions H run context s = and_next (check_io H run context s) (check_loop H run [0 ..< NSIG])"

text \<open>\<^verbatim>\<open>ssl.c\<close> lets OpenSSL call this around every operation on a socket; it returns what OpenSSL gave it.\<close>

definition bio_callback :: "(nat \<Rightarrow> op list) \<Rightarrow> (op list \<Rightarrow> sigs \<Rightarrow> step option) \<Rightarrow> int \<Rightarrow> sigs \<Rightarrow> (int \<times> step) option" where
  "bio_callback H run r s = map_option (\<lambda>st. (r, st)) (vsf_sysutil_check_pending_actions H run kVSFSysUtilIO s)"

text \<open>
  Programs; \<open>H\<close> has those of the handlers. \<open>exec H d\<close> runs a program in which handlers may be nested \<open>d\<close> deep.
\<close>

fun run_ops :: "(EVSFSysUtilInterruptContext \<Rightarrow> sigs \<Rightarrow> step option) \<Rightarrow> op list \<Rightarrow> sigs \<Rightarrow> step option" where
  "run_ops check [] s = Some (None, s)"
| "run_ops check (op # ops) s =
     and_next (case op of Check context \<Rightarrow> check context s | _ \<Rightarrow> Some (simple_op op s)) (run_ops check ops)"

primrec exec :: "(nat \<Rightarrow> op list) \<Rightarrow> nat \<Rightarrow> op list \<Rightarrow> sigs \<Rightarrow> step option" where
  "exec H 0 = run_ops (\<lambda>context s. None)"
| "exec H (Suc d) = run_ops (vsf_sysutil_check_pending_actions H (exec H d))"

section \<open>Handlers are not entered twice, and no signal is forgotten\<close>

text \<open>
  The handlers that run, the innermost first, as the events say; \<open>None\<close> if a handler was entered again while it ran, or if another than the innermost
  ended.
\<close>

fun nesting :: "event list \<Rightarrow> place list option" where
  "nesting [] = Some []"
| "nesting (Enter w h p # es) = (case nesting es of Some st \<Rightarrow> if w \<in> set st then None else Some (w # st) | None \<Rightarrow> None)"
| "nesting (Leave w # es) = (case nesting es of Some (v # st) \<Rightarrow> if v = w then Some st else None | _ \<Rightarrow> None)"
| "nesting (e # es) = nesting es"

text \<open>The signal \<open>i\<close> was noted, and its handler has not started since.\<close>

fun owed :: "nat \<Rightarrow> event list \<Rightarrow> bool" where
  "owed i [] = False"
| "owed i (Raised j # es) = (i = j \<or> owed i es)"
| "owed i (Enter w h p # es) = (w \<noteq> Sig i \<and> owed i es)"
| "owed i (e # es) = owed i es"

definition runs_now :: "sigs \<Rightarrow> place set" where
  "runs_now s = {Sig i |i. running (s_sig_details s i)} \<union> (if s_io_handler_running s then {Io} else {})"

definition sigs_ok :: "sigs \<Rightarrow> bool" where
  "sigs_ok s \<longleftrightarrow>
     (\<exists>st. nesting (events s) = Some st \<and> set st = runs_now s) \<and> (\<forall>i. pending (s_sig_details s i) = owed i (events s))"

text \<open>What a program does to the state: it keeps the invariant, only adds events, and when it returns the same handlers run as before.\<close>

definition after :: "sigs \<Rightarrow> step \<Rightarrow> bool" where
  "after s r \<longleftrightarrow> sigs_ok (snd r) \<and> suffix (events s) (events (snd r)) \<and>
     (fst r = None \<longrightarrow> nesting (events (snd r)) = nesting (events s) \<and> runs_now (snd r) = runs_now s)"

lemma after_refl: "sigs_ok s \<Longrightarrow> after s (None, s)"
  by (simp add: after_def)

lemma after_next:
  assumes "and_next r f = Some r'" and "\<And>x. r = Some x \<Longrightarrow> after s x" and "\<And>s1. sigs_ok s1 \<Longrightarrow> r = Some (None, s1) \<Longrightarrow> f s1 = Some r' \<Longrightarrow> after s1 r'"
  shows "after s r'"
proof (cases r)
  case (Some x)
  obtain h s1 where x: "x = (h, s1)" by (cases x)
  have 1: "after s (h, s1)" using assms(2) Some x by simp
  show ?thesis
  proof (cases h)
    case None
    then have "after s1 r'" using 1 assms(1) Some x by (intro assms(3)) (simp_all add: after_def)
    moreover have "suffix (events s) (events (snd r'))" if "suffix (events s) (events s1)" "suffix (events s1) (events (snd r'))"
      using that by (rule suffix_order.trans)
    ultimately show ?thesis using 1 None by (simp add: after_def)
  qed (use assms(1) Some x 1 in simp)
qed (use assms(1) in simp)

lemmas sig_defs = detail_def happens_def set_alarm_def no_handler_def vsf_sysutil_set_sighandler_def vsf_sysutil_alrm_sighandler_def
  vsf_sysutil_common_sighandler_def vsf_sysutil_install_sighandler_def vsf_sysutil_default_sig_def vsf_sysutil_install_null_sighandler_def
  vsf_sysutil_block_sig_def vsf_sysutil_install_async_sighandler_def vsf_sysutil_install_io_handler_def vsf_sysutil_uninstall_io_handler_def

text \<open>A step that starts and ends no handler.\<close>

lemma after_quiet:
  assumes "sigs_ok s" and "\<And>i. running (s_sig_details s' i) = running (s_sig_details s i)"
    and "s_io_handler_running s' = s_io_handler_running s" and "suffix (events s) (events s')"
    and "nesting (events s') = nesting (events s)" and "\<And>i. pending (s_sig_details s' i) = owed i (events s')"
  shows "after s (r, s')"
proof -
  have "runs_now s' = runs_now s" using assms(2,3) by (simp add: runs_now_def)
  then show ?thesis using assms by (simp add: after_def sigs_ok_def)
qed

lemma ok_pending: "sigs_ok s \<Longrightarrow> pending (s_sig_details s i) = owed i (events s)"
  by (simp add: sigs_ok_def)

lemma deliver_after:
  assumes "sigs_ok s"
  shows "after s (deliver i s)"
proof -
  have "after s (None, vsf_sysutil_common_sighandler i s)"
    using assms by (intro after_quiet) (auto simp: vsf_sysutil_common_sighandler_def sig_defs Let_def suffix_Cons ok_pending)
  moreover have "after s (r, s\<lparr>kpending := k\<rparr>)" "after s (r, s)" "after s (r, set_alarm n s)" "after s (r, happens (Async i) s)" for r k n
    using assms by (auto intro!: after_quiet simp: sig_defs suffix_Cons ok_pending)
  ultimately show ?thesis by (cases "dispositions s i") (simp_all add: deliver_def vsf_sysutil_alrm_sighandler_def)
qed

text \<open>The invariant does not look at blocked signals and alarms.\<close>

lemma unseen:
  assumes "events s' = events s" and "s_sig_details s' = s_sig_details s" and "s_io_handler_running s' = s_io_handler_running s"
  shows "sigs_ok s' = sigs_ok s" and "after s' r = after s r"
proof -
  have "runs_now s' = runs_now s" using assms by (simp add: runs_now_def)
  then show "sigs_ok s' = sigs_ok s" "after s' r = after s r" using assms by (simp_all add: sigs_ok_def after_def)
qed

lemma deliver_unseen:
  assumes "sigs_ok s" and "events s' = events s" and "s_sig_details s' = s_sig_details s"
    and "s_io_handler_running s' = s_io_handler_running s"
  shows "after s (deliver i s')"
  using deliver_after [of s' i] assms(1) unseen [OF assms(2-4)] by simp

lemma simple_op_after:
  assumes "sigs_ok s"
  shows "after s (simple_op op s)"
proof (cases op)
  case AlarmRings
  then show ?thesis using assms by (simp add: deliver_unseen after_refl)
next
  case (Unblock sig)
  let ?i = "vsf_sysutil_translate_sig sig"
  let ?s = "s\<lparr>blocked := blocked s - {?i}, kpending := kpending s - {?i}\<rparr>"
  have "after s (deliver ?i ?s)" "after s (None, ?s)"
    using deliver_unseen [OF assms, of ?s] after_refl [of ?s] assms unseen [of ?s s] by simp_all
  then show ?thesis unfolding Unblock simple_op.simps vsf_sysutil_unblock_sig_def Let_def by presburger
next
  case (Arrives i)
  then show ?thesis using assms by (simp add: deliver_after)
qed (use assms in \<open>auto intro!: after_quiet simp: sig_defs Let_def ok_pending split: if_splits\<close>)

section \<open>Running handlers\<close>

text \<open>What \<open>vsf_sysutil_check_pending_actions\<close> may rely on when it runs a handler.\<close>

lemma enter_ok:
  assumes "sigs_ok s" and "w \<notin> runs_now s" and "events s1 = Enter w h p # events s" and "runs_now s1 = insert w (runs_now s)"
    and "\<And>i. pending (s_sig_details s1 i) = owed i (events s1)"
  shows "sigs_ok s1"
  using assms by (auto simp: sigs_ok_def)

lemma enter_sig_effect:
  assumes "\<not> running (s_sig_details s i)"
  defines "s1 \<equiv> detail i (running_update (\<lambda>_. True)) s"
  defines "s2 \<equiv> if use_alarm (s_sig_details s1 i) then set_alarm 0 s1 else s1"
  shows "Sig i \<notin> runs_now s"
    and "events (enter_sig i h s2) = Enter (Sig i) h (p_private (s_sig_details s i)) # events s"
    and "runs_now (enter_sig i h s2) = insert (Sig i) (runs_now s)"
    and "sigs_ok s \<Longrightarrow> pending (s_sig_details (enter_sig i h s2) j) = owed j (events (enter_sig i h s2))"
  using assms(1) by (auto simp: s2_def s1_def runs_now_def enter_sig_def sig_defs ok_pending split: if_splits)

lemma enter_io_effect:
  assumes "\<not> s_io_handler_running s"
  shows "Io \<notin> runs_now s" and "events (enter_io h s) = Enter Io h (s_p_io_handler_private s) # events s"
    and "runs_now (enter_io h s) = insert Io (runs_now s)"
    and "sigs_ok s \<Longrightarrow> pending (s_sig_details (enter_io h s) j) = owed j (events (enter_io h s))"
  using assms by (auto simp: runs_now_def enter_io_def sig_defs ok_pending split: if_splits)

locale handler_runner =
  fixes run :: "op list \<Rightarrow> sigs \<Rightarrow> step option"
  assumes run_after: "sigs_ok s \<Longrightarrow> run ops s = Some r \<Longrightarrow> after s r"
begin

text \<open>A handler starts in a place where none runs, and when it is done it leaves that place.\<close>

lemma inside:
  assumes ok: "sigs_ok s" and w: "w \<notin> runs_now s"
    and s1: "events s1 = Enter w h p # events s" "runs_now s1 = insert w (runs_now s)"
      "\<And>i. pending (s_sig_details s1 i) = owed i (events s1)"
    and s2: "\<And>s2. events (out s2) = Leave w # events s2" "\<And>s2. w \<in> runs_now s2 \<Longrightarrow> runs_now (out s2) = runs_now s2 - {w}"
      "\<And>s2 i. pending (s_sig_details (out s2) i) = pending (s_sig_details s2 i)"
    and r: "and_next (run prog s1) (\<lambda>s2. Some (None, out s2)) = Some r"
  shows "after s r"
proof -
  obtain st where st: "nesting (events s) = Some st" "set st = runs_now s" using ok by (auto simp: sigs_ok_def)
  have "sigs_ok s1" by (rule enter_ok [OF ok w s1])
  obtain x where x: "run prog s1 = Some x" using r by (cases "run prog s1") auto
  from run_after [OF \<open>sigs_ok s1\<close> x] have a: "after s1 x" .
  have suf: "suffix (events s) (events (snd x))"
    using a s1(1) by (auto simp: after_def suffix_def)
  show ?thesis
  proof (cases x)
    case (Pair h2 s2)
    show ?thesis
    proof (cases h2)
      case None
      have s2': "sigs_ok s2" "nesting (events s2) = Some (w # st)" "runs_now s2 = insert w (runs_now s)"
        using a Pair None s1 st w by (auto simp: after_def)
      have "runs_now (out s2) = runs_now s" using s2(2) [of s2] s2'(3) w by auto
      moreover have "sigs_ok (out s2)"
        using s2'(1,2) s2(1,3) [of s2] \<open>runs_now (out s2) = runs_now s\<close> st(2) by (simp add: sigs_ok_def)
      moreover have "nesting (events (out s2)) = nesting (events s)" by (simp add: s2(1) s2'(2) st(1))
      moreover have "suffix (events s) (events (out s2))" using suf Pair by (simp add: s2(1) suffix_Cons)
      moreover have "r = (None, out s2)" using r x Pair None by simp
      ultimately show ?thesis by (simp add: after_def)
    next
      case (Some _)
      then have "r = x" using r x Pair by simp
      then show ?thesis using a suf Some Pair by (simp add: after_def)
    qed
  qed
qed

lemma handle_sig_after:
  assumes "sigs_ok s" and "\<not> running (s_sig_details s i)" and "handle_sig H run i s = Some r"
  shows "after s r"
proof -
  let ?s1 = "detail i (running_update (\<lambda>_. True)) s"
  let ?s2 = "if use_alarm (s_sig_details ?s1 i) then set_alarm 0 ?s1 else ?s1"
  let ?out = "\<lambda>s. happens (Leave (Sig i)) (detail i (running_update (\<lambda>_. False)) s)"
  show ?thesis
  proof (cases "sync_sig_handler (s_sig_details ?s2 i)")
    case None
    then have "r = (None, detail i (running_update (\<lambda>_. False)) ?s2)" using assms(3) unfolding handle_sig_def Let_def None by simp
    then show ?thesis using assms(1,2) by (auto intro!: after_quiet simp: sig_defs ok_pending split: if_splits)
  next
    case (Some h)
    have r: "and_next (run (H h) (enter_sig i h ?s2)) (\<lambda>s. Some (None, ?out s)) = Some r"
      using assms(3) unfolding handle_sig_def Let_def Some by simp
    show ?thesis
    proof (rule inside [OF assms(1) enter_sig_effect [OF assms(2)] _ _ _ r])
      show "runs_now (?out s2) = runs_now s2 - {Sig i}" if "Sig i \<in> runs_now s2" for s2
        by (auto simp: runs_now_def sig_defs split: if_splits)
    qed (use assms(1) in \<open>simp_all add: sig_defs\<close>)
  qed
qed

lemma check_loop_after: "sigs_ok s \<Longrightarrow> check_loop H run is s = Some r \<Longrightarrow> after s r"
proof (induction "is" arbitrary: s)
  case (Cons i "is")
  from Cons.prems(2) show ?case
    by (simp only: check_loop.simps)
      (erule after_next, auto intro: handle_sig_after [OF Cons.prems(1)] after_refl [OF Cons.prems(1)] Cons.IH split: if_splits)
qed (auto simp: after_refl)

lemma check_io_after:
  assumes "sigs_ok s" and "check_io H run context s = Some r"
  shows "after s r"
proof (cases "\<exists>h. s_io_handler s = Some h \<and> \<not> s_io_handler_running s \<and> context = kVSFSysUtilIO")
  case True
  then obtain h where h: "s_io_handler s = Some h" "\<not> s_io_handler_running s" "context = kVSFSysUtilIO" by blast
  have r: "and_next (run (H h) (enter_io h s)) (\<lambda>s. Some (None, leave_io s)) = Some r"
    using assms(2) h by (simp add: check_io_def)
  show ?thesis
    by (rule inside [OF assms(1) enter_io_effect [OF h(2)] _ _ _ r])
      (use assms(1) in \<open>auto simp: runs_now_def leave_io_def sig_defs split: if_splits\<close>)
next
  case False
  then show ?thesis using assms by (auto simp: check_io_def after_refl split: option.splits if_splits)
qed

lemma check_after: "sigs_ok s \<Longrightarrow> vsf_sysutil_check_pending_actions H run context s = Some r \<Longrightarrow> after s r"
  unfolding vsf_sysutil_check_pending_actions_def by (erule after_next) (auto intro: check_io_after check_loop_after)

end

definition run_op :: "(EVSFSysUtilInterruptContext \<Rightarrow> sigs \<Rightarrow> step option) \<Rightarrow> op \<Rightarrow> sigs \<Rightarrow> step option" where
  "run_op check op s = (case op of Check context \<Rightarrow> check context s | _ \<Rightarrow> Some (simple_op op s))"

lemma run_op_after:
  assumes "\<And>context r. check context s = Some r \<Longrightarrow> after s r" and "sigs_ok s" and "run_op check op s = Some r"
  shows "after s r"
  using assms simple_op_after [OF assms(2), of op] by (cases op) (auto simp: run_op_def simp del: simple_op.simps)

lemma run_ops_after:
  assumes "\<And>context s r. sigs_ok s \<Longrightarrow> check context s = Some r \<Longrightarrow> after s r"
  shows "sigs_ok s \<Longrightarrow> run_ops check ops s = Some r \<Longrightarrow> after s r"
proof (induction ops arbitrary: s)
  case (Cons op ops)
  from Cons.prems(2) show ?case
    unfolding run_ops.simps run_op_def [symmetric]
    by (rule after_next) (auto intro: run_op_after [OF _ Cons.prems(1)] assms Cons.prems(1) Cons.IH)
qed (auto simp: after_refl)

lemma exec_runner: "handler_runner (exec H d)"
proof (induction d)
  case (Suc d)
  show ?case by unfold_locales (auto intro: run_ops_after handler_runner.check_after [OF Suc])
qed (unfold_locales, auto intro: run_ops_after)

interpretation exec: handler_runner "exec H d" for H d
  by (rule exec_runner)

section \<open>Handlers end\<close>

text \<open>
  The places where a handler may still start. A handler inside another takes one of them, so that they bound how deep handlers nest.
\<close>

definition free_places :: "sigs \<Rightarrow> nat" where
  "free_places s = card ((Sig ` {..< NSIG} \<union> {Io}) - runs_now s)"

lemma free_places_less:
  assumes "w \<in> Sig ` {..< NSIG} \<union> {Io}" and "w \<notin> runs_now s" and "runs_now s1 = insert w (runs_now s)"
  shows "free_places s1 < free_places s"
  unfolding free_places_def assms(3) using assms(1,2) by (intro psubset_card_mono) auto

lemma free_places_le: "free_places s \<le> Suc NSIG"
proof -
  have "free_places s \<le> card (Sig ` {..< NSIG} \<union> {Io})" unfolding free_places_def by (intro card_mono) auto
  also have "\<dots> = Suc NSIG" by (subst card_Un_disjoint) (auto simp: card_image inj_on_def)
  finally show ?thesis .
qed

lemma next_returns:
  assumes "r \<noteq> None" and "\<And>s1. r = Some (None, s1) \<Longrightarrow> f s1 \<noteq> None"
  shows "and_next r f \<noteq> None"
proof (cases r)
  case (Some x)
  then show ?thesis using assms(2) by (cases x; cases "fst x") auto
qed (use assms in simp)

lemma run_ops_returns:
  assumes after: "\<And>context s r. sigs_ok s \<Longrightarrow> check context s = Some r \<Longrightarrow> after s r"
    and returns: "\<And>context s. sigs_ok s \<Longrightarrow> free_places s < n \<Longrightarrow> check context s \<noteq> None"
  shows "sigs_ok s \<Longrightarrow> free_places s < n \<Longrightarrow> run_ops check ops s \<noteq> None"
proof (induction ops arbitrary: s)
  case (Cons op ops)
  have "run_op check op s \<noteq> None" using returns [OF Cons.prems] by (auto simp: run_op_def split: op.split)
  moreover have "run_ops check ops s1 \<noteq> None" if "run_op check op s = Some (None, s1)" for s1
    using run_op_after [OF after [OF Cons.prems(1)] Cons.prems(1) that] Cons.prems(2)
    by (intro Cons.IH) (simp_all add: after_def free_places_def)
  ultimately show ?case unfolding run_ops.simps run_op_def [symmetric] by (rule next_returns)
qed simp

text \<open>A runner that returns whenever fewer than \<open>n\<close> places are free.\<close>

locale deep_runner = handler_runner +
  fixes n :: nat
  assumes run_returns: "sigs_ok s \<Longrightarrow> free_places s < n \<Longrightarrow> run ops s \<noteq> None"
begin

lemma handle_sig_returns:
  assumes "sigs_ok s" and "\<not> running (s_sig_details s i)" and "i < NSIG" and "free_places s \<le> n"
  shows "handle_sig H run i s \<noteq> None"
proof -
  let ?s1 = "detail i (running_update (\<lambda>_. True)) s"
  let ?s2 = "if use_alarm (s_sig_details ?s1 i) then set_alarm 0 ?s1 else ?s1"
  have "run ops (enter_sig i h ?s2) \<noteq> None" for ops h
  proof (rule run_returns)
    note e = enter_sig_effect [OF assms(2)]
    show "sigs_ok (enter_sig i h ?s2)" by (rule enter_ok [OF assms(1) e(1-3) e(4) [OF assms(1)]])
    show "free_places (enter_sig i h ?s2) < n"
      by (rule less_le_trans [OF free_places_less [OF _ e(1,3)] assms(4)]) (use assms(3) in simp)
  qed
  then have "and_next (run (H h) (enter_sig i h ?s2)) (\<lambda>s. Some (g s)) \<noteq> None" for h g by (intro next_returns) simp_all
  then show ?thesis unfolding handle_sig_def Let_def by (cases "sync_sig_handler (s_sig_details ?s2 i)") (simp_all only: option.case not_False_eq_True option.distinct)
qed

lemma check_loop_returns:
  "sigs_ok s \<Longrightarrow> free_places s \<le> n \<Longrightarrow> set is \<subseteq> {..< NSIG} \<Longrightarrow> check_loop H run is s \<noteq> None"
proof (induction "is" arbitrary: s)
  case (Cons i "is")
  let ?r = "if pending (s_sig_details s i) \<and> \<not> running (s_sig_details s i) then handle_sig H run i s else Some (None, s)"
  have "check_loop H run is s1 \<noteq> None" if "?r = Some (None, s1)" for s1
  proof -
    have "after s (None, s1)" using that handle_sig_after [OF Cons.prems(1)] Cons.prems(1) by (auto simp: after_refl split: if_splits)
    then show ?thesis using Cons.prems(2,3) by (intro Cons.IH) (simp_all add: after_def free_places_def)
  qed
  moreover have "?r \<noteq> None" using handle_sig_returns [OF Cons.prems(1)] Cons.prems(2,3) by simp
  ultimately show ?case unfolding check_loop.simps by (intro next_returns)
qed simp

lemma check_returns:
  assumes "sigs_ok s" and "free_places s \<le> n"
  shows "vsf_sysutil_check_pending_actions H run context s \<noteq> None"
  unfolding vsf_sysutil_check_pending_actions_def
proof (rule next_returns)
  have "run ops (enter_io h s) \<noteq> None" if "\<not> s_io_handler_running s" for ops h
  proof (rule run_returns)
    note e = enter_io_effect [OF that]
    show "sigs_ok (enter_io h s)" by (rule enter_ok [OF assms(1) e(1-3) e(4) [OF assms(1)]])
    show "free_places (enter_io h s) < n" by (rule less_le_trans [OF free_places_less [OF _ e(1,3)] assms(2)]) simp
  qed
  then have "and_next (run (H h) (enter_io h s)) (\<lambda>s. Some (g s)) \<noteq> None" if "\<not> s_io_handler_running s" for h g
    using that by (intro next_returns) simp_all
  then show "check_io H run context s \<noteq> None" unfolding check_io_def by (cases "s_io_handler s") simp_all
  fix s1
  assume "check_io H run context s = Some (None, s1)"
  from check_io_after [OF assms(1) this] assms(2) show "check_loop H run [0 ..< NSIG] s1 \<noteq> None"
    by (intro check_loop_returns) (auto simp: after_def free_places_def)
qed

end

lemma exec_deep: "deep_runner (exec H d) d"
proof (induction d)
  case 0
  show ?case by unfold_locales simp
next
  case (Suc d)
  have "exec H (Suc d) ops s \<noteq> None" if "sigs_ok s" "free_places s < Suc d" for ops s
    unfolding exec.simps using that
    by (rule run_ops_returns [rotated 2])
      (erule exec.check_after, assumption, rule deep_runner.check_returns [OF Suc], auto)
  then show ?case by unfold_locales
qed

interpretation deep: deep_runner "exec H d" d for H d
  by (rule exec_deep)

section \<open>Signals are handled\<close>

definition handled :: "nat \<Rightarrow> sigs \<Rightarrow> sigs \<Rightarrow> bool" where
  "handled i s s' \<longleftrightarrow> (\<exists>new h p. events s' = new @ events s \<and> Enter (Sig i) h p \<in> set new)"

lemma handled_trans:
  "handled i s s1 \<Longrightarrow> suffix (events s1) (events s') \<Longrightarrow> handled i s s'"
  "suffix (events s) (events s1) \<Longrightarrow> handled i s1 s' \<Longrightarrow> handled i s s'"
  by (force simp: handled_def suffix_def)+

text \<open>A noted signal stays noted until its handler starts.\<close>

lemma owed_or_entered: "owed i es \<Longrightarrow> owed i (new @ es) \<or> (\<exists>h p. Enter (Sig i) h p \<in> set new)"
proof (induction new)
  case (Cons e new)
  then show ?case by (cases e) auto
qed simp

lemma pending_or_handled:
  assumes "sigs_ok s" and "pending (s_sig_details s i)" and "after s r"
  shows "pending (s_sig_details (snd r) i) \<or> handled i s (snd r)"
proof -
  obtain new where new: "events (snd r) = new @ events s" using assms(3) by (auto simp: after_def suffix_def)
  have "sigs_ok (snd r)" using assms(3) by (simp add: after_def)
  then show ?thesis using owed_or_entered [of i "events s" new] assms(1,2) by (auto simp: ok_pending new handled_def)
qed

definition installed :: "nat \<Rightarrow> sigs \<Rightarrow> bool" where
  "installed i s \<longleftrightarrow> sync_sig_handler (s_sig_details s i) \<noteq> None"

text \<open>The operations that do not take the handler of the signal \<open>i\<close> away.\<close>

fun keeps_sig :: "nat \<Rightarrow> op \<Rightarrow> bool" where
  "keeps_sig i (Default sig) = (vsf_sysutil_translate_sig sig \<noteq> i)"
| "keeps_sig i (InstallNull sig) = (vsf_sysutil_translate_sig sig \<noteq> i)"
| "keeps_sig i (InstallAsync sig h) = (vsf_sysutil_translate_sig sig \<noteq> i)"
| "keeps_sig i _ = True"

lemma deliver_keeps: "installed i (snd (deliver j s)) = installed i s"
  by (cases "dispositions s j") (simp_all add: deliver_def installed_def sig_defs Let_def)

lemma simple_op_keeps:
  assumes "keeps_sig i op" and "installed i s"
  shows "installed i (snd (simple_op op s))"
proof -
  have d: "installed i (snd (deliver j (s\<lparr>blocked := b, kpending := k\<rparr>)))" "installed i (snd (deliver j (s\<lparr>alarm_in := 0\<rparr>)))"
    "installed i (snd (deliver j s))" for j b k
    using assms(2) unfolding deliver_keeps by (simp_all add: installed_def)
  show ?thesis
  proof (cases op)
    case (Unblock sig)
    then show ?thesis using d(1) assms(2) by (simp add: vsf_sysutil_unblock_sig_def Let_def) (simp add: installed_def)
  next
    case AlarmRings
    then show ?thesis using d(2) assms(2) by simp
  next
    case (Arrives j)
    then show ?thesis using d(3) by simp
  qed (use assms in \<open>auto simp: installed_def sig_defs Let_def\<close>)
qed

lemma and_next_cases:
  obtains "r = None" | h s where "r = Some (Some h, s)" | s where "r = Some (None, s)"
  by (cases r; cases "fst (the r)"; cases "the r") auto

lemma run_ops_keeps:
  assumes "list_all (keeps_sig i) ops"
    and "\<And>context s r. installed i s \<Longrightarrow> check context s = Some r \<Longrightarrow> installed i (snd r)"
  shows "installed i s \<Longrightarrow> run_ops check ops s = Some r \<Longrightarrow> installed i (snd r)"
  using assms(1)
proof (induction ops arbitrary: s)
  case (Cons op ops)
  have one: "installed i (snd x)" if "run_op check op s = Some x" for x
    using that simple_op_keeps [of i op s] Cons.prems(1,3) assms(2) by (cases op) (auto simp: run_op_def simp del: simple_op.simps)
  show ?case
    using Cons.prems(2) one Cons.IH Cons.prems(3) unfolding run_ops.simps run_op_def [symmetric]
    by (cases "run_op check op s" rule: and_next_cases) auto
qed auto

text \<open>A runner whose programs keep the handler of the signal \<open>i\<close>.\<close>

locale keeping_runner = handler_runner +
  fixes H :: "nat \<Rightarrow> op list" and i :: nat
  assumes run_keeps: "list_all (keeps_sig i) ops \<Longrightarrow> installed i s \<Longrightarrow> run ops s = Some r \<Longrightarrow> installed i (snd r)"
    and progs_keep: "list_all (keeps_sig i) (H h)"
begin

lemma next_keeps:
  assumes "and_next r f = Some r'" and "\<And>x. r = Some x \<Longrightarrow> installed i (snd x)"
    and "\<And>s1. installed i s1 \<Longrightarrow> f s1 = Some r' \<Longrightarrow> installed i (snd r')"
  shows "installed i (snd r')"
  using assms by (cases r; cases "fst (the r)"; cases "the r") auto

text \<open>A handler that ran and was left.\<close>

lemma prog_keeps:
  assumes "and_next (run (H h) s1) (\<lambda>s2. Some (None, out s2)) = Some r" and "installed i s1"
    and "\<And>s2. installed i (out s2) = installed i s2"
  shows "installed i (snd r)"
  using assms(1)
proof (rule next_keeps)
  show "installed i (snd x)" if "run (H h) s1 = Some x" for x using run_keeps [OF progs_keep assms(2) that] .
  show "installed i (snd r)" if "installed i s2" "Some (None, out s2) = Some r" for s2
    using that(1) assms(3) [of s2] that(2) [symmetric] by simp
qed

lemma handle_sig_keeps:
  assumes "installed i s" and "handle_sig H run j s = Some r"
  shows "installed i (snd r)"
proof -
  have same: "installed i (enter_sig j h s') = installed i s'" "installed i (detail j (running_update f) s') = installed i s'"
      "installed i (set_alarm k s') = installed i s'" "installed i (happens ev s') = installed i s'" for h s' f k ev
    by (simp_all add: installed_def enter_sig_def sig_defs)
  let ?s1 = "detail j (running_update (\<lambda>_. True)) s"
  let ?s2 = "if use_alarm (s_sig_details ?s1 j) then set_alarm 0 ?s1 else ?s1"
  have s2: "installed i ?s2" using assms(1) by (simp add: same)
  show ?thesis
  proof (cases "sync_sig_handler (s_sig_details ?s2 j)")
    case None
    then show ?thesis using assms(2) s2 unfolding handle_sig_def Let_def None by (auto simp: same)
  next
    case (Some h)
    show ?thesis
      using assms(2) unfolding handle_sig_def Let_def Some option.case by (rule prog_keeps) (use s2 in \<open>simp_all add: same\<close>)
  qed
qed

lemma check_loop_keeps: "installed i s \<Longrightarrow> check_loop H run is s = Some r \<Longrightarrow> installed i (snd r)"
proof (induction "is" arbitrary: s)
  case (Cons j "is")
  from Cons.prems(2) show ?case
    unfolding check_loop.simps
    by (rule next_keeps) (use Cons in \<open>auto intro: handle_sig_keeps split: if_splits\<close>)
qed auto

lemma check_io_keeps:
  assumes "installed i s" and "check_io H run context s = Some r"
  shows "installed i (snd r)"
proof (cases "\<exists>h. s_io_handler s = Some h \<and> \<not> s_io_handler_running s \<and> context = kVSFSysUtilIO")
  case True
  then obtain h where h: "s_io_handler s = Some h" "\<not> s_io_handler_running s" "context = kVSFSysUtilIO" by blast
  have "and_next (run (H h) (enter_io h s)) (\<lambda>s. Some (None, leave_io s)) = Some r"
    using assms(2) h by (simp add: check_io_def)
  moreover have "installed i (enter_io h s)" "installed i (leave_io s') = installed i s'" for s'
    using assms(1) by (simp_all add: installed_def enter_io_def leave_io_def sig_defs)
  ultimately show ?thesis by (rule prog_keeps)
next
  case False
  then show ?thesis using assms by (auto simp: check_io_def split: option.splits if_splits)
qed

lemma check_keeps: "installed i s \<Longrightarrow> vsf_sysutil_check_pending_actions H run context s = Some r \<Longrightarrow> installed i (snd r)"
  unfolding vsf_sysutil_check_pending_actions_def by (erule next_keeps) (auto intro: check_loop_keeps check_io_keeps)

lemma handle_sig_handles:
  assumes "sigs_ok s" and "\<not> running (s_sig_details s i)" and "installed i s" and "handle_sig H run i s = Some r"
  shows "handled i s (snd r)"
proof -
  let ?s1 = "detail i (running_update (\<lambda>_. True)) s"
  let ?s2 = "if use_alarm (s_sig_details ?s1 i) then set_alarm 0 ?s1 else ?s1"
  let ?out = "\<lambda>s. happens (Leave (Sig i)) (detail i (running_update (\<lambda>_. False)) s)"
  have "sync_sig_handler (s_sig_details ?s2 i) \<noteq> None" using assms(3) by (simp add: installed_def sig_defs)
  then obtain h where h: "sync_sig_handler (s_sig_details ?s2 i) = Some h" by (cases "sync_sig_handler (s_sig_details ?s2 i)") simp_all
  note e = enter_sig_effect [OF assms(2)]
  have r: "and_next (run (H h) (enter_sig i h ?s2)) (\<lambda>s3. Some (None, ?out s3)) = Some r"
    using assms(4) unfolding handle_sig_def Let_def h option.case .
  obtain x where x: "run (H h) (enter_sig i h ?s2) = Some x" using r by (cases "run (H h) (enter_sig i h ?s2)") simp_all
  have "sigs_ok (enter_sig i h ?s2)" by (rule enter_ok [OF assms(1) e(1-3) e(4) [OF assms(1)]])
  from run_after [OF this x] have suf: "suffix (events (enter_sig i h ?s2)) (events (snd x))" by (simp add: after_def)
  have "suffix (events (snd x)) (events (snd r))"
    using r x by (cases x; cases "fst x") (auto simp: sig_defs suffix_Cons)
  with suf have "suffix (events (enter_sig i h ?s2)) (events (snd r))" by (rule suffix_order.trans)
  moreover have "handled i s (enter_sig i h ?s2)" by (auto simp: handled_def e(2))
  ultimately show ?thesis by (rule handled_trans(1) [rotated])
qed

lemma check_loop_handles:
  assumes "sigs_ok s" and "i \<in> set is" and "Sig i \<notin> runs_now s" and "installed i s" and "pending (s_sig_details s i)"
    and "check_loop H run is s = Some (None, s')"
  shows "handled i s s'"
  using assms
proof (induction "is" arbitrary: s)
  case (Cons j "is")
  let ?r = "if pending (s_sig_details s j) \<and> \<not> running (s_sig_details s j) then handle_sig H run j s else Some (None, s)"
  obtain s1 where s1: "?r = Some (None, s1)" "check_loop H run is s1 = Some (None, s')"
    using Cons.prems(6) unfolding check_loop.simps by (cases ?r rule: and_next_cases) auto
  have a: "after s (None, s1)"
    using s1(1) handle_sig_after [OF Cons.prems(1)] after_refl [OF Cons.prems(1)] by (auto split: if_splits)
  have inst: "installed i s1" using s1(1) handle_sig_keeps [OF Cons.prems(4)] Cons.prems(4) by (auto split: if_splits)
  have suf: "suffix (events s1) (events s')" using check_loop_after [OF _ s1(2)] a by (simp add: after_def)
  have idle: "\<not> running (s_sig_details s i)" using Cons.prems(3) by (simp add: runs_now_def)
  show ?case
  proof (cases "handled i s s1")
    case True
    then show ?thesis using suf by (rule handled_trans(1))
  next
    case False
    then have "pending (s_sig_details s1 i)" using pending_or_handled [OF Cons.prems(1,5) a] by simp
    moreover have "j \<noteq> i" using False handle_sig_handles [OF Cons.prems(1) idle Cons.prems(4)] s1(1) Cons.prems(5) idle by auto
    ultimately have "handled i s1 s'"
      using Cons.prems(2,3) a inst s1(2) by (intro Cons.IH) (auto simp: after_def)
    then show ?thesis using a by (auto simp: after_def intro: handled_trans(2))
  qed
qed simp

lemma check_handles:
  assumes "sigs_ok s" and "i < NSIG" and "Sig i \<notin> runs_now s" and "installed i s" and "pending (s_sig_details s i)"
    and "vsf_sysutil_check_pending_actions H run context s = Some (None, s')"
  shows "handled i s s'"
proof -
  obtain s1 where s1: "check_io H run context s = Some (None, s1)" "check_loop H run [0 ..< NSIG] s1 = Some (None, s')"
    using assms(6) unfolding vsf_sysutil_check_pending_actions_def
    by (cases "check_io H run context s" rule: and_next_cases) auto
  have a: "after s (None, s1)" by (rule check_io_after [OF assms(1) s1(1)])
  have ok: "sigs_ok s1" "Sig i \<notin> runs_now s1" using a assms(3) by (simp_all add: after_def)
  have suf: "suffix (events s1) (events s')" using check_loop_after [OF ok(1) s1(2)] by (simp add: after_def)
  from pending_or_handled [OF assms(1,5) a] show ?thesis
  proof
    assume "pending (s_sig_details (snd (None, s1)) i)"
    then have "handled i s1 s'"
      using check_loop_handles [OF ok(1) _ ok(2) _ _ s1(2)] check_io_keeps [OF assms(4) s1(1)] assms(2) by simp
    then show ?thesis using a by (auto simp: after_def intro: handled_trans(2))
  qed (use suf in \<open>auto intro: handled_trans(1)\<close>)
qed

end

lemma exec_keeps:
  assumes "\<And>h. list_all (keeps_sig i) (H h)"
  shows "keeping_runner (exec H d) H i"
proof (induction d)
  case 0
  have "installed i (snd r)" if "list_all (keeps_sig i) ops" "installed i s" "exec H 0 ops s = Some r" for ops s r
    using run_ops_keeps [OF that(1) _ that(2) that(3) [unfolded exec.simps]] by simp
  then show ?case using assms by unfold_locales
next
  case (Suc d)
  have "installed i (snd r)" if "list_all (keeps_sig i) ops" "installed i s" "exec H (Suc d) ops s = Some r" for ops s r
    using run_ops_keeps [OF that(1) keeping_runner.check_keeps [OF Suc] that(2) that(3) [unfolded exec.simps]] .
  then show ?case using assms by unfold_locales
qed

text \<open>
  The handlers of the server end the process (those of \<^verbatim>\<open>SIGTERM\<close> and of the time limits) or do input and output, after which they look for signals
  (those of \<^verbatim>\<open>SIGHUP\<close>, \<^verbatim>\<open>SIGCHLD\<close>, \<^verbatim>\<open>SIGURG\<close>). None of them takes a handler away.
\<close>

definition server_handlers :: "(nat \<Rightarrow> EVSFSysUtilInterruptContext list) \<Rightarrow> (nat \<Rightarrow> int option) \<Rightarrow> nat \<Rightarrow> op list" where
  "server_handlers io ends h = map Check (io h) @ (case ends h of None \<Rightarrow> [] | Some c \<Rightarrow> [Quit c])"

lemma server_handlers_keep: "list_all (keeps_sig i) (server_handlers io ends h)"
  by (cases "ends h") (simp_all add: server_handlers_def list_all_iff)

interpretation server: keeping_runner "exec (server_handlers io ends) d" "server_handlers io ends" i for io ends d i
  by (rule exec_keeps) (rule server_handlers_keep)

lemma run_ops_append: "run_ops check (xs @ ys) s = and_next (run_ops check xs s) (run_ops check ys)"
proof (induction xs arbitrary: s)
  case (Cons x xs)
  then show ?case
    unfolding append_Cons run_ops.simps run_op_def [symmetric]
    by (cases "run_op check x s" rule: and_next_cases) simp_all
qed simp

section \<open>Theorems\<close>

lemma exec_returns:
  assumes "sigs_ok s"
  shows "\<exists>out s'. exec H (NSIG + 2) prog s = Some (out, s') \<and> after s (out, s')"
proof -
  have "exec H (NSIG + 2) prog s \<noteq> None" using free_places_le [of s] by (intro deep.run_returns [OF assms]) simp
  then obtain out s' where "exec H (NSIG + 2) prog s = Some (out, s')" by auto
  with exec.run_after [OF assms this] show ?thesis by blast
qed

text \<open>
  C12: handlers and what interrupts them. Whatever programs the handlers are, and whatever signals arrive while they run, a program that looks for signals
  returns or ends the process: no more than 66 handlers can be inside one another. Handlers end in the reverse of the order in which they started, none is
  entered again while it runs, and afterwards exactly the handlers run that ran before. A signal is pending if and only if it was noted
  after its handler last started.
\<close>

theorem handlers_nest:
  assumes "sigs_ok s"
  shows "\<exists>out s'. exec H (NSIG + 2) prog s = Some (out, s') \<and> nesting (events s') \<noteq> None \<and>
    (\<forall>i. pending (s_sig_details s' i) = owed i (events s')) \<and> (out = None \<longrightarrow> runs_now s' = runs_now s)"
  using exec_returns [OF assms, of H prog] by (auto simp: after_def sigs_ok_def)

text \<open>The program starts without handlers.\<close>

definition no_sigs :: sigs where
  "no_sigs = \<lparr>s_sig_details = (\<lambda>i. \<lparr>sync_sig_handler = None, p_private = 0, pending = False, running = False, use_alarm = False\<rparr>),
     s_io_handler = None, s_p_io_handler_private = 0, s_io_handler_running = False, dispositions = (\<lambda>i. SIG_DFL), blocked = {},
     kpending = {}, alarm_in = 0, events = []\<rparr>"

lemma no_sigs_ok: "sigs_ok no_sigs" "runs_now no_sigs = {}"
  by (simp_all add: sigs_ok_def runs_now_def no_sigs_def)

lemma handlers_nest_witness:
  "\<exists>out s'. exec (\<lambda>h. [Arrives 17, Check kVSFSysUtilIO]) (NSIG + 2)
      [Install kVSFSysUtilSigCHLD 0 0 True, Arrives 17, Check kVSFSysUtilUnknown] no_sigs = Some (out, s') \<and>
    nesting (events s') \<noteq> None \<and> (\<forall>i. pending (s_sig_details s' i) = owed i (events s'))"
  using handlers_nest [OF no_sigs_ok(1), of "\<lambda>h. [Arrives 17, Check kVSFSysUtilIO]"
      "[Install kVSFSysUtilSigCHLD 0 0 True, Arrives 17, Check kVSFSysUtilUnknown]"] by blast

text \<open>
  C13: no signal is lost. A signal that has a handler and is not blocked is noted when it arrives, and if neither the program nor the handlers take that
  handler away, the handler has started when the program next returns from looking for signals, whatever else happened in between.
\<close>

theorem signal_handled:
  assumes "sigs_ok s" and "runs_now s = {}" and "i < NSIG" and "i \<notin> blocked s" and "dispositions s i = Common" and "installed i s"
    and "\<And>h. list_all (keeps_sig i) (H h)" and "list_all (keeps_sig i) prog"
  shows "\<exists>out s'. exec H (NSIG + 2) (Arrives i # prog @ [Check context]) s = Some (out, s') \<and> (out = None \<longrightarrow> handled i s s')"
proof -
  let ?check = "vsf_sysutil_check_pending_actions H (exec H (NSIG + 1))"
  obtain out s' where run: "exec H (NSIG + 2) (Arrives i # prog @ [Check context]) s = Some (out, s')"
    using exec_returns [OF assms(1)] by blast
  have "handled i s s'" if "out = None"
  proof -
    let ?s1 = "vsf_sysutil_common_sighandler i s"
    have arr: "simple_op (Arrives i) s = (None, ?s1)" using assms(4,5) by (simp add: deliver_def)
    have a1: "after s (None, ?s1)" using simple_op_after [OF assms(1), of "Arrives i"] unfolding arr .
    then have s1: "sigs_ok ?s1" "runs_now ?s1 = {}" "installed i ?s1" "pending (s_sig_details ?s1 i)"
      using assms(2,3,6) by (auto simp: after_def installed_def vsf_sysutil_common_sighandler_def sig_defs Let_def)
    have "and_next (run_ops ?check prog ?s1) (run_ops ?check [Check context]) = Some (None, s')"
      using run that arr by (simp add: numeral_2_eq_2 run_ops_append del: simple_op.simps)
    then obtain s2 where s2: "run_ops ?check prog ?s1 = Some (None, s2)" "?check context s2 = Some (None, s')"
      by (cases "run_ops ?check prog ?s1" rule: and_next_cases; cases "?check context (snd (the (run_ops ?check prog ?s1)))" rule: and_next_cases)
        auto
    have a2: "after ?s1 (None, s2)" by (rule run_ops_after [OF exec.check_after s1(1) s2(1)])
    have keeping: "keeping_runner (exec H (NSIG + 1)) H i" by (rule exec_keeps) (rule assms(7))
    have i2: "installed i s2"
      using run_ops_keeps [OF assms(8) keeping_runner.check_keeps [OF keeping] s1(3) s2(1)] by simp
    have ok2: "sigs_ok s2" "runs_now s2 = {}" using a2 s1(2) by (simp_all add: after_def)
    have suf: "suffix (events s2) (events s')" using exec.check_after [OF ok2(1) s2(2)] by (simp add: after_def)
    have "handled i ?s1 s'"
    proof (cases "handled i ?s1 s2")
      case False
      then have "pending (s_sig_details s2 i)" using pending_or_handled [OF s1(1,4) a2] by simp
      then have "handled i s2 s'"
        using keeping_runner.check_handles [OF keeping ok2(1) assms(3) _ i2 _ s2(2)] ok2(2) by simp
      then show ?thesis using a2 by (auto simp: after_def intro: handled_trans(2))
    qed (use suf in \<open>auto intro: handled_trans(1)\<close>)
    then show ?thesis using a1 by (auto simp: after_def intro: handled_trans(2))
  qed
  with run show ?thesis by blast
qed

text \<open>The listener with its handlers of \<^verbatim>\<open>SIGCHLD\<close> and \<^verbatim>\<open>SIGHUP\<close>.\<close>

definition listener_sigs :: sigs where
  "listener_sigs = vsf_sysutil_install_sighandler kVSFSysUtilSigHUP 1 0 True (vsf_sysutil_install_sighandler kVSFSysUtilSigCHLD 0 0 True no_sigs)"

lemma signal_handled_witness:
  "\<exists>out s'. exec (server_handlers (\<lambda>h. [kVSFSysUtilIO]) (\<lambda>h. None)) (NSIG + 2)
      (Arrives 17 # [Arrives 1, Check kVSFSysUtilIO] @ [Check kVSFSysUtilUnknown]) listener_sigs = Some (out, s') \<and>
    (if out = None then handled 17 listener_sigs s' else out \<noteq> None)"
proof -
  let ?H = "server_handlers (\<lambda>h. [kVSFSysUtilIO]) (\<lambda>h. None)"
  have "\<exists>out s'. exec ?H (NSIG + 2) (Arrives 17 # [Arrives 1, Check kVSFSysUtilIO] @ [Check kVSFSysUtilUnknown]) listener_sigs = Some (out, s') \<and>
    (out = None \<longrightarrow> handled 17 listener_sigs s')"
  proof (rule signal_handled)
    show "sigs_ok listener_sigs" "runs_now listener_sigs = {}"
      using no_sigs_ok by (auto simp: listener_sigs_def sigs_ok_def runs_now_def sig_defs no_sigs_def Let_def split: if_splits)
  qed (simp_all add: server_handlers_keep NSIG_def listener_sigs_def no_sigs_def installed_def sig_defs Let_def)
  then show ?thesis by (metis (full_types))
qed

end
