(* ===== verification/Process.thy ===== *)
theory Process
  imports Signals Standalone Parseconf
begin

unbundle bit_operations_syntax

text \<open>
  Processes: how they are started (\<^verbatim>\<open>sysutil.c\<close>, \<^verbatim>\<open>sysdeputil.c\<close>), what a child of the listener inherits (\<^verbatim>\<open>standalone.c\<close>), how children are waited for,
  how the listener reads its configuration again, and the titles of processes.
\<close>

section \<open>Starting a process\<close>

datatype clone_flag = CLONE_NEWPID | CLONE_NEWIPC | CLONE_NEWNET

text \<open>
  The kernel: the result and the error number of starting a process with flags (0 in the new process), the name of its release, the number of the new process,
  and the result of \<open>prctl\<close>.
\<close>

record kern =
  k_clone :: "clone_flag list \<Rightarrow> int \<times> int"
  k_release :: "string option"
  k_newpid :: nat
  k_prctl :: int

abbreviation (input) EPERM_NO :: int where "EPERM_NO \<equiv> 1"
abbreviation (input) EINVAL_NO :: int where "EINVAL_NO \<equiv> 22"
abbreviation (input) ECHILD_NO :: int where "ECHILD_NO \<equiv> 10"
abbreviation (input) EINTR_NO :: int where "EINTR_NO \<equiv> 4"
abbreviation (input) SIGKILL_NO :: nat where "SIGKILL_NO \<equiv> 9"
abbreviation (input) SIGTERM_NO :: nat where "SIGTERM_NO \<equiv> 15"

text \<open>
  The static variables of a process, and what the kernel knows of it: its number, the signal that it gets when its parent dies, and which namespaces it does
  not share with its parent.
\<close>

record process_state =
  p_sigs :: sigs
  s_exit_func :: "nat option"
  s_current_pid :: int
  isolate_all_work :: int
  isolate_work :: bool
  newnet_work :: int
  real_pid :: nat
  death_signal :: "nat option"
  unshared :: "clone_flag list"

definition vsf_sysutil_getpid_nocache :: "process_state \<Rightarrow> int" where
  "vsf_sysutil_getpid_nocache p = int (real_pid p)"

definition vsf_sysutil_getpid :: "process_state \<Rightarrow> nat \<times> process_state" where
  "vsf_sysutil_getpid p =
     (let p = (if s_current_pid p = -1 then p\<lparr>s_current_pid := vsf_sysutil_getpid_nocache p\<rparr> else p) in (nat (s_current_pid p mod 2 ^ 32), p))"

definition vsf_sysutil_set_exit_func :: "nat \<Rightarrow> process_state \<Rightarrow> process_state" where
  "vsf_sysutil_set_exit_func exitfunc p = p\<lparr>s_exit_func := Some exitfunc\<rparr>"

text \<open>\<open>events\<close> is the history of the process, and that of a new one is empty.\<close>

definition vsf_sysutil_post_fork :: "process_state \<Rightarrow> process_state" where
  "vsf_sysutil_post_fork p =
     p\<lparr>s_exit_func := None, s_current_pid := -1,
       p_sigs := (p_sigs p)\<lparr>s_io_handler := None,
         s_sig_details := (\<lambda>i. let d = s_sig_details (p_sigs p) i in if i < NSIG then d\<lparr>sync_sig_handler := None, pending := False\<rparr> else d),
         events := []\<rparr>\<rparr>"

text \<open>
  The system calls \<open>clone\<close> and, without flags, \<open>fork\<close>, as the process sees them that the model follows: the parent, or the child when the result is 0. A child has
  no pending signals, no alarm, and no signal for the death of its parent.
\<close>

definition clone_call :: "kern \<Rightarrow> clone_flag list \<Rightarrow> process_state \<Rightarrow> int \<times> int \<times> process_state" where
  "clone_call k flags p =
     (case k_clone k flags of (retval, errno) \<Rightarrow>
      (retval, errno,
       if retval = 0
       then p\<lparr>real_pid := k_newpid k, death_signal := None, unshared := flags, p_sigs := (p_sigs p)\<lparr>kpending := {}, alarm_in := 0\<rparr>\<rparr>
       else p))"

definition vsf_sysutil_fork_failok :: "kern \<Rightarrow> process_state \<Rightarrow> int \<times> process_state" where
  "vsf_sysutil_fork_failok k p =
     (case clone_call k [] p of (retval, errno, p) \<Rightarrow> (retval, if retval = 0 then vsf_sysutil_post_fork p else p))"

definition vsf_sysutil_fork :: "kern \<Rightarrow> process_state \<Rightarrow> (int \<times> process_state) result" where
  "vsf_sysutil_fork k p =
     (case vsf_sysutil_fork_failok k p of (retval, p) \<Rightarrow> if retval < 0 then die ''fork'' else Inr (retval, p))"

subsection \<open>Namespaces\<close>

text \<open>\<open>sscanf\<close> with \<^verbatim>\<open>%d.%d.%d\<close> on the name of a release; \<open>None\<close> for fewer than two numbers.\<close>

definition scan_number :: "string \<Rightarrow> (nat \<times> string) option" where
  "scan_number s = (let ds = takeWhile vsf_sysutil_isdigit s in if ds = [] then None else Some (dec_value ds, drop (length ds) s))"

definition scan_dot_number :: "string \<Rightarrow> (nat \<times> string) option" where
  "scan_dot_number s = (case s of [] \<Rightarrow> None | c # r \<Rightarrow> if c = CHR ''.'' then scan_number r else None)"

definition scan_release :: "string \<Rightarrow> (nat \<times> nat \<times> nat) option" where
  "scan_release s =
     (case scan_number s of
        None \<Rightarrow> None
      | Some (r1, s) \<Rightarrow>
          (case scan_dot_number s of
             None \<Rightarrow> None
           | Some (r2, s) \<Rightarrow> Some (r1, r2, case scan_dot_number s of None \<Rightarrow> 0 | Some (r3, _) \<Rightarrow> r3)))"

definition vsf_sysutil_netns_cleanup_is_fast :: "string option \<Rightarrow> bool" where
  "vsf_sysutil_netns_cleanup_is_fast release \<longleftrightarrow>
     (case release of
        None \<Rightarrow> False
      | Some s \<Rightarrow>
          (case scan_release s of
             None \<Rightarrow> False
           | Some (r1, r2, r3) \<Rightarrow> push_bit 16 r1 OR push_bit 8 r2 OR r3 \<ge> push_bit 16 2 OR push_bit 8 6 OR (35 :: nat)))"

text \<open>The common part: \<open>None\<close> when the kernel does not know these flags or does not permit them.\<close>

definition try_clone :: "kern \<Rightarrow> clone_flag list \<Rightarrow> process_state \<Rightarrow> (int \<times> process_state) option" where
  "try_clone k flags p =
     (case clone_call k flags p of (retval, errno, p) \<Rightarrow>
      if retval \<noteq> -1 \<or> (errno \<noteq> EINVAL_NO \<and> errno \<noteq> EPERM_NO) then Some (retval, if retval = 0 then vsf_sysutil_post_fork p else p) else None)"

definition vsf_sysutil_fork_isolate_failok :: "kern \<Rightarrow> process_state \<Rightarrow> int \<times> process_state" where
  "vsf_sysutil_fork_isolate_failok k p =
     (if isolate_work p
      then (case try_clone k [CLONE_NEWPID, CLONE_NEWIPC] p of
              Some r \<Rightarrow> r
            | None \<Rightarrow> vsf_sysutil_fork_failok k (p\<lparr>isolate_work := False\<rparr>))
      else vsf_sysutil_fork_failok k p)"

definition vsf_sysutil_fork_isolate_all_failok :: "kern \<Rightarrow> process_state \<Rightarrow> int \<times> process_state" where
  "vsf_sysutil_fork_isolate_all_failok k p =
     (let p = (if isolate_all_work p < 0
               then p\<lparr>isolate_all_work := if vsf_sysutil_netns_cleanup_is_fast (k_release k) then 1 else 0\<rparr> else p) in
      if isolate_all_work p \<noteq> 0
      then (case try_clone k [CLONE_NEWPID, CLONE_NEWIPC, CLONE_NEWNET] p of
              Some r \<Rightarrow> r
            | None \<Rightarrow> vsf_sysutil_fork_isolate_failok k (p\<lparr>isolate_all_work := 0\<rparr>))
      else vsf_sysutil_fork_isolate_failok k p)"

definition vsf_sysutil_fork_newnet :: "kern \<Rightarrow> process_state \<Rightarrow> (int \<times> process_state) result" where
  "vsf_sysutil_fork_newnet k p =
     (let p = (if newnet_work p < 0
               then p\<lparr>newnet_work := if vsf_sysutil_netns_cleanup_is_fast (k_release k) then 1 else 0\<rparr> else p) in
      if newnet_work p \<noteq> 0
      then (case try_clone k [CLONE_NEWNET] p of
              Some r \<Rightarrow> Inr r
            | None \<Rightarrow> vsf_sysutil_fork k (p\<lparr>newnet_work := 0\<rparr>))
      else vsf_sysutil_fork k p)"

definition vsf_set_die_if_parent_dies :: "kern \<Rightarrow> process_state \<Rightarrow> process_state result" where
  "vsf_set_die_if_parent_dies k p = (if k_prctl k \<noteq> 0 then die ''prctl'' else Inr (p\<lparr>death_signal := Some SIGKILL_NO\<rparr>))"

definition vsf_set_term_if_parent_dies :: "kern \<Rightarrow> process_state \<Rightarrow> process_state result" where
  "vsf_set_term_if_parent_dies k p = (if k_prctl k \<noteq> 0 then die ''prctl'' else Inr (p\<lparr>death_signal := Some SIGTERM_NO\<rparr>))"

section \<open>The listener and its children\<close>

definition fork_child :: "kern \<Rightarrow> tunables \<Rightarrow> process_state \<Rightarrow> int \<times> process_state" where
  "fork_child k t p =
     (if t_bool t ''isolate''
      then if t_bool t ''http_enable'' \<and> t_bool t ''isolate_network'' then vsf_sysutil_fork_isolate_all_failok k p
           else vsf_sysutil_fork_isolate_failok k p
      else vsf_sysutil_fork_failok k p)"

text \<open>
  A turn of the loop for a new client: in the listener (\<open>reaped\<close> as in \<open>standalone_client\<close>), and in the child, which leaves the loop.
\<close>

datatype 'f turn = Serving standalone_state process_state "nat \<Rightarrow> 'f option" | Launched vsf_client_launch process_state "nat \<Rightarrow> 'f option"

definition listener_turn ::
  "kern \<Rightarrow> tunables \<Rightarrow> nat \<Rightarrow> standalone_state \<Rightarrow> process_state \<Rightarrow> (nat \<Rightarrow> 'f option) \<Rightarrow> string \<Rightarrow> nat \<Rightarrow> nat list \<Rightarrow>
   'f turn result" where
  "listener_turn k t listen_sock st p fds p_raw_addr new_client_sock reaped =
     (case fork_child k t p of (new_child, p) \<Rightarrow>
      andthen (standalone_client st p_raw_addr new_child reaped) (\<lambda>(child_info, st).
      if new_child \<noteq> 0 then Inr (Serving st p (fds(new_client_sock := None)))
      else andthen (vsf_set_die_if_parent_dies k p) (\<lambda>p.
           Inr (Launched child_info p (prepare_child (fds(listen_sock := None)) new_client_sock)))))"

subsection \<open>Waiting\<close>

text \<open>\<open>waitpid\<close> without blocking: its result and the error number.\<close>

definition vsf_sysutil_wait_reap_one :: "int \<times> int \<Rightarrow> nat result" where
  "vsf_sysutil_wait_reap_one = (\<lambda>(retval, errno).
     if retval = 0 \<or> (retval < 0 \<and> errno = ECHILD_NO) then Inr 0
     else if retval < 0 then die ''waitpid''
     else Inr (nat retval))"

text \<open>The pids that \<open>handle_sigchld\<close> gets, on what the kernel answers.\<close>

fun reap_all :: "(int \<times> int) list \<Rightarrow> nat list result" where
  "reap_all [] = Inr []"
| "reap_all (a # as) = andthen (vsf_sysutil_wait_reap_one a) (\<lambda>n. if n = 0 then Inr [] else andthen (reap_all as) (\<lambda>ns. Inr (n # ns)))"

record wait_retval =
  syscall_retval :: int
  exit_status :: int

text \<open>\<open>vsf_sysutil_wait\<close> tries again after signals; \<open>None\<close> when it still waits after the given results.\<close>

fun vsf_sysutil_wait :: "(int \<times> int \<times> int) list \<Rightarrow> wait_retval option" where
  "vsf_sysutil_wait [] = None"
| "vsf_sysutil_wait ((sys_ret, errno, status) # as) =
     (if sys_ret < 0 \<and> errno = EINTR_NO then vsf_sysutil_wait as else Some \<lparr>syscall_retval = sys_ret, exit_status = status\<rparr>)"

definition vsf_sysutil_wait_get_retval :: "wait_retval \<Rightarrow> int" where
  "vsf_sysutil_wait_get_retval w = syscall_retval w"

text \<open>\<open>WIFEXITED\<close> and \<open>WEXITSTATUS\<close>.\<close>

definition vsf_sysutil_wait_exited_normally :: "wait_retval \<Rightarrow> bool" where
  "vsf_sysutil_wait_exited_normally w \<longleftrightarrow> exit_status w mod 128 = 0"

definition vsf_sysutil_wait_get_exitcode :: "wait_retval \<Rightarrow> int result" where
  "vsf_sysutil_wait_get_exitcode w =
     (if \<not> vsf_sysutil_wait_exited_normally w then bug ''not a normal exit in vsf_sysutil_wait_get_exitcode'' else Inr (exit_status w div 256 mod 256))"

subsection \<open>Reading the configuration again\<close>

definition handle_sighup :: "(nat \<Rightarrow> bool) \<Rightarrow> file_system \<Rightarrow> int \<Rightarrow> parseconf_state \<Rightarrow> parseconf_state result" where
  "handle_sighup avail fs my_uid st = vsf_parseconf_load_file avail fs my_uid (st\<lparr>tun := tunables_load_defaults\<rparr>) None False"

section \<open>Titles\<close>

text \<open>The memory from \<open>argv[0]\<close> on, where the arguments and the environment follow.\<close>

record titles =
  s_proctitle_inited :: bool
  s_proctitle_space :: nat
  s_proctitle_prefix_str :: string
  s_p_proctitle :: string

definition memclr_title :: "titles \<Rightarrow> titles" where
  "memclr_title ts = ts\<lparr>s_p_proctitle := replicate (s_proctitle_space ts) NUL @ drop (s_proctitle_space ts) (s_p_proctitle ts)\<rparr>"

definition vsf_sysutil_setproctitle_init :: "string list \<Rightarrow> string list \<Rightarrow> titles \<Rightarrow> titles result" where
  "vsf_sysutil_setproctitle_init argv environ ts =
     (if s_proctitle_inited ts then bug ''vsf_sysutil_setproctitle_init called twice''
      else if argv = [] then die ''no argv[0] in vsf_sysutil_setproctitle_init''
      else Inr (memclr_title (ts\<lparr>s_proctitle_inited := True,
             s_proctitle_space := foldl (\<lambda>n s. u32 (n + length s + 1)) (s_proctitle_space ts) (argv @ environ)\<rparr>)))"

definition vsf_sysutil_setproctitle_internal :: "string \<Rightarrow> titles \<Rightarrow> titles result" where
  "vsf_sysutil_setproctitle_internal p_title ts =
     (if \<not> s_proctitle_inited ts then bug ''vsf_sysutil_setproctitle: not initialized''
      else let ts = memclr_title ts in
           if s_proctitle_space ts < 32 then Inr ts
           else let proctitle_str = ''vsftpd: '' @ c_str p_title;
                    to_copy = min (length proctitle_str) (s_proctitle_space ts - 1);
                    mem = take to_copy proctitle_str @ drop to_copy (s_p_proctitle ts)
                in Inr (ts\<lparr>s_p_proctitle := mem[to_copy := NUL]\<rparr>))"

definition vsf_sysutil_set_proctitle_prefix :: "string \<Rightarrow> titles \<Rightarrow> titles" where
  "vsf_sysutil_set_proctitle_prefix p_str ts = ts\<lparr>s_proctitle_prefix_str := p_str\<rparr>"

definition vsf_sysutil_setproctitle :: "string \<Rightarrow> titles \<Rightarrow> titles result" where
  "vsf_sysutil_setproctitle p_text ts =
     (let proctitle_str = s_proctitle_prefix_str ts;
          proctitle_str = (if proctitle_str \<noteq> [] then proctitle_str @ '': '' else proctitle_str)
      in vsf_sysutil_setproctitle_internal (proctitle_str @ c_str p_text) ts)"

definition vsf_sysutil_setproctitle_str :: "string \<Rightarrow> titles \<Rightarrow> titles result" where
  "vsf_sysutil_setproctitle_str p_str ts = vsf_sysutil_setproctitle p_str ts"

text \<open>The title while a command runs, and the prefix for a user who has logged in.\<close>

definition command_title :: "string \<Rightarrow> string \<Rightarrow> titles \<Rightarrow> titles result" where
  "command_title cmd arg ts =
     vsf_sysutil_setproctitle_str (str_replace_unprintable (cmd @ (if arg \<noteq> [] then CHR '' '' # arg else [])) CHR ''?'') ts"

definition user_prefix :: "string \<Rightarrow> string \<Rightarrow> titles \<Rightarrow> titles" where
  "user_prefix remote_ip user ts = vsf_sysutil_set_proctitle_prefix (remote_ip @ CHR ''/'' # user) ts"

section \<open>Versions of the kernel\<close>

text \<open>The comparison of numbers put together from bits is the comparison of versions, as long as the numbers fit.\<close>

lemma bits_of_version: "r2 < 256 \<Longrightarrow> r3 < 256 \<Longrightarrow> push_bit 16 r1 OR push_bit 8 r2 OR r3 = r1 * 65536 + r2 * 256 + (r3 :: nat)"
proof -
  assume r: "r2 < 256" "r3 < 256"
  have "push_bit 8 r2 AND r3 = 0" "push_bit 16 r1 AND (push_bit 8 r2 + r3) = 0"
  proof -
    have t: "r3 = take_bit 8 r3" "push_bit 8 r2 + r3 = take_bit 16 (push_bit 8 r2 + r3)"
      using r by (auto simp: take_bit_nat_eq_self push_bit_nat_def)
    show "push_bit 8 r2 AND r3 = 0" by (subst t(1)) (auto simp: bit_eq_iff bit_simps)
    show "push_bit 16 r1 AND (push_bit 8 r2 + r3) = 0" by (subst t(2)) (auto simp: bit_eq_iff bit_simps)
  qed
  then show ?thesis
    by (simp add: push_bit_nat_def flip: disjunctive_add_eq_or)
qed

lemma netns_fast_iff:
  assumes "scan_release s = Some (r1, r2, r3)" and "r2 < 256" and "r3 < 256"
  shows "vsf_sysutil_netns_cleanup_is_fast (Some s) \<longleftrightarrow> r1 > 2 \<or> r1 = 2 \<and> (r2 > 6 \<or> r2 = 6 \<and> r3 \<ge> 35)"
  using assms(2,3) by (auto simp: vsf_sysutil_netns_cleanup_is_fast_def assms(1) bits_of_version)

section \<open>A child starts afresh\<close>

definition newborn :: "kern \<Rightarrow> clone_flag list \<Rightarrow> process_state \<Rightarrow> process_state" where
  "newborn k flags p =
     vsf_sysutil_post_fork (p\<lparr>real_pid := k_newpid k, death_signal := None, unshared := flags, p_sigs := (p_sigs p)\<lparr>kpending := {}, alarm_in := 0\<rparr>\<rparr>)"

text \<open>The kernel does not have these flags, or does not permit them.\<close>

definition refused :: "kern \<Rightarrow> clone_flag list \<Rightarrow> bool" where
  "refused k flags \<longleftrightarrow> fst (k_clone k flags) = -1 \<and> snd (k_clone k flags) \<in> {EINVAL_NO, EPERM_NO}"

lemma try_clone_iff:
  "try_clone k flags p = None \<longleftrightarrow> refused k flags"
  "try_clone k flags p = Some (0, p') \<longleftrightarrow> fst (k_clone k flags) = 0 \<and> p' = newborn k flags p"
  by (auto simp: try_clone_def clone_call_def refused_def newborn_def split: prod.splits)

lemma fork_failok_child: "vsf_sysutil_fork_failok k p = (0, p') \<longleftrightarrow> fst (k_clone k []) = 0 \<and> p' = newborn k [] p"
  by (auto simp: vsf_sysutil_fork_failok_def clone_call_def newborn_def split: prod.splits)

lemma isolate_child:
  assumes "vsf_sysutil_fork_isolate_failok k p = (0, p')"
  shows "\<exists>q flags. p_sigs q = p_sigs p \<and> p' = newborn k flags q \<and>
    (flags = [CLONE_NEWPID, CLONE_NEWIPC] \<or> flags = [] \<and> (\<not> isolate_work p \<or> refused k [CLONE_NEWPID, CLONE_NEWIPC]))"
proof (cases "isolate_work p")
  case True
  then show ?thesis
    using assms by (cases "try_clone k [CLONE_NEWPID, CLONE_NEWIPC] p")
      (auto simp: vsf_sysutil_fork_isolate_failok_def try_clone_iff fork_failok_child intro: exI [of _ "p\<lparr>isolate_work := False\<rparr>"])
next
  case False
  then show ?thesis using assms by (auto simp: vsf_sysutil_fork_isolate_failok_def fork_failok_child)
qed

text \<open>Which flags a child may have, for a configuration: fewer than it asks for only if the kernel refused them, now or earlier, or is too old.\<close>

definition isolation_ok :: "kern \<Rightarrow> tunables \<Rightarrow> process_state \<Rightarrow> clone_flag list \<Rightarrow> bool" where
  "isolation_ok k t p flags \<longleftrightarrow>
     (if \<not> t_bool t ''isolate'' then flags = []
      else flags = [CLONE_NEWPID, CLONE_NEWIPC, CLONE_NEWNET] \<and> t_bool t ''http_enable'' \<and> t_bool t ''isolate_network'' \<or>
        (t_bool t ''http_enable'' \<and> t_bool t ''isolate_network'' \<longrightarrow>
           isolate_all_work p = 0 \<or> isolate_all_work p < 0 \<and> \<not> vsf_sysutil_netns_cleanup_is_fast (k_release k) \<or>
           refused k [CLONE_NEWPID, CLONE_NEWIPC, CLONE_NEWNET]) \<and>
        (flags = [CLONE_NEWPID, CLONE_NEWIPC] \<or> flags = [] \<and> (\<not> isolate_work p \<or> refused k [CLONE_NEWPID, CLONE_NEWIPC])))"

lemma isolate_all_child:
  assumes "vsf_sysutil_fork_isolate_all_failok k p = (0, p')"
  shows "\<exists>q flags. p_sigs q = p_sigs p \<and> p' = newborn k flags q \<and>
    (flags = [CLONE_NEWPID, CLONE_NEWIPC, CLONE_NEWNET] \<or>
     (isolate_all_work p = 0 \<or> isolate_all_work p < 0 \<and> \<not> vsf_sysutil_netns_cleanup_is_fast (k_release k) \<or>
        refused k [CLONE_NEWPID, CLONE_NEWIPC, CLONE_NEWNET]) \<and>
     (flags = [CLONE_NEWPID, CLONE_NEWIPC] \<or> flags = [] \<and> (\<not> isolate_work p \<or> refused k [CLONE_NEWPID, CLONE_NEWIPC])))"
proof -
  let ?all = "[CLONE_NEWPID, CLONE_NEWIPC, CLONE_NEWNET]"
  define p1 where "p1 = (if isolate_all_work p < 0
    then p\<lparr>isolate_all_work := if vsf_sysutil_netns_cleanup_is_fast (k_release k) then 1 else 0\<rparr> else p)"
  have p1: "p_sigs p1 = p_sigs p" "isolate_work p1 = isolate_work p"
    "isolate_all_work p1 = 0 \<Longrightarrow> isolate_all_work p = 0 \<or> isolate_all_work p < 0 \<and> \<not> vsf_sysutil_netns_cleanup_is_fast (k_release k)"
    by (auto simp: p1_def split: if_splits)
  have run: "vsf_sysutil_fork_isolate_all_failok k p =
      (if isolate_all_work p1 \<noteq> 0
       then (case try_clone k ?all p1 of Some r \<Rightarrow> r | None \<Rightarrow> vsf_sysutil_fork_isolate_failok k (p1\<lparr>isolate_all_work := 0\<rparr>))
       else vsf_sysutil_fork_isolate_failok k p1)"
    unfolding vsf_sysutil_fork_isolate_all_failok_def Let_def p1_def [symmetric] ..
  show ?thesis
  proof (cases "isolate_all_work p1 = 0")
    case True
    then show ?thesis using isolate_child [of k p1 p'] assms p1 by (auto simp: run)
  next
    case False
    show ?thesis
    proof (cases "try_clone k ?all p1")
      case None
      then have "refused k ?all" "vsf_sysutil_fork_isolate_failok k (p1\<lparr>isolate_all_work := 0\<rparr>) = (0, p')"
        using try_clone_iff(1) [of k ?all p1] assms False None by (simp_all add: run)
      then show ?thesis using isolate_child [of k "p1\<lparr>isolate_all_work := 0\<rparr>" p'] p1 by auto
    next
      case (Some r)
      then have "p' = newborn k ?all p1" using assms False by (simp add: run try_clone_iff)
      then show ?thesis using p1(1) by blast
    qed
  qed
qed

lemma fork_child_child:
  assumes "fork_child k t p = (0, p')"
  shows "\<exists>q flags. p_sigs q = p_sigs p \<and> p' = newborn k flags q \<and> isolation_ok k t p flags"
proof (cases "t_bool t ''isolate''")
  case False
  then show ?thesis using assms by (auto simp: fork_child_def fork_failok_child isolation_ok_def)
next
  case True
  show ?thesis
  proof (cases "t_bool t ''http_enable'' \<and> t_bool t ''isolate_network''")
    case all: True
    then show ?thesis using isolate_all_child [of k p p'] assms True by (simp add: fork_child_def isolation_ok_def)
  next
    case False
    then show ?thesis using isolate_child [of k p p'] assms True by (auto simp: fork_child_def isolation_ok_def)
  qed
qed

lemma newborn_sigs:
  assumes "runs_now (p_sigs q) = {}" and "\<And>i. NSIG \<le> i \<Longrightarrow> \<not> pending (s_sig_details (p_sigs q) i)"
  shows "sigs_ok (p_sigs (newborn k flags q))" and "runs_now (p_sigs (newborn k flags q)) = {}"
    and "i < NSIG \<Longrightarrow> sync_sig_handler (s_sig_details (p_sigs (newborn k flags q)) i) = None"
    and "s_io_handler (p_sigs (newborn k flags q)) = None"
proof -
  have same: "running (s_sig_details (p_sigs (newborn k flags q)) i) = running (s_sig_details (p_sigs q) i)"
    "s_io_handler_running (p_sigs (newborn k flags q)) = s_io_handler_running (p_sigs q)" for i
    by (simp_all add: newborn_def vsf_sysutil_post_fork_def Let_def)
  then show runs: "runs_now (p_sigs (newborn k flags q)) = {}" using assms(1) by (simp add: runs_now_def)
  have "\<not> pending (s_sig_details (p_sigs (newborn k flags q)) i)" for i
    using assms(2) [of i] by (cases "i < NSIG") (simp_all add: newborn_def vsf_sysutil_post_fork_def Let_def)
  moreover have "events (p_sigs (newborn k flags q)) = []" by (simp add: newborn_def vsf_sysutil_post_fork_def)
  ultimately show "sigs_ok (p_sigs (newborn k flags q))" by (simp add: sigs_ok_def runs)
qed (simp_all add: newborn_def vsf_sysutil_post_fork_def Let_def)

lemma client_in_child:
  assumes "standalone_inv st" and "s_children st < 4294967295"
  shows "\<exists>st'. standalone_client st ip 0 reaped = Inr (\<lparr>num_children = card (dom (kids st)) + 1, num_this_ip = kids_from (kids st) ip + 1\<rparr>, st')"
proof -
  have "u32 (s_children st + 1) = card (dom (kids st)) + 1" using assms by (simp add: standalone_inv_def)
  then show ?thesis using counted [OF assms, of ip] by (auto simp: standalone_client_def Let_def)
qed

text \<open>
  C15: what a child of the listener starts with. It is told how many clients there are and how many come from its client's address; it has no handlers, no pending
  signals and no exit function of the listener, so that its own signals work (the invariant of \<open>Signals\<close> holds); it knows its own process number; it dies with
  the listener; its descriptors 0, 1 and 2 are the client's, and those of the listener are closed; and it is as isolated as the configuration says and the
  kernel permits.
\<close>

theorem child_starts_afresh:
  assumes "listener_reachable st" and "s_children st < 4294967295" and "fork_child k t p = (0, p1)" and "k_prctl k = 0" and "k_newpid k < 2 ^ 32"
    and "runs_now (p_sigs p) = {}" and "\<And>i. NSIG \<le> i \<Longrightarrow> \<not> pending (s_sig_details (p_sigs p) i)"
    and "2 < listen_sock" and "2 < sock" and "sock \<noteq> listen_sock"
  shows "\<exists>info p' fds'. listener_turn k t listen_sock st p fds ip sock reaped = Inr (Launched info p' fds') \<and>
    num_children info = card (dom (kids st)) + 1 \<and> num_this_ip info = kids_from (kids st) ip + 1 \<and>
    sigs_ok (p_sigs p') \<and> runs_now (p_sigs p') = {} \<and> (\<forall>i<NSIG. sync_sig_handler (s_sig_details (p_sigs p') i) = None) \<and>
    s_io_handler (p_sigs p') = None \<and> s_exit_func p' = None \<and> fst (vsf_sysutil_getpid p') = k_newpid k \<and> death_signal p' = Some SIGKILL_NO \<and>
    (\<forall>i<3. fds' i = fds sock) \<and> fds' sock = None \<and> fds' listen_sock = None \<and> isolation_ok k t p (unshared p')"
proof -
  obtain q flags where q: "p_sigs q = p_sigs p" "p1 = newborn k flags q" "isolation_ok k t p flags"
    using fork_child_child [OF assms(3)] by blast
  obtain st' where "standalone_client st ip 0 reaped = Inr (\<lparr>num_children = card (dom (kids st)) + 1, num_this_ip = kids_from (kids st) ip + 1\<rparr>, st')"
    using client_in_child [OF reachable_inv [OF assms(1)] assms(2)] by blast
  then have turn: "listener_turn k t listen_sock st p fds ip sock reaped =
      Inr (Launched \<lparr>num_children = card (dom (kids st)) + 1, num_this_ip = kids_from (kids st) ip + 1\<rparr>
             (p1\<lparr>death_signal := Some SIGKILL_NO\<rparr>) (prepare_child (fds(listen_sock := None)) sock))"
    using assms(3,4) by (simp add: listener_turn_def vsf_set_die_if_parent_dies_def)
  have facts: "s_exit_func p1 = None" "s_current_pid p1 = -1" "real_pid p1 = k_newpid k" "unshared p1 = flags"
    by (simp_all add: q(2) newborn_def vsf_sysutil_post_fork_def)
  have pid: "fst (vsf_sysutil_getpid (p1\<lparr>death_signal := Some SIGKILL_NO\<rparr>)) = k_newpid k"
    using assms(5) facts by (simp add: vsf_sysutil_getpid_def vsf_sysutil_getpid_nocache_def Let_def)
  have fds: "prepare_child (fds(listen_sock := None)) sock i = fds sock" if "i < 3" for i
    using prepare_child_fds(1) [OF that, of "fds(listen_sock := None)" sock] assms(10) by simp
  have "prepare_child (fds(listen_sock := None)) sock listen_sock = None"
    using prepare_child_fds(3) [of listen_sock sock "fds(listen_sock := None)"] assms(8,10) by simp
  with turn pid fds show ?thesis
    using newborn_sigs [where q = q and k = k and flags = flags] assms(6,7,9) q facts prepare_child_fds(2) [of sock "fds(listen_sock := None)"] by simp
qed

definition example_kernel :: kern where
  "example_kernel = \<lparr>k_clone = (\<lambda>flags. if CLONE_NEWNET \<in> set flags then (-1, 1) else (0, 0)), k_release = Some ''3.2.0-4-amd64'', k_newpid = 77, k_prctl = 0\<rparr>"

definition example_listener :: process_state where
  "example_listener = \<lparr>p_sigs = listener_sigs, s_exit_func = Some 1, s_current_pid = 5, isolate_all_work = -1, isolate_work = True, newnet_work = -1,
     real_pid = 5, death_signal = None, unshared = []\<rparr>"

lemma child_starts_afresh_witness:
  "\<exists>info p' fds'. listener_turn example_kernel (tunables_load_defaults\<lparr>t_bool := (\<lambda>n. True)\<rparr>) 3 standalone_init example_listener
      [3 \<mapsto> ''listening'', 4 \<mapsto> ''client''] ''0123456789abcdef'' 4 [] = Inr (Launched info p' fds') \<and>
    num_children info = 1 \<and> fst (vsf_sysutil_getpid p') = 77 \<and> death_signal p' = Some 9 \<and> fds' 0 = Some ''client'' \<and> fds' 3 = None \<and> fds' 4 = None \<and>
    sigs_ok (p_sigs p')"
proof -
  let ?t = "tunables_load_defaults\<lparr>t_bool := (\<lambda>n. True)\<rparr>"
  have "fork_child example_kernel ?t example_listener =
      (0, newborn example_kernel [CLONE_NEWPID, CLONE_NEWIPC] (example_listener\<lparr>isolate_all_work := 0\<rparr>))"
    if "vsf_sysutil_netns_cleanup_is_fast (Some ''3.2.0-4-amd64'')"
    using that by (simp add: fork_child_def vsf_sysutil_fork_isolate_all_failok_def vsf_sysutil_fork_isolate_failok_def try_clone_def clone_call_def
        example_kernel_def example_listener_def newborn_def)
  moreover have "scan_release ''3.2.0-4-amd64'' = Some (3, 2, 0)" by code_simp
  then have "vsf_sysutil_netns_cleanup_is_fast (Some ''3.2.0-4-amd64'')" by (simp add: netns_fast_iff)
  ultimately have fork: "fork_child example_kernel ?t example_listener =
      (0, newborn example_kernel [CLONE_NEWPID, CLONE_NEWIPC] (example_listener\<lparr>isolate_all_work := 0\<rparr>))" by blast
  have sigs: "runs_now (p_sigs example_listener) = {}" "NSIG \<le> i \<Longrightarrow> \<not> pending (s_sig_details (p_sigs example_listener) i)" for i
    by (auto simp: example_listener_def listener_sigs_def runs_now_def sig_defs no_sigs_def Let_def split: if_splits)
  have k: "k_prctl example_kernel = 0" "k_newpid example_kernel = 77" "k_newpid example_kernel < 2 ^ 32" by (simp_all add: example_kernel_def)
  have z: "s_children standalone_init < 4294967295" by (simp add: standalone_init_def)
  from child_starts_afresh [where fds = "[3 \<mapsto> ''listening'', 4 \<mapsto> ''client'']" and sock = 4 and listen_sock = 3 and ip = "''0123456789abcdef''",
      OF init_reachable z fork k(1,3) sigs]
  show ?thesis by (simp add: k(2) standalone_init_inv(2)) (meson zero_less_numeral)
qed

section \<open>Reading the configuration again\<close>

text \<open>
  The configuration after \<^verbatim>\<open>SIGHUP\<close> does not depend on the one before: settings of the command line, or of all files but the last, are forgotten.
\<close>

lemma sighup_forgets: "handle_sighup avail fs my_uid (st\<lparr>tun := t\<rparr>) = handle_sighup avail fs my_uid st"
  by (simp add: handle_sighup_def)

lemma sighup_as_at_start:
  "saved_filename st = Some f \<Longrightarrow> handle_sighup avail fs my_uid st =
     vsf_parseconf_load_file avail fs my_uid \<lparr>saved_filename = None, tun = tunables_load_defaults\<rparr> (Some f) False"
  by (cases st) (simp add: handle_sighup_def vsf_parseconf_load_file_def Let_def)

text \<open>A file that is gone leaves the defaults in force; without a file from the start, or with one that belongs to somebody else, the listener ends.\<close>

lemma sighup_file_gone: "saved_filename st = Some f \<Longrightarrow> fs f = None \<Longrightarrow> handle_sighup avail fs my_uid st = Inr (st\<lparr>tun := tunables_load_defaults\<rparr>)"
  by (simp add: handle_sighup_def vsf_parseconf_load_file_def str_fileread_def vsf_sysutil_retval_is_error_def Let_def)

lemma sighup_ends_listener:
  "saved_filename st = None \<Longrightarrow> handle_sighup avail fs my_uid st = bug ''null filename in vsf_parseconf_load_file''"
  "saved_filename st = Some f \<Longrightarrow> fs f = Some i \<Longrightarrow> \<not> vsf_sysutil_statbuf_is_regfile (st_mode i) \<Longrightarrow>
     handle_sighup avail fs my_uid st = die ''config file not owned by correct user, or not a file''"
  "saved_filename st = Some f \<Longrightarrow> fs f = Some i \<Longrightarrow> st_uid i \<noteq> my_uid \<Longrightarrow> st_size i = int (length (file_data i)) \<Longrightarrow>
     vsf_sysutil_statbuf_is_regfile (st_mode i) \<Longrightarrow> handle_sighup avail fs my_uid st = die ''config file not owned by correct user, or not a file''"
  using str_fileread_regular [of fs f i 100000]
  by (simp_all add: handle_sighup_def vsf_parseconf_load_file_def str_fileread_def vsf_sysutil_retval_is_error_def INT_MAX_def Let_def)

section \<open>Titles stay in their place\<close>

text \<open>What a process does with its title.\<close>

datatype title_op = Prefix string | UserPrefix string string | Title string | CommandTitle string string

fun run_title :: "title_op \<Rightarrow> titles \<Rightarrow> titles result" where
  "run_title (Prefix p_str) ts = Inr (vsf_sysutil_set_proctitle_prefix p_str ts)"
| "run_title (UserPrefix remote_ip user) ts = Inr (user_prefix remote_ip user ts)"
| "run_title (Title p_text) ts = vsf_sysutil_setproctitle p_text ts"
| "run_title (CommandTitle cmd arg) ts = command_title cmd arg ts"

fun run_titles :: "title_op list \<Rightarrow> titles \<Rightarrow> titles result" where
  "run_titles [] ts = Inr ts"
| "run_titles (op # ops) ts = andthen (run_title op ts) (run_titles ops)"

text \<open>Addresses, names of users and fixed texts are printable; commands and their arguments are what the client sent.\<close>

fun title_op_ok :: "title_op \<Rightarrow> bool" where
  "title_op_ok (Prefix p_str) = list_all vsf_sysutil_isprint p_str"
| "title_op_ok (UserPrefix remote_ip user) = (list_all vsf_sysutil_isprint remote_ip \<and> list_all vsf_sysutil_isprint user)"
| "title_op_ok (Title p_text) = list_all vsf_sysutil_isprint p_text"
| "title_op_ok (CommandTitle cmd arg) = True"

definition titles_ok :: "nat \<Rightarrow> string \<Rightarrow> titles \<Rightarrow> bool" where
  "titles_ok n rest ts \<longleftrightarrow>
     s_proctitle_inited ts \<and> s_proctitle_space ts = n \<and> 0 < n \<and> n \<le> length (s_p_proctitle ts) \<and> drop n (s_p_proctitle ts) = rest \<and>
     length (c_str (s_p_proctitle ts)) < n"

definition titles_printable :: "titles \<Rightarrow> bool" where
  "titles_printable ts \<longleftrightarrow> list_all vsf_sysutil_isprint (s_proctitle_prefix_str ts) \<and> list_all vsf_sysutil_isprint (c_str (s_p_proctitle ts))"

lemma memclr_title_mem: "n \<le> length (s_p_proctitle ts) \<Longrightarrow> s_proctitle_space ts = n \<Longrightarrow>
    s_p_proctitle (memclr_title ts) = replicate n NUL @ drop n (s_p_proctitle ts)"
  by (simp add: memclr_title_def)

lemma c_str_at_nul: "NUL \<notin> set a \<Longrightarrow> c_str (a @ NUL # b) = a"
  by (induction a) (auto simp: c_str_def)

lemma c_str_zeros: "0 < n \<Longrightarrow> c_str (replicate n NUL @ r) = []"
  by (cases n) (auto simp: c_str_def)

lemma isprint_vsftpd: "list_all vsf_sysutil_isprint ''vsftpd: ''" "list_all vsf_sysutil_isprint '': ''"
  by (simp_all add: isprint_range)

lemma c_str_isprint: "list_all vsf_sysutil_isprint s \<Longrightarrow> c_str s = s"
  by (intro c_str_id) (auto simp: list_all_iff isprint_range)

lemma nul_c_str: "NUL \<notin> set (c_str s)"
  by (auto simp: c_str_def dest: set_takeWhileD)

lemma setproctitle_internal_ok:
  assumes "titles_ok n rest ts"
  shows "\<exists>ts'. vsf_sysutil_setproctitle_internal p_title ts = Inr ts' \<and> titles_ok n rest ts' \<and>
    s_proctitle_prefix_str ts' = s_proctitle_prefix_str ts \<and>
    c_str (s_p_proctitle ts') = (if n < 32 then [] else take (n - 1) (''vsftpd: '' @ c_str p_title))"
proof -
  let ?mem = "replicate n NUL @ rest" and ?s = "''vsftpd: '' @ c_str p_title"
  have ts: "s_proctitle_inited ts" "s_proctitle_space ts = n" "0 < n" "n \<le> length (s_p_proctitle ts)" "drop n (s_p_proctitle ts) = rest"
    using assms(1) by (auto simp: titles_ok_def)
  have mem: "memclr_title ts = ts\<lparr>s_p_proctitle := ?mem\<rparr>" using ts by (simp add: memclr_title_def)
  show ?thesis
  proof (cases "n < 32")
    case True
    then show ?thesis using ts by (simp add: vsf_sysutil_setproctitle_internal_def mem titles_ok_def c_str_zeros)
  next
    case False
    define k where "k = min (length ?s) (n - 1)"
    have k: "k < n" "take k ?s = take (n - 1) ?s" using ts(3) by (auto simp: k_def min_def)
    then obtain j where j: "n - k = Suc j" by (cases "n - k") auto
    have "drop k ?mem = NUL # replicate j NUL @ rest" using k(1) j by simp
    then have "(take k ?s @ drop k ?mem)[k := NUL] = take k ?s @ NUL # replicate j NUL @ rest"
      by (simp add: list_update_append k_def)
    then have run: "vsf_sysutil_setproctitle_internal p_title ts = Inr (ts\<lparr>s_p_proctitle := take k ?s @ NUL # replicate j NUL @ rest\<rparr>)"
      using ts False by (simp add: vsf_sysutil_setproctitle_internal_def mem k_def Let_def)
    have len: "length (take k ?s) = k" by (simp add: k_def)
    have "NUL \<notin> set ?s" using nul_c_str [of p_title] by simp
    then have "NUL \<notin> set (take k ?s)" by (blast dest: in_set_takeD)
    then have cs: "c_str (take k ?s @ NUL # replicate j NUL @ rest) = take k ?s" by (rule c_str_at_nul)
    have "drop n (take k ?s @ NUL # replicate j NUL @ rest) = rest" using k(1) j len by simp
    then show ?thesis using run False ts k len j cs by (simp add: titles_ok_def del: append_Cons append_Nil)
  qed
qed

lemma setproctitle_ok:
  assumes "titles_ok n rest ts"
  shows "\<exists>ts'. vsf_sysutil_setproctitle p_text ts = Inr ts' \<and> titles_ok n rest ts' \<and>
    (titles_printable ts \<and> list_all vsf_sysutil_isprint p_text \<longrightarrow> titles_printable ts')"
proof -
  let ?p = "s_proctitle_prefix_str ts"
  obtain ts' where ts': "vsf_sysutil_setproctitle p_text ts = Inr ts'" "titles_ok n rest ts'" "s_proctitle_prefix_str ts' = ?p"
      "c_str (s_p_proctitle ts') = (if n < 32 then [] else take (n - 1) (''vsftpd: '' @ c_str ((if ?p \<noteq> [] then ?p @ '': '' else ?p) @ c_str p_text)))"
    using setproctitle_internal_ok [OF assms] by (auto simp: vsf_sysutil_setproctitle_def Let_def)
  have "titles_printable ts'" if pr: "titles_printable ts" "list_all vsf_sysutil_isprint p_text"
  proof -
    define title where "title = (if ?p \<noteq> [] then ?p @ '': '' else ?p) @ p_text"
    have t: "list_all vsf_sysutil_isprint title" using pr isprint_vsftpd(2) by (simp add: titles_printable_def title_def)
    have "list_all vsf_sysutil_isprint (take (n - 1) (''vsftpd: '' @ title))"
      using t isprint_vsftpd(1) by (metis list_all_append append_take_drop_id)
    moreover have "c_str (s_p_proctitle ts') = (if n < 32 then [] else take (n - 1) (''vsftpd: '' @ title))"
      unfolding ts'(4) c_str_isprint [OF pr(2)] title_def [symmetric] c_str_isprint [OF t] by (rule refl)
    ultimately show ?thesis using pr(1) ts'(3) unfolding titles_printable_def by (simp split: if_splits)
  qed
  with ts' show ?thesis by blast
qed

lemma run_title_ok:
  assumes "titles_ok n rest ts"
  shows "\<exists>ts'. run_title op ts = Inr ts' \<and> titles_ok n rest ts' \<and> (titles_printable ts \<and> title_op_ok op \<longrightarrow> titles_printable ts')"
proof (cases op)
  case (CommandTitle cmd arg)
  have "list_all vsf_sysutil_isprint (str_replace_unprintable x CHR ''?'')" for x
    by (auto simp: str_replace_unprintable_def list_all_iff isprint_range)
  with setproctitle_ok [OF assms] show ?thesis
    unfolding CommandTitle run_title.simps command_title_def vsf_sysutil_setproctitle_str_def by blast
next
  case (Title p_text)
  then show ?thesis using setproctitle_ok [OF assms] by simp
qed (use assms in \<open>auto simp: titles_ok_def titles_printable_def vsf_sysutil_set_proctitle_prefix_def user_prefix_def isprint_range\<close>)

lemma title_space: "foldl (\<lambda>n s. u32 (n + length s + 1)) a ss = a + length (concat (map (\<lambda>s. s @ [NUL]) ss))"
  if "a + length (concat (map (\<lambda>s. s @ [NUL]) ss)) < 4294967296"
  using that by (induction ss arbitrary: a) (simp_all add: add.assoc)

lemma titles_ok_length: "titles_ok n rest ts \<Longrightarrow> length (s_p_proctitle ts) = n + length rest"
  by (auto simp: titles_ok_def)

text \<open>
  C37: titles of processes. Arguments and environment lie one after the other in memory (less than 4 GB of it, with at least one argument).
  After \<open>vsf_sysutil_setproctitle_init\<close>, whatever prefixes and titles are set, of whatever bytes and length, and whatever commands the
  client sends: no byte behind the environment changes, and the title ends inside of the memory that was its own. If the prefixes and the
  titles that the server itself sets (addresses, user names and fixed texts) are printable, everybody who lists the processes sees
  printable characters only, whatever bytes the client's commands have.
\<close>

theorem titles_in_place:
  assumes "mem = concat (map (\<lambda>s. s @ [NUL]) (argv @ environ)) @ rest" and "argv \<noteq> []"
    and "length (concat (map (\<lambda>s. s @ [NUL]) (argv @ environ))) < 4294967296"
  shows "\<exists>ts. andthen (vsf_sysutil_setproctitle_init argv environ
        \<lparr>s_proctitle_inited = False, s_proctitle_space = 0, s_proctitle_prefix_str = [], s_p_proctitle = mem\<rparr>) (run_titles ops) = Inr ts \<and>
    length (s_p_proctitle ts) = length mem \<and> drop (length mem - length rest) (s_p_proctitle ts) = rest \<and>
    length (c_str (s_p_proctitle ts)) < length mem - length rest \<and>
    (list_all title_op_ok ops \<longrightarrow> list_all vsf_sysutil_isprint (c_str (s_p_proctitle ts)))"
proof -
  let ?n = "length (concat (map (\<lambda>s. s @ [NUL]) (argv @ environ)))"
  let ?ts0 = "\<lparr>s_proctitle_inited = True, s_proctitle_space = ?n, s_proctitle_prefix_str = [], s_p_proctitle = replicate ?n NUL @ rest\<rparr>"
  have n: "0 < ?n" using assms(2) by (cases argv) simp_all
  have init: "vsf_sysutil_setproctitle_init argv environ
      \<lparr>s_proctitle_inited = False, s_proctitle_space = 0, s_proctitle_prefix_str = [], s_p_proctitle = mem\<rparr> = Inr ?ts0"
    using assms(2) title_space [of 0 "argv @ environ"] assms(3)
    by (simp add: vsf_sysutil_setproctitle_init_def memclr_title_def assms(1))
  have "titles_ok ?n rest ?ts0" "titles_printable ?ts0" using n by (simp_all add: titles_ok_def titles_printable_def c_str_zeros)
  moreover have "\<exists>ts'. run_titles ops ts = Inr ts' \<and> titles_ok ?n rest ts' \<and>
      (titles_printable ts \<and> list_all title_op_ok ops \<longrightarrow> titles_printable ts')" if "titles_ok ?n rest ts" for ts
    using that
  proof (induction ops arbitrary: ts)
    case (Cons op ops)
    then obtain ts1 where "run_title op ts = Inr ts1" "titles_ok ?n rest ts1" "titles_printable ts \<and> title_op_ok op \<longrightarrow> titles_printable ts1"
      using run_title_ok by blast
    with Cons.IH [of ts1] show ?case by auto
  qed simp
  ultimately obtain ts where ts: "run_titles ops ?ts0 = Inr ts" "titles_ok ?n rest ts" "list_all title_op_ok ops \<longrightarrow> titles_printable ts" by blast
  have "length mem - length rest = ?n" using assms(1) by simp
  moreover have "length (s_p_proctitle ts) = length mem"
    unfolding titles_ok_length [OF ts(2)] assms(1) by simp
  ultimately show ?thesis using init ts by (simp add: titles_ok_def titles_printable_def)
qed

lemma titles_in_place_witness:
  "\<exists>ts. andthen (vsf_sysutil_setproctitle_init [''/usr/sbin/vsftpd''] [''PATH=/bin:/usr/bin'']
      \<lparr>s_proctitle_inited = False, s_proctitle_space = 0, s_proctitle_prefix_str = [],
       s_p_proctitle = ''/usr/sbin/vsftpd'' @ [NUL] @ ''PATH=/bin:/usr/bin'' @ [NUL] @ ''other''\<rparr>)
      (run_titles [Prefix ''10.0.0.1'', CommandTitle ''RETR'' [CHR 0x1B, CHR ''[''], CommandTitle ''RETR'' (replicate 99 CHR ''x'')]) = Inr ts \<and>
    drop 36 (s_p_proctitle ts) = ''other'' \<and> list_all vsf_sysutil_isprint (c_str (s_p_proctitle ts))"
proof -
  let ?mem = "''/usr/sbin/vsftpd'' @ [NUL] @ ''PATH=/bin:/usr/bin'' @ [NUL] @ ''other''"
  let ?ops = "[Prefix ''10.0.0.1'', CommandTitle ''RETR'' [CHR 0x1B, CHR ''[''], CommandTitle ''RETR'' (replicate 99 CHR ''x'')]"
  define mem where "mem = ?mem"
  have l: "length mem - length ''other'' = 36" by (simp add: mem_def)
  have ops: "list_all title_op_ok ?ops" by (simp add: isprint_range)
  have m: "mem = concat (map (\<lambda>s. s @ [NUL]) ([''/usr/sbin/vsftpd''] @ [''PATH=/bin:/usr/bin''])) @ ''other''" by (simp add: mem_def)
  from titles_in_place [OF m, of ?ops] ops l show ?thesis unfolding mem_def [symmetric] by auto
qed

end
