(* ===== verification/Blocking.thy ===== *)
theory Blocking
  imports Signals Sysutil
begin

text \<open>
  The calls of \<^verbatim>\<open>sysutil.c\<close> that may block. A signal interrupts them; they look for pending signals after every attempt and try again when they were interrupted. Here this
  is put together with the handlers of \<open>Signals\<close>.
\<close>

section \<open>Attempts\<close>

text \<open>The signals that arrive during an attempt, what the system call returns, and the error number.\<close>

type_synonym syscall_try = "nat list \<times> int \<times> int"

abbreviation (input) EINTR_CODE :: int where "EINTR_CODE \<equiv> 4"
abbreviation (input) EAGAIN_CODE :: int where "EAGAIN_CODE \<equiv> 11"
abbreviation (input) EINPROGRESS_CODE :: int where "EINPROGRESS_CODE \<equiv> 115"

text \<open>What a call ends with: a value, or the end of the process by a handler. \<open>None\<close>: it still blocks after these attempts.\<close>

type_synonym 'a blocked_call = "('a result \<times> sigs) option"

text \<open>The check of pending signals after an attempt; \<open>H\<close> has the programs of the handlers.\<close>

definition looking :: "(nat \<Rightarrow> op list) \<Rightarrow> EVSFSysUtilInterruptContext \<Rightarrow> nat list \<Rightarrow> sigs \<Rightarrow> step option" where
  "looking H ctx arrived s = exec H (NSIG + 2) (map Arrives arrived @ [Check ctx]) s"

fun after_look :: "step option \<Rightarrow> (sigs \<Rightarrow> 'a blocked_call) \<Rightarrow> 'a blocked_call" where
  "after_look None f = None"
| "after_look (Some (Some h, s)) f = Some (Inl h, s)"
| "after_look (Some (None, s)) f = f s"

fun blocking :: "(nat \<Rightarrow> op list) \<Rightarrow> EVSFSysUtilInterruptContext \<Rightarrow> syscall_try list \<Rightarrow> sigs \<Rightarrow> (int \<times> int) blocked_call" where
  "blocking H ctx [] s = None"
| "blocking H ctx ((arrived, retval, saved_errno) # later) s =
     after_look (looking H ctx arrived s)
       (\<lambda>s. if retval < 0 \<and> saved_errno = EINTR_CODE then blocking H ctx later s else Some (Inr (retval, saved_errno), s))"

definition vsf_sysutil_read :: "(nat \<Rightarrow> op list) \<Rightarrow> syscall_try list \<Rightarrow> sigs \<Rightarrow> (int \<times> int) blocked_call" where
  "vsf_sysutil_read H = blocking H kVSFSysUtilIO"

definition vsf_sysutil_write :: "(nat \<Rightarrow> op list) \<Rightarrow> syscall_try list \<Rightarrow> sigs \<Rightarrow> (int \<times> int) blocked_call" where
  "vsf_sysutil_write H = blocking H kVSFSysUtilIO"

definition vsf_sysutil_recv_peek :: "(nat \<Rightarrow> op list) \<Rightarrow> syscall_try list \<Rightarrow> sigs \<Rightarrow> (int \<times> int) blocked_call" where
  "vsf_sysutil_recv_peek H = blocking H kVSFSysUtilIO"

definition lock_internal :: "(nat \<Rightarrow> op list) \<Rightarrow> syscall_try list \<Rightarrow> sigs \<Rightarrow> (int \<times> int) blocked_call" where
  "lock_internal H = blocking H kVSFSysUtilUnknown"

section \<open>Waiting for connections\<close>

text \<open>The loop with \<open>select\<close>: 1 when the descriptor is ready, otherwise -1.\<close>

definition select_ready :: "(nat \<Rightarrow> op list) \<Rightarrow> syscall_try list \<Rightarrow> sigs \<Rightarrow> (int \<times> int) blocked_call" where
  "select_ready H selects s =
     (case blocking H kVSFSysUtilUnknown selects s of
        Some (Inr (retval, err), s) \<Rightarrow> Some (Inr (if retval \<le> 0 then (-1, if retval = 0 then EAGAIN_CODE else err) else (1, err)), s)
      | r \<Rightarrow> r)"

fun then_call :: "'a blocked_call \<Rightarrow> ('a \<Rightarrow> sigs \<Rightarrow> 'b blocked_call) \<Rightarrow> 'b blocked_call" where
  "then_call None f = None"
| "then_call (Some (Inl h, s)) f = Some (Inl h, s)"
| "then_call (Some (Inr x, s)) f = f x s"

text \<open>
  What \<open>accept\<close> does: the signals, its result, the length and the family of the address, and the address. The result is the descriptor and the address that the caller's buffer has then,
  \<open>None\<close> for one that was only cleared.
\<close>

record 'addr accepted =
  acc_arrived :: "nat list"
  acc_ret :: int
  acc_socklen :: nat
  acc_family_known :: bool
  acc_addr :: 'addr

definition vsf_sysutil_accept_timeout ::
  "(nat \<Rightarrow> op list) \<Rightarrow> nat \<Rightarrow> syscall_try list \<Rightarrow> 'addr accepted \<Rightarrow> sigs \<Rightarrow> (int \<times> 'addr option) blocked_call" where
  "vsf_sysutil_accept_timeout H wait_seconds selects acc s =
     then_call (if wait_seconds > 0 then select_ready H selects s else Some (Inr (1, 0), s)) (\<lambda>(ready, err) s.
     if ready < 0 then Some (Inr (-1, None), s)
     else after_look (looking H kVSFSysUtilUnknown (acc_arrived acc) s) (\<lambda>s.
          if acc_ret acc < 0 then Some (Inr (acc_ret acc, None), s)
          else if acc_socklen acc = 0 then Some (Inr (-1, None), s)
          else if \<not> acc_family_known acc then Some (die ''can only support ipv4 and ipv6 currently'', s)
          else Some (Inr (acc_ret acc, Some (acc_addr acc)), s)))"

text \<open>
  \<open>connect\<close> on a descriptor that is put into the mode that does not block, and back. The result has the mode of the descriptor: the process may end inside.
\<close>

record connecting =
  con_family_known :: bool
  con_ret :: int
  con_errno :: int
  con_selects :: "syscall_try list"
  con_sockopt :: int
  con_so_error :: int

definition connect_finish :: "(nat \<Rightarrow> op list) \<Rightarrow> connecting \<Rightarrow> sigs \<Rightarrow> int blocked_call" where
  "connect_finish H con s =
     (if con_ret con < 0 \<and> con_errno con = EINPROGRESS_CODE
      then then_call (select_ready H (con_selects con) s) (\<lambda>(ready, err) s.
           if ready < 0 then Some (Inr (-1), s)
           else if con_sockopt con \<noteq> 0 then Some (die ''getsockopt'', s)
           else if con_so_error con \<noteq> 0 then Some (Inr (-1), s)
           else Some (Inr 0, s))
      else Some (Inr (con_ret con), s))"

definition vsf_sysutil_connect_timeout ::
  "(nat \<Rightarrow> op list) \<Rightarrow> nat \<Rightarrow> connecting \<Rightarrow> bool \<Rightarrow> sigs \<Rightarrow> (int \<times> bool) blocked_call" where
  "vsf_sysutil_connect_timeout H wait_seconds con noblock s =
     (if \<not> con_family_known con then Some (die ''can only support ipv4 and ipv6 currently'', s)
      else let noblock = (if wait_seconds > 0 then True else noblock) in
           then_call (connect_finish H con s) (\<lambda>retval s.
           let noblock = (if wait_seconds > 0 then False else noblock) in Some (Inr (retval, noblock), s)))"

section \<open>Blocking calls return, and handle signals\<close>

lemma deliver_notes:
  assumes "deliver j s = (None, s1)"
  shows "blocked s1 = blocked s" and "dispositions s1 = dispositions s" and "installed i s1 = installed i s"
    and "pending (s_sig_details s i) \<Longrightarrow> pending (s_sig_details s1 i)"
    and "j \<notin> blocked s \<Longrightarrow> dispositions s j = Common \<Longrightarrow> installed j s \<Longrightarrow> j < NSIG \<Longrightarrow> pending (s_sig_details s1 j)"
  using assms by (auto simp: deliver_def installed_def sig_defs Let_def split: disposition.splits if_splits)

text \<open>A signal that is noted, or will be when it arrives now.\<close>

definition coming :: "nat \<Rightarrow> nat list \<Rightarrow> sigs \<Rightarrow> bool" where
  "coming i arrived s \<longleftrightarrow> pending (s_sig_details s i) \<or> i \<in> set arrived \<and> i \<notin> blocked s \<and> dispositions s i = Common"

lemma arrivals_noted:
  assumes "run_ops check (map Arrives arrived) s = Some (None, s1)" and "coming i arrived s" and "installed i s" and "i < NSIG"
  shows "pending (s_sig_details s1 i) \<and> installed i s1"
  using assms(1-3)
proof (induction arrived arbitrary: s)
  case (Cons j arrived)
  obtain s2 where s2: "deliver j s = (None, s2)" "run_ops check (map Arrives arrived) s2 = Some (None, s1)"
    using Cons.prems(1) by (cases "Some (deliver j s)" rule: and_next_cases) auto
  note d = deliver_notes(1,2) [OF s2(1)] deliver_notes(3,4) [OF s2(1), of i]
  have "coming i arrived s2" using Cons.prems(2) d deliver_notes(5) [OF s2(1)] Cons.prems(3) assms(4) by (auto simp: coming_def)
  moreover have "installed i s2" using Cons.prems(3) d(3) by simp
  ultimately show ?case by (rule Cons.IH [OF s2(2)])
qed (simp_all add: coming_def)

lemma looking_handles:
  assumes "sigs_ok s" and "runs_now s = {}" and "i < NSIG" and "installed i s" and "\<And>h. list_all (keeps_sig i) (H h)" and "coming i arrived s"
    and "looking H ctx arrived s = Some (None, s')"
  shows "handled i s s'"
proof -
  let ?check = "vsf_sysutil_check_pending_actions H (exec H (NSIG + 1))"
  have "and_next (run_ops ?check (map Arrives arrived) s) (run_ops ?check [Check ctx]) = Some (None, s')"
    using assms(7) by (simp add: looking_def numeral_2_eq_2 run_ops_append)
  then obtain s1 where s1: "run_ops ?check (map Arrives arrived) s = Some (None, s1)" "?check ctx s1 = Some (None, s')"
    by (cases "run_ops ?check (map Arrives arrived) s" rule: and_next_cases; cases "?check ctx (snd (the (run_ops ?check (map Arrives arrived) s)))"
        rule: and_next_cases) auto
  have a: "after s (None, s1)" by (rule run_ops_after [OF exec.check_after assms(1) s1(1)])
  have keeping: "keeping_runner (exec H (NSIG + 1)) H i" by (rule exec_keeps) (rule assms(5))
  have "handled i s1 s'"
    using keeping_runner.check_handles [OF keeping _ assms(3) _ _ _ s1(2)] arrivals_noted [OF s1(1) assms(6,4,3)] a assms(2) by (simp add: after_def)
  then show ?thesis using a by (auto simp: after_def intro: handled_trans(2))
qed

definition interrupted :: "syscall_try \<Rightarrow> bool" where
  "interrupted a \<longleftrightarrow> fst (snd a) < 0 \<and> snd (snd a) = EINTR_CODE"

lemma looking_cases:
  assumes "sigs_ok s"
  obtains h s' where "looking H ctx arrived s = Some (Some h, s')" "sigs_ok s'"
  | s' where "looking H ctx arrived s = Some (None, s')" "sigs_ok s'" "runs_now s' = runs_now s" "suffix (events s) (events s')"
proof -
  obtain out s' where run: "looking H ctx arrived s = Some (out, s')" "after s (out, s')"
    using exec_returns [OF assms] unfolding looking_def by blast
  then show ?thesis using that by (cases out) (auto simp: after_def)
qed

lemma blocking_returns:
  assumes "sigs_ok s" and "list_all interrupted pre" and "\<not> interrupted a"
  shows "\<exists>out s'. blocking H ctx (pre @ a # post) s = Some (out, s') \<and> sigs_ok s' \<and>
    (\<forall>v. out = Inr v \<longrightarrow> v = snd a \<and> runs_now s' = runs_now s \<and> suffix (events s) (events s'))"
  using assms(1,2)
proof (induction pre arbitrary: s)
  case Nil
  then show ?case using assms(3) by (cases a, cases rule: looking_cases [OF Nil.prems(1), of H ctx "fst a"]) (auto simp: interrupted_def)
next
  case (Cons b pre)
  obtain arr r err where b: "b = (arr, r, err)" by (cases b)
  show ?case
  proof (cases rule: looking_cases [OF Cons.prems(1), of H ctx arr])
    case (1 h s')
    then show ?thesis by (simp add: b)
  next
    case (2 s1)
    obtain out s' where "blocking H ctx (pre @ a # post) s1 = Some (out, s')" "sigs_ok s'"
      "\<And>v. out = Inr v \<Longrightarrow> v = snd a \<and> runs_now s' = runs_now s1 \<and> suffix (events s1) (events s')"
      using Cons.IH [OF 2(2)] Cons.prems(2) by auto
    then show ?thesis using Cons.prems(2) 2 by (auto simp: b interrupted_def intro: suffix_order.trans)
  qed
qed

lemma blocking_handles:
  assumes "sigs_ok s" and "runs_now s = {}" and "i < NSIG" and "installed i s" and "\<And>h. list_all (keeps_sig i) (H h)" and "coming i (fst (hd as)) s"
    and "blocking H ctx as s = Some (Inr v, s')" and "list_all interrupted pre" and "\<not> interrupted a" and "as = pre @ a # post"
  shows "handled i s s'"
proof -
  obtain arr r err rest where as: "as = (arr, r, err) # rest" using assms(7) by (cases as) auto
  obtain s1 where s1: "looking H ctx arr s = Some (None, s1)" "sigs_ok s1" "runs_now s1 = {}"
    using assms(7,2) by (cases rule: looking_cases [OF assms(1), of H ctx arr]) (auto simp: as)
  have h: "handled i s s1" using looking_handles [OF assms(1-5) _ s1(1)] assms(6) by (simp add: as)
  have "suffix (events s1) (events s')"
  proof (cases pre)
    case Nil
    then show ?thesis using assms(7,9,10) s1(1) as by (auto simp: interrupted_def)
  next
    case (Cons b pre')
    then have b: "b = (arr, r, err)" "rest = pre' @ a # post" using as assms(10) by simp_all
    then have "blocking H ctx (pre' @ a # post) s1 = Some (Inr v, s')"
      using assms(7,8) s1(1) Cons by (simp add: as interrupted_def)
    then show ?thesis using blocking_returns [OF s1(2), of pre' a H ctx post] assms(8,9) Cons by (cases v) auto
  qed
  then show ?thesis by (rule handled_trans(1) [OF h])
qed

text \<open>
  C14: the calls that look for signals after every attempt: reading, writing, peeking at a socket and locking a file
  (\<open>vsf_sysutil_read\<close>, \<open>vsf_sysutil_write\<close>, \<open>vsf_sysutil_recv_peek\<close>, \<open>lock_internal\<close>). However often signals interrupt the system call, as
  soon as an attempt is not interrupted the function returns the result of that attempt, unless a handler ends the process; no handler runs any longer
  then; and every signal that was noted before the call, or arrives during its first attempt, has been given to its handler, provided that handlers do
  not remove this one. (\<open>vsf_sysutil_wait\<close> and \<open>vsf_sysutil_close\<close> look only after an interruption, and accepting a connection does not try again:
  the statement is not about these.)
\<close>

theorem blocking_call:
  assumes "sigs_ok s" and "runs_now s = {}" and "list_all interrupted pre" and "\<not> interrupted a"
    and "\<And>i h. i \<in> S \<Longrightarrow> list_all (keeps_sig i) (H h)" and "\<And>i. i \<in> S \<Longrightarrow> i < NSIG \<and> installed i s \<and> coming i (fst (hd (pre @ [a]))) s"
    and "f = vsf_sysutil_read \<or> f = vsf_sysutil_write \<or> f = vsf_sysutil_recv_peek \<or> f = lock_internal"
  shows "\<exists>out s'. f H (pre @ a # post) s = Some (out, s') \<and> sigs_ok s' \<and>
    (case out of Inl h \<Rightarrow> True | Inr v \<Rightarrow> v = snd a \<and> runs_now s' = {} \<and> (\<forall>i\<in>S. handled i s s'))"
proof -
  obtain ctx where f: "f H = blocking H ctx"
    using assms(7) by (auto simp: vsf_sysutil_read_def vsf_sysutil_write_def vsf_sysutil_recv_peek_def lock_internal_def)
  have hd: "hd (pre @ a # post) = hd (pre @ [a])" by (cases pre) simp_all
  obtain out s' where run: "blocking H ctx (pre @ a # post) s = Some (out, s')" "sigs_ok s'"
    "\<And>v. out = Inr v \<Longrightarrow> v = snd a \<and> runs_now s' = runs_now s \<and> suffix (events s) (events s')"
    using blocking_returns [OF assms(1,3,4), of H ctx post] by auto
  have "handled i s s'" if "out = Inr v" "i \<in> S" for v i
    using run(1) that(1) assms(6) [OF that(2)] hd
    by (intro blocking_handles [OF assms(1,2) _ _ assms(5) [OF that(2)], where as = "pre @ a # post" and pre = pre and a = a and post = post and v = v
          and ctx = ctx] assms(3,4)) auto
  then show ?thesis using run assms(2) unfolding f by (cases out) auto
qed

lemma blocking_call_witness:
  "\<exists>out s'. vsf_sysutil_read (server_handlers (\<lambda>h. [kVSFSysUtilIO]) (\<lambda>h. None)) [([17], -1, 4), ([], 5, 0)] listener_sigs = Some (out, s') \<and>
    (case out of Inl h \<Rightarrow> True | Inr v \<Rightarrow> v = (5, 0) \<and> handled 17 listener_sigs s')"
proof -
  have "sigs_ok listener_sigs" "runs_now listener_sigs = {}"
    using no_sigs_ok by (auto simp: listener_sigs_def sigs_ok_def runs_now_def sig_defs no_sigs_def Let_def split: if_splits)
  moreover have "list_all interrupted [([17], -1, 4)]" "\<not> interrupted ([], 5, 0)" by (simp_all add: interrupted_def)
  moreover have "17 < NSIG \<and> installed 17 listener_sigs \<and> coming 17 (fst (hd ([([17], -1, 4)] @ [([], 5, 0)]))) listener_sigs"
    by (simp add: NSIG_def installed_def coming_def listener_sigs_def sig_defs no_sigs_def Let_def)
  ultimately obtain out s' where "vsf_sysutil_read (server_handlers (\<lambda>h. [kVSFSysUtilIO]) (\<lambda>h. None)) [([17], -1, 4), ([], 5, 0)] listener_sigs = Some (out, s')"
    "case out of Inl h \<Rightarrow> True | Inr v \<Rightarrow> v = snd ([] :: nat list, 5, 0) \<and> runs_now s' = {} \<and> (\<forall>i\<in>{17}. handled i listener_sigs s')"
    using blocking_call [where s = listener_sigs and pre = "[([17], -1, 4)]" and a = "([], 5, 0)" and post = "[]" and S = "{17}"
        and H = "server_handlers (\<lambda>h. [kVSFSysUtilIO]) (\<lambda>h. None)" and f = vsf_sysutil_read] server_handlers_keep by auto
  then show ?thesis by (intro exI [of _ out] exI [of _ s']) (cases out; simp)
qed

section \<open>Connections\<close>

lemma then_call_Some: "then_call r f = Some (Inr y, s') \<longleftrightarrow> (\<exists>x s. r = Some (Inr x, s) \<and> f x s = Some (Inr y, s'))"
  by (cases "(r, f)" rule: then_call.cases) auto

lemma after_look_Some: "after_look r f = Some (Inr y, s') \<longleftrightarrow> (\<exists>s. r = Some (None, s) \<and> f s = Some (Inr y, s'))"
  by (cases "(r, f)" rule: after_look.cases) auto

text \<open>A descriptor that the caller gets is the accepted one, of a known family, with the address of the peer.\<close>

lemma accept_timeout_sound:
  assumes "vsf_sysutil_accept_timeout H wait_seconds selects acc s = Some (Inr (fd, p_addr), s')" and "0 \<le> fd"
  shows "fd = acc_ret acc \<and> acc_family_known acc \<and> p_addr = Some (acc_addr acc)"
  using assms by (auto simp: vsf_sysutil_accept_timeout_def then_call_Some after_look_Some halt_simps split: if_splits)

text \<open>With an address of length 0, which some systems give for a connection that is gone, the descriptor is neither returned nor closed.\<close>

lemma accept_forgets_descriptor:
  assumes "vsf_sysutil_accept_timeout H 0 selects acc s = Some (Inr (fd, p_addr), s')" and "0 \<le> acc_ret acc" and "acc_socklen acc = 0"
  shows "fd = -1"
  using assms by (auto simp: vsf_sysutil_accept_timeout_def after_look_Some split: if_splits)

text \<open>A socket that was made not to block for a connection with a time limit blocks again afterwards, on success and on failure.\<close>

lemma connect_timeout_mode:
  assumes "vsf_sysutil_connect_timeout H wait_seconds con noblock s = Some (Inr (retval, noblock'), s')"
  shows "noblock' \<longleftrightarrow> (if wait_seconds > 0 then False else noblock)"
    and "retval = 0 \<Longrightarrow> con_ret con = 0 \<or> con_errno con = EINPROGRESS_CODE \<and> con_sockopt con = 0 \<and> con_so_error con = 0"
  using assms by (auto simp: vsf_sysutil_connect_timeout_def connect_finish_def then_call_Some halt_simps Let_def split: if_splits)

end
