(* ===== verification/Spec2Isabelle.thy ===== *)
theory Spec2Isabelle
  imports Str_Buf Strlist Ascii Standalone Parseconf Ls Parent Confinement Ftppolicy Startup Auth Sendfile Secbuf Sslslave Datetime Process Blocking
begin

text \<open>
  A verification of the FTP server \<^verbatim>\<open>vsftpd 2.3.5\<close> with the updater of the Minecraft installer (\<^verbatim>\<open>mcupdate.c\<close>), in
  \<^verbatim>\<open>src/vsftpd-2.3.5\<close>. The Java client under \<^verbatim>\<open>src/client\<close> is not part of it.

  \<^bold>\<open>The program.\<close> A listener (\<^verbatim>\<open>standalone.c\<close>) counts clients per address in a hash table (\<^verbatim>\<open>hash.c\<close>) and starts a process
  for each (\<^verbatim>\<open>main.c\<close> reads the configuration, checks it and chooses the process model first). Before login (\<^verbatim>\<open>prelogin.c\<close>) a process checks limits, greets and reads \<^verbatim>\<open>USER\<close> and \<^verbatim>\<open>PASS\<close>; the check of a
  login and the sockets that need privileges are in \<^verbatim>\<open>privops.c\<close>, either called directly (\<^verbatim>\<open>oneprocess.c\<close>, which may run in a sandbox:
  \<^verbatim>\<open>ftppolicy.c\<close>, \<^verbatim>\<open>ptracesandbox.c\<close>) or through a privileged parent (\<^verbatim>\<open>twoprocess.c\<close>, \<^verbatim>\<open>postprivparent.c\<close>) that a
  process asks over a socket pair (\<^verbatim>\<open>privsock.c\<close>). Processes give up their privileges in \<^verbatim>\<open>secutil.c\<close>; PAM decides on
  logins (\<^verbatim>\<open>sysdeputil.c\<close>). After login (\<^verbatim>\<open>postlogin.c\<close>) a loop reads one command at a
  time (\<^verbatim>\<open>ftpcmdio.c\<close>, \<^verbatim>\<open>netstr.c\<close>), checks it against the configuration (\<^verbatim>\<open>parseconf.c\<close>, \<^verbatim>\<open>tunables.c\<close>) and the file name
  patterns (\<^verbatim>\<open>access.c\<close>, the matcher of \<^verbatim>\<open>ls.c\<close>), and runs a handler, which may move data (\<^verbatim>\<open>ftpdataio.c\<close>, \<^verbatim>\<open>ascii.c\<close>),
  list directories (\<^verbatim>\<open>ls.c\<close>, \<^verbatim>\<open>strlist.c\<close>) and write logs (\<^verbatim>\<open>logging.c\<close>). Strings are those of \<^verbatim>\<open>str.c\<close>.

  \<^bold>\<open>How code is modelled.\<close> A string is its bytes. \<open>die\<close> and \<open>bug\<close>, exits, and undefined behaviour (a read outside a
  buffer, a null pointer, an uninitialised variable) are values of \<open>halt\<close>; pure code that may stop has a \<open>result\<close>.
  Where buffers and aliasing matter (\<open>Str_Buf\<close>, \<open>Ascii\<close>, \<open>Hash\<close>) memory is explicit. Code of a session is an action
  \<open>vsf_session \<Rightarrow> outcome\<close> (\<open>Session\<close>): it returns a value or stops, and leaves a session either way. The session record
  has the fields of \<open>struct vsf_session\<close>, the bytes the client will send, and the trace of all it did to the outside.
  The kernel, the C library and OpenSSL are the record \<open>env\<close>: functions of the trace, so that an answer may depend on
  everything before it. A property that relies on them says so in its hypotheses (\<open>disk_ok\<close>, \<open>line_ok\<close>).

  \<^bold>\<open>The theories.\<close>
  \<^item> \<open>Prelude\<close>: results, words, lists. \<open>Sysutil\<close>: the parts of \<^verbatim>\<open>sysutil.c\<close> that compute: numbers and their texts,
    read and write loops, modes, addresses. \<open>Str\<close>, \<open>Str_Buf\<close>: \<^verbatim>\<open>str.c\<close> on values and on buffers; every operation on
    buffers refines the one on values and keeps the buffer well-formed.
  \<^item> \<open>Strlist\<close>, \<open>Ascii\<close>, \<open>Ipaddrparse\<close>, \<open>Hash\<close>, \<open>Tunables\<close>, \<open>Filestr\<close>, \<open>Parseconf\<close>, \<open>Lsfilter\<close>, \<open>Access\<close>, \<open>Ls\<close>: the
    files of these names (\<open>Lsfilter\<close>: the pattern matcher of \<^verbatim>\<open>ls.c\<close>). Shown: sorted lists, conversions that do not
    depend on where the data is cut, address and number round trips, the hash table as a map, configuration files read
    back as written, listings that show only what they may, patterns that match only what they say.
  \<^item> \<open>Standalone\<close>: the listener. Its counts are those of the living children, its limits refuse exactly the excess.
  \<^item> \<open>Netstr\<close>, \<open>Ftpcmdio\<close>, \<open>Logging\<close>, \<open>Banner\<close>: reading lines and commands, replies, log lines, messages, \<^verbatim>\<open>FEAT\<close>,
    \<^verbatim>\<open>OPTS\<close> and the commands of TLS. A reply is one line, a command arrives as it was meant.
  \<^item> \<open>Privops\<close>, \<open>Parent\<close>, \<open>Prelogin\<close>: privileged operations, the parent's requests and its loop, both process models,
    login. Ports of passive connections are in range; a session process cannot make the parent do more than its few
    services; a login needs the grounds that the configuration names.
  \<^item> \<open>Bytes\<close>, \<open>Privsock\<close>, \<open>Channels\<close>: integers as bytes, the messages between the processes, and which process holds
    which end of the socket pairs. What one side sends the other reads; the limits of the parent hold for every
    sequence of bytes and descriptors that a session may send, not only for well-formed requests.
  \<^item> \<open>Secutil\<close>, \<open>Twoprocess\<close>, \<open>Startup\<close>, \<open>Auth\<close>: credentials and system calls on them, \<open>vsf_secutil_change_credentials\<close>,
    the start of both process models with per-user configuration, \<open>main\<close>, PAM with its conversation and the login
    records. Every process that talks to the network is without privileges and confined; a session process starts
    only for a login with grounds; a checked configuration is in force when a session starts; PAM is used as it
    wants to be, on every path.
  \<^item> \<open>Sandbox\<close>, \<open>Ftppolicy\<close>: the supervisor on i386 and the policy for a session: a call that the policy does not list,
    or whose arguments its validator refuses, is never executed and ends the session.
  \<^item> \<open>Signals\<close>: how \<^verbatim>\<open>sysutil.c\<close> takes signals: a handler of the kernel notes one, \<open>vsf_sysutil_check_pending_actions\<close> runs the handlers
    after every call that may block. Handlers do not enter themselves, whatever arrives while they run, and every signal is handled.
  \<^item> \<open>Blocking\<close>, \<open>Process\<close>: calls that block and are interrupted, with the handlers that then run; starting processes, with namespaces, and what the child of the
    listener inherits; waiting for children; \<^verbatim>\<open>SIGHUP\<close>; process titles. An interrupted call returns what its first whole attempt returns, with all signals handled; a child starts with
    nothing of the listener's; a title never leaves its place in memory.
  \<^item> \<open>Datetime\<close>: the time zone, dates of listings, logs and \<^verbatim>\<open>MDTM\<close>, on a calendar that is shown to be right. A date that the server gave sets the time that it stands for.
  \<^item> \<open>Tls\<close>, \<open>Sslslave\<close>: \<^verbatim>\<open>ssl.c\<close> on top of OpenSSL, the slave process that has the keys (\<^verbatim>\<open>sslslave.c\<close>) and the requests of the process that
    uses it (\<^verbatim>\<open>readwrite.c\<close>, \<^verbatim>\<open>ftpdataio.c\<close>). A data connection is accepted only with the certificate of the control connection and, if configured, its
    session; the slave makes no difference to what a session sends and gets. The handlers of \<open>Ftpdataio\<close> and \<open>Ftpcmdio\<close> see these
    operations as requests to the environment.
  \<^item> \<open>Sendfile\<close>, \<open>Secbuf\<close>: sending a file by the system call or by copying, and buffers between pages that must not be
    touched.
  \<^item> \<open>Ftpdataio\<close>, \<open>Mcupdate\<close>, \<open>Postlogin\<close>, \<open>Commands\<close>, \<open>Dispatch\<close>: transfers, the updater, the handlers, the command
    loop. Uploads and downloads move exactly the bytes they should.
  \<^item> \<open>Policy\<close>, \<open>Confinement\<close>: what a session may do to the outside, as a predicate on events, and the proof, handler by
    handler, that the session of \<open>process_post_login\<close> does nothing else, ends, and never has an address from the
    client and a passive socket at once.

  \<^bold>\<open>Interfaces\<close> are locales: what a socket promises to the reader of lines (\<open>stream_socket\<close>), what a converter of
  pieces promises to a transfer (\<open>chunk_converter\<close>), what a comparison promises to the sort, a finite map to the
  listener, a policy to the supervisor (\<open>sandbox_policy\<close>), and what a way to run handlers promises to the
  search for pending signals (\<open>handler_runner\<close>, \<open>deep_runner\<close>, \<open>keeping_runner\<close>); each is interpreted on the model's own functions. Preservation proofs use the rules of the collection
  \<open>vc\<close>, one per operation, so that a handler is proved by introducing the rules of what it calls.

  \<^bold>\<open>Bounds.\<close> \<open>post_login_loop\<close> has a bound on its turns because the loop has no exit; \<open>session_ends\<close> shows that one
  turn more than the bytes of input is never used up. \<open>transfer_dir_internal\<close> stops at 4096 levels of directories, more
  than a path can have. \<open>port_active\<close> and \<open>pasv_active\<close> count stack frames, of which two are enough unless the calls
  never end (\<open>active_cross_check\<close>). \<open>unique_loop\<close> tries every value of its 32-bit counter once. \<open>exec\<close> counts how
  deep handlers are nested; one for each signal and one for I/O is enough (\<open>handlers_nest\<close>). The loops of the other
  processes (\<open>login_loop\<close>, \<open>read_requests\<close>, \<open>run_loop\<close>, \<open>send_chunks\<close>, \<open>copy_loop\<close>) recurse on what arrives or on what the
  kernel answers, and have no bound of their own.

  \<^bold>\<open>Not modelled.\<close> The bandwidth limit of \<open>handle_io\<close> (floating point and sleeping); the moment at which a signal interrupts a transfer of \<open>Ftpdataio\<close>
  (\<open>Blocking\<close> has the calls and the handlers, the transfers see their results); the cryptography and records of TLS (OpenSSL is a parameter of \<open>Tls\<close>);
  socket options. A fork is followed into the parent or into the child, not into both at once; the sessions of other theories do not carry the state of
  \<open>Signals\<close>, \<open>Process\<close> and \<open>Datetime\<close> with them, and see process numbers, dates and titles as parts of the environment. Of \<^verbatim>\<open>sysdeputil.c\<close>: the variants for systems
  other than Linux. Of \<^verbatim>\<open>sysutil.c\<close>: wrappers of system calls whose effect is in the kernel only. \<^verbatim>\<open>ptracesandbox.c\<close> has stubs for processors other than
  i386 that do nothing.
\<close>

end
